(* ===== verification/Prelude.thy ===== *)
theory Prelude
  imports Main
begin

text \<open>
  Shared vocabulary of the development.

  The frontend is TypeScript, so every component works on JavaScript strings, arrays and
  insertion-ordered sets. This theory fixes how they are represented:
  \<^item> a JavaScript string is a \<^typ>\<open>string\<close>; the code units of the model are
    \<open>U+0000 .. U+00FF\<close>, so replacements of code units above that range are the identity;
  \<^item> an array is a list, \<open>Array.from(new Set(xs))\<close> is \<open>uniq xs\<close>, which keeps the first
    occurrence of every element in order;
  \<^item> a function that throws returns a sum, \<open>Inl\<close> holding the exception.

  The theory also collects the facts on those operations that several components use.
\<close>

named_theorems js_string_simps \<open>unfolding rules for the string operations of the language\<close>

type_synonym jsstr = string

section \<open>Characters\<close>

definition is_ws :: "char \<Rightarrow> bool" where
  "is_ws c \<longleftrightarrow> c \<in> {CHR 0x09, CHR 0x0A, CHR 0x0B, CHR 0x0C, CHR 0x0D, CHR '' '', CHR 0xA0}"

definition is_digit :: "char \<Rightarrow> bool" where
  "is_digit c \<longleftrightarrow> c \<in> set ''0123456789''"

definition is_line_terminator :: "char \<Rightarrow> bool" where
  "is_line_terminator c \<longleftrightarrow> c = CHR 0x0A \<or> c = CHR 0x0D"

definition is_word_char :: "char \<Rightarrow> bool" where
  "is_word_char c \<longleftrightarrow>
     (let n = (of_char c :: nat)
      in 48 \<le> n \<and> n \<le> 57 \<or> 65 \<le> n \<and> n \<le> 90 \<or> 97 \<le> n \<and> n \<le> 122 \<or> n = 95)"

text \<open>\<open>toLowerCase\<close> on the code units of the model: \<open>A-Z\<close> and \<open>U+00C0 .. U+00DE\<close> except \<open>U+00D7\<close>.\<close>

definition to_lower_char :: "char \<Rightarrow> char" where
  "to_lower_char c =
     (let n = (of_char c :: nat)
      in if 65 \<le> n \<and> n \<le> 90 \<or> 192 \<le> n \<and> n \<le> 222 \<and> n \<noteq> 215 then char_of (n + 32) else c)"

definition to_lower :: "string \<Rightarrow> string" where
  "to_lower s = map to_lower_char s"

section \<open>String operations of the language\<close>

definition trim_left :: "string \<Rightarrow> string" where
  "trim_left s = dropWhile is_ws s"

definition trim :: "string \<Rightarrow> string" where
  "trim s = rev (dropWhile is_ws (rev (dropWhile is_ws s)))"

fun starts_with :: "string \<Rightarrow> string \<Rightarrow> bool" where
  "starts_with [] s = True"
| "starts_with (p # ps) [] = False"
| "starts_with (p # ps) (c # cs) = (p = c \<and> starts_with ps cs)"

definition ends_with :: "string \<Rightarrow> string \<Rightarrow> bool" where
  "ends_with p s = starts_with (rev p) (rev s)"

fun str_includes :: "string \<Rightarrow> string \<Rightarrow> bool" where
  "str_includes p [] = (p = [])"
| "str_includes p (c # cs) = (starts_with p (c # cs) \<or> str_includes p cs)"

fun index_of :: "string \<Rightarrow> string \<Rightarrow> nat option" where
  "index_of p [] = (if p = [] then Some 0 else None)"
| "index_of p (c # cs) =
     (if starts_with p (c # cs) then Some 0 else map_option Suc (index_of p cs))"

fun split_char :: "char \<Rightarrow> string \<Rightarrow> string list" where
  "split_char d [] = [[]]"
| "split_char d (c # cs) =
     (if c = d then [] # split_char d cs
      else (case split_char d cs of [] \<Rightarrow> [[c]] | p # ps \<Rightarrow> (c # p) # ps))"

fun join :: "string \<Rightarrow> string list \<Rightarrow> string" where
  "join sep [] = []"
| "join sep [x] = x"
| "join sep (x # y # ys) = x @ sep @ join sep (y # ys)"

text \<open>\<open>xs.filter(Boolean)\<close> on an array of strings drops the empty ones.\<close>

definition filter_boolean :: "string list \<Rightarrow> string list" where
  "filter_boolean xs = filter (\<lambda>s. s \<noteq> []) xs"

text \<open>\<open>a || b\<close> on strings.\<close>

definition str_or :: "string \<Rightarrow> string \<Rightarrow> string" where
  "str_or a b = (if a = [] then b else a)"

section \<open>Insertion-ordered sets\<close>

fun uniq :: "'a list \<Rightarrow> 'a list" where
  "uniq [] = []"
| "uniq (x # xs) = x # filter (\<lambda>y. y \<noteq> x) (uniq xs)"

section \<open>Results\<close>

text \<open>\<open>a ?? b\<close>.\<close>

definition nullish :: "'a option \<Rightarrow> 'a \<Rightarrow> 'a" where
  "nullish a b = (case a of Some x \<Rightarrow> x | None \<Rightarrow> b)"

fun sbind :: "'e + 'a \<Rightarrow> ('a \<Rightarrow> 'e + 'b) \<Rightarrow> 'e + 'b" where
  "sbind (Inl e) f = Inl e"
| "sbind (Inr a) f = f a"

fun smap :: "('a \<Rightarrow> 'e + 'b) \<Rightarrow> 'a list \<Rightarrow> 'e + 'b list" where
  "smap f [] = Inr []"
| "smap f (x # xs) = sbind (f x) (\<lambda>y. sbind (smap f xs) (\<lambda>ys. Inr (y # ys)))"

section \<open>Lemmas on strings\<close>

lemma trim_Nil [simp]: "trim [] = []"
  by (simp add: trim_def)

lemma hd_dropWhile_not: "dropWhile P xs = y # ys \<Longrightarrow> \<not> P y"
  by (metis dropWhile_eq_Cons_conv)

lemma dropWhile_rev_trimmed: "dropWhile P (rev (dropWhile P (rev (dropWhile P s)))) =
    rev (dropWhile P (rev (dropWhile P s)))"
proof (cases "dropWhile P s")
  case Nil
  then show ?thesis by (metis dropWhile.simps(1) rev.simps(1))
next
  case (Cons a as)
  then have np: "\<not> P a" by (rule hd_dropWhile_not)
  then have "dropWhile P (rev (a # as)) = dropWhile P (rev as) @ [a]"
    by (simp add: dropWhile_append3)
  then show ?thesis using Cons np by simp
qed

lemma trim_trim [simp]: "trim (trim s) = trim s"
  by (simp add: trim_def dropWhile_rev_trimmed)

lemma trim_id: "s = [] \<or> \<not> is_ws (hd s) \<and> \<not> is_ws (last s) \<Longrightarrow> trim s = s"
proof -
  assume a: "s = [] \<or> \<not> is_ws (hd s) \<and> \<not> is_ws (last s)"
  show ?thesis
  proof (cases s rule: rev_cases)
    case Nil
    then show ?thesis by simp
  next
    case (snoc ys y)
    with a have "\<not> is_ws (hd s)" "\<not> is_ws y" by auto
    then have "dropWhile is_ws s = s" by (cases s) auto
    then show ?thesis using snoc \<open>\<not> is_ws y\<close> by (simp add: trim_def)
  qed
qed

lemma set_trim: "set (trim s) \<subseteq> set s"
  unfolding trim_def by (metis set_dropWhileD set_rev subsetI)

lemma length_trim: "length (trim s) \<le> length s"
  unfolding trim_def using length_dropWhile_le by (metis length_rev order_trans)

lemma starts_with_iff: "starts_with p s \<longleftrightarrow> (\<exists>r. s = p @ r)"
  by (induction p s rule: starts_with.induct) auto

lemma starts_with_append [simp]: "starts_with p (p @ r)"
  by (simp add: starts_with_iff)

lemma ends_with_iff: "ends_with p s \<longleftrightarrow> (\<exists>r. s = r @ p)"
  unfolding ends_with_def starts_with_iff by (metis rev_append rev_rev_ident)

lemma includes_iff: "str_includes p s \<longleftrightarrow> (\<exists>a b. s = a @ p @ b)"
proof (induction s)
  case Nil
  then show ?case by auto
next
  case (Cons c cs)
  show ?case
  proof
    assume "str_includes p (c # cs)"
    then consider "starts_with p (c # cs)" | "str_includes p cs" by auto
    then show "\<exists>a b. c # cs = a @ p @ b"
    proof cases
      case 1
      then show ?thesis by (metis append_Nil starts_with_iff)
    next
      case 2
      then show ?thesis using Cons.IH by (metis append_Cons)
    qed
  next
    assume "\<exists>a b. c # cs = a @ p @ b"
    then obtain a b where ab: "c # cs = a @ p @ b" by blast
    show "str_includes p (c # cs)"
    proof (cases a)
      case Nil
      then have "starts_with p (c # cs)" using ab by (metis append_Nil starts_with_append)
      then show ?thesis by simp
    next
      case (Cons x xs)
      then have "cs = xs @ p @ b" using ab by simp
      then show ?thesis using Cons.IH by auto
    qed
  qed
qed

lemma split_char_not_Nil [simp]: "split_char d s \<noteq> []"
  by (cases s) (auto split: list.splits)

lemma split_char_no_sep: "d \<notin> set s \<Longrightarrow> split_char d s = [s]"
  by (induction s) auto

lemma split_char_append: "d \<notin> set p \<Longrightarrow> split_char d (p @ d # s) = p # split_char d s"
  by (induction p) auto

lemma split_char_free: "p \<in> set (split_char d s) \<Longrightarrow> d \<notin> set p"
proof (induction s arbitrary: p)
  case Nil
  then show ?case by simp
next
  case (Cons c cs)
  obtain q qs where q: "split_char d cs = q # qs"
    by (cases "split_char d cs") auto
  then show ?case using Cons by (auto split: if_splits)
qed

lemma split_char_concat: "split_char d (s @ d # t) = split_char d s @ split_char d t"
  by (induction s) (auto split: list.splits)

lemma filter_boolean_append [simp]: "filter_boolean (xs @ ys) = filter_boolean xs @ filter_boolean ys"
  by (simp add: filter_boolean_def)

lemma split_char_join:
  "xs \<noteq> [] \<Longrightarrow> \<forall>x\<in>set xs. d \<notin> set x \<Longrightarrow> split_char d (join [d] xs) = xs"
  by (induction "[d]" xs rule: join.induct) (auto simp: split_char_no_sep split_char_append)

lemma join_split_char: "join [d] (split_char d s) = s"
proof (induction s)
  case Nil
  then show ?case by simp
next
  case (Cons c cs)
  obtain q qs where "split_char d cs = q # qs"
    by (cases "split_char d cs") auto
  then show ?case using Cons by (cases qs) auto
qed

lemma set_join: "set (join sep xs) \<subseteq> set sep \<union> (\<Union>x\<in>set xs. set x)"
  by (induction sep xs rule: join.induct) auto

lemma filter_boolean_id: "\<forall>x\<in>set xs. x \<noteq> [] \<Longrightarrow> filter_boolean xs = xs"
  by (simp add: filter_boolean_def)

section \<open>Lemmas on insertion-ordered sets\<close>

lemma set_uniq [simp]: "set (uniq xs) = set xs"
  by (induction xs) auto

lemma distinct_uniq [simp]: "distinct (uniq xs)"
  by (induction xs) auto

lemma uniq_distinct: "distinct xs \<Longrightarrow> uniq xs = xs"
  by (induction xs) (auto simp: filter_id_conv)

lemma uniq_uniq [simp]: "uniq (uniq xs) = uniq xs"
  by (rule uniq_distinct) simp

lemma length_uniq: "length (uniq xs) \<le> length xs"
  by (induction xs) (auto intro: order_trans [OF length_filter_le])

lemma uniq_append: "uniq (xs @ ys) = uniq xs @ filter (\<lambda>y. y \<notin> set xs) (uniq ys)"
  by (induction xs) (auto intro!: filter_cong)

lemma uniq_snoc: "uniq (xs @ [x]) = (if x \<in> set xs then uniq xs else uniq xs @ [x])"
  by (simp add: uniq_append)

lemma set_map_filter_iff: "x \<in> set (List.map_filter f xs) \<longleftrightarrow> (\<exists>y\<in>set xs. f y = Some x)"
  by (induction xs) (auto simp: List.map_filter_simps split: option.splits)

section \<open>Lemmas on results\<close>

lemma sbind_Inr_iff: "sbind r f = Inr b \<longleftrightarrow> (\<exists>a. r = Inr a \<and> f a = Inr b)"
  by (cases r) auto

lemma sbind_Inl_iff:
  "sbind r f = Inl e \<longleftrightarrow> r = Inl e \<or> (\<exists>a. r = Inr a \<and> f a = Inl e)"
  by (cases r) auto

lemma sbind_cong [fundef_cong]:
  "r = r' \<Longrightarrow> (\<And>a. r' = Inr a \<Longrightarrow> f a = f' a) \<Longrightarrow> sbind r f = sbind r' f'"
  by (cases r') auto

lemma smap_Inr_iff: "smap f xs = Inr ys \<longleftrightarrow> list_all2 (\<lambda>x y. f x = Inr y) xs ys"
  by (induction xs arbitrary: ys) (auto simp: sbind_Inr_iff list_all2_Cons1)

lemma smap_Inr_map: "smap f xs = Inr ys \<Longrightarrow> (\<And>x. x \<in> set xs \<Longrightarrow> g x = projr (f x)) \<Longrightarrow> ys = map g xs"
  by (induction xs arbitrary: ys) (auto simp: sbind_Inr_iff)

section \<open>Normalisers\<close>

text \<open>
  Many functions of the frontend bring a value into a normal form: they trim, drop duplicates,
  merge ranges, fill in defaults. Their contract is that the result is in normal form and that
  a value in normal form is left alone.
\<close>

locale normaliser =
  fixes norm :: "'a \<Rightarrow> 'a"
    and nf :: "'a \<Rightarrow> bool"
    and dom :: "'a \<Rightarrow> bool"
  assumes nf_norm: "dom x \<Longrightarrow> nf (norm x)"
    and dom_norm: "dom x \<Longrightarrow> dom (norm x)"
    and norm_nf: "dom x \<Longrightarrow> nf x \<Longrightarrow> norm x = x"
begin

lemma norm_idem: "dom x \<Longrightarrow> norm (norm x) = norm x"
  by (simp add: dom_norm nf_norm norm_nf)

lemma nf_iff_fixpoint: "dom x \<Longrightarrow> nf x \<longleftrightarrow> norm x = x"
  by (metis nf_norm norm_nf)

lemma nf_iff_image: "dom x \<Longrightarrow> nf x \<longleftrightarrow> (\<exists>y. dom y \<and> x = norm y)"
  by (metis nf_norm norm_nf)

end

text \<open>
  A canonical normaliser also keeps a meaning, and normal forms with the same meaning are
  equal: two inputs are normalised alike exactly when they mean the same.
\<close>

locale canonical_normaliser =
  fixes norm :: "'a \<Rightarrow> 'a"
    and nf :: "'a \<Rightarrow> bool"
    and dom :: "'a \<Rightarrow> bool"
    and meaning :: "'a \<Rightarrow> 'b"
  assumes nf_norm_c: "dom x \<Longrightarrow> nf (norm x)"
    and dom_norm_c: "dom x \<Longrightarrow> dom (norm x)"
    and meaning_norm: "dom x \<Longrightarrow> meaning (norm x) = meaning x"
    and nf_unique: "nf x \<Longrightarrow> nf y \<Longrightarrow> meaning x = meaning y \<Longrightarrow> x = y"
begin

lemma norm_eq_iff: "dom x \<Longrightarrow> dom y \<Longrightarrow> norm x = norm y \<longleftrightarrow> meaning x = meaning y"
  by (metis meaning_norm nf_norm_c nf_unique)

end

sublocale canonical_normaliser \<subseteq> normaliser norm nf dom
  by unfold_locales (auto intro: nf_norm_c nf_unique dom_norm_c simp: meaning_norm)

interpretation trim_norm: normaliser trim "\<lambda>s. trim s = s" "\<lambda>_. True"
  by unfold_locales auto

interpretation uniq_norm: normaliser uniq distinct "\<lambda>_. True"
  by unfold_locales (auto simp: uniq_distinct)

end
