(* ===== verification/JsNumber.thy ===== *)
theory JsNumber
  imports Prelude Complex_Main "HOL-Library.Log_Nat"
begin

text \<open>
  JavaScript numbers, that is IEEE 754 binary64 values.

  A finite number is its exact rational value. Every arithmetic operation computes the exact
  result and rounds it to the nearest binary64 value, ties to even (\<open>fround\<close>), so overflow to
  an infinity, underflow and loss of precision are part of the model. The sign of zero is the
  one thing left out: the components only print, compare and add numbers, and \<open>-0\<close> behaves
  as \<open>0\<close> there.

  The theory defines the conversions the components use (\<open>Number(s)\<close>, \<open>String(n)\<close>,
  \<open>toFixed\<close>, \<open>Math.round\<close> and the like) and proves that \<open>fround\<close> is exact on the
  representable numbers and that \<open>Number(String(n))\<close> is \<open>n\<close>.
\<close>

datatype jsnum = NaN | Infinity | NegInfinity | Fin rat

section \<open>Rounding to binary64\<close>

definition pow10 :: "int \<Rightarrow> rat" where
  "pow10 k = Fract (10 ^ nat k) (10 ^ nat (- k))"

text \<open>The exponent \<open>e\<close> with \<open>2 ^ e \<le> p / q < 2 ^ (e + 1)\<close>, for positive \<open>p\<close> and \<open>q\<close>.\<close>

definition ilog2 :: "int \<Rightarrow> int \<Rightarrow> int" where
  "ilog2 p q =
     (let e = bitlen p - bitlen q
      in if p * 2 ^ nat (- e) < q * 2 ^ nat e then e - 1 else e)"

text \<open>\<open>n / d\<close> rounded to the nearest integer, ties to even.\<close>

definition div_half_even :: "int \<Rightarrow> int \<Rightarrow> int" where
  "div_half_even n d =
     (let f = n div d; r = 2 * (n mod d)
      in if r < d then f else if d < r then f + 1 else if even f then f else f + 1)"

definition ulp_exponent :: "int \<Rightarrow> int \<Rightarrow> int" where
  "ulp_exponent p q = max (ilog2 p q) (-1022) - 52"

definition fround_pos :: "int \<Rightarrow> int \<Rightarrow> rat option" where
  "fround_pos p q =
     (let k = ulp_exponent p q;
          m = div_half_even (p * 2 ^ nat (- k)) (q * 2 ^ nat k)
      in if 971 < k \<or> k = 971 \<and> m = 2 ^ 53 then None
         else Some (Fract (m * 2 ^ nat k) (2 ^ nat (- k))))"

definition fround :: "rat \<Rightarrow> jsnum" where
  "fround x =
     (let (p, q) = quotient_of x in
      if p = 0 then Fin 0
      else if p < 0 then (case fround_pos (- p) q of None \<Rightarrow> NegInfinity | Some r \<Rightarrow> Fin (- r))
      else (case fround_pos p q of None \<Rightarrow> Infinity | Some r \<Rightarrow> Fin r))"

section \<open>Arithmetic and comparison\<close>

definition signed_infinity :: "bool \<Rightarrow> jsnum" where
  "signed_infinity neg = (if neg then NegInfinity else Infinity)"

fun js_neg :: "jsnum \<Rightarrow> jsnum" where
  "js_neg NaN = NaN"
| "js_neg Infinity = NegInfinity"
| "js_neg NegInfinity = Infinity"
| "js_neg (Fin a) = Fin (- a)"

fun js_add :: "jsnum \<Rightarrow> jsnum \<Rightarrow> jsnum" where
  "js_add (Fin a) (Fin b) = fround (a + b)"
| "js_add NaN y = NaN"
| "js_add x NaN = NaN"
| "js_add Infinity NegInfinity = NaN"
| "js_add NegInfinity Infinity = NaN"
| "js_add (Fin a) y = y"
| "js_add x y = x"

definition js_sub :: "jsnum \<Rightarrow> jsnum \<Rightarrow> jsnum" where
  "js_sub x y = js_add x (js_neg y)"

fun js_is_neg :: "jsnum \<Rightarrow> bool" where
  "js_is_neg NaN = False"
| "js_is_neg Infinity = False"
| "js_is_neg NegInfinity = True"
| "js_is_neg (Fin a) = (a < 0)"

fun js_mul :: "jsnum \<Rightarrow> jsnum \<Rightarrow> jsnum" where
  "js_mul (Fin a) (Fin b) = fround (a * b)"
| "js_mul NaN y = NaN"
| "js_mul x NaN = NaN"
| "js_mul (Fin a) y = (if a = 0 then NaN else signed_infinity ((a < 0) \<noteq> js_is_neg y))"
| "js_mul x (Fin b) = (if b = 0 then NaN else signed_infinity (js_is_neg x \<noteq> (b < 0)))"
| "js_mul x y = signed_infinity (js_is_neg x \<noteq> js_is_neg y)"

fun js_div :: "jsnum \<Rightarrow> jsnum \<Rightarrow> jsnum" where
  "js_div (Fin a) (Fin b) =
     (if b = 0 then (if a = 0 then NaN else signed_infinity (a < 0)) else fround (a / b))"
| "js_div NaN y = NaN"
| "js_div x NaN = NaN"
| "js_div (Fin a) y = Fin 0"
| "js_div x (Fin b) = signed_infinity (js_is_neg x \<noteq> (b < 0))"
| "js_div x y = NaN"

definition rat_trunc :: "rat \<Rightarrow> int" where
  "rat_trunc x = (if x < 0 then \<lceil>x\<rceil> else \<lfloor>x\<rfloor>)"

fun js_rem :: "jsnum \<Rightarrow> jsnum \<Rightarrow> jsnum" where
  "js_rem (Fin a) (Fin b) =
     (if b = 0 then NaN else fround (a - b * of_int (rat_trunc (a / b))))"
| "js_rem (Fin a) NaN = NaN"
| "js_rem (Fin a) y = Fin a"
| "js_rem x y = NaN"

fun js_lt :: "jsnum \<Rightarrow> jsnum \<Rightarrow> bool" where
  "js_lt (Fin a) (Fin b) = (a < b)"
| "js_lt NaN y = False"
| "js_lt x NaN = False"
| "js_lt NegInfinity y = (y \<noteq> NegInfinity)"
| "js_lt x Infinity = (x \<noteq> Infinity)"
| "js_lt x y = False"

definition js_eq :: "jsnum \<Rightarrow> jsnum \<Rightarrow> bool" where
  "js_eq x y \<longleftrightarrow> x \<noteq> NaN \<and> x = y"

definition js_le :: "jsnum \<Rightarrow> jsnum \<Rightarrow> bool" where
  "js_le x y \<longleftrightarrow> js_lt x y \<or> js_eq x y"

fun is_finite :: "jsnum \<Rightarrow> bool" where
  "is_finite (Fin a) = True"
| "is_finite x = False"

text \<open>\<open>x || 0\<close>: \<open>NaN\<close> and \<open>0\<close> are falsy.\<close>

definition num_truthy :: "jsnum \<Rightarrow> bool" where
  "num_truthy x \<longleftrightarrow> x \<noteq> NaN \<and> x \<noteq> Fin 0"

definition or_zero :: "jsnum \<Rightarrow> jsnum" where
  "or_zero x = (if num_truthy x then x else Fin 0)"

definition js_max :: "jsnum \<Rightarrow> jsnum \<Rightarrow> jsnum" where
  "js_max x y = (if x = NaN \<or> y = NaN then NaN else if js_lt x y then y else x)"

definition js_min :: "jsnum \<Rightarrow> jsnum \<Rightarrow> jsnum" where
  "js_min x y = (if x = NaN \<or> y = NaN then NaN else if js_lt y x then y else x)"

fun js_abs :: "jsnum \<Rightarrow> jsnum" where
  "js_abs (Fin a) = Fin \<bar>a\<bar>"
| "js_abs NegInfinity = Infinity"
| "js_abs x = x"

fun js_floor :: "jsnum \<Rightarrow> jsnum" where
  "js_floor (Fin a) = Fin (of_int \<lfloor>a\<rfloor>)"
| "js_floor x = x"

fun js_ceil :: "jsnum \<Rightarrow> jsnum" where
  "js_ceil (Fin a) = Fin (of_int \<lceil>a\<rceil>)"
| "js_ceil x = x"

fun js_round :: "jsnum \<Rightarrow> jsnum" where
  "js_round (Fin a) = Fin (of_int \<lfloor>a + 1 / 2\<rfloor>)"
| "js_round x = x"

section \<open>Decimal text\<close>

definition digit_char :: "nat \<Rightarrow> char" where
  "digit_char d = char_of (48 + d)"

definition digit_val :: "char \<Rightarrow> nat" where
  "digit_val c = of_char c - 48"

function digits_of :: "int \<Rightarrow> string" where
  "digits_of n =
     (if n < 10 then [digit_char (nat n)] else digits_of (n div 10) @ [digit_char (nat (n mod 10))])"
  by pat_completeness auto
termination
  by (relation "measure nat") auto

declare digits_of.simps [simp del]

definition string_of_int :: "int \<Rightarrow> string" where
  "string_of_int i = (if i < 0 then ''-'' @ digits_of (- i) else digits_of i)"

definition string_of_nat :: "nat \<Rightarrow> string" where
  "string_of_nat n = digits_of (int n)"

definition int_of_digits :: "string \<Rightarrow> int" where
  "int_of_digits ds = foldl (\<lambda>n c. 10 * n + int (digit_val c)) 0 ds"

text \<open>The grammar of \<open>StrUnsignedDecimalLiteral\<close> and its exact value.\<close>

definition parse_exponent :: "string \<Rightarrow> int option" where
  "parse_exponent s =
     (case s of
        [] \<Rightarrow> Some 0
      | c # r \<Rightarrow>
          if c = CHR ''e'' \<or> c = CHR ''E'' then
            let neg = (r \<noteq> [] \<and> hd r = CHR ''-'');
                ds = (if r \<noteq> [] \<and> (hd r = CHR ''-'' \<or> hd r = CHR ''+'') then tl r else r)
            in if ds \<noteq> [] \<and> list_all is_digit ds
               then Some (if neg then - int_of_digits ds else int_of_digits ds)
               else None
          else None)"

definition parse_unsigned_decimal :: "string \<Rightarrow> rat option" where
  "parse_unsigned_decimal s =
     (let ip = takeWhile is_digit s; r1 = dropWhile is_digit s;
          dot = (r1 \<noteq> [] \<and> hd r1 = CHR ''.'');
          fp = (if dot then takeWhile is_digit (tl r1) else []);
          r2 = (if dot then dropWhile is_digit (tl r1) else r1)
      in if ip = [] \<and> fp = [] then None
         else map_option (\<lambda>e. of_int (int_of_digits (ip @ fp)) * pow10 (e - int (length fp)))
                (parse_exponent r2))"

text \<open>\<open>0x\<close>, \<open>0o\<close> and \<open>0b\<close> literals.\<close>

definition hex_val :: "char \<Rightarrow> nat option" where
  "hex_val c =
     (let n = (of_char c :: nat)
      in if 48 \<le> n \<and> n \<le> 57 then Some (n - 48)
         else if 97 \<le> n \<and> n \<le> 102 then Some (n - 87)
         else if 65 \<le> n \<and> n \<le> 70 then Some (n - 55) else None)"

fun radix_value :: "int \<Rightarrow> int \<Rightarrow> string \<Rightarrow> int option" where
  "radix_value b acc [] = Some acc"
| "radix_value b acc (c # cs) =
     (case hex_val c of
        None \<Rightarrow> None
      | Some d \<Rightarrow> if int d < b then radix_value b (acc * b + int d) cs else None)"

definition radix_of_prefix :: "char \<Rightarrow> int option" where
  "radix_of_prefix c =
     (if c \<in> {CHR ''x'', CHR ''X''} then Some 16
      else if c \<in> {CHR ''o'', CHR ''O''} then Some 8
      else if c \<in> {CHR ''b'', CHR ''B''} then Some 2 else None)"

definition parse_radix_literal :: "string \<Rightarrow> int option" where
  "parse_radix_literal s =
     (case s of
        z # p # d # ds \<Rightarrow>
          if z = CHR ''0'' then
            (case radix_of_prefix p of None \<Rightarrow> None | Some b \<Rightarrow> radix_value b 0 (d # ds))
          else None
      | _ \<Rightarrow> None)"

text \<open>\<open>Number(s)\<close> for a string.\<close>

definition string_to_number :: "string \<Rightarrow> jsnum" where
  "string_to_number str =
     (let s = trim str in
      if s = [] then Fin 0
      else
        case parse_radix_literal s of
          Some n \<Rightarrow> fround (of_int n)
        | None \<Rightarrow>
            let neg = (hd s = CHR ''-'');
                u = (if hd s = CHR ''-'' \<or> hd s = CHR ''+'' then tl s else s)
            in if u = ''Infinity'' then signed_infinity neg
               else case parse_unsigned_decimal u of
                      None \<Rightarrow> NaN
                    | Some x \<Rightarrow> fround (if neg then - x else x))"

section \<open>\<open>String(n)\<close>\<close>

text \<open>
  \<open>decimal_point v = n\<close> with \<open>10 ^ (n - 1) \<le> v < 10 ^ n\<close>. \<open>shortest_digits v\<close> are the
  digits \<open>s\<close>, their number \<open>k\<close> and the decimal point \<open>n\<close> of \<open>Number::toString\<close>: \<open>k\<close> is as small
  as possible with \<open>s * 10 ^ (n - k)\<close> rounding to \<open>v\<close>, and \<open>s\<close> is the closest such integer.
\<close>

definition decimal_point :: "rat \<Rightarrow> int" where
  "decimal_point v =
     (let (p, q) = quotient_of v; e = int (length (digits_of p)) - int (length (digits_of q))
      in if q * 10 ^ nat e \<le> p * 10 ^ nat (- e) then e + 1 else e)"

definition digit_candidates :: "rat \<Rightarrow> int list" where
  "digit_candidates x =
     (let f = \<lfloor>x\<rfloor> in if x - of_int f \<le> 1 / 2 then [f, f + 1] else [f + 1, f])"

definition normalize_digits :: "nat \<Rightarrow> int \<Rightarrow> int \<Rightarrow> int \<times> nat \<times> int" where
  "normalize_digits k n s = (if s \<ge> 10 ^ k then (10 ^ (k - 1), k, n + 1) else (s, k, n))"

definition digits_value :: "int \<times> nat \<times> int \<Rightarrow> rat" where
  "digits_value d = (case d of (s, k, n) \<Rightarrow> of_int s * pow10 (n - int k))"

fun search_digits :: "nat \<Rightarrow> nat \<Rightarrow> int \<Rightarrow> rat \<Rightarrow> (int \<times> nat \<times> int) option" where
  "search_digits 0 k n v = None"
| "search_digits (Suc fuel) k n v =
     (case filter (\<lambda>d. fround (digits_value d) = Fin v)
             (map (normalize_digits k n) (digit_candidates (v * pow10 (int k - n)))) of
        d # _ \<Rightarrow> Some d
      | [] \<Rightarrow> search_digits fuel (Suc k) n v)"

definition shortest_digits :: "rat \<Rightarrow> (int \<times> nat \<times> int) option" where
  "shortest_digits v = search_digits 1400 1 (decimal_point v) v"

definition render_digits :: "int \<times> nat \<times> int \<Rightarrow> string" where
  "render_digits d =
     (case d of (s, k, n) \<Rightarrow>
        let ds = digits_of s in
        if int k \<le> n \<and> n \<le> 21 then ds @ replicate (nat (n - int k)) CHR ''0''
        else if 0 < n \<and> n \<le> 21 then take (nat n) ds @ ''.'' @ drop (nat n) ds
        else if -6 < n \<and> n \<le> 0 then ''0.'' @ replicate (nat (- n)) CHR ''0'' @ ds
        else
          let e = n - 1;
              ex = ''e'' @ (if e < 0 then ''-'' else ''+'') @ digits_of \<bar>e\<bar>
          in if k = 1 then ds @ ex else take 1 ds @ ''.'' @ drop 1 ds @ ex)"

definition string_of_pos_rat :: "rat \<Rightarrow> string" where
  "string_of_pos_rat v =
     (case shortest_digits v of Some d \<Rightarrow> render_digits d | None \<Rightarrow> [])"

fun js_String :: "jsnum \<Rightarrow> string" where
  "js_String NaN = ''NaN''"
| "js_String Infinity = ''Infinity''"
| "js_String NegInfinity = ''-Infinity''"
| "js_String (Fin v) =
     (if v = 0 then ''0''
      else if v < 0 then ''-'' @ string_of_pos_rat (- v) else string_of_pos_rat v)"

section \<open>Exactness of rounding\<close>

text \<open>The values of the binary64 format.\<close>

definition binary64 :: "rat \<Rightarrow> bool" where
  "binary64 x \<longleftrightarrow>
     (\<exists>m k. x = of_int m * 2 powi k \<and> \<bar>m\<bar> < 2 ^ 53 \<and> -1074 \<le> k \<and> k \<le> 971)"

fun wf_num :: "jsnum \<Rightarrow> bool" where
  "wf_num (Fin x) = binary64 x"
| "wf_num x = True"

lemma powi_nat_split: "(x::rat) \<noteq> 0 \<Longrightarrow> x ^ nat k / x ^ nat (- k) = x powi k"
  by (auto simp: power_int_def power_inverse divide_simps)

lemma scale_powi:
  assumes "q > 0"
  shows "of_int (p * 2 ^ nat (- k)) / of_int (q * 2 ^ nat k) = (of_int p / of_int q :: rat) / 2 powi k"
  using assms powi_nat_split [of 2 k] by (auto simp: field_simps power_int_def power_inverse)

lemma Fract_powi: "Fract (m * 2 ^ nat k) (2 ^ nat (- k)) = of_int m * 2 powi k"
  using powi_nat_split [of 2 k] by (simp add: Fract_of_int_quotient flip: times_divide_eq_right)

lemma pow10_powi: "pow10 k = 10 powi k"
  using powi_nat_split [of 10 k] by (simp add: pow10_def Fract_of_int_quotient)

lemma int_less_iff_quotient: "b > 0 \<Longrightarrow> a < b \<longleftrightarrow> (of_int a / of_int b :: rat) < 1"
  by (simp add: divide_less_eq)

lemma int_div_less: 
  assumes "d > 0" and "n < c * d"
  shows "n div d < (c::int)"
proof (rule ccontr)
  assume "\<not> n div d < c"
  then have "c * d \<le> n div d * d" using assms(1) by (intro mult_right_mono) auto
  also have "\<dots> \<le> n" using assms(1) div_mult_mod_eq [of n d] pos_mod_sign [of d n] by linarith
  finally show False using assms(2) by simp
qed

lemma ilog2_bounds:
  assumes "p > 0" and "q > 0"
  defines "e \<equiv> ilog2 p q"
  shows "2 powi e \<le> (of_int p / of_int q :: rat)" and "(of_int p / of_int q :: rat) < 2 powi (e + 1)"
proof -
  define d where "d = bitlen p - bitlen q"
  let ?x = "of_int p / of_int q :: rat"
  have bp: "2 ^ nat (bitlen p - 1) \<le> p" "p < 2 ^ nat (bitlen p)"
    and bq: "2 ^ nat (bitlen q - 1) \<le> q" "q < 2 ^ nat (bitlen q)"
    using bitlen_bounds assms(1,2) by auto
  have pos: "bitlen p \<ge> 1" "bitlen q \<ge> 1"
    using assms bitlen_nonneg bitlen_eq_zero_iff by (smt (verit))+
  have of: "(2::rat) ^ nat n = 2 powi n" if "n \<ge> 0" for n
    using that by (simp add: power_int_def)
  have p1: "2 powi (bitlen p - 1) \<le> (of_int p :: rat)"
    using bp(1) pos of_int_le_iff [of "2 ^ nat (bitlen p - 1)" p, where 'a = rat] by (simp add: of)
  have p2: "(of_int p :: rat) < 2 powi (bitlen p)"
    using bp(2) pos of_int_less_iff [of p "2 ^ nat (bitlen p)", where 'a = rat] by (simp add: of)
  have q1: "2 powi (bitlen q - 1) \<le> (of_int q :: rat)"
    using bq(1) pos of_int_le_iff [of "2 ^ nat (bitlen q - 1)" q, where 'a = rat] by (simp add: of)
  have q2: "(of_int q :: rat) < 2 powi (bitlen q)"
    using bq(2) pos of_int_less_iff [of q "2 ^ nat (bitlen q)", where 'a = rat] by (simp add: of)
  have lo: "2 powi (d - 1) \<le> ?x"
  proof -
    have "2 powi (d - 1) = 2 powi (bitlen p - 1) / (2 powi bitlen q :: rat)"
      by (simp add: d_def power_int_diff)
    also have "\<dots> \<le> ?x" using p1 q2 assms(1,2) by (intro frac_le) auto
    finally show ?thesis .
  qed
  have hi: "?x < 2 powi (d + 1)"
  proof -
    have "?x < 2 powi bitlen p / (2 powi (bitlen q - 1) :: rat)"
      using p2 q1 assms(1,2) by (intro frac_less) auto
    also have "\<dots> = 2 powi (d + 1)" by (simp add: d_def power_int_diff power_int_add)
    finally show ?thesis .
  qed
  have test: "p * 2 ^ nat (- d) < q * 2 ^ nat d \<longleftrightarrow> ?x < 2 powi d"
  proof -
    have "p * 2 ^ nat (- d) < q * 2 ^ nat d \<longleftrightarrow>
        (of_int (p * 2 ^ nat (- d)) / of_int (q * 2 ^ nat d) :: rat) < 1"
      using assms(2) by (intro int_less_iff_quotient) simp
    also have "\<dots> \<longleftrightarrow> ?x / 2 powi d < 1" by (simp only: scale_powi [OF assms(2)])
    also have "\<dots> \<longleftrightarrow> ?x < 2 powi d" by (rule divide_less_eq_1_pos) simp
    finally show ?thesis .
  qed
  show "2 powi e \<le> ?x" and "?x < 2 powi (e + 1)"
    using lo hi test by (auto simp: e_def ilog2_def Let_def d_def)
qed

lemma div_half_even_bounds:
  assumes "d > 0"
  shows "n div d \<le> div_half_even n d" and "div_half_even n d \<le> n div d + 1"
  by (auto simp: div_half_even_def Let_def)

lemma div_half_even_exact: "d > 0 \<Longrightarrow> n = N * d \<Longrightarrow> div_half_even n d = N"
  by (simp add: div_half_even_def)

lemma fround_pos_exact:
  assumes pq: "p > 0" "q > 0" and x: "(of_int p / of_int q :: rat) = of_int m * 2 powi k"
    and m: "m < 2 ^ 53" and k: "-1074 \<le> k" "k \<le> 971"
  shows "fround_pos p q = Some (of_int p / of_int q)"
proof -
  let ?x = "of_int p / of_int q :: rat"
  define K where "K = ulp_exponent p q"
  have "m > 0" using x pq by (metis divide_pos_pos mult_less_0_iff not_less_iff_gr_or_eq
        of_int_0_less_iff zero_less_mult_iff zero_less_numeral zero_less_power_int)
  have "?x < 2 powi (k + 53)"
  proof -
    have "?x < 2 ^ 53 * 2 powi k"
      using m of_int_less_iff [of m "2 ^ 53", where 'a = rat] by (simp add: x)
    then show ?thesis by (simp add: power_int_add)
  qed
  then have "2 powi (ilog2 p q) < (2 powi (k + 53) :: rat)"
    using ilog2_bounds(1) [OF pq] by (rule le_less_trans [rotated])
  then have "ilog2 p q < k + 53"
    using power_int_increasing [of "k + 53" "ilog2 p q" "2::rat"] by (meson leI not_less numeral_le_one_iff one_le_numeral)
  then have K: "K \<le> k" using k by (auto simp: K_def ulp_exponent_def)
  define N where "N = m * 2 ^ nat (k - K)"
  have sc: "?x = of_int N * 2 powi K"
  proof -
    have "(2::rat) ^ nat (k - K) * 2 powi K = 2 powi (k - K) * 2 powi K"
      using K by (simp add: power_int_def)
    also have "\<dots> = 2 powi k" by (simp flip: power_int_add)
    finally show ?thesis by (simp add: x N_def)
  qed
  have "(of_int (p * 2 ^ nat (- K)) / of_int (q * 2 ^ nat K) :: rat) = of_int N"
    unfolding scale_powi [OF pq(2)] by (simp add: sc)
  then have "(of_int (p * 2 ^ nat (- K)) :: rat) = of_int (N * (q * 2 ^ nat K))"
    using pq(2) by (simp add: field_simps)
  then have "p * 2 ^ nat (- K) = N * (q * 2 ^ nat K)" by (simp only: of_int_eq_iff)
  then have dhe: "div_half_even (p * 2 ^ nat (- K)) (q * 2 ^ nat K) = N"
    using pq(2) by (intro div_half_even_exact) auto
  have "\<not> (971 < K \<or> K = 971 \<and> N = 2 ^ 53)" using K k m by (auto simp: N_def)
  then show ?thesis
    using dhe sc by (simp add: fround_pos_def Let_def Fract_powi flip: K_def)
qed

lemma fround_pos_binary64:
  assumes pq: "p > 0" "q > 0" and r: "fround_pos p q = Some r"
  shows "binary64 r \<and> r \<ge> 0"
proof -
  let ?x = "of_int p / of_int q :: rat"
  define K where "K = ulp_exponent p q"
  define M where "M = div_half_even (p * 2 ^ nat (- K)) (q * 2 ^ nat K)"
  have rM: "r = of_int M * 2 powi K" and no: "\<not> (971 < K \<or> K = 971 \<and> M = 2 ^ 53)"
    using r by (auto simp: fround_pos_def Let_def Fract_powi K_def M_def split: if_splits)
  have K: "-1074 \<le> K" by (simp add: K_def ulp_exponent_def)
  have "?x < 2 powi (ilog2 p q + 1)" by (rule ilog2_bounds(2) [OF pq])
  also have "\<dots> \<le> 2 powi (K + 53)"
    by (rule power_int_increasing) (auto simp: K_def ulp_exponent_def)
  finally have "?x < 2 ^ 53 * 2 powi K" by (simp add: power_int_add mult.commute)
  then have "?x / 2 powi K < 2 ^ 53" by (subst divide_less_eq) auto
  then have "(of_int (p * 2 ^ nat (- K)) / of_int (q * 2 ^ nat K) :: rat) < of_int (2 ^ 53)"
    unfolding scale_powi [OF pq(2)] by simp
  then have "(of_int (p * 2 ^ nat (- K)) :: rat) < of_int (2 ^ 53 * (q * 2 ^ nat K))"
    using pq(2) by (simp add: divide_less_eq)
  then have "p * 2 ^ nat (- K) < 2 ^ 53 * (q * 2 ^ nat K)" by (simp only: of_int_less_iff)
  then have "p * 2 ^ nat (- K) div (q * 2 ^ nat K) < 2 ^ 53"
    using pq(2) by (intro int_div_less) auto
  then have M: "M \<le> 2 ^ 53" "0 \<le> M"
    using div_half_even_bounds [of "q * 2 ^ nat K" "p * 2 ^ nat (- K)"] pq
      pos_imp_zdiv_nonneg_iff [of "q * 2 ^ nat K" "p * 2 ^ nat (- K)"]
    by (auto simp: M_def)
  have "binary64 r"
  proof (cases "M = 2 ^ 53")
    case True
    then have "r = of_int (2 ^ 52) * 2 powi (K + 1)" by (simp add: rM power_int_add)
    moreover have "K + 1 \<le> 971" using no True by auto
    moreover have "\<bar>2 ^ 52 :: int\<bar> < 2 ^ 53" by simp
    moreover have "-1074 \<le> K + 1" using K by simp
    ultimately show ?thesis unfolding binary64_def by blast
  next
    case False
    then have "\<bar>M\<bar> < 2 ^ 53" using M by simp
    moreover have "K \<le> 971" using no by auto
    ultimately show ?thesis using rM K unfolding binary64_def by blast
  qed
  then show ?thesis using rM M by simp
qed

lemma fround_exact:
  assumes "binary64 x"
  shows "fround x = Fin x"
proof -
  obtain m k where mk: "x = of_int m * 2 powi k" "\<bar>m\<bar> < 2 ^ 53" "-1074 \<le> k" "k \<le> 971"
    using assms by (auto simp: binary64_def)
  obtain p q where pq: "quotient_of x = (p, q)" by (cases "quotient_of x")
  then have q: "q > 0" and x: "x = of_int p / of_int q"
    using quotient_of_denom_pos quotient_of_div by auto
  consider "p = 0" | "p > 0" | "p < 0" by linarith
  then show ?thesis
  proof cases
    case 1
    then show ?thesis using pq x by (simp add: fround_def)
  next
    case 2
    then have "fround_pos p q = Some x"
      using fround_pos_exact [of p q m k] q x mk by auto
    then show ?thesis using pq 2 by (simp add: fround_def)
  next
    case 3
    have "of_int (- p) / of_int q = (of_int (- m) * 2 powi k :: rat)" using x mk by simp
    then have "fround_pos (- p) q = Some (- x)"
      using fround_pos_exact [of "- p" q "- m" k] 3 q x mk by auto
    then show ?thesis using pq 3 by (simp add: fround_def)
  qed
qed

lemma binary64_uminus [simp]: "binary64 (- x) \<longleftrightarrow> binary64 x"
proof -
  have "binary64 (- y)" if y: "binary64 y" for y
  proof -
    from y obtain m k where "y = of_int m * 2 powi k" "\<bar>m\<bar> < 2 ^ 53" "-1074 \<le> k" "k \<le> 971"
      by (auto simp: binary64_def)
    then have "- y = of_int (- m) * 2 powi k" "\<bar>- m\<bar> < 2 ^ 53" "-1074 \<le> k" "k \<le> 971" by auto
    then show ?thesis unfolding binary64_def by blast
  qed
  from this [of x] this [of "- x"] show ?thesis by auto
qed

lemma binary64_abs [simp]: "binary64 \<bar>x\<bar> \<longleftrightarrow> binary64 x"
  by (cases "x < 0") auto

lemma binary64I:
  "x = of_int m * 2 powi k \<Longrightarrow> \<bar>m\<bar> < 2 ^ 53 \<Longrightarrow> -1074 \<le> k \<Longrightarrow> k \<le> 971 \<Longrightarrow> binary64 x"
  unfolding binary64_def by blast

lemma binary64_int:
  assumes "\<bar>n\<bar> \<le> 2 ^ 53"
  shows "binary64 (of_int n)"
proof (cases "\<bar>n\<bar> = 2 ^ 53")
  case True
  then consider "n = 2 ^ 53" | "n = - (2 ^ 53)" by linarith
  then have "binary64 (of_int (2 ^ 53)) \<Longrightarrow> ?thesis"
    using binary64_uminus by cases auto
  moreover have "binary64 (of_int (2 ^ 53))"
    by (rule binary64I [of _ "2 ^ 52" 1]) (simp_all add: power_int_def)
  ultimately show ?thesis by blast
next
  case False
  then have "\<bar>n\<bar> < 2 ^ 53" using assms by simp
  then show ?thesis by (intro binary64I [of _ n 0]) simp_all
qed

lemma binary64_0 [simp]: "binary64 0"
  using binary64_int [of 0] by simp

lemma binary64_1 [simp]: "binary64 1"
  using binary64_int [of 1] by simp

lemma fround_int: "\<bar>n\<bar> \<le> 2 ^ 53 \<Longrightarrow> fround (of_int n) = Fin (of_int n)"
  by (rule fround_exact) (rule binary64_int)

lemma fround_0 [simp]: "fround 0 = Fin 0"
  using fround_int [of 0] by simp

lemma fround_wf: "wf_num (fround x)"
proof -
  obtain p q where pq: "quotient_of x = (p, q)" by (cases "quotient_of x")
  then have q: "q > 0" using quotient_of_denom_pos by auto
  consider "p = 0" | "p > 0" | "p < 0" by linarith
  then show ?thesis
    using pq q fround_pos_binary64 [of p q] fround_pos_binary64 [of "- p" q]
    by cases (auto simp: fround_def split: option.splits)
qed

lemma fround_Fin_binary64: "fround x = Fin y \<Longrightarrow> binary64 y"
  using fround_wf [of x] by simp

lemma fround_idem: "fround x = Fin y \<Longrightarrow> fround y = Fin y"
  by (rule fround_exact) (rule fround_Fin_binary64)

lemma fround_neq_NaN [simp]: "fround x \<noteq> NaN"
  by (auto simp: fround_def Let_def split: prod.splits option.splits)

lemma wf_signed_infinity [simp]: "wf_num (signed_infinity b)"
  by (simp add: signed_infinity_def)

lemma wf_js_neg: "wf_num x \<Longrightarrow> wf_num (js_neg x)"
  by (cases x) auto

lemma wf_js_add: "wf_num x \<Longrightarrow> wf_num y \<Longrightarrow> wf_num (js_add x y)"
  by (cases x; cases y) (auto simp: fround_wf)

lemma wf_js_mul: "wf_num x \<Longrightarrow> wf_num y \<Longrightarrow> wf_num (js_mul x y)"
  by (cases x; cases y) (auto simp: fround_wf)

lemma wf_js_div: "wf_num x \<Longrightarrow> wf_num y \<Longrightarrow> wf_num (js_div x y)"
  by (cases x; cases y) (auto simp: fround_wf)

lemma wf_or_zero: "wf_num x \<Longrightarrow> wf_num (or_zero x)"
  by (simp add: or_zero_def)

lemma wf_string_to_number: "wf_num (string_to_number s)"
  by (auto simp: string_to_number_def Let_def fround_wf split: option.splits)

section \<open>Decimal text: reading back what is printed\<close>

lemma digit_char_is_digit [simp]: "d < 10 \<Longrightarrow> is_digit (digit_char d)"
  and digit_val_char [simp]: "d < 10 \<Longrightarrow> digit_val (digit_char d) = d"
proof -
  assume "d < 10"
  moreover have "list_all (\<lambda>d. is_digit (digit_char d) \<and> digit_val (digit_char d) = d) [0..<10]"
    by code_simp
  ultimately show "is_digit (digit_char d)" "digit_val (digit_char d) = d"
    by (auto simp: list_all_iff)
qed

lemma int_of_digits_snoc: "int_of_digits (ds @ [c]) = 10 * int_of_digits ds + int (digit_val c)"
  by (simp add: int_of_digits_def)

lemma int_of_digits_append:
  "int_of_digits (a @ b) = int_of_digits a * 10 ^ length b + int_of_digits b"
proof (induction b rule: rev_induct)
  case Nil
  then show ?case by (simp add: int_of_digits_def)
next
  case (snoc c b)
  then show ?case
    by (simp add: int_of_digits_snoc algebra_simps flip: append_assoc)
qed

lemma int_of_digits_zeros [simp]: "int_of_digits (replicate n CHR ''0'') = 0"
proof (induction n)
  case (Suc n)
  then show ?case
    by (simp add: int_of_digits_snoc digit_val_def replicate_append_same [symmetric])
qed (simp add: int_of_digits_def)

lemma digits_of_not_Nil [simp]: "digits_of n \<noteq> []"
  by (subst digits_of.simps) simp

lemma digits_of_digits: "n \<ge> 0 \<Longrightarrow> list_all is_digit (digits_of n)"
proof (induction n rule: digits_of.induct)
  case (1 n)
  then show ?case by (subst digits_of.simps) (auto simp: nat_less_iff)
qed

lemma int_of_digits_of [simp]: "n \<ge> 0 \<Longrightarrow> int_of_digits (digits_of n) = n"
proof (induction n rule: digits_of.induct)
  case (1 n)
  show ?case
  proof (cases "n < 10")
    case True
    then show ?thesis using "1.prems"
      by (subst digits_of.simps) (simp add: int_of_digits_def nat_less_iff)
  next
    case False
    then have "int_of_digits (digits_of (n div 10)) = n div 10" using 1 by simp
    then show ?thesis using False
      by (subst digits_of.simps) (simp add: int_of_digits_snoc nat_less_iff)
  qed
qed

lemma digits_of_bounds: "n > 0 \<Longrightarrow> 10 ^ (length (digits_of n) - 1) \<le> n \<and> n < 10 ^ length (digits_of n)"
proof (induction n rule: digits_of.induct)
  case (1 n)
  show ?case
  proof (cases "n < 10")
    case True
    then show ?thesis using "1.prems" by (subst (1 2) digits_of.simps) simp
  next
    case False
    define l where "l = length (digits_of (n div 10))"
    have l: "l > 0" by (simp add: l_def)
    have "10 ^ (l - 1) \<le> n div 10" "n div 10 < 10 ^ l"
      using 1 False by (auto simp: l_def)
    moreover have "length (digits_of n) = Suc l"
      using False by (subst digits_of.simps) (simp add: l_def)
    moreover have "(10::int) ^ l = 10 * 10 ^ (l - 1)" using l by (cases l) auto
    ultimately show ?thesis by simp linarith
  qed
qed

lemma scale_powi10:
  assumes "q > 0"
  shows "of_int (p * 10 ^ nat (- k)) / of_int (q * 10 ^ nat k) = (of_int p / of_int q :: rat) / 10 powi k"
  using assms powi_nat_split [of 10 k] by (auto simp: field_simps power_int_def power_inverse)

lemma int_le_iff_quotient: "b > 0 \<Longrightarrow> b \<le> a \<longleftrightarrow> 1 \<le> (of_int a / of_int b :: rat)"
  by (simp add: le_divide_eq)

lemma decimal_point_bounds:
  assumes "v > 0"
  defines "n \<equiv> decimal_point v"
  shows "10 powi (n - 1) \<le> v" and "v < 10 powi n"
proof -
  obtain p q where pq: "quotient_of v = (p, q)" by (cases "quotient_of v")
  have q: "q > 0" and v: "v = of_int p / of_int q"
    using pq quotient_of_denom_pos quotient_of_div by auto
  then have p: "p > 0" using assms(1) by (simp add: zero_less_divide_iff)
  define lp lq where "lp = int (length (digits_of p))" and "lq = int (length (digits_of q))"
  have "lp \<ge> 1" "lq \<ge> 1" by (simp_all add: lp_def lq_def Suc_le_eq)
  have of: "(10::rat) ^ length (digits_of x) = 10 powi int (length (digits_of x))"
    "(10::rat) ^ (length (digits_of x) - 1) = 10 powi (int (length (digits_of x)) - 1)" for x
    by (auto simp: power_int_def nat_diff_distrib Suc_le_eq)
  have b: "10 powi (int (length (digits_of x)) - 1) \<le> (of_int x :: rat)"
    "(of_int x :: rat) < 10 powi int (length (digits_of x))" if "x > 0" for x
  proof -
    have "(of_int (10 ^ (length (digits_of x) - 1)) :: rat) \<le> of_int x"
      "(of_int x :: rat) < of_int (10 ^ length (digits_of x))"
      using digits_of_bounds [OF that] by (auto simp only: of_int_le_iff of_int_less_iff)
    then show "10 powi (int (length (digits_of x)) - 1) \<le> (of_int x :: rat)"
      "(of_int x :: rat) < 10 powi int (length (digits_of x))" by (simp_all flip: of)
  qed
  have lo: "10 powi (lp - lq - 1) \<le> v"
  proof -
    have "10 powi (lp - lq - 1) = 10 powi (lp - 1) / (10 powi lq :: rat)"
      by (simp add: power_int_diff)
    also have "\<dots> \<le> v" unfolding v using b(1) [OF p] b(2) [OF q] p q
      by (intro frac_le) (auto simp: lp_def lq_def)
    finally show ?thesis .
  qed
  have hi: "v < 10 powi (lp - lq + 1)"
  proof -
    have "v < 10 powi lp / (10 powi (lq - 1) :: rat)"
      unfolding v using b(2) [OF p] b(1) [OF q] p q by (intro frac_less) (auto simp: lp_def lq_def)
    also have "\<dots> = 10 powi (lp - lq + 1)" by (simp add: power_int_diff power_int_add)
    finally show ?thesis .
  qed
  have test: "q * 10 ^ nat e \<le> p * 10 ^ nat (- e) \<longleftrightarrow> 10 powi e \<le> v" for e
  proof -
    have "q * 10 ^ nat e \<le> p * 10 ^ nat (- e) \<longleftrightarrow>
        1 \<le> (of_int (p * 10 ^ nat (- e)) / of_int (q * 10 ^ nat e) :: rat)"
      using q by (intro int_le_iff_quotient) simp
    also have "\<dots> \<longleftrightarrow> 1 \<le> v / 10 powi e" by (simp only: scale_powi10 [OF q] v)
    also have "\<dots> \<longleftrightarrow> 10 powi e \<le> v" by (rule le_divide_eq_1_pos) simp
    finally show ?thesis .
  qed
  show "10 powi (n - 1) \<le> v" and "v < 10 powi n"
    using lo hi test [of "lp - lq"]
    by (auto simp: n_def decimal_point_def pq Let_def lp_def lq_def)
qed

lemma powi10_mono: "a \<le> b \<Longrightarrow> (10 powi a :: rat) \<le> 10 powi b"
  by (rule power_int_increasing) auto

lemma digit_candidates_floor: "s \<in> set (digit_candidates x) \<Longrightarrow> \<lfloor>x\<rfloor> \<le> s"
  by (auto simp: digit_candidates_def Let_def split: if_splits)

lemma search_digits_sound:
  assumes "search_digits fuel k n v = Some (s, k', n')" and "10 powi (n - 1) \<le> v" and "k \<ge> 1"
  shows "fround (digits_value (s, k', n')) = Fin v \<and> 1 \<le> k' \<and> 10 ^ (k' - 1) \<le> s \<and> s < 10 ^ k'"
  using assms
proof (induction fuel k n v rule: search_digits.induct)
  case (1 k n v)
  then show ?case by simp
next
  case (2 fuel k n v)
  let ?c = "map (normalize_digits k n) (digit_candidates (v * pow10 (int k - n)))"
  let ?F = "filter (\<lambda>d. fround (digits_value d) = Fin v) ?c"
  show ?case
  proof (cases ?F)
    case Nil
    then show ?thesis using 2 by simp
  next
    case (Cons d ds)
    then have d: "d = (s, k', n')" using "2.prems" by simp
    have "d \<in> set ?F" using Cons by simp
    then obtain t where t: "t \<in> set (digit_candidates (v * pow10 (int k - n)))"
      "d = normalize_digits k n t" and fr: "fround (digits_value d) = Fin v" by auto
    have "10 powi (int k - 1) = 10 powi (n - 1) * (10 powi (int k - n) :: rat)"
      by (simp flip: power_int_add)
    also have "\<dots> \<le> v * pow10 (int k - n)"
      using "2.prems"(2) by (simp add: pow10_powi mult_right_mono)
    finally have "(of_int (10 ^ (k - 1)) :: rat) \<le> v * pow10 (int k - n)"
      using "2.prems"(3) by (simp add: power_int_def nat_diff_distrib)
    then have "10 ^ (k - 1) \<le> \<lfloor>v * pow10 (int k - n)\<rfloor>" by (simp only: le_floor_iff)
    then have "10 ^ (k - 1) \<le> t" using digit_candidates_floor [OF t(1)] by linarith
    moreover have "(10::int) ^ (k - 1) < 10 ^ k" using "2.prems"(3) by simp
    ultimately show ?thesis
      using d t(2) fr "2.prems"(3) by (auto simp: normalize_digits_def split: if_splits)
  qed
qed

lemma search_digits_complete:
  assumes "v * 10 powi (int K - n) = of_int N" and "fround v = Fin v" and "v < 10 powi n"
    and "k \<le> K" and "K < k + fuel"
  shows "search_digits fuel k n v \<noteq> None"
  using assms
proof (induction fuel arbitrary: k)
  case 0
  then show ?case by simp
next
  case (Suc fuel)
  let ?c = "map (normalize_digits k n) (digit_candidates (v * pow10 (int k - n)))"
  let ?F = "filter (\<lambda>d. fround (digits_value d) = Fin v) ?c"
  show ?case
  proof (cases "k = K")
    case True
    have x: "v * pow10 (int k - n) = of_int N" using Suc.prems True by (simp add: pow10_powi)
    have "of_int N < (10 powi n * 10 powi (int K - n) :: rat)"
      using Suc.prems(1,3) by (metis mult_strict_right_mono zero_less_numeral zero_less_power_int)
    also have "\<dots> = of_int (10 ^ K)" by (simp flip: power_int_add)
    finally have "N < 10 ^ K" by (simp only: of_int_less_iff)
    then have nd: "normalize_digits k n N = (N, k, n)" using True by (simp add: normalize_digits_def)
    have "digits_value (N, k, n) = v * (10 powi (int K - n) * 10 powi (n - int K))"
      using Suc.prems(1) True by (simp add: digits_value_def pow10_powi)
    also have "\<dots> = v" by (simp flip: power_int_add)
    finally have "fround (digits_value (normalize_digits k n N)) = Fin v"
      using Suc.prems(2) nd by simp
    then have "normalize_digits k n N \<in> set ?F" using x by (simp add: digit_candidates_def)
    then obtain d ds where "?F = d # ds" by (cases ?F) auto
    then show ?thesis by simp
  next
    case False
    then have "search_digits fuel (Suc k) n v \<noteq> None" using Suc by auto
    then show ?thesis by (auto split: list.splits)
  qed
qed

lemma binary64_scaled_int:
  assumes "binary64 v" and "1074 \<le> j"
  shows "\<exists>N. v * 10 powi j = of_int N"
proof -
  obtain m k where v: "v = of_int m * 2 powi k" and k: "-1074 \<le> k"
    using assms by (auto simp: binary64_def)
  have "(10::rat) powi j = (2 * 5) powi j" by simp
  also have "\<dots> = 2 powi j * 5 powi j" by (rule power_int_mult_distrib)
  finally have "v * 10 powi j = of_int m * (2 powi (k + j) * 5 powi j)"
    by (simp add: v power_int_add)
  also have "\<dots> = of_int (m * (2 ^ nat (k + j) * 5 ^ nat j))"
    using assms(2) k by (simp add: power_int_def)
  finally show ?thesis by blast
qed

lemma binary64_less_pow10:
  assumes "binary64 v"
  shows "v < 10 powi 309"
proof -
  obtain m k where v: "v = of_int m * 2 powi k" and m: "\<bar>m\<bar> < 2 ^ 53" and k: "k \<le> 971"
    using assms by (auto simp: binary64_def)
  have "v \<le> of_int (2 ^ 53) * 2 powi k"
    unfolding v using m by (intro mult_right_mono) (simp_all only: of_int_le_iff, auto)
  also have "\<dots> \<le> of_int (2 ^ 53) * 2 powi 971"
    using k by (intro mult_left_mono power_int_increasing) auto
  also have "\<dots> = of_int (2 ^ 53 * 2 ^ 971)" by (simp add: power_int_def)
  also have "\<dots> < of_int (10 ^ 309)" by (simp only: of_int_less_iff) simp
  also have "\<dots> = 10 powi 309" by (simp add: power_int_def)
  finally show ?thesis .
qed

lemma shortest_digits_correct:
  assumes "binary64 v" and "v > 0"
  obtains s k n where "shortest_digits v = Some (s, k, n)" "fround (digits_value (s, k, n)) = Fin v"
    "1 \<le> k" "10 ^ (k - 1) \<le> s" "s < 10 ^ k"
proof -
  define n where "n = decimal_point v"
  have lo: "10 powi (n - 1) \<le> v" and hi: "v < 10 powi n"
    using decimal_point_bounds [OF assms(2)] by (auto simp: n_def)
  have "n \<le> 309"
  proof (rule ccontr)
    assume "\<not> n \<le> 309"
    then have "(10 powi 309 :: rat) \<le> 10 powi (n - 1)" by (intro powi10_mono) simp
    then show False using lo binary64_less_pow10 [OF assms(1)] by simp
  qed
  define K where "K = nat (max 1 (1074 + n))"
  have "1074 \<le> int K - n" "1 \<le> K" "K < 1 + 1400" using \<open>n \<le> 309\<close> by (auto simp: K_def)
  then obtain N where "v * 10 powi (int K - n) = of_int N"
    using binary64_scaled_int [OF assms(1)] by blast
  then have "search_digits 1400 1 n v \<noteq> None"
    using search_digits_complete [of v K n N 1 1400] fround_exact [OF assms(1)] hi
      \<open>1 \<le> K\<close> \<open>K < 1 + 1400\<close> by blast
  then obtain s k n' where "search_digits 1400 1 n v = Some (s, k, n')" by (metis not_None_eq prod_cases3)
  moreover from search_digits_sound [OF this lo] have
    "fround (digits_value (s, k, n')) = Fin v \<and> 1 \<le> k \<and> 10 ^ (k - 1) \<le> s \<and> s < 10 ^ k" by simp
  ultimately show ?thesis using that by (auto simp: shortest_digits_def n_def)
qed

lemma digits_of_length:
  assumes "10 ^ (k - 1) \<le> s" and "s < 10 ^ k" and "1 \<le> k"
  shows "length (digits_of s) = k"
proof -
  have "s > 0" using assms(1) by (meson less_le_trans zero_less_numeral zero_less_power)
  then have b: "10 ^ (length (digits_of s) - 1) \<le> s" "s < 10 ^ length (digits_of s)"
    using digits_of_bounds by auto
  have "k - 1 < length (digits_of s)"
    using assms(1) b(2) by (metis le_less_trans one_less_numeral_iff power_less_imp_less_exp semiring_norm(76))
  moreover have "length (digits_of s) - 1 < k"
    using assms(2) b(1) by (metis le_less_trans one_less_numeral_iff power_less_imp_less_exp semiring_norm(76))
  ultimately show ?thesis using assms(3) by linarith
qed

definition no_digit_hd :: "string \<Rightarrow> bool" where
  "no_digit_hd r \<longleftrightarrow> r = [] \<or> \<not> is_digit (hd r)"

lemma span_digits:
  assumes "list_all is_digit ds" and "no_digit_hd r"
  shows "takeWhile is_digit (ds @ r) = ds" "dropWhile is_digit (ds @ r) = r"
  using assms by (induction ds) (auto simp: no_digit_hd_def, (cases r; simp)+)

lemma parse_unsigned_plain:
  assumes "list_all is_digit ip" and "ip \<noteq> []" and "no_digit_hd r" and "r = [] \<or> hd r \<noteq> CHR ''.''"
  shows "parse_unsigned_decimal (ip @ r) =
    map_option (\<lambda>e. of_int (int_of_digits ip) * pow10 e) (parse_exponent r)"
  using assms by (auto simp: parse_unsigned_decimal_def Let_def span_digits)

lemma not_digit_dot [simp]: "\<not> is_digit CHR ''.''"
  by (simp add: is_digit_def)

lemma parse_unsigned_point:
  assumes "list_all is_digit ip" and "list_all is_digit fp" and "ip \<noteq> [] \<or> fp \<noteq> []" and "no_digit_hd r"
  shows "parse_unsigned_decimal (ip @ CHR ''.'' # fp @ r) =
    map_option (\<lambda>e. of_int (int_of_digits (ip @ fp)) * pow10 (e - int (length fp))) (parse_exponent r)"
proof -
  have "no_digit_hd (CHR ''.'' # fp @ r)" by (simp add: no_digit_hd_def)
  note span_digits [OF assms(1) this]
  moreover note span_digits [OF assms(2,4)]
  ultimately show ?thesis using assms(3) by (auto simp: parse_unsigned_decimal_def Let_def)
qed

lemma is_digit_hd_digits_of: "n \<ge> 0 \<Longrightarrow> is_digit (hd (digits_of n))"
  using digits_of_digits [of n] by (cases "digits_of n") auto

lemma parse_exponent_render:
  "parse_exponent (''e'' @ (if e < 0 then ''-'' else ''+'') @ digits_of \<bar>e\<bar>) = Some e"
  using digits_of_digits [of "\<bar>e\<bar>"] by (auto simp: parse_exponent_def)

lemma pow10_add: "pow10 (a + b) = pow10 a * pow10 b"
  by (simp add: pow10_powi power_int_add)

lemma list_all_take_drop: "list_all P xs \<Longrightarrow> list_all P (take n xs)" "list_all P xs \<Longrightarrow> list_all P (drop n xs)"
  by (auto simp: list_all_iff dest: in_set_takeD in_set_dropD)

lemma zeros_digits [simp]: "list_all is_digit (replicate n CHR ''0'')"
  by (induction n) (simp_all add: is_digit_def)

lemma parse_render_digits:
  assumes k: "1 \<le> k" and s: "10 ^ (k - 1) \<le> s" "s < 10 ^ k"
  shows "parse_unsigned_decimal (render_digits (s, k, n)) = Some (digits_value (s, k, n))"
proof -
  let ?ds = "digits_of s"
  have s0: "s \<ge> 0" using s(1) by (meson order_trans zero_le_numeral zero_le_power)
  have len: "length ?ds = k" using digits_of_length s k by blast
  have dig: "list_all is_digit ?ds" using digits_of_digits s0 by blast
  have val: "int_of_digits ?ds = s" using s0 by simp
  have nil: "no_digit_hd []" "parse_exponent [] = Some 0"
    by (simp_all add: no_digit_hd_def parse_exponent_def)
  let ?ex = "''e'' @ (if n - 1 < 0 then ''-'' else ''+'') @ digits_of \<bar>n - 1\<bar>"
  have ex: "no_digit_hd ?ex" "hd ?ex \<noteq> CHR ''.''" "parse_exponent ?ex = Some (n - 1)"
    by (simp add: no_digit_hd_def is_digit_def, simp, rule parse_exponent_render)
  consider (int) "int k \<le> n" "n \<le> 21" | (mid) "\<not> int k \<le> n" "0 < n" "n \<le> 21"
    | (small) "-6 < n" "n \<le> 0" "\<not> int k \<le> n"
    | (exp1) "\<not> (int k \<le> n \<and> n \<le> 21)" "\<not> (0 < n \<and> n \<le> 21)" "\<not> (-6 < n \<and> n \<le> 0)" "k = 1"
    | (exp) "\<not> (int k \<le> n \<and> n \<le> 21)" "\<not> (0 < n \<and> n \<le> 21)" "\<not> (-6 < n \<and> n \<le> 0)" "k \<noteq> 1"
    using k by linarith
  then show ?thesis
  proof cases
    case int
    let ?z = "replicate (nat (n - int k)) CHR ''0''"
    have "list_all is_digit (?ds @ ?z)" using dig by simp
    moreover have "int_of_digits (?ds @ ?z) = s * 10 ^ nat (n - int k)"
      by (simp add: int_of_digits_append val)
    ultimately show ?thesis
      using parse_unsigned_plain [of "?ds @ ?z" "[]"] nil int
      by (simp add: render_digits_def digits_value_def pow10_powi power_int_def Let_def)
  next
    case mid
    have "take (nat n) ?ds \<noteq> []" using mid by simp
    moreover have "length (drop (nat n) ?ds) = k - nat n" using len by simp
    ultimately show ?thesis
      using parse_unsigned_point [of "take (nat n) ?ds" "drop (nat n) ?ds" "[]"] nil mid len
        list_all_take_drop [OF dig] val
      by (simp add: render_digits_def digits_value_def of_nat_diff Let_def)
  next
    case small
    let ?f = "replicate (nat (- n)) CHR ''0'' @ ?ds"
    have "list_all is_digit ?f" using dig by simp
    moreover have "int_of_digits (''0'' @ ?f) = s"
      using int_of_digits_append [of "replicate (Suc (nat (- n))) CHR ''0''" ?ds] val
        int_of_digits_zeros [of "Suc (nat (- n))"] by (simp del: int_of_digits_zeros)
    moreover have "list_all is_digit ''0''" by (simp add: is_digit_def)
    ultimately show ?thesis
      using parse_unsigned_point [of "''0''" ?f "[]"] nil small len k
      by (simp add: render_digits_def digits_value_def of_nat_diff Let_def)
  next
    case exp1
    then show ?thesis
      using parse_unsigned_plain [of ?ds ?ex] dig ex val
      by (auto simp: render_digits_def digits_value_def Let_def)
  next
    case exp
    have "take 1 ?ds \<noteq> []" by simp
    moreover have "int_of_digits (take 1 ?ds @ drop 1 ?ds) = s" using val by simp
    moreover have "length (drop 1 ?ds) = k - 1" using len by simp
    ultimately have "parse_unsigned_decimal (take 1 ?ds @ CHR ''.'' # drop 1 ?ds @ ?ex) =
        Some (of_int s * pow10 (n - 1 - int (k - 1)))"
      using parse_unsigned_point [of "take 1 ?ds" "drop 1 ?ds" ?ex] list_all_take_drop [OF dig] ex by simp
    moreover have "n - 1 - int (k - 1) = n - int k" using k by simp
    ultimately show ?thesis using exp by (auto simp: render_digits_def digits_value_def Let_def)
  qed
qed

definition is_num_char :: "char \<Rightarrow> bool" where
  "is_num_char c \<longleftrightarrow> is_digit c \<or> c \<in> {CHR ''.'', CHR ''e'', CHR ''+'', CHR ''-''}"

lemma num_char_not_ws: "is_num_char c \<Longrightarrow> \<not> is_ws c"
  by (auto simp: is_num_char_def is_digit_def is_ws_def)

lemma num_char_not_radix: "is_num_char c \<Longrightarrow> radix_of_prefix c = None"
  by (auto simp: is_num_char_def is_digit_def radix_of_prefix_def)

lemma render_digits_chars:
  assumes "s \<ge> 0"
  shows "list_all is_num_char (render_digits (s, k, n))"
proof -
  have d: "list_all is_num_char (digits_of m)" if "m \<ge> 0" for m
    using digits_of_digits [OF that] by (auto simp: list_all_iff is_num_char_def)
  have z: "list_all is_num_char (replicate m CHR ''0'')" for m
    using zeros_digits [of m] by (auto simp: list_all_iff is_num_char_def)
  note td = list_all_take_drop [OF d [OF assms]]
  have p: "is_num_char CHR ''.''" "is_num_char CHR ''e''" "is_num_char CHR ''-''"
    "is_num_char CHR ''+''" "is_num_char CHR ''0''"
    by (simp_all add: is_num_char_def is_digit_def)
  show ?thesis using d [OF assms] z td p d [of "\<bar>n - 1\<bar>"] by (simp add: render_digits_def Let_def)
qed

lemma hd_render_digits:
  assumes "s \<ge> 0" and "1 \<le> k"
  shows "render_digits (s, k, n) \<noteq> [] \<and> is_digit (hd (render_digits (s, k, n)))"
proof -
  have "is_digit (hd (take m (digits_of s)))" if "m > 0" for m
    using is_digit_hd_digits_of [OF assms(1)] that by simp
  then show ?thesis
    using is_digit_hd_digits_of [OF assms(1)] by (auto simp: render_digits_def Let_def is_digit_def)
qed

lemma trim_no_ws: "list_all (\<lambda>c. \<not> is_ws c) s \<Longrightarrow> trim s = s"
  by (rule trim_id) (auto simp: list_all_iff)

lemma parse_radix_num_chars: "list_all is_num_char s \<Longrightarrow> parse_radix_literal s = None"
  by (auto simp: parse_radix_literal_def num_char_not_radix split: list.splits)

lemma string_to_number_num_chars:
  assumes "list_all is_num_char s" and "s \<noteq> []"
  shows "string_to_number s =
    (let neg = (hd s = CHR ''-''); u = (if hd s = CHR ''-'' \<or> hd s = CHR ''+'' then tl s else s)
     in case parse_unsigned_decimal u of None \<Rightarrow> NaN | Some x \<Rightarrow> fround (if neg then - x else x))"
proof -
  have "trim s = s" using assms(1) num_char_not_ws by (intro trim_no_ws) (auto simp: list_all_iff)
  moreover have "\<not> is_num_char CHR ''I''" by (simp add: is_num_char_def is_digit_def)
  then have "u \<noteq> ''Infinity''" if "list_all is_num_char u" for u
    using that by auto
  moreover have "list_all is_num_char (tl s)" using assms by (cases s) auto
  ultimately show ?thesis
    using assms parse_radix_num_chars [OF assms(1)] by (simp add: string_to_number_def Let_def)
qed

lemma string_of_pos_rat_correct:
  assumes "binary64 v" and "v > 0"
  obtains s k n where "string_of_pos_rat v = render_digits (s, k, n)"
    "fround (digits_value (s, k, n)) = Fin v" "1 \<le> k" "10 ^ (k - 1) \<le> s" "s < 10 ^ k" "s \<ge> 0"
proof -
  obtain s k n where r: "shortest_digits v = Some (s, k, n)" "fround (digits_value (s, k, n)) = Fin v"
    "1 \<le> k" "10 ^ (k - 1) \<le> s" "s < 10 ^ k"
    using shortest_digits_correct [OF assms] .
  have "(0::int) \<le> 10 ^ (k - 1)" by simp
  then have "s \<ge> 0" using r(4) by linarith
  then show ?thesis using that r by (simp add: string_of_pos_rat_def)
qed

lemma js_String_chars:
  assumes "binary64 v"
  shows "list_all is_num_char (js_String (Fin v)) \<and> js_String (Fin v) \<noteq> []"
proof -
  have pos: "list_all is_num_char (string_of_pos_rat w) \<and> string_of_pos_rat w \<noteq> []"
    if w: "binary64 w" "w > 0" for w
  proof -
    obtain s k n where "string_of_pos_rat w = render_digits (s, k, n)"
      "fround (digits_value (s, k, n)) = Fin w" "1 \<le> k" "10 ^ (k - 1) \<le> s" "s < 10 ^ k" "s \<ge> 0"
      using string_of_pos_rat_correct [OF w] .
    then show ?thesis using render_digits_chars hd_render_digits by simp
  qed
  have "is_num_char CHR ''0''" "is_num_char CHR ''-''" by (simp_all add: is_num_char_def is_digit_def)
  then show ?thesis using pos [of v] pos [of "- v"] assms by auto
qed

lemma fround_uminus: "fround x = Fin y \<Longrightarrow> fround (- x) = Fin (- y)"
  by (auto simp: fround_def Let_def rat_uminus_code split: prod.splits option.splits if_splits)

text \<open>\<open>Number(String(v))\<close> is \<open>v\<close>, for every finite number.\<close>

lemma string_to_number_String:
  assumes "binary64 v"
  shows "string_to_number (js_String (Fin v)) = Fin v"
proof -
  have pos: "(case parse_unsigned_decimal (string_of_pos_rat w) of None \<Rightarrow> NaN | Some x \<Rightarrow> fround x) = Fin w
      \<and> (case parse_unsigned_decimal (string_of_pos_rat w) of None \<Rightarrow> NaN | Some x \<Rightarrow> fround (- x)) = Fin (- w)
      \<and> is_digit (hd (string_of_pos_rat w))"
    if w: "binary64 w" "w > 0" for w
  proof -
    obtain s k n where r: "string_of_pos_rat w = render_digits (s, k, n)"
      "fround (digits_value (s, k, n)) = Fin w" "1 \<le> k" "10 ^ (k - 1) \<le> s" "s < 10 ^ k" "s \<ge> 0"
      using string_of_pos_rat_correct [OF w] .
    then show ?thesis
      using parse_render_digits [of k s n] hd_render_digits [of s k n] fround_uminus by simp
  qed
  have nd: "c \<noteq> CHR ''-'' \<and> c \<noteq> CHR ''+''" if "is_digit c" for c
    using that by (auto simp: is_digit_def)
  consider "v = 0" | "v > 0" | "v < 0" by linarith
  then show ?thesis
  proof cases
    case 1
    have "string_to_number ''0'' = Fin 0" by code_simp
    then show ?thesis using 1 by simp
  next
    case 2
    have "js_String (Fin v) = string_of_pos_rat v" using 2 by simp
    moreover have "hd (string_of_pos_rat v) \<noteq> CHR ''-''" "hd (string_of_pos_rat v) \<noteq> CHR ''+''"
      using nd pos [OF assms 2] by auto
    ultimately show ?thesis
      using string_to_number_num_chars [of "js_String (Fin v)"] js_String_chars [OF assms] pos [OF assms 2]
      by (simp only: Let_def if_False simp_thms)
  next
    case 3
    then show ?thesis
      using string_to_number_num_chars [of "js_String (Fin v)"] js_String_chars [OF assms]
        pos [of "- v"] assms by (simp cong: option.case_cong)
  qed
qed

end
