(* ===== verification/HttpStatusCodeRules.thy ===== *)
theory HttpStatusCodeRules
  imports JsNumber "HOL-Library.Product_Lexorder"
begin

text \<open>
  \<open>web/default/src/lib/http-status-code-rules.ts\<close>: the text of a status code rule list
  (\<open>"401,403,500-503"\<close>) is parsed, its ranges are sorted and merged, and the normalised text
  is printed back.

  Status codes are integers: \<open>parseInt\<close> of a digit string is exact up to \<open>2 ^ 53\<close> and every
  larger value is rejected by \<open>isValidCode\<close>. The replacement of the full-width comma is
  the identity on the code units of the model.

  The lemmas show that merging keeps the set of codes covered, that its result is the one list
  of separated ranges with that set, and that the normalised text parses to itself.
\<close>

record StatusCodeRange =
  rstart :: int
  rend :: int

record ParsedHttpStatusCodeRules =
  ok :: bool
  ranges :: "StatusCodeRange list"
  tokens :: "string list"
  normalized :: string
  invalidTokens :: "string list"

section \<open>Parsing\<close>

definition isNumber :: "string \<Rightarrow> bool" where
  "isNumber s \<longleftrightarrow> s \<noteq> [] \<and> list_all is_digit s"

definition isValidCode :: "int \<Rightarrow> bool" where
  "isValidCode code \<longleftrightarrow> 100 \<le> code \<and> code \<le> 599"

definition parseToken :: "string \<Rightarrow> StatusCodeRange option" where
  "parseToken tok =
     (let cleaned = filter (\<lambda>c. \<not> is_ws c) (trim tok) in
      if cleaned = [] then None
      else if CHR ''-'' \<in> set cleaned then
        (case split_char CHR ''-'' cleaned of
           a # b # _ \<Rightarrow>
             if \<not> isNumber a \<or> \<not> isNumber b then None
             else
               let s = int_of_digits a; e = int_of_digits b
               in if \<not> isValidCode s \<or> \<not> isValidCode e \<or> e < s then None
                  else Some \<lparr>rstart = s, rend = e\<rparr>
         | _ \<Rightarrow> None)
      else if \<not> isNumber cleaned then None
      else
        let code = int_of_digits cleaned
        in if \<not> isValidCode code then None else Some \<lparr>rstart = code, rend = code\<rparr>)"

section \<open>Merging\<close>

definition sortRanges :: "StatusCodeRange list \<Rightarrow> StatusCodeRange list" where
  "sortRanges rs = sort_key (\<lambda>r. (rstart r, rend r)) rs"

definition mergeStep :: "StatusCodeRange list \<Rightarrow> StatusCodeRange \<Rightarrow> StatusCodeRange list" where
  "mergeStep merged current =
     (if merged = [] \<or> rend (last merged) + 1 < rstart current then merged @ [current]
      else butlast merged @ [(last merged)\<lparr>rend := max (rend (last merged)) (rend current)\<rparr>])"

definition mergeRanges :: "StatusCodeRange list \<Rightarrow> StatusCodeRange list" where
  "mergeRanges rs = (if rs = [] then [] else foldl mergeStep [] (sortRanges rs))"

section \<open>The rule list\<close>

definition rangeToken :: "StatusCodeRange \<Rightarrow> string" where
  "rangeToken r =
     (if rstart r = rend r then string_of_int (rstart r)
      else string_of_int (rstart r) @ ''-'' @ string_of_int (rend r))"

definition segmentsOf :: "string \<Rightarrow> string list" where
  "segmentsOf raw = filter_boolean (map trim (split_char CHR '','' raw))"

fun classifySegments :: "string list \<Rightarrow> StatusCodeRange list \<times> string list" where
  "classifySegments [] = ([], [])"
| "classifySegments (seg # segs) =
     (case classifySegments segs of (rs, bad) \<Rightarrow>
        case parseToken seg of None \<Rightarrow> (rs, seg # bad) | Some r \<Rightarrow> (r # rs, bad))"

definition parseHttpStatusCodeRules :: "string option \<Rightarrow> ParsedHttpStatusCodeRules" where
  "parseHttpStatusCodeRules input =
     (let raw = trim (case input of None \<Rightarrow> [] | Some s \<Rightarrow> s) in
      if length raw = 0
      then \<lparr>ok = True, ranges = [], tokens = [], normalized = [], invalidTokens = []\<rparr>
      else
        case classifySegments (segmentsOf raw) of (rs, bad) \<Rightarrow>
          if length bad > 0
          then \<lparr>ok = False, ranges = [], tokens = [], normalized = raw, invalidTokens = bad\<rparr>
          else
            let merged = mergeRanges rs; toks = map rangeToken merged
            in \<lparr>ok = True, ranges = merged, tokens = toks, normalized = join '','' toks,
                invalidTokens = []\<rparr>)"

section \<open>What a list of ranges means\<close>

definition valid_range :: "StatusCodeRange \<Rightarrow> bool" where
  "valid_range r \<longleftrightarrow> isValidCode (rstart r) \<and> isValidCode (rend r) \<and> rstart r \<le> rend r"

definition codes :: "StatusCodeRange list \<Rightarrow> int set" where
  "codes rs = (\<Union>r\<in>set rs. {rstart r .. rend r})"

fun separated :: "StatusCodeRange list \<Rightarrow> bool" where
  "separated [] = True"
| "separated [r] = (rstart r \<le> rend r)"
| "separated (r # s # rs) = (rstart r \<le> rend r \<and> rend r + 1 < rstart s \<and> separated (s # rs))"

lemma codes_Nil [simp]: "codes [] = {}" and codes_Cons: "codes (r # rs) = {rstart r .. rend r} \<union> codes rs"
  and codes_append: "codes (rs @ ss) = codes rs \<union> codes ss"
  by (auto simp: codes_def)

lemma separated_append:
  "separated (rs @ [r]) \<longleftrightarrow>
     separated rs \<and> rstart r \<le> rend r \<and> (rs = [] \<or> rend (last rs) + 1 < rstart r)"
  by (induction rs rule: separated.induct) auto

lemma separated_butlast_last:
  assumes "rs \<noteq> []"
  shows "separated rs \<longleftrightarrow> separated (butlast rs) \<and> rstart (last rs) \<le> rend (last rs) \<and>
    (butlast rs = [] \<or> rend (last (butlast rs)) + 1 < rstart (last rs))"
  using separated_append [of "butlast rs" "last rs"] assms by simp

lemma separated_mergeStep:
  assumes "separated rs" and "rstart r \<le> rend r"
  shows "separated (mergeStep rs r)"
proof (cases "rs = [] \<or> rend (last rs) + 1 < rstart r")
  case True
  then show ?thesis using assms by (auto simp: mergeStep_def separated_append)
next
  case False
  then show ?thesis
    using assms separated_butlast_last [of rs]
    by (auto simp: mergeStep_def separated_append)
qed

lemma interval_merge:
  "a \<le> c \<Longrightarrow> a \<le> b \<Longrightarrow> c \<le> b + 1 \<Longrightarrow> {a .. max b d} = {a .. b} \<union> {c .. (d::int)}"
  by auto

lemma codes_mergeStep:
  assumes "rs = [] \<or> rstart (last rs) \<le> rstart r" and "rs = [] \<or> rstart (last rs) \<le> rend (last rs)"
  shows "codes (mergeStep rs r) = codes rs \<union> {rstart r .. rend r}"
proof (cases "rs = []")
  case True
  then show ?thesis by (simp add: mergeStep_def codes_Cons)
next
  case False
  then have rs: "codes rs = codes (butlast rs) \<union> {rstart (last rs) .. rend (last rs)}"
    using codes_append [of "butlast rs" "[last rs]"] by (simp add: codes_Cons)
  show ?thesis
  proof (cases "rend (last rs) + 1 < rstart r")
    case True
    then show ?thesis by (simp add: mergeStep_def codes_append codes_Cons)
  next
    case merge: False
    then have "{rstart (last rs) .. max (rend (last rs)) (rend r)} =
        {rstart (last rs) .. rend (last rs)} \<union> {rstart r .. rend r}"
      using False assms by (intro interval_merge) auto
    then show ?thesis using False merge rs by (simp add: mergeStep_def codes_append codes_Cons Un_assoc)
  qed
qed

lemma rstart_last_mergeStep:
  "rs = [] \<or> rstart (last rs) \<le> rstart r \<Longrightarrow> rstart (last (mergeStep rs r)) \<le> rstart r \<and> mergeStep rs r \<noteq> []"
  by (auto simp: mergeStep_def)

lemma foldl_mergeStep:
  assumes "sorted (map rstart ss)" and "\<forall>r\<in>set ss. rstart r \<le> rend r" and "separated rs"
    and "rs = [] \<or> (\<forall>r\<in>set ss. rstart (last rs) \<le> rstart r)"
  shows "separated (foldl mergeStep rs ss) \<and> codes (foldl mergeStep rs ss) = codes rs \<union> codes ss"
  using assms
proof (induction ss arbitrary: rs)
  case Nil
  then show ?case by simp
next
  case (Cons r ss)
  let ?m = "mergeStep rs r"
  have le: "rs = [] \<or> rstart (last rs) \<le> rstart r" using Cons.prems by auto
  have last: "rs = [] \<or> rstart (last rs) \<le> rend (last rs)"
    using Cons.prems(3) separated_butlast_last [of rs] by blast
  have "separated ?m" using Cons.prems by (simp add: separated_mergeStep)
  moreover have "\<forall>s\<in>set ss. rstart (last ?m) \<le> rstart s"
    using rstart_last_mergeStep [OF le] Cons.prems(1) by fastforce
  ultimately have "separated (foldl mergeStep ?m ss) \<and> codes (foldl mergeStep ?m ss) = codes ?m \<union> codes ss"
    using Cons.IH [of ?m] Cons.prems by simp
  then show ?case using codes_mergeStep [OF le last] by (auto simp: codes_Cons)
qed

lemma sorted_sortRanges: "sorted (map rstart (sortRanges rs))"
proof -
  have "sorted (map (\<lambda>r. (rstart r, rend r)) (sortRanges rs))"
    by (simp add: sortRanges_def)
  then show ?thesis
    by (fastforce simp: sorted_iff_nth_mono less_eq_prod_def)
qed

lemma set_sortRanges [simp]: "set (sortRanges rs) = set rs"
  by (simp add: sortRanges_def)

lemma codes_sortRanges [simp]: "codes (sortRanges rs) = codes rs"
  by (simp add: codes_def)

lemma mergeRanges_correct:
  assumes "\<forall>r\<in>set rs. rstart r \<le> rend r"
  shows "separated (mergeRanges rs)" and "codes (mergeRanges rs) = codes rs"
  using foldl_mergeStep [of "sortRanges rs" "[]"] sorted_sortRanges assms
  by (auto simp: mergeRanges_def)

lemma separated_codes_gap:
  "separated (r # rs) \<Longrightarrow> c \<in> codes rs \<Longrightarrow> rend r + 1 < c"
proof (induction rs arbitrary: r)
  case (Cons s rs)
  have sep: "separated (s # rs)" "rstart s \<le> rend s" "rend r + 1 < rstart s"
    using Cons.prems(1) by (cases rs; auto)+
  from Cons.prems(2) consider "c \<in> {rstart s .. rend s}" | "c \<in> codes rs" by (auto simp: codes_Cons)
  then show ?case
    using sep Cons.IH [OF sep(1)] by cases auto
qed simp

lemma separated_ConsD:
  "separated (r # rs) \<Longrightarrow> rstart r \<le> rend r" "separated (r # rs) \<Longrightarrow> separated rs"
  by (cases rs; simp)+

lemma codes_tl: "separated (r # rs) \<Longrightarrow> codes rs = {c \<in> codes (r # rs). rend r < c}"
  using separated_codes_gap [of r rs] by (fastforce simp: codes_Cons)

lemma codes_first: "separated (r # rs) \<Longrightarrow> rstart r \<in> codes (r # rs) \<and> (\<forall>c\<in>codes (r # rs). rstart r \<le> c)"
  using separated_codes_gap [of r rs] separated_ConsD(1) [of r rs] by (fastforce simp: codes_Cons)

lemma codes_run:
  assumes "separated (r # rs)" and "rstart r \<le> c"
  shows "{rstart r .. c} \<subseteq> codes (r # rs) \<longleftrightarrow> c \<le> rend r"
proof
  assume sub: "{rstart r .. c} \<subseteq> codes (r # rs)"
  show "c \<le> rend r"
  proof (rule ccontr)
    assume "\<not> c \<le> rend r"
    then have "rend r + 1 \<in> codes (r # rs)"
      using sub separated_ConsD(1) [OF assms(1)] by auto
    then show False using separated_codes_gap [OF assms(1), of "rend r + 1"] by (auto simp: codes_Cons)
  qed
qed (auto simp: codes_Cons)

lemma separated_unique: "separated rs \<Longrightarrow> separated ss \<Longrightarrow> codes rs = codes ss \<Longrightarrow> rs = ss"
proof (induction rs arbitrary: ss)
  case Nil
  then show ?case using codes_first by (cases ss) auto
next
  case (Cons r rs)
  obtain s ss' where ss: "ss = s # ss'"
    using Cons.prems codes_first by (cases ss) auto
  note rs = Cons.prems(1) and ss' = Cons.prems(2) [unfolded ss] and eq = Cons.prems(3) [unfolded ss]
  have st: "rstart r = rstart s"
    using codes_first [OF rs] codes_first [OF ss'] eq by (metis order_antisym)
  have en: "rend r = rend s"
    using codes_run [OF rs, of "rend s"] codes_run [OF ss', of "rend r"]
      codes_run [OF rs, of "rend r"] codes_run [OF ss', of "rend s"]
      separated_ConsD(1) [OF rs] separated_ConsD(1) [OF ss'] st eq by simp
  have "codes rs = codes ss'" using codes_tl [OF rs] codes_tl [OF ss'] eq en by simp
  then have "rs = ss'" using Cons.IH separated_ConsD(2) rs ss' by blast
  then show ?case using st en ss by simp
qed

definition proper_ranges :: "StatusCodeRange list \<Rightarrow> bool" where
  "proper_ranges rs \<longleftrightarrow> (\<forall>r\<in>set rs. rstart r \<le> rend r)"

lemma separated_proper: "separated rs \<Longrightarrow> proper_ranges rs"
  unfolding proper_ranges_def by (induction rs rule: separated.induct) auto

interpretation merge: canonical_normaliser mergeRanges separated proper_ranges codes
proof
  fix rs ss :: "StatusCodeRange list"
  show "separated (mergeRanges rs)" and "codes (mergeRanges rs) = codes rs" if "proper_ranges rs"
    using mergeRanges_correct that by (auto simp: proper_ranges_def)
  then show "proper_ranges (mergeRanges rs)" if "proper_ranges rs"
    using separated_proper that by blast
  show "rs = ss" if "separated rs" "separated ss" "codes rs = codes ss"
    using separated_unique that by blast
qed

section \<open>Tokens\<close>

lemma parseToken_valid: "parseToken s = Some r \<Longrightarrow> valid_range r"
  by (auto simp: parseToken_def Let_def valid_range_def split: if_splits list.splits)

lemma digits_free: "c \<in> set (digits_of n) \<Longrightarrow> n \<ge> 0 \<Longrightarrow> is_digit c"
  using digits_of_digits by (auto simp: list_all_iff)

lemma digit_not_special: "is_digit c \<Longrightarrow> c \<noteq> CHR ''-'' \<and> c \<noteq> CHR '','' \<and> \<not> is_ws c"
  by (auto simp: is_digit_def is_ws_def)

lemma isNumber_digits_of: "n \<ge> 0 \<Longrightarrow> isNumber (digits_of n)"
  by (simp add: isNumber_def digits_of_digits)

lemma rangeToken_chars:
  assumes "valid_range r"
  shows "\<forall>c\<in>set (rangeToken r). is_digit c \<or> c = CHR ''-''" and "rangeToken r \<noteq> []"
  using assms digits_free
  by (auto simp: rangeToken_def string_of_int_def valid_range_def isValidCode_def)

lemma trim_chars: "(\<And>c. c \<in> set s \<Longrightarrow> \<not> is_ws c) \<Longrightarrow> trim s = s"
  by (rule trim_no_ws) (simp add: list_all_iff)

lemma parseToken_rangeToken:
  assumes "valid_range r"
  shows "parseToken (rangeToken r) = Some r"
proof -
  let ?t = "rangeToken r"
  have nows: "\<not> is_ws c" if "c \<in> set ?t" for c
    using rangeToken_chars(1) [OF assms] that digit_not_special by (auto simp: is_ws_def)
  then have cl: "filter (\<lambda>c. \<not> is_ws c) (trim ?t) = ?t"
    using trim_chars [of ?t] by (simp add: filter_id_conv)
  have pos: "rstart r \<ge> 0" "rend r \<ge> 0" using assms by (auto simp: valid_range_def isValidCode_def)
  have nodash: "CHR ''-'' \<notin> set (digits_of n)" if "n \<ge> 0" for n
    using digits_free [OF _ that] digit_not_special by blast
  show ?thesis
  proof (cases "rstart r = rend r")
    case True
    then have "?t = digits_of (rstart r)" using pos by (simp add: rangeToken_def string_of_int_def)
    then show ?thesis
      using cl nodash pos isNumber_digits_of assms True
      by (auto simp: parseToken_def Let_def valid_range_def)
  next
    case False
    then have t: "?t = digits_of (rstart r) @ CHR ''-'' # digits_of (rend r)"
      using pos by (simp add: rangeToken_def string_of_int_def)
    then have "split_char CHR ''-'' ?t = [digits_of (rstart r), digits_of (rend r)]"
      using nodash pos by (simp add: split_char_append split_char_no_sep)
    then show ?thesis
      using cl pos isNumber_digits_of assms t
      by (auto simp: parseToken_def Let_def valid_range_def)
  qed
qed

section \<open>Classifying segments\<close>

lemma classifySegments_ranges:
  "classifySegments segs = (rs, bad) \<Longrightarrow>
     bad = filter (\<lambda>s. parseToken s = None) segs \<and> rs = List.map_filter parseToken segs"
  by (induction segs arbitrary: rs bad)
     (auto simp: List.map_filter_simps split: prod.splits option.splits)

lemma map_filter_valid: "\<forall>r\<in>set (List.map_filter parseToken segs). valid_range r"
  using parseToken_valid by (auto simp: List.map_filter_def)

lemma valid_proper: "\<forall>r\<in>set rs. valid_range r \<Longrightarrow> proper_ranges rs"
  by (auto simp: proper_ranges_def valid_range_def)

lemma separated_ends: "separated rs \<Longrightarrow> r \<in> set rs \<Longrightarrow> rstart r \<in> codes rs \<and> rend r \<in> codes rs \<and> rstart r \<le> rend r"
  using separated_proper [of rs] by (auto simp: proper_ranges_def codes_def)

lemma mergeRanges_valid:
  assumes "\<forall>r\<in>set rs. valid_range r"
  shows "\<forall>r\<in>set (mergeRanges rs). valid_range r"
proof
  fix r assume r: "r \<in> set (mergeRanges rs)"
  have "rstart r \<in> codes rs \<and> rend r \<in> codes rs \<and> rstart r \<le> rend r"
    using separated_ends [OF merge.nf_norm_c r] valid_proper [OF assms] merge.meaning_norm by simp
  then show "valid_range r"
    using assms by (fastforce simp: valid_range_def codes_def isValidCode_def)
qed

lemma segmentsOf_tokens:
  assumes "\<forall>r\<in>set rs. valid_range r" and "rs \<noteq> []"
  shows "segmentsOf (join '','' (map rangeToken rs)) = map rangeToken rs"
proof -
  have nocomma: "CHR '','' \<notin> set (rangeToken r)" and ws: "trim (rangeToken r) = rangeToken r"
    and ne: "rangeToken r \<noteq> []" if "r \<in> set rs" for r
    using rangeToken_chars [of r] that assms digit_not_special trim_chars [of "rangeToken r"]
    by (auto simp: is_ws_def)
  have "split_char CHR '','' (join '','' (map rangeToken rs)) = map rangeToken rs"
    using nocomma assms(2) by (intro split_char_join) auto
  then show ?thesis using ws ne by (simp add: segmentsOf_def filter_boolean_id)
qed

lemma classify_tokens:
  "\<forall>r\<in>set rs. valid_range r \<Longrightarrow> classifySegments (map rangeToken rs) = (rs, [])"
  by (induction rs) (auto simp: parseToken_rangeToken)

section \<open>Parsing the whole list\<close>

definition rule_segments :: "string option \<Rightarrow> string list" where
  "rule_segments input = segmentsOf (trim (case input of None \<Rightarrow> [] | Some s \<Rightarrow> s))"

lemma segmentsOf_Nil [simp]: "segmentsOf [] = []"
  by (simp add: segmentsOf_def filter_boolean_def)

lemma mergeRanges_Nil [simp]: "mergeRanges [] = []"
  by (simp add: mergeRanges_def)

lemma parse_rules_cases:
  "parseHttpStatusCodeRules input =
     (if filter (\<lambda>s. parseToken s = None) (rule_segments input) = []
      then let merged = mergeRanges (List.map_filter parseToken (rule_segments input))
           in \<lparr>ok = True, ranges = merged, tokens = map rangeToken merged,
               normalized = join '','' (map rangeToken merged), invalidTokens = []\<rparr>
      else \<lparr>ok = False, ranges = [], tokens = [],
            normalized = trim (case input of None \<Rightarrow> [] | Some s \<Rightarrow> s),
            invalidTokens = filter (\<lambda>s. parseToken s = None) (rule_segments input)\<rparr>)"
proof -
  let ?raw = "trim (case input of None \<Rightarrow> [] | Some s \<Rightarrow> s)"
  obtain rs bad where c: "classifySegments (segmentsOf ?raw) = (rs, bad)" by fastforce
  show ?thesis
  proof (cases "?raw = []")
    case True
    then show ?thesis
      by (simp add: parseHttpStatusCodeRules_def rule_segments_def List.map_filter_simps)
  next
    case False
    then show ?thesis
      using c classifySegments_ranges [OF c]
      by (simp add: parseHttpStatusCodeRules_def rule_segments_def Let_def)
  qed
qed

lemma trim_join_tokens:
  "\<forall>r\<in>set rs. valid_range r \<Longrightarrow> trim (join '','' (map rangeToken rs)) = join '','' (map rangeToken rs)"
proof (rule trim_chars)
  fix c assume v: "\<forall>r\<in>set rs. valid_range r" and c: "c \<in> set (join '','' (map rangeToken rs))"
  then have "c = CHR '','' \<or> (\<exists>r\<in>set rs. c \<in> set (rangeToken r))"
    using set_join [of "'',''" "map rangeToken rs"] by auto
  then show "\<not> is_ws c"
    using rangeToken_chars(1) v digit_not_special by (auto simp: is_ws_def)
qed

definition rule_codes :: "string option \<Rightarrow> int set" where
  "rule_codes input = {c. \<exists>seg r. seg \<in> set (rule_segments input) \<and> parseToken seg = Some r \<and>
     rstart r \<le> c \<and> c \<le> rend r}"

lemma rule_codes_map_filter: "rule_codes input = codes (List.map_filter parseToken (rule_segments input))"
  by (fastforce simp: rule_codes_def codes_def List.map_filter_def)

lemma parse_rules_ok:
  assumes "ok (parseHttpStatusCodeRules input)"
  defines "rs \<equiv> mergeRanges (List.map_filter parseToken (rule_segments input))"
  shows "parseHttpStatusCodeRules input =
      \<lparr>ok = True, ranges = rs, tokens = map rangeToken rs, normalized = join '','' (map rangeToken rs),
       invalidTokens = []\<rparr>"
    and "\<forall>r\<in>set rs. valid_range r" and "separated rs" and "codes rs = rule_codes input"
proof -
  let ?m = "List.map_filter parseToken (rule_segments input)"
  show "parseHttpStatusCodeRules input =
      \<lparr>ok = True, ranges = rs, tokens = map rangeToken rs, normalized = join '','' (map rangeToken rs),
       invalidTokens = []\<rparr>"
    using assms(1) unfolding parse_rules_cases rs_def by (simp add: Let_def split: if_splits)
  have p: "proper_ranges ?m" using valid_proper map_filter_valid by blast
  show "\<forall>r\<in>set rs. valid_range r" unfolding rs_def by (rule mergeRanges_valid) (rule map_filter_valid)
  show "separated rs" unfolding rs_def by (rule merge.nf_norm_c [OF p])
  show "codes rs = rule_codes input" unfolding rs_def rule_codes_map_filter by (rule merge.meaning_norm [OF p])
qed

lemma parse_tokens_text:
  assumes "\<forall>r\<in>set rs. valid_range r" and "separated rs"
  shows "parseHttpStatusCodeRules (Some (join '','' (map rangeToken rs))) =
      \<lparr>ok = True, ranges = rs, tokens = map rangeToken rs, normalized = join '','' (map rangeToken rs),
       invalidTokens = []\<rparr>"
proof -
  let ?text = "join '','' (map rangeToken rs)"
  have seg: "rule_segments (Some ?text) = map rangeToken rs"
    using trim_join_tokens [OF assms(1)] segmentsOf_tokens [OF assms(1)]
    by (cases "rs = []") (simp_all add: rule_segments_def)
  note c = classify_tokens [OF assms(1)]
  have f: "filter (\<lambda>s. parseToken s = None) (map rangeToken rs) = []"
    "List.map_filter parseToken (map rangeToken rs) = rs"
    using classifySegments_ranges [OF c] by auto
  have "mergeRanges rs = rs" using merge.norm_nf separated_proper assms(2) by blast
  then show ?thesis unfolding parse_rules_cases seg f by (simp add: Let_def)
qed

text \<open>The ranges that \<open>parseHttpStatusCodeRules\<close> returns for a well-formed rule list are sorted,
  disjoint and not even adjacent, every bound lies in 100..599, and together they cover exactly
  the codes that the comma-separated tokens of the input name.\<close>

theorem http_rules_ranges:
  assumes "ok (parseHttpStatusCodeRules input)"
  shows "separated (ranges (parseHttpStatusCodeRules input)) \<and>
    codes (ranges (parseHttpStatusCodeRules input)) = rule_codes input \<and>
    rule_codes input \<subseteq> {100..599}"
proof -
  note r = parse_rules_ok [OF assms]
  have "c \<in> {100..599}" if "c \<in> rule_codes input" for c
    using that r(2) unfolding r(4) [symmetric]
    by (fastforce simp: codes_def valid_range_def isValidCode_def)
  then show ?thesis using r by auto
qed

theorem http_rules_ranges_witness:
  "ok (parseHttpStatusCodeRules (Some ''500-503, 401,502-510'')) \<and>
   codes (ranges (parseHttpStatusCodeRules (Some ''500-503, 401,502-510''))) = {401} \<union> {500..510}"
proof -
  have ok: "ok (parseHttpStatusCodeRules (Some ''500-503, 401,502-510''))" by code_simp
  have "ranges (parseHttpStatusCodeRules (Some ''500-503, 401,502-510'')) =
      [\<lparr>rstart = 401, rend = 401\<rparr>, \<lparr>rstart = 500, rend = 510\<rparr>]" by code_simp
  then show ?thesis using ok http_rules_ranges [OF ok] by (simp add: codes_def)
qed

text \<open>The normalised text of a well-formed rule list is a fixpoint: parsing it again gives the
  very same result, ranges, tokens and text included.\<close>

theorem http_rules_roundtrip:
  assumes "ok (parseHttpStatusCodeRules input)"
  shows "parseHttpStatusCodeRules (Some (normalized (parseHttpStatusCodeRules input))) =
    parseHttpStatusCodeRules input"
  using parse_rules_ok [OF assms] parse_tokens_text by simp

theorem http_rules_roundtrip_witness:
  "parseHttpStatusCodeRules (Some (normalized (parseHttpStatusCodeRules (Some ''504, 502-503''))))
     = parseHttpStatusCodeRules (Some ''504, 502-503'')
   \<and> normalized (parseHttpStatusCodeRules (Some ''504, 502-503'')) = ''502-504''"
proof -
  have ok: "ok (parseHttpStatusCodeRules (Some ''504, 502-503''))" by code_simp
  have "normalized (parseHttpStatusCodeRules (Some ''504, 502-503'')) = ''502-504''" by code_simp
  then show ?thesis using http_rules_roundtrip [OF ok] by blast
qed

text \<open>C1: The normalised text is canonical: two well-formed rule lists have the same normalised
  text exactly when they name the same set of status codes.\<close>

theorem http_rules_canonical:
  assumes "ok (parseHttpStatusCodeRules a)" and "ok (parseHttpStatusCodeRules b)"
  shows "normalized (parseHttpStatusCodeRules a) = normalized (parseHttpStatusCodeRules b) \<longleftrightarrow>
    rule_codes a = rule_codes b"
proof -
  note ra = parse_rules_ok [OF assms(1)] and rb = parse_rules_ok [OF assms(2)]
  show ?thesis
    using ra rb separated_unique parse_tokens_text [OF ra(2,3)] parse_tokens_text [OF rb(2,3)]
    by (metis (no_types, lifting) ParsedHttpStatusCodeRules.select_convs(2,4))
qed

theorem http_rules_canonical_witness:
  "normalized (parseHttpStatusCodeRules (Some ''500,501'')) =
   normalized (parseHttpStatusCodeRules (Some ''500-501,500'')) \<and>
   rule_codes (Some ''500,501'') = rule_codes (Some ''500-501,500'')"
proof -
  have a: "ok (parseHttpStatusCodeRules (Some ''500,501''))" by code_simp
  have b: "ok (parseHttpStatusCodeRules (Some ''500-501,500''))" by code_simp
  have "normalized (parseHttpStatusCodeRules (Some ''500,501'')) =
   normalized (parseHttpStatusCodeRules (Some ''500-501,500''))" by code_simp
  then show ?thesis using http_rules_canonical [OF a b] by blast
qed

section \<open>What the segments of a rule list name\<close>

text \<open>The specification of a segment, without the parser: its white space is ignored; it is the
  decimal text of a status code, or two of them around a hyphen, the first not above the second.
  Text after a second hyphen is read over.\<close>

definition code_text :: "string \<Rightarrow> int \<Rightarrow> bool" where
  "code_text s n \<longleftrightarrow> s \<noteq> [] \<and> list_all is_digit s \<and> int_of_digits s = n \<and> 100 \<le> n \<and> n \<le> 599"

definition segment_names :: "string \<Rightarrow> int \<Rightarrow> bool" where
  "segment_names seg k \<longleftrightarrow>
     (let c = filter (\<lambda>c. \<not> is_ws c) seg in
      code_text c k \<or>
      (\<exists>a b m n. (c = a @ ''-'' @ b \<or> (\<exists>rest. c = a @ ''-'' @ b @ ''-'' @ rest)) \<and>
        code_text a m \<and> code_text b n \<and> m \<le> k \<and> k \<le> n))"

lemma filter_dropWhile: "filter (\<lambda>c. \<not> P c) (dropWhile P s) = filter (\<lambda>c. \<not> P c) s"
  by (induction s) auto

lemma filter_trim: "filter (\<lambda>c. \<not> is_ws c) (trim s) = filter (\<lambda>c. \<not> is_ws c) s"
  by (simp add: trim_def rev_filter [symmetric] filter_dropWhile)

lemma code_text_no_dash: "code_text s n \<Longrightarrow> CHR ''-'' \<notin> set s"
  using digit_not_special by (auto simp: code_text_def list_all_iff)

lemma code_text_isNumber: "code_text s n \<longleftrightarrow> isNumber s \<and> int_of_digits s = n \<and> isValidCode n"
  by (auto simp: code_text_def isNumber_def isValidCode_def)

lemma split_dash_iff:
  assumes "CHR ''-'' \<notin> set a" and "CHR ''-'' \<notin> set b"
  shows "(\<exists>rest. split_char CHR ''-'' c = a # b # rest) \<longleftrightarrow>
    c = a @ ''-'' @ b \<or> (\<exists>rest. c = a @ ''-'' @ b @ ''-'' @ rest)"
proof
  assume "\<exists>rest. split_char CHR ''-'' c = a # b # rest"
  then obtain rest where "c = join ''-'' (a # b # rest)" using join_split_char by metis
  then show "c = a @ ''-'' @ b \<or> (\<exists>rest. c = a @ ''-'' @ b @ ''-'' @ rest)" by (cases rest) auto
next
  assume "c = a @ ''-'' @ b \<or> (\<exists>rest. c = a @ ''-'' @ b @ ''-'' @ rest)"
  then show "\<exists>rest. split_char CHR ''-'' c = a # b # rest"
    using assms by (auto simp: split_char_append split_char_no_sep)
qed

lemma parseToken_code:
  assumes "CHR ''-'' \<notin> set (filter (\<lambda>c. \<not> is_ws c) seg)"
  shows "parseToken seg = Some r \<longleftrightarrow>
    code_text (filter (\<lambda>c. \<not> is_ws c) seg) (rstart r) \<and> rend r = rstart r"
  using assms by (cases r) (auto simp: parseToken_def filter_trim Let_def code_text_isNumber isNumber_def)

lemma parseToken_dash:
  assumes "CHR ''-'' \<in> set (filter (\<lambda>c. \<not> is_ws c) seg)"
  shows "parseToken seg = Some r \<longleftrightarrow>
    (\<exists>a b rest. split_char CHR ''-'' (filter (\<lambda>c. \<not> is_ws c) seg) = a # b # rest \<and>
       code_text a (rstart r) \<and> code_text b (rend r) \<and> rstart r \<le> rend r)"
  using assms
  by (cases r) (auto simp: parseToken_def filter_trim Let_def code_text_isNumber split: list.splits)

text \<open>The parser reads exactly this: the range it returns for a segment consists of the codes the
  segment names, and it returns none when the segment names none.\<close>

lemma segment_names_parseToken:
  "segment_names seg k \<longleftrightarrow> (\<exists>r. parseToken seg = Some r \<and> rstart r \<le> k \<and> k \<le> rend r)"
proof (cases "CHR ''-'' \<in> set (filter (\<lambda>c. \<not> is_ws c) seg)")
  case False
  then have "filter (\<lambda>c. \<not> is_ws c) seg \<noteq> a @ ''-'' @ b" for a b
    by (metis append_Cons in_set_conv_decomp)
  then have "segment_names seg k \<longleftrightarrow> code_text (filter (\<lambda>c. \<not> is_ws c) seg) k"
    unfolding segment_names_def Let_def by blast
  also have "\<dots> \<longleftrightarrow> (\<exists>r. parseToken seg = Some r \<and> rstart r \<le> k \<and> k \<le> rend r)"
    unfolding parseToken_code [OF False]
    by (auto intro: exI [of _ "\<lparr>rstart = k, rend = k\<rparr>"] dest: order_antisym)
  finally show ?thesis .
next
  case True
  let ?c = "filter (\<lambda>c. \<not> is_ws c) seg"
  have "\<not> code_text ?c k" using True code_text_no_dash by blast
  then have "segment_names seg k \<longleftrightarrow> (\<exists>a b m n. (\<exists>rest. split_char CHR ''-'' ?c = a # b # rest) \<and>
      code_text a m \<and> code_text b n \<and> m \<le> k \<and> k \<le> n)"
    using split_dash_iff [OF code_text_no_dash code_text_no_dash, of _ _ _ _ ?c]
    unfolding segment_names_def Let_def by blast
  also have "\<dots> \<longleftrightarrow> (\<exists>r. parseToken seg = Some r \<and> rstart r \<le> k \<and> k \<le> rend r)" (is "?l \<longleftrightarrow> ?r")
  proof
    assume ?l
    then obtain a b m n where "\<exists>rest. split_char CHR ''-'' ?c = a # b # rest" "code_text a m" "code_text b n"
      and k: "m \<le> k" "k \<le> n" by blast
    then have "parseToken seg = Some \<lparr>rstart = m, rend = n\<rparr>"
      unfolding parseToken_dash [OF True] by auto
    then show ?r using k by (metis StatusCodeRange.select_convs(1,2))
  next
    assume ?r
    then show ?l unfolding parseToken_dash [OF True] by blast
  qed
  finally show ?thesis .
qed

lemma parseToken_None_names: "parseToken seg = None \<longleftrightarrow> \<not> (\<exists>k. segment_names seg k)"
  using parseToken_valid [of seg] unfolding segment_names_parseToken
  by (cases "parseToken seg") (auto simp: valid_range_def)

text \<open>C2: A rule list is rejected exactly when one of its non-blank comma-separated segments names no
  status code, where a segment, its white space removed, names a code written in decimal between 100
  and 599 (leading zeros allowed) or the codes of a range of two of them, a hyphen between and the
  first not above the second; text after a second hyphen is read over, as the code does. The segments
  that name nothing are reported, in order; a rejected list has no range, and the ranges of an accepted
  one cover exactly the codes its segments name.\<close>

theorem http_rules_rejects:
  "ok (parseHttpStatusCodeRules input) = (\<forall>seg\<in>set (rule_segments input). \<exists>k. segment_names seg k) \<and>
   invalidTokens (parseHttpStatusCodeRules input) = filter (\<lambda>seg. \<nexists>k. segment_names seg k) (rule_segments input) \<and>
   codes (ranges (parseHttpStatusCodeRules input)) =
     (if ok (parseHttpStatusCodeRules input) then {k. \<exists>seg\<in>set (rule_segments input). segment_names seg k} else {})"
proof -
  have "codes (ranges (parseHttpStatusCodeRules input)) = {k. \<exists>seg\<in>set (rule_segments input). segment_names seg k}" if "ok (parseHttpStatusCodeRules input)"
    using that parse_rules_ok(1,4) [of input] unfolding segment_names_parseToken
    by (auto simp: rule_codes_def)
  moreover have "ranges (parseHttpStatusCodeRules input) = []" if "\<not> ok (parseHttpStatusCodeRules input)"
    using that unfolding parse_rules_cases by (simp add: Let_def split: if_splits)
  ultimately show ?thesis
    unfolding parse_rules_cases parseToken_None_names
    by (auto simp: Let_def filter_empty_conv split: if_splits)
qed

theorem http_rules_rejects_witness:
  "invalidTokens (parseHttpStatusCodeRules (Some ''500, 99,503-502,4 04,, 500-503-x'')) = [''99'', ''503-502'']
   \<and> filter (\<lambda>seg. \<nexists>k. segment_names seg k) (rule_segments (Some ''500, 99,503-502,4 04,, 500-503-x''))
       = [''99'', ''503-502'']"
proof -
  have "invalidTokens (parseHttpStatusCodeRules (Some ''500, 99,503-502,4 04,, 500-503-x'')) = [''99'', ''503-502'']"
    by code_simp
  then show ?thesis
    using http_rules_rejects [of "Some ''500, 99,503-502,4 04,, 500-503-x''"] by simp
qed

end
