(* ===== verification/JsRegex.thy ===== *)
theory JsRegex
  imports Prelude
begin

text \<open>
  Regular expressions with the backtracking semantics of ECMAScript.

  \<open>rxm r st\<close> is the list of all ways \<open>r\<close> can match at state \<open>st\<close>, in the order in which
  the backtracking matcher tries them; a match is the first of them. A state holds the text
  already passed (reversed), the text ahead and the captures. Greedy and lazy repetition,
  ordered alternatives, captures, back references, anchors and word boundaries are modelled;
  an iteration of a repetition that consumes nothing is rejected, as the standard says. (The
  expressions of the sources have no capture inside a \<open>*\<close> or \<open>+\<close>.)

  The lemmas compute the matches of literals, character classes and repeated classes, which is
  how the components reason about their patterns.
\<close>

type_synonym caps = "nat \<Rightarrow> string option"
type_synonym rxstate = "string \<times> string \<times> caps"

datatype rx =
    Eps
  | Cls "char \<Rightarrow> bool"
  | Seq rx rx
  | Alt rx rx
  | Opt rx
  | Star rx
  | LazyStar rx
  | Grp nat rx
  | Ref nat
  | Bol
  | Eol
  | WordB

section \<open>Matching\<close>

definition ahead :: "rxstate \<Rightarrow> string" where
  "ahead st = fst (snd st)"

definition progress :: "rxstate \<Rightarrow> rxstate \<Rightarrow> bool" where
  "progress st st' \<longleftrightarrow> length (ahead st') < length (ahead st)"

definition set_cap :: "nat \<Rightarrow> string \<Rightarrow> rxstate \<Rightarrow> rxstate" where
  "set_cap n s st = (case st of (pre, rest, c) \<Rightarrow> (pre, rest, c(n \<mapsto> take (length s - length rest) s)))"

definition at_word_boundary :: "rxstate \<Rightarrow> bool" where
  "at_word_boundary st =
     (case st of (pre, rest, _) \<Rightarrow>
        (pre \<noteq> [] \<and> is_word_char (hd pre)) \<noteq> (rest \<noteq> [] \<and> is_word_char (hd rest)))"

function rxm :: "rx \<Rightarrow> rxstate \<Rightarrow> rxstate list" where
  "rxm Eps st = [st]"
| "rxm (Cls p) (pre, s, c) = (case s of [] \<Rightarrow> [] | x # xs \<Rightarrow> if p x then [(x # pre, xs, c)] else [])"
| "rxm (Seq a b) st = concat (map (rxm b) (rxm a st))"
| "rxm (Alt a b) st = rxm a st @ rxm b st"
| "rxm (Opt a) st = filter (progress st) (rxm a st) @ [st]"
| "rxm (Star a) st =
     concat (map (\<lambda>st'. if progress st st' then rxm (Star a) st' else []) (rxm a st)) @ [st]"
| "rxm (LazyStar a) st =
     st # concat (map (\<lambda>st'. if progress st st' then rxm (LazyStar a) st' else []) (rxm a st))"
| "rxm (Grp n a) st = map (set_cap n (ahead st)) (rxm a st)"
| "rxm (Ref n) (pre, s, c) =
     (case c n of
        None \<Rightarrow> [(pre, s, c)]
      | Some w \<Rightarrow> if starts_with w s then [(rev w @ pre, drop (length w) s, c)] else [])"
| "rxm Bol (pre, s, c) = (if pre = [] then [(pre, s, c)] else [])"
| "rxm Eol (pre, s, c) = (if s = [] then [(pre, s, c)] else [])"
| "rxm WordB st = (if at_word_boundary st then [st] else [])"
  by pat_completeness auto
termination
  by (relation "measures [\<lambda>(r, st). size r, \<lambda>(r, st). length (ahead st)]") (auto simp: progress_def)

lemmas rxm_Star = rxm.simps(6) and rxm_LazyStar = rxm.simps(7)

declare rxm.simps(6,7) [simp del]

definition first :: "'a list \<Rightarrow> 'a option" where
  "first xs = (case xs of [] \<Rightarrow> None | x # _ \<Rightarrow> Some x)"

section \<open>Building expressions\<close>

fun lit :: "string \<Rightarrow> rx" where
  "lit [] = Eps"
| "lit (c # cs) = Seq (Cls (\<lambda>x. x = c)) (lit cs)"

fun seqs :: "rx list \<Rightarrow> rx" where
  "seqs [] = Eps"
| "seqs (r # rs) = Seq r (seqs rs)"

fun alts :: "string list \<Rightarrow> rx" where
  "alts [] = Cls (\<lambda>_. False)"
| "alts [w] = lit w"
| "alts (w # v # ws) = Alt (lit w) (alts (v # ws))"

definition Plus :: "rx \<Rightarrow> rx" where
  "Plus r = Seq r (Star r)"

abbreviation ws_star :: rx where
  "ws_star \<equiv> Star (Cls is_ws)"

section \<open>Searching\<close>

text \<open>\<open>rx_search r pre s\<close>: the first position of \<open>s\<close> at which \<open>r\<close> matches, as the text
  skipped and the state after the match.\<close>

fun rx_search :: "rx \<Rightarrow> string \<Rightarrow> string \<Rightarrow> (string \<times> rxstate) option" where
  "rx_search r pre s =
     (case first (rxm r (pre, s, Map.empty)) of
        Some st \<Rightarrow> Some (s, st)
      | None \<Rightarrow> (case s of [] \<Rightarrow> None | x # xs \<Rightarrow> rx_search r (x # pre) xs))"

declare rx_search.simps [simp del]

text \<open>\<open>s.match(r)\<close> without the global flag: the captures, group 0 being the whole match.\<close>

definition rx_match :: "rx \<Rightarrow> string \<Rightarrow> caps option" where
  "rx_match r s =
     map_option (\<lambda>(at, st). (snd (snd st))(0 \<mapsto> take (length at - length (ahead st)) at)) (rx_search r [] s)"

definition rx_test :: "rx \<Rightarrow> string \<Rightarrow> bool" where
  "rx_test r s \<longleftrightarrow> rx_search r [] s \<noteq> None"

lemma set_rxm_Star:
  "st' \<in> set (rxm (Star a) st) \<longleftrightarrow>
     st' = st \<or> (\<exists>st1\<in>set (rxm a st). progress st st1 \<and> st' \<in> set (rxm (Star a) st1))"
  by (subst rxm_Star) (auto split: if_splits)

lemma set_rxm_LazyStar:
  "st' \<in> set (rxm (LazyStar a) st) \<longleftrightarrow>
     st' = st \<or> (\<exists>st1\<in>set (rxm a st). progress st st1 \<and> st' \<in> set (rxm (LazyStar a) st1))"
  by (subst rxm_LazyStar) (auto split: if_splits)

lemma rxm_shrinks:
  "st' \<in> set (rxm r st) \<Longrightarrow> \<exists>w. ahead st = w @ ahead st' \<and> fst st' = rev w @ fst st"
proof (induction r st arbitrary: st' rule: rxm.induct)
  case (3 a b st)
  then obtain st1 where "st1 \<in> set (rxm a st)" "st' \<in> set (rxm b st1)" by auto
  then obtain w1 w2 where "ahead st = w1 @ ahead st1" "fst st1 = rev w1 @ fst st"
    "ahead st1 = w2 @ ahead st'" "fst st' = rev w2 @ fst st1"
    using 3 by metis
  then show ?case by (intro exI [of _ "w1 @ w2"]) simp
next
  case (6 a st)
  show ?case
  proof (cases "st' = st")
    case False
    then obtain st1 where st1: "st1 \<in> set (rxm a st)" "progress st st1" "st' \<in> set (rxm (Star a) st1)"
      using "6.prems" set_rxm_Star [of st' a st] by blast
    then obtain w1 w2 where "ahead st = w1 @ ahead st1" "fst st1 = rev w1 @ fst st"
      "ahead st1 = w2 @ ahead st'" "fst st' = rev w2 @ fst st1"
      using "6.IH" by metis
    then show ?thesis by (intro exI [of _ "w1 @ w2"]) simp
  qed simp
next
  case (7 a st)
  show ?case
  proof (cases "st' = st")
    case False
    then obtain st1 where st1: "st1 \<in> set (rxm a st)" "progress st st1" "st' \<in> set (rxm (LazyStar a) st1)"
      using "7.prems" set_rxm_LazyStar [of st' a st] by blast
    then obtain w1 w2 where "ahead st = w1 @ ahead st1" "fst st1 = rev w1 @ fst st"
      "ahead st1 = w2 @ ahead st'" "fst st' = rev w2 @ fst st1"
      using "7.IH" by metis
    then show ?thesis by (intro exI [of _ "w1 @ w2"]) simp
  qed simp
next
  case (8 n a st)
  then obtain st1 where "st1 \<in> set (rxm a st)" "st' = set_cap n (ahead st) st1" by auto
  moreover have "ahead (set_cap n s st1) = ahead st1" "fst (set_cap n s st1) = fst st1" for s
    by (auto simp: set_cap_def ahead_def split: prod.splits)
  ultimately show ?case using 8 by metis
next
  case (9 n pre s c)
  then show ?case by (auto simp: ahead_def starts_with_iff split: option.splits if_splits)
qed (auto simp: ahead_def split: list.splits if_splits)

lemma rx_search_shrinks:
  "rx_search r pre s = Some (at, st) \<Longrightarrow> length (ahead st) \<le> length at \<and> length at \<le> length s"
proof (induction r pre s rule: rx_search.induct)
  case (1 r pre s)
  show ?case
  proof (cases "first (rxm r (pre, s, Map.empty))")
    case None
    then show ?thesis using 1 by (subst (asm) (2) rx_search.simps) (force split: list.splits)
  next
    case (Some st1)
    then have "st1 \<in> set (rxm r (pre, s, Map.empty))" by (auto simp: first_def split: list.splits)
    moreover have "s = at" "st1 = st" using Some "1.prems" by (auto simp: rx_search.simps [of r pre s])
    ultimately show ?thesis using rxm_shrinks by (fastforce simp: ahead_def)
  qed
qed

text \<open>
  The loop \<open>while ((m = re.exec(s)) !== null)\<close> of a global expression: the captures of all
  matches, left to right. (An expression that matches the empty string would make the loop of
  the source run forever; the model stops there, and no expression it is used with does.)
\<close>

function rx_exec_all :: "rx \<Rightarrow> string \<Rightarrow> string \<Rightarrow> caps list" where
  "rx_exec_all r pre s =
     (case rx_search r pre s of
        None \<Rightarrow> []
      | Some (at, (pre', rest, c)) \<Rightarrow>
          c # (if length rest < length s then rx_exec_all r pre' rest else []))"
  by pat_completeness auto
termination
  by (relation "measure (\<lambda>(r, pre, s). length s)") auto

declare rx_exec_all.simps [simp del]

text \<open>\<open>s.replace(/r/g, v)\<close> for a replacement text without \<open>$\<close> patterns.\<close>

function rx_replace_all :: "rx \<Rightarrow> string \<Rightarrow> string \<Rightarrow> string \<Rightarrow> string" where
  "rx_replace_all r v pre s =
     (case rx_search r pre s of
        None \<Rightarrow> s
      | Some (at, (pre', rest, c)) \<Rightarrow>
          take (length s - length at) s @ v @
            (if length rest < length s then rx_replace_all r v pre' rest else rest))"
  by pat_completeness auto
termination
  by (relation "measure (\<lambda>(r, v, pre, s). length s)") auto

declare rx_replace_all.simps [simp del]

text \<open>\<open>s.split(/r/)\<close> for an expression without groups that never matches the empty string.\<close>

function rx_split :: "rx \<Rightarrow> string \<Rightarrow> string \<Rightarrow> string list" where
  "rx_split r pre s =
     (case rx_search r pre s of
        None \<Rightarrow> [s]
      | Some (at, (pre', rest, c)) \<Rightarrow>
          if length rest < length s
          then take (length s - length at) s # rx_split r pre' rest
          else [s])"
  by pat_completeness auto
termination
  by (relation "measure (\<lambda>(r, pre, s). length s)") auto

declare rx_split.simps [simp del]

section \<open>Computing matches\<close>

lemma first_Nil [simp]: "first [] = None" and first_Cons [simp]: "first (x # xs) = Some x"
  by (simp_all add: first_def)

lemma first_append: "first (xs @ ys) = (case first xs of None \<Rightarrow> first ys | Some x \<Rightarrow> Some x)"
  by (cases xs) auto

lemma first_map: "first (map f xs) = map_option f (first xs)"
  by (cases xs) auto

lemma first_concat_map_Cons:
  "first (concat (map k (x # xs))) =
     (case first (k x) of None \<Rightarrow> first (concat (map k xs)) | Some y \<Rightarrow> Some y)"
  by (simp add: first_append)

lemma rxm_lit:
  "rxm (lit w) (pre, s, c) =
     (if starts_with w s then [(rev w @ pre, drop (length w) s, c)] else [])"
proof (induction w arbitrary: pre s)
  case Nil
  then show ?case by simp
next
  case (Cons a w)
  then show ?case by (cases s) auto
qed

lemma rxm_lit_append [simp]: "rxm (lit w) (pre, w @ r, c) = [(rev w @ pre, r, c)]"
  by (simp add: rxm_lit)

text \<open>All splits of the longest run of a class, longest first.\<close>

fun runs :: "(char \<Rightarrow> bool) \<Rightarrow> rxstate \<Rightarrow> rxstate list" where
  "runs p (pre, [], c) = [(pre, [], c)]"
| "runs p (pre, x # xs, c) = (if p x then runs p (x # pre, xs, c) else []) @ [(pre, x # xs, c)]"

lemma rxm_star_cls: "rxm (Star (Cls p)) st = runs p st"
proof (induction p st rule: runs.induct)
  case (1 p pre c)
  then show ?case by (simp add: rxm_Star)
next
  case (2 p pre x xs c)
  then show ?case by (subst rxm_Star) (simp add: progress_def ahead_def)
qed

definition no_hd :: "(char \<Rightarrow> bool) \<Rightarrow> string \<Rightarrow> bool" where
  "no_hd p r \<longleftrightarrow> r = [] \<or> \<not> p (hd r)"

lemma runs_longest:
  assumes "list_all p w" and "no_hd p r"
  shows "\<exists>rest. runs p (pre, w @ r, c) = (rev w @ pre, r, c) # rest"
  using assms
proof (induction w arbitrary: pre)
  case Nil
  then show ?case by (cases r) (auto simp: no_hd_def)
next
  case (Cons x w)
  then obtain rest where "runs p (x # pre, w @ r, c) = (rev w @ x # pre, r, c) # rest" by auto
  then show ?case using Cons.prems by simp
qed

lemma first_star_longest:
  assumes "list_all p w" and "no_hd p r" and "first (k (rev w @ pre, r, c)) = Some y"
  shows "first (concat (map k (rxm (Star (Cls p)) (pre, w @ r, c)))) = Some y"
  using runs_longest [OF assms(1,2), of pre c] assms(3)
  by (auto simp: rxm_star_cls first_append)

lemma rxm_plus_cls:
  "rxm (Plus (Cls p)) (pre, s, c) =
     (case s of [] \<Rightarrow> [] | x # xs \<Rightarrow> if p x then runs p (x # pre, xs, c) else [])"
  by (auto simp: Plus_def rxm_star_cls split: list.split)

lemma first_plus_longest:
  assumes "list_all p w" and "w \<noteq> []" and "no_hd p r" and "first (k (rev w @ pre, r, c)) = Some y"
  shows "first (concat (map k (rxm (Plus (Cls p)) (pre, w @ r, c)))) = Some y"
proof -
  obtain x xs where w: "w = x # xs" using assms(2) by (cases w) auto
  then show ?thesis
    using runs_longest [of p xs r "x # pre" c] assms by (auto simp: rxm_plus_cls first_append)
qed

lemma rx_search_anchored:
  "rx_search (Seq Bol r) [] s = map_option (\<lambda>st. (s, st)) (first (rxm r ([], s, Map.empty)))"
proof -
  have later: "rx_search (Seq Bol r) pre t = None" if "pre \<noteq> []" for pre t
    using that by (induction t arbitrary: pre) (simp_all add: rx_search.simps)
  show ?thesis
    by (subst rx_search.simps) (auto simp: later split: option.split list.split)
qed

lemma rx_match_anchored:
  "rx_match (Seq Bol r) s =
     map_option (\<lambda>st. (snd (snd st))(0 \<mapsto> take (length s - length (ahead st)) s))
       (first (rxm r ([], s, Map.empty)))"
  by (simp add: rx_match_def rx_search_anchored option.map_comp comp_def)

lemma rx_test_anchored: "rx_test (Seq Bol r) s \<longleftrightarrow> rxm r ([], s, Map.empty) \<noteq> []"
  by (auto simp: rx_test_def rx_search_anchored first_def split: list.splits)

section \<open>Matching with a continuation\<close>

lemma concat_map_map: "concat (map f (concat xs)) = concat (map (\<lambda>x. concat (map f x)) xs)"
  by (induction xs) auto

text \<open>\<open>rxk r k st\<close> runs \<open>k\<close> after each match of \<open>r\<close>. Its equations evaluate a match on a text that
  is only partly known: the collection \<open>rx_eval\<close> rewrites with them.\<close>

named_theorems rx_eval \<open>evaluation of a regular expression on partly known text\<close>

definition rxk :: "rx \<Rightarrow> (rxstate \<Rightarrow> rxstate list) \<Rightarrow> rxstate \<Rightarrow> rxstate list" where
  "rxk r k st = concat (map k (rxm r st))"

lemma rxm_rxk: "rxm r st = rxk r (\<lambda>x. [x]) st"
  by (simp add: rxk_def)

lemma rxk_simps [rx_eval]:
  "rxk Eps k st = k st"
  "rxk (Cls p) k (pre, [], c) = []"
  "rxk (Cls p) k (pre, x # xs, c) = (if p x then k (x # pre, xs, c) else [])"
  "rxk (Seq a b) k st = rxk a (rxk b k) st"
  "rxk (Alt a b) k st = rxk a k st @ rxk b k st"
  "rxk (Grp n a) k (pre, s, c) = rxk a (\<lambda>st. k (set_cap n s st)) (pre, s, c)"
  "rxk Bol k (pre, s, c) = (if pre = [] then k (pre, s, c) else [])"
  "rxk Eol k (pre, [], c) = k (pre, [], c)"
  "rxk Eol k (pre, x # xs, c) = []"
  by (simp_all add: rxk_def [abs_def] ahead_def comp_def concat_map_map)

lemma rxk_Ref [rx_eval]:
  "c n = Some w \<Longrightarrow>
     rxk (Ref n) k (pre, s, c) = (if starts_with w s then k (rev w @ pre, drop (length w) s, c) else [])"
  by (simp add: rxk_def)

lemma set_cap_eval [rx_eval]:
  "set_cap n s (pre, r, c) = (pre, r, c(n \<mapsto> take (length s - length r) s))"
  by (simp add: set_cap_def)

lemma rxk_star_det:
  assumes step: "\<And>pre x xs. p x \<Longrightarrow> rxm a (pre, x # xs, c) = [(x # pre, xs, c)]"
    and stop: "\<And>pre. rxm a (pre, r, c) = []"
    and skip: "\<And>u x v. p x \<Longrightarrow> k (u, x # v, c) = []"
    and w: "list_all p w"
  shows "rxk (Star a) k (pre, w @ r, c) = k (rev w @ pre, r, c)"
  using w
proof (induction w arbitrary: pre)
  case Nil
  then show ?case using stop by (simp add: rxk_def rxm_Star)
next
  case (Cons x w)
  then have "rxm (Star a) (pre, x # w @ r, c) = rxm (Star a) (x # pre, w @ r, c) @ [(pre, x # w @ r, c)]"
    using step by (subst rxm_Star) (simp add: progress_def ahead_def)
  then show ?case using Cons skip by (simp add: rxk_def)
qed

lemma rxk_star_cls [rx_eval]:
  assumes "list_all p w" and "\<not> p d" and "\<And>u x v. p x \<Longrightarrow> k (u, x # v, c) = []"
  shows "rxk (Star (Cls p)) k (pre, w @ d # r, c) = k (rev w @ pre, d # r, c)"
  using rxk_star_det [of p "Cls p" c "d # r" k w pre] assms by simp

lemma rxk_star_cls_end [rx_eval]:
  assumes "list_all p w" and "\<And>u x v. p x \<Longrightarrow> k (u, x # v, c) = []"
  shows "rxk (Star (Cls p)) k (pre, w, c) = k (rev w @ pre, [], c)"
  using rxk_star_det [of p "Cls p" c "[]" k w pre] assms by simp

lemma rxk_Plus: "rxk (Plus r) k st = rxk r (rxk (Star r) k) st"
  by (simp add: Plus_def rxk_simps)

lemma rxk_plus_cls [rx_eval]:
  assumes "list_all p w" and "w \<noteq> []" and "\<not> p d" and "\<And>u x v. p x \<Longrightarrow> k (u, x # v, c) = []"
  shows "rxk (Plus (Cls p)) k (pre, w @ d # r, c) = k (rev w @ pre, d # r, c)"
  using assms by (cases w) (simp_all add: rxk_Plus rxk_simps rxk_star_cls)

lemma rxk_plus_cls_end [rx_eval]:
  assumes "list_all p w" and "w \<noteq> []" and "\<And>u x v. p x \<Longrightarrow> k (u, x # v, c) = []"
  shows "rxk (Plus (Cls p)) k (pre, w, c) = k (rev w @ pre, [], c)"
  using assms by (cases w) (simp_all add: rxk_Plus rxk_simps rxk_star_cls_end)

text \<open>A greedy run over everything: the continuation fails at every later position.\<close>

lemma runs_any_fail:
  assumes "\<And>u v pre. r = u @ v \<Longrightarrow> u \<noteq> [] \<Longrightarrow> k (pre, v, c) = []"
  shows "concat (map k (runs (\<lambda>_. True) (pre, r, c))) = k (pre, r, c)"
  using assms
proof (induction r arbitrary: pre)
  case (Cons x r)
  have "concat (map k (runs (\<lambda>_. True) (x # pre, r, c))) = k (x # pre, r, c)"
    using Cons.prems [of "x # _"] by (intro Cons.IH) auto
  then show ?case using Cons.prems [of "[x]" r] by simp
qed simp

lemma first_plus_any:
  assumes "w \<noteq> []" and later: "\<And>u v pre. r = u @ v \<Longrightarrow> u \<noteq> [] \<Longrightarrow> k (pre, v, c) = []"
    and "first (k (rev w @ pre, r, c)) = Some y"
  shows "first (rxk (Plus (Cls (\<lambda>_. True))) k (pre, w @ r, c)) = Some y"
proof -
  have "first (concat (map k (runs (\<lambda>_. True) (p, v @ r, c)))) = Some y"
    if "first (k (rev v @ p, r, c)) = Some y" for v p
    using that
  proof (induction v arbitrary: p)
    case Nil
    then show ?case using later by (simp add: runs_any_fail)
  qed (simp add: first_append)
  then show ?thesis using assms by (cases w) (simp_all add: rxk_def rxm_plus_cls)
qed

text \<open>The text a match consumes stays within a class.\<close>

primrec rx_within :: "(char \<Rightarrow> bool) \<Rightarrow> rx \<Rightarrow> bool" where
  "rx_within p Eps \<longleftrightarrow> True"
| "rx_within p (Cls q) \<longleftrightarrow> (\<forall>x. q x \<longrightarrow> p x)"
| "rx_within p (Seq a b) \<longleftrightarrow> rx_within p a \<and> rx_within p b"
| "rx_within p (Alt a b) \<longleftrightarrow> rx_within p a \<and> rx_within p b"
| "rx_within p (Opt a) \<longleftrightarrow> rx_within p a"
| "rx_within p (Star a) \<longleftrightarrow> rx_within p a"
| "rx_within p (LazyStar a) \<longleftrightarrow> rx_within p a"
| "rx_within p (Grp n a) \<longleftrightarrow> rx_within p a"
| "rx_within p (Ref n) \<longleftrightarrow> False"
| "rx_within p Bol \<longleftrightarrow> True"
| "rx_within p Eol \<longleftrightarrow> True"
| "rx_within p WordB \<longleftrightarrow> True"

lemma rx_within_lit: "rx_within p (lit w) \<longleftrightarrow> list_all p w"
  by (induction w) auto

lemma rx_within_match:
  "rx_within p r \<Longrightarrow> st' \<in> set (rxm r st) \<Longrightarrow> \<exists>w. ahead st = w @ ahead st' \<and> list_all p w"
proof (induction r st arbitrary: st' rule: rxm.induct)
  case (3 a b st)
  then obtain st1 where "st1 \<in> set (rxm a st)" "st' \<in> set (rxm b st1)" by auto
  then obtain w1 w2 where "ahead st = w1 @ ahead st1" "ahead st1 = w2 @ ahead st'" "list_all p w1" "list_all p w2"
    using 3 by (metis rx_within.simps(3))
  then show ?case by (intro exI [of _ "w1 @ w2"]) simp
next
  case (6 a st)
  show ?case
  proof (cases "st' = st")
    case False
    then obtain st1 where st1: "st1 \<in> set (rxm a st)" "progress st st1" "st' \<in> set (rxm (Star a) st1)"
      using "6.prems" set_rxm_Star [of st' a st] by blast
    then obtain w1 w2 where "ahead st = w1 @ ahead st1" "ahead st1 = w2 @ ahead st'" "list_all p w1" "list_all p w2"
      using 6 by (metis rx_within.simps(6))
    then show ?thesis by (intro exI [of _ "w1 @ w2"]) simp
  qed simp
next
  case (7 a st)
  show ?case
  proof (cases "st' = st")
    case False
    then obtain st1 where st1: "st1 \<in> set (rxm a st)" "progress st st1" "st' \<in> set (rxm (LazyStar a) st1)"
      using "7.prems" set_rxm_LazyStar [of st' a st] by blast
    then obtain w1 w2 where "ahead st = w1 @ ahead st1" "ahead st1 = w2 @ ahead st'" "list_all p w1" "list_all p w2"
      using 7 by (metis rx_within.simps(7))
    then show ?thesis by (intro exI [of _ "w1 @ w2"]) simp
  qed simp
next
  case (8 n a st)
  then obtain st1 where "st1 \<in> set (rxm a st)" "st' = set_cap n (ahead st) st1" by auto
  moreover have "ahead (set_cap n s st1) = ahead st1" for s
    by (auto simp: set_cap_def ahead_def split: prod.splits)
  ultimately show ?case using 8 by (metis rx_within.simps(8))
qed (auto simp: ahead_def split: list.splits if_splits)

end
