(* ===== verification/JsJson.thy ===== *)
theory JsJson
  imports JsNumber
begin

text \<open>
  JSON values and the parts of \<open>JSON\<close> the frontend uses: \<open>JSON.parse\<close>, \<open>JSON.stringify\<close> of a
  string, \<open>String(v)\<close> of a parsed value, and the enumeration order of object properties.

  \<open>JSON.parse\<close> is a recursive descent with fuel; every call consumes a character, so the
  length of the text is enough fuel. An escape \<open>\uXXXX\<close> above \<open>U+00FF\<close> is outside
  the alphabet of the model and makes the model's parse fail.

  The lemma at the end reads a quoted string back.
\<close>

datatype jsval =
    JUndefined
  | JNull
  | JBool bool
  | JNum jsnum
  | JStr string
  | JArr "jsval list"
  | JObj "(string \<times> jsval) list"

section \<open>Objects\<close>

text \<open>\<open>o[k] = v\<close> keeps the place of an existing key.\<close>

fun obj_set :: "'k \<Rightarrow> 'a \<Rightarrow> ('k \<times> 'a) list \<Rightarrow> ('k \<times> 'a) list" where
  "obj_set k v [] = [(k, v)]"
| "obj_set k v ((k', v') # xs) = (if k = k' then (k, v) # xs else (k', v') # obj_set k v xs)"

definition obj_delete :: "'k \<Rightarrow> ('k \<times> 'a) list \<Rightarrow> ('k \<times> 'a) list" where
  "obj_delete name m = filter (\<lambda>e. fst e \<noteq> name) m"

definition is_array_index :: "string \<Rightarrow> bool" where
  "is_array_index k \<longleftrightarrow>
     k \<noteq> [] \<and> list_all is_digit k \<and> (k = ''0'' \<or> hd k \<noteq> CHR ''0'') \<and> int_of_digits k < 4294967295"

text \<open>\<open>Object.entries\<close>: array indices in ascending order, then the other keys as inserted.\<close>

definition obj_entries :: "(string \<times> 'a) list \<Rightarrow> (string \<times> 'a) list" where
  "obj_entries o' =
     sort_key (\<lambda>e. int_of_digits (fst e)) (filter (\<lambda>e. is_array_index (fst e)) o') @
     filter (\<lambda>e. \<not> is_array_index (fst e)) o'"

definition obj_keys :: "(string \<times> 'a) list \<Rightarrow> string list" where
  "obj_keys o' = map fst (obj_entries o')"

definition obj_values :: "(string \<times> 'a) list \<Rightarrow> 'a list" where
  "obj_values o' = map snd (obj_entries o')"

lemma set_obj_entries [simp]: "set (obj_entries o') = set o'"
  by (auto simp: obj_entries_def)

lemma set_obj_keys [simp]: "set (obj_keys o') = fst ` set o'"
  by (simp add: obj_keys_def)

lemma set_obj_values [simp]: "set (obj_values o') = snd ` set o'"
  by (simp add: obj_values_def)

lemma set_obj_set: "set (obj_set k v m) \<subseteq> insert (k, v) (set m)"
  by (induction m) (auto split: if_splits)

lemma keys_obj_set: "fst ` set (obj_set k v m) = insert k (fst ` set m)"
proof (induction m)
  case (Cons e m)
  then show ?case by (cases e) (simp add: insert_commute)
qed simp

lemma distinct_obj_set: "distinct (map fst m) \<Longrightarrow> distinct (map fst (obj_set k v m))"
  by (induction m) (auto simp: keys_obj_set)

lemma map_of_obj_set: "map_of (obj_set k v m) = (map_of m)(k \<mapsto> v)"
  by (induction m) auto

lemma map_of_obj_delete: "map_of (obj_delete n m) = (map_of m)(n := None)"
  by (induction m) (auto simp: obj_delete_def fun_eq_iff)

lemma keys_obj_delete: "fst ` set (obj_delete k m) = fst ` set m - {k}"
  by (auto simp: obj_delete_def)

lemma distinct_obj_delete: "distinct (map fst m) \<Longrightarrow> distinct (map fst (obj_delete k m))"
  by (simp add: obj_delete_def distinct_map_filter)

section \<open>Printing\<close>

definition hex_char :: "nat \<Rightarrow> char" where
  "hex_char n = (if n < 10 then char_of (48 + n) else char_of (87 + n))"

definition json_escape :: "char \<Rightarrow> string" where
  "json_escape c =
     (if c = CHR 0x22 then [CHR 0x5C, CHR 0x22]
      else if c = CHR 0x5C then [CHR 0x5C, CHR 0x5C]
      else if c = CHR 0x08 then [CHR 0x5C, CHR ''b'']
      else if c = CHR 0x0C then [CHR 0x5C, CHR ''f'']
      else if c = CHR 0x0A then [CHR 0x5C, CHR ''n'']
      else if c = CHR 0x0D then [CHR 0x5C, CHR ''r'']
      else if c = CHR 0x09 then [CHR 0x5C, CHR ''t'']
      else if (of_char c :: nat) < 32 then
        [CHR 0x5C, CHR ''u'', CHR ''0'', CHR ''0'', hex_char (of_char c div 16), hex_char (of_char c mod 16)]
      else [c])"

text \<open>\<open>JSON.stringify(s)\<close> for a string.\<close>

definition json_quote :: "string \<Rightarrow> string" where
  "json_quote s = CHR 0x22 # concat (map json_escape s) @ [CHR 0x22]"

text \<open>\<open>String(v)\<close>: an array joins its elements, null and undefined elements being empty.\<close>

fun js_to_string :: "jsval \<Rightarrow> string" where
  "js_to_string JUndefined = ''undefined''"
| "js_to_string JNull = ''null''"
| "js_to_string (JBool b) = (if b then ''true'' else ''false'')"
| "js_to_string (JNum n) = js_String n"
| "js_to_string (JStr s) = s"
| "js_to_string (JArr vs) =
     join '','' (map (\<lambda>v. if v = JNull \<or> v = JUndefined then [] else js_to_string v) vs)"
| "js_to_string (JObj o') = ''[object Object]''"

definition truthy :: "jsval \<Rightarrow> bool" where
  "truthy v =
     (case v of
        JUndefined \<Rightarrow> False
      | JNull \<Rightarrow> False
      | JBool b \<Rightarrow> b
      | JNum n \<Rightarrow> num_truthy n
      | JStr s \<Rightarrow> s \<noteq> []
      | JArr _ \<Rightarrow> True
      | JObj _ \<Rightarrow> True)"

text \<open>\<open>v.k\<close> of a value other than \<open>null\<close>.\<close>

definition prop_of :: "jsval \<Rightarrow> string \<Rightarrow> jsval" where
  "prop_of v k =
     (case v of JObj kvs \<Rightarrow> (case map_of kvs k of Some w \<Rightarrow> w | None \<Rightarrow> JUndefined) | _ \<Rightarrow> JUndefined)"

text \<open>\<open>a || b\<close>.\<close>

definition value_or :: "jsval \<Rightarrow> jsval \<Rightarrow> jsval" where
  "value_or a b = (if truthy a then a else b)"

text \<open>\<open>{...v}\<close>: the own properties of a value.\<close>

definition spread_entries :: "jsval \<Rightarrow> (string \<times> jsval) list" where
  "spread_entries v =
     (case v of
        JObj kvs \<Rightarrow> obj_entries kvs
      | JArr vs \<Rightarrow> map (\<lambda>(i, w). (digits_of (int i), w)) (List.enumerate 0 vs)
      | JStr s \<Rightarrow> map (\<lambda>(i, c). (digits_of (int i), JStr [c])) (List.enumerate 0 s)
      | _ \<Rightarrow> [])"

section \<open>Parsing\<close>

definition is_json_ws :: "char \<Rightarrow> bool" where
  "is_json_ws c \<longleftrightarrow> c \<in> {CHR '' '', CHR 0x09, CHR 0x0A, CHR 0x0D}"

definition skip_ws :: "string \<Rightarrow> string" where
  "skip_ws s = dropWhile is_json_ws s"

definition simple_escape :: "char \<Rightarrow> char option" where
  "simple_escape c =
     (if c = CHR 0x22 then Some (CHR 0x22)
      else if c = CHR 0x5C then Some (CHR 0x5C)
      else if c = CHR ''/'' then Some (CHR ''/'')
      else if c = CHR ''b'' then Some (CHR 0x08)
      else if c = CHR ''f'' then Some (CHR 0x0C)
      else if c = CHR ''n'' then Some (CHR 0x0A)
      else if c = CHR ''r'' then Some (CHR 0x0D)
      else if c = CHR ''t'' then Some (CHR 0x09)
      else None)"

text \<open>The rest of a string literal after its opening quote: the characters and the text after it.\<close>

fun parse_string_body :: "string \<Rightarrow> (string \<times> string) option" where
  "parse_string_body [] = None"
| "parse_string_body (c # cs) =
     (if c = CHR 0x22 then Some ([], cs)
      else if c = CHR 0x5C then
        (case cs of
           [] \<Rightarrow> None
         | e # es \<Rightarrow>
             if e = CHR ''u'' then
               (case es of
                  h1 # h2 # h3 # h4 # r \<Rightarrow>
                    (case radix_value 16 0 [h1, h2, h3, h4] of
                       None \<Rightarrow> None
                     | Some n \<Rightarrow>
                         if n < 256 then map_option (\<lambda>(s, r'). (char_of (nat n) # s, r')) (parse_string_body r)
                         else None)
                | _ \<Rightarrow> None)
             else
               (case simple_escape e of
                  None \<Rightarrow> None
                | Some x \<Rightarrow> map_option (\<lambda>(s, r'). (x # s, r')) (parse_string_body es)))
      else if (of_char c :: nat) < 32 then None
      else map_option (\<lambda>(s, r'). (c # s, r')) (parse_string_body cs))"

text \<open>The longest JSON number at the start of a text.\<close>

definition json_frac :: "string \<Rightarrow> (string \<times> string) option" where
  "json_frac r =
     (if starts_with ''.'' r then
        (if takeWhile is_digit (tl r) = [] then None
         else Some (takeWhile is_digit (tl r), dropWhile is_digit (tl r)))
      else Some ([], r))"

definition json_exp :: "string \<Rightarrow> (int \<times> string) option" where
  "json_exp r =
     (if starts_with ''e'' r \<or> starts_with ''E'' r then
        let neg = starts_with ''-'' (tl r);
            u = (if neg \<or> starts_with ''+'' (tl r) then tl (tl r) else tl r);
            ds = takeWhile is_digit u
        in if ds = [] then None
           else Some (if neg then - int_of_digits ds else int_of_digits ds, dropWhile is_digit u)
      else Some (0, r))"

definition json_number :: "string \<Rightarrow> (jsnum \<times> string) option" where
  "json_number s =
     (let neg = starts_with ''-'' s; u = (if neg then tl s else s); ip = takeWhile is_digit u in
      if ip = [] \<or> (length ip > 1 \<and> hd ip = CHR ''0'') then None
      else
        case json_frac (dropWhile is_digit u) of
          None \<Rightarrow> None
        | Some (fp, r2) \<Rightarrow>
            map_option
              (\<lambda>(e, r3).
                 let x = of_int (int_of_digits (ip @ fp)) * pow10 (e - int (length fp))
                 in (fround (if neg then - x else x), r3))
              (json_exp r2))"

fun parse_value :: "nat \<Rightarrow> string \<Rightarrow> (jsval \<times> string) option"
  and parse_elements :: "nat \<Rightarrow> string \<Rightarrow> (jsval list \<times> string) option"
  and parse_members :: "nat \<Rightarrow> (string \<times> jsval) list \<Rightarrow> string \<Rightarrow> ((string \<times> jsval) list \<times> string) option"
where
  "parse_value 0 s = None"
| "parse_value (Suc f) s =
     (let t = skip_ws s in
      if t = [] then None
      else if hd t = CHR 0x22 then map_option (\<lambda>(x, r). (JStr x, r)) (parse_string_body (tl t))
      else if hd t = CHR ''['' then
        (if starts_with '']'' (skip_ws (tl t)) then Some (JArr [], tl (skip_ws (tl t)))
         else map_option (\<lambda>(vs, r). (JArr vs, r)) (parse_elements f (tl t)))
      else if hd t = CHR ''{'' then
        (if starts_with ''}'' (skip_ws (tl t)) then Some (JObj [], tl (skip_ws (tl t)))
         else map_option (\<lambda>(ms, r). (JObj ms, r)) (parse_members f [] (tl t)))
      else if starts_with ''true'' t then Some (JBool True, drop 4 t)
      else if starts_with ''false'' t then Some (JBool False, drop 5 t)
      else if starts_with ''null'' t then Some (JNull, drop 4 t)
      else map_option (\<lambda>(n, r). (JNum n, r)) (json_number t))"
| "parse_elements 0 s = None"
| "parse_elements (Suc f) s =
     (case parse_value f s of
        None \<Rightarrow> None
      | Some (v, r) \<Rightarrow>
          let t = skip_ws r in
          if starts_with '']'' t then Some ([v], tl t)
          else if starts_with '','' t then map_option (\<lambda>(vs, r'). (v # vs, r')) (parse_elements f (tl t))
          else None)"
| "parse_members 0 acc s = None"
| "parse_members (Suc f) acc s =
     (let t = skip_ws s in
      if \<not> starts_with [CHR 0x22] t then None
      else
        case parse_string_body (tl t) of
          None \<Rightarrow> None
        | Some (k, r) \<Rightarrow>
            let t2 = skip_ws r in
            if \<not> starts_with '':'' t2 then None
            else
              case parse_value f (tl t2) of
                None \<Rightarrow> None
              | Some (v, r2) \<Rightarrow>
                  let t3 = skip_ws r2; acc' = obj_set k v acc in
                  if starts_with ''}'' t3 then Some (acc', tl t3)
                  else if starts_with '','' t3 then parse_members f acc' (tl t3)
                  else None)"

text \<open>\<open>JSON.parse(s)\<close>; \<open>None\<close> is the \<open>SyntaxError\<close>.\<close>

definition json_parse :: "string \<Rightarrow> jsval option" where
  "json_parse s =
     (case parse_value (2 * length s + 2) s of
        Some (v, r) \<Rightarrow> if skip_ws r = [] then Some v else None
      | None \<Rightarrow> None)"

section \<open>Reading a quoted string back\<close>

lemma hex_val_char: "n < 16 \<Longrightarrow> hex_val (hex_char n) = Some n"
  by (auto simp: hex_val_def hex_char_def Let_def)

lemma hex_escape:
  assumes "n < 32"
  shows "radix_value 16 0 [CHR ''0'', CHR ''0'', hex_char (n div 16), hex_char (n mod 16)] = Some (int n)"
proof -
  have "hex_val CHR ''0'' = Some 0" by (simp add: hex_val_def)
  moreover have "n div 16 < 16" "n mod 16 < 16" using assms by auto
  moreover have "int (n div 16) * 16 + int (n mod 16) = int n"
    by (metis div_mult_mod_eq of_nat_add of_nat_mult of_nat_numeral)
  ultimately show ?thesis by (simp add: hex_val_char)
qed

lemma parse_string_body_escape:
  "parse_string_body (json_escape c @ t) = map_option (\<lambda>(s, r). (c # s, r)) (parse_string_body t)"
proof (cases "c \<in> {CHR 0x22, CHR 0x5C, CHR 0x08, CHR 0x0C, CHR 0x0A, CHR 0x0D, CHR 0x09}")
  case True
  then show ?thesis by (elim insertE; simp add: json_escape_def simple_escape_def)
next
  case False
  show ?thesis
  proof (cases "(of_char c :: nat) < 32")
    case True
    then have "json_escape c =
        [CHR 0x5C, CHR ''u'', CHR ''0'', CHR ''0'', hex_char (of_char c div 16), hex_char (of_char c mod 16)]"
      using False by (simp add: json_escape_def)
    then show ?thesis using hex_escape [OF True] True by simp
  next
    case big: False
    then show ?thesis using False by (simp add: json_escape_def)
  qed
qed

lemma parse_string_body_quote:
  "parse_string_body (concat (map json_escape s) @ CHR 0x22 # t) = Some (s, t)"
  by (induction s) (simp_all add: parse_string_body_escape)

lemma json_parse_quote: "json_parse (json_quote s) = Some (JStr s)"
proof -
  have "parse_value (Suc n) (json_quote s) = Some (JStr s, [])" for n
    using parse_string_body_quote [of s "[]"]
    by (simp add: json_quote_def skip_ws_def is_json_ws_def)
  then show ?thesis by (simp add: json_parse_def skip_ws_def)
qed

section \<open>Enough fuel\<close>

lemma length_skip_ws: "length (skip_ws s) \<le> length s"
  by (simp add: skip_ws_def length_dropWhile_le)

lemma parse_string_body_shrinks: "parse_string_body s = Some (x, r) \<Longrightarrow> length r < length s"
proof (induction s arbitrary: x r rule: length_induct)
  case (1 s)
  have IH: "length r' < length t" if "length t < length s" "parse_string_body t = Some (y, r')" for t y r'
    using 1 that by blast
  show ?case
  proof (cases s)
    case (Cons c cs)
    have eq: "parse_string_body (c # cs) = Some (x, r)" using 1 Cons by simp
    consider "c = CHR 0x22" | "c = CHR 0x5C" | "c \<noteq> CHR 0x22" "c \<noteq> CHR 0x5C" by blast
    then show ?thesis
    proof cases
      case 1
      then show ?thesis using eq Cons by simp
    next
      case 2
      then obtain e es where es: "cs = e # es" using eq by (cases cs) auto
      show ?thesis
      proof (cases "e = CHR ''u''")
        case True
        then obtain h1 h2 h3 h4 t y where "es = h1 # h2 # h3 # h4 # t" "parse_string_body t = Some (y, r)"
          using eq 2 es by (auto split: list.splits option.splits if_splits)
        then show ?thesis using IH [of t] es Cons by simp
      next
        case False
        then obtain y where "parse_string_body es = Some (y, r)"
          using eq 2 es by (auto split: option.splits if_splits)
        then show ?thesis using IH [of es] es Cons by simp
      qed
    next
      case 3
      then obtain y where "parse_string_body cs = Some (y, r)" using eq by (auto split: if_splits)
      then show ?thesis using IH [of cs] Cons by simp
    qed
  qed (use 1 in simp)
qed

lemma json_frac_shrinks: "json_frac s = Some (x, r) \<Longrightarrow> length r \<le> length s"
  using length_dropWhile_le [of is_digit "tl s"] by (auto simp: json_frac_def split: if_splits)

lemma json_exp_shrinks: "json_exp s = Some (x, r) \<Longrightarrow> length r \<le> length s"
  using length_dropWhile_le [of is_digit "tl s"] length_dropWhile_le [of is_digit "tl (tl s)"]
  by (auto simp: json_exp_def Let_def split: if_splits)

lemma length_dropWhile_less: "takeWhile P u \<noteq> [] \<Longrightarrow> length (dropWhile P u) < length u"
  by (metis length_append length_greater_0_conv less_add_same_cancel2 takeWhile_dropWhile_id)

lemma json_number_shrinks:
  assumes "json_number s = Some (x, r)"
  shows "length r < length s"
proof -
  define u where "u = (if starts_with ''-'' s then tl s else s)"
  have ip: "takeWhile is_digit u \<noteq> []"
    using assms by (auto simp: json_number_def Let_def u_def split: if_splits)
  obtain fp r2 e where "json_frac (dropWhile is_digit u) = Some (fp, r2)" "json_exp r2 = Some (e, r)"
    using assms by (auto simp: json_number_def Let_def simp flip: u_def split: if_splits option.splits)
  then have "length r \<le> length (dropWhile is_digit u)"
    using json_frac_shrinks json_exp_shrinks by (meson order_trans)
  also have "\<dots> < length u" using length_dropWhile_less [OF ip] .
  also have "\<dots> \<le> length s" by (simp add: u_def)
  finally show ?thesis .
qed

lemma starts_with_nonempty: "starts_with (c # p) t \<Longrightarrow> t \<noteq> []"
  by auto

lemma length_tl_skip_ws: "skip_ws s \<noteq> [] \<Longrightarrow> length (tl (skip_ws s)) < length s"
  using length_skip_ws [of s] by (cases "skip_ws s") auto

lemma parse_shrinks:
  "parse_value f s = Some (v, r) \<Longrightarrow> length r < length s"
  "parse_elements f s = Some (vs, r) \<Longrightarrow> length r < length s"
  "parse_members f acc s = Some (ms, r) \<Longrightarrow> length r < length s"
proof (induction f s and f s and f acc s arbitrary: v r and vs r and ms r
    rule: parse_value_parse_elements_parse_members.induct)
  case (2 f s)
  define t where "t = skip_ws s"
  have t: "t \<noteq> []" "length (tl t) < length s" "length t \<le> length s"
    using "2.prems" length_skip_ws [of s] length_tl_skip_ws [of s] by (auto simp: t_def Let_def split: if_splits)
  have tt: "length (tl (skip_ws (tl t))) \<le> length (tl t)"
    using length_skip_ws [of "tl t"] by simp
  consider (str) x where "parse_string_body (tl t) = Some (x, r)"
    | (nil) "r = tl (skip_ws (tl t))"
    | (arr) vs where "parse_elements f (tl t) = Some (vs, r)" "hd t = CHR ''[''" "\<not> starts_with '']'' (skip_ws (tl t))"
    | (obj) ms where "parse_members f [] (tl t) = Some (ms, r)" "hd t = CHR ''{''" "\<not> starts_with ''}'' (skip_ws (tl t))"
    | (lit) "r = drop 4 t \<or> r = drop 5 t"
    | (num) n where "json_number t = Some (n, r)"
    using "2.prems" by (auto simp: Let_def simp flip: t_def split: if_splits)
  then show ?case
  proof cases
    case str
    then show ?thesis using parse_string_body_shrinks t by fastforce
  next
    case nil
    then show ?thesis using t tt by simp
  next
    case arr
    then show ?thesis using "2.IH"(1) [OF t_def] t by fastforce
  next
    case obj
    then show ?thesis using "2.IH"(2) [OF t_def] t by fastforce
  next
    case lit
    then show ?thesis using t by (cases t) auto
  next
    case num
    then show ?thesis using json_number_shrinks t by fastforce
  qed
next
  case (4 f s)
  then obtain v r1 where v: "parse_value f s = Some (v, r1)" by (auto split: option.splits)
  define t where "t = skip_ws r1"
  have "length r1 < length s" using "4.IH"(1) v by blast
  moreover have "t \<noteq> []" using "4.prems" v by (auto simp: t_def Let_def split: if_splits)
  then have "length (tl t) < length r1" unfolding t_def by (rule length_tl_skip_ws)
  moreover have "r = tl t \<or> (\<exists>vs'. parse_elements f (tl t) = Some (vs', r) \<and> starts_with '','' t \<and> \<not> starts_with '']'' t)"
    using "4.prems" v by (auto simp: Let_def simp flip: t_def split: if_splits)
  ultimately show ?case using "4.IH"(2) [OF v refl t_def] by fastforce
next
  case (6 f acc s)
  define t where "t = skip_ws s"
  have t1: "starts_with [CHR 0x22] t" using "6.prems" by (auto simp: Let_def t_def split: if_splits)
  obtain k r1 where k: "parse_string_body (tl t) = Some (k, r1)"
    using "6.prems" t1 by (auto simp: Let_def simp flip: t_def split: option.splits)
  define t2 where "t2 = skip_ws r1"
  have t2: "starts_with '':'' t2" using "6.prems" t1 k by (auto simp: Let_def t2_def simp flip: t_def split: if_splits)
  obtain v r2 where v: "parse_value f (tl t2) = Some (v, r2)"
    using "6.prems" t1 k t2 by (auto simp: Let_def simp flip: t_def t2_def split: option.splits)
  define t3 where "t3 = skip_ws r2"
  have c: "r = tl t3 \<and> t3 \<noteq> [] \<or> (parse_members f (obj_set k v acc) (tl t3) = Some (ms, r) \<and> starts_with '','' t3 \<and> \<not> starts_with ''}'' t3)"
    using "6.prems" t1 k t2 v by (auto simp: Let_def simp flip: t_def t2_def t3_def split: if_splits)
  have "length (tl t) < length s" unfolding t_def
    by (rule length_tl_skip_ws) (use t1 t_def starts_with_nonempty in blast)
  moreover have "length r1 < length (tl t)" using parse_string_body_shrinks [OF k] .
  moreover have "length (tl t2) < length r1" unfolding t2_def
    by (rule length_tl_skip_ws) (use t2 t2_def starts_with_nonempty in blast)
  moreover have "length r2 < length (tl t2)"
    using "6.IH"(1) [OF t_def _ k refl t2_def _ v] t1 t2 by simp
  moreover have "length (tl t3) < length r2" unfolding t3_def
    by (rule length_tl_skip_ws) (use c t3_def starts_with_nonempty in blast)
  moreover have "length r \<le> length (tl t3)"
    using c "6.IH"(2) [OF t_def _ k refl t2_def _ v refl t3_def refl] t1 t2 by (auto intro: less_imp_le)
  ultimately show ?case by linarith
qed simp_all

lemma parse_fuel_step:
  "(2 * length s + 1 \<le> f \<longrightarrow> parse_value (Suc f) s = parse_value f s) \<and>
   (2 * length s + 2 \<le> f \<longrightarrow> parse_elements (Suc f) s = parse_elements f s) \<and>
   (2 * length s + 2 \<le> f \<longrightarrow> parse_members (Suc f) acc s = parse_members f acc s)"
proof (induction f arbitrary: s acc)
  case 0
  then show ?case by simp
next
  case (Suc f)
  have V: "parse_value (Suc f) u = parse_value f u" if "2 * length u + 1 \<le> f" for u
    using Suc.IH that by blast
  have E: "parse_elements (Suc f) u = parse_elements f u" if "2 * length u + 2 \<le> f" for u
    using Suc.IH that by blast
  have M: "parse_members (Suc f) a u = parse_members f a u" if "2 * length u + 2 \<le> f" for a u
    using Suc.IH that by blast
  have "parse_value (Suc (Suc f)) s = parse_value (Suc f) s" if f: "2 * length s + 1 \<le> Suc f"
  proof (cases "skip_ws s = []")
    case False
    then have "2 * length (tl (skip_ws s)) + 2 \<le> f" using length_tl_skip_ws [of s] f by simp
    then show ?thesis
      by (simp only: parse_value.simps(2) [of "Suc f"] parse_value.simps(2) [of f] Let_def E M)
  qed simp
  moreover have "parse_elements (Suc (Suc f)) s = parse_elements (Suc f) s" if f: "2 * length s + 2 \<le> Suc f"
  proof (cases "parse_value f s")
    case None
    then show ?thesis using V [of s] f by (simp only: parse_elements.simps(2)) simp
  next
    case (Some vr)
    obtain v r where vr: "vr = (v, r)" by (cases vr)
    have "length r < length s" using parse_shrinks(1) Some vr by blast
    then have "skip_ws r \<noteq> [] \<Longrightarrow> 2 * length (tl (skip_ws r)) + 2 \<le> f"
      using length_tl_skip_ws [of r] f by simp
    moreover have "\<not> starts_with '','' (skip_ws r)" if "skip_ws r = []" using that by simp
    ultimately show ?thesis using V [of s] f Some vr E [of "tl (skip_ws r)"]
      by (cases "skip_ws r = []") (simp_all only: parse_elements.simps(2), auto simp: Let_def)
  qed
  moreover have "parse_members (Suc (Suc f)) acc s = parse_members (Suc f) acc s" if f: "2 * length s + 2 \<le> Suc f"
  proof (cases "skip_ws s \<noteq> [] \<and> (\<exists>k r. parse_string_body (tl (skip_ws s)) = Some (k, r) \<and> skip_ws r \<noteq> [])")
    case True
    then obtain k r where k: "parse_string_body (tl (skip_ws s)) = Some (k, r)" "skip_ws r \<noteq> []" "skip_ws s \<noteq> []"
      by blast
    have r: "length (tl (skip_ws r)) < length s"
      using parse_string_body_shrinks [OF k(1)] length_tl_skip_ws [OF k(2)] length_tl_skip_ws [OF k(3)] by simp
    then have v: "parse_value (Suc f) (tl (skip_ws r)) = parse_value f (tl (skip_ws r))"
      using f by (intro V) simp
    have m: "parse_members (Suc f) a (tl (skip_ws r2)) = parse_members f a (tl (skip_ws r2))"
      if "parse_value f (tl (skip_ws r)) = Some (x, r2)" for x r2 a
    proof -
      have "length r2 < length s" using parse_shrinks(1) [OF that] r by simp
      then have "length (tl (skip_ws r2)) < length s" using length_skip_ws [of r2] by simp
      then show ?thesis using f by (intro M) simp
    qed
    show ?thesis
      unfolding parse_members.simps(2) [of "Suc f"] parse_members.simps(2) [of f] Let_def k v option.case prod.case
      using m by (auto split: option.splits)
  next
    case False
    then show ?thesis
      by (cases "parse_string_body (tl (skip_ws s))") (auto simp: Let_def)
  qed
  ultimately show ?case by blast
qed

text \<open>More fuel than \<open>json_parse\<close> spends never changes what \<open>parse_value\<close> returns.\<close>

lemma parse_value_fuel: "2 * length s + 2 \<le> f \<Longrightarrow> parse_value f s = parse_value (2 * length s + 2) s"
proof (induction f)
  case (Suc f)
  show ?case
  proof (cases "2 * length s + 2 = Suc f")
    case False
    then have "2 * length s + 2 \<le> f" using Suc.prems by simp
    then have "parse_value (Suc f) s = parse_value f s" using parse_fuel_step [of s f] by auto
    then show ?thesis using Suc.IH \<open>2 * length s + 2 \<le> f\<close> by simp
  qed simp
qed simp

end
