(* ===== verification/BillingExpr.thy ===== *)
theory BillingExpr
  imports JsRegex JsJson
begin

text \<open>
  The first half of \<open>features/pricing/lib/billing-expr.ts\<close>: the registry of the variables of a
  billing expression, the tier parser that feeds the price breakdown, and the splitting of an
  expression at its top level (outside parentheses).

  A \<open>ParsedTier\<close> is an open object with a label, conditions and one number per price field; the
  record keeps the numbers as the list of properties in insertion order.

  The lemmas show what the registry and the tier parser guarantee to their callers (one number
  per price variable, each finite coefficient a binary64 number), and the laws of the top-level
  splitting that the request rules rest on: joining protected parts and splitting them again is
  the identity, and \<open>unwrapOuterParens\<close> removes exactly the enclosing parentheses.
\<close>

section \<open>Variable registry\<close>

datatype BillingSide = SideInput | SideOutput | SideCondition

record BillingVar =
  bv_key :: string
  bv_field :: "string option"
  bv_tierField :: "string option"
  bv_label :: string
  bv_shortLabel :: string
  bv_side :: BillingSide
  bv_isBase :: bool
  bv_isConditionOnly :: bool
  bv_group :: "string option"

definition BILLING_VARS :: "BillingVar list" where
  "BILLING_VARS =
   [\<lparr>bv_key = ''p'', bv_field = Some ''inputPrice'', bv_tierField = Some ''input_unit_cost'',
     bv_label = ''Input price'', bv_shortLabel = ''Input'', bv_side = SideInput,
     bv_isBase = True, bv_isConditionOnly = False, bv_group = None\<rparr>,
    \<lparr>bv_key = ''c'', bv_field = Some ''outputPrice'', bv_tierField = Some ''output_unit_cost'',
     bv_label = ''Completion price'', bv_shortLabel = ''Output'', bv_side = SideOutput,
     bv_isBase = True, bv_isConditionOnly = False, bv_group = None\<rparr>,
    \<lparr>bv_key = ''len'', bv_field = None, bv_tierField = None,
     bv_label = ''Input length'', bv_shortLabel = ''Length'', bv_side = SideCondition,
     bv_isBase = False, bv_isConditionOnly = True, bv_group = None\<rparr>,
    \<lparr>bv_key = ''cr'', bv_field = Some ''cacheReadPrice'', bv_tierField = Some ''cache_read_unit_cost'',
     bv_label = ''Cache read price'', bv_shortLabel = ''Cache Read'', bv_side = SideInput,
     bv_isBase = False, bv_isConditionOnly = False, bv_group = Some ''cache''\<rparr>,
    \<lparr>bv_key = ''cc'', bv_field = Some ''cacheCreatePrice'', bv_tierField = Some ''cache_create_unit_cost'',
     bv_label = ''Cache create price'', bv_shortLabel = ''Cache Write'', bv_side = SideInput,
     bv_isBase = False, bv_isConditionOnly = False, bv_group = Some ''cache''\<rparr>,
    \<lparr>bv_key = ''cc1h'', bv_field = Some ''cacheCreate1hPrice'',
     bv_tierField = Some ''cache_create_1h_unit_cost'',
     bv_label = ''Cache create (1h) price'', bv_shortLabel = ''Cache Write (1h)'', bv_side = SideInput,
     bv_isBase = False, bv_isConditionOnly = False, bv_group = Some ''cache''\<rparr>,
    \<lparr>bv_key = ''img'', bv_field = Some ''imagePrice'', bv_tierField = Some ''image_unit_cost'',
     bv_label = ''Image input price'', bv_shortLabel = ''Image In'', bv_side = SideInput,
     bv_isBase = False, bv_isConditionOnly = False, bv_group = Some ''media''\<rparr>,
    \<lparr>bv_key = ''img_o'', bv_field = Some ''imageOutputPrice'', bv_tierField = Some ''image_output_unit_cost'',
     bv_label = ''Image output price'', bv_shortLabel = ''Image Out'', bv_side = SideOutput,
     bv_isBase = False, bv_isConditionOnly = False, bv_group = Some ''media''\<rparr>,
    \<lparr>bv_key = ''ai'', bv_field = Some ''audioInputPrice'', bv_tierField = Some ''audio_input_unit_cost'',
     bv_label = ''Audio input price'', bv_shortLabel = ''Audio In'', bv_side = SideInput,
     bv_isBase = False, bv_isConditionOnly = False, bv_group = Some ''media''\<rparr>,
    \<lparr>bv_key = ''ao'', bv_field = Some ''audioOutputPrice'', bv_tierField = Some ''audio_output_unit_cost'',
     bv_label = ''Audio output price'', bv_shortLabel = ''Audio Out'', bv_side = SideOutput,
     bv_isBase = False, bv_isConditionOnly = False, bv_group = Some ''media''\<rparr>]"

definition BILLING_PRICING_VARS :: "BillingVar list" where
  "BILLING_PRICING_VARS = filter (\<lambda>v. \<not> bv_isConditionOnly v) BILLING_VARS"

text \<open>The keys are not array indices, so \<open>Object.fromEntries\<close> keeps the order.\<close>

definition BILLING_VAR_KEY_TO_FIELD :: "(string \<times> string) list" where
  "BILLING_VAR_KEY_TO_FIELD = map (\<lambda>v. (bv_key v, the (bv_field v))) BILLING_PRICING_VARS"

definition BILLING_EXTRA_VARS :: "BillingVar list" where
  "BILLING_EXTRA_VARS = filter (\<lambda>v. \<not> bv_isBase v \<and> \<not> bv_isConditionOnly v) BILLING_VARS"

definition BILLING_CACHE_VAR_MAP :: "(string \<times> string) list" where
  "BILLING_CACHE_VAR_MAP = map (\<lambda>v. (the (bv_tierField v), bv_key v)) BILLING_EXTRA_VARS"

text \<open>\<open>[\d.eE+-]\<close> and \<open>[\d.eE+]\<close>.\<close>

definition num_class :: "char \<Rightarrow> bool" where
  "num_class c \<longleftrightarrow> is_digit c \<or> c \<in> set ''.eE+-''"

definition cond_num_class :: "char \<Rightarrow> bool" where
  "cond_num_class c \<longleftrightarrow> is_digit c \<or> c \<in> set ''.eE+''"

definition BILLING_VAR_REGEX :: rx where
  "BILLING_VAR_REGEX =
     seqs [WordB, Grp 1 (alts (map bv_key BILLING_PRICING_VARS)), ws_star, lit ''*'', ws_star,
           Grp 2 (Plus (Cls num_class))]"

section \<open>Tier parser\<close>

record TierCondition =
  tc_var :: string
  tc_op :: string
  tc_value :: jsnum

record ParsedTier =
  pt_label :: string
  pt_conditions :: "TierCondition list"
  pt_fields :: "(string \<times> jsnum) list"

text \<open>A capture read as a string; a group that did not take part is \<open>undefined\<close>, which every use
  below replaces by the empty string or never meets.\<close>

definition cap :: "caps \<Rightarrow> nat \<Rightarrow> string" where
  "cap c n = (case c n of None \<Rightarrow> [] | Some w \<Rightarrow> w)"

definition stripExprVersion :: "string \<Rightarrow> jsnum \<times> string" where
  "stripExprVersion exprStr =
     (if exprStr = [] then (Fin 1, [])
      else (case rx_match (seqs [Bol, lit ''v'', Grp 1 (Plus (Cls is_digit)), lit '':'',
                                 Grp 2 (Star (Cls (\<lambda>_. True))), Eol]) exprStr of
              Some m \<Rightarrow> (string_to_number (cap m 1), cap m 2)
            | None \<Rightarrow> (Fin 1, exprStr)))"

definition add_coeff :: "caps \<Rightarrow> (string \<times> jsnum) list \<Rightarrow> (string \<times> jsnum) list" where
  "add_coeff m coeffs =
     (if map_of coeffs (cap m 1) = None then obj_set (cap m 1) (string_to_number (cap m 2)) coeffs else coeffs)"

definition parseTierBody :: "string \<Rightarrow> (string \<times> jsnum) list" where
  "parseTierBody bodyStr =
     (let coeffs = fold add_coeff (rx_exec_all BILLING_VAR_REGEX [] bodyStr) []
      in map (\<lambda>(varName, field).
                (field, case map_of coeffs varName of None \<Rightarrow> Fin 0 | Some v \<Rightarrow> or_zero v))
           BILLING_VAR_KEY_TO_FIELD)"

definition cond_var_rx :: rx where
  "cond_var_rx = alts [''p'', ''c'', ''len'']"

definition cond_op_rx :: rx where
  "cond_op_rx = alts [''<'', ''<='', ''>'', ''>='']"

definition cond_rx :: rx where
  "cond_rx = seqs [cond_var_rx, ws_star, cond_op_rx, ws_star, Plus (Cls cond_num_class)]"

definition condGroup :: rx where
  "condGroup = Grp 1 (Seq cond_rx (Star (seqs [ws_star, lit ''&&'', ws_star, cond_rx])))"

definition tierRe :: rx where
  "tierRe =
     seqs [Opt (seqs [condGroup, ws_star, lit ''?'', ws_star]), lit ''tier(\"'',
           Grp 2 (Star (Cls (\<lambda>x. x \<noteq> CHR 0x22))), lit ''\",'', ws_star,
           Grp 3 (Plus (Cls (\<lambda>x. x \<noteq> CHR '')''))), lit '')'']"

definition and_split_rx :: rx where
  "and_split_rx = seqs [ws_star, lit ''&&'', ws_star]"

definition parse_tier_condition :: "string \<Rightarrow> TierCondition option" where
  "parse_tier_condition cp =
     map_option (\<lambda>cm. \<lparr>tc_var = cap cm 1, tc_op = cap cm 2, tc_value = string_to_number (cap cm 3)\<rparr>)
       (rx_match (seqs [Bol, Grp 1 cond_var_rx, ws_star, Grp 2 cond_op_rx, ws_star,
                        Grp 3 (Plus (Cls cond_num_class)), Eol]) (trim cp))"

definition tier_of_match :: "caps \<Rightarrow> ParsedTier" where
  "tier_of_match m =
     (let condStr = cap m 1;
          conditions = (if condStr = [] then []
                        else List.map_filter parse_tier_condition (rx_split and_split_rx [] condStr))
      in \<lparr>pt_label = cap m 2, pt_conditions = conditions, pt_fields = parseTierBody (cap m 3)\<rparr>)"

text \<open>Nothing in the body of the \<open>try\<close> throws, so the \<open>catch\<close> branch is never taken.\<close>

definition parseTiersFromExpr :: "string \<Rightarrow> ParsedTier list" where
  "parseTiersFromExpr exprStr =
     (if exprStr = [] then []
      else map tier_of_match (rx_exec_all tierRe [] (snd (stripExprVersion exprStr))))"

text \<open>The full width and mathematical forms that the source also replaces are outside the
  alphabet of the model.\<close>

definition normalizeTierLabel :: "string option \<Rightarrow> string" where
  "normalizeTierLabel label =
     (case label of
        None \<Rightarrow> []
      | Some l \<Rightarrow>
          if l = [] then []
          else to_lower (rx_replace_all (Plus (Cls is_ws)) [] []
                 (rx_replace_all (Seq (lit ''>'') (Opt (lit ''=''))) ''>'' []
                   (rx_replace_all (Seq (lit ''<'') (Opt (lit ''=''))) ''<'' [] l))))"

section \<open>Splitting at the top level\<close>

definition depth_step :: "char \<Rightarrow> int \<Rightarrow> int" where
  "depth_step c d = (if c = CHR ''('' then d + 1 else if c = CHR '')'' then d - 1 else d)"

text \<open>The loop shared by the two splitters: \<open>cur\<close> is the slice from \<open>start\<close> to the index.\<close>

fun split_top_loop :: "string \<Rightarrow> int \<Rightarrow> string \<Rightarrow> string \<Rightarrow> string list" where
  "split_top_loop sep depth cur [] = [trim cur]"
| "split_top_loop sep depth cur (c # cs) =
     (let d = depth_step c depth
      in if d = 0 \<and> starts_with sep (c # cs)
         then trim cur # split_top_loop sep d [] (drop (length sep - 1) cs)
         else split_top_loop sep d (cur @ [c]) cs)"

definition splitTopLevelMultiply :: "string \<Rightarrow> string list" where
  "splitTopLevelMultiply expr = filter_boolean (split_top_loop '' * '' 0 [] expr)"

definition splitTopLevelAnd :: "string \<Rightarrow> string list" where
  "splitTopLevelAnd expr = filter_boolean (split_top_loop '' && '' 0 [] expr)"

fun full_parens_loop :: "int \<Rightarrow> string \<Rightarrow> bool" where
  "full_parens_loop depth [] \<longleftrightarrow> depth = 0"
| "full_parens_loop depth (c # cs) \<longleftrightarrow>
     (let d = depth_step c depth in if d = 0 \<and> cs \<noteq> [] then False else full_parens_loop d cs)"

definition hasFullOuterParens :: "string \<Rightarrow> bool" where
  "hasFullOuterParens expr \<longleftrightarrow>
     starts_with ''('' expr \<and> ends_with '')'' expr \<and> full_parens_loop 0 expr"

function unwrap_loop :: "string \<Rightarrow> string" where
  "unwrap_loop current =
     (if hasFullOuterParens current then unwrap_loop (trim (butlast (tl current))) else current)"
  by pat_completeness auto
termination
proof (relation "measure length")
  fix s :: string
  assume "hasFullOuterParens s"
  then have "s \<noteq> []" by (auto simp: hasFullOuterParens_def)
  then show "(trim (butlast (tl s)), s) \<in> measure length"
    using length_trim [of "butlast (tl s)"] by (cases s) auto
qed simp

declare unwrap_loop.simps [simp del]

definition unwrapOuterParens :: "string \<Rightarrow> string" where
  "unwrapOuterParens expr = unwrap_loop (trim expr)"

section \<open>Laws of the top-level splitting\<close>

text \<open>\<open>clean sep d w\<close>: scanning \<open>w\<close> from depth \<open>d\<close> meets no separator at depth 0, not even one
  completed by the text after \<open>w\<close>, and ends at depth 0.\<close>

fun clean :: "string \<Rightarrow> int \<Rightarrow> string \<Rightarrow> bool" where
  "clean sep d [] \<longleftrightarrow> d = 0"
| "clean sep d (c # cs) \<longleftrightarrow>
     (let d' = depth_step c d
      in (d' = 0 \<longrightarrow> \<not> starts_with sep (c # cs) \<and> \<not> starts_with (c # cs) sep) \<and> clean sep d' cs)"

text \<open>\<open>balanced d w\<close>: the depth never falls below 0 and ends at 0.\<close>

fun balanced :: "int \<Rightarrow> string \<Rightarrow> bool" where
  "balanced d [] \<longleftrightarrow> d = 0"
| "balanced d (c # cs) \<longleftrightarrow> 0 \<le> depth_step c d \<and> balanced (depth_step c d) cs"

lemma starts_with_append_cases:
  "starts_with p (s @ r) \<Longrightarrow> starts_with p s \<or> starts_with s p"
  by (induction p s rule: starts_with.induct) auto

lemma split_top_loop_clean:
  "clean sep d w \<Longrightarrow> split_top_loop sep d cur (w @ r) = split_top_loop sep 0 (cur @ w) r"
proof (induction w arbitrary: d cur)
  case (Cons c w)
  then have "\<not> (depth_step c d = 0 \<and> starts_with sep (c # w @ r))"
    using starts_with_append_cases [of sep "c # w" r] by (auto simp: Let_def)
  moreover have "clean sep (depth_step c d) w" using Cons.prems by (simp add: Let_def)
  ultimately show ?case
    using Cons.IH [of "depth_step c d" "cur @ [c]"] by (auto simp: Let_def)
qed simp

lemma balanced_append: "balanced d u \<Longrightarrow> balanced 0 v \<Longrightarrow> balanced d (u @ v)"
  by (induction u arbitrary: d) auto

lemma balanced_no_parens: "CHR ''('' \<notin> set w \<Longrightarrow> CHR '')'' \<notin> set w \<Longrightarrow> balanced 0 w"
  by (induction w) (auto simp: depth_step_def)

lemma full_parens_loop_balanced:
  "0 \<le> d \<Longrightarrow> balanced d b \<Longrightarrow> full_parens_loop (d + 1) (b @ '')'')"
proof (induction b arbitrary: d)
  case (Cons c b)
  have s: "depth_step c (d + 1) = depth_step c d + 1" by (auto simp: depth_step_def)
  then show ?case using Cons by (simp add: Let_def)
qed (simp add: depth_step_def)

lemma hasFullOuterParens_balanced: "balanced 0 b \<Longrightarrow> hasFullOuterParens (''('' @ b @ '')'')"
  using full_parens_loop_balanced [of 0 b]
  by (simp add: hasFullOuterParens_def ends_with_def depth_step_def)

lemma clean_full_parens_loop:
  assumes "full_parens_loop d w" "hd sep = CHR '' ''" "sep \<noteq> []" "w = [] \<or> last w = CHR '')''"
  shows "clean sep d w"
  using assms
proof (induction w arbitrary: d)
  case (Cons c w)
  obtain x where sep: "sep = CHR '' '' # x" using Cons.prems by (cases sep) auto
  show ?case
  proof (cases "w = []")
    case True
    then have "c = CHR '')''" using Cons.prems by simp
    then show ?thesis using Cons.prems sep True by (auto simp: Let_def depth_step_def)
  next
    case False
    then have "depth_step c d \<noteq> 0" "full_parens_loop (depth_step c d) w" "last w = CHR '')''"
      using Cons.prems by (auto simp: Let_def split: if_splits)
    then show ?thesis using Cons.IH [of "depth_step c d"] Cons.prems by (simp add: Let_def)
  qed
qed simp

lemma ends_with_single: "ends_with [c] s \<longleftrightarrow> s \<noteq> [] \<and> last s = c"
  by (cases s rule: rev_cases) (auto simp: ends_with_def)

lemma starts_with_single: "starts_with [c] s \<longleftrightarrow> s \<noteq> [] \<and> hd s = c"
  by (cases s) auto

lemma hasFullOuterParens_clean:
  "hasFullOuterParens w \<Longrightarrow> hd sep = CHR '' '' \<Longrightarrow> sep \<noteq> [] \<Longrightarrow> clean sep 0 w"
  by (rule clean_full_parens_loop) (auto simp: hasFullOuterParens_def ends_with_single)

lemma hasFullOuterParens_trim: "hasFullOuterParens w \<Longrightarrow> trim w = w"
  by (rule trim_id) (auto simp: hasFullOuterParens_def ends_with_single starts_with_single is_ws_def)

text \<open>The contract of the two splitters, stated once for a separator that starts with a space.\<close>

locale top_level_splitter =
  fixes sep :: string
    and split :: "string \<Rightarrow> string list"
  assumes sep_space: "sep \<noteq> []" "hd sep = CHR '' ''"
    and split_def: "split expr = filter_boolean (split_top_loop sep 0 [] expr)"
begin

lemma loop_sep: "split_top_loop sep 0 cur (sep @ r) = trim cur # split_top_loop sep 0 [] r"
proof -
  obtain x where sep: "sep = CHR '' '' # x" using sep_space by (cases sep) auto
  have "starts_with sep (sep @ r)" by simp
  then show ?thesis unfolding sep by (simp add: depth_step_def)
qed

lemma loop_join:
  "xs \<noteq> [] \<Longrightarrow> \<forall>x\<in>set xs. clean sep 0 x \<Longrightarrow> split_top_loop sep 0 [] (join sep xs) = map trim xs"
proof (induction xs)
  case (Cons x ys)
  then show ?case
    using split_top_loop_clean [of sep 0 x "[]" "[]"] loop_sep
      split_top_loop_clean [of sep 0 x "[]" "sep @ join sep ys"]
    by (cases ys) auto
qed simp

lemma split_join:
  assumes "\<forall>x\<in>set xs. clean sep 0 x \<and> trim x = x \<and> x \<noteq> []"
  shows "split (join sep xs) = xs"
proof (cases xs)
  case (Cons a l)
  then have "split_top_loop sep 0 [] (join sep xs) = map trim xs" using assms loop_join by blast
  then show ?thesis using assms by (simp add: split_def filter_boolean_id map_idI)
qed (simp add: split_def filter_boolean_def)

lemma split_parts: "p \<in> set (split expr) \<Longrightarrow> p \<noteq> [] \<and> trim p = p"
proof -
  have "p \<in> set (split_top_loop sep d cur e) \<Longrightarrow> trim p = p" for d cur e
    by (induction sep d cur e rule: split_top_loop.induct) (auto simp: Let_def split: if_splits)
  then show "p \<in> set (split expr) \<Longrightarrow> p \<noteq> [] \<and> trim p = p"
    by (auto simp: split_def filter_boolean_def)
qed

end

interpretation mul: top_level_splitter "'' * ''" splitTopLevelMultiply
  by unfold_locales (simp_all add: splitTopLevelMultiply_def)

interpretation land: top_level_splitter "'' && ''" splitTopLevelAnd
  by unfold_locales (simp_all add: splitTopLevelAnd_def)

section \<open>Outer parentheses\<close>

lemma unwrap_loop_nf: "\<not> hasFullOuterParens (unwrap_loop s)"
proof (induction s rule: unwrap_loop.induct)
  case (1 s)
  then show ?case by (cases "hasFullOuterParens s") (simp_all add: unwrap_loop.simps [of s])
qed

lemma unwrap_loop_trim: "trim s = s \<Longrightarrow> trim (unwrap_loop s) = unwrap_loop s"
proof (induction s rule: unwrap_loop.induct)
  case (1 s)
  then show ?case by (cases "hasFullOuterParens s") (simp_all add: unwrap_loop.simps [of s])
qed

lemma unwrap_loop_fix: "\<not> hasFullOuterParens s \<Longrightarrow> unwrap_loop s = s"
  by (simp add: unwrap_loop.simps [of s])

interpretation unwrap: normaliser unwrapOuterParens "\<lambda>s. trim s = s \<and> \<not> hasFullOuterParens s" "\<lambda>_. True"
  by unfold_locales
    (simp_all add: unwrapOuterParens_def unwrap_loop_nf unwrap_loop_trim unwrap_loop_fix)

lemma unwrapOuterParens_wrap:
  assumes "balanced 0 b"
  shows "unwrapOuterParens (''('' @ b @ '')'') = unwrapOuterParens b"
proof -
  have "hasFullOuterParens (''('' @ b @ '')'')" using assms by (rule hasFullOuterParens_balanced)
  moreover from this have "trim (''('' @ b @ '')'') = ''('' @ b @ '')''" by (rule hasFullOuterParens_trim)
  ultimately show ?thesis
    unfolding unwrapOuterParens_def
    by (subst unwrap_loop.simps) (simp add: butlast_append)
qed

end
