(* ===== verification/RequestRules.thy ===== *)
theory RequestRules
  imports BillingExpr
begin

text \<open>
  The second half of \<open>features/pricing/lib/billing-expr.ts\<close>: request rules, the conditional
  multipliers that follow a billing expression. The parser (\<open>tryParse...\<close>), the splitting and
  combining of a stored expression, the editor's normalisation of a condition and the printer
  (\<open>build...\<close>) are modelled whole.

  \<open>JSON.parse\<close> inside \<open>tryParseRequestCondition\<close> is not guarded, so the parser returns a sum:
  \<open>Inl\<close> is the uncaught \<open>SyntaxError\<close>.

  The properties show that what the printer writes the parser reads back, and that splitting
  undoes combining, for the conditions singled out by \<open>ok_condition\<close>; \<open>param_comparison_lost\<close>
  and \<open>bad_escape_throws\<close> mark the edges of that class.
\<close>

section \<open>Constants and types\<close>

definition SOURCE_PARAM :: string where "SOURCE_PARAM = ''param''"
definition SOURCE_HEADER :: string where "SOURCE_HEADER = ''header''"
definition SOURCE_TIME :: string where "SOURCE_TIME = ''time''"

definition MATCH_EQ :: string where "MATCH_EQ = ''eq''"
definition MATCH_CONTAINS :: string where "MATCH_CONTAINS = ''contains''"
definition MATCH_GT :: string where "MATCH_GT = ''gt''"
definition MATCH_GTE :: string where "MATCH_GTE = ''gte''"
definition MATCH_LT :: string where "MATCH_LT = ''lt''"
definition MATCH_LTE :: string where "MATCH_LTE = ''lte''"
definition MATCH_EXISTS :: string where "MATCH_EXISTS = ''exists''"
definition MATCH_RANGE :: string where "MATCH_RANGE = ''range''"

lemmas match_defs = SOURCE_PARAM_def SOURCE_HEADER_def SOURCE_TIME_def MATCH_EQ_def MATCH_CONTAINS_def
  MATCH_GT_def MATCH_GTE_def MATCH_LT_def MATCH_LTE_def MATCH_EXISTS_def MATCH_RANGE_def

definition TIME_FUNCS :: "string list" where
  "TIME_FUNCS = [''hour'', ''minute'', ''weekday'', ''month'', ''day'']"

text \<open>\<open>/^-?(?:\d+\.?\d*|\.\d+)(?:[eE][+-]?\d+)?$/\<close>\<close>

definition digits_rx :: rx where
  "digits_rx = Plus (Cls is_digit)"

definition NUMERIC_LITERAL_REGEX :: rx where
  "NUMERIC_LITERAL_REGEX =
     seqs [Bol, Opt (lit ''-''),
           Alt (seqs [digits_rx, Opt (lit ''.''), Star (Cls is_digit)]) (Seq (lit ''.'') digits_rx),
           Opt (seqs [Cls (\<lambda>x. x \<in> set ''eE''), Opt (Cls (\<lambda>x. x \<in> set ''+-'')), digits_rx]),
           Eol]"

record ParamHeaderCondition =
  ph_source :: string
  ph_path :: string
  ph_mode :: string
  ph_value :: string

record TimeCondition =
  tm_timeFunc :: string
  tm_timezone :: string
  tm_mode :: string
  tm_value :: string
  tm_rangeStart :: string
  tm_rangeEnd :: string

datatype RequestCondition = Time TimeCondition | ParamHeader ParamHeaderCondition

record RequestRuleGroup =
  rg_conditions :: "RequestCondition list"
  rg_multiplier :: string

text \<open>The exception that leaves the parser.\<close>

datatype parse_exn = SyntaxError

section \<open>Request rule parser\<close>

definition parseExprLiteral :: "string \<Rightarrow> jsval option" where
  "parseExprLiteral raw =
     (let text = trim raw
      in if text = ''true'' \<or> text = ''false'' then Some (JStr text)
         else if rx_test NUMERIC_LITERAL_REGEX text then Some (JStr text)
         else (case json_parse text of
                 None \<Rightarrow> None
               | Some v \<Rightarrow> if v = JNull then None else Some v))"

text \<open>\<open>[^"]\<close>\<close>

definition not_quote :: "char \<Rightarrow> bool" where
  "not_quote x \<longleftrightarrow> x \<noteq> CHR 0x22"

definition time_func_rx :: rx where
  "time_func_rx = alts TIME_FUNCS"

definition time_range_rx :: "rx \<Rightarrow> rx \<Rightarrow> rx" where
  "time_range_rx opn cls =
     seqs [Bol, opn, Grp 1 time_func_rx, lit ''(\"'', Grp 2 (Plus (Cls not_quote)), lit ''\") >= '',
           Grp 3 (Plus (Cls num_class)), lit '' || '', Ref 1, lit ''(\"'', Ref 2, lit ''\") < '',
           Grp 4 (Plus (Cls num_class)), cls, Eol]"

definition time_cmp_rx :: rx where
  "time_cmp_rx =
     seqs [Bol, Grp 1 time_func_rx, lit ''(\"'', Grp 2 (Plus (Cls not_quote)), lit ''\") '',
           Grp 3 (alts [''=='', ''>='', ''<'']), lit '' '', Grp 4 (Plus (Cls num_class)), Eol]"

definition time_range_condition :: "caps \<Rightarrow> TimeCondition" where
  "time_range_condition m =
     \<lparr>tm_timeFunc = cap m 1, tm_timezone = cap m 2, tm_mode = MATCH_RANGE, tm_value = [],
      tm_rangeStart = cap m 3, tm_rangeEnd = cap m 4\<rparr>"

definition time_op_mode :: "string \<Rightarrow> string" where
  "time_op_mode op =
     (case map_of [(''=='', MATCH_EQ), (''>='', MATCH_GTE), (''<'', MATCH_LT)] op of
        Some x \<Rightarrow> x | None \<Rightarrow> MATCH_EQ)"

definition tryParseTimeCondition :: "string \<Rightarrow> RequestCondition option" where
  "tryParseTimeCondition expr =
     (case rx_match (time_range_rx Eps Eps) expr of
        Some m \<Rightarrow> Some (Time (time_range_condition m))
      | None \<Rightarrow>
          (case rx_match (time_range_rx (lit ''('') (lit '')'')) expr of
             Some m \<Rightarrow> Some (Time (time_range_condition m))
           | None \<Rightarrow>
               (case rx_match time_cmp_rx expr of
                  Some m \<Rightarrow> Some (Time \<lparr>tm_timeFunc = cap m 1, tm_timezone = cap m 2,
                                   tm_mode = time_op_mode (cap m 3), tm_value = cap m 4,
                                   tm_rangeStart = [], tm_rangeEnd = []\<rparr>)
                | None \<Rightarrow> None)))"

text \<open>\<open>"(?:[^"\\]|\\.)*"\<close>\<close>

definition string_literal_rx :: rx where
  "string_literal_rx =
     seqs [Cls (\<lambda>x. x = CHR 0x22),
           Star (Alt (Cls (\<lambda>x. x \<noteq> CHR 0x22 \<and> x \<noteq> CHR 0x5C))
                     (Seq (Cls (\<lambda>x. x = CHR 0x5C)) (Cls (\<lambda>x. \<not> is_line_terminator x)))),
           Cls (\<lambda>x. x = CHR 0x22)]"

definition header_exists_rx :: rx where
  "header_exists_rx = seqs [Bol, lit ''header(\"'', Grp 1 (Plus (Cls not_quote)), lit ''\") != \"\"'', Eol]"

definition param_exists_rx :: rx where
  "param_exists_rx = seqs [Bol, lit ''param(\"'', Grp 1 (Plus (Cls not_quote)), lit ''\") != nil'', Eol]"

definition header_contains_rx :: rx where
  "header_contains_rx =
     seqs [Bol, lit ''has(header(\"'', Grp 1 (Plus (Cls not_quote)), lit ''\"), '',
           Grp 2 string_literal_rx, lit '')'', Eol]"

definition param_contains_rx :: rx where
  "param_contains_rx =
     seqs [Bol, lit ''param(\"'', Grp 1 (Plus (Cls not_quote)), lit ''\") != nil && has(param(\"'',
           Grp 2 (Plus (Cls not_quote)), lit ''\"), '', Grp 3 string_literal_rx, lit '')'', Eol]"

definition param_cmp_rx :: rx where
  "param_cmp_rx =
     seqs [Bol, lit ''param(\"'', Grp 1 (Plus (Cls not_quote)), lit ''\") != nil && param(\"'',
           Grp 2 (Plus (Cls not_quote)), lit ''\") '', Grp 3 (alts [''>'', ''>='', ''<'', ''<='']),
           lit '' '', Grp 4 (Plus (Cls num_class)), Eol]"

definition eq_rx :: rx where
  "eq_rx =
     seqs [Bol, Grp 1 (alts [''param'', ''header'']), lit ''(\"'', Grp 2 (Plus (Cls not_quote)),
           lit ''\") == '', Grp 3 (Plus (Cls (\<lambda>x. \<not> is_line_terminator x))), Eol]"

definition cmp_op_mode :: "string \<Rightarrow> string" where
  "cmp_op_mode op =
     the (map_of [(''>'', MATCH_GT), (''>='', MATCH_GTE), (''<'', MATCH_LT), (''<='', MATCH_LTE)] op)"

text \<open>\<open>JSON.parse(m) as string\<close>, uncaught.\<close>

definition parse_contains_value :: "string \<Rightarrow> string \<Rightarrow> string \<Rightarrow> parse_exn + RequestCondition option" where
  "parse_contains_value src path literal =
     (case json_parse literal of
        None \<Rightarrow> Inl SyntaxError
      | Some v \<Rightarrow> Inr (Some (ParamHeader \<lparr>ph_source = src, ph_path = path, ph_mode = MATCH_CONTAINS,
                                  ph_value = js_to_string v\<rparr>)))"

definition parse_eq_condition :: "string \<Rightarrow> RequestCondition option" where
  "parse_eq_condition expr =
     (case rx_match eq_rx expr of
        None \<Rightarrow> None
      | Some m \<Rightarrow>
          (case parseExprLiteral (cap m 3) of
             None \<Rightarrow> None
           | Some v \<Rightarrow> Some (ParamHeader \<lparr>ph_source = cap m 1, ph_path = cap m 2, ph_mode = MATCH_EQ,
                                ph_value = js_to_string v\<rparr>)))"

definition parse_param_cmp :: "string \<Rightarrow> RequestCondition option" where
  "parse_param_cmp expr =
     (case rx_match param_cmp_rx expr of
        Some m \<Rightarrow>
          if cap m 1 = cap m 2
          then Some (ParamHeader \<lparr>ph_source = ''param'', ph_path = cap m 1,
                       ph_mode = cmp_op_mode (cap m 3), ph_value = cap m 4\<rparr>)
          else parse_eq_condition expr
      | None \<Rightarrow> parse_eq_condition expr)"

definition parse_param_contains :: "string \<Rightarrow> parse_exn + RequestCondition option" where
  "parse_param_contains expr =
     (case rx_match param_contains_rx expr of
        Some m \<Rightarrow>
          if cap m 1 = cap m 2 then parse_contains_value ''param'' (cap m 1) (cap m 3)
          else Inr (parse_param_cmp expr)
      | None \<Rightarrow> Inr (parse_param_cmp expr))"

definition tryParseRequestCondition :: "string \<Rightarrow> parse_exn + RequestCondition option" where
  "tryParseRequestCondition expr =
     (case tryParseTimeCondition expr of
        Some tc \<Rightarrow> Inr (Some tc)
      | None \<Rightarrow>
     (case rx_match header_exists_rx expr of
        Some m \<Rightarrow> Inr (Some (ParamHeader \<lparr>ph_source = ''header'', ph_path = cap m 1,
                               ph_mode = MATCH_EXISTS, ph_value = []\<rparr>))
      | None \<Rightarrow>
     (case rx_match param_exists_rx expr of
        Some m \<Rightarrow> Inr (Some (ParamHeader \<lparr>ph_source = ''param'', ph_path = cap m 1,
                               ph_mode = MATCH_EXISTS, ph_value = []\<rparr>))
      | None \<Rightarrow>
     (case rx_match header_contains_rx expr of
        Some m \<Rightarrow> parse_contains_value ''header'' (cap m 1) (cap m 2)
      | None \<Rightarrow> parse_param_contains expr))))"

text \<open>The loop over the parts of a conjunction: the first part that is not a condition ends it.\<close>

fun parse_conditions :: "string list \<Rightarrow> parse_exn + RequestCondition list option" where
  "parse_conditions [] = Inr (Some [])"
| "parse_conditions (ap # aps) =
     sbind (tryParseRequestCondition (trim ap)) (\<lambda>r.
       case r of
         None \<Rightarrow> Inr None
       | Some cond \<Rightarrow> sbind (parse_conditions aps) (\<lambda>rest. Inr (map_option (Cons cond) rest)))"

definition factor_rx :: rx where
  "factor_rx =
     seqs [Bol, lit ''('', Grp 1 (Plus (Cls (\<lambda>_. True))), lit '' ? '', Grp 2 (Plus (Cls num_class)),
           lit '' : 1)'', Eol]"

definition tryParseRuleGroupFactor :: "string \<Rightarrow> parse_exn + RequestRuleGroup option" where
  "tryParseRuleGroupFactor part =
     (case rx_match factor_rx part of
        None \<Rightarrow> Inr None
      | Some m \<Rightarrow>
          sbind (parse_conditions (splitTopLevelAnd (cap m 1))) (\<lambda>r.
            case r of
              None \<Rightarrow> Inr None
            | Some conditions \<Rightarrow>
                if conditions = [] then Inr None
                else Inr (Some \<lparr>rg_conditions = conditions, rg_multiplier = cap m 2\<rparr>)))"

fun parse_factors :: "string list \<Rightarrow> parse_exn + RequestRuleGroup list option" where
  "parse_factors [] = Inr (Some [])"
| "parse_factors (p # ps) =
     sbind (tryParseRuleGroupFactor p) (\<lambda>r.
       case r of
         None \<Rightarrow> Inr None
       | Some g \<Rightarrow> sbind (parse_factors ps) (\<lambda>rest. Inr (map_option (Cons g) rest)))"

definition tryParseRequestRuleExpr :: "string \<Rightarrow> parse_exn + RequestRuleGroup list option" where
  "tryParseRequestRuleExpr expr =
     (let trimmed = trim expr
      in if trimmed = [] then Inr (Some []) else parse_factors (splitTopLevelMultiply trimmed))"

section \<open>Combining and splitting\<close>

text \<open>The \<open>forEach\<close> of \<open>splitBillingExprAndRequestRules\<close>: rule parts and base parts.\<close>

fun classify_parts :: "string list \<Rightarrow> parse_exn + (string list \<times> string list)" where
  "classify_parts [] = Inr ([], [])"
| "classify_parts (p # ps) =
     sbind (tryParseRequestRuleExpr p) (\<lambda>parsed.
       sbind (classify_parts ps) (\<lambda>(rs, bs).
         Inr (if parsed \<noteq> None \<and> the parsed \<noteq> [] then (p # rs, bs) else (rs, p # bs))))"

record SplitBillingExpr =
  sb_billingExpr :: string
  sb_requestRuleExpr :: string

definition splitBillingExprAndRequestRules :: "string \<Rightarrow> parse_exn + SplitBillingExpr" where
  "splitBillingExprAndRequestRules expr =
     (let trimmed = trim expr
      in if trimmed = [] then Inr \<lparr>sb_billingExpr = [], sb_requestRuleExpr = []\<rparr>
         else let parts = splitTopLevelMultiply trimmed
              in if length parts \<le> 1 then Inr \<lparr>sb_billingExpr = trimmed, sb_requestRuleExpr = []\<rparr>
                 else sbind (classify_parts parts) (\<lambda>(ruleParts, baseParts).
                        if ruleParts = [] \<or> length baseParts \<noteq> 1
                        then Inr \<lparr>sb_billingExpr = trimmed, sb_requestRuleExpr = []\<rparr>
                        else Inr \<lparr>sb_billingExpr = unwrapOuterParens (hd baseParts),
                                  sb_requestRuleExpr = join '' * '' ruleParts\<rparr>))"

definition combineBillingExpr :: "string \<Rightarrow> string \<Rightarrow> string" where
  "combineBillingExpr baseExpr requestRuleExpr =
     (let base = trim baseExpr; rules = trim requestRuleExpr
      in if base = [] then [] else if rules = [] then base else ''('' @ base @ '') * '' @ rules)"

section \<open>The editor\<close>

definition createEmptyCondition :: ParamHeaderCondition where
  "createEmptyCondition = \<lparr>ph_source = ''param'', ph_path = [], ph_mode = MATCH_EQ, ph_value = []\<rparr>"

definition createEmptyTimeCondition :: TimeCondition where
  "createEmptyTimeCondition =
     \<lparr>tm_timeFunc = ''hour'', tm_timezone = ''Asia/Shanghai'', tm_mode = MATCH_GTE, tm_value = [],
      tm_rangeStart = [], tm_rangeEnd = []\<rparr>"

definition createEmptyRuleGroup :: RequestRuleGroup where
  "createEmptyRuleGroup = \<lparr>rg_conditions = [ParamHeader createEmptyCondition], rg_multiplier = []\<rparr>"

record MatchOption =
  mo_value :: string
  mo_labelKey :: string

definition getRequestRuleMatchOptions :: "string \<Rightarrow> MatchOption list" where
  "getRequestRuleMatchOptions source =
     (if source = SOURCE_TIME then
        [\<lparr>mo_value = MATCH_EQ, mo_labelKey = ''Equals''\<rparr>,
         \<lparr>mo_value = MATCH_GTE, mo_labelKey = ''Greater than or equal''\<rparr>,
         \<lparr>mo_value = MATCH_LT, mo_labelKey = ''Less than''\<rparr>,
         \<lparr>mo_value = MATCH_RANGE, mo_labelKey = ''Overnight range''\<rparr>]
      else
        let base = [\<lparr>mo_value = MATCH_EQ, mo_labelKey = ''Equals''\<rparr>,
                    \<lparr>mo_value = MATCH_CONTAINS, mo_labelKey = ''Contains''\<rparr>,
                    \<lparr>mo_value = MATCH_EXISTS, mo_labelKey = ''Exists''\<rparr>]
        in if source = SOURCE_HEADER then base
           else base @
             [\<lparr>mo_value = MATCH_GT, mo_labelKey = ''Greater than''\<rparr>,
              \<lparr>mo_value = MATCH_GTE, mo_labelKey = ''Greater than or equal''\<rparr>,
              \<lparr>mo_value = MATCH_LT, mo_labelKey = ''Less than''\<rparr>,
              \<lparr>mo_value = MATCH_LTE, mo_labelKey = ''Less than or equal''\<rparr>])"

definition isTimeFunc :: "string option \<Rightarrow> bool" where
  "isTimeFunc v \<longleftrightarrow> (case v of None \<Rightarrow> False | Some s \<Rightarrow> s \<in> set TIME_FUNCS)"

text \<open>\<open>Partial<RequestCondition>\<close>: every property may be missing (\<open>undefined\<close> or \<open>null\<close>).\<close>

record PartialCondition =
  pc_source :: "string option"
  pc_path :: "string option"
  pc_timeFunc :: "string option"
  pc_timezone :: "string option"
  pc_mode :: "string option"
  pc_value :: "string option"
  pc_rangeStart :: "string option"
  pc_rangeEnd :: "string option"

definition opt_or :: "string option \<Rightarrow> string \<Rightarrow> string" where
  "opt_or v d = (case v of None \<Rightarrow> d | Some s \<Rightarrow> str_or s d)"

definition opt_string :: "string option \<Rightarrow> string" where
  "opt_string v = (case v of None \<Rightarrow> [] | Some s \<Rightarrow> s)"

definition allowed_mode :: "string \<Rightarrow> string option \<Rightarrow> string \<Rightarrow> string" where
  "allowed_mode source m d =
     (if list_ex (\<lambda>item. Some (mo_value item) = m) (getRequestRuleMatchOptions source) then the m else d)"

definition partial_none :: PartialCondition where
  "partial_none = \<lparr>pc_source = None, pc_path = None, pc_timeFunc = None, pc_timezone = None,
     pc_mode = None, pc_value = None, pc_rangeStart = None, pc_rangeEnd = None\<rparr>"

definition normalizeCondition :: "PartialCondition option \<Rightarrow> RequestCondition" where
  "normalizeCondition c =
     (let cond = (case c of None \<Rightarrow> partial_none | Some p \<Rightarrow> p);
          source = (if pc_source cond = Some ''time'' then ''time''
                    else if pc_source cond = Some ''header'' then ''header'' else ''param'')
      in if source = ''time'' then
           Time \<lparr>tm_timeFunc = (if isTimeFunc (pc_timeFunc cond) then the (pc_timeFunc cond) else ''hour''),
                 tm_timezone = opt_or (pc_timezone cond) ''Asia/Shanghai'',
                 tm_mode = allowed_mode SOURCE_TIME (pc_mode cond) MATCH_GTE,
                 tm_value = opt_string (pc_value cond),
                 tm_rangeStart = opt_string (pc_rangeStart cond),
                 tm_rangeEnd = opt_string (pc_rangeEnd cond)\<rparr>
         else
           ParamHeader \<lparr>ph_source = source,
                 ph_path = opt_or (pc_path cond) [],
                 ph_mode = allowed_mode source (pc_mode cond) MATCH_EQ,
                 ph_value = opt_string (pc_value cond)\<rparr>)"

text \<open>A full condition seen as a partial one.\<close>

fun partial_of :: "RequestCondition \<Rightarrow> PartialCondition" where
  "partial_of (Time t) =
     \<lparr>pc_source = Some ''time'', pc_path = None, pc_timeFunc = Some (tm_timeFunc t),
      pc_timezone = Some (tm_timezone t), pc_mode = Some (tm_mode t), pc_value = Some (tm_value t),
      pc_rangeStart = Some (tm_rangeStart t), pc_rangeEnd = Some (tm_rangeEnd t)\<rparr>"
| "partial_of (ParamHeader p) =
     \<lparr>pc_source = Some (ph_source p), pc_path = Some (ph_path p), pc_timeFunc = None,
      pc_timezone = None, pc_mode = Some (ph_mode p), pc_value = Some (ph_value p),
      pc_rangeStart = None, pc_rangeEnd = None\<rparr>"

section \<open>Building expressions\<close>

definition buildExprLiteral :: "string \<Rightarrow> string \<Rightarrow> string" where
  "buildExprLiteral mode v =
     (let text = trim v
      in if mode = MATCH_CONTAINS then json_quote text
         else if text = ''true'' \<or> text = ''false'' then text
         else if rx_test NUMERIC_LITERAL_REGEX text then text
         else json_quote text)"

definition time_op :: "string \<Rightarrow> string" where
  "time_op mode =
     (case map_of [(MATCH_EQ, ''==''), (MATCH_GTE, ''>=''), (MATCH_LT, ''<'')] mode of
        Some op \<Rightarrow> op | None \<Rightarrow> ''=='')"

text \<open>The argument is a time condition, so the normalisation returns one.\<close>

definition buildTimeConditionExpr :: "TimeCondition \<Rightarrow> string" where
  "buildTimeConditionExpr cond =
     (case normalizeCondition (Some (partial_of (Time cond))) of
        ParamHeader _ \<Rightarrow> []
      | Time n \<Rightarrow>
          let fn = tm_timeFunc n @ ''('' @ json_quote (tm_timezone n) @ '')''
          in if tm_mode n = MATCH_RANGE then
               let s = trim (tm_rangeStart n); e = trim (tm_rangeEnd n)
               in if \<not> rx_test NUMERIC_LITERAL_REGEX s \<or> \<not> rx_test NUMERIC_LITERAL_REGEX e then []
                  else fn @ '' >= '' @ s @ '' || '' @ fn @ '' < '' @ e
             else
               let v = trim (tm_value n)
               in if \<not> rx_test NUMERIC_LITERAL_REGEX v then []
                  else fn @ '' '' @ time_op (tm_mode n) @ '' '' @ v)"

definition cmp_op :: "string \<Rightarrow> string" where
  "cmp_op mode =
     the (map_of [(MATCH_GT, ''>''), (MATCH_GTE, ''>=''), (MATCH_LT, ''<''), (MATCH_LTE, ''<='')] mode)"

definition build_param_header :: "ParamHeaderCondition \<Rightarrow> string" where
  "build_param_header n =
     (let path = trim (ph_path n)
      in if path = [] then []
         else
           let sourceExpr = (if ph_source n = ''header'' then ''header('' @ json_quote path @ '')''
                             else ''param('' @ json_quote path @ '')'');
               literal = buildExprLiteral (ph_mode n) (ph_value n)
           in if ph_mode n = MATCH_EXISTS then
                sourceExpr @ (if ph_source n = ''header'' then '' != \"\"'' else '' != nil'')
              else if ph_mode n = MATCH_CONTAINS then
                (if ph_source n = ''header'' then ''has('' @ sourceExpr @ '', '' @ literal @ '')''
                 else sourceExpr @ '' != nil && has('' @ sourceExpr @ '', '' @ literal @ '')'')
              else if ph_mode n \<in> {MATCH_GT, MATCH_GTE, MATCH_LT, MATCH_LTE} then
                (let numText = trim (ph_value n)
                 in if \<not> rx_test NUMERIC_LITERAL_REGEX numText then []
                    else sourceExpr @ '' != nil && '' @ sourceExpr @ '' '' @ cmp_op (ph_mode n) @ '' '' @ numText)
              else sourceExpr @ '' == '' @ literal)"

definition buildRequestConditionExpr :: "RequestCondition \<Rightarrow> string" where
  "buildRequestConditionExpr cond =
     (case cond of
        Time t \<Rightarrow> buildTimeConditionExpr t
      | ParamHeader _ \<Rightarrow>
          (case normalizeCondition (Some (partial_of cond)) of
             ParamHeader n \<Rightarrow> build_param_header n
           | Time _ \<Rightarrow> []))"

definition buildRuleGroupFactor :: "RequestRuleGroup \<Rightarrow> string" where
  "buildRuleGroupFactor g =
     (let multiplier = trim (rg_multiplier g)
      in if \<not> rx_test NUMERIC_LITERAL_REGEX multiplier then []
         else
           let condExprs = filter_boolean (map buildRequestConditionExpr (rg_conditions g))
           in if condExprs = [] then []
              else
                let combined =
                      (if length condExprs = 1 then hd condExprs
                       else join '' && ''
                         (map (\<lambda>e. if str_includes '' || '' e then ''('' @ e @ '')'' else e) condExprs))
                in ''('' @ combined @ '' ? '' @ multiplier @ '' : 1)'')"

definition buildRequestRuleExpr :: "RequestRuleGroup list \<Rightarrow> string" where
  "buildRequestRuleExpr groups = join '' * '' (filter_boolean (map buildRuleGroupFactor groups))"

section \<open>Numbers and texts that print plainly\<close>

lemma numeric_literal_class:
  assumes "rx_test NUMERIC_LITERAL_REGEX t"
  shows "t \<noteq> [] \<and> list_all num_class t"
proof -
  let ?r = "Alt (seqs [digits_rx, Opt (lit ''.''), Star (Cls is_digit)]) (Seq (lit ''.'') digits_rx)"
  let ?e = "Opt (seqs [Cls (\<lambda>x. x \<in> set ''eE''), Opt (Cls (\<lambda>x. x \<in> set ''+-'')), digits_rx])"
  have within: "rx_within num_class (seqs [Opt (lit ''-''), ?r, ?e, Eol])"
    by (simp add: digits_rx_def Plus_def num_class_def)
  obtain st where st: "st \<in> set (rxm (seqs [Opt (lit ''-''), ?r, ?e, Eol]) ([], t, Map.empty))"
    using assms unfolding NUMERIC_LITERAL_REGEX_def seqs.simps(2) [of Bol] rx_test_anchored
    by (metis last_in_set)
  then obtain w where w: "ahead ([], t, Map.empty) = w @ ahead st" "list_all num_class w"
    using rx_within_match [OF within] by blast
  obtain st1 st2 st3 where 1: "st1 \<in> set (rxm (Opt (lit ''-'')) ([], t, Map.empty))" 
    and 2: "st2 \<in> set (rxm ?r st1)" and 3: "st3 \<in> set (rxm ?e st2)" and 4: "st \<in> set (rxm Eol st3)"
    using st by (auto simp del: rxm.simps(4,5))
  have "ahead st = []" using 4 by (cases st3) (auto simp: ahead_def split: if_splits)
  then have t: "t = w" using w by (simp add: ahead_def)
  have "t \<noteq> []"
  proof
    assume "t = []"
    then have "st1 = ([], [], Map.empty)" using 1 by (simp add: rxm_lit progress_def split: if_splits)
    then show False using 2 by (simp add: digits_rx_def Plus_def)
  qed
  then show ?thesis using t w by simp
qed

text \<open>Text that needs no escape in a string literal and does not disturb the splitting.\<close>

definition plain_char :: "char \<Rightarrow> bool" where
  "plain_char x \<longleftrightarrow> 32 \<le> (of_char x :: nat) \<and> x \<notin> {CHR 0x22, CHR 0x5C, CHR ''('', CHR '')'', CHR ''&'', CHR ''|''}"

definition plain_text :: "string \<Rightarrow> bool" where
  "plain_text t \<longleftrightarrow> t \<noteq> [] \<and> trim t = t \<and> list_all plain_char t"

lemma json_escape_plain: "plain_char c \<Longrightarrow> json_escape c = [c]"
proof -
  assume c: "plain_char c"
  then have "c \<notin> {CHR 0x08, CHR 0x0C, CHR 0x0A, CHR 0x0D, CHR 0x09, CHR 0x22, CHR 0x5C}"
    by (intro notI; elim insertE emptyE) (simp_all add: plain_char_def)
  then show ?thesis using c by (simp add: json_escape_def plain_char_def)
qed

lemma json_quote_plain: "list_all plain_char t \<Longrightarrow> json_quote t = [CHR 0x22] @ t @ [CHR 0x22]"
proof -
  assume "list_all plain_char t"
  then have "concat (map json_escape t) = t" by (induction t) (simp_all add: json_escape_plain)
  then show ?thesis by (simp add: json_quote_def)
qed

lemma list_all_mono: "list_all p w \<Longrightarrow> (\<And>x. p x \<Longrightarrow> q x) \<Longrightarrow> list_all q w"
  by (induction w) auto

lemma plain_not_quote: "list_all plain_char t \<Longrightarrow> list_all not_quote t"
  by (erule list_all_mono) (auto simp: plain_char_def not_quote_def)


section \<open>Reading a printed condition\<close>

lemmas rx_run = rxm_rxk rx_match_anchored alts.simps lit.simps seqs.simps

lemma not_quote_eval [rx_eval]:
  "\<not> not_quote CHR 0x22"
  "not_quote x \<Longrightarrow> (x = CHR 0x22) = False"
  by (auto simp: not_quote_def)

lemma num_class_eval [rx_eval]:
  "\<not> num_class CHR '' ''"
  "\<not> num_class CHR '')''"
  "num_class x \<Longrightarrow> (x = CHR '' '') = False"
  "num_class x \<Longrightarrow> (x = CHR '')'') = False"
  by (auto simp: num_class_def is_digit_def)

lemma not_time_condition:
  assumes "s = CHR ''h'' # CHR ''e'' # u \<or> s = CHR ''h'' # CHR ''a'' # u \<or> s = CHR ''p'' # u"
  shows "tryParseTimeCondition s = None"
  using assms
  by (elim disjE) (simp_all add: tryParseTimeCondition_def time_range_rx_def time_cmp_rx_def
    time_func_rx_def TIME_FUNCS_def rx_run rx_eval)

lemma parse_header_exists:
  assumes "list_all not_quote path" "path \<noteq> []"
  shows "tryParseRequestCondition (''header(\"'' @ path @ ''\") != \"\"'') =
    Inr (Some (ParamHeader \<lparr>ph_source = ''header'', ph_path = path, ph_mode = MATCH_EXISTS, ph_value = []\<rparr>))"
  using assms
  by (simp add: tryParseRequestCondition_def not_time_condition header_exists_rx_def rx_run rx_eval cap_def)

lemma parse_param_exists:
  assumes "list_all not_quote path" "path \<noteq> []"
  shows "tryParseRequestCondition (''param(\"'' @ path @ ''\") != nil'') =
    Inr (Some (ParamHeader \<lparr>ph_source = ''param'', ph_path = path, ph_mode = MATCH_EXISTS, ph_value = []\<rparr>))"
  using assms
  by (simp add: tryParseRequestCondition_def not_time_condition header_exists_rx_def
    param_exists_rx_def rx_run rx_eval cap_def)

lemma rxk_string_literal [rx_eval]:
  assumes "list_all plain_char w"
  shows "rxk string_literal_rx k (pre, CHR 0x22 # w @ CHR 0x22 # r, c) =
      k (CHR 0x22 # rev w @ CHR 0x22 # pre, r, c)"
proof -
  have p: "x \<noteq> CHR 0x22 \<and> x \<noteq> CHR 0x5C" if "plain_char x" for x using that by (simp add: plain_char_def)
  show ?thesis unfolding string_literal_rx_def seqs.simps rxk_simps
    by (subst rxk_star_det [where p = plain_char]) (auto simp: assms rxk_simps dest: p)
qed

lemma parse_header_contains:
  assumes "list_all not_quote path" "path \<noteq> []" "list_all plain_char v"
  shows "tryParseRequestCondition (''has(header(\"'' @ path @ ''\"), \"'' @ v @ ''\")'') =
    Inr (Some (ParamHeader \<lparr>ph_source = ''header'', ph_path = path, ph_mode = MATCH_CONTAINS, ph_value = v\<rparr>))"
proof -
  have j: "json_parse (CHR 0x22 # v @ [CHR 0x22]) = Some (JStr v)"
    using json_parse_quote [of v] json_quote_plain [OF assms(3)] by simp
  show ?thesis using assms
  by (simp add: tryParseRequestCondition_def not_time_condition header_exists_rx_def
    param_exists_rx_def header_contains_rx_def rx_run rx_eval cap_def parse_contains_value_def j)
qed

lemma parse_eq:
  assumes "list_all not_quote path" "path \<noteq> []" "list_all (\<lambda>x. \<not> is_line_terminator x) l" "l \<noteq> []"
    and "parseExprLiteral l = Some v" and "src = ''header'' \<or> src = ''param''"
  shows "tryParseRequestCondition (src @ ''(\"'' @ path @ ''\") == '' @ l) =
    Inr (Some (ParamHeader \<lparr>ph_source = src, ph_path = path, ph_mode = MATCH_EQ, ph_value = js_to_string v\<rparr>))"
  using assms(6,1-5)
  by (elim disjE) (simp_all add: tryParseRequestCondition_def not_time_condition header_exists_rx_def
    param_exists_rx_def header_contains_rx_def parse_param_contains_def param_contains_rx_def
    parse_param_cmp_def param_cmp_rx_def parse_eq_condition_def eq_rx_def rx_run rx_eval cap_def)

lemma parse_time_range:
  assumes "f \<in> set TIME_FUNCS" "list_all not_quote tz" "tz \<noteq> []"
    "list_all num_class a" "a \<noteq> []" "list_all num_class b" "b \<noteq> []"
  defines "e \<equiv> f @ ''(\"'' @ tz @ ''\") >= '' @ a @ '' || '' @ f @ ''(\"'' @ tz @ ''\") < '' @ b"
  defines "t \<equiv> \<lparr>tm_timeFunc = f, tm_timezone = tz, tm_mode = MATCH_RANGE, tm_value = [],
      tm_rangeStart = a, tm_rangeEnd = b\<rparr>"
  shows "tryParseRequestCondition e = Inr (Some (Time t))"
    and "tryParseRequestCondition (''('' @ e @ '')'') = Inr (Some (Time t))"
  using assms(1-7) unfolding e_def t_def
  by (auto simp: tryParseRequestCondition_def tryParseTimeCondition_def time_range_rx_def
    time_func_rx_def TIME_FUNCS_def rx_run rx_eval cap_def time_range_condition_def)

lemma parse_time_cmp:
  assumes "f \<in> set TIME_FUNCS" "list_all not_quote tz" "tz \<noteq> []" "list_all num_class a" "a \<noteq> []"
    and "op \<in> {''=='', ''>='', ''<''}"
  shows "tryParseRequestCondition (f @ ''(\"'' @ tz @ ''\") '' @ op @ '' '' @ a) =
    Inr (Some (Time \<lparr>tm_timeFunc = f, tm_timezone = tz, tm_mode = time_op_mode op, tm_value = a,
      tm_rangeStart = [], tm_rangeEnd = []\<rparr>))"
  using assms
  by (auto simp: tryParseRequestCondition_def tryParseTimeCondition_def time_range_rx_def
    time_cmp_rx_def time_func_rx_def TIME_FUNCS_def rx_run rx_eval cap_def)

section \<open>Conditions that survive printing and parsing\<close>

definition numeric :: "string \<Rightarrow> bool" where
  "numeric t \<longleftrightarrow> rx_test NUMERIC_LITERAL_REGEX t"

definition ok_time :: "TimeCondition \<Rightarrow> bool" where
  "ok_time t \<longleftrightarrow> tm_timeFunc t \<in> set TIME_FUNCS \<and> plain_text (tm_timezone t) \<and>
     (tm_mode t = MATCH_RANGE \<and> tm_value t = [] \<and> numeric (tm_rangeStart t) \<and> numeric (tm_rangeEnd t) \<or>
      tm_mode t \<in> {MATCH_EQ, MATCH_GTE, MATCH_LT} \<and> numeric (tm_value t) \<and> tm_rangeStart t = [] \<and> tm_rangeEnd t = [])"

definition ok_param_header :: "ParamHeaderCondition \<Rightarrow> bool" where
  "ok_param_header p \<longleftrightarrow> ph_source p \<in> {''param'', ''header''} \<and> plain_text (ph_path p) \<and>
     (ph_mode p = MATCH_EXISTS \<and> ph_value p = [] \<or>
      ph_mode p = MATCH_CONTAINS \<and> ph_source p = ''header'' \<and> trim (ph_value p) = ph_value p \<and> list_all plain_char (ph_value p) \<or>
      ph_mode p = MATCH_EQ \<and> trim (ph_value p) = ph_value p \<and> list_all plain_char (ph_value p))"

fun ok_condition :: "RequestCondition \<Rightarrow> bool" where
  "ok_condition (Time t) \<longleftrightarrow> ok_time t"
| "ok_condition (ParamHeader p) \<longleftrightarrow> ok_param_header p"

definition ok_group :: "RequestRuleGroup \<Rightarrow> bool" where
  "ok_group g \<longleftrightarrow> rg_conditions g \<noteq> [] \<and> list_all ok_condition (rg_conditions g) \<and> numeric (rg_multiplier g)"

definition quiet :: "string \<Rightarrow> bool" where
  "quiet w \<longleftrightarrow> list_all (\<lambda>x. x \<notin> set ''()&|'') w"

lemma quiet_plain: "list_all plain_char w \<Longrightarrow> quiet w"
  unfolding quiet_def by (erule list_all_mono) (auto simp: plain_char_def)

lemma quiet_num: "list_all num_class w \<Longrightarrow> quiet w"
  unfolding quiet_def by (erule list_all_mono) (auto simp: num_class_def is_digit_def)

lemma numericD: "numeric t \<Longrightarrow> t \<noteq> []" "numeric t \<Longrightarrow> list_all num_class t"
  using numeric_literal_class by (auto simp: numeric_def)

lemma trim_no_ws': "list_all (\<lambda>x. \<not> is_ws x) t \<Longrightarrow> trim t = t"
  by (cases "t = []") (auto intro!: trim_id simp: list_all_iff)

lemma num_class_not_ws: "num_class x \<Longrightarrow> \<not> is_ws x"
  by (auto simp: num_class_def is_digit_def is_ws_def)

lemma numeric_trim: "numeric t \<Longrightarrow> trim t = t"
  by (rule trim_no_ws') (use numericD(2) [of t] num_class_not_ws in \<open>auto simp: list_all_iff\<close>)

lemma numeric_last: "numeric t \<Longrightarrow> \<not> is_ws (last t)"
  using numericD [of t] num_class_not_ws by (auto simp: list_all_iff)

lemma balanced_quiet: "quiet w \<Longrightarrow> 0 \<le> d \<Longrightarrow> balanced d (w @ r) = balanced d r"
  by (induction w) (auto simp: quiet_def depth_step_def)

lemma balanced_quiet_end: "quiet w \<Longrightarrow> balanced 0 w"
  using balanced_quiet [of w 0 "[]"] by simp

lemma quiet_notin: "quiet w \<Longrightarrow> CHR ''&'' \<notin> set w" "quiet w \<Longrightarrow> CHR ''|'' \<notin> set w"
  by (auto simp: quiet_def list_all_iff)

text \<open>\<open>reads_as e c\<close>: \<open>e\<close> parses to \<open>c\<close>, also inside the parentheses that the printer adds, and
  the splitters leave it whole.\<close>

definition reads_as :: "string \<Rightarrow> RequestCondition \<Rightarrow> bool" where
  "reads_as e c \<longleftrightarrow> tryParseRequestCondition e = Inr (Some c) \<and> e \<noteq> [] \<and> trim e = e \<and> balanced 0 e \<and>
     CHR ''&'' \<notin> set e \<and>
     (CHR ''|'' \<in> set e \<longrightarrow> tryParseRequestCondition (''('' @ e @ '')'') = Inr (Some c))"

lemma last_num_text: "numeric a \<Longrightarrow> \<not> is_ws (last (u @ a))"
  using numericD(1) [of a] numeric_last [of a] by simp

lemma time_func_hd: "f \<in> set TIME_FUNCS \<Longrightarrow> f \<noteq> [] \<and> \<not> is_ws (hd f) \<and> quiet f"
  by (auto simp: TIME_FUNCS_def is_ws_def quiet_def)

lemma reads_time_range:
  assumes f: "f \<in> set TIME_FUNCS" and tz: "plain_text tz" and a: "numeric a" and b: "numeric b"
  shows "reads_as (f @ ''(\"'' @ tz @ ''\") >= '' @ a @ '' || '' @ f @ ''(\"'' @ tz @ ''\") < '' @ b)
    (Time \<lparr>tm_timeFunc = f, tm_timezone = tz, tm_mode = MATCH_RANGE, tm_value = [],
      tm_rangeStart = a, tm_rangeEnd = b\<rparr>)"
proof -
  let ?e = "f @ ''(\"'' @ tz @ ''\") >= '' @ a @ '' || '' @ f @ ''(\"'' @ tz @ ''\") < '' @ b"
  have q: "quiet f" "quiet tz" "quiet a" "quiet b"
    using time_func_hd [OF f] tz quiet_plain quiet_num numericD(2) [OF a] numericD(2) [OF b]
    by (auto simp: plain_text_def)
  have "balanced 0 ?e" using q by (simp add: balanced_quiet balanced_quiet_end depth_step_def)
  moreover have "CHR ''&'' \<notin> set ?e" using q by (simp add: quiet_notin)
  moreover have "trim ?e = ?e"
    using time_func_hd [OF f] numericD(1) [OF b] numeric_last [OF b] by (intro trim_id) simp
  moreover have "?e \<noteq> []" by simp
  ultimately show ?thesis
    using parse_time_range [OF f, of tz a b] tz plain_not_quote numericD a b
    by (simp add: reads_as_def plain_text_def)
qed

lemma reads_time_cmp:
  assumes f: "f \<in> set TIME_FUNCS" and tz: "plain_text tz" and a: "numeric a" and m: "m \<in> {MATCH_EQ, MATCH_GTE, MATCH_LT}"
  shows "reads_as (f @ ''(\"'' @ tz @ ''\") '' @ time_op m @ '' '' @ a)
    (Time \<lparr>tm_timeFunc = f, tm_timezone = tz, tm_mode = m, tm_value = a, tm_rangeStart = [], tm_rangeEnd = []\<rparr>)"
proof -
  let ?e = "f @ ''(\"'' @ tz @ ''\") '' @ time_op m @ '' '' @ a"
  have op: "time_op m \<in> {''=='', ''>='', ''<''}" "time_op_mode (time_op m) = m"
    using m by (auto simp: time_op_def time_op_mode_def match_defs)
  have q: "quiet f" "quiet tz" "quiet a" "quiet (time_op m)"
    using time_func_hd [OF f] tz quiet_plain quiet_num numericD(2) [OF a] op
    by (auto simp: plain_text_def quiet_def)
  have "balanced 0 ?e" using q by (simp add: balanced_quiet balanced_quiet_end depth_step_def)
  moreover have "CHR ''&'' \<notin> set ?e" "CHR ''|'' \<notin> set ?e" using q by (simp_all add: quiet_notin)
  moreover have "trim ?e = ?e"
    using time_func_hd [OF f] numericD(1) [OF a] numeric_last [OF a] by (intro trim_id) simp
  moreover have "?e \<noteq> []" by simp
  ultimately show ?thesis
    using parse_time_cmp [OF f, of tz a "time_op m"] tz plain_not_quote numericD a op
    by (simp add: reads_as_def plain_text_def)
qed

lemma reads_quoted:
  assumes "tryParseRequestCondition (pre @ path @ post) = Inr (Some c)"
    and "plain_text path" and "\<not> is_ws (hd pre)" "\<not> is_ws (last post)" "pre \<noteq> []" "post \<noteq> []"
    and "balanced 0 (pre @ path @ post)" and "CHR ''&'' \<notin> set (pre @ post)" "CHR ''|'' \<notin> set (pre @ post)"
  shows "reads_as (pre @ path @ post) c"
proof -
  have "quiet path" using assms(2) quiet_plain by (auto simp: plain_text_def)
  then show ?thesis using assms by (auto simp: reads_as_def quiet_notin intro!: trim_id)
qed


lemma plain_textD: "plain_text t \<Longrightarrow> list_all plain_char t" "plain_text t \<Longrightarrow> trim t = t"
  "plain_text t \<Longrightarrow> t \<noteq> []" "plain_text t \<Longrightarrow> list_all not_quote t"
  by (auto simp: plain_text_def plain_not_quote)

lemma plain_char_line: "plain_char x \<Longrightarrow> \<not> is_line_terminator x"
  unfolding is_line_terminator_def by (intro notI; elim disjE) (simp_all add: plain_char_def)

lemma eq_literal:
  assumes "trim v = v" "list_all plain_char v"
  defines "l \<equiv> buildExprLiteral MATCH_EQ v"
  shows "parseExprLiteral l = Some (JStr v)" "l \<noteq> []" "\<not> is_ws (last l)" "quiet l"
    "list_all (\<lambda>x. \<not> is_line_terminator x) l"
proof -
  have line: "list_all (\<lambda>x. \<not> is_line_terminator x) v"
    using assms(2) by (rule list_all_mono) (rule plain_char_line)
  have "parseExprLiteral l = Some (JStr v) \<and> l \<noteq> [] \<and> \<not> is_ws (last l) \<and> quiet l \<and>
    list_all (\<lambda>x. \<not> is_line_terminator x) l"
  proof (cases "v = ''true'' \<or> v = ''false''")
    case True
    then show ?thesis
      by (elim disjE) (simp_all add: l_def buildExprLiteral_def parseExprLiteral_def match_defs trim_id
        is_ws_def quiet_def is_line_terminator_def)
  next
    case nt: False
    show ?thesis
    proof (cases "numeric v")
      case True
      then have "l = v" using assms(1) nt by (simp add: l_def buildExprLiteral_def numeric_def match_defs)
      then show ?thesis using True assms nt line numericD(1) numeric_last quiet_plain
        by (simp add: parseExprLiteral_def numeric_def)
    next
      case False
      then have l: "l = json_quote v"
        using assms(1) nt by (simp add: l_def buildExprLiteral_def numeric_def match_defs)
      have q: "json_quote v = [CHR 0x22] @ v @ [CHR 0x22]" using json_quote_plain [OF assms(2)] .
      have "trim l = l" unfolding l q by (rule trim_id) (simp add: is_ws_def)
      moreover have "\<not> numeric l" using numericD(2) [of l] by (auto simp: l q num_class_def is_digit_def)
      moreover have "l \<noteq> ''true''" "l \<noteq> ''false''" by (simp_all add: l q)
      ultimately have "parseExprLiteral l = Some (JStr v)"
        using json_parse_quote [of v] by (simp add: parseExprLiteral_def numeric_def Let_def l)
      then show ?thesis using line quiet_plain [OF assms(2)]
        by (simp add: l q is_ws_def quiet_def is_line_terminator_def)
    qed
  qed
  then show "parseExprLiteral l = Some (JStr v)" "l \<noteq> []" "\<not> is_ws (last l)" "quiet l"
    "list_all (\<lambda>x. \<not> is_line_terminator x) l" by auto
qed

lemma reads_exists:
  assumes "plain_text path"
  shows "reads_as (''header(\"'' @ path @ ''\") != \"\"'')
      (ParamHeader \<lparr>ph_source = ''header'', ph_path = path, ph_mode = MATCH_EXISTS, ph_value = []\<rparr>)"
    and "reads_as (''param(\"'' @ path @ ''\") != nil'')
      (ParamHeader \<lparr>ph_source = ''param'', ph_path = path, ph_mode = MATCH_EXISTS, ph_value = []\<rparr>)"
proof -
  note p = plain_textD [OF assms]
  have q: "quiet path" using p(1) by (rule quiet_plain)
  show "reads_as (''header(\"'' @ path @ ''\") != \"\"'')
      (ParamHeader \<lparr>ph_source = ''header'', ph_path = path, ph_mode = MATCH_EXISTS, ph_value = []\<rparr>)"
    by (rule reads_quoted [OF parse_header_exists [OF p(4,3)] assms])
      (use q in \<open>simp_all add: is_ws_def balanced_quiet depth_step_def\<close>)
  show "reads_as (''param(\"'' @ path @ ''\") != nil'')
      (ParamHeader \<lparr>ph_source = ''param'', ph_path = path, ph_mode = MATCH_EXISTS, ph_value = []\<rparr>)"
    by (rule reads_quoted [OF parse_param_exists [OF p(4,3)] assms])
      (use q in \<open>simp_all add: is_ws_def balanced_quiet depth_step_def\<close>)
qed

lemma reads_contains:
  assumes "plain_text path" and "list_all plain_char v"
  shows "reads_as (''has(header(\"'' @ path @ ''\"), \"'' @ v @ ''\")'')
    (ParamHeader \<lparr>ph_source = ''header'', ph_path = path, ph_mode = MATCH_CONTAINS, ph_value = v\<rparr>)"
proof -
  note p = plain_textD [OF assms(1)]
  have q: "quiet path" "quiet v" using p(1) assms(2) by (auto intro: quiet_plain)
  show ?thesis
    by (rule reads_quoted [OF parse_header_contains [OF p(4,3) assms(2)] assms(1)])
      (use q in \<open>simp_all add: is_ws_def balanced_quiet depth_step_def quiet_notin\<close>)
qed

lemma reads_eq:
  assumes "plain_text path" and "trim v = v" "list_all plain_char v" and src: "src = ''header'' \<or> src = ''param''"
  shows "reads_as (src @ ''(\"'' @ path @ ''\") == '' @ buildExprLiteral MATCH_EQ v)
    (ParamHeader \<lparr>ph_source = src, ph_path = path, ph_mode = MATCH_EQ, ph_value = v\<rparr>)"
proof -
  note p = plain_textD [OF assms(1)] and l = eq_literal [OF assms(2,3)]
  let ?pre = "src @ ''(\"''" and ?post = "''\") == '' @ buildExprLiteral MATCH_EQ v"
  have s: "quiet src" "src \<noteq> []" "\<not> is_ws (hd src)" using src by (auto simp: quiet_def is_ws_def)
  have "tryParseRequestCondition (?pre @ path @ ?post) =
    Inr (Some (ParamHeader \<lparr>ph_source = src, ph_path = path, ph_mode = MATCH_EQ, ph_value = v\<rparr>))"
    using parse_eq [OF p(4,3) l(5,2,1) src] by simp
  then have "reads_as (?pre @ path @ ?post)
    (ParamHeader \<lparr>ph_source = src, ph_path = path, ph_mode = MATCH_EQ, ph_value = v\<rparr>)"
    by (rule reads_quoted [OF _ assms(1)])
      (use l s quiet_plain [OF p(1)] in
        \<open>simp_all add: balanced_quiet balanced_quiet_end depth_step_def quiet_notin\<close>)
  then show ?thesis by simp
qed

section \<open>Normalised conditions\<close>

fun wf_condition :: "RequestCondition \<Rightarrow> bool" where
  "wf_condition (Time t) \<longleftrightarrow> tm_timeFunc t \<in> set TIME_FUNCS \<and> tm_timezone t \<noteq> [] \<and>
     tm_mode t \<in> set (map mo_value (getRequestRuleMatchOptions SOURCE_TIME))"
| "wf_condition (ParamHeader p) \<longleftrightarrow> ph_source p \<in> {''param'', ''header''} \<and>
     ph_mode p \<in> set (map mo_value (getRequestRuleMatchOptions (ph_source p)))"

fun typed_condition :: "RequestCondition \<Rightarrow> bool" where
  "typed_condition (Time t) \<longleftrightarrow> True"
| "typed_condition (ParamHeader p) \<longleftrightarrow> ph_source p \<noteq> ''time''"

lemma allowed_mode_in:
  "d \<in> set (map mo_value (getRequestRuleMatchOptions s)) \<Longrightarrow>
     allowed_mode s m d \<in> set (map mo_value (getRequestRuleMatchOptions s))"
  by (auto simp: allowed_mode_def list_ex_iff)

lemma allowed_mode_id:
  "m \<in> set (map mo_value (getRequestRuleMatchOptions s)) \<Longrightarrow> allowed_mode s (Some m) d = m"
  by (auto simp: allowed_mode_def list_ex_iff)

lemma wf_normalizeCondition: "wf_condition (normalizeCondition c)"
proof -
  have "MATCH_GTE \<in> set (map mo_value (getRequestRuleMatchOptions SOURCE_TIME))"
    "MATCH_EQ \<in> set (map mo_value (getRequestRuleMatchOptions s))" for s
    by (simp_all add: getRequestRuleMatchOptions_def Let_def)
  then show ?thesis
    by (auto simp: normalizeCondition_def Let_def isTimeFunc_def opt_or_def str_or_def TIME_FUNCS_def
      intro!: allowed_mode_in simp del: set_map split: option.splits)
qed

lemma normalizeCondition_wf: "wf_condition c \<Longrightarrow> normalizeCondition (Some (partial_of c)) = c"
  by (cases c) (auto simp: normalizeCondition_def Let_def isTimeFunc_def opt_or_def str_or_def
    opt_string_def allowed_mode_id simp del: set_map)

lemma typed_normalizeCondition: "typed_condition (normalizeCondition c)"
  by (auto simp: normalizeCondition_def Let_def)

interpretation cond_norm: normaliser "\<lambda>c. normalizeCondition (Some (partial_of c))" wf_condition typed_condition
  by unfold_locales (rule wf_normalizeCondition typed_normalizeCondition normalizeCondition_wf, assumption?)+

lemma ok_wf: "ok_condition c \<Longrightarrow> wf_condition c"
  by (cases c) (auto simp: ok_time_def ok_param_header_def plain_text_def getRequestRuleMatchOptions_def match_defs)

section \<open>Round trips\<close>

text \<open>A printer and a parser that agree on the printable values.\<close>

locale codec =
  fixes enc :: "'a \<Rightarrow> string"
    and dec :: "string \<Rightarrow> 'e + 'a option"
    and ok :: "'a \<Rightarrow> bool"
  assumes dec_enc: "ok x \<Longrightarrow> dec (enc x) = Inr (Some x)"
begin

lemma enc_inj: "ok x \<Longrightarrow> ok y \<Longrightarrow> enc x = enc y \<Longrightarrow> x = y"
  by (metis dec_enc old.sum.inject(2) option.inject)

lemma enc_inj_on: "inj_on enc {x. ok x}"
  by (auto intro: inj_onI enc_inj)

lemma dec_total: "ok x \<Longrightarrow> dec (enc x) \<noteq> Inl e"
  by (simp add: dec_enc)

end

lemma build_time_reads:
  assumes "ok_time t"
  shows "reads_as (buildTimeConditionExpr t) (Time t)"
proof -
  obtain f tz m v a b where t: "t = \<lparr>tm_timeFunc = f, tm_timezone = tz, tm_mode = m, tm_value = v,
      tm_rangeStart = a, tm_rangeEnd = b\<rparr>" by (cases t)
  have n: "normalizeCondition (Some (partial_of (Time t))) = Time t"
    by (rule normalizeCondition_wf) (use assms ok_wf [of "Time t"] in simp)
  have f: "f \<in> set TIME_FUNCS" and tz: "plain_text tz" using assms by (auto simp: ok_time_def t)
  note b = buildTimeConditionExpr_def n RequestCondition.case
  show ?thesis
  proof (cases "m = MATCH_RANGE")
    case True
    then have o: "v = []" "numeric a" "numeric b" using assms by (auto simp: ok_time_def t match_defs)
    then show ?thesis unfolding b using reads_time_range [OF f tz o(2,3)] True
      by (simp add: t json_quote_plain plain_textD(1) [OF tz] numeric_trim Let_def flip: numeric_def)
  next
    case False
    then have o: "numeric v" "m \<in> {MATCH_EQ, MATCH_GTE, MATCH_LT}" "a = []" "b = []"
      using assms by (auto simp: ok_time_def t)
    then show ?thesis unfolding b using reads_time_cmp [OF f tz o(1,2)] False
      by (simp add: t json_quote_plain plain_textD(1) [OF tz] numeric_trim Let_def flip: numeric_def)
  qed
qed

lemma build_param_header_reads:
  assumes "ok_param_header p"
  shows "reads_as (build_param_header p) (ParamHeader p)"
proof -
  obtain src path m v where p: "p = \<lparr>ph_source = src, ph_path = path, ph_mode = m, ph_value = v\<rparr>" by (cases p)
  have path: "plain_text path" and src: "src = ''header'' \<or> src = ''param''"
    using assms by (auto simp: ok_param_header_def p)
  note b = p build_param_header_def Let_def json_quote_plain plain_textD [OF path]
  consider (ex) "m = MATCH_EXISTS" "v = []"
    | (co) "m = MATCH_CONTAINS" "src = ''header''" "trim v = v" "list_all plain_char v"
    | (eq) "m = MATCH_EQ" "trim v = v" "list_all plain_char v"
    using assms by (auto simp: ok_param_header_def p)
  then show ?thesis
  proof cases
    case ex
    then show ?thesis using reads_exists [OF path] src by (auto simp: b)
  next
    case co
    then have "m \<noteq> MATCH_EXISTS" by (simp add: match_defs)
    then show ?thesis using reads_contains [OF path co(4)] co by (simp add: b buildExprLiteral_def)
  next
    case eq
    then have "m \<noteq> MATCH_EXISTS" "m \<noteq> MATCH_CONTAINS" "m \<notin> {MATCH_GT, MATCH_GTE, MATCH_LT, MATCH_LTE}"
      by (auto simp: match_defs)
    then show ?thesis using reads_eq [OF path eq(2,3) src] eq src by (auto simp: b)
  qed
qed

lemma build_reads: "ok_condition c \<Longrightarrow> reads_as (buildRequestConditionExpr c) c"
proof (cases c)
  case (ParamHeader p)
  assume "ok_condition c"
  then have "normalizeCondition (Some (partial_of (ParamHeader p))) = ParamHeader p"
    using normalizeCondition_wf ok_wf ParamHeader by blast
  then show ?thesis using build_param_header_reads \<open>ok_condition c\<close> ParamHeader
    by (simp add: buildRequestConditionExpr_def del: partial_of.simps)
qed (simp add: buildRequestConditionExpr_def build_time_reads)

interpretation cond_codec: codec buildRequestConditionExpr tryParseRequestCondition ok_condition
  by unfold_locales (use build_reads in \<open>auto simp: reads_as_def\<close>)

section \<open>Round trip of rule groups\<close>

definition wrap_or :: "string \<Rightarrow> string" where
  "wrap_or e = (if str_includes '' || '' e then ''('' @ e @ '')'' else e)"

definition group_parts :: "RequestRuleGroup \<Rightarrow> string list" where
  "group_parts g =
     (let es = map buildRequestConditionExpr (rg_conditions g)
      in if length es = 1 then es else map wrap_or es)"

lemma clean_balanced:
  assumes "balanced d w" "CHR ''&'' \<notin> set w" "w = [] \<or> \<not> is_ws (last w)"
  shows "clean '' && '' d w"
  using assms
proof (induction w arbitrary: d)
  case (Cons c w)
  then have "clean '' && '' (depth_step c d) w" by (intro Cons.IH) (auto split: if_splits)
  moreover have "\<not> starts_with '' && '' (c # w)" using Cons.prems by (cases w) auto
  moreover have "\<not> starts_with (c # w) '' && ''"
    using Cons.prems by (cases w) (auto simp: is_ws_def)
  ultimately show ?case by (simp add: Let_def)
qed simp

lemma includes_bar: "str_includes '' || '' e \<Longrightarrow> CHR ''|'' \<in> set e"
  by (auto simp: includes_iff)

lemma trim_last: "trim e = e \<Longrightarrow> e \<noteq> [] \<Longrightarrow> \<not> is_ws (last e)"
proof -
  assume e: "trim e = e" "e \<noteq> []"
  define y where "y = dropWhile is_ws (rev (dropWhile is_ws e))"
  have "e = rev y" using e(1) by (simp add: trim_def y_def)
  moreover from this have "y \<noteq> []" using e(2) by auto
  then have "\<not> is_ws (hd y)" unfolding y_def by (rule hd_dropWhile)
  ultimately show ?thesis using e(2) by (simp add: last_rev)
qed

lemma reads_part:
  assumes "reads_as e c"
  shows "tryParseRequestCondition (wrap_or e) = Inr (Some c) \<and> clean '' && '' 0 (wrap_or e) \<and>
    trim (wrap_or e) = wrap_or e \<and> wrap_or e \<noteq> [] \<and> balanced 0 (wrap_or e)"
proof (cases "str_includes '' || '' e")
  case True
  have full: "hasFullOuterParens (''('' @ e @ '')'')"
    using assms by (intro hasFullOuterParens_balanced) (simp add: reads_as_def)
  have "balanced 0 (''('' @ e @ '')'')"
  proof -
    have "balanced (d + 1) (u @ '')'')" if "balanced d u" "0 \<le> d" for d u
      using that
    proof (induction u arbitrary: d)
      case (Cons x u)
      have "depth_step x (d + 1) = depth_step x d + 1" by (simp add: depth_step_def)
      then show ?case using Cons by simp
    qed (simp add: depth_step_def)
    from this [of 0 e] show ?thesis using assms by (simp add: depth_step_def reads_as_def)
  qed
  then show ?thesis
    using True assms includes_bar [OF True] hasFullOuterParens_clean [OF full, of "'' && ''"]
      hasFullOuterParens_trim [OF full]
    by (simp add: wrap_or_def reads_as_def del: clean.simps balanced.simps)
next
  case False
  then show ?thesis using assms trim_last clean_balanced by (auto simp: wrap_or_def reads_as_def)
qed

lemma reads_plain_part: "reads_as e c \<Longrightarrow> clean '' && '' 0 e"
  using trim_last clean_balanced by (auto simp: reads_as_def)

lemma parse_conditions_reads:
  "list_all2 (\<lambda>e c. tryParseRequestCondition e = Inr (Some c) \<and> trim e = e) es cs \<Longrightarrow>
     parse_conditions es = Inr (Some cs)"
  by (induction rule: list_all2_induct) auto

lemma group_parts_good:
  assumes "ok_group g"
  shows "list_all2 (\<lambda>e c. tryParseRequestCondition e = Inr (Some c) \<and> trim e = e) (group_parts g) (rg_conditions g)"
    and "\<forall>e\<in>set (group_parts g). clean '' && '' 0 e \<and> trim e = e \<and> e \<noteq> [] \<and> balanced 0 e"
    and "group_parts g \<noteq> []"
proof -
  have r: "reads_as (buildRequestConditionExpr c) c" if "c \<in> set (rg_conditions g)" for c
    using that assms build_reads by (auto simp: ok_group_def list_all_iff)
  note p = reads_part [OF r] and q = reads_plain_part [OF r] and r' = r [unfolded reads_as_def]
  show "list_all2 (\<lambda>e c. tryParseRequestCondition e = Inr (Some c) \<and> trim e = e) (group_parts g) (rg_conditions g)"
    using p r' by (auto simp: group_parts_def Let_def list_all2_conv_all_nth)
  show "\<forall>e\<in>set (group_parts g). clean '' && '' 0 e \<and> trim e = e \<and> e \<noteq> [] \<and> balanced 0 e"
    using p q r' by (auto simp: group_parts_def Let_def)
  show "group_parts g \<noteq> []" using assms by (simp add: group_parts_def ok_group_def Let_def)
qed

lemma buildRuleGroupFactor_ok:
  assumes "ok_group g"
  shows "buildRuleGroupFactor g = ''('' @ join '' && '' (group_parts g) @ '' ? '' @ rg_multiplier g @ '' : 1)''"
proof -
  let ?es = "map buildRequestConditionExpr (rg_conditions g)"
  have "e \<noteq> []" if "e \<in> set ?es" for e
    using that assms build_reads by (auto simp: ok_group_def list_all_iff reads_as_def)
  then have "filter_boolean ?es = ?es" by (simp add: filter_boolean_id)
  moreover have "?es \<noteq> []" "rx_test NUMERIC_LITERAL_REGEX (rg_multiplier g)" "trim (rg_multiplier g) = rg_multiplier g"
    using assms numeric_trim by (auto simp: ok_group_def numeric_def)
  moreover have "hd ?es = join '' && '' ?es" if "length ?es = 1" using that by (cases ?es) auto
  moreover have "(\<lambda>e. if str_includes '' || '' e then ''('' @ e @ '')'' else e) = wrap_or"
    by (simp add: wrap_or_def fun_eq_iff)
  ultimately show ?thesis
    by (cases "length ?es = 1") (simp_all add: buildRuleGroupFactor_def group_parts_def Let_def)
qed

lemma factor_match:
  assumes "numeric m" "w \<noteq> []"
  shows "\<exists>c. rx_match factor_rx (''('' @ w @ '' ? '' @ m @ '' : 1)'') = Some c \<and> cap c 1 = w \<and> cap c 2 = m"
proof -
  let ?r = "'' ? '' @ m @ '' : 1)''"
  let ?k = "\<lambda>st. rxk (lit '' ? '') (rxk (seqs [Grp 2 (Plus (Cls num_class)), lit '' : 1)'', Eol]) (\<lambda>x. [x])) (set_cap 1 (w @ ?r) st)"
  have bar: "CHR ''?'' \<notin> set (m @ '' : 1)'')" using numericD(2) [OF assms(1)]
    by (auto simp: list_all_iff num_class_def is_digit_def)
  have later: "?k (pre, v, c) = []" if r: "?r = u @ v" "u \<noteq> []" for u v pre c
  proof -
    have "\<not> starts_with '' ? '' v"
    proof
      assume "starts_with '' ? '' v"
      then obtain t where v: "v = '' ? '' @ t" by (auto simp: starts_with_iff)
      obtain x u' where u: "u = x # u'" using r(2) by (cases u) auto
      have eq: "''? '' @ m @ '' : 1)'' = u' @ '' ? '' @ t" using r(1) unfolding u v by auto
      then show False
      proof (cases u')
        case (Cons y u'')
        then have "'' '' @ m @ '' : 1)'' = u'' @ '' ? '' @ t" using eq by simp
        then have "CHR ''?'' \<in> set ('' '' @ m @ '' : 1)'')" by simp
        then show ?thesis using bar by simp
      qed simp
    qed
    then have "rxm (lit '' ? '') (pre, v, c') = []" for c' by (simp only: rxm_lit if_False)
    then show ?thesis by (simp only: rxk_def set_cap_eval list.map concat.simps)
  qed
  have here: "?k (rev w @ ''('', ?r, Map.empty) =
      [(rev (''('' @ w @ ?r), [], Map.empty(1 \<mapsto> w, 2 \<mapsto> m))]"
    using numericD [OF assms(1)] by (simp add: rx_run rx_eval)
  have "first (rxk (Plus (Cls (\<lambda>_. True))) ?k (''('', w @ ?r, Map.empty)) =
      Some (rev (''('' @ w @ ?r), [], Map.empty(1 \<mapsto> w, 2 \<mapsto> m))"
    by (rule first_plus_any, rule assms(2), erule (1) later) (simp only: here first_Cons)
  then show ?thesis
    by (simp add: factor_rx_def rx_match_anchored rxm_rxk rx_eval cap_def)
qed

lemma hd_join: "xs \<noteq> [] \<Longrightarrow> hd xs \<noteq> [] \<Longrightarrow> hd (join sep xs) = hd (hd xs)"
  by (cases xs; cases "tl xs") auto

lemma join_not_Nil: "xs \<noteq> [] \<Longrightarrow> \<forall>x\<in>set xs. x \<noteq> [] \<Longrightarrow> join sep xs \<noteq> []"
  by (cases xs; cases "tl xs") auto

lemma last_join: "xs \<noteq> [] \<Longrightarrow> \<forall>x\<in>set xs. x \<noteq> [] \<Longrightarrow> last (join sep xs) = last (last xs)"
proof (induction sep xs rule: join.induct)
  case (3 sep x y ys)
  have "join sep (y # ys) \<noteq> []" using 3 by (intro join_not_Nil) auto
  then show ?case using 3 by simp
qed auto

lemma balanced_join:
  "quiet sep \<or> sep = '' && '' \<Longrightarrow> \<forall>x\<in>set xs. balanced 0 x \<Longrightarrow> balanced 0 (join sep xs)"
proof (induction sep xs rule: join.induct)
  case (3 sep x y ys)
  then have "balanced 0 sep" by (auto simp: balanced_quiet_end depth_step_def)
  then show ?case using 3 by (auto intro!: balanced_append)
qed auto

lemma factor_good:
  assumes "ok_group g"
  shows "tryParseRuleGroupFactor (buildRuleGroupFactor g) = Inr (Some g)"
    and "hasFullOuterParens (buildRuleGroupFactor g)"
proof -
  note parts = group_parts_good [OF assms]
  let ?w = "join '' && '' (group_parts g)" and ?m = "rg_multiplier g"
  have m: "numeric ?m" using assms by (simp add: ok_group_def)
  have w: "?w \<noteq> []" using parts join_not_Nil by blast
  obtain c where c: "rx_match factor_rx (''('' @ ?w @ '' ? '' @ ?m @ '' : 1)'') = Some c" "cap c 1 = ?w" "cap c 2 = ?m"
    using factor_match [OF m w] by blast
  have "splitTopLevelAnd ?w = group_parts g" using parts(2) by (intro land.split_join) blast
  then have "parse_conditions (splitTopLevelAnd ?w) = Inr (Some (rg_conditions g))"
    using parse_conditions_reads [OF parts(1)] by simp
  then show "tryParseRuleGroupFactor (buildRuleGroupFactor g) = Inr (Some g)"
    using c assms by (simp add: buildRuleGroupFactor_ok tryParseRuleGroupFactor_def ok_group_def)
  have "balanced 0 (?w @ '' ? '' @ ?m @ '' : 1'')"
    using parts(2) quiet_num [OF numericD(2) [OF m]]
    by (intro balanced_append balanced_join) (auto simp: balanced_quiet balanced_quiet_end depth_step_def)
  from hasFullOuterParens_balanced [OF this]
  show "hasFullOuterParens (buildRuleGroupFactor g)" using assms by (simp add: buildRuleGroupFactor_ok)
qed

interpretation group_codec: codec buildRuleGroupFactor tryParseRuleGroupFactor ok_group
  by unfold_locales (rule factor_good(1))

lemma parse_factors_good: "list_all ok_group gs \<Longrightarrow> parse_factors (map buildRuleGroupFactor gs) = Inr (Some gs)"
  by (induction gs) (auto simp: factor_good(1))

lemma full_parens_part:
  "hasFullOuterParens p \<Longrightarrow> clean '' * '' 0 p \<and> trim p = p \<and> p \<noteq> []"
  using hasFullOuterParens_clean [of p "'' * ''"] hasFullOuterParens_trim [of p]
  by (auto simp: hasFullOuterParens_def)

lemma buildRequestRuleExpr_ok:
  "list_all ok_group gs \<Longrightarrow> buildRequestRuleExpr gs = join '' * '' (map buildRuleGroupFactor gs)"
  using factor_good(2) full_parens_part
  by (auto simp: buildRequestRuleExpr_def list_all_iff filter_boolean_id)

lemma trim_join_full:
  assumes "\<forall>p\<in>set ps. hasFullOuterParens p"
  shows "trim (join sep ps) = join sep ps"
proof (cases "ps = []")
  case False
  then have "hasFullOuterParens (hd ps)" "hasFullOuterParens (last ps)" using assms by simp_all
  moreover have "\<forall>p\<in>set ps. p \<noteq> []" using assms by (auto simp: hasFullOuterParens_def)
  ultimately show ?thesis using False
    by (intro trim_id disjI2)
      (auto simp: hd_join last_join hasFullOuterParens_def starts_with_single ends_with_single is_ws_def)
qed simp

lemma split_factors:
  assumes "\<forall>p\<in>set ps. hasFullOuterParens p"
  shows "splitTopLevelMultiply (join '' * '' ps) = ps"
  using assms full_parens_part by (intro mul.split_join) blast

lemma rules_roundtrip:
  assumes "list_all ok_group gs"
  shows "tryParseRequestRuleExpr (buildRequestRuleExpr gs) = Inr (Some gs)"
proof -
  let ?ps = "map buildRuleGroupFactor gs"
  have full: "\<forall>p\<in>set ?ps. hasFullOuterParens p" using assms factor_good(2) by (auto simp: list_all_iff)
  note e = buildRequestRuleExpr_ok [OF assms] and t = trim_join_full [OF full, of "'' * ''"]
  show ?thesis
  proof (cases "gs = []")
    case False
    then have "join '' * '' ?ps \<noteq> []" using full full_parens_part by (intro join_not_Nil) auto
    then show ?thesis unfolding e tryParseRequestRuleExpr_def t Let_def split_factors [OF full]
      using parse_factors_good [OF assms] by simp
  qed (simp add: tryParseRequestRuleExpr_def buildRequestRuleExpr_def filter_boolean_def)
qed

interpretation rule_codec: codec buildRequestRuleExpr tryParseRequestRuleExpr "list_all ok_group"
  by unfold_locales (rule rules_roundtrip)

section \<open>Splitting a combined expression\<close>

lemma rxm_seqs_append:
  "rxm (seqs (xs @ ys)) st = concat (map (rxm (seqs ys)) (rxm (seqs xs) st))"
  proof (induction xs arbitrary: st)
  case (Cons a xs)
  then have "rxm (seqs (xs @ ys)) = (\<lambda>st. concat (map (rxm (seqs ys)) (rxm (seqs xs) st)))" by blast
  then show ?case by (simp add: concat_map_map comp_def)
qed simp

lemma factor_rx_ends:
  assumes "rx_match factor_rx s \<noteq> None"
  shows "ends_with '' : 1)'' s"
proof -
  define xs where "xs = [lit ''('', Grp 1 (Plus (Cls (\<lambda>_. True))), lit '' ? '', Grp 2 (Plus (Cls num_class))]"
  have f: "factor_rx = Seq Bol (seqs (xs @ [lit '' : 1)'', Eol]))" by (simp add: factor_rx_def xs_def)
  have "rxm (seqs (xs @ [lit '' : 1)'', Eol])) ([], s, Map.empty) \<noteq> []"
    using assms unfolding f rx_match_anchored by (cases "rxm (seqs (xs @ [lit '' : 1)'', Eol])) ([], s, Map.empty)") auto
  then obtain st where "st \<in> set (rxm (seqs (xs @ [lit '' : 1)'', Eol])) ([], s, Map.empty))" by (metis last_in_set)
  then obtain pre t c where t: "(pre, t, c) \<in> set (rxm (seqs xs) ([], s, Map.empty))"
    and e: "st \<in> set (rxm (Seq (lit '' : 1)'') (Seq Eol Eps)) (pre, t, c))"
    unfolding rxm_seqs_append seqs.simps by force
  have "t = '' : 1)''"
    using e by (auto simp: rxm_lit starts_with_iff simp del: lit.simps split: if_splits)
  moreover obtain w where "s = w @ t" using rxm_shrinks [OF t] by (auto simp: ahead_def)
  ultimately show ?thesis by (auto simp: ends_with_iff)
qed

lemma not_a_rule:
  assumes "balanced 0 base" "\<not> ends_with '' : 1'' base"
  shows "tryParseRequestRuleExpr (''('' @ base @ '')'') = Inr None"
proof -
  let ?p = "''('' @ base @ '')''"
  have full: "hasFullOuterParens ?p" using assms(1) by (rule hasFullOuterParens_balanced)
  have "\<not> ends_with '' : 1)'' ?p"
  proof
    assume "ends_with '' : 1)'' ?p"
    then obtain r where "''('' @ base @ '')'' = r @ '' : 1)''" by (auto simp: ends_with_iff)
    then have "(''('' @ base) @ '')'' = (r @ '' : 1'') @ '')''" by simp
    then have "''('' @ base = r @ '' : 1''" by (simp only: append_same_eq)
    then have "base = tl r @ '' : 1''" by (cases r) auto
    then show False using assms(2) by (auto simp: ends_with_iff)
  qed
  then have "tryParseRuleGroupFactor ?p = Inr None"
    using factor_rx_ends [of ?p] by (auto simp: tryParseRuleGroupFactor_def split: option.splits)
  then show ?thesis
    using split_factors [of "[?p]"] full full_parens_part [OF full]
    by (simp add: tryParseRequestRuleExpr_def Let_def)
qed

lemma classify_factors:
  assumes "list_all ok_group gs"
  shows "classify_parts (map buildRuleGroupFactor gs) = Inr (map buildRuleGroupFactor gs, [])"
  using assms
proof (induction gs)
  case (Cons g gs)
  have "buildRuleGroupFactor g \<noteq> []" using Cons.prems full_parens_part factor_good(2) by auto
  then have "tryParseRequestRuleExpr (buildRuleGroupFactor g) = Inr (Some [g])"
    using rules_roundtrip [of "[g]"] Cons.prems by (simp add: buildRequestRuleExpr_def filter_boolean_def)
  then show ?case using Cons by simp
qed simp


section \<open>Properties\<close>

text \<open>C3: Request rules survive printing and parsing: for groups of conditions whose texts need no
  escape and hold no parenthesis, \<open>&\<close> or \<open>|\<close>, whose numbers are numeric literals, and which are
  not comparisons of a request parameter, parsing the built expression returns the very same groups.\<close>

theorem request_rules_roundtrip:
  assumes "list_all ok_group gs"
  shows "tryParseRequestRuleExpr (buildRequestRuleExpr gs) = Inr (Some gs)"
  using assms by (rule rule_codec.dec_enc)

definition sample_group :: RequestRuleGroup where
  "sample_group =
     \<lparr>rg_conditions =
        [Time \<lparr>tm_timeFunc = ''hour'', tm_timezone = ''Asia/Tokyo'', tm_mode = ''range'', tm_value = [],
               tm_rangeStart = ''21'', tm_rangeEnd = ''6.5e0''\<rparr>,
         ParamHeader \<lparr>ph_source = ''header'', ph_path = ''x-tier'', ph_mode = ''contains'', ph_value = ''fast lane''\<rparr>,
         ParamHeader \<lparr>ph_source = ''param'', ph_path = ''stream'', ph_mode = ''eq'', ph_value = ''true''\<rparr>],
      rg_multiplier = ''0.5''\<rparr>"

lemma ok_sample_group: "list_all ok_group [sample_group, sample_group]"
  by code_simp

theorem request_rules_roundtrip_witness:
  "tryParseRequestRuleExpr (buildRequestRuleExpr [sample_group, sample_group]) =
     Inr (Some [sample_group, sample_group])"
  by (rule request_rules_roundtrip) (rule ok_sample_group)

text \<open>C4: Splitting a stored expression undoes combining: for a base expression with balanced
  parentheses that does not itself end like a rule, and at least one printable rule group, the
  base comes back without redundant outer parentheses and the rules come back unchanged.\<close>

theorem split_combine:
  assumes "balanced 0 base" "trim base = base" "base \<noteq> []" "\<not> ends_with '' : 1'' base"
    and "list_all ok_group gs" "gs \<noteq> []"
  shows "splitBillingExprAndRequestRules (combineBillingExpr base (buildRequestRuleExpr gs)) =
    Inr \<lparr>sb_billingExpr = unwrapOuterParens base, sb_requestRuleExpr = buildRequestRuleExpr gs\<rparr>"
proof -
  let ?ps = "map buildRuleGroupFactor gs" and ?b = "''('' @ base @ '')''"
  have full: "\<forall>p\<in>set ?ps. hasFullOuterParens p" using assms(5) factor_good(2) by (auto simp: list_all_iff)
  have b: "hasFullOuterParens ?b" using assms(1) by (rule hasFullOuterParens_balanced)
  then have full': "\<forall>p\<in>set (?b # ?ps). hasFullOuterParens p" using full by simp
  note e = buildRequestRuleExpr_ok [OF assms(5)] and t = trim_join_full [OF full, of "'' * ''"]
  have ne: "join '' * '' ?ps \<noteq> []" using full full_parens_part assms(6) by (intro join_not_Nil) auto
  obtain q qs where q: "?ps = q # qs" using assms(6) by (cases gs) auto
  have c: "combineBillingExpr base (buildRequestRuleExpr gs) = join '' * '' (?b # ?ps)"
    using assms(2,3) ne t by (simp add: combineBillingExpr_def e q)
  have cl: "classify_parts (?b # ?ps) = Inr (?ps, [?b])"
    using classify_factors [OF assms(5)] not_a_rule [OF assms(1,4)] by simp
  have ne': "join '' * '' (?b # ?ps) \<noteq> []" by (simp add: q)
  show ?thesis
    unfolding c splitBillingExprAndRequestRules_def trim_join_full [OF full'] Let_def split_factors [OF full'] cl
    using ne' assms(6) unwrapOuterParens_wrap [OF assms(1)] by (simp add: e)
qed

theorem split_combine_witness:
  "splitBillingExprAndRequestRules (combineBillingExpr ''((tier(\"base\", p * 2)))'' (buildRequestRuleExpr [sample_group])) =
    Inr \<lparr>sb_billingExpr = unwrapOuterParens ''((tier(\"base\", p * 2)))'', sb_requestRuleExpr = buildRequestRuleExpr [sample_group]\<rparr>"
proof (rule split_combine)
  show "balanced 0 ''((tier(\"base\", p * 2)))''" by code_simp
  show "trim ''((tier(\"base\", p * 2)))'' = ''((tier(\"base\", p * 2)))''" by code_simp
  show "\<not> ends_with '' : 1'' ''((tier(\"base\", p * 2)))''" by code_simp
  show "list_all ok_group [sample_group]" using ok_sample_group by simp
qed simp_all

text \<open>Whatever partial object the editor holds, normalising it yields a condition with a known
  source, a known time function, a non-empty time zone and a mode offered for that source, and
  normalising again changes nothing.\<close>

theorem normalizeCondition_wf_idem:
  "wf_condition (normalizeCondition c) \<and>
   normalizeCondition (Some (partial_of (normalizeCondition c))) = normalizeCondition c"
  using cond_norm.norm_nf [OF typed_normalizeCondition] wf_normalizeCondition by blast

definition param_cmp_group :: "string \<Rightarrow> string \<Rightarrow> string \<Rightarrow> string \<Rightarrow> RequestRuleGroup" where
  "param_cmp_group path mode v m =
     \<lparr>rg_conditions = [ParamHeader \<lparr>ph_source = ''param'', ph_path = path, ph_mode = mode, ph_value = v\<rparr>],
      rg_multiplier = m\<rparr>"

lemma param_cmp_half:
  assumes "plain_text path" "op \<in> {''>'', ''>='', ''<'', ''<=''}"
  shows "tryParseRequestCondition (''param(\"'' @ path @ ''\") '' @ op @ '' '' @ v) = Inr None"
  using plain_textD [OF assms(1)] assms(2)
  by (auto simp: tryParseRequestCondition_def not_time_condition header_exists_rx_def
    param_exists_rx_def header_contains_rx_def parse_param_contains_def param_contains_rx_def
    parse_param_cmp_def param_cmp_rx_def parse_eq_condition_def eq_rx_def rx_run rx_eval cap_def)

text \<open>A comparison of a request parameter does not survive: the printer guards it with
  \<open>!= nil &&\<close>, the parser splits the group at that \<open>&&\<close> and rejects the half that is left, so
  the whole rule expression is not recognised.\<close>

theorem param_comparison_lost:
  assumes "plain_text path" "mode \<in> {MATCH_GT, MATCH_GTE, MATCH_LT, MATCH_LTE}" "numeric v" "numeric m"
  shows "tryParseRequestRuleExpr (buildRequestRuleExpr [param_cmp_group path mode v m]) = Inr None"
proof -
  let ?a = "''param(\"'' @ path @ ''\") != nil''"
  let ?b = "''param(\"'' @ path @ ''\") '' @ cmp_op mode @ '' '' @ v"
  have op: "cmp_op mode \<in> {''>'', ''>='', ''<'', ''<=''}" using assms(2) by (auto simp: cmp_op_def match_defs)
  have mode: "mode \<noteq> MATCH_EXISTS" "mode \<noteq> MATCH_CONTAINS" "mode \<in> set (map mo_value (getRequestRuleMatchOptions ''param''))"
    using assms(2) by (auto simp: match_defs getRequestRuleMatchOptions_def)
  note p = plain_textD [OF assms(1)]
  have q: "quiet path" "quiet v" "quiet (cmp_op mode)" "quiet m"
    using quiet_plain [OF p(1)] quiet_num [OF numericD(2)] assms(3,4) op by (auto simp: quiet_def)
  have a: "reads_as ?a (ParamHeader \<lparr>ph_source = ''param'', ph_path = path, ph_mode = MATCH_EXISTS, ph_value = []\<rparr>)"
    by (rule reads_exists(2) [OF assms(1)])
  have bb: "balanced 0 ?b" using q by (simp add: balanced_quiet balanced_quiet_end depth_step_def)
  have bt: "trim ?b = ?b" using numericD(1) [OF assms(3)] numeric_last [OF assms(3)]
    by (intro trim_id) (simp add: is_ws_def)
  have bc: "clean '' && '' 0 ?b"
    using bb trim_last [OF bt] by (intro clean_balanced) (auto simp: quiet_notin q)
  have sp: "splitTopLevelAnd (join '' && '' [?a, ?b]) = [?a, ?b]"
    using reads_plain_part [OF a] bc bt a by (intro land.split_join) (auto simp: reads_as_def)
  obtain c where c: "rx_match factor_rx (''('' @ join '' && '' [?a, ?b] @ '' ? '' @ m @ '' : 1)'') = Some c"
    "cap c 1 = join '' && '' [?a, ?b]"
    using factor_match [OF assms(4), of "join '' && '' [?a, ?b]"] by (auto simp del: One_nat_def)
  let ?f = "''('' @ join '' && '' [?a, ?b] @ '' ? '' @ m @ '' : 1)''"
  have "parse_conditions [?a, ?b] = Inr None"
    using a bt param_cmp_half [OF assms(1) op] by (simp add: reads_as_def)
  then have f: "tryParseRuleGroupFactor ?f = Inr None"
    using c sp by (simp add: tryParseRuleGroupFactor_def del: join.simps parse_conditions.simps)
  have "balanced 0 (join '' && '' [?a, ?b] @ '' ? '' @ m @ '' : 1'')"
    using a bb q by (intro balanced_append balanced_join)
      (auto simp: reads_as_def balanced_quiet balanced_quiet_end depth_step_def)
  from hasFullOuterParens_balanced [OF this] have full: "hasFullOuterParens ?f" by simp
  have n: "normalizeCondition (Some (partial_of (ParamHeader \<lparr>ph_source = ''param'', ph_path = path, ph_mode = mode, ph_value = v\<rparr>)))
    = ParamHeader \<lparr>ph_source = ''param'', ph_path = path, ph_mode = mode, ph_value = v\<rparr>"
    by (rule normalizeCondition_wf) (use mode in simp)
  have "buildRequestConditionExpr (ParamHeader \<lparr>ph_source = ''param'', ph_path = path, ph_mode = mode, ph_value = v\<rparr>) =
      join '' && '' [?a, ?b]"
    using p mode assms(2,3) numeric_trim [OF assms(3)]
    by (simp add: buildRequestConditionExpr_def n build_param_header_def json_quote_plain numeric_def Let_def
      del: partial_of.simps)
  then have "buildRequestRuleExpr [param_cmp_group path mode v m] = ?f"
    using assms(4) numeric_trim [OF assms(4)]
    by (simp add: buildRequestRuleExpr_def buildRuleGroupFactor_def param_cmp_group_def filter_boolean_def numeric_def)
  then show ?thesis
    using split_factors [of "[?f]"] full full_parens_part [OF full] f
    by (simp add: tryParseRequestRuleExpr_def Let_def del: join.simps(3))
qed

theorem param_comparison_lost_witness:
  "tryParseRequestRuleExpr (buildRequestRuleExpr [param_cmp_group ''max_tokens'' ''gt'' ''4096'' ''2'']) = Inr None"
  by (rule param_comparison_lost; code_simp)

text \<open>The parser is not total: a \<open>has(...)\<close> condition whose literal the pattern accepts but
  \<open>JSON.parse\<close> rejects makes \<open>tryParseRequestRuleExpr\<close>, and with it the splitting of a stored
  expression, throw instead of reporting that the text is no rule.\<close>

theorem bad_escape_throws:
  "tryParseRequestRuleExpr (''(has(header(\"x\"), \"'' @ [CHR 0x5C] @ ''q\") ? 2 : 1)'') = Inl SyntaxError \<and>
   splitBillingExprAndRequestRules (''(p) * (has(header(\"x\"), \"'' @ [CHR 0x5C] @ ''q\") ? 2 : 1)'') = Inl SyntaxError"
  by code_simp

end
