(* ===== verification/BillingEval.thy ===== *)
theory BillingEval
  imports JsRegex JsNumber
begin

text \<open>
  The local cost evaluator of \<open>features/pricing/lib/tier-expr.ts\<close>: a syntax tree is validated
  against an allow list, bounded in size and depth, and then evaluated.

  The tree is made by the package \<open>acorn\<close>, so \<open>parseExpressionAt\<close> is a parameter \<open>parse\<close> of the
  model (\<open>Inl\<close> is the message of its exception). The language leaves the precision of \<open>**\<close> to the
  implementation, so exponentiation is a parameter \<open>pw\<close>. A thrown \<open>Error\<close> is \<open>Inl\<close> of its
  message. The closure variable \<open>matchedTier\<close> that \<open>onTier\<close> writes is threaded through the
  evaluation; a throw discards it, as the \<open>catch\<close> clause does.

  Numbers do not distinguish \<open>-0\<close> from \<open>0\<close>; the evaluator cannot either, because a division by
  zero is an error for both.

  The lemmas show that validation bounds the tree, that a validated tree can fail only for a
  number that is not finite, and that the evaluator computes a plain denotational semantics.
\<close>

section \<open>Syntax trees\<close>

text \<open>The \<open>value\<close> of a literal node; \<open>LObject\<close> is a regular expression.\<close>

datatype literal_value = LUndefined | LNull | LNum jsnum | LStr string | LBool bool | LBigint | LObject

datatype BillingExpressionValue = VNum jsnum | VStr string | VBool bool

datatype BillingExpressionNode = Node
  (n_type: string)
  (n_start: nat)
  (n_end: nat)
  (n_value: literal_value)
  (n_name: "string option")
  (n_operator: "string option")
  (n_argument: "BillingExpressionNode option")
  (n_left: "BillingExpressionNode option")
  (n_right: "BillingExpressionNode option")
  (n_test: "BillingExpressionNode option")
  (n_consequent: "BillingExpressionNode option")
  (n_alternate: "BillingExpressionNode option")
  (n_callee: "BillingExpressionNode option")
  (n_arguments: "BillingExpressionNode list option")

type_synonym variables = "(string \<times> jsnum) list"

definition MAX_BILLING_EXPRESSION_LENGTH :: nat where "MAX_BILLING_EXPRESSION_LENGTH = 8192"
definition MAX_BILLING_EXPRESSION_NODES :: nat where "MAX_BILLING_EXPRESSION_NODES = 512"
definition MAX_BILLING_EXPRESSION_DEPTH :: nat where "MAX_BILLING_EXPRESSION_DEPTH = 64"

section \<open>Assertions\<close>

definition assertBillingExpression :: "bool \<Rightarrow> string \<Rightarrow> string + unit" where
  "assertBillingExpression condition message = (if condition then Inr () else Inl message)"

definition requireBillingNode :: "BillingExpressionNode option \<Rightarrow> string \<Rightarrow> string + BillingExpressionNode" where
  "requireBillingNode node parentType =
     (case node of
        None \<Rightarrow> Inl (''Invalid '' @ parentType @ '' billing expression'')
      | Some n \<Rightarrow> Inr n)"

definition requireBillingNodeName :: "BillingExpressionNode \<Rightarrow> string \<Rightarrow> string + string" where
  "requireBillingNodeName node context =
     (case n_name node of
        None \<Rightarrow> Inl (''Invalid '' @ context @ '' billing expression name'')
      | Some name \<Rightarrow>
          if length name > 0 then Inr name else Inl (''Invalid '' @ context @ '' billing expression name''))"

definition requireBillingOperator :: "BillingExpressionNode \<Rightarrow> string + string" where
  "requireBillingOperator node =
     (case n_operator node of
        None \<Rightarrow> Inl (''Invalid '' @ n_type node @ '' billing expression operator'')
      | Some op \<Rightarrow> Inr op)"

definition requireBillingArguments :: "BillingExpressionNode \<Rightarrow> string + BillingExpressionNode list" where
  "requireBillingArguments node =
     (case n_arguments node of
        None \<Rightarrow> Inl ''Invalid billing function arguments''
      | Some as \<Rightarrow> Inr as)"

text \<open>\<open>None\<close> is an argument that is missing (\<open>undefined\<close>).\<close>

definition requireBillingNumber :: "BillingExpressionValue option \<Rightarrow> string \<Rightarrow> string + jsnum" where
  "requireBillingNumber v context =
     (case v of
        Some (VNum x) \<Rightarrow> if is_finite x then Inr x else Inl (context @ '' must produce a finite number'')
      | _ \<Rightarrow> Inl (context @ '' must produce a finite number''))"

definition requireBillingString :: "BillingExpressionValue option \<Rightarrow> string \<Rightarrow> string + string" where
  "requireBillingString v context =
     (case v of
        Some (VStr s) \<Rightarrow> Inr s
      | None \<Rightarrow> Inr []
      | _ \<Rightarrow> Inl (context @ '' must produce a string''))"

definition requireBillingEntry :: "(string \<times> 'a) list \<Rightarrow> string \<Rightarrow> string \<Rightarrow> string + 'a" where
  "requireBillingEntry entries key context =
     (case map_of entries key of
        None \<Rightarrow> Inl (''Unsupported '' @ context @ '': '' @ key)
      | Some v \<Rightarrow> Inr v)"

section \<open>Operators and functions\<close>

definition number_output :: "jsnum \<Rightarrow> string \<Rightarrow> string + BillingExpressionValue" where
  "number_output x context = sbind (requireBillingNumber (Some (VNum x)) context) (\<lambda>v. Inr (VNum v))"

definition BILLING_BINARY_EVALUATORS ::
  "(jsnum \<Rightarrow> jsnum \<Rightarrow> jsnum) \<Rightarrow> (string \<times> (jsnum \<Rightarrow> jsnum \<Rightarrow> string + BillingExpressionValue)) list" where
  "BILLING_BINARY_EVALUATORS pw =
    [(''+'', \<lambda>l r. number_output (js_add l r) ''Addition output''),
     (''-'', \<lambda>l r. number_output (js_sub l r) ''Subtraction output''),
     (''*'', \<lambda>l r. number_output (js_mul l r) ''Multiplication output''),
     (''/'', \<lambda>l r. number_output (js_div l r) ''Division output''),
     (''%'', \<lambda>l r. number_output (js_rem l r) ''Remainder output''),
     (''**'', \<lambda>l r. number_output (pw l r) ''Exponentiation output''),
     (''<'', \<lambda>l r. Inr (VBool (js_lt l r))),
     (''<='', \<lambda>l r. Inr (VBool (js_le l r))),
     (''>'', \<lambda>l r. Inr (VBool (js_lt r l))),
     (''>='', \<lambda>l r. Inr (VBool (js_le r l))),
     (''=='', \<lambda>l r. Inr (VBool (js_eq l r))),
     (''==='', \<lambda>l r. Inr (VBool (js_eq l r))),
     (''!='', \<lambda>l r. Inr (VBool (\<not> js_eq l r))),
     (''!=='', \<lambda>l r. Inr (VBool (\<not> js_eq l r)))]"

fun truthy_value :: "BillingExpressionValue \<Rightarrow> bool" where
  "truthy_value (VNum x) = num_truthy x"
| "truthy_value (VStr s) = (s \<noteq> [])"
| "truthy_value (VBool b) = b"

definition BILLING_UNARY_EVALUATORS ::
  "(string \<times> (BillingExpressionValue \<Rightarrow> string + BillingExpressionValue)) list" where
  "BILLING_UNARY_EVALUATORS =
    [(''!'', \<lambda>v. Inr (VBool (\<not> truthy_value v))),
     (''+'', \<lambda>v. sbind (requireBillingNumber (Some v) ''Unary operand'') (\<lambda>x. Inr (VNum x))),
     (''-'', \<lambda>v. sbind (requireBillingNumber (Some v) ''Unary operand'') (\<lambda>x. Inr (VNum (js_neg x))))]"

text \<open>\<open>values[i]\<close>\<close>

definition arg :: "BillingExpressionValue list \<Rightarrow> nat \<Rightarrow> BillingExpressionValue option" where
  "arg vs i = (if i < length vs then Some (vs ! i) else None)"

fun require_numbers :: "BillingExpressionValue list \<Rightarrow> string \<Rightarrow> string + jsnum list" where
  "require_numbers [] context = Inr []"
| "require_numbers (v # vs) context =
     sbind (requireBillingNumber (Some v) context) (\<lambda>x.
       sbind (require_numbers vs context) (\<lambda>xs. Inr (x # xs)))"

record BillingFunctionSpec =
  minimumArguments :: nat
  maximumArguments :: nat
  validateArguments :: "BillingExpressionNode list \<Rightarrow> string + unit"
  evaluateArguments :: "BillingExpressionValue list \<Rightarrow> string \<Rightarrow> string + (BillingExpressionValue \<times> string)"

definition tier_spec :: BillingFunctionSpec where
  "tier_spec =
    \<lparr>minimumArguments = 2, maximumArguments = 2,
     validateArguments = (\<lambda>argumentsList.
       sbind (requireBillingNode (case argumentsList of [] \<Rightarrow> None | a # _ \<Rightarrow> Some a) ''tier argument'') (\<lambda>nameNode.
         assertBillingExpression (n_type nameNode = ''Literal'' \<and> (case n_value nameNode of LStr _ \<Rightarrow> True | _ \<Rightarrow> False))
           ''tier requires a literal name and a numeric value'')),
     evaluateArguments = (\<lambda>vs tier.
       sbind (requireBillingString (arg vs 0) ''tier name'') (\<lambda>name.
         sbind (requireBillingNumber (arg vs 1) ''tier value'') (\<lambda>x. Inr (VNum x, name))))\<rparr>"

definition max_spec :: BillingFunctionSpec where
  "max_spec =
    \<lparr>minimumArguments = 2, maximumArguments = 2, validateArguments = (\<lambda>_. Inr ()),
     evaluateArguments = (\<lambda>vs tier.
       sbind (require_numbers vs ''max argument'') (\<lambda>xs.
         sbind (number_output (foldl js_max NegInfinity xs) ''max output'') (\<lambda>v. Inr (v, tier))))\<rparr>"

definition min_spec :: BillingFunctionSpec where
  "min_spec =
    \<lparr>minimumArguments = 2, maximumArguments = 2, validateArguments = (\<lambda>_. Inr ()),
     evaluateArguments = (\<lambda>vs tier.
       sbind (require_numbers vs ''min argument'') (\<lambda>xs.
         sbind (number_output (foldl js_min Infinity xs) ''min output'') (\<lambda>v. Inr (v, tier))))\<rparr>"

definition unary_spec :: "(jsnum \<Rightarrow> jsnum) \<Rightarrow> string \<Rightarrow> BillingFunctionSpec" where
  "unary_spec f context =
    \<lparr>minimumArguments = 1, maximumArguments = 1, validateArguments = (\<lambda>_. Inr ()),
     evaluateArguments = (\<lambda>vs tier.
       sbind (requireBillingNumber (arg vs 0) context) (\<lambda>x. Inr (VNum (f x), tier)))\<rparr>"

definition BILLING_FUNCTION_SPECS :: "(string \<times> BillingFunctionSpec) list" where
  "BILLING_FUNCTION_SPECS =
    [(''tier'', tier_spec), (''max'', max_spec), (''min'', min_spec),
     (''abs'', unary_spec js_abs ''abs argument''), (''ceil'', unary_spec js_ceil ''ceil argument''),
     (''floor'', unary_spec js_floor ''floor argument'')]"

definition BILLING_LOGICAL_OPERATORS :: "string list" where
  "BILLING_LOGICAL_OPERATORS = [''&&'', ''||'']"

section \<open>Validation\<close>

definition validate_literal :: "BillingExpressionNode \<Rightarrow> string + unit" where
  "validate_literal node =
     assertBillingExpression (n_value node \<notin> {LUndefined, LNull, LObject, LBigint})
       ''Unsupported billing expression literal''"

definition validate_identifier :: "variables \<Rightarrow> BillingExpressionNode \<Rightarrow> string + unit" where
  "validate_identifier vars node =
     sbind (requireBillingNodeName node ''variable'') (\<lambda>name.
       assertBillingExpression (map_of vars name \<noteq> None) (''Unknown billing variable: '' @ name))"

text \<open>The checks of \<open>validateBillingCall\<close> before the arguments are visited; the result is the
  argument list.\<close>

definition validate_call_head :: "BillingExpressionNode \<Rightarrow> string + BillingExpressionNode list" where
  "validate_call_head node =
     sbind (requireBillingNode (n_callee node) (n_type node)) (\<lambda>callee.
     sbind (assertBillingExpression (n_type callee = ''Identifier'') ''Billing functions must be called by name'') (\<lambda>_.
     sbind (requireBillingNodeName callee ''function'') (\<lambda>functionName.
     sbind (requireBillingEntry BILLING_FUNCTION_SPECS functionName ''billing function'') (\<lambda>functionSpec.
     sbind (requireBillingArguments node) (\<lambda>argumentsList.
     sbind (assertBillingExpression (minimumArguments functionSpec \<le> length argumentsList)
              (functionName @ '' received too few arguments'')) (\<lambda>_.
     sbind (assertBillingExpression (length argumentsList \<le> maximumArguments functionSpec)
              (functionName @ '' received too many arguments'')) (\<lambda>_.
     sbind (validateArguments functionSpec argumentsList) (\<lambda>_. Inr argumentsList))))))))"

lemma requireBillingNode_Inr [simp]: "requireBillingNode o' t = Inr n \<longleftrightarrow> o' = Some n"
  by (auto simp: requireBillingNode_def split: option.splits)

lemma requireBillingArguments_Inr [simp]: "requireBillingArguments n = Inr as \<longleftrightarrow> n_arguments n = Some as"
  by (auto simp: requireBillingArguments_def split: option.splits)

lemma validate_call_head_arguments: "validate_call_head node = Inr as \<Longrightarrow> n_arguments node = Some as"
  by (auto simp: validate_call_head_def sbind_Inr_iff)

lemma child_size:
  "n_argument n = Some a \<Longrightarrow> size a < size n"
  "n_left n = Some a \<Longrightarrow> size a < size n"
  "n_right n = Some a \<Longrightarrow> size a < size n"
  "n_test n = Some a \<Longrightarrow> size a < size n"
  "n_consequent n = Some a \<Longrightarrow> size a < size n"
  "n_alternate n = Some a \<Longrightarrow> size a < size n"
  "n_arguments n = Some as \<Longrightarrow> size_list size as < size n"
  by (cases n; simp)+

lemma validate_call_head_size: "validate_call_head node = Inr as \<Longrightarrow> size_list size as < size node"
  by (rule child_size(7)) (rule validate_call_head_arguments)

text \<open>\<open>state.nodes\<close> is passed in and out; the result is its new value. Validation asks the table of
  binary operators only for its keys, which do not depend on the exponentiation it holds.\<close>

function validateBillingNode :: "variables \<Rightarrow> BillingExpressionNode \<Rightarrow> nat \<Rightarrow> nat \<Rightarrow> string + nat"
  and validate_arguments :: "variables \<Rightarrow> BillingExpressionNode list \<Rightarrow> nat \<Rightarrow> nat \<Rightarrow> string + nat"
where
  "validateBillingNode vars node nodes depth =
     sbind (assertBillingExpression (Suc nodes \<le> MAX_BILLING_EXPRESSION_NODES)
              ''Billing expression is too complex'') (\<lambda>_.
     sbind (assertBillingExpression (depth \<le> MAX_BILLING_EXPRESSION_DEPTH)
              ''Billing expression nesting is too deep'') (\<lambda>_.
       if n_type node = ''Literal'' then sbind (validate_literal node) (\<lambda>_. Inr (Suc nodes))
       else if n_type node = ''Identifier'' then sbind (validate_identifier vars node) (\<lambda>_. Inr (Suc nodes))
       else if n_type node = ''UnaryExpression'' then
         sbind (requireBillingOperator node) (\<lambda>op.
         sbind (requireBillingEntry BILLING_UNARY_EVALUATORS op ''unary operator'') (\<lambda>_.
         sbind (requireBillingNode (n_argument node) (n_type node)) (\<lambda>a.
           validateBillingNode vars a (Suc nodes) (Suc depth))))
       else if n_type node = ''BinaryExpression'' then
         sbind (requireBillingOperator node) (\<lambda>op.
         sbind (requireBillingEntry (BILLING_BINARY_EVALUATORS js_add) op ''billing operator'') (\<lambda>_.
         sbind (requireBillingNode (n_left node) (n_type node)) (\<lambda>l.
         sbind (validateBillingNode vars l (Suc nodes) (Suc depth)) (\<lambda>n1.
         sbind (requireBillingNode (n_right node) (n_type node)) (\<lambda>r.
           validateBillingNode vars r n1 (Suc depth))))))
       else if n_type node = ''LogicalExpression'' then
         sbind (requireBillingOperator node) (\<lambda>op.
         sbind (assertBillingExpression (op \<in> set BILLING_LOGICAL_OPERATORS)
                  (''Unsupported logical operator: '' @ op)) (\<lambda>_.
         sbind (requireBillingNode (n_left node) (n_type node)) (\<lambda>l.
         sbind (validateBillingNode vars l (Suc nodes) (Suc depth)) (\<lambda>n1.
         sbind (requireBillingNode (n_right node) (n_type node)) (\<lambda>r.
           validateBillingNode vars r n1 (Suc depth))))))
       else if n_type node = ''ConditionalExpression'' then
         sbind (requireBillingNode (n_test node) (n_type node)) (\<lambda>t.
         sbind (validateBillingNode vars t (Suc nodes) (Suc depth)) (\<lambda>n1.
         sbind (requireBillingNode (n_consequent node) (n_type node)) (\<lambda>c.
         sbind (validateBillingNode vars c n1 (Suc depth)) (\<lambda>n2.
         sbind (requireBillingNode (n_alternate node) (n_type node)) (\<lambda>a.
           validateBillingNode vars a n2 (Suc depth))))))
       else if n_type node = ''CallExpression'' then
         sbind (validate_call_head node) (\<lambda>as. validate_arguments vars as (Suc nodes) (Suc depth))
       else Inl (''Unsupported billing expression syntax: '' @ n_type node)))"
| "validate_arguments vars [] nodes depth = Inr nodes"
| "validate_arguments vars (a # as) nodes depth =
     sbind (validateBillingNode vars a nodes depth) (\<lambda>n. validate_arguments vars as n depth)"
  by pat_completeness auto
termination
  by (relation "measure (\<lambda>x. case x of Inl (_, n, _) \<Rightarrow> Suc (2 * size n) | Inr (_, as, _) \<Rightarrow> 2 * size_list size as)")
    (auto dest: child_size validate_call_head_size)

declare validateBillingNode.simps [simp del]

section \<open>Evaluation\<close>

fun literal_result :: "literal_value \<Rightarrow> string + BillingExpressionValue" where
  "literal_result (LNum x) = Inr (VNum x)"
| "literal_result (LStr s) = Inr (VStr s)"
| "literal_result (LBool b) = Inr (VBool b)"
| "literal_result _ = Inl ''Unsupported billing expression literal''"

definition evaluate_identifier :: "variables \<Rightarrow> BillingExpressionNode \<Rightarrow> string + BillingExpressionValue" where
  "evaluate_identifier vars node =
     sbind (requireBillingNodeName node ''variable'') (\<lambda>name.
       sbind (requireBillingNumber (map_option VNum (map_of vars name)) (''Billing variable '' @ name)) (\<lambda>x. Inr (VNum x)))"

definition evaluateBillingBinary ::
  "(jsnum \<Rightarrow> jsnum \<Rightarrow> jsnum) \<Rightarrow> string \<Rightarrow> BillingExpressionValue \<Rightarrow> BillingExpressionValue \<Rightarrow> string + BillingExpressionValue" where
  "evaluateBillingBinary pw op leftValue rightValue =
     sbind (requireBillingNumber (Some leftValue) (''Left operand of '' @ op)) (\<lambda>l.
     sbind (requireBillingNumber (Some rightValue) (''Right operand of '' @ op)) (\<lambda>r.
     sbind (requireBillingEntry (BILLING_BINARY_EVALUATORS pw) op ''billing operator'') (\<lambda>f. f l r)))"

text \<open>The head of \<open>evaluateBillingCall\<close>: the function and its argument nodes.\<close>

definition evaluate_call_head :: "BillingExpressionNode \<Rightarrow> string + (BillingFunctionSpec \<times> BillingExpressionNode list)" where
  "evaluate_call_head node =
     sbind (requireBillingNode (n_callee node) (n_type node)) (\<lambda>callee.
     sbind (requireBillingNodeName callee ''function'') (\<lambda>functionName.
     sbind (requireBillingEntry BILLING_FUNCTION_SPECS functionName ''billing function'') (\<lambda>functionSpec.
     sbind (requireBillingArguments node) (\<lambda>as. Inr (functionSpec, as)))))"

lemma evaluate_call_head_arguments: "evaluate_call_head node = Inr (f, as) \<Longrightarrow> n_arguments node = Some as"
  by (auto simp: evaluate_call_head_def sbind_Inr_iff)

lemma evaluate_call_head_size: "evaluate_call_head node = Inr (f, as) \<Longrightarrow> size_list size as < size node"
  by (rule child_size(7)) (rule evaluate_call_head_arguments)

function evaluateBillingNode ::
  "(jsnum \<Rightarrow> jsnum \<Rightarrow> jsnum) \<Rightarrow> variables \<Rightarrow> BillingExpressionNode \<Rightarrow> string \<Rightarrow> string + (BillingExpressionValue \<times> string)"
  and evaluate_arguments ::
  "(jsnum \<Rightarrow> jsnum \<Rightarrow> jsnum) \<Rightarrow> variables \<Rightarrow> BillingExpressionNode list \<Rightarrow> string \<Rightarrow> string + (BillingExpressionValue list \<times> string)"
where
  "evaluateBillingNode pw vars node tier =
     (if n_type node = ''Literal'' then sbind (literal_result (n_value node)) (\<lambda>v. Inr (v, tier))
      else if n_type node = ''Identifier'' then sbind (evaluate_identifier vars node) (\<lambda>v. Inr (v, tier))
      else if n_type node = ''UnaryExpression'' then
        sbind (requireBillingOperator node) (\<lambda>op.
        sbind (requireBillingEntry BILLING_UNARY_EVALUATORS op ''unary operator'') (\<lambda>f.
        sbind (requireBillingNode (n_argument node) (n_type node)) (\<lambda>a.
        sbind (evaluateBillingNode pw vars a tier) (\<lambda>(v, t1).
        sbind (f v) (\<lambda>w. Inr (w, t1))))))
      else if n_type node = ''BinaryExpression'' then
        sbind (requireBillingOperator node) (\<lambda>op.
        sbind (requireBillingNode (n_left node) (n_type node)) (\<lambda>l.
        sbind (evaluateBillingNode pw vars l tier) (\<lambda>(v, t1).
        sbind (requireBillingNode (n_right node) (n_type node)) (\<lambda>r.
        sbind (evaluateBillingNode pw vars r t1) (\<lambda>(w, t2).
        sbind (evaluateBillingBinary pw op v w) (\<lambda>x. Inr (x, t2)))))))
      else if n_type node = ''LogicalExpression'' then
        sbind (requireBillingOperator node) (\<lambda>op.
          if op = ''&&'' then
            sbind (requireBillingNode (n_left node) (n_type node)) (\<lambda>l.
            sbind (requireBillingNode (n_right node) (n_type node)) (\<lambda>r.
            sbind (evaluateBillingNode pw vars l tier) (\<lambda>(v, t1).
              if truthy_value v then evaluateBillingNode pw vars r t1 else Inr (v, t1))))
          else if op = ''||'' then
            sbind (requireBillingNode (n_left node) (n_type node)) (\<lambda>l.
            sbind (requireBillingNode (n_right node) (n_type node)) (\<lambda>r.
            sbind (evaluateBillingNode pw vars l tier) (\<lambda>(v, t1).
              if truthy_value v then Inr (v, t1) else evaluateBillingNode pw vars r t1)))
          else Inl (''Unsupported logical operator: '' @ op))
      else if n_type node = ''ConditionalExpression'' then
        sbind (requireBillingNode (n_test node) (n_type node)) (\<lambda>t.
        sbind (evaluateBillingNode pw vars t tier) (\<lambda>(v, t1).
          if truthy_value v
          then sbind (requireBillingNode (n_consequent node) (n_type node)) (\<lambda>c. evaluateBillingNode pw vars c t1)
          else sbind (requireBillingNode (n_alternate node) (n_type node)) (\<lambda>a. evaluateBillingNode pw vars a t1)))
      else if n_type node = ''CallExpression'' then
        sbind (evaluate_call_head node) (\<lambda>(f, as).
        sbind (evaluate_arguments pw vars as tier) (\<lambda>(vs, t1). evaluateArguments f vs t1))
      else Inl (''Unsupported billing expression syntax: '' @ n_type node))"
| "evaluate_arguments pw vars [] tier = Inr ([], tier)"
| "evaluate_arguments pw vars (a # as) tier =
     sbind (evaluateBillingNode pw vars a tier) (\<lambda>(v, t1).
     sbind (evaluate_arguments pw vars as t1) (\<lambda>(vs, t2). Inr (v # vs, t2)))"
  by pat_completeness auto
termination
  by (relation "measure (\<lambda>x. case x of Inl (_, _, n, _) \<Rightarrow> Suc (2 * size n) | Inr (_, _, as, _) \<Rightarrow> 2 * size_list size as)")
    (auto dest: child_size evaluate_call_head_size)

declare evaluateBillingNode.simps [simp del]

definition evaluateBillingExpression ::
  "(string \<Rightarrow> string + BillingExpressionNode) \<Rightarrow> (jsnum \<Rightarrow> jsnum \<Rightarrow> jsnum) \<Rightarrow> string \<Rightarrow> variables \<Rightarrow> string + (jsnum \<times> string)" where
  "evaluateBillingExpression parse pw expression vars =
     (let source = trim expression
      in if length source > MAX_BILLING_EXPRESSION_LENGTH then Inl ''Billing expression is too long''
         else sbind (parse source) (\<lambda>node.
              if trim (drop (n_end node) source) \<noteq> [] then Inl ''Billing expression contains trailing syntax''
              else sbind (validateBillingNode vars node 0 0) (\<lambda>_.
                   sbind (evaluateBillingNode pw vars node []) (\<lambda>(v, tier).
                   sbind (requireBillingNumber (Some v) ''Billing expression'') (\<lambda>cost. Inr (cost, tier))))))"

section \<open>The estimator\<close>

record ExtraTokenValues =
  cacheReadTokens :: jsnum
  cacheCreateTokens :: jsnum
  cacheCreate1hTokens :: jsnum
  imageTokens :: jsnum
  imageOutputTokens :: jsnum
  audioInputTokens :: jsnum
  audioOutputTokens :: jsnum

definition ESTIMATOR_VARS :: "(string \<times> (ExtraTokenValues \<Rightarrow> jsnum)) list" where
  "ESTIMATOR_VARS =
    [(''cr'', cacheReadTokens), (''cc'', cacheCreateTokens), (''cc1h'', cacheCreate1hTokens),
     (''img'', imageTokens), (''img_o'', imageOutputTokens), (''ai'', audioInputTokens),
     (''ao'', audioOutputTokens)]"

record EvalResult =
  er_cost :: jsnum
  er_matchedTier :: string
  er_error :: "string option"

definition estimator_variables :: "jsnum \<Rightarrow> jsnum \<Rightarrow> ExtraTokenValues \<Rightarrow> variables" where
  "estimator_variables promptTokens completionTokens extra =
     (let len = js_add (js_add (js_add promptTokens (or_zero (cacheReadTokens extra)))
                  (or_zero (cacheCreateTokens extra))) (or_zero (cacheCreate1hTokens extra))
      in [(''p'', promptTokens), (''c'', completionTokens), (''len'', len)] @
         map (\<lambda>(v, key). (v, or_zero (key extra))) ESTIMATOR_VARS)"

definition evalExprLocally ::
  "(string \<Rightarrow> string + BillingExpressionNode) \<Rightarrow> (jsnum \<Rightarrow> jsnum \<Rightarrow> jsnum) \<Rightarrow>
   string \<Rightarrow> jsnum \<Rightarrow> jsnum \<Rightarrow> ExtraTokenValues \<Rightarrow> EvalResult" where
  "evalExprLocally parse pw exprStr promptTokens completionTokens extra =
     (if exprStr = [] \<or> trim exprStr = [] then \<lparr>er_cost = Fin 0, er_matchedTier = [], er_error = None\<rparr>
      else (case evaluateBillingExpression parse pw exprStr (estimator_variables promptTokens completionTokens extra) of
              Inr (cost, tier) \<Rightarrow> \<lparr>er_cost = cost, er_matchedTier = tier, er_error = None\<rparr>
            | Inl message \<Rightarrow> \<lparr>er_cost = Fin 0, er_matchedTier = [], er_error = Some message\<rparr>))"

definition exprUsesExtraVars :: "string \<Rightarrow> bool" where
  "exprUsesExtraVars exprStr \<longleftrightarrow>
     exprStr \<noteq> [] \<and> rx_test (seqs [WordB, Grp 1 (alts (map fst ESTIMATOR_VARS)), WordB]) exprStr"

section \<open>Abstract expressions\<close>

text \<open>What a validated tree means: typed operators, tiers with their literal name, no error
  messages. The meaning is a value and the tiers entered, in order; \<open>None\<close> is a number that is
  missing or not finite.\<close>

datatype arith_op = Add | Sub | Mul | Div | Rem | Pow
datatype cmp_rel = Lt | Le | Gt | Ge | Eq | Ne
datatype unary_fun = Abs | Ceil | Floor

datatype bexpr =
    ENum jsnum
  | EStr string
  | EBool bool
  | EVar string
  | ENot bexpr
  | EPlus bexpr
  | ENeg bexpr
  | EArith arith_op bexpr bexpr
  | ECmp cmp_rel bexpr bexpr
  | EAnd bexpr bexpr
  | EOr bexpr bexpr
  | ECond bexpr bexpr bexpr
  | ETier string bexpr
  | EMax bexpr bexpr
  | EMin bexpr bexpr
  | EFun unary_fun bexpr

fun esize :: "bexpr \<Rightarrow> nat" where
  "esize (ENum x) = 1"
| "esize (EStr s) = 1"
| "esize (EBool b) = 1"
| "esize (EVar v) = 1"
| "esize (ENot e) = Suc (esize e)"
| "esize (EPlus e) = Suc (esize e)"
| "esize (ENeg e) = Suc (esize e)"
| "esize (EArith o' a b) = Suc (esize a + esize b)"
| "esize (ECmp o' a b) = Suc (esize a + esize b)"
| "esize (EAnd a b) = Suc (esize a + esize b)"
| "esize (EOr a b) = Suc (esize a + esize b)"
| "esize (ECond t a b) = Suc (esize t + esize a + esize b)"
| "esize (ETier s e) = 2 + esize e"
| "esize (EMax a b) = Suc (esize a + esize b)"
| "esize (EMin a b) = Suc (esize a + esize b)"
| "esize (EFun f e) = Suc (esize e)"

fun eheight :: "bexpr \<Rightarrow> nat" where
  "eheight (ENot e) = Suc (eheight e)"
| "eheight (EPlus e) = Suc (eheight e)"
| "eheight (ENeg e) = Suc (eheight e)"
| "eheight (EArith o' a b) = Suc (max (eheight a) (eheight b))"
| "eheight (ECmp o' a b) = Suc (max (eheight a) (eheight b))"
| "eheight (EAnd a b) = Suc (max (eheight a) (eheight b))"
| "eheight (EOr a b) = Suc (max (eheight a) (eheight b))"
| "eheight (ECond t a b) = Suc (max (eheight t) (max (eheight a) (eheight b)))"
| "eheight (ETier s e) = Suc (eheight e)"
| "eheight (EMax a b) = Suc (max (eheight a) (eheight b))"
| "eheight (EMin a b) = Suc (max (eheight a) (eheight b))"
| "eheight (EFun f e) = Suc (eheight e)"
| "eheight _ = 0"

fun evars :: "bexpr \<Rightarrow> string set" where
  "evars (EVar v) = {v}"
| "evars (ENot e) = evars e"
| "evars (EPlus e) = evars e"
| "evars (ENeg e) = evars e"
| "evars (EArith o' a b) = evars a \<union> evars b"
| "evars (ECmp o' a b) = evars a \<union> evars b"
| "evars (EAnd a b) = evars a \<union> evars b"
| "evars (EOr a b) = evars a \<union> evars b"
| "evars (ECond t a b) = evars t \<union> evars a \<union> evars b"
| "evars (ETier s e) = evars e"
| "evars (EMax a b) = evars a \<union> evars b"
| "evars (EMin a b) = evars a \<union> evars b"
| "evars (EFun f e) = evars e"
| "evars _ = {}"

fun etiers :: "bexpr \<Rightarrow> string set" where
  "etiers (ENot e) = etiers e"
| "etiers (EPlus e) = etiers e"
| "etiers (ENeg e) = etiers e"
| "etiers (EArith o' a b) = etiers a \<union> etiers b"
| "etiers (ECmp o' a b) = etiers a \<union> etiers b"
| "etiers (EAnd a b) = etiers a \<union> etiers b"
| "etiers (EOr a b) = etiers a \<union> etiers b"
| "etiers (ECond t a b) = etiers t \<union> etiers a \<union> etiers b"
| "etiers (ETier s e) = insert s (etiers e)"
| "etiers (EMax a b) = etiers a \<union> etiers b"
| "etiers (EMin a b) = etiers a \<union> etiers b"
| "etiers (EFun f e) = etiers e"
| "etiers _ = {}"

type_synonym meaning = "(BillingExpressionValue \<times> string list) option"

definition fin_num :: "jsnum \<Rightarrow> jsnum option" where
  "fin_num x = (if is_finite x then Some x else None)"

fun as_num :: "BillingExpressionValue \<Rightarrow> jsnum option" where
  "as_num (VNum x) = fin_num x"
| "as_num _ = None"

fun arith_sem :: "(jsnum \<Rightarrow> jsnum \<Rightarrow> jsnum) \<Rightarrow> arith_op \<Rightarrow> jsnum \<Rightarrow> jsnum \<Rightarrow> jsnum" where
  "arith_sem pw Add = js_add"
| "arith_sem pw Sub = js_sub"
| "arith_sem pw Mul = js_mul"
| "arith_sem pw Div = js_div"
| "arith_sem pw Rem = js_rem"
| "arith_sem pw Pow = pw"

fun cmp_sem :: "cmp_rel \<Rightarrow> jsnum \<Rightarrow> jsnum \<Rightarrow> bool" where
  "cmp_sem Lt x y = js_lt x y"
| "cmp_sem Le x y = js_le x y"
| "cmp_sem Gt x y = js_lt y x"
| "cmp_sem Ge x y = js_le y x"
| "cmp_sem Eq x y = js_eq x y"
| "cmp_sem Ne x y = (\<not> js_eq x y)"

fun fun_sem :: "unary_fun \<Rightarrow> jsnum \<Rightarrow> jsnum" where
  "fun_sem Abs = js_abs"
| "fun_sem Ceil = js_ceil"
| "fun_sem Floor = js_floor"

definition after :: "meaning \<Rightarrow> (BillingExpressionValue \<Rightarrow> meaning) \<Rightarrow> meaning" where
  "after m f =
     (case m of None \<Rightarrow> None | Some (v, tr) \<Rightarrow>
      (case f v of None \<Rightarrow> None | Some (w, tr') \<Rightarrow> Some (w, tr @ tr')))"

definition num1 :: "meaning \<Rightarrow> (jsnum \<Rightarrow> BillingExpressionValue) \<Rightarrow> meaning" where
  "num1 m f = after m (\<lambda>v. map_option (\<lambda>x. (f x, [])) (as_num v))"

definition num2 :: "meaning \<Rightarrow> meaning \<Rightarrow> (jsnum \<Rightarrow> jsnum \<Rightarrow> BillingExpressionValue option) \<Rightarrow> meaning" where
  "num2 m m' f =
     after m (\<lambda>v. after m' (\<lambda>w.
       case as_num v of None \<Rightarrow> None | Some x \<Rightarrow>
       (case as_num w of None \<Rightarrow> None | Some y \<Rightarrow> map_option (\<lambda>z. (z, [])) (f x y))))"

fun esem :: "(jsnum \<Rightarrow> jsnum \<Rightarrow> jsnum) \<Rightarrow> variables \<Rightarrow> bexpr \<Rightarrow> meaning" where
  "esem pw vars (ENum x) = Some (VNum x, [])"
| "esem pw vars (EStr s) = Some (VStr s, [])"
| "esem pw vars (EBool b) = Some (VBool b, [])"
| "esem pw vars (EVar v) = (case map_of vars v of None \<Rightarrow> None | Some x \<Rightarrow> map_option (\<lambda>y. (VNum y, [])) (fin_num x))"
| "esem pw vars (ENot e) = after (esem pw vars e) (\<lambda>v. Some (VBool (\<not> truthy_value v), []))"
| "esem pw vars (EPlus e) = num1 (esem pw vars e) VNum"
| "esem pw vars (ENeg e) = num1 (esem pw vars e) (\<lambda>x. VNum (js_neg x))"
| "esem pw vars (EArith o' a b) =
     num2 (esem pw vars a) (esem pw vars b) (\<lambda>x y. map_option VNum (fin_num (arith_sem pw o' x y)))"
| "esem pw vars (ECmp o' a b) = num2 (esem pw vars a) (esem pw vars b) (\<lambda>x y. Some (VBool (cmp_sem o' x y)))"
| "esem pw vars (EAnd a b) = after (esem pw vars a) (\<lambda>v. if truthy_value v then esem pw vars b else Some (v, []))"
| "esem pw vars (EOr a b) = after (esem pw vars a) (\<lambda>v. if truthy_value v then Some (v, []) else esem pw vars b)"
| "esem pw vars (ECond t a b) =
     after (esem pw vars t) (\<lambda>v. if truthy_value v then esem pw vars a else esem pw vars b)"
| "esem pw vars (ETier s e) = after (num1 (esem pw vars e) VNum) (\<lambda>v. Some (v, [s]))"
| "esem pw vars (EMax a b) = num2 (esem pw vars a) (esem pw vars b) (\<lambda>x y. Some (VNum (js_max x y)))"
| "esem pw vars (EMin a b) = num2 (esem pw vars a) (esem pw vars b) (\<lambda>x y. Some (VNum (js_min x y)))"
| "esem pw vars (EFun f e) = num1 (esem pw vars e) (\<lambda>x. VNum (fun_sem f x))"

section \<open>Trees and the expressions they stand for\<close>

definition arith_ops :: "(string \<times> arith_op) list" where
  "arith_ops = [(''+'', Add), (''-'', Sub), (''*'', Mul), (''/'', Div), (''%'', Rem), (''**'', Pow)]"

definition cmp_ops :: "(string \<times> cmp_rel) list" where
  "cmp_ops = [(''<'', Lt), (''<='', Le), (''>'', Gt), (''>='', Ge), (''=='', Eq), (''==='', Eq), (''!='', Ne), (''!=='', Ne)]"

definition unary_funs :: "(string \<times> unary_fun) list" where
  "unary_funs = [(''abs'', Abs), (''ceil'', Ceil), (''floor'', Floor)]"

definition calls :: "BillingExpressionNode \<Rightarrow> string \<Rightarrow> BillingExpressionNode list \<Rightarrow> bool" where
  "calls n f as \<longleftrightarrow> n_type n = ''CallExpression'' \<and> n_arguments n = Some as \<and>
     (\<exists>c. n_callee n = Some c \<and> n_type c = ''Identifier'' \<and> n_name c = Some f)"

inductive rep :: "BillingExpressionNode \<Rightarrow> bexpr \<Rightarrow> bool" where
  rep_num: "n_type n = ''Literal'' \<Longrightarrow> n_value n = LNum x \<Longrightarrow> rep n (ENum x)"
| rep_str: "n_type n = ''Literal'' \<Longrightarrow> n_value n = LStr s \<Longrightarrow> rep n (EStr s)"
| rep_bool: "n_type n = ''Literal'' \<Longrightarrow> n_value n = LBool b \<Longrightarrow> rep n (EBool b)"
| rep_var: "n_type n = ''Identifier'' \<Longrightarrow> n_name n = Some v \<Longrightarrow> v \<noteq> [] \<Longrightarrow> rep n (EVar v)"
| rep_not: "n_type n = ''UnaryExpression'' \<Longrightarrow> n_operator n = Some ''!'' \<Longrightarrow> n_argument n = Some a \<Longrightarrow>
    rep a e \<Longrightarrow> rep n (ENot e)"
| rep_plus: "n_type n = ''UnaryExpression'' \<Longrightarrow> n_operator n = Some ''+'' \<Longrightarrow> n_argument n = Some a \<Longrightarrow>
    rep a e \<Longrightarrow> rep n (EPlus e)"
| rep_neg: "n_type n = ''UnaryExpression'' \<Longrightarrow> n_operator n = Some ''-'' \<Longrightarrow> n_argument n = Some a \<Longrightarrow>
    rep a e \<Longrightarrow> rep n (ENeg e)"
| rep_arith: "n_type n = ''BinaryExpression'' \<Longrightarrow> n_operator n = Some op \<Longrightarrow> map_of arith_ops op = Some o' \<Longrightarrow>
    n_left n = Some l \<Longrightarrow> n_right n = Some r \<Longrightarrow> rep l a \<Longrightarrow> rep r b \<Longrightarrow> rep n (EArith o' a b)"
| rep_cmp: "n_type n = ''BinaryExpression'' \<Longrightarrow> n_operator n = Some op \<Longrightarrow> map_of cmp_ops op = Some o' \<Longrightarrow>
    n_left n = Some l \<Longrightarrow> n_right n = Some r \<Longrightarrow> rep l a \<Longrightarrow> rep r b \<Longrightarrow> rep n (ECmp o' a b)"
| rep_and: "n_type n = ''LogicalExpression'' \<Longrightarrow> n_operator n = Some ''&&'' \<Longrightarrow>
    n_left n = Some l \<Longrightarrow> n_right n = Some r \<Longrightarrow> rep l a \<Longrightarrow> rep r b \<Longrightarrow> rep n (EAnd a b)"
| rep_or: "n_type n = ''LogicalExpression'' \<Longrightarrow> n_operator n = Some ''||'' \<Longrightarrow>
    n_left n = Some l \<Longrightarrow> n_right n = Some r \<Longrightarrow> rep l a \<Longrightarrow> rep r b \<Longrightarrow> rep n (EOr a b)"
| rep_cond: "n_type n = ''ConditionalExpression'' \<Longrightarrow> n_test n = Some t \<Longrightarrow> n_consequent n = Some l \<Longrightarrow>
    n_alternate n = Some r \<Longrightarrow> rep t e \<Longrightarrow> rep l a \<Longrightarrow> rep r b \<Longrightarrow> rep n (ECond e a b)"
| rep_tier: "calls n ''tier'' [l, a] \<Longrightarrow> n_type l = ''Literal'' \<Longrightarrow> n_value l = LStr s \<Longrightarrow> rep a e \<Longrightarrow>
    rep n (ETier s e)"
| rep_max: "calls n ''max'' [l, r] \<Longrightarrow> rep l a \<Longrightarrow> rep r b \<Longrightarrow> rep n (EMax a b)"
| rep_min: "calls n ''min'' [l, r] \<Longrightarrow> rep l a \<Longrightarrow> rep r b \<Longrightarrow> rep n (EMin a b)"
| rep_fun: "calls n g [a] \<Longrightarrow> map_of unary_funs g = Some f \<Longrightarrow> rep a e \<Longrightarrow> rep n (EFun f e)"

section \<open>What validation accepts\<close>

lemma assert_Inr [simp]: "assertBillingExpression b m = Inr u \<longleftrightarrow> b"
  by (simp add: assertBillingExpression_def)

lemma operator_Inr [simp]: "requireBillingOperator n = Inr op \<longleftrightarrow> n_operator n = Some op"
  by (auto simp: requireBillingOperator_def split: option.splits)

lemma name_Inr [simp]: "requireBillingNodeName n c = Inr s \<longleftrightarrow> n_name n = Some s \<and> s \<noteq> []"
  by (auto simp: requireBillingNodeName_def split: option.splits)

lemma entry_Inr [simp]: "requireBillingEntry es k c = Inr v \<longleftrightarrow> map_of es k = Some v"
  by (auto simp: requireBillingEntry_def split: option.splits)

lemmas vsimp = validateBillingNode.simps sbind_Inr_iff

lemma validate_bounds:
  "validateBillingNode vars n k d = Inr k' \<Longrightarrow> Suc k \<le> MAX_BILLING_EXPRESSION_NODES \<and> d \<le> MAX_BILLING_EXPRESSION_DEPTH"
  by (auto simp: vsimp)

lemma validate_unary:
  "n_type n = ''UnaryExpression'' \<Longrightarrow> validateBillingNode vars n k d = Inr k' \<Longrightarrow>
    \<exists>op a. n_operator n = Some op \<and> op \<in> {''!'', ''+'', ''-''} \<and> n_argument n = Some a \<and>
      validateBillingNode vars a (Suc k) (Suc d) = Inr k'"
  by (subst (asm) validateBillingNode.simps)
    (auto simp: sbind_Inr_iff BILLING_UNARY_EVALUATORS_def split: if_splits)

lemma binary_entry:
  "map_of (BILLING_BINARY_EVALUATORS pw) op = Some f \<Longrightarrow>
    (\<exists>o'. map_of arith_ops op = Some o' \<and> f = (\<lambda>x y. number_output (arith_sem pw o' x y) (the (map_of
       [(''+'', ''Addition output''), (''-'', ''Subtraction output''), (''*'', ''Multiplication output''),
        (''/'', ''Division output''), (''%'', ''Remainder output''), (''**'', ''Exponentiation output'')] op)))) \<or>
    (\<exists>o'. map_of cmp_ops op = Some o' \<and> f = (\<lambda>x y. Inr (VBool (cmp_sem o' x y))))"
  by (auto simp: BILLING_BINARY_EVALUATORS_def arith_ops_def cmp_ops_def split: if_splits)

lemma validate_binary:
  "n_type n = ''BinaryExpression'' \<Longrightarrow> validateBillingNode vars n k d = Inr k' \<Longrightarrow>
    \<exists>op l r k1. n_operator n = Some op \<and> (map_of arith_ops op \<noteq> None \<or> map_of cmp_ops op \<noteq> None) \<and>
      n_left n = Some l \<and> n_right n = Some r \<and>
      validateBillingNode vars l (Suc k) (Suc d) = Inr k1 \<and> validateBillingNode vars r k1 (Suc d) = Inr k'"
  by (subst (asm) validateBillingNode.simps) (auto simp: sbind_Inr_iff dest!: binary_entry)

lemma validate_logical:
  "n_type n = ''LogicalExpression'' \<Longrightarrow> validateBillingNode vars n k d = Inr k' \<Longrightarrow>
    \<exists>op l r k1. n_operator n = Some op \<and> (op = ''&&'' \<or> op = ''||'') \<and> n_left n = Some l \<and> n_right n = Some r \<and>
      validateBillingNode vars l (Suc k) (Suc d) = Inr k1 \<and> validateBillingNode vars r k1 (Suc d) = Inr k'"
  by (subst (asm) validateBillingNode.simps) (auto simp: sbind_Inr_iff BILLING_LOGICAL_OPERATORS_def)

lemma validate_cond:
  "n_type n = ''ConditionalExpression'' \<Longrightarrow> validateBillingNode vars n k d = Inr k' \<Longrightarrow>
    \<exists>t l r k1 k2. n_test n = Some t \<and> n_consequent n = Some l \<and> n_alternate n = Some r \<and>
      validateBillingNode vars t (Suc k) (Suc d) = Inr k1 \<and> validateBillingNode vars l k1 (Suc d) = Inr k2 \<and>
      validateBillingNode vars r k2 (Suc d) = Inr k'"
  by (subst (asm) validateBillingNode.simps) (auto simp: sbind_Inr_iff)

lemma validate_leaf:
  "n_type n = ''Literal'' \<Longrightarrow> validateBillingNode vars n k d = Inr k' \<Longrightarrow>
     k' = Suc k \<and> ((\<exists>x. n_value n = LNum x) \<or> (\<exists>s. n_value n = LStr s) \<or> (\<exists>b. n_value n = LBool b))"
  "n_type n = ''Identifier'' \<Longrightarrow> validateBillingNode vars n k d = Inr k' \<Longrightarrow>
     k' = Suc k \<and> (\<exists>v. n_name n = Some v \<and> v \<noteq> [] \<and> v \<in> fst ` set vars)"
proof -
  show "n_type n = ''Literal'' \<Longrightarrow> validateBillingNode vars n k d = Inr k' \<Longrightarrow>
     k' = Suc k \<and> ((\<exists>x. n_value n = LNum x) \<or> (\<exists>s. n_value n = LStr s) \<or> (\<exists>b. n_value n = LBool b))"
    by (subst (asm) validateBillingNode.simps; cases "n_value n") (auto simp: sbind_Inr_iff validate_literal_def)
  show "n_type n = ''Identifier'' \<Longrightarrow> validateBillingNode vars n k d = Inr k' \<Longrightarrow>
     k' = Suc k \<and> (\<exists>v. n_name n = Some v \<and> v \<noteq> [] \<and> v \<in> fst ` set vars)"
    by (subst (asm) validateBillingNode.simps)
      (force simp: sbind_Inr_iff validate_identifier_def image_iff dest!: map_of_SomeD)
qed

lemma validate_call_head_cases:
  assumes "validate_call_head n = Inr as" and "n_type n = ''CallExpression''"
  shows "(\<exists>l a s. calls n ''tier'' [l, a] \<and> as = [l, a] \<and> n_type l = ''Literal'' \<and> n_value l = LStr s) \<or>
    (\<exists>l r. calls n ''max'' [l, r] \<and> as = [l, r]) \<or> (\<exists>l r. calls n ''min'' [l, r] \<and> as = [l, r]) \<or>
    (\<exists>g f a. calls n g [a] \<and> as = [a] \<and> map_of unary_funs g = Some f)"
proof -
  obtain c fn spec where c: "n_callee n = Some c" "n_type c = ''Identifier''" "n_name c = Some fn"
    "map_of BILLING_FUNCTION_SPECS fn = Some spec" "n_arguments n = Some as"
    "minimumArguments spec \<le> length as" "length as \<le> maximumArguments spec" "validateArguments spec as = Inr ()"
    using assms(1) by (auto simp: validate_call_head_def sbind_Inr_iff)
  then have calls: "calls n fn as" using assms(2) by (simp add: calls_def)
  have two: "\<exists>l r. as = [l, r]" if "2 \<le> length as" "length as \<le> 2"
    using that by (cases as; cases "tl as") auto
  have one: "\<exists>a. as = [a]" if "1 \<le> length as" "length as \<le> 1"
    using that by (cases as) auto
  consider "fn = ''tier''" "spec = tier_spec" | "fn = ''max''" "spec = max_spec" | "fn = ''min''" "spec = min_spec"
    | f h m where "map_of unary_funs fn = Some f" "spec = unary_spec h m"
    using c(4) by (auto simp: BILLING_FUNCTION_SPECS_def unary_funs_def split: if_splits)
  then show ?thesis
  proof cases
    case 1
    obtain l a where as: "as = [l, a]" using two c(6,7) 1 by (auto simp: tier_spec_def)
    then have "n_type l = ''Literal'' \<and> (\<exists>s. n_value l = LStr s)"
      using c(8) 1 by (auto simp: tier_spec_def sbind_Inr_iff split: literal_value.splits)
    then show ?thesis using calls 1 as by blast
  next
    case 2
    then show ?thesis using calls two c(6,7) by (auto simp: max_spec_def)
  next
    case 3
    then show ?thesis using calls two c(6,7) by (auto simp: min_spec_def)
  next
    case 4
    then show ?thesis using calls one c(6,7) by (auto simp: unary_spec_def)
  qed
qed

lemma validate_call:
  "n_type n = ''CallExpression'' \<Longrightarrow> validateBillingNode vars n k d = Inr k' \<Longrightarrow>
    \<exists>as. validate_call_head n = Inr as \<and> validate_arguments vars as (Suc k) (Suc d) = Inr k'"
  by (subst (asm) validateBillingNode.simps) (auto simp: sbind_Inr_iff)

lemma validate_type:
  "validateBillingNode vars n k d = Inr k' \<Longrightarrow> n_type n \<in> {''Literal'', ''Identifier'', ''UnaryExpression'',
     ''BinaryExpression'', ''LogicalExpression'', ''ConditionalExpression'', ''CallExpression''}"
  by (subst (asm) validateBillingNode.simps) (auto simp: sbind_Inr_iff split: if_splits)

lemma calls_size: "calls n f as \<Longrightarrow> a \<in> set as \<Longrightarrow> size a < size n"
proof -
  assume "calls n f as" "a \<in> set as"
  then have "size_list size as < size n" "size a \<le> size_list size as"
    using child_size(7) [of n as] by (auto simp: calls_def size_list_estimation')
  then show ?thesis by simp
qed

text \<open>\<open>accepts vars n k d k' e\<close>: \<open>n\<close> stands for \<open>e\<close>, whose size the counter has grown by, whose
  height fits under the depth limit and whose variables are known.\<close>

definition accepts :: "variables \<Rightarrow> BillingExpressionNode \<Rightarrow> nat \<Rightarrow> nat \<Rightarrow> nat \<Rightarrow> bexpr \<Rightarrow> bool" where
  "accepts vars n k d k' e \<longleftrightarrow> rep n e \<and> k' = k + esize e \<and> d + eheight e \<le> MAX_BILLING_EXPRESSION_DEPTH \<and>
     evars e \<subseteq> fst ` set vars"

lemma accepts_two:
  assumes "accepts vars l (Suc k) (Suc d) k1 a" "accepts vars r k1 (Suc d) k' b"
    and "rep l a \<Longrightarrow> rep r b \<Longrightarrow> rep n e" "esize e = Suc (esize a + esize b)"
    "eheight e = Suc (max (eheight a) (eheight b))" "evars e = evars a \<union> evars b"
  shows "accepts vars n k d k' e"
  using assms by (auto simp: accepts_def)

lemma accepts_one:
  assumes "accepts vars a (Suc k) (Suc d) k' e'"
    and "rep a e' \<Longrightarrow> rep n e" "esize e = Suc (esize e')" "eheight e = Suc (eheight e')" "evars e = evars e'"
  shows "accepts vars n k d k' e"
  using assms by (auto simp: accepts_def)

lemma accepts_literal:
  assumes ty: "n_type n = ''Literal''" and v: "validateBillingNode vars n k d = Inr k'"
  shows "\<exists>e. accepts vars n k d k' e"
  using validate_leaf(1) [OF ty v] validate_bounds [OF v] rep_num [OF ty] rep_str [OF ty] rep_bool [OF ty]
  by (elim conjE disjE exE) (fastforce simp: accepts_def intro: exI [of _ "ENum _"] exI [of _ "EStr _"] exI [of _ "EBool _"])+

lemma accepts_identifier:
  assumes ty: "n_type n = ''Identifier''" and v: "validateBillingNode vars n k d = Inr k'"
  shows "\<exists>e. accepts vars n k d k' e"
proof -
  obtain x where "k' = Suc k" "n_name n = Some x" "x \<noteq> []" "x \<in> fst ` set vars"
    using validate_leaf(2) [OF ty v] by blast
  then have "accepts vars n k d k' (EVar x)" using validate_bounds [OF v] rep_var [OF ty] by (simp add: accepts_def)
  then show ?thesis ..
qed

lemma accepts_unary:
  assumes ty: "n_type n = ''UnaryExpression''" and v: "validateBillingNode vars n k d = Inr k'"
    and IH: "\<And>a k d k'. size a < size n \<Longrightarrow> validateBillingNode vars a k d = Inr k' \<Longrightarrow> \<exists>e. accepts vars a k d k' e"
  shows "\<exists>e. accepts vars n k d k' e"
proof -
  obtain op a where a: "n_operator n = Some op" "op \<in> {''!'', ''+'', ''-''}" "n_argument n = Some a"
    "validateBillingNode vars a (Suc k) (Suc d) = Inr k'"
    using validate_unary [OF ty v] by blast
  obtain e where e: "accepts vars a (Suc k) (Suc d) k' e" using IH [OF child_size(1) [OF a(3)] a(4)] by blast
  note r = rep_not [OF ty _ a(3)] rep_plus [OF ty _ a(3)] rep_neg [OF ty _ a(3)]
  have "accepts vars n k d k' (ENot e) \<or> accepts vars n k d k' (EPlus e) \<or> accepts vars n k d k' (ENeg e)"
    using a(1,2) by (elim insertE emptyE) (simp_all add: accepts_one [OF e r(1)] accepts_one [OF e r(2)] accepts_one [OF e r(3)])
  then show ?thesis by blast
qed

lemma accepts_binary:
  assumes ty: "n_type n = ''BinaryExpression''" and v: "validateBillingNode vars n k d = Inr k'"
    and IH: "\<And>a k d k'. size a < size n \<Longrightarrow> validateBillingNode vars a k d = Inr k' \<Longrightarrow> \<exists>e. accepts vars a k d k' e"
  shows "\<exists>e. accepts vars n k d k' e"
proof -
  obtain op l r k1 where b: "n_operator n = Some op" "map_of arith_ops op \<noteq> None \<or> map_of cmp_ops op \<noteq> None"
    "n_left n = Some l" "n_right n = Some r" "validateBillingNode vars l (Suc k) (Suc d) = Inr k1"
    "validateBillingNode vars r k1 (Suc d) = Inr k'" using validate_binary [OF ty v] by blast
  obtain x y where xy: "accepts vars l (Suc k) (Suc d) k1 x" "accepts vars r k1 (Suc d) k' y"
    using IH [OF child_size(2) [OF b(3)] b(5)] IH [OF child_size(3) [OF b(4)] b(6)] by blast
  show ?thesis
  proof (cases "map_of arith_ops op")
    case (Some o')
    then have "accepts vars n k d k' (EArith o' x y)"
      by (intro accepts_two [OF xy]) (auto intro: rep_arith [OF ty b(1) _ b(3,4)])
    then show ?thesis ..
  next
    case None
    then obtain o' where "map_of cmp_ops op = Some o'" using b(2) by blast
    then have "accepts vars n k d k' (ECmp o' x y)"
      by (intro accepts_two [OF xy]) (auto intro: rep_cmp [OF ty b(1) _ b(3,4)])
    then show ?thesis ..
  qed
qed

lemma accepts_logical:
  assumes ty: "n_type n = ''LogicalExpression''" and v: "validateBillingNode vars n k d = Inr k'"
    and IH: "\<And>a k d k'. size a < size n \<Longrightarrow> validateBillingNode vars a k d = Inr k' \<Longrightarrow> \<exists>e. accepts vars a k d k' e"
  shows "\<exists>e. accepts vars n k d k' e"
proof -
  obtain op l r k1 where b: "n_operator n = Some op" "op = ''&&'' \<or> op = ''||''"
    "n_left n = Some l" "n_right n = Some r" "validateBillingNode vars l (Suc k) (Suc d) = Inr k1"
    "validateBillingNode vars r k1 (Suc d) = Inr k'" using validate_logical [OF ty v] by blast
  obtain x y where xy: "accepts vars l (Suc k) (Suc d) k1 x" "accepts vars r k1 (Suc d) k' y"
    using IH [OF child_size(2) [OF b(3)] b(5)] IH [OF child_size(3) [OF b(4)] b(6)] by blast
  have "accepts vars n k d k' (EAnd x y) \<or> accepts vars n k d k' (EOr x y)"
    using b(1,2) rep_and [OF ty _ b(3,4)] rep_or [OF ty _ b(3,4)]
    by (elim disjE; intro disjI1 disjI2 accepts_two [OF xy]) auto
  then show ?thesis by blast
qed

lemma accepts_cond:
  assumes ty: "n_type n = ''ConditionalExpression''" and v: "validateBillingNode vars n k d = Inr k'"
    and IH: "\<And>a k d k'. size a < size n \<Longrightarrow> validateBillingNode vars a k d = Inr k' \<Longrightarrow> \<exists>e. accepts vars a k d k' e"
  shows "\<exists>e. accepts vars n k d k' e"
proof -
  obtain t l r k1 k2 where b: "n_test n = Some t" "n_consequent n = Some l" "n_alternate n = Some r"
    "validateBillingNode vars t (Suc k) (Suc d) = Inr k1" "validateBillingNode vars l k1 (Suc d) = Inr k2"
    "validateBillingNode vars r k2 (Suc d) = Inr k'" using validate_cond [OF ty v] by blast
  obtain z x y where "accepts vars t (Suc k) (Suc d) k1 z" "accepts vars l k1 (Suc d) k2 x" "accepts vars r k2 (Suc d) k' y"
    using IH [OF child_size(4) [OF b(1)] b(4)] IH [OF child_size(5) [OF b(2)] b(5)]
      IH [OF child_size(6) [OF b(3)] b(6)] by blast
  then have "accepts vars n k d k' (ECond z x y)" using rep_cond [OF ty b(1-3)] by (auto simp: accepts_def)
  then show ?thesis ..
qed

lemma accepts_call:
  assumes ty: "n_type n = ''CallExpression''" and v: "validateBillingNode vars n k d = Inr k'"
    and IH: "\<And>a k d k'. size a < size n \<Longrightarrow> validateBillingNode vars a k d = Inr k' \<Longrightarrow> \<exists>e. accepts vars a k d k' e"
  shows "\<exists>e. accepts vars n k d k' e"
proof -
  obtain as where as: "validate_call_head n = Inr as" "validate_arguments vars as (Suc k) (Suc d) = Inr k'"
    using validate_call [OF ty v] by blast
  from validate_call_head_cases [OF as(1) ty]
  consider (t) l a s where "calls n ''tier'' [l, a]" "as = [l, a]" "n_type l = ''Literal''" "n_value l = LStr s"
    | (mx) l r where "calls n ''max'' [l, r]" "as = [l, r]" | (mn) l r where "calls n ''min'' [l, r]" "as = [l, r]"
    | (un) g f a where "calls n g [a]" "as = [a]" "map_of unary_funs g = Some f" by blast
  then show ?thesis
  proof cases
    case t
    then obtain k1 where k1: "validateBillingNode vars l (Suc k) (Suc d) = Inr k1" "validateBillingNode vars a k1 (Suc d) = Inr k'"
      using as(2) by (auto simp: sbind_Inr_iff)
    obtain e where "accepts vars a k1 (Suc d) k' e" using IH [OF calls_size [OF t(1)] k1(2)] by auto
    then have "accepts vars n k d k' (ETier s e)"
      using validate_leaf(1) [OF t(3) k1(1)] rep_tier [OF t(1,3,4)] by (auto simp: accepts_def)
    then show ?thesis ..
  next
    case mx
    then obtain k1 where k1: "validateBillingNode vars l (Suc k) (Suc d) = Inr k1" "validateBillingNode vars r k1 (Suc d) = Inr k'"
      using as(2) by (auto simp: sbind_Inr_iff)
    obtain x y where "accepts vars l (Suc k) (Suc d) k1 x" "accepts vars r k1 (Suc d) k' y"
      using IH [OF calls_size [OF mx(1)] k1(1)] IH [OF calls_size [OF mx(1)] k1(2)] by auto
    then have "accepts vars n k d k' (EMax x y)" by (rule accepts_two) (auto intro: rep_max [OF mx(1)])
    then show ?thesis ..
  next
    case mn
    then obtain k1 where k1: "validateBillingNode vars l (Suc k) (Suc d) = Inr k1" "validateBillingNode vars r k1 (Suc d) = Inr k'"
      using as(2) by (auto simp: sbind_Inr_iff)
    obtain x y where "accepts vars l (Suc k) (Suc d) k1 x" "accepts vars r k1 (Suc d) k' y"
      using IH [OF calls_size [OF mn(1)] k1(1)] IH [OF calls_size [OF mn(1)] k1(2)] by auto
    then have "accepts vars n k d k' (EMin x y)" by (rule accepts_two) (auto intro: rep_min [OF mn(1)])
    then show ?thesis ..
  next
    case un
    then have k1: "validateBillingNode vars a (Suc k) (Suc d) = Inr k'" using as(2) by (auto simp: sbind_Inr_iff)
    obtain e where e: "accepts vars a (Suc k) (Suc d) k' e" using IH [OF calls_size [OF un(1)] k1] by auto
    have "accepts vars n k d k' (EFun f e)" by (rule accepts_one [OF e]) (auto intro: rep_fun [OF un(1,3)])
    then show ?thesis ..
  qed
qed

lemma validate_accepts:
  "validateBillingNode vars n k d = Inr k' \<Longrightarrow> \<exists>e. accepts vars n k d k' e"
proof (induction n arbitrary: k d k' rule: measure_induct_rule [of size])
  case (less n)
  then show ?case using validate_type [OF less.prems] accepts_literal [OF _ less.prems]
      accepts_identifier [OF _ less.prems] accepts_unary [OF _ less.prems] accepts_binary [OF _ less.prems]
      accepts_logical [OF _ less.prems] accepts_cond [OF _ less.prems] accepts_call [OF _ less.prems]
    by blast
qed

section \<open>The evaluator computes the meaning\<close>

definition numeric_error :: "string \<Rightarrow> bool" where
  "numeric_error msg \<longleftrightarrow> ends_with '' must produce a finite number'' msg"

text \<open>\<open>agrees res t m\<close>: a run that started with \<open>matchedTier = t\<close> ended as \<open>m\<close> says.\<close>

definition agrees :: "string + (BillingExpressionValue \<times> string) \<Rightarrow> string \<Rightarrow> meaning \<Rightarrow> bool" where
  "agrees res t m =
     (case m of
        None \<Rightarrow> \<exists>msg. res = Inl msg \<and> numeric_error msg
      | Some (v, tr) \<Rightarrow> res = Inr (v, last (t # tr)))"

lemma agrees_numeric_error [simp]: "numeric_error msg \<Longrightarrow> agrees (Inl msg) t None"
  by (simp add: agrees_def)

lemma numeric_error_ctx [simp]: "numeric_error (ctx @ '' must produce a finite number'')"
  by (simp add: numeric_error_def ends_with_iff)

lemma numeric_error_Cons [simp]: "numeric_error s \<Longrightarrow> numeric_error (c # s)"
  by (auto simp: numeric_error_def ends_with_iff)

lemma numeric_error_base [simp]: "numeric_error '' must produce a finite number''"
  using numeric_error_ctx [of "[]"] by simp

lemma last_last: "last (last (t # tr) # u) = last (t # tr @ u)"
  by (cases u) auto

lemma agrees_pure [simp]: "agrees (Inr (v, t')) t (Some (v, [])) \<longleftrightarrow> t' = t"
  by (simp add: agrees_def)

lemma agrees_after:
  assumes "agrees r t m" and "\<And>v t'. agrees (f (v, t')) t' (g v)"
  shows "agrees (sbind r f) t (after m g)"
proof (cases m)
  case None
  then show ?thesis using assms(1) by (auto simp: agrees_def after_def)
next
  case (Some p)
  obtain v tr where p: "p = (v, tr)" by (cases p)
  have r: "r = Inr (v, last (t # tr))" using assms(1) Some p by (simp add: agrees_def)
  show ?thesis using assms(2) [of v "last (t # tr)"] Some p r
    by (auto simp: agrees_def after_def last_last simp del: last.simps split: option.splits)
qed

lemma requireNumber_cases:
  "requireBillingNumber (Some v) ctx =
     (case as_num v of None \<Rightarrow> Inl (ctx @ '' must produce a finite number'') | Some x \<Rightarrow> Inr x)"
  by (cases v) (auto simp: requireBillingNumber_def fin_num_def)

lemma agrees_number:
  "agrees (sbind (requireBillingNumber (Some v) ctx) (\<lambda>x. Inr (g x, t))) t (map_option (\<lambda>x. (g x, [])) (as_num v))"
  by (auto simp: requireNumber_cases split: option.splits)

lemma number_output_eq:
  "number_output x ctx = (case fin_num x of None \<Rightarrow> Inl (ctx @ '' must produce a finite number'') | Some y \<Rightarrow> Inr (VNum y))"
  by (auto simp: number_output_def requireBillingNumber_def fin_num_def)

lemma agrees_binary:
  assumes "map_of arith_ops op = Some o'"
  shows "agrees (sbind (evaluateBillingBinary pw op v w) (\<lambda>x. Inr (x, t))) t
    (case as_num v of None \<Rightarrow> None | Some x \<Rightarrow> (case as_num w of None \<Rightarrow> None
       | Some y \<Rightarrow> map_option (\<lambda>z. (z, [])) (map_option VNum (fin_num (arith_sem pw o' x y)))))"
proof -
  obtain f where f: "map_of (BILLING_BINARY_EVALUATORS pw) op = Some f"
    using assms by (auto simp: BILLING_BINARY_EVALUATORS_def arith_ops_def split: if_splits)
  then obtain ctx where "f = (\<lambda>x y. number_output (arith_sem pw o' x y) ctx)"
    using binary_entry [OF f] assms by (auto simp: arith_ops_def cmp_ops_def split: if_splits)
  then show ?thesis using f
    by (auto simp: evaluateBillingBinary_def requireNumber_cases requireBillingEntry_def number_output_eq
      split: option.splits)
qed

lemma agrees_compare:
  assumes "map_of cmp_ops op = Some o'"
  shows "agrees (sbind (evaluateBillingBinary pw op v w) (\<lambda>x. Inr (x, t))) t
    (case as_num v of None \<Rightarrow> None | Some x \<Rightarrow> (case as_num w of None \<Rightarrow> None
       | Some y \<Rightarrow> map_option (\<lambda>z. (z, [])) (Some (VBool (cmp_sem o' x y)))))"
proof -
  obtain f where f: "map_of (BILLING_BINARY_EVALUATORS pw) op = Some f"
    using assms by (auto simp: BILLING_BINARY_EVALUATORS_def cmp_ops_def split: if_splits)
  then have "f = (\<lambda>x y. Inr (VBool (cmp_sem o' x y)))"
    using binary_entry [OF f] assms by (auto simp: arith_ops_def cmp_ops_def split: if_splits)
  then show ?thesis using f
    by (auto simp: evaluateBillingBinary_def requireNumber_cases requireBillingEntry_def split: option.splits)
qed

lemma fin_num_max: "as_num v = Some x \<Longrightarrow> as_num w = Some y \<Longrightarrow>
    foldl js_max NegInfinity [x, y] = js_max x y \<and> is_finite (js_max x y)"
  "as_num v = Some x \<Longrightarrow> as_num w = Some y \<Longrightarrow>
    foldl js_min Infinity [x, y] = js_min x y \<and> is_finite (js_min x y)"
  by (cases v; cases w; cases x; cases y;
    simp add: fin_num_def js_max_def js_min_def split: if_splits)+

lemma agrees_max:
  "agrees (evaluateArguments max_spec [v, w] t) t
    (case as_num v of None \<Rightarrow> None | Some x \<Rightarrow> (case as_num w of None \<Rightarrow> None
       | Some y \<Rightarrow> map_option (\<lambda>z. (z, [])) (Some (VNum (js_max x y)))))"
  using fin_num_max(1) [of v _ w]
  by (auto simp: max_spec_def requireNumber_cases number_output_eq fin_num_def
    split: option.splits)

lemma agrees_min:
  "agrees (evaluateArguments min_spec [v, w] t) t
    (case as_num v of None \<Rightarrow> None | Some x \<Rightarrow> (case as_num w of None \<Rightarrow> None
       | Some y \<Rightarrow> map_option (\<lambda>z. (z, [])) (Some (VNum (js_min x y)))))"
  using fin_num_max(2) [of v _ w]
  by (auto simp: min_spec_def requireNumber_cases number_output_eq fin_num_def
    split: option.splits)

lemma evaluate_calls:
  assumes "calls n fn as" "map_of BILLING_FUNCTION_SPECS fn = Some f" "fn \<noteq> []"
  shows "evaluateBillingNode pw vars n t =
    sbind (evaluate_arguments pw vars as t) (\<lambda>(vs, t1). evaluateArguments f vs t1)"
  using assms
  by (subst evaluateBillingNode.simps)
    (auto simp: calls_def evaluate_call_head_def requireBillingNode_def requireBillingNodeName_def
      requireBillingEntry_def requireBillingArguments_def)

lemmas require_simps = requireBillingNode_def requireBillingNodeName_def requireBillingOperator_def
  requireBillingEntry_def requireBillingArguments_def

lemma sbind_assoc: "sbind (sbind r f) g = sbind r (\<lambda>x. sbind (f x) g)"
  by (cases r) auto

lemma agrees_args2:
  assumes "\<And>t. agrees (evaluateBillingNode pw vars l t) t a" and "\<And>t. agrees (evaluateBillingNode pw vars r t) t b"
    and "\<And>v w t'. agrees (h [v, w] t') t' (g v w)"
  shows "agrees (sbind (evaluate_arguments pw vars [l, r] t) (\<lambda>(vs, t1). h vs t1)) t
    (after a (\<lambda>v. after b (\<lambda>w. g v w)))"
proof -
  have "sbind (evaluate_arguments pw vars [l, r] t) (\<lambda>(vs, t1). h vs t1) =
    sbind (evaluateBillingNode pw vars l t) (\<lambda>(v, t1).
      sbind (evaluateBillingNode pw vars r t1) (\<lambda>(w, t2). h [v, w] t2))"
    by (simp add: sbind_assoc case_prod_unfold)
  then show ?thesis using assms by (auto intro!: agrees_after)
qed

lemma agrees_args1:
  assumes "\<And>t. agrees (evaluateBillingNode pw vars a t) t m" and "\<And>v t'. agrees (h [v] t') t' (g v)"
  shows "agrees (sbind (evaluate_arguments pw vars [a] t) (\<lambda>(vs, t1). h vs t1)) t (after m g)"
proof -
  have "sbind (evaluate_arguments pw vars [a] t) (\<lambda>(vs, t1). h vs t1) =
    sbind (evaluateBillingNode pw vars a t) (\<lambda>(v, t1). h [v] t1)"
    by (simp add: sbind_assoc case_prod_unfold)
  then show ?thesis using assms by (auto intro!: agrees_after)
qed

lemma agrees_tier:
  "agrees (evaluateArguments tier_spec [VStr s, w] t) t (after (map_option (\<lambda>x. (VNum x, [])) (as_num w)) (\<lambda>v. Some (v, [s])))"
  by (auto simp: tier_spec_def requireBillingString_def arg_def requireNumber_cases after_def agrees_def
    split: option.splits)

lemma after_assoc: "after (after m f) g = after m (\<lambda>v. after (f v) g)"
  by (auto simp: after_def split: option.splits)

lemma after_pure [simp]: "after (Some (v, [])) f = f v"
  by (auto simp: after_def split: option.splits)

lemma eval_unary:
  assumes "n_type n = ''UnaryExpression''" "n_operator n = Some op" "n_argument n = Some a"
    "map_of BILLING_UNARY_EVALUATORS op = Some f"
    and "\<And>t. agrees (evaluateBillingNode pw vars a t) t m"
    and "\<And>v t'. agrees (sbind (f v) (\<lambda>w. Inr (w, t'))) t' (g v)"
  shows "agrees (evaluateBillingNode pw vars n t) t (after m g)"
  using assms by (subst evaluateBillingNode.simps) (auto simp: require_simps intro!: agrees_after)

lemma eval_binary:
  assumes "n_type n = ''BinaryExpression''" "n_operator n = Some op" "n_left n = Some l" "n_right n = Some r"
    and "\<And>t. agrees (evaluateBillingNode pw vars l t) t a" "\<And>t. agrees (evaluateBillingNode pw vars r t) t b"
    and "\<And>v w t. agrees (sbind (evaluateBillingBinary pw op v w) (\<lambda>x. Inr (x, t))) t (g v w)"
  shows "agrees (evaluateBillingNode pw vars n t) t (after a (\<lambda>v. after b (\<lambda>w. g v w)))"
  using assms by (subst evaluateBillingNode.simps) (auto simp: require_simps intro!: agrees_after)

lemma agrees_if: "(b \<Longrightarrow> agrees r t m) \<Longrightarrow> (\<not> b \<Longrightarrow> agrees r' t m') \<Longrightarrow> agrees (if b then r else r') t (if b then m else m')"
  by simp

lemma eval_logical:
  assumes "n_type n = ''LogicalExpression''" "n_left n = Some l" "n_right n = Some r"
    and "\<And>t. agrees (evaluateBillingNode pw vars l t) t a" "\<And>t. agrees (evaluateBillingNode pw vars r t) t b"
  shows "n_operator n = Some ''&&'' \<Longrightarrow> agrees (evaluateBillingNode pw vars n t) t
      (after a (\<lambda>v. if truthy_value v then b else Some (v, [])))"
    and "n_operator n = Some ''||'' \<Longrightarrow> agrees (evaluateBillingNode pw vars n t) t
      (after a (\<lambda>v. if truthy_value v then Some (v, []) else b))"
  using assms by (subst evaluateBillingNode.simps; auto simp: require_simps intro!: agrees_after agrees_if)+

lemma eval_cond:
  assumes "n_type n = ''ConditionalExpression''" "n_test n = Some t'" "n_consequent n = Some l" "n_alternate n = Some r"
    and "\<And>t. agrees (evaluateBillingNode pw vars t' t) t c" "\<And>t. agrees (evaluateBillingNode pw vars l t) t a"
      "\<And>t. agrees (evaluateBillingNode pw vars r t) t b"
  shows "agrees (evaluateBillingNode pw vars n t) t (after c (\<lambda>v. if truthy_value v then a else b))"
  using assms by (subst evaluateBillingNode.simps) (auto simp: require_simps intro!: agrees_after agrees_if)

lemma eval_literal:
  "n_type n = ''Literal'' \<Longrightarrow> literal_result (n_value n) = Inr v \<Longrightarrow> evaluateBillingNode pw vars n t = Inr (v, t)"
  by (subst evaluateBillingNode.simps) simp

lemma function_specs:
  "map_of BILLING_FUNCTION_SPECS ''max'' = Some max_spec"
  "map_of BILLING_FUNCTION_SPECS ''min'' = Some min_spec"
  "map_of unary_funs g = Some f \<Longrightarrow> \<exists>ctx. map_of BILLING_FUNCTION_SPECS g = Some (unary_spec (fun_sem f) ctx) \<and> g \<noteq> []"
  by (auto simp: BILLING_FUNCTION_SPECS_def unary_funs_def split: if_splits)

lemma agrees_unary_fun:
  "agrees (evaluateArguments (unary_spec h ctx) [v] t) t (map_option (\<lambda>x. (VNum (h x), [])) (as_num v))"
  using agrees_number [of v ctx "\<lambda>x. VNum (h x)" t] by (simp add: unary_spec_def arg_def)

lemma rep_eval:
  assumes "rep n e" and "evars e \<subseteq> fst ` set vars"
  shows "agrees (evaluateBillingNode pw vars n t) t (esem pw vars e)"
  using assms
proof (induction arbitrary: t rule: rep.induct)
  case (rep_var n v)
  then obtain x where "map_of vars v = Some x" using map_of_eq_None_iff [of vars v] by auto
  then show ?case using rep_var
    by (subst evaluateBillingNode.simps)
      (auto simp: evaluate_identifier_def requireBillingNodeName_def requireNumber_cases split: option.splits)
next
  case (rep_not n a e)
  then show ?case unfolding esem.simps by (intro eval_unary) (auto simp: BILLING_UNARY_EVALUATORS_def)
next
  case (rep_plus n a e)
  then show ?case unfolding esem.simps num1_def
    by (intro eval_unary) (auto simp: BILLING_UNARY_EVALUATORS_def sbind_assoc intro: agrees_number)
next
  case (rep_neg n a e)
  then show ?case unfolding esem.simps num1_def
    by (intro eval_unary) (auto simp: BILLING_UNARY_EVALUATORS_def sbind_assoc intro: agrees_number)
next
  case (rep_arith n op o' l r a b)
  then show ?case unfolding esem.simps num2_def by (intro eval_binary) (auto intro: agrees_binary)
next
  case (rep_cmp n op o' l r a b)
  then show ?case unfolding esem.simps num2_def by (intro eval_binary agrees_compare) auto
next
  case (rep_and n l r a b)
  then show ?case unfolding esem.simps by (intro eval_logical) auto
next
  case (rep_or n l r a b)
  then show ?case unfolding esem.simps by (intro eval_logical) auto
next
  case (rep_cond n t' l r e a b)
  then show ?case unfolding esem.simps by (intro eval_cond) auto
next
  case (rep_tier n l a s e)
  have l: "evaluateBillingNode pw vars l t = Inr (VStr s, t)" for t
    using rep_tier by (simp add: eval_literal)
  have "evaluateBillingNode pw vars n t =
      sbind (evaluateBillingNode pw vars a t) (\<lambda>(w, t1). evaluateArguments tier_spec [VStr s, w] t1)"
    by (subst evaluate_calls [OF rep_tier.hyps(1)])
      (simp_all add: BILLING_FUNCTION_SPECS_def l sbind_assoc case_prod_unfold)
  then show ?case using rep_tier.IH rep_tier.prems
    by (auto simp: num1_def after_assoc intro!: agrees_after agrees_tier)
next
  case (rep_max n l r a b)
  show ?case unfolding esem.simps num2_def evaluate_calls [OF rep_max.hyps(1) function_specs(1) list.distinct(2)]
    using rep_max.IH rep_max.prems by (intro agrees_args2 agrees_max) auto
next
  case (rep_min n l r a b)
  show ?case unfolding esem.simps num2_def evaluate_calls [OF rep_min.hyps(1) function_specs(2) list.distinct(2)]
    using rep_min.IH rep_min.prems by (intro agrees_args2 agrees_min) auto
next
  case (rep_fun n g a f e)
  obtain ctx where g: "map_of BILLING_FUNCTION_SPECS g = Some (unary_spec (fun_sem f) ctx)" "g \<noteq> []"
    using function_specs(3) [OF rep_fun.hyps(2)] by blast
  show ?case unfolding esem.simps num1_def evaluate_calls [OF rep_fun.hyps(1) g]
    using rep_fun.IH rep_fun.prems by (intro agrees_args1 agrees_unary_fun) auto
qed (simp_all add: eval_literal)

section \<open>The whole evaluator\<close>

lemma esem_tiers: "esem pw vars e = Some (v, tr) \<Longrightarrow> set tr \<subseteq> etiers e"
proof (induction e arbitrary: v tr)
  case (ECond t a b)
  then show ?case by (fastforce simp: after_def split: option.splits if_splits)
qed (fastforce simp: after_def num1_def num2_def split: option.splits if_splits)+

lemma validate_arguments_counts:
  "(\<And>a k d k'. a \<in> set as \<Longrightarrow> validateBillingNode vars a k d = Inr k' \<Longrightarrow> k' \<le> M) \<Longrightarrow> k \<le> M \<Longrightarrow>
     validate_arguments vars as k d = Inr k' \<Longrightarrow> k' \<le> M"
proof (induction as arbitrary: k)
  case (Cons a as)
  obtain k1 where k1: "validateBillingNode vars a k d = Inr k1" "validate_arguments vars as k1 d = Inr k'"
    using Cons.prems(3) by (auto simp: sbind_Inr_iff)
  show ?case
  proof (rule Cons.IH)
    show "k1 \<le> M" by (rule Cons.prems(1) [OF _ k1(1)]) simp
  qed (use Cons.prems(1) k1(2) in auto)
qed simp

lemma validate_counts: "validateBillingNode vars n k d = Inr k' \<Longrightarrow> k' \<le> MAX_BILLING_EXPRESSION_NODES"
proof (induction n arbitrary: k d k' rule: measure_induct_rule [of size])
  case (less n)
  note v = less.prems and b = validate_bounds [OF less.prems]
  have "k' \<le> MAX_BILLING_EXPRESSION_NODES" if ty: "n_type n = ''CallExpression''"
  proof -
    obtain as where as: "validate_call_head n = Inr as" "validate_arguments vars as (Suc k) (Suc d) = Inr k'"
      using validate_call [OF ty v] by blast
    have "size a < size n" if "a \<in> set as" for a
      using validate_call_head_size [OF as(1)] that size_list_estimation' [OF that, of "size a" size] by simp
    then show ?thesis using validate_arguments_counts [OF _ _ as(2)] less.IH b by blast
  qed
  then show ?case
    using validate_type [OF v] validate_leaf [OF _ v] validate_unary [OF _ v] validate_binary [OF _ v]
      validate_logical [OF _ v] validate_cond [OF _ v] less.IH child_size b by blast
qed

definition estimate_of :: "meaning \<Rightarrow> (jsnum \<times> string) option" where
  "estimate_of m =
     (case m of None \<Rightarrow> None | Some (v, tr) \<Rightarrow> map_option (\<lambda>x. (x, last ([] # tr))) (as_num v))"

lemma evaluateBillingExpression_validated:
  assumes "length (trim s) \<le> MAX_BILLING_EXPRESSION_LENGTH" "parse (trim s) = Inr n"
    "trim (drop (n_end n) (trim s)) = []" "validateBillingNode vars n 0 0 = Inr k" "accepts vars n 0 0 k e"
  shows "case estimate_of (esem pw vars e) of
      Some (x, t) \<Rightarrow> evaluateBillingExpression parse pw s vars = Inr (x, t)
    | None \<Rightarrow> \<exists>msg. evaluateBillingExpression parse pw s vars = Inl msg \<and> numeric_error msg"
proof -
  have "agrees (evaluateBillingNode pw vars n []) [] (esem pw vars e)"
    using assms(5) by (intro rep_eval) (auto simp: accepts_def)
  then show ?thesis
    using assms(1-4)
    by (cases "esem pw vars e")
      (auto simp: evaluateBillingExpression_def Let_def agrees_def estimate_of_def requireNumber_cases
        split: option.splits)
qed

lemma evaluateBillingExpression_Inr:
  assumes "evaluateBillingExpression parse pw s vars = Inr (x, t)"
  shows "is_finite x \<and> (\<exists>n k. parse (trim s) = Inr n \<and> validateBillingNode vars n 0 0 = Inr k \<and>
    length (trim s) \<le> MAX_BILLING_EXPRESSION_LENGTH \<and> trim (drop (n_end n) (trim s)) = [])"
proof -
  obtain n where n: "length (trim s) \<le> MAX_BILLING_EXPRESSION_LENGTH" "parse (trim s) = Inr n"
    "trim (drop (n_end n) (trim s)) = []"
    using assms by (auto simp: evaluateBillingExpression_def Let_def sbind_Inr_iff split: if_splits)
  obtain k v where "validateBillingNode vars n 0 0 = Inr k" "requireBillingNumber (Some v) ''Billing expression'' = Inr x"
    using assms n by (auto simp: evaluateBillingExpression_def Let_def sbind_Inr_iff)
  then show ?thesis using n
    by (cases v) (auto simp: requireBillingNumber_def split: if_splits)
qed

text \<open>C5: The estimator never leaves the caller with an unusable number: without an error the cost is
  finite, with an error the cost is 0 and no tier is reported, whatever the parser returns and
  whatever precision exponentiation has.\<close>

theorem evalExprLocally_safe:
  "case er_error (evalExprLocally parse pw s p c x) of
     None \<Rightarrow> is_finite (er_cost (evalExprLocally parse pw s p c x))
   | Some _ \<Rightarrow> er_cost (evalExprLocally parse pw s p c x) = Fin 0 \<and> er_matchedTier (evalExprLocally parse pw s p c x) = []"
  using evaluateBillingExpression_Inr [of parse pw s "estimator_variables p c x"]
  by (auto simp: evalExprLocally_def split: sum.splits)

text \<open>C6: Refinement: a tree that passes validation stands for an abstract expression of at most 512
  nodes and height at most 64 over known variables, and the estimator returns exactly the cost
  and the last tier of its denotational meaning; when the meaning is undefined the only
  possible error is that some number is not finite.\<close>

theorem evalExprLocally_refines:
  assumes "trim s \<noteq> []" "length (trim s) \<le> MAX_BILLING_EXPRESSION_LENGTH" "parse (trim s) = Inr n"
    "trim (drop (n_end n) (trim s)) = []" "validateBillingNode (estimator_variables p c x) n 0 0 = Inr k"
  shows "\<exists>e. rep n e \<and> esize e = k \<and> k \<le> MAX_BILLING_EXPRESSION_NODES \<and> eheight e \<le> MAX_BILLING_EXPRESSION_DEPTH \<and>
    evars e \<subseteq> fst ` set (estimator_variables p c x) \<and>
    (case estimate_of (esem pw (estimator_variables p c x) e) of
       Some (cost, tier) \<Rightarrow> evalExprLocally parse pw s p c x = \<lparr>er_cost = cost, er_matchedTier = tier, er_error = None\<rparr>
     | None \<Rightarrow> \<exists>msg. evalExprLocally parse pw s p c x = \<lparr>er_cost = Fin 0, er_matchedTier = [], er_error = Some msg\<rparr> \<and>
                 numeric_error msg)"
proof -
  let ?vars = "estimator_variables p c x"
  obtain e where e: "accepts ?vars n 0 0 k e" using validate_accepts [OF assms(5)] by blast
  have k: "k \<le> MAX_BILLING_EXPRESSION_NODES" using validate_counts [OF assms(5)] .
  have s: "s \<noteq> []" using assms(1) by auto
  note v = evaluateBillingExpression_validated [where pw = pw and parse = parse and s = s, OF assms(2-5) e]
  have "case estimate_of (esem pw ?vars e) of
       Some (cost, tier) \<Rightarrow> evalExprLocally parse pw s p c x = \<lparr>er_cost = cost, er_matchedTier = tier, er_error = None\<rparr>
     | None \<Rightarrow> \<exists>msg. evalExprLocally parse pw s p c x = \<lparr>er_cost = Fin 0, er_matchedTier = [], er_error = Some msg\<rparr> \<and>
                 numeric_error msg"
    using v s assms(1) by (cases "estimate_of (esem pw ?vars e)") (auto simp: evalExprLocally_def)
  then show ?thesis using e k by (intro exI [of _ e]) (simp add: accepts_def)
qed

text \<open>The tree of \<open>tier("base", p * 2)\<close>, as the parser returns it.\<close>

definition leaf :: "string \<Rightarrow> literal_value \<Rightarrow> string option \<Rightarrow> BillingExpressionNode" where
  "leaf ty v name = Node ty 0 0 v name None None None None None None None None None"

definition sample_node :: BillingExpressionNode where
  "sample_node = Node ''CallExpression'' 0 19 LUndefined None None None None None None None None
     (Some (leaf ''Identifier'' LUndefined (Some ''tier'')))
     (Some [leaf ''Literal'' (LStr ''base'') None,
            Node ''BinaryExpression'' 13 18 LUndefined None (Some ''*'') None
              (Some (leaf ''Identifier'' LUndefined (Some ''p''))) (Some (leaf ''Literal'' (LNum (Fin 2)) None))
              None None None None None])"

definition no_extra :: ExtraTokenValues where
  "no_extra = \<lparr>cacheReadTokens = Fin 0, cacheCreateTokens = Fin 0, cacheCreate1hTokens = Fin 0,
     imageTokens = Fin 0, imageOutputTokens = Fin 0, audioInputTokens = Fin 0, audioOutputTokens = Fin 0\<rparr>"

theorem evalExprLocally_refines_witness:
  "\<exists>e. rep sample_node e \<and> esize e = 5 \<and> 5 \<le> MAX_BILLING_EXPRESSION_NODES \<and> eheight e \<le> MAX_BILLING_EXPRESSION_DEPTH \<and>
    evars e \<subseteq> fst ` set (estimator_variables (Fin 1000) (Fin 20) no_extra) \<and>
    (case estimate_of (esem js_mul (estimator_variables (Fin 1000) (Fin 20) no_extra) e) of
       Some (cost, tier) \<Rightarrow> evalExprLocally (\<lambda>_. Inr sample_node) js_mul ''tier(\"base\", p * 2)'' (Fin 1000) (Fin 20) no_extra
         = \<lparr>er_cost = cost, er_matchedTier = tier, er_error = None\<rparr>
     | None \<Rightarrow> \<exists>msg. evalExprLocally (\<lambda>_. Inr sample_node) js_mul ''tier(\"base\", p * 2)'' (Fin 1000) (Fin 20) no_extra
         = \<lparr>er_cost = Fin 0, er_matchedTier = [], er_error = Some msg\<rparr> \<and> numeric_error msg)"
  by (rule evalExprLocally_refines; code_simp)

text \<open>A tier that the estimator reports is one of the literal tier names of the validated tree, or
  none when no tier was entered.\<close>

theorem matchedTier_named:
  assumes "er_error (evalExprLocally parse pw s p c x) = None" "trim s \<noteq> []"
  shows "\<exists>n e. parse (trim s) = Inr n \<and> rep n e \<and>
    er_matchedTier (evalExprLocally parse pw s p c x) \<in> insert [] (etiers e)"
proof -
  let ?vars = "estimator_variables p c x"
  have s: "s \<noteq> []" using assms(2) by auto
  obtain cost tier where r: "evaluateBillingExpression parse pw s ?vars = Inr (cost, tier)"
    "er_matchedTier (evalExprLocally parse pw s p c x) = tier"
    using assms s by (auto simp: evalExprLocally_def split: sum.splits)
  obtain n k where n: "parse (trim s) = Inr n" "validateBillingNode ?vars n 0 0 = Inr k"
    "length (trim s) \<le> MAX_BILLING_EXPRESSION_LENGTH" "trim (drop (n_end n) (trim s)) = []"
    using evaluateBillingExpression_Inr [OF r(1)] by blast
  obtain e where e: "accepts ?vars n 0 0 k e" using validate_accepts [OF n(2)] by blast
  have "tier \<in> insert [] (etiers e)"
    using evaluateBillingExpression_validated [where pw = pw and parse = parse and s = s, OF n(3,1,4,2) e] r(1)
      esem_tiers [of pw ?vars e]
    by (auto simp: estimate_of_def split: option.splits if_splits) (meson last_in_set subsetD)
  then show ?thesis using n(1) e r(2) by (auto simp: accepts_def)
qed

theorem matchedTier_named_witness:
  "\<exists>n e. Inr sample_node = (Inr n :: string + BillingExpressionNode) \<and> rep n e \<and>
    er_matchedTier (evalExprLocally (\<lambda>_. Inr sample_node) js_mul ''tier(\"base\", p * 2)'' (Fin 1000) (Fin 20) no_extra)
      \<in> insert [] (etiers e)"
  by (rule matchedTier_named; code_simp)

end
