(* ===== verification/TierExpr.thy ===== *)
theory TierExpr
  imports BillingExpr
begin

text \<open>
  The visual tier editor of \<open>features/pricing/lib/tier-expr.ts\<close>: normalising a tier, generating the
  billing expression of a configuration and recognising such an expression again.

  A \<open>Partial<VisualTier>\<close> is a record of optional properties; a property that is present wins over
  the default of the object literal in \<open>normalizeVisualTier\<close> because the spread \<open>...tier\<close> follows
  it, except for the cache and media prices, which are written after the spread.
\<close>

section \<open>Data\<close>

definition CACHE_MODE_TIMED :: string where "CACHE_MODE_TIMED = ''timed''"
definition CACHE_MODE_GENERIC :: string where "CACHE_MODE_GENERIC = ''generic''"

datatype cond_value = CNum jsnum | CStr string

record TierConditionInput =
  ci_var :: string
  ci_op :: string
  ci_value :: cond_value

record VisualTier =
  vt_label :: string
  vt_conditions :: "TierConditionInput list"
  vt_input_unit_cost :: jsnum
  vt_output_unit_cost :: jsnum
  vt_cache_mode :: string
  vt_cache_read_unit_cost :: jsnum
  vt_cache_create_unit_cost :: jsnum
  vt_cache_create_1h_unit_cost :: jsnum
  vt_image_unit_cost :: jsnum
  vt_image_output_unit_cost :: jsnum
  vt_audio_input_unit_cost :: jsnum
  vt_audio_output_unit_cost :: jsnum

text \<open>\<open>Partial<VisualTier>\<close>\<close>

record PartialTier =
  pv_label :: "string option"
  pv_conditions :: "TierConditionInput list option"
  pv_input_unit_cost :: "jsnum option"
  pv_output_unit_cost :: "jsnum option"
  pv_cache_mode :: "string option"
  pv_cache_read_unit_cost :: "jsnum option"
  pv_cache_create_unit_cost :: "jsnum option"
  pv_cache_create_1h_unit_cost :: "jsnum option"
  pv_image_unit_cost :: "jsnum option"
  pv_image_output_unit_cost :: "jsnum option"
  pv_audio_input_unit_cost :: "jsnum option"
  pv_audio_output_unit_cost :: "jsnum option"

record VisualConfig =
  vc_tiers :: "VisualTier list"

text \<open>\<open>Number(v)\<close> of an optional number, and \<open>Number(v) || 0\<close>.\<close>

definition number_of :: "jsnum option \<Rightarrow> jsnum" where
  "number_of v = (case v of None \<Rightarrow> NaN | Some x \<Rightarrow> x)"

definition number_or_zero :: "jsnum option \<Rightarrow> jsnum" where
  "number_or_zero v = or_zero (number_of v)"

section \<open>Normalisation\<close>

definition getTierCacheMode :: "PartialTier option \<Rightarrow> string" where
  "getTierCacheMode tier =
     (let mode = (case tier of None \<Rightarrow> None | Some t \<Rightarrow> pv_cache_mode t);
          cost = (case tier of None \<Rightarrow> None | Some t \<Rightarrow> pv_cache_create_1h_unit_cost t)
      in if mode = Some CACHE_MODE_TIMED then CACHE_MODE_TIMED
         else if mode = Some CACHE_MODE_GENERIC then CACHE_MODE_GENERIC
         else if js_lt (Fin 0) (number_of cost) then CACHE_MODE_TIMED else CACHE_MODE_GENERIC)"

definition or_default :: "'a option \<Rightarrow> 'a \<Rightarrow> 'a" where
  "or_default v d = (case v of None \<Rightarrow> d | Some x \<Rightarrow> x)"

definition normalizeVisualTier :: "PartialTier \<Rightarrow> VisualTier" where
  "normalizeVisualTier tier =
    \<lparr>vt_label = or_default (pv_label tier) [],
     vt_conditions = or_default (pv_conditions tier) [],
     vt_input_unit_cost = or_default (pv_input_unit_cost tier) (number_or_zero (pv_input_unit_cost tier)),
     vt_output_unit_cost = or_default (pv_output_unit_cost tier) (number_or_zero (pv_output_unit_cost tier)),
     vt_cache_mode = or_default (pv_cache_mode tier) (getTierCacheMode (Some tier)),
     vt_cache_read_unit_cost = number_or_zero (pv_cache_read_unit_cost tier),
     vt_cache_create_unit_cost = number_or_zero (pv_cache_create_unit_cost tier),
     vt_cache_create_1h_unit_cost = number_or_zero (pv_cache_create_1h_unit_cost tier),
     vt_image_unit_cost = number_or_zero (pv_image_unit_cost tier),
     vt_image_output_unit_cost = number_or_zero (pv_image_output_unit_cost tier),
     vt_audio_input_unit_cost = number_or_zero (pv_audio_input_unit_cost tier),
     vt_audio_output_unit_cost = number_or_zero (pv_audio_output_unit_cost tier)\<rparr>"

definition empty_partial_tier :: PartialTier where
  "empty_partial_tier =
    \<lparr>pv_label = None, pv_conditions = None, pv_input_unit_cost = None, pv_output_unit_cost = None,
     pv_cache_mode = None, pv_cache_read_unit_cost = None, pv_cache_create_unit_cost = None,
     pv_cache_create_1h_unit_cost = None, pv_image_unit_cost = None, pv_image_output_unit_cost = None,
     pv_audio_input_unit_cost = None, pv_audio_output_unit_cost = None\<rparr>"

text \<open>A complete tier seen as a partial one.\<close>

definition partial_tier :: "VisualTier \<Rightarrow> PartialTier" where
  "partial_tier t =
    \<lparr>pv_label = Some (vt_label t), pv_conditions = Some (vt_conditions t),
     pv_input_unit_cost = Some (vt_input_unit_cost t), pv_output_unit_cost = Some (vt_output_unit_cost t),
     pv_cache_mode = Some (vt_cache_mode t), pv_cache_read_unit_cost = Some (vt_cache_read_unit_cost t),
     pv_cache_create_unit_cost = Some (vt_cache_create_unit_cost t),
     pv_cache_create_1h_unit_cost = Some (vt_cache_create_1h_unit_cost t),
     pv_image_unit_cost = Some (vt_image_unit_cost t),
     pv_image_output_unit_cost = Some (vt_image_output_unit_cost t),
     pv_audio_input_unit_cost = Some (vt_audio_input_unit_cost t),
     pv_audio_output_unit_cost = Some (vt_audio_output_unit_cost t)\<rparr>"

definition createDefaultVisualConfig :: VisualConfig where
  "createDefaultVisualConfig =
    \<lparr>vc_tiers = [normalizeVisualTier (empty_partial_tier
       \<lparr>pv_conditions := Some [], pv_input_unit_cost := Some (Fin 0), pv_output_unit_cost := Some (Fin 0),
        pv_label := Some ''base'', pv_cache_mode := Some CACHE_MODE_GENERIC\<rparr>)]\<rparr>"

definition normalizeVisualConfig :: "VisualConfig option \<Rightarrow> VisualConfig" where
  "normalizeVisualConfig config =
     (case config of
        None \<Rightarrow> createDefaultVisualConfig
      | Some c \<Rightarrow>
          if vc_tiers c = [] then createDefaultVisualConfig
          else \<lparr>vc_tiers = map (\<lambda>t. normalizeVisualTier (partial_tier t)) (vc_tiers c)\<rparr>)"

section \<open>Generating an expression\<close>

fun value_text :: "cond_value \<Rightarrow> string" where
  "value_text (CNum x) = js_String x"
| "value_text (CStr s) = s"

definition buildConditionStr :: "TierConditionInput list \<Rightarrow> string" where
  "buildConditionStr conditions =
     join '' && ''
       (map (\<lambda>c. ci_var c @ '' '' @ ci_op c @ '' '' @ value_text (ci_value c))
         (filter (\<lambda>c. ci_var c \<noteq> [] \<and> ci_op c \<noteq> [] \<and> ci_value c \<noteq> CStr []) conditions))"

text \<open>\<open>tier[field]\<close> for the fields of \<open>BILLING_CACHE_VAR_MAP\<close>.\<close>

definition cache_cost :: "VisualTier \<Rightarrow> string \<Rightarrow> jsnum" where
  "cache_cost t field =
     (case map_of [(''cache_read_unit_cost'', vt_cache_read_unit_cost t),
                   (''cache_create_unit_cost'', vt_cache_create_unit_cost t),
                   (''cache_create_1h_unit_cost'', vt_cache_create_1h_unit_cost t),
                   (''image_unit_cost'', vt_image_unit_cost t),
                   (''image_output_unit_cost'', vt_image_output_unit_cost t),
                   (''audio_input_unit_cost'', vt_audio_input_unit_cost t),
                   (''audio_output_unit_cost'', vt_audio_output_unit_cost t)] field of
        None \<Rightarrow> NaN | Some x \<Rightarrow> x)"

definition buildTierBodyExpr :: "VisualTier \<Rightarrow> string" where
  "buildTierBodyExpr tier =
     join '' + ''
       ([''p * '' @ js_String (or_zero (vt_input_unit_cost tier)),
         ''c * '' @ js_String (or_zero (vt_output_unit_cost tier))] @
        concat (map (\<lambda>(field, exprVar).
                  let v = or_zero (cache_cost tier field)
                  in if v \<noteq> Fin 0 then [exprVar @ '' * '' @ js_String v] else [])
                BILLING_CACHE_VAR_MAP))"

definition tier_call :: "string \<Rightarrow> VisualTier \<Rightarrow> string" where
  "tier_call label tier = ''tier(\"'' @ label @ ''\", '' @ buildTierBodyExpr tier @ '')''"

text \<open>The loop over several tiers; \<open>i\<close> is the index of the head and \<open>n\<close> the number of tiers.\<close>

fun tier_parts :: "nat \<Rightarrow> nat \<Rightarrow> VisualTier list \<Rightarrow> string list" where
  "tier_parts n i [] = []"
| "tier_parts n i (tier # tiers) =
     (let label = str_or (vt_label tier) (''tier_'' @ string_of_nat (i + 1));
          body = tier_call label tier;
          cond = buildConditionStr (vt_conditions tier)
      in (if Suc i < n \<and> cond \<noteq> [] then cond @ '' ? '' @ body else body) # tier_parts n (Suc i) tiers)"

definition generateExprFromVisualConfig :: "VisualConfig option \<Rightarrow> string" where
  "generateExprFromVisualConfig config =
     (case config of
        None \<Rightarrow> ''p * 0 + c * 0''
      | Some c \<Rightarrow>
          (case vc_tiers c of
             [] \<Rightarrow> ''p * 0 + c * 0''
           | [tier] \<Rightarrow>
               let body = tier_call (str_or (vt_label tier) ''default'') tier;
                   cond = buildConditionStr (vt_conditions tier)
               in if cond \<noteq> [] then cond @ '' ? '' @ body @ '' : p * 0 + c * 0'' else body
           | tiers \<Rightarrow> join '' : '' (tier_parts (length tiers) 0 tiers)))"

section \<open>Recognising an expression\<close>

record VisualTierCaptureIndexes =
  cx_condition :: "nat option"
  cx_label :: nat
  cx_inputCost :: nat
  cx_outputCost :: nat
  cx_firstCacheCost :: nat

definition SINGLE_VISUAL_TIER_CAPTURES :: VisualTierCaptureIndexes where
  "SINGLE_VISUAL_TIER_CAPTURES =
     \<lparr>cx_condition = None, cx_label = 1, cx_inputCost = 2, cx_outputCost = 3, cx_firstCacheCost = 4\<rparr>"

definition TIERED_VISUAL_TIER_CAPTURES :: VisualTierCaptureIndexes where
  "TIERED_VISUAL_TIER_CAPTURES =
     \<lparr>cx_condition = Some 1, cx_label = 2, cx_inputCost = 3, cx_outputCost = 4, cx_firstCacheCost = 5\<rparr>"

definition stripVisualConfigVersion :: "string \<Rightarrow> string" where
  "stripVisualConfigVersion expression =
     (case rx_match (seqs [Bol, lit ''v'', Plus (Cls is_digit), lit '':'', Grp 1 (Star (Cls (\<lambda>_. True))), Eol])
             expression of
        Some m \<Rightarrow> cap m 1
      | None \<Rightarrow> expression)"

text \<open>\<open>(?:\s*\+\s*v\s*\*\s*([\d.eE+-]+))?\<close> for each variable \<open>v\<close>, the groups numbered from \<open>g\<close>.\<close>

definition cost_rx :: "nat \<Rightarrow> string \<Rightarrow> rx" where
  "cost_rx g v = seqs [ws_star, lit ''+'', ws_star, lit v, ws_star, lit ''*'', ws_star, Grp g (Plus (Cls num_class))]"

fun optional_costs :: "nat \<Rightarrow> string list \<Rightarrow> rx list" where
  "optional_costs g [] = []"
| "optional_costs g (v # vs) = Opt (cost_rx g v) # optional_costs (Suc g) vs"

text \<open>The body pattern; \<open>g\<close> is the number of its first group in the whole expression.\<close>

definition buildVisualTierBodyPattern :: "nat \<Rightarrow> rx list" where
  "buildVisualTierBodyPattern g =
     [lit ''p'', ws_star, lit ''*'', ws_star, Grp g (Plus (Cls num_class)),
      cost_rx (Suc g) ''c''] @
     optional_costs (g + 2) (map snd BILLING_CACHE_VAR_MAP)"

definition parseTierConditions :: "string option \<Rightarrow> TierConditionInput list" where
  "parseTierConditions source =
     (case source of
        None \<Rightarrow> []
      | Some s \<Rightarrow>
          if s = [] then []
          else List.map_filter (\<lambda>part.
                 map_option (\<lambda>c. \<lparr>ci_var = tc_var c, ci_op = tc_op c, ci_value = CNum (tc_value c)\<rparr>)
                   (parse_tier_condition part))
               (rx_split and_split_rx [] s))"

definition cache_cost_capture :: "caps \<Rightarrow> nat \<Rightarrow> nat \<Rightarrow> jsnum option" where
  "cache_cost_capture m firstCapture index = map_option string_to_number (m (firstCapture + index))"

text \<open>\<open>applyCapturedCacheCosts\<close> writes the fields of \<open>BILLING_CACHE_VAR_MAP\<close> in order.\<close>

definition applyCapturedCacheCosts :: "PartialTier \<Rightarrow> caps \<Rightarrow> nat \<Rightarrow> PartialTier" where
  "applyCapturedCacheCosts tier m first' =
     tier\<lparr>pv_cache_read_unit_cost := cache_cost_capture m first' 0,
          pv_cache_create_unit_cost := cache_cost_capture m first' 1,
          pv_cache_create_1h_unit_cost := cache_cost_capture m first' 2,
          pv_image_unit_cost := cache_cost_capture m first' 3,
          pv_image_output_unit_cost := cache_cost_capture m first' 4,
          pv_audio_input_unit_cost := cache_cost_capture m first' 5,
          pv_audio_output_unit_cost := cache_cost_capture m first' 6\<rparr>"

definition createVisualTierFromMatch :: "caps \<Rightarrow> VisualTierCaptureIndexes \<Rightarrow> VisualTier" where
  "createVisualTierFromMatch m captures =
     normalizeVisualTier (applyCapturedCacheCosts
       (empty_partial_tier
          \<lparr>pv_conditions := Some (parseTierConditions
             (case cx_condition captures of None \<Rightarrow> None | Some i \<Rightarrow> m i)),
           pv_input_unit_cost := Some (string_to_number (cap m (cx_inputCost captures))),
           pv_output_unit_cost := Some (string_to_number (cap m (cx_outputCost captures))),
           pv_label := Some (cap m (cx_label captures))\<rparr>)
       m (cx_firstCacheCost captures))"

definition single_tier_rx :: rx where
  "single_tier_rx =
     seqs ([Bol, lit ''tier(\"'', Grp 1 (Star (Cls (\<lambda>x. x \<noteq> CHR 0x22))), lit ''\",'', ws_star] @
           buildVisualTierBodyPattern 2 @ [lit '')'', Eol])"

definition parseSingleVisualTier :: "string \<Rightarrow> VisualConfig option" where
  "parseSingleVisualTier body =
     (case rx_match single_tier_rx body of
        None \<Rightarrow> None
      | Some m \<Rightarrow> Some (normalizeVisualConfig
                    (Some \<lparr>vc_tiers = [createVisualTierFromMatch m SINGLE_VISUAL_TIER_CAPTURES]\<rparr>)))"

definition tierPattern :: rx where
  "tierPattern =
     seqs ([Opt (seqs [condGroup, ws_star, lit ''?'', ws_star]), lit ''tier(\"'',
            Grp 2 (Star (Cls (\<lambda>x. x \<noteq> CHR 0x22))), lit ''\",'', ws_star] @
           buildVisualTierBodyPattern 3 @ [lit '')''])"

text \<open>\<open>s.replace(/\s+/g, '')\<close>\<close>

definition strip_ws :: "string \<Rightarrow> string" where
  "strip_ws s = rx_replace_all (Plus (Cls is_ws)) [] [] s"

definition parseTieredVisualConfig :: "string \<Rightarrow> VisualConfig option" where
  "parseTieredVisualConfig body =
     (let tiers = map (\<lambda>m. createVisualTierFromMatch m TIERED_VISUAL_TIER_CAPTURES) (rx_exec_all tierPattern [] body)
      in if tiers = [] then None
         else let config = normalizeVisualConfig (Some \<lparr>vc_tiers = tiers\<rparr>);
                  regenerated = generateExprFromVisualConfig (Some config)
              in if strip_ws regenerated = strip_ws body then Some config else None)"

definition tryParseVisualConfig :: "string option \<Rightarrow> VisualConfig option" where
  "tryParseVisualConfig exprStr =
     (case exprStr of
        None \<Rightarrow> None
      | Some e \<Rightarrow>
          if e = [] then None
          else let body = stripVisualConfigVersion e
               in case parseSingleVisualTier body of
                    Some c \<Rightarrow> Some c
                  | None \<Rightarrow> parseTieredVisualConfig body)"

section \<open>Matching a generated body\<close>

lemma rxk_Opt: "rxk (Opt a) k st = rxk a (\<lambda>st'. if progress st st' then k st' else []) st @ k st"
proof -
  have "concat (map k (filter P xs)) = concat (map (\<lambda>x. if P x then k x else []) xs)" for P xs
    by (induction xs) auto
  then show ?thesis by (simp add: rxk_def)
qed

lemma rxk_lit: "rxk (lit w) k (pre, w @ r, c) = k (rev w @ pre, r, c)"
  by (simp add: rxk_def)

lemma rxk_star_Cons:
  "rxk (Star (Cls p)) k (pre, x # xs, c) =
     (if p x then rxk (Star (Cls p)) k (x # pre, xs, c) else []) @ k (pre, x # xs, c)"
  by (simp add: rxk_def rxm_star_cls)

lemma runs_suffix:
  assumes "list_all p w" "\<not> p d" and "\<And>w1 w2. w = w1 @ w2 \<Longrightarrow> w2 \<noteq> [] \<Longrightarrow> k (rev w1 @ pre, w2 @ d # r, c) = []"
  shows "concat (map k (runs p (pre, w @ d # r, c))) = k (rev w @ pre, d # r, c)"
  using assms
proof (induction w arbitrary: pre)
  case (Cons x w)
  have "concat (map k (runs p (x # pre, w @ d # r, c))) = k (rev w @ x # pre, d # r, c)"
    using Cons.prems(1,2) Cons.prems(3) [of "x # _"] by (intro Cons.IH) auto
  then show ?case using Cons.prems(1) Cons.prems(3) [of "[]" "x # w"] by simp
qed simp

lemma rxk_plus_suffix:
  assumes "list_all p w" "w \<noteq> []" "\<not> p d"
    and "\<And>w1 w2. w = w1 @ w2 \<Longrightarrow> w1 \<noteq> [] \<Longrightarrow> w2 \<noteq> [] \<Longrightarrow> k (rev w1 @ pre, w2 @ d # r, c) = []"
  shows "rxk (Plus (Cls p)) k (pre, w @ d # r, c) = k (rev w @ pre, d # r, c)"
proof -
  obtain x v where w: "w = x # v" using assms(2) by (cases w) auto
  have "concat (map k (runs p (x # pre, v @ d # r, c))) = k (rev v @ x # pre, d # r, c)"
    using assms(1,3) assms(4) [of "x # _"] w by (intro runs_suffix) auto
  then show ?thesis using assms(1) w by (simp add: rxk_def rxm_plus_cls)
qed

text \<open>The variables of the body: none is empty, starts like a number or with a space.\<close>

definition cost_var :: "string \<Rightarrow> bool" where
  "cost_var v \<longleftrightarrow> v \<in> set (''c'' # map snd BILLING_CACHE_VAR_MAP)"

lemma cost_vars: "''c'' # map snd BILLING_CACHE_VAR_MAP = [''c'', ''cr'', ''cc'', ''cc1h'', ''img'', ''img_o'', ''ai'', ''ao'']"
  by (simp add: BILLING_CACHE_VAR_MAP_def BILLING_EXTRA_VARS_def BILLING_VARS_def)

lemma cost_varE:
  assumes "cost_var v"
  shows "v = ''c'' \<or> v = ''cr'' \<or> v = ''cc'' \<or> v = ''cc1h'' \<or> v = ''img'' \<or> v = ''img_o'' \<or> v = ''ai'' \<or> v = ''ao''"
  using assms unfolding cost_var_def cost_vars by auto

lemmas cost_eval = cost_rx_def rxk_simps rxk_star_Cons lit.simps seqs.simps

lemma cost_rx_wrong_head:
  assumes "\<not> is_ws x" "x \<noteq> CHR ''+''"
  shows "rxk (cost_rx g v) k (pre, x # s, c) = []"
  using assms by (simp add: cost_eval)

lemma cost_rx_plus_head:
  assumes "cost_var v" "\<not> is_ws x" "x \<noteq> hd v"
  shows "rxk (cost_rx g v) k (pre, CHR ''+'' # x # s, c) = []"
    and "rxk (cost_rx g v) k (pre, CHR ''+'' # CHR '' '' # x # s, c) = []"
  using cost_varE [OF assms(1)] assms(2,3) by (auto simp: cost_eval is_ws_def)

lemma cost_rx_other:
  assumes "cost_var v" "cost_var w" "v \<noteq> w"
  shows "rxk (cost_rx g w) k (pre, '' + '' @ v @ '' * '' @ s, c) = []"
  using cost_varE [OF assms(1)] cost_varE [OF assms(2)] assms(3)
  by (elim disjE) (simp_all add: cost_eval is_ws_def)

lemma rxk_seqs_append: "rxk (seqs (xs @ ys)) k = rxk (seqs xs) (rxk (seqs ys) k)"
proof (induction xs)
  case (Cons a xs)
  then show ?case by (intro ext) (simp only: append_Cons seqs.simps rxk_simps(4))
qed (simp add: rxk_simps fun_eq_iff)

lemma num_class_facts:
  "num_class x \<Longrightarrow> \<not> is_ws x"
  "num_class x \<Longrightarrow> cost_var v \<Longrightarrow> x \<noteq> hd v"
  by (auto simp: num_class_def is_digit_def is_ws_def dest!: cost_varE)

text \<open>What may follow a number: the closing parenthesis or the next cost.\<close>

definition ends_number :: "string \<Rightarrow> bool" where
  "ends_number r \<longleftrightarrow> (\<exists>s. r = CHR '')'' # s \<or> r = CHR '' '' # CHR ''+'' # s)"

lemma ends_numberE: "ends_number r \<Longrightarrow> \<exists>d s. r = d # s \<and> \<not> num_class d"
  by (auto simp: ends_number_def num_class_def is_digit_def)

lemma cost_rx_number:
  assumes "cost_var v" "list_all num_class w" "w \<noteq> []" "ends_number r"
  shows "rxk (cost_rx g v) k (pre, w @ r, c) = []"
proof -
  have v: "CHR '')'' \<noteq> hd v" "CHR ''+'' \<noteq> hd v" using cost_varE [OF assms(1)] by auto
  obtain x u where w: "w = x # u" using assms(3) by (cases w) auto
  show ?thesis
  proof (cases "x = CHR ''+''")
    case False
    then show ?thesis using assms(2) num_class_facts(1) by (simp add: w cost_rx_wrong_head)
  next
    case True
    show ?thesis
    proof (cases u)
      case Nil
      then show ?thesis using assms(1,4) v True w cost_rx_plus_head [OF assms(1)]
        by (auto simp: ends_number_def is_ws_def)
    next
      case (Cons y z)
      then show ?thesis using assms(1,2) True w num_class_facts cost_rx_plus_head(1) [OF assms(1)] by auto
    qed
  qed
qed

lemma opts_fail:
  assumes "\<And>g v k. v \<in> set vs \<Longrightarrow> rxk (cost_rx g v) k (pre, s, c) = []" and "k (pre, s, c) = []"
  shows "rxk (seqs (optional_costs g vs)) k (pre, s, c) = []"
  using assms by (induction vs arbitrary: g) (simp_all add: rxk_simps rxk_Opt)

text \<open>Optional costs, the text they are printed as and the captures they leave.\<close>

fun costs_text :: "(string \<times> string option) list \<Rightarrow> string" where
  "costs_text [] = []"
| "costs_text ((v, None) # xs) = costs_text xs"
| "costs_text ((v, Some n) # xs) = '' + '' @ v @ '' * '' @ n @ costs_text xs"

fun costs_caps :: "nat \<Rightarrow> (string \<times> string option) list \<Rightarrow> caps \<Rightarrow> caps" where
  "costs_caps g [] c = c"
| "costs_caps g ((v, None) # xs) c = costs_caps (Suc g) xs c"
| "costs_caps g ((v, Some n) # xs) c = costs_caps (Suc g) xs (c(g \<mapsto> n))"

definition good_costs :: "(string \<times> string option) list \<Rightarrow> bool" where
  "good_costs xs \<longleftrightarrow> distinct (map fst xs) \<and> (\<forall>(v, n)\<in>set xs. cost_var v \<and>
     (\<forall>t. n = Some t \<longrightarrow> t \<noteq> [] \<and> list_all num_class t))"

definition closes :: "(rxstate \<Rightarrow> rxstate list) \<Rightarrow> bool" where
  "closes k \<longleftrightarrow> (\<forall>pre x s c. x \<noteq> CHR '')'' \<longrightarrow> k (pre, x # s, c) = [])"

lemma costs_text_head:
  "costs_text xs = [] \<or> (\<exists>v n s. (v, Some n) \<in> set xs \<and> costs_text xs = '' + '' @ v @ '' * '' @ n @ s)"
  by (induction xs rule: costs_text.induct) auto

lemma ends_number_costs: "ends_number (costs_text xs @ CHR '')'' # r)"
  using costs_text_head [of xs] by (auto simp: ends_number_def)

lemma cost_rx_absent:
  assumes "cost_var v" "v \<notin> fst ` set xs" "good_costs xs"
  shows "rxk (cost_rx g v) k (pre, costs_text xs @ CHR '')'' # r, c) = []"
proof (cases "costs_text xs = []")
  case True
  then show ?thesis by (simp add: cost_rx_wrong_head is_ws_def)
next
  case False
  then obtain w n s where w: "(w, Some n) \<in> set xs" "costs_text xs = '' + '' @ w @ '' * '' @ n @ s"
    using costs_text_head by blast
  then have "cost_var w" using assms(3) by (auto simp: good_costs_def)
  moreover have "v \<noteq> w" using w(1) assms(2) by force
  ultimately show ?thesis using cost_rx_other [of w v g k pre "n @ s @ CHR '')'' # r" c] assms(1) w by simp
qed

lemma cost_rx_present:
  assumes "cost_var v" "list_all num_class n" "n \<noteq> []" "ends_number r"
    and "\<And>w1 w2. n = w1 @ w2 \<Longrightarrow> w1 \<noteq> [] \<Longrightarrow> w2 \<noteq> [] \<Longrightarrow> k (rev ('' + '' @ v @ '' * '' @ w1) @ pre, w2 @ r, c(g \<mapsto> w1)) = []"
  shows "rxk (cost_rx g v) k (pre, '' + '' @ v @ '' * '' @ n @ r, c) =
    k (rev ('' + '' @ v @ '' * '' @ n) @ pre, r, c(g \<mapsto> n))"
proof -
  obtain d s where r: "r = d # s" "\<not> num_class d" using ends_numberE [OF assms(4)] by blast
  obtain x u where n: "n = x # u" "num_class x" using assms(2,3) by (cases n) auto
  let ?K = "\<lambda>st. k (set_cap g (n @ r) st)"
  have "rxk (Plus (Cls num_class)) ?K (rev ('' + '' @ v @ '' * '') @ pre, n @ d # s, c) =
      ?K (rev n @ rev ('' + '' @ v @ '' * '') @ pre, d # s, c)"
    using assms(5) by (intro rxk_plus_suffix [OF assms(2,3) r(2)]) (auto simp: set_cap_eval r)
  then have p: "rxk (Grp g (Plus (Cls num_class))) k (rev ('' + '' @ v @ '' * '') @ pre, n @ r, c) =
      k (rev ('' + '' @ v @ '' * '' @ n) @ pre, r, c(g \<mapsto> n))"
    by (simp add: rxk_simps set_cap_eval r)
  have ws: "\<not> is_ws x" using num_class_facts(1) n(2) .
  have v: "\<not> is_ws (hd v) \<and> v \<noteq> []" using cost_varE [OF assms(1)] by (auto simp: is_ws_def)
  then obtain y z where y: "v = y # z" "\<not> is_ws y" by (cases v) auto
  have eps: "rxk Eps k = k" by (simp add: rxk_simps fun_eq_iff)
  have nr: "rxk (Grp g (Plus (Cls num_class))) k (q, CHR '' '' # t, c) = []" for q t
    by (simp add: rxk_simps Plus_def num_class_def is_digit_def)
  have "rxk (cost_rx g v) k (pre, '' + '' @ v @ '' * '' @ n @ r, c) =
    rxk (Grp g (Plus (Cls num_class))) k (rev ('' + '' @ v @ '' * '') @ pre, n @ r, c)"
    using ws y nr rxk_lit [of v] eps
    by (auto simp: cost_rx_def rxk_star_Cons seqs.simps is_ws_def rxk_simps n(1) simp del: rxk_simps(6))
  then show ?thesis using p by simp
qed

lemma good_costs_Cons:
  "good_costs ((v, n) # xs) \<longleftrightarrow> cost_var v \<and> v \<notin> fst ` set xs \<and>
     (\<forall>t. n = Some t \<longrightarrow> t \<noteq> [] \<and> list_all num_class t) \<and> good_costs xs"
  by (auto simp: good_costs_def)

lemma opts_number:
  assumes "good_costs xs" "closes k" "list_all num_class w" "w \<noteq> []" "ends_number r"
  shows "rxk (seqs (optional_costs g (map fst xs))) k (pre, w @ r, c) = []"
proof (rule opts_fail)
  obtain x u where "w = x # u" "num_class x" using assms(3,4) by (cases w) auto
  then show "k (pre, w @ r, c) = []"
    using assms(2) by (auto simp: closes_def num_class_def is_digit_def)
qed (use assms cost_rx_number in \<open>auto simp: good_costs_def\<close>)

lemma opts_match:
  assumes "good_costs xs" "closes k"
  shows "rxk (seqs (optional_costs g (map fst xs))) k (pre, costs_text xs @ CHR '')'' # r, c) =
    k (rev (costs_text xs) @ pre, CHR '')'' # r, costs_caps g xs c)"
  using assms(1)
proof (induction xs arbitrary: g pre c rule: costs_text.induct)
  case (2 v xs)
  then have "cost_var v" "v \<notin> fst ` set xs" "good_costs xs" by (auto simp: good_costs_Cons)
  then show ?case using 2 by (simp add: rxk_simps rxk_Opt cost_rx_absent)
next
  case (3 v n xs)
  then have v: "cost_var v" "v \<notin> fst ` set xs" "good_costs xs" "n \<noteq> []" "list_all num_class n"
    by (auto simp: good_costs_Cons)
  let ?K = "rxk (seqs (optional_costs (Suc g) (map fst xs))) k"
  let ?r = "costs_text xs @ CHR '')'' # r"
  let ?st = "(pre, '' + '' @ v @ '' * '' @ n @ ?r, c)"
  let ?P = "\<lambda>st'. if progress ?st st' then ?K st' else []"
  have skip: "?K ?st = []"
  proof (rule opts_fail)
    show "k ?st = []" using assms(2) by (simp add: closes_def)
    show "rxk (cost_rx g' w) k' ?st = []" if "w \<in> set (map fst xs)" for g' w k'
    proof (rule cost_rx_other [OF v(1)])
      show "cost_var w" using that v(3) by (auto simp: good_costs_def)
      show "v \<noteq> w" using that v(2) by auto
    qed
  qed
  have "rxk (cost_rx g v) ?P ?st = ?P (rev ('' + '' @ v @ '' * '' @ n) @ pre, ?r, c(g \<mapsto> n))"
    by (rule cost_rx_present [OF v(1,5,4) ends_number_costs])
      (use v(5) in \<open>auto intro!: opts_number [OF v(3) assms(2) _ _ ends_number_costs]\<close>)
  also have "\<dots> = ?K (rev ('' + '' @ v @ '' * '' @ n) @ pre, ?r, c(g \<mapsto> n))"
    by (simp add: progress_def ahead_def)
  finally show ?case using skip 3(1) [OF v(3)] by (simp add: rxk_simps rxk_Opt fun_upd_def)
qed (simp add: rxk_simps)

section \<open>Round trip of a tier without conditions\<close>

definition finite_cost :: "jsnum \<Rightarrow> bool" where
  "finite_cost x \<longleftrightarrow> is_finite x \<and> wf_num x"

definition plain_tier :: "VisualTier \<Rightarrow> bool" where
  "plain_tier t \<longleftrightarrow> vt_label t \<noteq> [] \<and> CHR 0x22 \<notin> set (vt_label t) \<and> vt_conditions t = [] \<and>
     list_all finite_cost [vt_input_unit_cost t, vt_output_unit_cost t, vt_cache_read_unit_cost t,
       vt_cache_create_unit_cost t, vt_cache_create_1h_unit_cost t, vt_image_unit_cost t,
       vt_image_output_unit_cost t, vt_audio_input_unit_cost t, vt_audio_output_unit_cost t] \<and>
     vt_cache_mode t = getTierCacheMode (Some ((partial_tier t)\<lparr>pv_cache_mode := None\<rparr>))"

definition cost_text :: "jsnum \<Rightarrow> string option" where
  "cost_text x = (if x = Fin 0 then None else Some (js_String x))"

definition tier_costs :: "VisualTier \<Rightarrow> (string \<times> string option) list" where
  "tier_costs t = map (\<lambda>(field, v). (v, cost_text (cache_cost t field))) BILLING_CACHE_VAR_MAP"

lemma finite_cost_text:
  assumes "finite_cost x"
  shows "list_all num_class (js_String x)" "js_String x \<noteq> []" "string_to_number (js_String x) = x" "or_zero x = x"
proof -
  obtain q where q: "x = Fin q" "binary64 q" using assms by (cases x) (auto simp: finite_cost_def)
  have "is_num_char c \<Longrightarrow> num_class c" for c by (auto simp: is_num_char_def num_class_def)
  then show "list_all num_class (js_String x)" "js_String x \<noteq> []"
    using js_String_chars [OF q(2)] q(1) by (auto simp: list_all_iff)
  show "string_to_number (js_String x) = x" using string_to_number_String [OF q(2)] q(1) by simp
  show "or_zero x = x" using q(1) by (auto simp: or_zero_def num_truthy_def)
qed

lemma cache_map: "BILLING_CACHE_VAR_MAP =
   [(''cache_read_unit_cost'', ''cr''), (''cache_create_unit_cost'', ''cc''), (''cache_create_1h_unit_cost'', ''cc1h''),
    (''image_unit_cost'', ''img''), (''image_output_unit_cost'', ''img_o''), (''audio_input_unit_cost'', ''ai''),
    (''audio_output_unit_cost'', ''ao'')]"
  by (simp add: BILLING_CACHE_VAR_MAP_def BILLING_EXTRA_VARS_def BILLING_VARS_def)

lemma plain_tier_cache_cost:
  assumes "plain_tier t" "(field, v) \<in> set BILLING_CACHE_VAR_MAP"
  shows "finite_cost (cache_cost t field)"
  using assms by (auto simp: plain_tier_def cache_map cache_cost_def)

lemma good_tier_costs: "plain_tier t \<Longrightarrow> good_costs (tier_costs t)"
proof -
  assume t: "plain_tier t"
  have "distinct (map fst (tier_costs t))"
    by (simp add: tier_costs_def cache_map)
  moreover have "cost_var v" if "(f, v) \<in> set BILLING_CACHE_VAR_MAP" for f v
    using that by (force simp: cost_var_def)
  ultimately show ?thesis using plain_tier_cache_cost [OF t] finite_cost_text
    by (auto simp: good_costs_def tier_costs_def cost_text_def split: if_splits)
qed

lemma costs_text_concat:
  "costs_text xs = concat (map (\<lambda>(v, n). case n of None \<Rightarrow> [] | Some s \<Rightarrow> '' + '' @ v @ '' * '' @ s) xs)"
  by (induction xs rule: costs_text.induct) auto

lemma join_plus: "join '' + '' (x # xs) = x @ concat (map ((@) '' + '') xs)"
proof (induction xs arbitrary: x)
  case (Cons y ys)
  then show ?case using Cons.IH [of y] by simp
qed simp

lemma body_text:
  assumes "plain_tier t"
  shows "buildTierBodyExpr t = ''p * '' @ js_String (vt_input_unit_cost t) @ '' + c * '' @
    js_String (vt_output_unit_cost t) @ costs_text (tier_costs t)"
proof -
  have z: "or_zero (vt_input_unit_cost t) = vt_input_unit_cost t" "or_zero (vt_output_unit_cost t) = vt_output_unit_cost t"
    using assms finite_cost_text(4) by (auto simp: plain_tier_def)
  have "concat (map ((@) '' + '') (concat (map (\<lambda>(field, exprVar). let v = or_zero (cache_cost t field)
      in if v \<noteq> Fin 0 then [exprVar @ '' * '' @ js_String v] else []) ms))) =
    costs_text (map (\<lambda>(field, v). (v, cost_text (cache_cost t field))) ms)" if "set ms \<subseteq> set BILLING_CACHE_VAR_MAP" for ms
    using that
  proof (induction ms)
    case (Cons m ms)
    obtain f v where m: "m = (f, v)" by (cases m)
    have "or_zero (cache_cost t f) = cache_cost t f"
      using finite_cost_text(4) plain_tier_cache_cost [OF assms] Cons.prems m by auto
    then show ?case using Cons m by (simp add: cost_text_def Let_def)
  qed simp
  from this [of BILLING_CACHE_VAR_MAP] show ?thesis
    unfolding buildTierBodyExpr_def append_Cons append_Nil join_plus z tier_costs_def by simp
qed

lemma closes_close: "closes (rxk (seqs [lit '')'', Eol]) k)"
  by (simp add: closes_def rxk_simps)

lemma single_body_match:
  fixes pre :: string
  assumes t: "plain_tier t" and k: "closes k"
  shows "rxk (seqs (buildVisualTierBodyPattern g)) k (pre, buildTierBodyExpr t @ CHR '')'' # r, c) =
    k (rev (buildTierBodyExpr t) @ pre, CHR '')'' # r,
       costs_caps (g + 2) (tier_costs t)
         (c(g \<mapsto> js_String (vt_input_unit_cost t), Suc g \<mapsto> js_String (vt_output_unit_cost t))))"
proof -
  let ?i = "js_String (vt_input_unit_cost t)" and ?o = "js_String (vt_output_unit_cost t)"
  let ?T = "costs_text (tier_costs t) @ CHR '')'' # r"
  have i: "list_all num_class ?i" "?i \<noteq> []" and o: "list_all num_class ?o" "?o \<noteq> []"
    using t finite_cost_text by (auto simp: plain_tier_def)
  have c: "cost_var ''c''" by (simp add: cost_var_def)
  have gc: "good_costs (tier_costs t)" using t by (rule good_tier_costs)
  have m: "map snd BILLING_CACHE_VAR_MAP = map fst (tier_costs t)" by (simp add: tier_costs_def cache_map)
  let ?K1 = "rxk (seqs (optional_costs (g + 2) (map fst (tier_costs t)))) k"
  let ?K2 = "rxk (cost_rx (Suc g) ''c'') ?K1"
  have k1: "?K2 (q, '' + '' @ ''c'' @ '' * '' @ ?o @ ?T, c') =
      ?K1 (rev ('' + '' @ ''c'' @ '' * '' @ ?o) @ q, ?T, c'(Suc g \<mapsto> ?o))" for q c'
    by (rule cost_rx_present [OF c o ends_number_costs])
      (use o(1) in \<open>auto intro!: opts_number [OF gc k _ _ ends_number_costs]\<close>)
  have k2: "rxk (Plus (Cls num_class)) (\<lambda>st. ?K2 (set_cap g (?i @ CHR '' '' # s) st)) (q, ?i @ CHR '' '' # s, c') =
      ?K2 (rev ?i @ q, CHR '' '' # s, c'(g \<mapsto> ?i))" if "s = ''+ '' @ ''c'' @ '' * '' @ ?o @ ?T" for q c' s
  proof (subst rxk_plus_suffix [OF i])
    show "?K2 (set_cap g (?i @ CHR '' '' # s) (rev w1 @ q, w2 @ CHR '' '' # s, c')) = []"
      if "?i = w1 @ w2" "w1 \<noteq> []" "w2 \<noteq> []" for w1 w2
      using that i(1) \<open>s = _\<close> unfolding set_cap_eval by (intro cost_rx_number [OF c]) (auto simp: ends_number_def)
  qed (simp_all add: num_class_def is_digit_def set_cap_eval)
  obtain x u where x: "?i = x # u" "num_class x" using i by (cases ?i) auto
  have x': "\<not> is_ws x" "x \<noteq> CHR '' ''" using num_class_facts(1) [OF x(2)] x(2) by (auto simp: is_ws_def)
  have nr: "rxk (Grp g (Plus (Cls num_class))) K (q, CHR '' '' # s, c') = []" for q s c' K
    by (simp add: rxk_simps Plus_def num_class_def is_digit_def)
  let ?S = "''+ '' @ ''c'' @ '' * '' @ ?o @ ?T"
  have "rxk (seqs (buildVisualTierBodyPattern g)) k (pre, buildTierBodyExpr t @ CHR '')'' # r, c) =
    rxk (seqs [lit ''p'', ws_star, lit ''*'', ws_star, Grp g (Plus (Cls num_class)), cost_rx (Suc g) ''c'']) ?K1
      (pre, ''p * '' @ ?i @ CHR '' '' # ?S, c)"
    unfolding buildVisualTierBodyPattern_def rxk_seqs_append m body_text [OF t] by simp
  also have "\<dots> = rxk (Grp g (Plus (Cls num_class))) (rxk (Seq (cost_rx (Suc g) ''c'') Eps) ?K1)
      (rev ''p * '' @ pre, ?i @ CHR '' '' # ?S, c)"
    using x' nr by (auto simp: seqs.simps lit.simps rxk_simps rxk_star_Cons is_ws_def x(1) simp del: rxk_simps(6))
  also have "rxk (Seq (cost_rx (Suc g) ''c'') Eps) ?K1 = ?K2"
  proof -
    have "rxk Eps ?K1 = ?K1" by (simp add: rxk_simps fun_eq_iff)
    then show ?thesis by (intro ext) (simp only: rxk_simps(4))
  qed
  also have "rxk (Grp g (Plus (Cls num_class))) ?K2 (rev ''p * '' @ pre, ?i @ CHR '' '' # ?S, c) =
      ?K2 (rev ?i @ rev ''p * '' @ pre, CHR '' '' # ?S, c(g \<mapsto> ?i))"
    unfolding rxk_simps using k2 [OF refl] by simp
  also have "\<dots> = ?K1 (rev ('' + '' @ ''c'' @ '' * '' @ ?o) @ rev ?i @ rev ''p * '' @ pre, ?T, c(g \<mapsto> ?i, Suc g \<mapsto> ?o))"
    using k1 by simp
  also have "\<dots> = k (rev (costs_text (tier_costs t)) @ rev ('' + '' @ ''c'' @ '' * '' @ ?o) @ rev ?i @ rev ''p * '' @ pre,
      CHR '')'' # r, costs_caps (g + 2) (tier_costs t) (c(g \<mapsto> ?i, Suc g \<mapsto> ?o)))"
    by (rule opts_match [OF gc k])
  finally show ?thesis by (simp add: body_text [OF t])
qed


lemma costs_caps_nth:
  "n < length xs \<Longrightarrow> \<forall>i\<ge>g. c i = None \<Longrightarrow> costs_caps g xs c (g + n) = snd (xs ! n)"
  "i < g \<Longrightarrow> costs_caps g xs c i = c i"
proof -
  have low: "i < g \<Longrightarrow> costs_caps g xs c i = c i" for i g and c :: caps and xs
    by (induction xs arbitrary: g c rule: costs_text.induct) auto
  then show "i < g \<Longrightarrow> costs_caps g xs c i = c i" .
  show "n < length xs \<Longrightarrow> \<forall>i\<ge>g. c i = None \<Longrightarrow> costs_caps g xs c (g + n) = snd (xs ! n)"
  proof (induction xs arbitrary: g n c rule: costs_text.induct)
    case (2 v xs)
    then show ?case using 2(1) [of _ "Suc g"] low [of g "Suc g"] by (cases n) (auto simp: less_Suc_eq_le)
  next
    case (3 v s xs)
    then show ?case using 3(1) [of _ "Suc g"] low [of g "Suc g"] by (cases n) (auto simp: less_Suc_eq_le)
  qed simp
qed

lemma cost_text_number: "finite_cost x \<Longrightarrow> number_or_zero (map_option string_to_number (cost_text x)) = x"
  using finite_cost_text [of x] by (auto simp: cost_text_def number_or_zero_def number_of_def or_zero_def num_truthy_def)

lemma single_tier_match:
  assumes "plain_tier t"
  shows "rx_match single_tier_rx (tier_call (vt_label t) t) \<noteq> None \<and>
    (\<forall>m. rx_match single_tier_rx (tier_call (vt_label t) t) = Some m \<longrightarrow>
       m 1 = Some (vt_label t) \<and> m 2 = Some (js_String (vt_input_unit_cost t)) \<and>
       m 3 = Some (js_String (vt_output_unit_cost t)) \<and>
       (\<forall>n<7. m (4 + n) = snd (tier_costs t ! n)))"
proof -
  let ?l = "vt_label t" and ?b = "buildTierBodyExpr t"
  have l: "list_all (\<lambda>x. x \<noteq> CHR 0x22) ?l" using assms by (auto simp: plain_tier_def list_all_iff)
  let ?c0 = "Map.empty(1 \<mapsto> ?l) :: caps"
  let ?C = "costs_caps 4 (tier_costs t)
         (?c0(2 \<mapsto> js_String (vt_input_unit_cost t), 3 \<mapsto> js_String (vt_output_unit_cost t)))"
  let ?fin = "rxk (seqs [lit '')'', Eol]) (\<lambda>x. [x])"
  obtain y where y: "?b = CHR ''p'' # y" using body_text [OF assms] by auto
  have "rxm (seqs ([lit ''tier(\"'', Grp 1 (Star (Cls (\<lambda>x. x \<noteq> CHR 0x22))), lit ''\",'', ws_star] @
           buildVisualTierBodyPattern 2 @ [lit '')'', Eol])) ([], tier_call ?l t, Map.empty) =
    rxk (seqs [lit ''tier(\"'', Grp 1 (Star (Cls (\<lambda>x. x \<noteq> CHR 0x22))), lit ''\",'', ws_star])
      (rxk (seqs (buildVisualTierBodyPattern 2)) ?fin) ([], tier_call ?l t, Map.empty)"
    by (simp only: rxm_rxk rxk_seqs_append)
  also have "\<dots> = rxk (seqs (buildVisualTierBodyPattern 2)) ?fin
      (rev (''tier(\"'' @ ?l @ ''\", ''), ?b @ [CHR '')''], ?c0)"
  proof -
    have "rxk (seqs (buildVisualTierBodyPattern 2)) ?fin (q, CHR '' '' # s, c) = []" for q s c
      by (simp add: buildVisualTierBodyPattern_def rxk_simps)
    then show ?thesis using l
      by (simp add: tier_call_def y rxk_simps rxk_star_cls rxk_star_Cons set_cap_eval is_ws_def)
  qed
  also have "\<dots> = [(rev (tier_call ?l t), [], ?C)]"
    using single_body_match [OF assms closes_close, of 2 "\<lambda>x. [x]" "rev (''tier(\"'' @ ?l @ ''\", '')" "[]" ?c0]
    by (simp add: rxk_simps tier_call_def)
  finally have "rx_match single_tier_rx (tier_call ?l t) = Some (?C(0 \<mapsto> tier_call ?l t))"
    unfolding single_tier_rx_def by (simp add: rx_match_anchored ahead_def)
  moreover have "?C 1 = Some ?l" "?C 2 = Some (js_String (vt_input_unit_cost t))" "?C 3 = Some (js_String (vt_output_unit_cost t))"
    by (simp_all add: costs_caps_nth(2))
  moreover have "?C (4 + n) = snd (tier_costs t ! n)" if "n < 7" for n
    using that by (intro costs_caps_nth(1)) (auto simp: tier_costs_def cache_map)
  ultimately show ?thesis by auto
qed

section \<open>Normal forms\<close>

definition normal_tier :: "VisualTier \<Rightarrow> bool" where
  "normal_tier t \<longleftrightarrow> list_all (\<lambda>x. x \<noteq> NaN) [vt_cache_read_unit_cost t, vt_cache_create_unit_cost t,
     vt_cache_create_1h_unit_cost t, vt_image_unit_cost t, vt_image_output_unit_cost t,
     vt_audio_input_unit_cost t, vt_audio_output_unit_cost t]"

lemma or_zero_not_NaN [simp]: "or_zero x \<noteq> NaN" and or_zero_id: "x \<noteq> NaN \<Longrightarrow> or_zero x = x"
  by (auto simp: or_zero_def num_truthy_def)

lemma normal_normalizeVisualTier: "normal_tier (normalizeVisualTier p)"
  by (simp add: normal_tier_def normalizeVisualTier_def number_or_zero_def)

lemma normalizeVisualTier_id: "normal_tier t \<Longrightarrow> normalizeVisualTier (partial_tier t) = t"
  by (simp add: normal_tier_def normalizeVisualTier_def partial_tier_def or_default_def number_or_zero_def
    number_of_def or_zero_id)

interpretation tier_norm: normaliser "\<lambda>t. normalizeVisualTier (partial_tier t)" normal_tier "\<lambda>_. True"
  by unfold_locales (auto simp: normal_normalizeVisualTier normalizeVisualTier_id)

definition normal_config :: "VisualConfig \<Rightarrow> bool" where
  "normal_config c \<longleftrightarrow> vc_tiers c \<noteq> [] \<and> list_all normal_tier (vc_tiers c)"

lemma normal_normalizeVisualConfig: "normal_config (normalizeVisualConfig c)"
  by (auto simp: normal_config_def normalizeVisualConfig_def createDefaultVisualConfig_def list_all_iff
    normal_normalizeVisualTier split: option.splits)

lemma normalizeVisualConfig_id: "normal_config c \<Longrightarrow> normalizeVisualConfig (Some c) = c"
  by (cases c) (auto simp: normal_config_def normalizeVisualConfig_def list_all_iff
    normalizeVisualTier_id intro: map_idI)

interpretation config_norm: normaliser "\<lambda>c. normalizeVisualConfig (Some c)" normal_config "\<lambda>_. True"
  by unfold_locales (auto simp: normal_normalizeVisualConfig normalizeVisualConfig_id)

lemma createVisualTier_plain:
  assumes "plain_tier t" "m 1 = Some (vt_label t)" "m 2 = Some (js_String (vt_input_unit_cost t))"
    "m 3 = Some (js_String (vt_output_unit_cost t))" "\<And>n. n < 7 \<Longrightarrow> m (4 + n) = snd (tier_costs t ! n)"
  shows "createVisualTierFromMatch m SINGLE_VISUAL_TIER_CAPTURES = t"
proof -
  have fc: "list_all finite_cost [vt_input_unit_cost t, vt_output_unit_cost t, vt_cache_read_unit_cost t,
       vt_cache_create_unit_cost t, vt_cache_create_1h_unit_cost t, vt_image_unit_cost t,
       vt_image_output_unit_cost t, vt_audio_input_unit_cost t, vt_audio_output_unit_cost t]"
    using assms(1) by (simp add: plain_tier_def)
  have cc: "cache_cost_capture m 4 0 = map_option string_to_number (cost_text (vt_cache_read_unit_cost t))"
    "cache_cost_capture m 4 1 = map_option string_to_number (cost_text (vt_cache_create_unit_cost t))"
    "cache_cost_capture m 4 2 = map_option string_to_number (cost_text (vt_cache_create_1h_unit_cost t))"
    "cache_cost_capture m 4 3 = map_option string_to_number (cost_text (vt_image_unit_cost t))"
    "cache_cost_capture m 4 4 = map_option string_to_number (cost_text (vt_image_output_unit_cost t))"
    "cache_cost_capture m 4 5 = map_option string_to_number (cost_text (vt_audio_input_unit_cost t))"
    "cache_cost_capture m 4 6 = map_option string_to_number (cost_text (vt_audio_output_unit_cost t))"
    using assms(5) [of 0] assms(5) [of 1] assms(5) [of 2] assms(5) [of 3] assms(5) [of 4] assms(5) [of 5]
      assms(5) [of 6]
    by (simp_all add: cache_cost_capture_def tier_costs_def cache_map cache_cost_def)
  have mode: "vt_cache_mode t = (if js_lt (Fin 0) (vt_cache_create_1h_unit_cost t) then CACHE_MODE_TIMED else CACHE_MODE_GENERIC)"
    using assms(1) by (simp add: plain_tier_def getTierCacheMode_def partial_tier_def number_of_def)
  have lt: "js_lt (Fin 0) (number_of (map_option string_to_number (cost_text (vt_cache_create_1h_unit_cost t)))) =
      js_lt (Fin 0) (vt_cache_create_1h_unit_cost t)"
    using fc finite_cost_text(3) by (auto simp: cost_text_def number_of_def)
  show ?thesis
    using fc assms(2-4) cost_text_number finite_cost_text(3) lt mode
      assms(1) [unfolded plain_tier_def, THEN conjunct2, THEN conjunct2, THEN conjunct1]
    by (cases t) (simp add: createVisualTierFromMatch_def SINGLE_VISUAL_TIER_CAPTURES_def
      applyCapturedCacheCosts_def cc [simplified] normalizeVisualTier_def or_default_def empty_partial_tier_def
      parseTierConditions_def cap_def getTierCacheMode_def)
qed


text \<open>C7: A visual tier without conditions survives the editor: recognising the expression generated
  for it returns exactly that tier, for a label without quotes and prices that are finite
  binary64 numbers, with the cache mode the 1h price implies.\<close>

theorem visual_tier_roundtrip:
  assumes "plain_tier t"
  shows "tryParseVisualConfig (Some (generateExprFromVisualConfig (Some \<lparr>vc_tiers = [t]\<rparr>))) = Some \<lparr>vc_tiers = [t]\<rparr>"
proof -
  let ?e = "tier_call (vt_label t) t"
  have g: "generateExprFromVisualConfig (Some \<lparr>vc_tiers = [t]\<rparr>) = ?e"
    using assms by (simp add: generateExprFromVisualConfig_def plain_tier_def buildConditionStr_def str_or_def)
  have v: "stripVisualConfigVersion ?e = ?e"
    by (simp add: stripVisualConfigVersion_def rx_match_anchored tier_call_def)
  obtain m where m: "rx_match single_tier_rx ?e = Some m" using single_tier_match [OF assms] by blast
  have t: "createVisualTierFromMatch m SINGLE_VISUAL_TIER_CAPTURES = t"
    using single_tier_match [OF assms] m by (intro createVisualTier_plain [OF assms]) auto
  have "normal_config \<lparr>vc_tiers = [t]\<rparr>"
    using normal_normalizeVisualTier t by (auto simp: normal_config_def createVisualTierFromMatch_def)
  then show ?thesis
    using m t normalizeVisualConfig_id by (simp add: g v tryParseVisualConfig_def parseSingleVisualTier_def)
      (simp add: tier_call_def)
qed

definition sample_tier :: VisualTier where
  "sample_tier =
    \<lparr>vt_label = ''standard'', vt_conditions = [], vt_input_unit_cost = Fin (3 / 2), vt_output_unit_cost = Fin 6,
     vt_cache_mode = ''timed'', vt_cache_read_unit_cost = Fin (1 / 4), vt_cache_create_unit_cost = Fin 0,
     vt_cache_create_1h_unit_cost = Fin 3, vt_image_unit_cost = Fin 0, vt_image_output_unit_cost = Fin 0,
     vt_audio_input_unit_cost = Fin 0, vt_audio_output_unit_cost = Fin 0\<rparr>"

lemma plain_sample_tier: "plain_tier sample_tier"
proof -
  have "binary64 (3 / 2)" by (rule binary64I [of _ 3 "- 1"]) (simp_all add: power_int_def)
  moreover have "binary64 (1 / 4)" by (rule binary64I [of _ 1 "- 2"]) (simp_all add: power_int_def power2_eq_square)
  moreover have "binary64 6" by (rule binary64I [of _ 6 0]) simp_all
  moreover have "binary64 3" by (rule binary64I [of _ 3 0]) simp_all
  moreover have "vt_cache_mode sample_tier = getTierCacheMode (Some ((partial_tier sample_tier)\<lparr>pv_cache_mode := None\<rparr>))"
    by code_simp
  ultimately show ?thesis by (simp add: plain_tier_def sample_tier_def finite_cost_def)
qed

theorem visual_tier_roundtrip_witness:
  "tryParseVisualConfig (Some (generateExprFromVisualConfig (Some \<lparr>vc_tiers = [sample_tier]\<rparr>))) =
     Some \<lparr>vc_tiers = [sample_tier]\<rparr>"
  by (rule visual_tier_roundtrip) (rule plain_sample_tier)

text \<open>Whatever expression is recognised, the configuration handed to the editor has at least one
  tier and is normalised (no cache or media price is \<open>NaN\<close>), and unless the text is one plain
  tier call, generating it again gives the text back up to white space.\<close>

theorem tryParseVisualConfig_sound:
  assumes "tryParseVisualConfig (Some e) = Some cfg"
  shows "vc_tiers cfg \<noteq> [] \<and> list_all normal_tier (vc_tiers cfg) \<and> normalizeVisualConfig (Some cfg) = cfg \<and>
    (parseSingleVisualTier (stripVisualConfigVersion e) = Some cfg \<or>
     strip_ws (generateExprFromVisualConfig (Some cfg)) = strip_ws (stripVisualConfigVersion e))"
proof -
  have "\<exists>c. cfg = normalizeVisualConfig c"
    using assms by (auto simp: tryParseVisualConfig_def parseSingleVisualTier_def parseTieredVisualConfig_def Let_def
      split: option.splits if_splits)
  then have "normal_config cfg" using normal_normalizeVisualConfig by blast
  then have "vc_tiers cfg \<noteq> [] \<and> list_all normal_tier (vc_tiers cfg) \<and> normalizeVisualConfig (Some cfg) = cfg"
    using config_norm.norm_nf by (simp add: normal_config_def)
  then show ?thesis using assms
    by (auto simp: tryParseVisualConfig_def parseTieredVisualConfig_def Let_def split: option.splits if_splits)
qed

theorem tryParseVisualConfig_sound_witness:
  "vc_tiers \<lparr>vc_tiers = [sample_tier]\<rparr> \<noteq> [] \<and> list_all normal_tier (vc_tiers \<lparr>vc_tiers = [sample_tier]\<rparr>) \<and>
   normalizeVisualConfig (Some \<lparr>vc_tiers = [sample_tier]\<rparr>) = \<lparr>vc_tiers = [sample_tier]\<rparr> \<and>
   (parseSingleVisualTier (stripVisualConfigVersion ''tier(\"standard\", p*1.5 + c * 6 + cr * 0.25 + cc1h * 3)'') = Some \<lparr>vc_tiers = [sample_tier]\<rparr> \<or>
    strip_ws (generateExprFromVisualConfig (Some \<lparr>vc_tiers = [sample_tier]\<rparr>)) =
      strip_ws (stripVisualConfigVersion ''tier(\"standard\", p*1.5 + c * 6 + cr * 0.25 + cc1h * 3)''))"
  by (rule tryParseVisualConfig_sound) code_simp

text \<open>The normalisation of a tier is only partly effective: the cache and media prices of the result
  are never \<open>NaN\<close>, but a present input or output price is copied as it is, \<open>NaN\<close> included,
  because the spread of the argument follows the cleaned values.\<close>

theorem normalizeVisualTier_prices:
  "normal_tier (normalizeVisualTier p) \<and>
   vt_input_unit_cost (normalizeVisualTier p) = (case pv_input_unit_cost p of None \<Rightarrow> Fin 0 | Some x \<Rightarrow> x) \<and>
   vt_output_unit_cost (normalizeVisualTier p) = (case pv_output_unit_cost p of None \<Rightarrow> Fin 0 | Some x \<Rightarrow> x)"
proof -
  have "or_zero NaN = Fin 0" by (simp add: or_zero_def num_truthy_def)
  then show ?thesis using normal_normalizeVisualTier
    by (auto simp: normalizeVisualTier_def or_default_def number_or_zero_def number_of_def split: option.splits)
qed

end
