(* ===== verification/PlaygroundMessages.thy ===== *)
theory PlaygroundMessages
  imports JsJson
begin

text \<open>
  The message model of the playground: \<open>features/playground/types.ts\<close>, \<open>constants.ts\<close>,
  \<open>lib/message-utils.ts\<close> and \<open>lib/payload-builder.ts\<close>.

  Identifiers come from the package \<open>nanoid\<close>; the functions that call it take the fresh
  identifiers as arguments. An optional property is an \<open>option\<close>; \<open>errorCode\<close> may also be \<open>null\<close>,
  so it is an option of an option. The functions that rebuild an object with a spread update the
  record and keep the other properties.

  The lemmas characterise the separation of \<open><think>\<close> reasoning from visible text, which message
  an update touches, what survives a reload and what is sent to the server.
\<close>

section \<open>Types and constants\<close>

datatype MessageRole = USER | ASSISTANT | SYSTEM

datatype MessageStatus = LOADING | STREAMING | COMPLETE | ERROR

record MessageVersion =
  mv_id :: string
  mv_content :: string

record Reasoning =
  r_content :: string
  r_duration :: jsnum

record Message =
  m_key :: string
  m_from :: MessageRole
  m_versions :: "MessageVersion list"
  m_sources :: "(string \<times> string) list option"
  m_reasoning :: "Reasoning option"
  m_isReasoningStreaming :: "bool option"
  m_isReasoningComplete :: "bool option"
  m_isContentComplete :: "bool option"
  m_status :: "MessageStatus option"
  m_errorCode :: "string option option"

record ChatCompletionMessage =
  cm_role :: MessageRole
  cm_content :: string

record ChatCompletionRequest =
  cr_model :: string
  cr_group :: string
  cr_messages :: "ChatCompletionMessage list"
  cr_stream :: bool
  cr_temperature :: "jsnum option"
  cr_top_p :: "jsnum option"
  cr_max_tokens :: "jsnum option"
  cr_frequency_penalty :: "jsnum option"
  cr_presence_penalty :: "jsnum option"
  cr_seed :: "jsnum option"

record PlaygroundConfig =
  pc_model :: string
  pc_group :: string
  pc_temperature :: jsnum
  pc_top_p :: jsnum
  pc_max_tokens :: jsnum
  pc_frequency_penalty :: jsnum
  pc_presence_penalty :: jsnum
  pc_seed :: "jsnum option"
  pc_stream :: bool

record ParameterEnabled =
  pe_temperature :: bool
  pe_top_p :: bool
  pe_max_tokens :: bool
  pe_frequency_penalty :: bool
  pe_presence_penalty :: bool
  pe_seed :: bool

definition API_REQUEST_ERROR :: string where "API_REQUEST_ERROR = ''Request error occurred''"
definition PARSE_ERROR :: string where "PARSE_ERROR = ''Error parsing response data''"
definition STREAM_START_ERROR :: string where "STREAM_START_ERROR = ''Error establishing connection''"
definition CONNECTION_CLOSED :: string where "CONNECTION_CLOSED = ''Connection closed''"
definition INTERRUPTED :: string where "INTERRUPTED = ''Generation was interrupted''"

definition DEFAULT_CONFIG :: PlaygroundConfig where
  "DEFAULT_CONFIG =
     \<lparr>pc_model = ''gpt-4o'', pc_group = ''default'', pc_temperature = fround (7 / 10), pc_top_p = Fin 1,
      pc_max_tokens = Fin 4096, pc_frequency_penalty = Fin 0, pc_presence_penalty = Fin 0,
      pc_seed = None, pc_stream = True\<rparr>"

definition DEFAULT_PARAMETER_ENABLED :: ParameterEnabled where
  "DEFAULT_PARAMETER_ENABLED =
     \<lparr>pe_temperature = True, pe_top_p = True, pe_max_tokens = False, pe_frequency_penalty = True,
      pe_presence_penalty = True, pe_seed = False\<rparr>"

section \<open>Versions and messages\<close>

definition createMessageVersion :: "string \<Rightarrow> string \<Rightarrow> MessageVersion" where
  "createMessageVersion newid content = \<lparr>mv_id = newid, mv_content = content\<rparr>"

definition getCurrentVersion :: "Message \<Rightarrow> MessageVersion" where
  "getCurrentVersion message =
     (case m_versions message of [] \<Rightarrow> \<lparr>mv_id = ''default'', mv_content = []\<rparr> | v # _ \<Rightarrow> v)"

definition updateCurrentVersionContent :: "Message \<Rightarrow> string \<Rightarrow> Message" where
  "updateCurrentVersionContent message content =
     message\<lparr>m_versions := [(getCurrentVersion message)\<lparr>mv_content := content\<rparr>]\<rparr>"

definition createUserMessage :: "string \<Rightarrow> string \<Rightarrow> string \<Rightarrow> Message" where
  "createUserMessage newkey newid content =
     \<lparr>m_key = newkey, m_from = USER, m_versions = [createMessageVersion newid content], m_sources = None,
      m_reasoning = None, m_isReasoningStreaming = None, m_isReasoningComplete = None,
      m_isContentComplete = None, m_status = None, m_errorCode = None\<rparr>"

definition createLoadingAssistantMessage :: "string \<Rightarrow> string \<Rightarrow> Message" where
  "createLoadingAssistantMessage newkey newid =
     \<lparr>m_key = newkey, m_from = ASSISTANT, m_versions = [createMessageVersion newid []], m_sources = None,
      m_reasoning = None, m_isReasoningStreaming = Some False, m_isReasoningComplete = Some False,
      m_isContentComplete = Some False, m_status = Some LOADING, m_errorCode = None\<rparr>"

definition formatMessageForAPI :: "Message \<Rightarrow> ChatCompletionMessage" where
  "formatMessageForAPI message =
     \<lparr>cm_role = m_from message, cm_content = mv_content (getCurrentVersion message)\<rparr>"

definition isValidMessage :: "Message \<Rightarrow> bool" where
  "isValidMessage message \<longleftrightarrow>
     (case m_versions message of
        [] \<Rightarrow> False
      | v # _ \<Rightarrow> \<not> (m_from message = ASSISTANT \<and> trim (mv_content v) = []))"

section \<open>Thinking\<close>

record ThinkResult =
  tk_visibleContent :: string
  tk_reasoning :: string
  tk_hasUnclosedTag :: bool

definition open_tag :: string where "open_tag = ''<think>''"
definition close_tag :: string where "close_tag = ''</think>''"

lemma index_of_bound: "index_of p s = Some i \<Longrightarrow> i + length p \<le> length s"
proof (induction p s arbitrary: i rule: index_of.induct)
  case (2 p c cs)
  then show ?case by (auto simp: starts_with_iff split: if_splits dest!: arg_cong [where f = length])
qed (auto split: if_splits)

text \<open>The loop: \<open>rest\<close> is the content from \<open>currentPos\<close> on. The result is the visible parts, the
  reasoning parts and whether a tag was left open.\<close>

function think_loop :: "string \<Rightarrow> string list \<times> string list \<times> bool" where
  "think_loop rest =
     (case index_of open_tag rest of
        None \<Rightarrow> (if rest = [] then [] else [rest], [], False)
      | Some i \<Rightarrow>
          let vis = (if 0 < i then [take i rest] else []);
              inner = drop (i + 7) rest
          in case index_of close_tag inner of
               None \<Rightarrow> (vis, [inner], True)
             | Some j \<Rightarrow>
                 (case think_loop (drop (j + 8) inner) of
                    (vs, rs, unclosed) \<Rightarrow> (vis @ vs, take j inner # rs, unclosed)))"
  by pat_completeness auto

termination
  by (relation "measure length") (auto dest!: index_of_bound simp: open_tag_def)

declare think_loop.simps [simp del]

text \<open>The separator is two line feeds.\<close>

definition para :: string where "para = [CHR 0x0A, CHR 0x0A]"

definition parseThinkTags :: "string \<Rightarrow> ThinkResult" where
  "parseThinkTags content =
     (if \<not> str_includes open_tag content
      then \<lparr>tk_visibleContent = content, tk_reasoning = [], tk_hasUnclosedTag = False\<rparr>
      else case think_loop content of
             (visibleParts, reasoningParts, hasUnclosed) \<Rightarrow>
               \<lparr>tk_visibleContent = trim (concat visibleParts), tk_reasoning = trim (join para reasoningParts),
                tk_hasUnclosedTag = hasUnclosed\<rparr>)"

section \<open>Updating the last message\<close>

definition updateLastAssistantMessage :: "Message list \<Rightarrow> (Message \<Rightarrow> Message) \<Rightarrow> Message list" where
  "updateLastAssistantMessage messages updater =
     (if messages = [] then messages
      else if m_from (last messages) \<noteq> ASSISTANT then messages
      else messages[length messages - 1 := updater (last messages)])"

definition updateAssistantMessageWithError :: "Message list \<Rightarrow> string \<Rightarrow> string option \<Rightarrow> Message list" where
  "updateAssistantMessageWithError messages errorMessage errorCode =
     updateLastAssistantMessage messages (\<lambda>message.
       (updateCurrentVersionContent message (API_REQUEST_ERROR @ '': '' @ errorMessage))
         \<lparr>m_status := Some ERROR, m_isReasoningStreaming := Some False,
          m_errorCode := Some (case errorCode of None \<Rightarrow> None | Some c \<Rightarrow> if c = [] then None else Some c)\<rparr>)"

definition processStreamingContent :: "Message \<Rightarrow> string option \<Rightarrow> Message" where
  "processStreamingContent message contentChunk =
     (let current = mv_content (getCurrentVersion message);
          fullContent = (case contentChunk of None \<Rightarrow> current | Some c \<Rightarrow> current @ c);
          parsed = parseThinkTags fullContent
      in (updateCurrentVersionContent message fullContent)
           \<lparr>m_reasoning := (if tk_reasoning parsed \<noteq> [] then Some \<lparr>r_content = tk_reasoning parsed, r_duration = Fin 0\<rparr>
                            else m_reasoning message),
            m_isReasoningStreaming := Some (tk_hasUnclosedTag parsed)\<rparr>)"

definition reasoning_content :: "Message \<Rightarrow> string" where
  "reasoning_content message = (case m_reasoning message of None \<Rightarrow> [] | Some r \<Rightarrow> r_content r)"

definition finalizeMessage :: "Message \<Rightarrow> string option \<Rightarrow> Message" where
  "finalizeMessage message apiReasoningContent =
     (let parsed = parseThinkTags (mv_content (getCurrentVersion message));
          finalReasoning = str_or (case apiReasoningContent of None \<Rightarrow> [] | Some s \<Rightarrow> s)
                             (str_or (reasoning_content message) (tk_reasoning parsed))
      in (updateCurrentVersionContent message (tk_visibleContent parsed))
           \<lparr>m_reasoning := (if finalReasoning \<noteq> []
                            then Some \<lparr>r_content = finalReasoning,
                                       r_duration = (case m_reasoning message of None \<Rightarrow> Fin 0 | Some r \<Rightarrow> or_zero (r_duration r))\<rparr>
                            else None),
            m_isReasoningStreaming := Some False\<rparr>)"

section \<open>Reloading\<close>

definition is_stuck :: "Message \<Rightarrow> bool" where
  "is_stuck m \<longleftrightarrow> m_from m = ASSISTANT \<and> (m_status m = Some LOADING \<or> m_status m = Some STREAMING)"

text \<open>The search of \<open>sanitizeMessagesOnLoad\<close> from the end: the index of the last stuck message.\<close>

fun last_stuck :: "Message list \<Rightarrow> nat option" where
  "last_stuck [] = None"
| "last_stuck (m # ms) =
     (case last_stuck ms of Some i \<Rightarrow> Some (Suc i) | None \<Rightarrow> if is_stuck m then Some 0 else None)"

definition sanitize_message :: "Message \<Rightarrow> Message" where
  "sanitize_message m =
     (let finalized = finalizeMessage m None;
          hasContent = (case m_versions finalized of [] \<Rightarrow> False | v # _ \<Rightarrow> trim (mv_content v) \<noteq> []);
          hasReasoning = (trim (reasoning_content finalized) \<noteq> [])
      in if hasContent \<or> hasReasoning
         then finalized\<lparr>m_status := Some COMPLETE, m_isReasoningStreaming := Some False\<rparr>
         else (updateCurrentVersionContent finalized (API_REQUEST_ERROR @ '': '' @ INTERRUPTED))
                \<lparr>m_status := Some ERROR, m_isReasoningStreaming := Some False\<rparr>)"

definition sanitizeMessagesOnLoad :: "Message list \<Rightarrow> Message list" where
  "sanitizeMessagesOnLoad messages =
     (case last_stuck messages of
        None \<Rightarrow> messages
      | Some i \<Rightarrow> messages[i := sanitize_message (messages ! i)])"

section \<open>Requests\<close>

definition enabled_param :: "bool \<Rightarrow> jsnum option \<Rightarrow> jsnum option" where
  "enabled_param enabled v = (if enabled then v else None)"

definition buildChatCompletionPayload ::
  "Message list \<Rightarrow> PlaygroundConfig \<Rightarrow> ParameterEnabled \<Rightarrow> ChatCompletionRequest" where
  "buildChatCompletionPayload messages config parameterEnabled =
     \<lparr>cr_model = pc_model config, cr_group = pc_group config,
      cr_messages = map formatMessageForAPI (filter isValidMessage messages),
      cr_stream = pc_stream config,
      cr_temperature = enabled_param (pe_temperature parameterEnabled) (Some (pc_temperature config)),
      cr_top_p = enabled_param (pe_top_p parameterEnabled) (Some (pc_top_p config)),
      cr_max_tokens = enabled_param (pe_max_tokens parameterEnabled) (Some (pc_max_tokens config)),
      cr_frequency_penalty = enabled_param (pe_frequency_penalty parameterEnabled) (Some (pc_frequency_penalty config)),
      cr_presence_penalty = enabled_param (pe_presence_penalty parameterEnabled) (Some (pc_presence_penalty config)),
      cr_seed = enabled_param (pe_seed parameterEnabled) (pc_seed config)\<rparr>"

section \<open>Separating reasoning\<close>

lemma index_of_None: "p \<noteq> [] \<Longrightarrow> index_of p s = None \<longleftrightarrow> \<not> str_includes p s"
  by (induction p s rule: index_of.induct) auto

lemma index_of_append:
  assumes "\<not> str_includes p v" "hd p \<notin> set (tl p)" "p \<noteq> []"
  shows "index_of p (v @ p @ s) = Some (length v)"
  using assms(1)
proof (induction v)
  case Nil
  then show ?case using assms(3) by (cases p) auto
next
  case (Cons c v)
  have "\<not> starts_with p (c # v @ p @ s)"
  proof
    assume "starts_with p (c # v @ p @ s)"
    then obtain r where r: "p @ r = (c # v) @ p @ s" by (auto simp: starts_with_iff)
    have n: "c # v \<noteq> p @ q" for q using Cons.prems by (auto simp: starts_with_iff)
    obtain q where "p = (c # v) @ q \<and> q @ r = p @ s \<or> p @ q = c # v"
      using r append_eq_append_conv2 [of p r "c # v" "p @ s"] by metis
    then have q: "p = (c # v) @ q" "q @ r = p @ s" using n by metis+
    moreover have "q \<noteq> []" using q n [of "[]"] by auto
    ultimately
    have "hd q = hd p" using assms(3) by (cases q; cases p) auto
    moreover have "hd q \<in> set (tl p)" using q \<open>q \<noteq> []\<close> by (cases q) auto
    ultimately show False using assms(2) by simp
  qed
  then show ?case using Cons by simp
qed

lemma tags: "hd open_tag \<notin> set (tl open_tag)" "open_tag \<noteq> []" "hd close_tag \<notin> set (tl close_tag)" "close_tag \<noteq> []"
  "length open_tag = 7" "length close_tag = 8"
  by (simp_all add: open_tag_def close_tag_def)

text \<open>Alternating visible text and closed reasoning, followed by \<open>final\<close>.\<close>

definition render_think :: "(string \<times> string) list \<Rightarrow> string \<Rightarrow> string" where
  "render_think segs final = concat (map (\<lambda>(v, r). v @ open_tag @ r @ close_tag) segs) @ final"

definition think_segs :: "(string \<times> string) list \<Rightarrow> bool" where
  "think_segs segs \<longleftrightarrow> list_all (\<lambda>(v, r). \<not> str_includes open_tag v \<and> \<not> str_includes close_tag r) segs"

lemma think_loop_seg:
  assumes "\<not> str_includes open_tag v" "\<not> str_includes close_tag r"
  shows "think_loop (v @ open_tag @ r @ close_tag @ s) =
    (case think_loop s of (vs, rs, u) \<Rightarrow> ((if v = [] then [] else [v]) @ vs, r # rs, u))"
proof -
  have "index_of open_tag (v @ open_tag @ r @ close_tag @ s) = Some (length v)"
    using index_of_append [OF assms(1) tags(1,2)] .
  moreover have "drop (length v + 7) (v @ open_tag @ r @ close_tag @ s) = r @ close_tag @ s"
    using tags(5) by simp
  moreover have "index_of close_tag (r @ close_tag @ s) = Some (length r)"
    using index_of_append [OF assms(2) tags(3,4)] .
  moreover have "drop (length r + 8) (r @ close_tag @ s) = s" using tags(6) by simp
  ultimately show ?thesis
    by (subst think_loop.simps) (auto simp: Let_def simp del: drop_append split: prod.splits)
qed

lemma think_loop_final:
  assumes "\<not> str_includes open_tag s"
  shows "think_loop s = (if s = [] then [] else [s], [], False)"
  using assms tags(2) by (subst think_loop.simps) (simp add: index_of_None [THEN iffD2])

lemma think_loop_open:
  assumes "\<not> str_includes open_tag v" "\<not> str_includes close_tag r"
  shows "think_loop (v @ open_tag @ r) = (if v = [] then [] else [v], [r], True)"
proof -
  have "index_of open_tag (v @ open_tag @ r) = Some (length v)"
    using index_of_append [OF assms(1) tags(1,2)] .
  moreover have "drop (length v + 7) (v @ open_tag @ r) = r" using tags(5) by simp
  ultimately show ?thesis using assms(2) tags(4)
    by (subst think_loop.simps) (auto simp: Let_def index_of_None [THEN iffD2] simp del: drop_append)
qed

lemma think_loop_render:
  assumes "think_segs segs"
  shows "think_loop (render_think segs s) =
    (case think_loop s of (vs, rs, u) \<Rightarrow> (filter (\<lambda>v. v \<noteq> []) (map fst segs) @ vs, map snd segs @ rs, u))"
  using assms
proof (induction segs)
  case (Cons p segs)
  obtain v r where p: "p = (v, r)" by (cases p)
  then show ?case using Cons think_loop_seg [of v r "render_think segs s"]
    by (auto simp: render_think_def think_segs_def split: prod.splits)
qed (simp add: render_think_def split: prod.splits)

lemma concat_filter_nonempty [simp]: "concat (filter (\<lambda>v. v \<noteq> []) xs) = concat xs"
  by (induction xs) auto

lemma includes_open: "segs \<noteq> [] \<Longrightarrow> str_includes open_tag (render_think segs s)"
  unfolding includes_iff by (cases segs) (auto simp: render_think_def, metis append.assoc)

text \<open>Closed \<open><think>\<close> blocks are separated exactly: for visible parts without an opening tag and
  reasoning parts without a closing tag, the visible content is the trimmed concatenation of the
  visible parts, the reasoning the trimmed parts joined by blank lines, and nothing is open.\<close>

theorem parseThinkTags_closed:
  assumes "think_segs segs" "segs \<noteq> []" "\<not> str_includes open_tag s"
  shows "parseThinkTags (render_think segs s) =
    \<lparr>tk_visibleContent = trim (concat (map fst segs) @ s), tk_reasoning = trim (join para (map snd segs)),
     tk_hasUnclosedTag = False\<rparr>"
  using think_loop_render [OF assms(1), of s] think_loop_final [OF assms(3)] includes_open [OF assms(2)]
  by (auto simp: parseThinkTags_def)

theorem parseThinkTags_closed_witness:
  "parseThinkTags (render_think [(''Hi '', ''plan''), ('' there'', ''check'')] ''!'') =
    \<lparr>tk_visibleContent = trim (concat (map fst [(''Hi '', ''plan''), ('' there'', ''check'')]) @ ''!''),
     tk_reasoning = trim (join para (map snd [(''Hi '', ''plan''), ('' there'', ''check'')])), tk_hasUnclosedTag = False\<rparr>"
  by (rule parseThinkTags_closed; code_simp)

text \<open>A block that is still open counts as reasoning to the end of the text and is reported as
  open; text without an opening tag is returned untouched.\<close>

theorem parseThinkTags_open:
  assumes "think_segs segs" "\<not> str_includes open_tag v" "\<not> str_includes close_tag r"
  shows "parseThinkTags (render_think segs (v @ open_tag @ r)) =
    \<lparr>tk_visibleContent = trim (concat (map fst segs) @ v), tk_reasoning = trim (join para (map snd segs @ [r])),
     tk_hasUnclosedTag = True\<rparr> \<and>
    parseThinkTags v = \<lparr>tk_visibleContent = v, tk_reasoning = [], tk_hasUnclosedTag = False\<rparr>"
proof -
  have "str_includes open_tag (render_think segs (v @ open_tag @ r))"
    unfolding includes_iff render_think_def by (metis append.assoc)
  then show ?thesis
    using think_loop_render [OF assms(1), of "v @ open_tag @ r"] think_loop_open [OF assms(2,3)] assms(2)
    by (auto simp: parseThinkTags_def)
qed

theorem parseThinkTags_open_witness:
  "parseThinkTags (render_think [(''Hi '', ''plan'')] ('' wait'' @ open_tag @ ''more'')) =
    \<lparr>tk_visibleContent = trim (concat (map fst [(''Hi '', ''plan'')]) @ '' wait''),
     tk_reasoning = trim (join para (map snd [(''Hi '', ''plan'')] @ [''more''])), tk_hasUnclosedTag = True\<rparr> \<and>
    parseThinkTags '' wait'' = \<lparr>tk_visibleContent = '' wait'', tk_reasoning = [], tk_hasUnclosedTag = False\<rparr>"
  by (rule parseThinkTags_open; code_simp)

section \<open>Updates, reloads and requests\<close>

lemma updateLast_snoc:
  "updateLastAssistantMessage (ms @ [m]) f = ms @ [if m_from m = ASSISTANT then f m else m]"
  by (simp add: updateLastAssistantMessage_def list_update_append)

lemma updateLast_Nil [simp]: "updateLastAssistantMessage [] f = []"
  by (simp add: updateLastAssistantMessage_def)

text \<open>The contract of a handler that rewrites the last assistant message.\<close>

locale message_update =
  fixes upd :: "Message list \<Rightarrow> Message list"
    and f :: "Message \<Rightarrow> Message"
  assumes upd_f: "upd ms = updateLastAssistantMessage ms f"
    and keeps_key: "m_key (f m) = m_key m"
    and keeps_from: "m_from (f m) = m_from m"
begin

lemma upd_snoc: "upd (ms @ [m]) = ms @ [if m_from m = ASSISTANT then f m else m]"
  by (simp add: upd_f updateLast_snoc)

lemma upd_frame:
  "map m_key (upd ms) = map m_key ms \<and> map m_from (upd ms) = map m_from ms \<and> butlast (upd ms) = butlast ms"
  by (cases ms rule: rev_cases) (simp_all add: upd_f updateLast_snoc keeps_key keeps_from)

end

text \<open>A handler that also leaves a failed message failed, and one that settles a message.\<close>

locale error_keeping_update = message_update +
  assumes keeps_error: "m_status m = Some ERROR \<Longrightarrow> m_status (f m) = Some ERROR"
begin

lemma upd_error: "ms \<noteq> [] \<Longrightarrow> m_status (last ms) = Some ERROR \<Longrightarrow> m_status (last (upd ms)) = Some ERROR"
  by (cases ms rule: rev_cases) (simp_all add: upd_snoc keeps_error)

end

locale settling_update = message_update +
  assumes settles: "\<not> is_stuck (f m)"
begin

lemma upd_settled: "ms \<noteq> [] \<Longrightarrow> \<not> is_stuck (last (upd ms))"
proof (cases ms rule: rev_cases)
  case (snoc xs m)
  then show ?thesis using settles [of m] by (simp add: upd_snoc is_stuck_def)
qed simp

end

lemma updateCurrentVersionContent_simps [simp]:
  "m_key (updateCurrentVersionContent m c) = m_key m"
  "m_from (updateCurrentVersionContent m c) = m_from m"
  "m_status (updateCurrentVersionContent m c) = m_status m"
  "m_reasoning (updateCurrentVersionContent m c) = m_reasoning m"
  "mv_content (getCurrentVersion (updateCurrentVersionContent m c)) = c"
  by (simp_all add: updateCurrentVersionContent_def getCurrentVersion_def)

lemma finalizeMessage_simps [simp]:
  "m_key (finalizeMessage m r) = m_key m"
  "m_from (finalizeMessage m r) = m_from m"
  by (simp_all add: finalizeMessage_def Let_def)

lemma processStreamingContent_simps [simp]:
  "m_key (processStreamingContent m c) = m_key m"
  "m_from (processStreamingContent m c) = m_from m"
  by (simp_all add: processStreamingContent_def Let_def)

lemma getCurrentVersion_update [simp]:
  "getCurrentVersion (m\<lparr>m_status := s\<rparr>) = getCurrentVersion m"
  "getCurrentVersion (m\<lparr>m_reasoning := r\<rparr>) = getCurrentVersion m"
  "getCurrentVersion (m\<lparr>m_isReasoningStreaming := b\<rparr>) = getCurrentVersion m"
  "getCurrentVersion (m\<lparr>m_versions := [v]\<rparr>) = v"
  by (simp_all add: getCurrentVersion_def)

lemma sanitize_message_settled: "\<not> is_stuck (sanitize_message m) \<and> m_key (sanitize_message m) = m_key m \<and>
    m_from (sanitize_message m) = m_from m"
  by (simp add: sanitize_message_def is_stuck_def Let_def)

lemma last_stuck_correct:
  "case last_stuck ms of
     None \<Rightarrow> list_all (\<lambda>m. \<not> is_stuck m) ms
   | Some i \<Rightarrow> i < length ms \<and> is_stuck (ms ! i) \<and> (\<forall>j. i < j \<and> j < length ms \<longrightarrow> \<not> is_stuck (ms ! j))"
proof (induction ms)
  case (Cons m ms)
  show ?case
  proof (cases "last_stuck ms")
    case None
    then show ?thesis using Cons by (auto simp: list_all_length nth_Cons')
  next
    case (Some i)
    have "\<not> is_stuck ((m # ms) ! j)" if "Suc i < j" "j < Suc (length ms)" for j
      using that Cons Some by (cases j) auto
    then show ?thesis using Cons Some by simp
  qed
qed simp

text \<open>Loading stored messages keeps their number, keys and roles, changes at most the last stuck
  assistant message, and that one is no longer loading or streaming; in particular, if no other
  message was stuck, nothing stuck is left.\<close>

theorem sanitizeMessagesOnLoad_correct:
  "map m_key (sanitizeMessagesOnLoad ms) = map m_key ms \<and> map m_from (sanitizeMessagesOnLoad ms) = map m_from ms \<and>
   length (filter is_stuck (sanitizeMessagesOnLoad ms)) = length (filter is_stuck ms) - 1 \<and>
   (case last_stuck ms of
      None \<Rightarrow> sanitizeMessagesOnLoad ms = ms
    | Some i \<Rightarrow> take i (sanitizeMessagesOnLoad ms) = take i ms \<and>
                drop (Suc i) (sanitizeMessagesOnLoad ms) = drop (Suc i) ms)"
proof (cases "last_stuck ms")
  case None
  then have "filter is_stuck ms = []" using last_stuck_correct [of ms] by (auto simp: list_all_iff filter_empty_conv)
  then show ?thesis using None by (simp add: sanitizeMessagesOnLoad_def)
next
  case (Some i)
  then have i: "i < length ms" "is_stuck (ms ! i)" using last_stuck_correct [of ms] by auto
  let ?m = "sanitize_message (ms ! i)"
  have split: "ms = take i ms @ ms ! i # drop (Suc i) ms" using i(1) by (rule id_take_nth_drop)
  have s: "sanitizeMessagesOnLoad ms = take i ms @ ?m # drop (Suc i) ms"
    using Some i(1) by (simp add: sanitizeMessagesOnLoad_def upd_conv_take_nth_drop)
  have "length (filter is_stuck ms) = length (filter is_stuck (take i ms)) + 1 + length (filter is_stuck (drop (Suc i) ms))"
    using i(2) by (subst split) simp
  moreover have "map m_key ms = map m_key (take i ms) @ m_key (ms ! i) # map m_key (drop (Suc i) ms)"
    by (subst split) simp
  moreover have "map m_from ms = map m_from (take i ms) @ m_from (ms ! i) # map m_from (drop (Suc i) ms)"
    by (subst split) simp
  ultimately show ?thesis using Some s i(1) sanitize_message_settled [of "ms ! i"] by simp
qed

text \<open>The request carries the conversation and nothing else: in order, the role and current content
  of every message that has a version, except assistant placeholders without text; appending the
  placeholder that a send creates does not change it, and a parameter is present exactly when it is
  enabled and has a value.\<close>

theorem buildChatCompletionPayload_correct:
  "cr_messages (buildChatCompletionPayload (ms @ [createLoadingAssistantMessage k i]) cfg pe) =
     [\<lparr>cm_role = m_from m, cm_content = mv_content (hd (m_versions m))\<rparr>.
        m \<leftarrow> ms, m_versions m \<noteq> [] \<and> (if m_from m = ASSISTANT then trim (mv_content (hd (m_versions m))) \<noteq> [] else True)] \<and>
   (cr_seed (buildChatCompletionPayload ms cfg pe) \<noteq> None \<longleftrightarrow> pe_seed pe \<and> pc_seed cfg \<noteq> None) \<and>
   (cr_max_tokens (buildChatCompletionPayload ms cfg pe) = (if pe_max_tokens pe then Some (pc_max_tokens cfg) else None))"
proof -
  have "map formatMessageForAPI (filter isValidMessage ms) =
     [\<lparr>cm_role = m_from m, cm_content = mv_content (hd (m_versions m))\<rparr>.
        m \<leftarrow> ms, m_versions m \<noteq> [] \<and> (if m_from m = ASSISTANT then trim (mv_content (hd (m_versions m))) \<noteq> [] else True)]"
    by (induction ms) (auto simp: isValidMessage_def formatMessageForAPI_def getCurrentVersion_def split: list.splits)
  then show ?thesis
    by (simp add: buildChatCompletionPayload_def createLoadingAssistantMessage_def createMessageVersion_def
      isValidMessage_def enabled_param_def)
qed

end
