(* ===== verification/PlaygroundStream.thy ===== *)
theory PlaygroundStream
  imports PlaygroundMessages
begin

text \<open>
  The playground's stream of events: \<open>hooks/use-stream-request.ts\<close>, \<open>hooks/use-chat-handler.ts\<close>,
  \<open>hooks/use-playground-state.ts\<close> (the message list) and the handlers of \<open>index.tsx\<close>.

  The state is the message list and the two references of \<open>useStreamRequest\<close>: whether a source is
  held and whether \<open>[DONE]\<close> was seen. Every listener of the event source and every action of the
  page is one event; the package \<open>sse.js\<close> decides which events come and in which order, so the
  properties hold for all sequences of events. Toasts and console output have no state and are
  left out; saving to \<open>localStorage\<close> mirrors the message list. Every message has a version, so
  \<open>message.versions[0]\<close> is the current version.
\<close>

section \<open>State and events\<close>

record Chat =
  ch_messages :: "Message list"
  ch_source :: bool
  ch_complete :: bool

datatype update_type = UReasoning | UContent

text \<open>\<open>SseError data isClosed\<close>: \<open>isClosed\<close> says that \<open>source.readyState\<close> is 2. A status or ready state
  that is \<open>undefined\<close> is \<open>None\<close>.\<close>

datatype chat_event =
    SseMessage string
  | SseError "string option" bool
  | SseReadyState "int option" "int option"
  | SseStartFailed
  | Stop
  | Response "(string \<times> string option) option"
  | RequestFailed string "string option"

section \<open>Chat handler\<close>

definition handleStreamUpdate :: "update_type \<Rightarrow> string \<Rightarrow> Message list \<Rightarrow> Message list" where
  "handleStreamUpdate ty chunk prev =
     updateLastAssistantMessage prev (\<lambda>message.
       if m_status message = Some ERROR then message
       else case ty of
              UReasoning \<Rightarrow>
                message\<lparr>m_reasoning := Some \<lparr>r_content = reasoning_content message @ chunk, r_duration = Fin 0\<rparr>,
                        m_isReasoningStreaming := Some True, m_status := Some STREAMING\<rparr>
            | UContent \<Rightarrow>
                (processStreamingContent message (Some chunk))\<lparr>m_status := Some STREAMING\<rparr>)"

definition handleStreamComplete :: "Message list \<Rightarrow> Message list" where
  "handleStreamComplete prev =
     updateLastAssistantMessage prev (\<lambda>message.
       if m_status message = Some COMPLETE \<or> m_status message = Some ERROR then message
       else (finalizeMessage message None)\<lparr>m_status := Some COMPLETE\<rparr>)"

definition handleStreamError :: "string \<Rightarrow> string option \<Rightarrow> Message list \<Rightarrow> Message list" where
  "handleStreamError msg code prev = updateAssistantMessageWithError prev msg code"

text \<open>The continuation of \<open>sendNonStreamingChat\<close>; the argument is the content and the reasoning of the
  first choice, if the response has one.\<close>

definition applyResponse :: "(string \<times> string option) option \<Rightarrow> Message list \<Rightarrow> Message list" where
  "applyResponse choice prev =
     (case choice of
        None \<Rightarrow> prev
      | Some (content, reasoning) \<Rightarrow>
          updateLastAssistantMessage prev (\<lambda>message.
            (finalizeMessage
               (message\<lparr>m_versions := [(getCurrentVersion message)\<lparr>mv_content := content\<rparr>]\<rparr>) reasoning)
              \<lparr>m_status := Some COMPLETE\<rparr>))"

definition stopUpdate :: "Message list \<Rightarrow> Message list" where
  "stopUpdate prev =
     updateLastAssistantMessage prev (\<lambda>message.
       if m_status message = Some LOADING \<or> m_status message = Some STREAMING
       then (finalizeMessage message None)\<lparr>m_status := Some COMPLETE\<rparr> else message)"

section \<open>Stream request\<close>

definition onError :: "string \<Rightarrow> string option \<Rightarrow> Chat \<Rightarrow> Chat" where
  "onError msg code ch = ch\<lparr>ch_messages := handleStreamError msg code (ch_messages ch)\<rparr>"

definition handleError :: "string \<Rightarrow> string option \<Rightarrow> Chat \<Rightarrow> Chat" where
  "handleError msg code ch =
     (if \<not> ch_complete ch then (onError msg code ch)\<lparr>ch_source := False\<rparr> else ch)"

text \<open>Reading a property: \<open>None\<close> is the \<open>TypeError\<close> of \<open>undefined\<close> and \<open>null\<close>.\<close>

fun get_prop :: "jsval \<Rightarrow> string \<Rightarrow> jsval option" where
  "get_prop JUndefined k = None"
| "get_prop JNull k = None"
| "get_prop (JObj ms) k = Some (case map_of ms k of None \<Rightarrow> JUndefined | Some v \<Rightarrow> v)"
| "get_prop (JArr vs) k = Some (if k = ''0'' then (case vs of [] \<Rightarrow> JUndefined | v # _ \<Rightarrow> v) else JUndefined)"
| "get_prop (JStr s) k = Some (if k = ''0'' then (case s of [] \<Rightarrow> JUndefined | c # _ \<Rightarrow> JStr [c]) else JUndefined)"
| "get_prop v k = Some JUndefined"

text \<open>\<open>v?.k\<close>\<close>

definition opt_prop :: "jsval \<Rightarrow> string \<Rightarrow> jsval" where
  "opt_prop v k = (case get_prop v k of None \<Rightarrow> JUndefined | Some w \<Rightarrow> w)"

text \<open>\<open>chunk.choices?.[0]?.delta\<close>\<close>

definition chunk_delta :: "jsval \<Rightarrow> jsval option" where
  "chunk_delta chunk = map_option (\<lambda>choices. opt_prop (opt_prop choices ''0'') ''delta'') (get_prop chunk ''choices'')"

definition update_if :: "update_type \<Rightarrow> jsval \<Rightarrow> Chat \<Rightarrow> Chat" where
  "update_if ty v ch =
     (if truthy v then ch\<lparr>ch_messages := handleStreamUpdate ty (js_to_string v) (ch_messages ch)\<rparr> else ch)"

definition onSseMessage :: "string \<Rightarrow> Chat \<Rightarrow> Chat" where
  "onSseMessage edata ch =
     (if edata = ''[DONE]''
      then ch\<lparr>ch_complete := True, ch_source := False, ch_messages := handleStreamComplete (ch_messages ch)\<rparr>
      else case Option.bind (json_parse edata) chunk_delta of
             None \<Rightarrow> handleError PARSE_ERROR None ch
           | Some delta \<Rightarrow>
               if truthy delta
               then update_if UContent (opt_prop delta ''content'')
                      (update_if UReasoning (opt_prop delta ''reasoning_content'') ch)
               else ch)"

text \<open>The message and code of an error event.\<close>

definition error_details :: "string option \<Rightarrow> string \<times> string option" where
  "error_details edata =
     (case edata of
        None \<Rightarrow> (API_REQUEST_ERROR, None)
      | Some s \<Rightarrow>
          if s = [] then (API_REQUEST_ERROR, None)
          else (case json_parse s of
                  None \<Rightarrow> (s, None)
                | Some parsed \<Rightarrow>
                    let err = opt_prop parsed ''error''
                    in if truthy err
                       then (if truthy (opt_prop err ''message'') then js_to_string (opt_prop err ''message'') else s,
                             if truthy (opt_prop err ''code'') then Some (js_to_string (opt_prop err ''code'')) else None)
                       else (s, None)))"

definition onSseError :: "string option \<Rightarrow> bool \<Rightarrow> Chat \<Rightarrow> Chat" where
  "onSseError edata isClosed ch =
     (if isClosed then ch else case error_details edata of (msg, code) \<Rightarrow> handleError msg code ch)"

definition onReadyState :: "int option \<Rightarrow> int option \<Rightarrow> Chat \<Rightarrow> Chat" where
  "onReadyState readyState status ch =
     (case (readyState, status) of
        (Some r, Some s) \<Rightarrow>
          if 2 \<le> r \<and> s \<noteq> 200
          then handleError (''HTTP '' @ string_of_int s @ '': '' @ CONNECTION_CLOSED) None ch else ch
      | _ \<Rightarrow> ch)"

definition onStartFailed :: "Chat \<Rightarrow> Chat" where
  "onStartFailed ch = (onError STREAM_START_ERROR None ch)\<lparr>ch_source := False\<rparr>"

definition stopGeneration :: "Chat \<Rightarrow> Chat" where
  "stopGeneration ch = ch\<lparr>ch_source := False, ch_messages := stopUpdate (ch_messages ch)\<rparr>"

fun handle_event :: "chat_event \<Rightarrow> Chat \<Rightarrow> Chat" where
  "handle_event (SseMessage d) ch = onSseMessage d ch"
| "handle_event (SseError d isClosed) ch = onSseError d isClosed ch"
| "handle_event (SseReadyState r s) ch = onReadyState r s ch"
| "handle_event SseStartFailed ch = onStartFailed ch"
| "handle_event Stop ch = stopGeneration ch"
| "handle_event (Response choice) ch = ch\<lparr>ch_messages := applyResponse choice (ch_messages ch)\<rparr>"
| "handle_event (RequestFailed msg code) ch = onError msg code ch"

inductive chat_step :: "Chat \<Rightarrow> Chat \<Rightarrow> bool" where
  event: "chat_step ch (handle_event e ch)"

inductive chat_steps :: "Chat \<Rightarrow> Chat \<Rightarrow> bool" where
  refl: "chat_steps ch ch"
| step: "chat_steps ch ch' \<Longrightarrow> chat_step ch' ch'' \<Longrightarrow> chat_steps ch ch''"

section \<open>Page actions\<close>

text \<open>\<open>sendChat\<close> opens a source when the configuration streams.\<close>

definition sendChat :: "bool \<Rightarrow> Message list \<Rightarrow> Chat \<Rightarrow> Chat" where
  "sendChat streaming ms ch =
     (if streaming then ch\<lparr>ch_messages := ms, ch_source := True, ch_complete := False\<rparr>
      else ch\<lparr>ch_messages := ms\<rparr>)"

definition handleSendMessage ::
  "bool \<Rightarrow> string \<times> string \<Rightarrow> string \<times> string \<Rightarrow> string \<Rightarrow> Chat \<Rightarrow> Chat" where
  "handleSendMessage streaming ids ids' text ch =
     sendChat streaming
       (ch_messages ch @ [createUserMessage (fst ids) (snd ids) text,
                          createLoadingAssistantMessage (fst ids') (snd ids')]) ch"

fun find_index :: "('a \<Rightarrow> bool) \<Rightarrow> 'a list \<Rightarrow> nat option" where
  "find_index p [] = None"
| "find_index p (x # xs) = (if p x then Some 0 else map_option Suc (find_index p xs))"

definition handleRegenerateMessage :: "bool \<Rightarrow> string \<times> string \<Rightarrow> string \<Rightarrow> Chat \<Rightarrow> Chat" where
  "handleRegenerateMessage streaming ids key ch =
     (case find_index (\<lambda>m. m_key m = key) (ch_messages ch) of
        None \<Rightarrow> ch
      | Some i \<Rightarrow> sendChat streaming
                   (take i (ch_messages ch) @ [createLoadingAssistantMessage (fst ids) (snd ids)]) ch)"

definition edit_message :: "string \<Rightarrow> string \<Rightarrow> Message \<Rightarrow> Message" where
  "edit_message key newContent m =
     (if m_key m = key then m\<lparr>m_versions := [(getCurrentVersion m)\<lparr>mv_content := newContent\<rparr>]\<rparr> else m)"

definition applyEdit ::
  "bool \<Rightarrow> string \<times> string \<Rightarrow> string \<Rightarrow> string \<Rightarrow> bool \<Rightarrow> Chat \<Rightarrow> Chat" where
  "applyEdit streaming ids key newContent submit ch =
     (case (if key = [] then None else find_index (\<lambda>m. m_key m = key) (ch_messages ch)) of
        None \<Rightarrow> ch
      | Some i \<Rightarrow>
          let updated = map (edit_message key newContent) (ch_messages ch)
          in if \<not> submit \<or> m_from (updated ! i) \<noteq> USER then ch\<lparr>ch_messages := updated\<rparr>
             else sendChat streaming
                    (take (i + 1) updated @ [createLoadingAssistantMessage (fst ids) (snd ids)]) ch)"

definition handleDeleteMessage :: "string \<Rightarrow> Chat \<Rightarrow> Chat" where
  "handleDeleteMessage key ch = ch\<lparr>ch_messages := filter (\<lambda>m. m_key m \<noteq> key) (ch_messages ch)\<rparr>"

section \<open>The handlers meet the update contract\<close>

definition stream_update_fun :: "update_type \<Rightarrow> string \<Rightarrow> Message \<Rightarrow> Message" where
  "stream_update_fun ty chunk message =
     (if m_status message = Some ERROR then message
      else case ty of
             UReasoning \<Rightarrow>
               message\<lparr>m_reasoning := Some \<lparr>r_content = reasoning_content message @ chunk, r_duration = Fin 0\<rparr>,
                       m_isReasoningStreaming := Some True, m_status := Some STREAMING\<rparr>
           | UContent \<Rightarrow> (processStreamingContent message (Some chunk))\<lparr>m_status := Some STREAMING\<rparr>)"

definition complete_fun :: "Message \<Rightarrow> Message" where
  "complete_fun message =
     (if m_status message = Some COMPLETE \<or> m_status message = Some ERROR then message
      else (finalizeMessage message None)\<lparr>m_status := Some COMPLETE\<rparr>)"

definition error_fun :: "string \<Rightarrow> string option \<Rightarrow> Message \<Rightarrow> Message" where
  "error_fun errorMessage errorCode message =
     (updateCurrentVersionContent message (API_REQUEST_ERROR @ '': '' @ errorMessage))
       \<lparr>m_status := Some ERROR, m_isReasoningStreaming := Some False,
        m_errorCode := Some (case errorCode of None \<Rightarrow> None | Some c \<Rightarrow> if c = [] then None else Some c)\<rparr>"

definition stop_fun :: "Message \<Rightarrow> Message" where
  "stop_fun message =
     (if m_status message = Some LOADING \<or> m_status message = Some STREAMING
      then (finalizeMessage message None)\<lparr>m_status := Some COMPLETE\<rparr> else message)"

definition response_fun :: "string \<times> string option \<Rightarrow> Message \<Rightarrow> Message" where
  "response_fun choice message =
     (finalizeMessage (message\<lparr>m_versions := [(getCurrentVersion message)\<lparr>mv_content := fst choice\<rparr>]\<rparr>) (snd choice))
       \<lparr>m_status := Some COMPLETE\<rparr>"

interpretation upd: error_keeping_update "handleStreamUpdate ty chunk" "stream_update_fun ty chunk" for ty chunk
  by unfold_locales (auto simp: handleStreamUpdate_def stream_update_fun_def [abs_def] split: update_type.splits)

interpretation complete: error_keeping_update handleStreamComplete complete_fun
  by unfold_locales (auto simp: handleStreamComplete_def complete_fun_def [abs_def])

interpretation complete_settles: settling_update handleStreamComplete complete_fun
  by unfold_locales (auto simp: complete_fun_def is_stuck_def)

interpretation err: error_keeping_update "handleStreamError msg code" "error_fun msg code" for msg code
  by unfold_locales (auto simp: handleStreamError_def updateAssistantMessageWithError_def error_fun_def [abs_def])

interpretation err_settles: settling_update "handleStreamError msg code" "error_fun msg code" for msg code
  by unfold_locales (auto simp: error_fun_def is_stuck_def)

interpretation stop: error_keeping_update stopUpdate stop_fun
  by unfold_locales (auto simp: stopUpdate_def stop_fun_def [abs_def])

interpretation stop_settles: settling_update stopUpdate stop_fun
  by unfold_locales (auto simp: stop_fun_def is_stuck_def)

interpretation resp: settling_update "applyResponse (Some choice)" "response_fun choice" for choice
  by unfold_locales (auto simp: applyResponse_def response_fun_def [abs_def] is_stuck_def split: prod.splits)

section \<open>Every event\<close>

definition frame :: "Message list \<Rightarrow> Message list \<Rightarrow> bool" where
  "frame ms ms' \<longleftrightarrow> map m_key ms' = map m_key ms \<and> map m_from ms' = map m_from ms \<and> butlast ms' = butlast ms"

lemma frame_refl: "frame ms ms" and frame_trans: "frame a b \<Longrightarrow> frame b c \<Longrightarrow> frame a c"
  by (auto simp: frame_def)

lemmas update_frames = upd.upd_frame complete.upd_frame err.upd_frame stop.upd_frame resp.upd_frame

lemma frame_handlers:
  "frame ms (handleStreamUpdate ty chunk ms)" "frame ms (handleStreamComplete ms)"
  "frame ms (handleStreamError msg code ms)" "frame ms (stopUpdate ms)" "frame ms (applyResponse r ms)"
proof -
  show "frame ms (applyResponse r ms)"
    using resp.upd_frame by (cases r) (simp_all add: frame_def applyResponse_def)
qed (simp_all add: frame_def update_frames)

lemma frame_handleError: "frame (ch_messages ch) (ch_messages (handleError msg code ch))"
  by (simp add: handleError_def onError_def frame_handlers frame_refl)

lemma frame_update_if: "frame (ch_messages ch) (ch_messages (update_if ty v ch))"
  by (simp add: update_if_def frame_handlers frame_refl)

lemma frame_event: "frame (ch_messages ch) (ch_messages (handle_event e ch))"
proof (cases e)
  case (SseMessage d)
  then show ?thesis
    using frame_trans [OF frame_update_if frame_update_if]
    by (auto simp: onSseMessage_def frame_handlers frame_handleError frame_refl split: option.splits)
qed (auto simp: onSseError_def onReadyState_def onStartFailed_def stopGeneration_def onError_def
  frame_handlers frame_handleError frame_refl split: prod.splits option.splits)

inductive_cases chat_stepE: "chat_step ch ch'"

text \<open>C8: Whatever events arrive and in whatever order, the conversation keeps its messages, their keys
  and roles, and every message but the last is left exactly as it was.\<close>

theorem chat_steps_frame:
  assumes "chat_steps ch ch'"
  shows "map m_key (ch_messages ch') = map m_key (ch_messages ch) \<and>
    map m_from (ch_messages ch') = map m_from (ch_messages ch) \<and>
    butlast (ch_messages ch') = butlast (ch_messages ch)"
proof -
  have "frame (ch_messages ch) (ch_messages ch')"
    using assms
  proof (induction rule: chat_steps.induct)
    case (step ch ch' ch'')
    from step.hyps(2) obtain e where "ch'' = handle_event e ch'" by (rule chat_stepE)
    then show ?case using frame_event step.IH frame_trans by blast
  qed (rule frame_refl)
  then show ?thesis by (simp add: frame_def)
qed

definition greeting :: Chat where
  "greeting = \<lparr>ch_messages = [createUserMessage ''u1'' ''v1'' ''hello'', createLoadingAssistantMessage ''a1'' ''w1''],
     ch_source = True, ch_complete = False\<rparr>"

theorem chat_steps_frame_witness:
  "map m_key (ch_messages (handle_event Stop greeting)) = map m_key (ch_messages greeting) \<and>
    map m_from (ch_messages (handle_event Stop greeting)) = map m_from (ch_messages greeting) \<and>
    butlast (ch_messages (handle_event Stop greeting)) = butlast (ch_messages greeting)"
  by (rule chat_steps_frame) (rule chat_steps.step [OF chat_steps.refl chat_step.event])

fun stream_event :: "chat_event \<Rightarrow> bool" where
  "stream_event (Response _) = False"
| "stream_event _ = True"

definition failed :: "Message list \<Rightarrow> bool" where
  "failed ms \<longleftrightarrow> ms \<noteq> [] \<and> m_status (last ms) = Some ERROR"

lemma frame_Nil: "frame ms ms' \<Longrightarrow> ms' = [] \<longleftrightarrow> ms = []"
  unfolding frame_def by (metis map_is_Nil_conv)

lemma failed_handlers:
  "failed ms \<Longrightarrow> failed (handleStreamUpdate ty chunk ms)" "failed ms \<Longrightarrow> failed (handleStreamComplete ms)"
  "failed ms \<Longrightarrow> failed (handleStreamError msg code ms)" "failed ms \<Longrightarrow> failed (stopUpdate ms)"
  using upd.upd_error complete.upd_error err.upd_error stop.upd_error frame_Nil [OF frame_handlers(1)]
    frame_Nil [OF frame_handlers(2)] frame_Nil [OF frame_handlers(3)] frame_Nil [OF frame_handlers(4)]
  by (auto simp: failed_def)

lemma failed_event:
  assumes "stream_event e" "failed (ch_messages ch)"
  shows "failed (ch_messages (handle_event e ch))"
  using assms
  by (cases e) (auto simp: onSseMessage_def update_if_def handleError_def onError_def onSseError_def onReadyState_def
    onStartFailed_def stopGeneration_def failed_handlers split: option.splits prod.splits)

text \<open>C9: A failed answer stays failed: once the last message is in the error state, no later event of
  the stream (late chunks, \<open>[DONE]\<close>, further errors, a stop) makes it look successful.\<close>

theorem stream_error_sticky:
  assumes "list_all stream_event es" "ch_messages ch \<noteq> []" "m_status (last (ch_messages ch)) = Some ERROR"
  shows "m_status (last (ch_messages (fold handle_event es ch))) = Some ERROR"
proof -
  have "failed (ch_messages ch) \<Longrightarrow> failed (ch_messages (fold handle_event es ch))"
    using assms(1) by (induction es arbitrary: ch) (auto simp: failed_event)
  then show ?thesis using assms(2,3) by (simp add: failed_def)
qed

theorem stream_error_sticky_witness:
  "m_status (last (ch_messages (fold handle_event [SseMessage ''[DONE]'', Stop]
     (handle_event (SseError (Some ''boom'') False) greeting)))) = Some ERROR"
  by (rule stream_error_sticky; code_simp)

text \<open>C10: The end of a stream settles the answer: after \<open>[DONE]\<close>, after a stop, and after an error event on
  a stream that has not completed, the last message is neither loading nor streaming and no source is held.\<close>

theorem stream_end_settles:
  assumes "ch_messages ch \<noteq> []"
    and "e = SseMessage ''[DONE]'' \<or> e = Stop \<or> (\<exists>d. e = SseError d False \<and> \<not> ch_complete ch)"
  shows "\<not> is_stuck (last (ch_messages (handle_event e ch))) \<and> \<not> ch_source (handle_event e ch)"
  using assms complete_settles.upd_settled stop_settles.upd_settled err_settles.upd_settled
  by (auto simp: onSseMessage_def stopGeneration_def onSseError_def handleError_def onError_def split: prod.splits)

theorem stream_end_settles_witness:
  "\<not> is_stuck (last (ch_messages (handle_event Stop greeting))) \<and> \<not> ch_source (handle_event Stop greeting)"
  by (rule stream_end_settles) (simp_all add: greeting_def)

section \<open>Streaming and not streaming\<close>

definition content_of :: "Message \<Rightarrow> string" where
  "content_of m = mv_content (getCurrentVersion m)"

lemma stream_content_step:
  assumes "m_from m = ASSISTANT" "m_status m \<noteq> Some ERROR"
  shows "\<exists>m'. handleStreamUpdate UContent c (ms @ [m]) = ms @ [m'] \<and> m_from m' = ASSISTANT \<and>
    m_status m' = Some STREAMING \<and> content_of m' = content_of m @ c \<and> m_key m' = m_key m"
  using assms
  by (auto simp: upd.upd_snoc stream_update_fun_def processStreamingContent_def content_of_def Let_def)

lemma stream_contents:
  assumes "m_from m = ASSISTANT" "m_status m \<noteq> Some ERROR"
  shows "\<exists>m'. fold (handleStreamUpdate UContent) cs (ms @ [m]) = ms @ [m'] \<and> m_from m' = ASSISTANT \<and>
    m_status m' \<noteq> Some ERROR \<and> (cs \<noteq> [] \<longrightarrow> m_status m' = Some STREAMING) \<and> (cs = [] \<longrightarrow> m' = m) \<and>
    content_of m' = content_of m @ concat cs \<and> m_key m' = m_key m"
  using assms
proof (induction cs arbitrary: m)
  case (Cons c cs)
  obtain m1 where m1: "handleStreamUpdate UContent c (ms @ [m]) = ms @ [m1]" "m_from m1 = ASSISTANT"
    "m_status m1 = Some STREAMING" "content_of m1 = content_of m @ c" "m_key m1 = m_key m"
    using stream_content_step [OF Cons.prems] by blast
  obtain m2 where "fold (handleStreamUpdate UContent) cs (ms @ [m1]) = ms @ [m2]" "m_from m2 = ASSISTANT"
    "m_status m2 \<noteq> Some ERROR" "cs \<noteq> [] \<longrightarrow> m_status m2 = Some STREAMING" "cs = [] \<longrightarrow> m2 = m1"
    "content_of m2 = content_of m1 @ concat cs" "m_key m2 = m_key m1"
    using Cons.IH [of m1] m1 by auto
  then show ?case using m1 by (intro exI [of _ m2]) auto
qed simp

text \<open>C11: How the answer is cut into chunks does not matter, nor whether it is streamed: for a fresh
  placeholder, the content shown after any sequence of content chunks and \<open>[DONE]\<close> is the visible
  part of the concatenated text, the same as for one response with that text.\<close>

theorem stream_content_chunking:
  "\<exists>m m'. handleStreamComplete (fold (handleStreamUpdate UContent) cs (ms @ [createLoadingAssistantMessage k i])) = ms @ [m] \<and>
     applyResponse (Some (concat cs, None)) (ms @ [createLoadingAssistantMessage k i]) = ms @ [m'] \<and>
     content_of m = tk_visibleContent (parseThinkTags (concat cs)) \<and> content_of m' = content_of m \<and>
     m_status m = Some COMPLETE \<and> m_status m' = Some COMPLETE \<and> m_key m = k \<and> m_key m' = k"
proof -
  let ?l = "createLoadingAssistantMessage k i"
  have l: "m_from ?l = ASSISTANT" "m_status ?l = Some LOADING" "content_of ?l = []" "m_key ?l = k"
    by (simp_all add: createLoadingAssistantMessage_def content_of_def getCurrentVersion_def createMessageVersion_def)
  obtain m1 where m1: "fold (handleStreamUpdate UContent) cs (ms @ [?l]) = ms @ [m1]" "m_from m1 = ASSISTANT"
    "m_status m1 \<noteq> Some ERROR" "cs \<noteq> [] \<longrightarrow> m_status m1 = Some STREAMING" "cs = [] \<longrightarrow> m1 = ?l"
    "content_of m1 = concat cs" "m_key m1 = k"
    using stream_contents [of ?l cs ms] l by auto
  have "m_status m1 \<noteq> Some COMPLETE" using m1(4,5) l(2) by (cases "cs = []") auto
  then have c: "complete_fun m1 = (finalizeMessage m1 None)\<lparr>m_status := Some COMPLETE\<rparr>"
    using m1(3) by (simp add: complete_fun_def)
  have "content_of (complete_fun m1) = tk_visibleContent (parseThinkTags (concat cs))"
    using m1(6) by (simp add: c finalizeMessage_def content_of_def Let_def)
  moreover have "content_of (response_fun (concat cs, None) ?l) = tk_visibleContent (parseThinkTags (concat cs))"
    by (simp add: response_fun_def finalizeMessage_def content_of_def Let_def)
  ultimately show ?thesis
    using m1 l c by (auto simp: complete.upd_snoc resp.upd_snoc response_fun_def)
qed

text \<open>The reasoning, however, does depend on the cut: when the only thing inside a \<open><think>\<close> block is
  white space and the closing tag is split between two chunks, the fragment of the tag seen in
  between stays as the reasoning of the finished answer, while the same text in one piece has none.\<close>

theorem stream_reasoning_stale:
  "map m_reasoning (handleStreamComplete (fold (handleStreamUpdate UContent)
       [''<think> </th'', ''ink>Hello''] [createLoadingAssistantMessage ''a'' ''b''])) =
     [Some \<lparr>r_content = ''</th'', r_duration = Fin 0\<rparr>] \<and>
   map m_reasoning (handleStreamComplete (handleStreamUpdate UContent ''<think> </think>Hello''
       [createLoadingAssistantMessage ''a'' ''b''])) = [None]"
  by code_simp

end
