(* ===== verification/ChannelModels.thy ===== *)
theory ChannelModels
  imports JsJson JsRegex "HOL-Library.Char_ord" "HOL-Library.List_Lexorder"
begin

text \<open>
  Model lists and mappings of a channel (\<open>features/channels\<close>): \<open>lib/model-mapping-validation.ts\<close>,
  \<open>lib/status-code-risk-guard.ts\<close>, \<open>lib/upstream-update-utils.ts\<close> and the submit handler of
  \<open>components/drawers/channel-mutate-drawer.tsx\<close> that puts them in sequence.

  A JavaScript set is a list without repetitions in insertion order. The answers of the user to the two
  confirmation dialogs are arguments of the submit handler. The arrow of an invalid entry is outside the
  alphabet, so such an entry is the pair of its key and its printed value.
\<close>

section \<open>Model lists\<close>

definition parseModelsString :: "string \<Rightarrow> string list" where
  "parseModelsString modelsStr =
     (if modelsStr \<noteq> [] then filter_boolean (map trim (split_char CHR '','' modelsStr)) else [])"

definition formatModelsArray :: "string list \<Rightarrow> string" where
  "formatModelsArray models = join '','' (uniq models)"

definition normalizeModelName :: "string \<Rightarrow> string" where
  "normalizeModelName model = trim model"

text \<open>The guard after \<open>JSON.parse\<close>: only an object that is neither null nor an array goes on.\<close>

definition mapping_object :: "string \<Rightarrow> (string \<times> jsval) list option" where
  "mapping_object s = (case json_parse s of Some (JObj kvs) \<Rightarrow> Some kvs | _ \<Rightarrow> None)"

definition extractMappingSourceModels :: "string \<Rightarrow> string list" where
  "extractMappingSourceModels modelMapping =
     (let trimmed = trim modelMapping in
      if trimmed = [] then []
      else case mapping_object trimmed of
             None \<Rightarrow> []
           | Some kvs \<Rightarrow> uniq (filter_boolean (map trim (obj_keys kvs))))"

definition trimmed_string :: "jsval \<Rightarrow> string option" where
  "trimmed_string v = (case v of JStr s \<Rightarrow> if trim s = [] then None else Some (trim s) | _ \<Rightarrow> None)"

definition extractRedirectModels :: "string \<Rightarrow> string list" where
  "extractRedirectModels modelMapping =
     (let trimmed = trim modelMapping in
      if trimmed = [] then []
      else case mapping_object trimmed of
             None \<Rightarrow> []
           | Some kvs \<Rightarrow> uniq (List.map_filter trimmed_string (obj_values kvs)))"

definition hasModelConfigChanged :: "string list \<Rightarrow> string \<Rightarrow> string list \<Rightarrow> string \<Rightarrow> bool" where
  "hasModelConfigChanged currentModels currentModelMapping initialModels initialModelMapping =
     (if initialModels = [] \<and> initialModelMapping = [] then True
      else if length currentModels \<noteq> length initialModels then True
      else if list_ex (\<lambda>i. currentModels ! i \<noteq> initialModels ! i) [0..<length currentModels] then True
      else trim currentModelMapping \<noteq> trim initialModelMapping)"

definition findMissingModelsInMapping :: "string \<Rightarrow> string list \<Rightarrow> string list" where
  "findMissingModelsInMapping modelMapping currentModels =
     (if modelMapping = [] \<or> trim modelMapping = [] then []
      else case mapping_object modelMapping of
             None \<Rightarrow> []
           | Some kvs \<Rightarrow>
               let modelSet = uniq (map normalizeModelName currentModels)
               in uniq (filter (\<lambda>key. key \<noteq> [] \<and> key \<notin> set modelSet) (map normalizeModelName (obj_keys kvs))))"

definition is_JStr :: "jsval \<Rightarrow> bool" where
  "is_JStr v = (case v of JStr _ \<Rightarrow> True | _ \<Rightarrow> False)"

text \<open>\<open>Inr ()\<close> is \<open>{ valid: true }\<close>, \<open>Inl e\<close> is \<open>{ valid: false, error: e }\<close>.\<close>

definition validateModelMappingJson :: "string \<Rightarrow> string + unit" where
  "validateModelMappingJson modelMapping =
     (if modelMapping = [] \<or> trim modelMapping = [] then Inr ()
      else case json_parse modelMapping of
             None \<Rightarrow> Inl ''Model mapping must be valid JSON format''
           | Some (JObj kvs) \<Rightarrow>
               if list_ex (\<lambda>v. \<not> is_JStr v) (obj_values kvs) then Inl ''Model mapping values must be strings''
               else Inr ()
           | Some _ \<Rightarrow> Inl ''Model mapping must be a valid JSON object'')"

record ModelCategories =
  normalizedCurrentModels :: "string list"
  normalizedRedirectModels :: "string list"
  classificationSet :: "string list"
  redirectOnlySet :: "string list"

definition categorizeModelsWithRedirect :: "string list \<Rightarrow> string list \<Rightarrow> ModelCategories" where
  "categorizeModelsWithRedirect currentModels redirectModels =
     (let cur = uniq (filter_boolean (map normalizeModelName currentModels));
          redirect = uniq (filter_boolean (map normalizeModelName redirectModels))
      in \<lparr>normalizedCurrentModels = cur, normalizedRedirectModels = redirect,
          classificationSet = uniq (cur @ redirect),
          redirectOnlySet = uniq (filter (\<lambda>m. m \<notin> set cur) redirect)\<rparr>)"

section \<open>Status code mappings\<close>

definition NON_REDIRECTABLE_STATUS_CODES :: "int list" where
  "NON_REDIRECTABLE_STATUS_CODES = [504, 524]"

definition status_code_rx :: rx where
  "status_code_rx = seqs [Bol, Cls (\<lambda>c. c \<in> set ''12345''), Cls is_digit, Cls is_digit, Eol]"

definition parseStatusCodeKey :: "string \<Rightarrow> int option" where
  "parseStatusCodeKey rawKey =
     (let normalized = trim rawKey
      in if \<not> rx_test status_code_rx normalized then None else Some (int_of_digits normalized))"

definition parseStatusCodeMappingTarget :: "jsval \<Rightarrow> int option" where
  "parseStatusCodeMappingTarget rawValue =
     (case rawValue of
        JNum (Fin x) \<Rightarrow>
          if of_int \<lfloor>x\<rfloor> = x then (if 100 \<le> x \<and> x \<le> 599 then Some \<lfloor>x\<rfloor> else None) else None
      | JStr s \<Rightarrow>
          let normalized = trim s in
          if \<not> rx_test status_code_rx normalized then None
          else let code = int_of_digits normalized
               in if 100 \<le> code \<and> code \<le> 599 then Some code else None
      | _ \<Rightarrow> None)"

definition collectInvalidStatusCodeEntries :: "string \<Rightarrow> (string \<times> string) list" where
  "collectInvalidStatusCodeEntries statusCodeMappingStr =
     (if trim statusCodeMappingStr = [] then []
      else case mapping_object statusCodeMappingStr of
             None \<Rightarrow> []
           | Some kvs \<Rightarrow>
               [(rawKey, js_to_string rawValue). (rawKey, rawValue) \<leftarrow> obj_entries kvs,
                  parseStatusCodeKey rawKey = None \<or> parseStatusCodeMappingTarget rawValue = None])"

definition risky_mapping :: "string \<times> jsval \<Rightarrow> string option" where
  "risky_mapping e =
     (case (parseStatusCodeKey (fst e), parseStatusCodeMappingTarget (snd e)) of
        (Some fromCode, Some toCode) \<Rightarrow>
          if fromCode \<notin> set NON_REDIRECTABLE_STATUS_CODES then None
          else if fromCode = toCode then None
          else Some (string_of_int fromCode @ '' -> '' @ string_of_int toCode)
      | _ \<Rightarrow> None)"

definition collectDisallowedStatusCodeRedirects :: "string \<Rightarrow> string list" where
  "collectDisallowedStatusCodeRedirects statusCodeMappingStr =
     (if trim statusCodeMappingStr = [] then []
      else case mapping_object statusCodeMappingStr of
             None \<Rightarrow> []
           | Some kvs \<Rightarrow> sort (uniq (List.map_filter risky_mapping (obj_entries kvs))))"

definition collectNewDisallowedStatusCodeRedirects :: "string \<Rightarrow> string \<Rightarrow> string list" where
  "collectNewDisallowedStatusCodeRedirects originalStr currentStr =
     (let currentRisky = collectDisallowedStatusCodeRedirects currentStr in
      if currentRisky = [] then []
      else filter (\<lambda>m. m \<notin> set (collectDisallowedStatusCodeRedirects originalStr)) currentRisky)"

section \<open>Detected upstream changes\<close>

text \<open>\<open>(models || []).map\<close> throws for a value that has no such method.\<close>

datatype upstream_error = TypeError

definition model_text :: "jsval \<Rightarrow> string" where
  "model_text model = trim (if truthy model then js_to_string model else [])"

definition normalizeModelList :: "jsval \<Rightarrow> upstream_error + string list" where
  "normalizeModelList models =
     (if \<not> truthy models then Inr []
      else case models of
             JArr ms \<Rightarrow> Inr (uniq (filter_boolean (map model_text ms)))
           | _ \<Rightarrow> Inl TypeError)"

record UpstreamUpdateMeta =
  um_enabled :: bool
  pendingAddModels :: "string list"
  pendingRemoveModels :: "string list"

definition settings_object :: "jsval \<Rightarrow> jsval" where
  "settings_object settings =
     (case settings of
        JObj _ \<Rightarrow> settings
      | JStr s \<Rightarrow> (case json_parse s of None \<Rightarrow> JNull | Some v \<Rightarrow> v)
      | _ \<Rightarrow> JNull)"

definition own_prop :: "string \<Rightarrow> (string \<times> jsval) list \<Rightarrow> jsval" where
  "own_prop k kvs = (case map_of kvs k of None \<Rightarrow> JUndefined | Some v \<Rightarrow> v)"

definition parseUpstreamUpdateMeta :: "jsval \<Rightarrow> upstream_error + UpstreamUpdateMeta" where
  "parseUpstreamUpdateMeta settings =
     (let meta = (\<lambda>kvs.
        sbind (normalizeModelList (own_prop ''upstream_model_update_last_detected_models'' kvs)) (\<lambda>add.
        sbind (normalizeModelList (own_prop ''upstream_model_update_last_removed_models'' kvs)) (\<lambda>rem.
        Inr \<lparr>um_enabled = own_prop ''upstream_model_update_check_enabled'' kvs = JBool True,
             pendingAddModels = add, pendingRemoveModels = rem\<rparr>)))
      in case settings_object settings of
           JObj kvs \<Rightarrow> meta kvs
         | JArr _ \<Rightarrow> meta []
         | _ \<Rightarrow> Inr \<lparr>um_enabled = False, pendingAddModels = [], pendingRemoveModels = []\<rparr>)"

section \<open>Submitting the channel form\<close>

record ChannelForm =
  cf_key :: "string option"
  cf_models :: "string option"
  cf_model_mapping :: "string option"
  cf_status_code_mapping :: "string option"

text \<open>What the form was opened with.\<close>

record InitialChannel =
  isEditing :: bool
  initialModels :: "string list"
  initialModelMapping :: string
  initialStatusCodeMapping :: string

datatype confirm_action = Cancel | Submit | Add

datatype submit_outcome =
    KeyRequired
  | InvalidEntries "(string \<times> string) list"
  | RiskDeclined "string list"
  | InvalidMapping string
  | MissingCancelled "string list"
  | Mutate ChannelForm

definition or_empty :: "string option \<Rightarrow> string" where
  "or_empty s = (case s of None \<Rightarrow> [] | Some t \<Rightarrow> t)"

definition status_code_check ::
  "(string list \<Rightarrow> bool) \<Rightarrow> InitialChannel \<Rightarrow> ChannelForm \<Rightarrow> submit_outcome option" where
  "status_code_check confirmStatusCodeRisk initial data =
     (let mapping = or_empty (cf_status_code_mapping data) in
      if trim mapping = [] then None
      else if collectInvalidStatusCodeEntries mapping \<noteq> [] then
        Some (InvalidEntries (collectInvalidStatusCodeEntries mapping))
      else
        let risky = collectNewDisallowedStatusCodeRedirects (initialStatusCodeMapping initial) mapping
        in if risky \<noteq> [] \<and> \<not> confirmStatusCodeRisk risky then Some (RiskDeclined risky) else None)"

definition model_mapping_check ::
  "(string list \<Rightarrow> confirm_action) \<Rightarrow> InitialChannel \<Rightarrow> ChannelForm \<Rightarrow> submit_outcome" where
  "model_mapping_check confirmMissing initial data =
     (let mapping = or_empty (cf_model_mapping data);
          normalizedModels = parseModelsString (or_empty (cf_models data))
      in if trim mapping = [] then Mutate data
         else case validateModelMappingJson mapping of
                Inl e \<Rightarrow> InvalidMapping e
              | Inr _ \<Rightarrow>
                  let missing = findMissingModelsInMapping mapping normalizedModels in
                  if missing \<noteq> [] \<and>
                     hasModelConfigChanged normalizedModels mapping (initialModels initial) (initialModelMapping initial)
                  then (case confirmMissing missing of
                          Cancel \<Rightarrow> MissingCancelled missing
                        | Submit \<Rightarrow> Mutate data
                        | Add \<Rightarrow> Mutate (data\<lparr>cf_models := Some (formatModelsArray (uniq (normalizedModels @ missing)))\<rparr>))
                  else Mutate data)"

definition onSubmit ::
  "(string list \<Rightarrow> bool) \<Rightarrow> (string list \<Rightarrow> confirm_action) \<Rightarrow> InitialChannel \<Rightarrow> ChannelForm \<Rightarrow> submit_outcome" where
  "onSubmit confirmStatusCodeRisk confirmMissing initial data =
     (if \<not> isEditing initial \<and> trim (or_empty (cf_key data)) = [] then KeyRequired
      else case status_code_check confirmStatusCodeRisk initial data of
             Some stop \<Rightarrow> stop
           | None \<Rightarrow> model_mapping_check confirmMissing initial data)"

section \<open>Model lists\<close>

definition clean_model :: "string \<Rightarrow> bool" where
  "clean_model m \<longleftrightarrow> trim m = m \<and> m \<noteq> [] \<and> CHR '','' \<notin> set m"

lemma parseModelsString_clean: "m \<in> set (parseModelsString s) \<Longrightarrow> clean_model m"
  using set_trim by (auto simp: parseModelsString_def filter_boolean_def clean_model_def
    dest!: split_char_free split: if_splits)

lemma format_Nil_iff: "\<forall>m\<in>set ms. m \<noteq> [] \<Longrightarrow> formatModelsArray ms = [] \<longleftrightarrow> ms = []"
proof (cases ms)
  case (Cons m ms')
  moreover assume "\<forall>m\<in>set ms. m \<noteq> []"
  ultimately show ?thesis
    by (cases "filter (\<lambda>y. y \<noteq> m) (uniq ms')") (auto simp: formatModelsArray_def)
qed (simp add: formatModelsArray_def)

lemma map_trim_clean: "\<forall>m\<in>set ms. clean_model m \<Longrightarrow> map trim ms = ms"
  by (induction ms) (auto simp: clean_model_def)

lemma parse_format:
  assumes "\<forall>m\<in>set ms. clean_model m"
  shows "parseModelsString (formatModelsArray ms) = uniq ms"
proof (cases "ms = []")
  case True
  then show ?thesis by (simp add: parseModelsString_def formatModelsArray_def)
next
  case False
  have u: "\<forall>m\<in>set (uniq ms). clean_model m" using assms by simp
  have "uniq ms \<noteq> []" using False by (cases ms) auto
  then have "split_char CHR '','' (formatModelsArray ms) = uniq ms"
    using u by (simp add: formatModelsArray_def split_char_join clean_model_def)
  moreover have "formatModelsArray ms \<noteq> []"
    using False assms by (simp add: format_Nil_iff clean_model_def)
  moreover have "filter_boolean (uniq ms) = uniq ms"
    using u by (intro filter_boolean_id) (simp add: clean_model_def)
  ultimately show ?thesis by (simp only: parseModelsString_def map_trim_clean [OF u] if_True simp_thms)
qed

lemma format_uniq [simp]: "formatModelsArray (uniq ms) = formatModelsArray ms"
  by (simp add: formatModelsArray_def)

interpretation models_text: normaliser "\<lambda>s. formatModelsArray (parseModelsString s)"
  "\<lambda>s. s = formatModelsArray (parseModelsString s)" "\<lambda>_. True"
  by unfold_locales (auto simp: parse_format parseModelsString_clean)

text \<open>The text of a model list loses only blanks, empty entries and repetitions: reading the formatted
  list gives every model once, in the order of first occurrence, and formatting is idempotent.\<close>

theorem models_text_roundtrip:
  "parseModelsString (formatModelsArray (parseModelsString s)) = uniq (parseModelsString s) \<and>
   formatModelsArray (parseModelsString (formatModelsArray (parseModelsString s))) =
     formatModelsArray (parseModelsString s)"
  using parse_format [of "parseModelsString s"] models_text.norm_idem [of s]
  by (simp add: parseModelsString_clean)

section \<open>Mappings\<close>

lemma categorize_sets:
  "classificationSet (categorizeModelsWithRedirect cur red) =
     normalizedCurrentModels (categorizeModelsWithRedirect cur red) @
     redirectOnlySet (categorizeModelsWithRedirect cur red)"
  by (simp add: categorizeModelsWithRedirect_def Let_def uniq_append uniq_distinct)

lemma findMissing_set:
  assumes "mapping_object m = Some kvs" and "trim m \<noteq> []"
  shows "set (findMissingModelsInMapping m cur) = trim ` fst ` set kvs - {[]} - trim ` set cur"
  using assms by (auto simp: findMissingModelsInMapping_def normalizeModelName_def image_iff)

lemma findMissing_distinct: "distinct (findMissingModelsInMapping m cur)"
  by (simp add: findMissingModelsInMapping_def Let_def split: option.splits)

lemma findMissing_trimmed: "x \<in> set (findMissingModelsInMapping m cur) \<Longrightarrow> trim x = x \<and> x \<noteq> []"
  by (auto simp: findMissingModelsInMapping_def normalizeModelName_def split: if_splits option.splits)

lemma findMissing_closes:
  assumes "trim ` set cur \<union> set (findMissingModelsInMapping m cur) \<subseteq> trim ` set cur'"
  shows "findMissingModelsInMapping m cur' = []"
proof (cases "mapping_object m")
  case (Some kvs)
  show ?thesis
  proof (cases "trim m = []")
    case False
    then have "set (findMissingModelsInMapping m cur') = {}"
      using assms unfolding findMissing_set [OF Some False] by blast
    then show ?thesis by simp
  qed (simp add: findMissingModelsInMapping_def)
qed (simp add: findMissingModelsInMapping_def)

text \<open>The models reported as missing are, once each, exactly the trimmed non-empty keys of the mapping
  that are not in the trimmed model list; adding them leaves nothing missing.\<close>

theorem findMissingModels_correct:
  assumes "mapping_object m = Some kvs" and "trim m \<noteq> []"
  shows "set (findMissingModelsInMapping m cur) = trim ` fst ` set kvs - {[]} - trim ` set cur \<and>
    distinct (findMissingModelsInMapping m cur) \<and>
    findMissingModelsInMapping m (cur @ findMissingModelsInMapping m cur) = []"
proof -
  have "findMissingModelsInMapping m (cur @ findMissingModelsInMapping m cur) = []"
    by (rule findMissing_closes) (force dest: findMissing_trimmed simp: image_iff)
  then show ?thesis using findMissing_set [OF assms] findMissing_distinct by blast
qed

definition sample_mapping :: string where
  "sample_mapping = ''{'' @ json_quote ''gpt-4'' @ '':'' @ json_quote ''gpt-4o'' @ '','' @ json_quote '' o1'' @ '':'' @ json_quote ''o3'' @ ''}''"

theorem findMissingModels_correct_witness:
  "set (findMissingModelsInMapping sample_mapping [''gpt-4'']) = trim ` {''gpt-4'', '' o1''} - {[]} - trim ` {''gpt-4''}"
proof -
  have "mapping_object sample_mapping = Some [(''gpt-4'', JStr ''gpt-4o''), ('' o1'', JStr ''o3'')]"
    by code_simp
  moreover have "trim sample_mapping \<noteq> []" by code_simp
  ultimately show ?thesis using findMissingModels_correct [of sample_mapping _ "[''gpt-4'']"] by simp
qed

section \<open>Submitting\<close>

lemma or_empty_simps [simp]: "or_empty None = []" "or_empty (Some s) = s"
  by (simp_all add: or_empty_def)

lemma collectInvalid_blank: "trim s = [] \<Longrightarrow> collectInvalidStatusCodeEntries s = []"
  by (simp add: collectInvalidStatusCodeEntries_def)

lemma collectNew_blank: "trim s = [] \<Longrightarrow> collectNewDisallowedStatusCodeRedirects o' s = []"
  by (simp add: collectNewDisallowedStatusCodeRedirects_def collectDisallowedStatusCodeRedirects_def)

lemma validate_blank: "trim s = [] \<Longrightarrow> validateModelMappingJson s = Inr ()"
  by (simp add: validateModelMappingJson_def)

lemma status_code_check_pass:
  assumes "status_code_check risk initial data = None"
  shows "collectInvalidStatusCodeEntries (or_empty (cf_status_code_mapping data)) = [] \<and>
    (let r = collectNewDisallowedStatusCodeRedirects (initialStatusCodeMapping initial) (or_empty (cf_status_code_mapping data))
     in r = [] \<or> risk r)"
  using assms by (auto simp: status_code_check_def Let_def collectInvalid_blank collectNew_blank split: if_splits)

lemma onSubmit_pass:
  assumes "onSubmit risk ask initial data = Mutate data'"
  shows "status_code_check risk initial data = None \<and> model_mapping_check ask initial data = Mutate data' \<and>
    (isEditing initial \<or> trim (or_empty (cf_key data)) \<noteq> [])"
  using assms
  by (auto simp: onSubmit_def status_code_check_def Let_def split: if_splits option.splits)

lemma validateModelMappingJson_iff:
  "validateModelMappingJson s = Inr () \<longleftrightarrow>
     trim s = [] \<or> (\<exists>kvs. mapping_object s = Some kvs \<and> list_all is_JStr (map snd kvs))"
  by (auto simp: validateModelMappingJson_def mapping_object_def list_ex_iff list_all_iff
    split: option.splits jsval.splits)

lemma hasModelConfigChanged_iff:
  "hasModelConfigChanged cur mapping initial initialMapping \<longleftrightarrow>
     initial = [] \<and> initialMapping = [] \<or> cur \<noteq> initial \<or> trim mapping \<noteq> trim initialMapping"
proof (cases "length cur = length initial")
  case True
  then have "list_ex (\<lambda>i. cur ! i \<noteq> initial ! i) [0..<length cur] \<longleftrightarrow> cur \<noteq> initial"
    by (auto simp: list_ex_iff list_eq_iff_nth_eq [of cur initial])
  then show ?thesis using True by (auto simp: hasModelConfigChanged_def)
next
  case False
  then have "cur \<noteq> initial" by blast
  then show ?thesis using False by (simp add: hasModelConfigChanged_def)
qed

lemma status_code_check_iff:
  "status_code_check risk initial data = None \<longleftrightarrow>
     collectInvalidStatusCodeEntries (or_empty (cf_status_code_mapping data)) = [] \<and>
     (let r = collectNewDisallowedStatusCodeRedirects (initialStatusCodeMapping initial) (or_empty (cf_status_code_mapping data))
      in r = [] \<or> risk r)"
  by (auto simp: status_code_check_def Let_def collectInvalid_blank collectNew_blank)

lemma status_code_check_stops: "status_code_check risk initial data \<noteq> Some (Mutate data')"
  by (simp add: status_code_check_def Let_def)

lemma findMissing_blank: "trim m = [] \<Longrightarrow> findMissingModelsInMapping m cur = []"
  by (simp add: findMissingModelsInMapping_def)

lemma model_mapping_check_iff:
  "model_mapping_check ask initial data = Mutate data' \<longleftrightarrow>
     validateModelMappingJson (or_empty (cf_model_mapping data)) = Inr () \<and>
     (let mapping = or_empty (cf_model_mapping data);
          models = parseModelsString (or_empty (cf_models data));
          missing = findMissingModelsInMapping mapping models
      in if missing \<noteq> [] \<and> hasModelConfigChanged models mapping (initialModels initial) (initialModelMapping initial)
         then ask missing = Submit \<and> data' = data \<or>
              ask missing = Add \<and> data' = data\<lparr>cf_models := Some (formatModelsArray (uniq (models @ missing)))\<rparr>
         else data' = data)"
  by (auto simp: model_mapping_check_def Let_def validate_blank findMissing_blank
    split: sum.split confirm_action.split)

text \<open>C12: A channel form is sent exactly when the checks passed, and what is sent is exactly this: a new
  channel has a key, every status code entry is valid, every newly introduced redirect of a gateway timeout
  was confirmed, and the model mapping is blank or a JSON object of strings. When models of the mapping are
  missing from the model list, and the channel is new (opened with no models and no mapping) or its models or its
  mapping were changed, the user was asked: the form is sent as it is after \<open>Submit\<close>, with the missing models
  appended to the list after \<open>Add\<close>, and not at all after \<open>Cancel\<close>. Otherwise it is sent as it is.\<close>

theorem onSubmit_checked:
  "onSubmit risk ask initial data = Mutate data' \<longleftrightarrow>
    (isEditing initial \<or> trim (or_empty (cf_key data)) \<noteq> []) \<and>
    collectInvalidStatusCodeEntries (or_empty (cf_status_code_mapping data)) = [] \<and>
    (let r = collectNewDisallowedStatusCodeRedirects (initialStatusCodeMapping initial) (or_empty (cf_status_code_mapping data))
     in r = [] \<or> risk r) \<and>
    (trim (or_empty (cf_model_mapping data)) = [] \<or>
     (\<exists>kvs. mapping_object (or_empty (cf_model_mapping data)) = Some kvs \<and> list_all is_JStr (map snd kvs))) \<and>
    (let mapping = or_empty (cf_model_mapping data);
         models = parseModelsString (or_empty (cf_models data));
         missing = findMissingModelsInMapping mapping models
     in if missing \<noteq> [] \<and> (initialModels initial = [] \<and> initialModelMapping initial = [] \<or>
             models \<noteq> initialModels initial \<or> trim mapping \<noteq> trim (initialModelMapping initial))
        then ask missing = Submit \<and> data' = data \<or>
             ask missing = Add \<and> data' = data\<lparr>cf_models := Some (formatModelsArray (uniq (models @ missing)))\<rparr>
        else data' = data)"
proof -
  have "onSubmit risk ask initial data = Mutate data' \<longleftrightarrow>
      (isEditing initial \<or> trim (or_empty (cf_key data)) \<noteq> []) \<and>
      status_code_check risk initial data = None \<and> model_mapping_check ask initial data = Mutate data'"
    using status_code_check_stops [of risk initial data data']
    by (auto simp: onSubmit_def split: option.split)
  then show ?thesis
    unfolding status_code_check_iff model_mapping_check_iff validateModelMappingJson_iff hasModelConfigChanged_iff
    by (simp only: conj_assoc)
qed

definition sample_form :: ChannelForm where
  "sample_form = \<lparr>cf_key = Some ''sk'', cf_models = Some ''gpt-4'', cf_model_mapping = Some sample_mapping,
     cf_status_code_mapping = None\<rparr>"

definition new_channel :: InitialChannel where
  "new_channel = \<lparr>isEditing = False, initialModels = [], initialModelMapping = [], initialStatusCodeMapping = []\<rparr>"

lemma sample_submit:
  "onSubmit (\<lambda>_. False) (\<lambda>_. Add) new_channel sample_form = Mutate (sample_form\<lparr>cf_models := Some ''gpt-4,o1''\<rparr>)"
  by code_simp

theorem onSubmit_checked_witness:
  "(\<nexists>data'. onSubmit (\<lambda>_. False) (\<lambda>_. Cancel) new_channel sample_form = Mutate data') \<and>
   (\<exists>kvs. mapping_object (or_empty (cf_model_mapping sample_form)) = Some kvs \<and> list_all is_JStr (map snd kvs))"
proof -
  have m: "findMissingModelsInMapping (or_empty (cf_model_mapping sample_form))
      (parseModelsString (or_empty (cf_models sample_form))) = [''o1'']"
    "trim (or_empty (cf_model_mapping sample_form)) \<noteq> []" by code_simp+
  have "onSubmit (\<lambda>_. False) (\<lambda>_. Cancel) new_channel sample_form \<noteq> Mutate data'" for data'
    using onSubmit_checked [of "\<lambda>_. False" "\<lambda>_. Cancel" new_channel sample_form data']
    by (simp add: m(1) Let_def new_channel_def)
  moreover have "\<exists>kvs. mapping_object (or_empty (cf_model_mapping sample_form)) = Some kvs \<and> list_all is_JStr (map snd kvs)"
    using iffD1 [OF onSubmit_checked sample_submit] m(2) by blast
  ultimately show ?thesis by blast
qed

lemma missing_clean:
  assumes "mapping_object m = Some kvs" and "\<forall>k\<in>fst ` set kvs. CHR '','' \<notin> set k"
    and "x \<in> set (findMissingModelsInMapping m cur)"
  shows "clean_model x"
proof -
  have "trim m \<noteq> []" using assms(3) by (auto simp: findMissingModelsInMapping_def split: if_splits)
  then obtain k where "k \<in> fst ` set kvs" "x = trim k"
    using assms(3) unfolding findMissing_set [OF assms(1) \<open>trim m \<noteq> []\<close>] by blast
  then show ?thesis using assms(2) findMissing_trimmed [OF assms(3)] set_trim [of k] by (auto simp: clean_model_def)
qed

text \<open>When the models or the mapping were changed and the user answers that missing models are to be
  added, the model list that is sent contains every source model of the mapping and every model entered
  before, provided no key of the mapping contains a comma.\<close>

theorem onSubmit_add_closes:
  assumes "onSubmit risk (\<lambda>_. Add) initial data = Mutate data'"
    and "mapping_object (or_empty (cf_model_mapping data)) = Some kvs" and "\<forall>k\<in>fst ` set kvs. CHR '','' \<notin> set k"
    and "hasModelConfigChanged (parseModelsString (or_empty (cf_models data))) (or_empty (cf_model_mapping data))
           (initialModels initial) (initialModelMapping initial)"
  shows "findMissingModelsInMapping (or_empty (cf_model_mapping data')) (parseModelsString (or_empty (cf_models data'))) = [] \<and>
    set (parseModelsString (or_empty (cf_models data))) \<subseteq> set (parseModelsString (or_empty (cf_models data')))"
proof -
  let ?m = "or_empty (cf_model_mapping data)" and ?cur = "parseModelsString (or_empty (cf_models data))"
  let ?miss = "findMissingModelsInMapping ?m ?cur"
  have chk: "model_mapping_check (\<lambda>_. Add) initial data = Mutate data'" using onSubmit_pass [OF assms(1)] by blast
  show ?thesis
  proof (cases "?miss = []")
    case True
    then have "data' = data"
      using chk by (auto simp: model_mapping_check_def Let_def split: if_splits sum.splits)
    then show ?thesis using True by simp
  next
    case False
    then have "trim ?m \<noteq> []" by (auto simp: findMissingModelsInMapping_def split: if_splits)
    then have d: "data' = data\<lparr>cf_models := Some (formatModelsArray (?cur @ ?miss))\<rparr>"
      using False chk assms(4) by (auto simp: model_mapping_check_def Let_def split: sum.splits)
    have "\<forall>x\<in>set (?cur @ ?miss). clean_model x"
      using parseModelsString_clean missing_clean [OF assms(2,3)] by auto
    then have "set (parseModelsString (or_empty (cf_models data'))) = set (?cur @ ?miss)"
      using d parse_format by fastforce
    moreover have "findMissingModelsInMapping ?m (parseModelsString (or_empty (cf_models data'))) = []"
      by (rule findMissing_closes [where cur = ?cur])
        (use calculation in \<open>force dest: findMissing_trimmed simp: image_iff\<close>)
    ultimately show ?thesis using d by simp
  qed
qed

theorem onSubmit_add_closes_witness:
  "findMissingModelsInMapping sample_mapping (parseModelsString ''gpt-4,o1'') = []"
proof -
  have "mapping_object (or_empty (cf_model_mapping sample_form)) = Some [(''gpt-4'', JStr ''gpt-4o''), ('' o1'', JStr ''o3'')]"
    by code_simp
  moreover have "hasModelConfigChanged (parseModelsString (or_empty (cf_models sample_form)))
      (or_empty (cf_model_mapping sample_form)) (initialModels new_channel) (initialModelMapping new_channel)"
    by code_simp
  ultimately show ?thesis using onSubmit_add_closes [OF sample_submit] by (simp add: or_empty_def sample_form_def)
qed

section \<open>Status codes\<close>

lemma digit_char_val: "is_digit c \<Longrightarrow> digit_char (digit_val c) = c \<and> digit_val c < 10"
proof -
  have "list_all (\<lambda>c. digit_char (digit_val c) = c \<and> digit_val c < 10) ''0123456789''" by code_simp
  then show "is_digit c \<Longrightarrow> digit_char (digit_val c) = c \<and> digit_val c < 10"
    by (simp add: list_all_iff is_digit_def del: set_simps)
qed

lemma lead_digit: "c \<in> set ''12345'' \<Longrightarrow> is_digit c \<and> 1 \<le> digit_val c \<and> digit_val c \<le> 5"
  by (auto simp: is_digit_def digit_val_def)

lemma lead_digitI: "1 \<le> d \<Longrightarrow> d \<le> 5 \<Longrightarrow> digit_char d \<in> set ''12345''"
proof -
  have "list_all (\<lambda>d. digit_char d \<in> set ''12345'') [1..<6]" by code_simp
  then show "1 \<le> d \<Longrightarrow> d \<le> 5 \<Longrightarrow> digit_char d \<in> set ''12345''"
    by (simp add: list_all_iff del: set_simps)
qed

lemma status_code_rx_iff:
  "rx_test status_code_rx s \<longleftrightarrow> (\<exists>a b c. s = [a, b, c] \<and> a \<in> set ''12345'' \<and> is_digit b \<and> is_digit c)"
proof -
  have "rx_test status_code_rx s \<longleftrightarrow>
      rxm (seqs [Cls (\<lambda>c. c \<in> set ''12345''), Cls is_digit, Cls is_digit, Eol]) ([], s, Map.empty) \<noteq> []"
    unfolding status_code_rx_def seqs.simps by (rule rx_test_anchored)
  then show ?thesis
    by (cases s; cases "tl s"; cases "tl (tl s)"; cases "tl (tl (tl s))") auto
qed

lemma digits_of_three:
  "1 \<le> a \<Longrightarrow> a < 10 \<Longrightarrow> b < 10 \<Longrightarrow> c < 10 \<Longrightarrow>
     digits_of (int (100 * a + 10 * b + c)) = [digit_char a, digit_char b, digit_char c]"
proof -
  assume d: "1 \<le> a" "a < 10" "b < 10" "c < 10"
  have qr: "(10 * i + int r) div 10 = i \<and> (10 * i + int r) mod 10 = int r" if "r < 10" for i r
    using that by simp
  have q: "int (100 * a + 10 * b + c) div 10 = int (10 * a + b)" "int (100 * a + 10 * b + c) mod 10 = int c"
    "int (10 * a + b) div 10 = int a" "int (10 * a + b) mod 10 = int b"
    using qr [OF d(3), of "int a"] qr [OF d(4), of "int (10 * a + b)"] by (simp_all add: algebra_simps)
  have "digits_of (int a) = [digit_char a]" using d by (subst digits_of.simps) simp
  moreover have "digits_of (int (10 * a + b)) = digits_of (int a) @ [digit_char b]"
    using d q by (subst digits_of.simps) (simp del: of_nat_add of_nat_mult)
  moreover have "digits_of (int (100 * a + 10 * b + c)) = digits_of (int (10 * a + b)) @ [digit_char c]"
    using d q by (subst digits_of.simps) (simp del: of_nat_add of_nat_mult)
  ultimately show ?thesis by simp
qed

text \<open>The pattern accepts exactly the decimal texts of the codes 100 to 599.\<close>

lemma status_code_rx_code:
  "rx_test status_code_rx s \<longleftrightarrow> (\<exists>n. 100 \<le> n \<and> n \<le> 599 \<and> s = digits_of n)"
proof
  assume "rx_test status_code_rx s"
  then obtain a b c where s: "s = [a, b, c]" and a: "a \<in> set ''12345''" and b: "is_digit b" and c: "is_digit c"
    unfolding status_code_rx_iff by blast
  note A = lead_digit [OF a] and B = digit_char_val [OF b] and C = digit_char_val [OF c]
  have "s = digits_of (int (100 * digit_val a + 10 * digit_val b + digit_val c))"
    using A B C digit_char_val [of a] s by (simp add: digits_of_three del: of_nat_add of_nat_mult)
  moreover have "100 \<le> int (100 * digit_val a + 10 * digit_val b + digit_val c)"
    "int (100 * digit_val a + 10 * digit_val b + digit_val c) \<le> 599"
    using A B C by auto
  ultimately show "\<exists>n. 100 \<le> n \<and> n \<le> 599 \<and> s = digits_of n" by blast
next
  assume "\<exists>n. 100 \<le> n \<and> n \<le> 599 \<and> s = digits_of n"
  then obtain n where n: "100 \<le> n" "n \<le> 599" "s = digits_of n" by blast
  define m where "m = nat n"
  have m: "100 \<le> m" "m \<le> 599" "s = digits_of (int m)" using n by (auto simp: m_def)
  have e: "100 * (m div 100) + 10 * (m div 10 mod 10) + m mod 10 = m"
  proof -
    have "m div 100 = m div 10 div 10" using div_mult2_eq [of m 10 10] by simp
    then show ?thesis using div_mult_mod_eq [of m 10] div_mult_mod_eq [of "m div 10" 10] by linarith
  qed
  have d: "1 \<le> m div 100" "m div 100 \<le> 5" using m by auto
  have "s = [digit_char (m div 100), digit_char (m div 10 mod 10), digit_char (m mod 10)]"
    using digits_of_three [of "m div 100" "m div 10 mod 10" "m mod 10"] d unfolding m(3) e by simp
  then show "rx_test status_code_rx s"
    unfolding status_code_rx_iff using lead_digitI [OF d] by (intro exI conjI) auto
qed

lemma digits_of_inj: "digits_of n = digits_of m \<Longrightarrow> 100 \<le> n \<Longrightarrow> 100 \<le> m \<Longrightarrow> n = m"
  by (metis int_of_digits_of order_trans zero_le_numeral)

lemma parseStatusCodeKey_iff:
  "parseStatusCodeKey k = Some n \<longleftrightarrow> 100 \<le> n \<and> n \<le> 599 \<and> trim k = digits_of n"
  unfolding parseStatusCodeKey_def Let_def status_code_rx_code by (auto dest: digits_of_inj)

lemma parseStatusCodeMappingTarget_range:
  "parseStatusCodeMappingTarget v = Some n \<Longrightarrow> 100 \<le> n \<and> n \<le> 599"
  by (auto simp: parseStatusCodeMappingTarget_def Let_def le_floor_iff floor_le_iff
    split: jsval.splits jsnum.splits if_splits)

lemma status_code_length: "100 \<le> n \<Longrightarrow> n \<le> 599 \<Longrightarrow> length (string_of_int n) = 3"
  using digits_of_length [of 3 n] by (simp add: string_of_int_def)

lemma status_code_text_inj:
  assumes "100 \<le> n" "n \<le> 599" "100 \<le> m" "m \<le> 599" "100 \<le> i" "100 \<le> j"
    and "string_of_int n @ '' -> '' @ string_of_int i = string_of_int m @ '' -> '' @ string_of_int j"
  shows "n = m \<and> i = j"
proof -
  have "length (string_of_int n) = length (string_of_int m)"
    using assms(1-4) by (simp only: status_code_length)
  then have "string_of_int n = string_of_int m \<and> '' -> '' @ string_of_int i = '' -> '' @ string_of_int j"
    by (rule iffD1 [OF append_eq_append_conv [OF disjI1] assms(7)])
  then have "digits_of n = digits_of m" "digits_of i = digits_of j"
    using assms(1,3,5,6) by (simp_all add: string_of_int_def)
  then show ?thesis using assms(1,3,5,6) digits_of_inj by blast
qed

text \<open>A mapping redirects a gateway timeout when one of its entries maps 504 or 524 to another valid code.\<close>

definition redirects :: "string \<Rightarrow> int \<Rightarrow> int \<Rightarrow> bool" where
  "redirects m f t \<longleftrightarrow> trim m \<noteq> [] \<and> (f = 504 \<or> f = 524) \<and> f \<noteq> t \<and>
     (\<exists>kvs k v. mapping_object m = Some kvs \<and> (k, v) \<in> set kvs \<and> trim k = digits_of f \<and>
        parseStatusCodeMappingTarget v = Some t)"

lemma risky_mapping_iff:
  "risky_mapping (k, v) = Some x \<longleftrightarrow>
     (\<exists>f t. x = string_of_int f @ '' -> '' @ string_of_int t \<and> (f = 504 \<or> f = 524) \<and> f \<noteq> t \<and>
        trim k = digits_of f \<and> parseStatusCodeMappingTarget v = Some t)"
proof -
  have "risky_mapping (k, v) = Some x \<longleftrightarrow>
      (\<exists>f t. parseStatusCodeKey k = Some f \<and> parseStatusCodeMappingTarget v = Some t \<and>
         (f = 504 \<or> f = 524) \<and> f \<noteq> t \<and> x = string_of_int f @ '' -> '' @ string_of_int t)"
    by (auto simp: risky_mapping_def NON_REDIRECTABLE_STATUS_CODES_def split: option.splits)
  moreover have "\<dots> \<longleftrightarrow> (\<exists>f t. x = string_of_int f @ '' -> '' @ string_of_int t \<and> (f = 504 \<or> f = 524) \<and> f \<noteq> t \<and>
        trim k = digits_of f \<and> parseStatusCodeMappingTarget v = Some t)"
    unfolding parseStatusCodeKey_iff by (rule iff_exI, rule iff_exI) linarith
  ultimately show ?thesis by simp
qed

lemma set_collectDisallowed:
  "x \<in> set (collectDisallowedStatusCodeRedirects m) \<longleftrightarrow>
     (\<exists>f t. redirects m f t \<and> x = string_of_int f @ '' -> '' @ string_of_int t)"
proof (cases "mapping_object m")
  case None
  then show ?thesis by (simp add: collectDisallowedStatusCodeRedirects_def redirects_def)
next
  case (Some kvs)
  then have "x \<in> set (collectDisallowedStatusCodeRedirects m) \<longleftrightarrow>
      trim m \<noteq> [] \<and> (\<exists>k v. (k, v) \<in> set kvs \<and> risky_mapping (k, v) = Some x)"
    by (auto simp: collectDisallowedStatusCodeRedirects_def set_map_filter_iff)
  then show ?thesis unfolding risky_mapping_iff redirects_def Some by auto
qed

lemma collectDisallowed_sorted:
  "sorted (collectDisallowedStatusCodeRedirects m) \<and> distinct (collectDisallowedStatusCodeRedirects m)"
  by (simp add: collectDisallowedStatusCodeRedirects_def split: option.split)

text \<open>The redirects a user has to confirm are, sorted and once each, exactly those of a 504 or 524 to
  another valid code that the edited mapping has and the saved one has not; saving without a change asks
  for none.\<close>

theorem collectNewDisallowed_correct:
  "set (collectNewDisallowedStatusCodeRedirects original current) =
     {string_of_int f @ '' -> '' @ string_of_int t | f t. redirects current f t \<and> \<not> redirects original f t} \<and>
   sorted (collectNewDisallowedStatusCodeRedirects original current) \<and>
   distinct (collectNewDisallowedStatusCodeRedirects original current) \<and>
   collectNewDisallowedStatusCodeRedirects original original = []"
proof -
  let ?new = "collectNewDisallowedStatusCodeRedirects original current"
  have new: "collectNewDisallowedStatusCodeRedirects o' c =
      filter (\<lambda>m. m \<notin> set (collectDisallowedStatusCodeRedirects o')) (collectDisallowedStatusCodeRedirects c)" for o' c
    by (simp add: collectNewDisallowedStatusCodeRedirects_def Let_def)
  have code: "100 \<le> f \<and> f \<le> 599 \<and> 100 \<le> t" if "redirects m f t" for m f t
    using that by (auto simp: redirects_def dest: parseStatusCodeMappingTarget_range)
  have "set ?new = {string_of_int f @ '' -> '' @ string_of_int t | f t. redirects current f t \<and> \<not> redirects original f t}"
    (is "_ = ?R")
  proof
    show "set ?new \<subseteq> ?R" unfolding new by (auto simp: set_collectDisallowed)
    show "?R \<subseteq> set ?new"
    proof
      fix x assume "x \<in> ?R"
      then obtain f t where x: "x = string_of_int f @ '' -> '' @ string_of_int t"
        and c: "redirects current f t" and o: "\<not> redirects original f t" by blast
      have "x \<notin> set (collectDisallowedStatusCodeRedirects original)"
      proof
        assume "x \<in> set (collectDisallowedStatusCodeRedirects original)"
        then obtain f' t' where x': "x = string_of_int f' @ '' -> '' @ string_of_int t'" and r: "redirects original f' t'"
          unfolding set_collectDisallowed by blast
        have "f = f' \<and> t = t'" using code [OF c] code [OF r] x x' by (intro status_code_text_inj) simp_all
        then show False using o r by simp
      qed
      then show "x \<in> set ?new" using c x unfolding new by (auto simp: set_collectDisallowed)
    qed
  qed
  moreover have "sorted ?new \<and> distinct ?new"
    unfolding new using collectDisallowed_sorted by (simp add: sorted_wrt_filter)
  moreover have "collectNewDisallowedStatusCodeRedirects original original = []"
    unfolding new by simp
  ultimately show ?thesis by blast
qed

section \<open>Upstream changes\<close>

lemma normalizeModelList_cases:
  "normalizeModelList v = (if truthy v \<and> (\<forall>ms. v \<noteq> JArr ms) then Inl TypeError
     else Inr (case v of JArr ms \<Rightarrow> uniq (filter_boolean (map model_text ms)) | _ \<Rightarrow> []))"
  by (cases v) (auto simp: normalizeModelList_def truthy_def)

lemma normalizeModelList_nf:
  "normalizeModelList v = Inr ms \<Longrightarrow> distinct ms \<and> (\<forall>m\<in>set ms. trim m = m \<and> m \<noteq> [])"
  by (auto simp: normalizeModelList_def model_text_def filter_boolean_def split: if_splits jsval.splits)

text \<open>The two lists the settings may hold.\<close>

definition malformed_list :: "string \<Rightarrow> (string \<times> jsval) list \<Rightarrow> bool" where
  "malformed_list k kvs \<longleftrightarrow> truthy (own_prop k kvs) \<and> (case own_prop k kvs of JArr _ \<Rightarrow> False | _ \<Rightarrow> True)"

lemma normalizeModelList_fails: "normalizeModelList (own_prop k kvs) = Inl e \<longleftrightarrow> malformed_list k kvs"
  by (cases e; cases "own_prop k kvs") (auto simp: normalizeModelList_def malformed_list_def)

text \<open>Reading the upstream metadata of a channel fails exactly when the settings are an object in which
  one of the two model lists is present, truthy and not an array: malformed JSON text is tolerated, a
  malformed list is not. The lists it returns are trimmed, non-empty and without repetitions.\<close>

theorem parseUpstreamUpdateMeta_total:
  "(parseUpstreamUpdateMeta settings = Inl TypeError \<longleftrightarrow>
     (\<exists>kvs. settings_object settings = JObj kvs \<and>
        (malformed_list ''upstream_model_update_last_detected_models'' kvs \<or>
         malformed_list ''upstream_model_update_last_removed_models'' kvs))) \<and>
   (case parseUpstreamUpdateMeta settings of
      Inl _ \<Rightarrow> True
    | Inr meta \<Rightarrow> distinct (pendingAddModels meta) \<and> distinct (pendingRemoveModels meta) \<and>
        list_all (\<lambda>m. trim m = m \<and> m \<noteq> []) (pendingAddModels meta @ pendingRemoveModels meta))"
proof -
  have empty: "normalizeModelList (own_prop k []) = Inr []" for k
    by (simp add: own_prop_def normalizeModelList_def truthy_def)
  have fails: "sbind a (\<lambda>x. sbind b (\<lambda>y. Inr (f x y))) = Inl TypeError \<longleftrightarrow> a = Inl TypeError \<or> b = Inl TypeError"
    for a b and f :: "string list \<Rightarrow> string list \<Rightarrow> UpstreamUpdateMeta"
    by (cases a; cases b) (auto intro: upstream_error.exhaust)
  have "parseUpstreamUpdateMeta settings = Inl TypeError \<longleftrightarrow>
     (\<exists>kvs. settings_object settings = JObj kvs \<and>
        (malformed_list ''upstream_model_update_last_detected_models'' kvs \<or>
         malformed_list ''upstream_model_update_last_removed_models'' kvs))"
    by (cases "settings_object settings")
      (simp_all add: parseUpstreamUpdateMeta_def Let_def fails normalizeModelList_fails empty)
  moreover have "case parseUpstreamUpdateMeta settings of
      Inl _ \<Rightarrow> True
    | Inr meta \<Rightarrow> distinct (pendingAddModels meta) \<and> distinct (pendingRemoveModels meta) \<and>
        list_all (\<lambda>m. trim m = m \<and> m \<noteq> []) (pendingAddModels meta @ pendingRemoveModels meta)"
    by (auto simp: parseUpstreamUpdateMeta_def Let_def sbind_Inr_iff empty list_all_iff
      split: sum.splits jsval.splits dest!: normalizeModelList_nf)
  ultimately show ?thesis by blast
qed

end
