(* ===== verification/JsFormat.thy ===== *)
theory JsFormat
  imports JsJson
begin

text \<open>
  Formatting numbers: \<open>Number.prototype.toFixed\<close>, \<open>parseFloat\<close> and \<open>Number(v)\<close>, with the accuracy of
  rounding to binary64 that bounds on displayed values rest on: the rounded value is at least as close
  as any other binary64 value.
\<close>

section \<open>\<open>toFixed\<close> and \<open>parseFloat\<close>\<close>

definition pad_zeros :: "nat \<Rightarrow> string \<Rightarrow> string" where
  "pad_zeros n s = replicate (n - length s) CHR ''0'' @ s"

text \<open>The decimal text of \<open>n / 10 ^ d\<close> for a natural number \<open>n\<close>.\<close>

definition fixed_text :: "nat \<Rightarrow> int \<Rightarrow> string" where
  "fixed_text d n =
     (if d = 0 then digits_of n
      else digits_of (n div 10 ^ d) @ ''.'' @ pad_zeros d (digits_of (n mod 10 ^ d)))"

fun to_fixed :: "nat \<Rightarrow> jsnum \<Rightarrow> string" where
  "to_fixed d (Fin x) =
     (if \<bar>x\<bar> \<ge> 10 ^ 21 then js_String (Fin x)
      else (if x < 0 then ''-'' else []) @ fixed_text d \<lfloor>\<bar>x\<bar> * 10 ^ d + 1 / 2\<rfloor>)"
| "to_fixed d x = js_String x"

text \<open>\<open>parseFloat\<close> reads the longest prefix that is a decimal literal.\<close>

definition decimal_literal :: "string \<Rightarrow> jsnum option" where
  "decimal_literal s =
     (let neg = starts_with ''-'' s;
          u = (if neg \<or> starts_with ''+'' s then tl s else s)
      in if u = ''Infinity'' then Some (signed_infinity neg)
         else map_option (\<lambda>x. fround (if neg then - x else x)) (parse_unsigned_decimal u))"

definition parse_float :: "string \<Rightarrow> jsnum" where
  "parse_float s =
     (let t = trim_left s
      in case List.map_filter (\<lambda>n. decimal_literal (take n t)) (rev [0..<length t + 1]) of
           [] \<Rightarrow> NaN
         | x # _ \<Rightarrow> x)"

text \<open>\<open>Number(v)\<close>: an array or object is converted through its string.\<close>

fun js_Number :: "jsval \<Rightarrow> jsnum" where
  "js_Number JUndefined = NaN"
| "js_Number JNull = Fin 0"
| "js_Number (JBool b) = (if b then Fin 1 else Fin 0)"
| "js_Number (JNum n) = n"
| "js_Number (JStr s) = string_to_number s"
| "js_Number v = string_to_number (js_to_string v)"

section \<open>Rounding is to the nearest value\<close>

lemma div_half_even_nearest:
  assumes "d > 0"
  shows "\<bar>of_int (div_half_even n d) - (of_int n / of_int d :: rat)\<bar> \<le> \<bar>of_int z - of_int n / of_int d\<bar>"
proof -
  define f where "f = n div d"
  define r where "r = (of_int (n mod d) / of_int d :: rat)"
  have "n = f * d + n mod d" by (simp add: f_def)
  then have "(of_int n :: rat) = of_int f * of_int d + of_int (n mod d)"
    by (metis of_int_add of_int_mult)
  then have x: "of_int n / of_int d = of_int f + r"
    using assms by (simp add: r_def field_simps)
  have r: "0 \<le> r" "r < 1" using assms pos_mod_bound [OF assms, of n] by (auto simp: r_def)
  have m: "div_half_even n d = f \<and> r \<le> 1 / 2 \<or> div_half_even n d = f + 1 \<and> 1 / 2 \<le> r"
  proof -
    have "r \<le> 1 / 2 \<longleftrightarrow> 2 * (n mod d) \<le> d" "1 / 2 \<le> r \<longleftrightarrow> d \<le> 2 * (n mod d)"
      using assms of_int_le_iff [of "2 * (n mod d)" d, where 'a = rat]
        of_int_le_iff [of d "2 * (n mod d)", where 'a = rat]
      by (auto simp: r_def field_simps)
    then show ?thesis by (auto simp: div_half_even_def Let_def f_def)
  qed
  consider "z \<le> f" | "f + 1 \<le> z" by linarith
  then show ?thesis
  proof cases
    case 1
    then have "(of_int z :: rat) \<le> of_int f" by simp
    then show ?thesis using m r unfolding x by auto
  next
    case 2
    then have "(of_int f + 1 :: rat) \<le> of_int z" by (metis of_int_1 of_int_add of_int_le_iff)
    then show ?thesis using m r unfolding x by auto
  qed
qed

lemma fround_pos_nearest:
  assumes pq: "p > 0" "q > 0" and r: "fround_pos p q = Some r" and y: "binary64 y"
  shows "\<bar>r - of_int p / of_int q\<bar> \<le> \<bar>y - of_int p / of_int q\<bar>"
proof -
  let ?x = "of_int p / of_int q :: rat"
  define K where "K = ulp_exponent p q"
  define M where "M = div_half_even (p * 2 ^ nat (- K)) (q * 2 ^ nat K)"
  have rM: "r = of_int M * 2 powi K"
    using r by (auto simp: fround_pos_def Let_def Fract_powi K_def M_def split: if_splits)
  have near: "\<bar>r - ?x\<bar> \<le> \<bar>of_int z * 2 powi K - ?x\<bar>" for z
  proof -
    have "\<bar>of_int M - ?x / 2 powi K\<bar> \<le> \<bar>of_int z - ?x / 2 powi K\<bar>"
      using div_half_even_nearest [of "q * 2 ^ nat K" "p * 2 ^ nat (- K)" z] pq(2)
      unfolding M_def scale_powi [OF pq(2)] by simp
    then have "\<bar>of_int M - ?x / 2 powi K\<bar> * 2 powi K \<le> \<bar>of_int z - ?x / 2 powi K\<bar> * 2 powi K"
      by (intro mult_right_mono) auto
    moreover have "\<bar>a - ?x / 2 powi K\<bar> * 2 powi K = \<bar>a * 2 powi K - ?x\<bar>" for a
    proof -
      have "\<bar>a - ?x / 2 powi K\<bar> * 2 powi K = \<bar>(a - ?x / 2 powi K) * 2 powi K\<bar>" by (simp add: abs_mult)
      then show ?thesis by (simp add: left_diff_distrib)
    qed
    ultimately show ?thesis by (simp only: rM)
  qed
  obtain m k where mk: "y = of_int m * 2 powi k" "\<bar>m\<bar> < 2 ^ 53" "-1074 \<le> k"
    using y by (auto simp: binary64_def)
  show ?thesis
  proof (cases "K \<le> k")
    case True
    then have "(2::rat) powi (k - K) = 2 ^ nat (k - K)" by (simp add: power_int_def)
    moreover have "(2::rat) powi ((k - K) + K) = 2 powi (k - K) * 2 powi K" by (rule power_int_add) simp
    ultimately have "(2::rat) powi k = 2 ^ nat (k - K) * 2 powi K" by simp
    then have "y = of_int (m * 2 ^ nat (k - K)) * 2 powi K" by (simp add: mk)
    then show ?thesis using near by metis
  next
    case False
    then have K: "K = ilog2 p q - 52" using mk(3) by (auto simp: K_def ulp_exponent_def)
    have big: "2 powi (K + 52) \<le> ?x" using ilog2_bounds(1) [OF pq] by (simp add: K)
    have "\<bar>y\<bar> < 2 ^ 53 * 2 powi k"
      using mk(2) of_int_less_iff [of "\<bar>m\<bar>" "2 ^ 53", where 'a = rat] by (simp add: mk(1) abs_mult)
    also have "\<dots> = 2 powi (k + 53)" by (simp add: power_int_add)
    also have "\<dots> \<le> 2 powi (K + 52)" using False by (intro power_int_increasing) auto
    finally have "y < 2 powi (K + 52)" by simp
    moreover have "of_int (2 ^ 52) * 2 powi K = (2 powi (K + 52) :: rat)" by (simp add: power_int_add)
    ultimately show ?thesis using near [of "2 ^ 52"] big by simp
  qed
qed

lemma fround_nearest:
  assumes "fround x = Fin r" and "binary64 y"
  shows "\<bar>r - x\<bar> \<le> \<bar>y - x\<bar>"
proof -
  obtain p q where pq: "quotient_of x = (p, q)" by (cases "quotient_of x")
  then have q: "q > 0" and x: "x = of_int p / of_int q"
    using quotient_of_denom_pos quotient_of_div by auto
  consider "p = 0" | "p > 0" | "p < 0" by linarith
  then show ?thesis
  proof cases
    case 1
    then show ?thesis using assms(1) pq x by (simp add: fround_def)
  next
    case 2
    then show ?thesis using assms fround_pos_nearest [OF 2 q, of r y] pq
      by (auto simp: fround_def x split: option.splits)
  next
    case 3
    then obtain s where "fround_pos (- p) q = Some s" "r = - s"
      using assms(1) pq by (auto simp: fround_def split: option.splits)
    then show ?thesis
      using fround_pos_nearest [of "- p" q s "- y"] 3 q assms(2) by (simp add: x abs_minus_commute)
  qed
qed

lemma powi2_less: "(2::rat) powi a < 2 powi b \<Longrightarrow> a < b"
  using power_int_increasing [of b a "2::rat"] by (meson leI not_less one_le_numeral)

lemma fround_finite:
  assumes "\<bar>x\<bar> < 2 powi 1000"
  shows "\<exists>r. fround x = Fin r"
proof -
  obtain p q where pq: "quotient_of x = (p, q)" by (cases "quotient_of x")
  then have q: "q > 0" and x: "x = of_int p / of_int q"
    using quotient_of_denom_pos quotient_of_div by auto
  have pos: "fround_pos a q \<noteq> None" if a: "a > 0" "of_int a / of_int q < (2 powi 1000 :: rat)" for a
  proof -
    have "(2::rat) powi (ilog2 a q) < 2 powi 1000" using ilog2_bounds(1) [OF a(1) q] a(2) by (rule le_less_trans)
    then have "ilog2 a q < 1000" by (rule powi2_less)
    then have "ulp_exponent a q < 971" by (simp add: ulp_exponent_def)
    then show ?thesis by (auto simp: fround_pos_def Let_def)
  qed
  consider "p = 0" | "p > 0" | "p < 0" by linarith
  then show ?thesis
  proof cases
    case 1
    then show ?thesis using pq by (simp add: fround_def)
  next
    case 2
    then show ?thesis using pos [of p] assms pq q by (auto simp: fround_def x)
  next
    case 3
    then have "fround_pos (- p) q \<noteq> None" using pos [of "- p"] assms pq q by (simp add: x abs_if divide_less_0_iff split: if_splits)
    then show ?thesis using 3 pq by (auto simp: fround_def)
  qed
qed

section \<open>Reading fixed text back\<close>

lemma digits_of_length_le: "0 \<le> n \<Longrightarrow> n < 10 ^ d \<Longrightarrow> 0 < d \<Longrightarrow> length (digits_of n) \<le> d"
proof (cases "n = 0")
  case True
  moreover assume "0 < d"
  ultimately show ?thesis by (subst digits_of.simps) simp
next
  case False
  assume n: "0 \<le> n" "n < 10 ^ d"
  then have "10 ^ (length (digits_of n) - 1) \<le> n" using digits_of_bounds [of n] False by simp
  then have "(10::int) ^ (length (digits_of n) - 1) < 10 ^ d" using n(2) by linarith
  then have "length (digits_of n) - 1 < d" using power_less_imp_less_exp [of 10] by (metis one_less_numeral_iff semiring_norm(76))
  then show ?thesis by simp
qed

lemma pad_zeros_digits:
  assumes "0 \<le> n" "n < 10 ^ d" "0 < d"
  shows "length (pad_zeros d (digits_of n)) = d" "list_all is_digit (pad_zeros d (digits_of n))"
    "int_of_digits (pad_zeros d (digits_of n)) = n"
  using assms digits_of_length_le [OF assms] digits_of_digits [OF assms(1)]
  by (simp_all add: pad_zeros_def int_of_digits_append)

lemma parse_fixed_text:
  assumes "0 \<le> n"
  shows "parse_unsigned_decimal (fixed_text d n) = Some (of_int n / 10 ^ d)"
proof (cases "d = 0")
  case True
  then show ?thesis
    using parse_unsigned_plain [of "digits_of n" "[]"] digits_of_digits [OF assms] assms
    by (simp add: fixed_text_def no_digit_hd_def parse_exponent_def pow10_powi)
next
  case False
  define i where "i = n div 10 ^ d"
  define f where "f = n mod 10 ^ d"
  have i: "0 \<le> i" using assms by (simp add: i_def pos_imp_zdiv_nonneg_iff)
  have f: "0 \<le> f" "f < 10 ^ d" by (simp_all add: f_def)
  note P = pad_zeros_digits [OF f] 
  have "fixed_text d n = digits_of i @ CHR ''.'' # pad_zeros d (digits_of f) @ []"
    using False by (simp add: fixed_text_def i_def f_def)
  moreover have "parse_unsigned_decimal \<dots> =
      map_option (\<lambda>e. of_int (int_of_digits (digits_of i @ pad_zeros d (digits_of f))) * pow10 (e - int (length (pad_zeros d (digits_of f)))))
        (parse_exponent [])"
    using parse_unsigned_point [of "digits_of i" "pad_zeros d (digits_of f)" "[]"] digits_of_digits [OF i] P False
    by (simp add: no_digit_hd_def)
  moreover have "int_of_digits (digits_of i @ pad_zeros d (digits_of f)) = n"
    using P False i div_mult_mod_eq [of n "10 ^ d"] by (simp add: int_of_digits_append i_def f_def)
  moreover have "pow10 (0 - int d) = 1 / 10 ^ d"
    by (simp add: pow10_powi power_int_minus inverse_eq_divide)
  ultimately show ?thesis using P False by (simp add: parse_exponent_def)
qed

lemma fixed_text_chars:
  assumes "0 \<le> n"
  shows "list_all is_num_char (fixed_text d n) \<and> fixed_text d n \<noteq> [] \<and> is_digit (hd (fixed_text d n))"
proof -
  have dig: "list_all is_num_char (digits_of i)" if "0 \<le> i" for i
    using digits_of_digits [OF that] by (auto simp: list_all_iff is_num_char_def)
  have i: "0 \<le> n div 10 ^ d" using assms by (simp add: pos_imp_zdiv_nonneg_iff)
  have "is_num_char CHR ''0''" "is_num_char CHR ''.''" by (simp_all add: is_num_char_def is_digit_def)
  then have "list_all is_num_char (pad_zeros d (digits_of (n mod 10 ^ d)))"
    using dig [of "n mod 10 ^ d"] by (simp add: pad_zeros_def list_all_append) (auto simp: list_all_iff)
  then show ?thesis
    using dig [OF assms] dig [OF i] is_digit_hd_digits_of [OF assms] is_digit_hd_digits_of [OF i] \<open>is_num_char CHR ''.''\<close>
    by (simp add: fixed_text_def)
qed

lemma parse_float_literal:
  assumes "list_all is_num_char s" "s \<noteq> []" "decimal_literal s = Some v"
  shows "parse_float s = v"
proof -
  have "trim_left s = s"
    using assms(1,2) num_char_not_ws by (cases s) (auto simp: trim_left_def)
  moreover have "rev [0..<length s + 1] = length s # rev [0..<length s]" by simp
  ultimately show ?thesis using assms(3) by (simp add: parse_float_def List.map_filter_simps)
qed

lemma decimal_literal_number:
  assumes "list_all is_num_char s" "s \<noteq> []" "string_to_number s = Fin v"
  shows "decimal_literal s = Some (Fin v)"
proof -
  have "\<not> is_num_char CHR ''I''" by (simp add: is_num_char_def is_digit_def)
  then have "u \<noteq> ''Infinity''" if "list_all is_num_char u" for u using that by auto
  moreover have "list_all is_num_char (tl s)" using assms(1) by (cases s) auto
  moreover have "starts_with [c] s \<longleftrightarrow> hd s = c" for c using assms(2) by (cases s) auto
  ultimately show ?thesis
    using assms(3) assms(1) unfolding string_to_number_num_chars [OF assms(1,2)]
    by (auto simp: decimal_literal_def Let_def split: option.splits if_splits)
qed

text \<open>\<open>parseFloat(String(v))\<close> is \<open>v\<close>.\<close>

lemma parse_float_String: "binary64 v \<Longrightarrow> parse_float (js_String (Fin v)) = Fin v"
  using js_String_chars string_to_number_String by (metis decimal_literal_number parse_float_literal)

lemma parse_float_fixed:
  assumes "\<bar>x\<bar> < 10 ^ 21"
  shows "parse_float (to_fixed d (Fin x)) =
    fround ((if x < 0 then - 1 else 1) * (of_int \<lfloor>\<bar>x\<bar> * 10 ^ d + 1 / 2\<rfloor> / 10 ^ d))"
proof -
  define n where "n = \<lfloor>\<bar>x\<bar> * 10 ^ d + 1 / 2\<rfloor>"
  have n: "0 \<le> n" by (simp add: n_def)
  note C = fixed_text_chars [OF n, of d] and P = parse_fixed_text [OF n, of d]
  have tf: "to_fixed d (Fin x) = (if x < 0 then ''-'' else []) @ fixed_text d n"
    using assms by (simp add: n_def)
  obtain c cs where cs: "fixed_text d n = c # cs" "is_digit c" using C by (cases "fixed_text d n") auto
  have "c \<noteq> CHR ''-''" "c \<noteq> CHR ''+''" "c \<noteq> CHR ''I''" using cs(2) by (auto simp: is_digit_def)
  then have "decimal_literal (to_fixed d (Fin x)) = Some (fround ((if x < 0 then - 1 else 1) * (of_int n / 10 ^ d)))"
    using cs P unfolding tf by (simp add: decimal_literal_def)
  moreover have "list_all is_num_char (to_fixed d (Fin x))" "to_fixed d (Fin x) \<noteq> []"
    using C unfolding tf by (auto simp: is_num_char_def)
  ultimately show ?thesis unfolding n_def [symmetric] by (intro parse_float_literal)
qed

text \<open>\<open>toFixed(d)\<close> read back differs from a binary64 value by at most \<open>10 ^ - d\<close>.\<close>

lemma to_fixed_close:
  assumes "binary64 x"
  shows "\<exists>p. parse_float (to_fixed d (Fin x)) = Fin p \<and> \<bar>p - x\<bar> \<le> 1 / 10 ^ d"
proof (cases "\<bar>x\<bar> < 10 ^ 21")
  case False
  then show ?thesis using parse_float_String [OF assms] by simp
next
  case True
  define t where "t = (10::rat) ^ d"
  have t: "t \<ge> 1" by (simp add: t_def)
  define n where "n = \<lfloor>\<bar>x\<bar> * t + 1 / 2\<rfloor>"
  define w where "w = (if x < 0 then - 1 else 1) * (of_int n / t)"
  have "of_int n \<le> \<bar>x\<bar> * t + 1 / 2" "\<bar>x\<bar> * t + 1 / 2 < of_int n + 1"
    unfolding n_def by linarith+
  then have "\<bar>of_int n - \<bar>x\<bar> * t\<bar> \<le> 1 / 2" by linarith
  then have "\<bar>of_int n - \<bar>x\<bar> * t\<bar> / t \<le> (1 / 2) / t" using t by (intro divide_right_mono) auto
  moreover have "\<bar>of_int n - \<bar>x\<bar> * t\<bar> / t = \<bar>(of_int n - \<bar>x\<bar> * t) / t\<bar>" using t by (simp add: abs_divide)
  moreover have "(of_int n - \<bar>x\<bar> * t) / t = of_int n / t - \<bar>x\<bar>" using t by (simp add: field_simps)
  ultimately have "\<bar>of_int n / t - \<bar>x\<bar>\<bar> \<le> 1 / (2 * t)" by simp
  then have w: "\<bar>w - x\<bar> \<le> 1 / (2 * t)" by (auto simp: w_def abs_if split: if_splits)
  have "1 / (2 * t) \<le> 1" using t by (simp add: field_simps)
  then have "\<bar>w\<bar> < 10 ^ 21 + 1" using w True by linarith
  also have "(10 ^ 21 + 1 :: rat) < 2 powi 1000" by simp
  finally obtain p where p: "fround w = Fin p" using fround_finite by blast
  have "\<bar>p - w\<bar> \<le> \<bar>x - w\<bar>" by (rule fround_nearest [OF p assms])
  then have "\<bar>p - x\<bar> \<le> 2 * (1 / (2 * t))" using w by linarith
  then have "\<bar>p - x\<bar> \<le> 1 / 10 ^ d" by (simp add: t_def)
  moreover have "parse_float (to_fixed d (Fin x)) = Fin p"
    using parse_float_fixed [OF True, of d] p by (simp only: w_def n_def t_def)
  ultimately show ?thesis by blast
qed

lemma decimal_literal_wf: "decimal_literal s = Some v \<Longrightarrow> wf_num v"
  by (auto simp: decimal_literal_def Let_def fround_wf split: if_splits)

lemma parse_float_wf: "wf_num (parse_float s)"
proof -
  let ?f = "\<lambda>n. decimal_literal (take n (trim_left s))"
  let ?vs = "List.map_filter ?f (rev [0..<length (trim_left s) + 1])"
  have "wf_num v" if "v \<in> set (List.map_filter ?f ns)" for v ns
    using that by (induction ns) (auto simp: List.map_filter_simps dest: decimal_literal_wf split: option.splits)
  then have "\<forall>v\<in>set ?vs. wf_num v" by blast
  then show ?thesis unfolding parse_float_def Let_def by (cases ?vs) (simp_all del: upt_Suc)
qed

section \<open>Relative error\<close>

lemma fround_pos_relative:
  assumes pq: "p > 0" "q > 0" and r: "fround_pos p q = Some r" and big: "2 powi (- 1022) \<le> (of_int p / of_int q :: rat)"
  shows "\<bar>r - of_int p / of_int q\<bar> \<le> of_int p / of_int q / 2 ^ 53"
proof -
  let ?x = "of_int p / of_int q :: rat"
  define K where "K = ulp_exponent p q"
  define M where "M = div_half_even (p * 2 ^ nat (- K)) (q * 2 ^ nat K)"
  have rM: "r = of_int M * 2 powi K"
    using r by (auto simp: fround_pos_def Let_def Fract_powi K_def M_def split: if_splits)
  define z where "z = \<lfloor>?x / 2 powi K + 1 / 2\<rfloor>"
  have "\<bar>of_int M - ?x / 2 powi K\<bar> \<le> \<bar>of_int z - ?x / 2 powi K\<bar>"
    using div_half_even_nearest [of "q * 2 ^ nat K" "p * 2 ^ nat (- K)" z] pq(2)
    unfolding M_def scale_powi [OF pq(2)] by simp
  also have "\<dots> \<le> 1 / 2" unfolding z_def by linarith
  finally have "\<bar>of_int M - ?x / 2 powi K\<bar> * 2 powi K \<le> 1 / 2 * 2 powi K" by (intro mult_right_mono) auto
  moreover have "\<bar>of_int M - ?x / 2 powi K\<bar> * 2 powi K = \<bar>(of_int M - ?x / 2 powi K) * 2 powi K\<bar>" by (simp add: abs_mult)
  moreover have "(of_int M - ?x / 2 powi K) * 2 powi K = r - ?x" by (simp add: rM left_diff_distrib)
  ultimately have err: "\<bar>r - ?x\<bar> \<le> 1 / 2 * 2 powi K" by (simp only:)
  have "2 powi (- 1022) < (2 :: rat) powi (ilog2 p q + 1)"
    using big ilog2_bounds(2) [OF pq] by (rule le_less_trans)
  then have "- 1022 < ilog2 p q + 1" by (rule powi2_less)
  then have "K = ilog2 p q - 52" by (simp add: K_def ulp_exponent_def)
  then have "(2 :: rat) powi K = 2 powi (ilog2 p q) / 2 ^ 52" by (simp add: power_int_diff)
  also have "\<dots> \<le> ?x / 2 ^ 52" using ilog2_bounds(1) [OF pq] by (intro divide_right_mono) auto
  finally show ?thesis using err by simp
qed

lemma fround_relative:
  assumes "2 powi (- 1022) \<le> \<bar>x\<bar>" and "\<bar>x\<bar> < 2 powi 1000"
  shows "\<exists>r. fround x = Fin r \<and> \<bar>r - x\<bar> \<le> \<bar>x\<bar> / 2 ^ 53"
proof -
  obtain p q where pq: "quotient_of x = (p, q)" by (cases "quotient_of x")
  then have q: "q > 0" and x: "x = of_int p / of_int q"
    using quotient_of_denom_pos quotient_of_div by auto
  obtain r where r: "fround x = Fin r" using fround_finite [OF assms(2)] by blast
  consider "p = 0" | "p > 0" | "p < 0" by linarith
  then have "\<bar>r - x\<bar> \<le> \<bar>x\<bar> / 2 ^ 53"
  proof cases
    case 1
    then show ?thesis using assms(1) x by (simp add: power_int_def)
  next
    case 2
    then have "\<bar>x\<bar> = of_int p / of_int q" using x q by simp
    then show ?thesis using r assms(1) fround_pos_relative [OF 2 q, of r] pq 2 x
      by (auto simp: fround_def split: option.splits)
  next
    case 3
    then obtain s where s: "fround_pos (- p) q = Some s" "r = - s"
      using r pq by (auto simp: fround_def split: option.splits)
    have ax: "\<bar>x\<bar> = of_int (- p) / of_int q" using x q 3 by (simp add: divide_neg_pos)
    then have "\<bar>s - of_int (- p) / of_int q\<bar> \<le> of_int (- p) / of_int q / 2 ^ 53"
      using fround_pos_relative [of "- p" q s] 3 q s(1) assms(1) by simp
    moreover have "\<bar>r - x\<bar> = \<bar>s - of_int (- p) / of_int q\<bar>"
      using abs_minus_commute [of "- s" x] by (simp add: s(2) x)
    ultimately show ?thesis by (simp only: ax)
  qed
  with r show ?thesis by blast
qed

text \<open>The same as a factor.\<close>

lemma fround_factor:
  assumes "2 powi (- 1022) \<le> \<bar>x\<bar>" and "\<bar>x\<bar> < 2 powi 1000"
  shows "\<exists>e. fround x = Fin (x * (1 + e)) \<and> \<bar>e\<bar> \<le> 1 / 2 ^ 53"
proof -
  obtain r where r: "fround x = Fin r" "\<bar>r - x\<bar> \<le> \<bar>x\<bar> / 2 ^ 53" using fround_relative [OF assms] by blast
  have x: "x \<noteq> 0" using assms(1) by (auto simp: power_int_def)
  have "r = x * (1 + (r - x) / x)" using x by (simp add: field_simps)
  moreover have "\<bar>(r - x) / x\<bar> \<le> 1 / 2 ^ 53" using r(2) x by (simp add: abs_divide field_simps)
  ultimately show ?thesis using r(1) by metis
qed

end
