(* ===== verification/ChannelRows.thy ===== *)
theory ChannelRows
  imports JsFormat
begin

text \<open>
  Channel rows (\<open>features/channels/lib/channel-utils.ts\<close>, with the tables of \<open>constants.ts\<close> and the types of
  \<open>types.ts\<close> it uses): labels, lists, ratings, and the grouping of channels into one row per tag.

  A property that may be \<open>null\<close> or absent and is only copied is an option. Integer fields of the server are
  integers, since the module only compares them; quotas and response times are binary64
  numbers, since it computes with them. A tag row is the channel record extended by its children. The map of
  tags is an association list in insertion order; its rows are the objects of the result.
\<close>

section \<open>Types and tables\<close>

datatype ChannelId = NumId int | TagId string

datatype opt_int = OUndefined | ONull | OInt int

record ChannelInfo =
  is_multi_key :: bool
  multi_key_size :: int
  multi_key_status_list :: "(string \<times> int) list option"
  multi_key_disabled_reason :: "(string \<times> string) list option"
  multi_key_disabled_time :: "(string \<times> int) list option"
  multi_key_polling_index :: int
  multi_key_mode :: string

record Channel =
  c_id :: ChannelId
  c_type :: int
  c_key :: string
  c_openai_organization :: "string option"
  c_test_model :: "string option"
  c_status :: "int option"
  c_name :: string
  c_weight :: opt_int
  c_created_time :: int
  c_test_time :: int
  c_response_time :: jsnum
  c_base_url :: "string option"
  c_other :: string
  c_balance :: jsnum
  c_balance_updated_time :: int
  c_models :: string
  c_group :: string
  c_used_quota :: jsnum
  c_model_mapping :: "string option"
  c_status_code_mapping :: "string option"
  c_priority :: opt_int
  c_auto_ban :: opt_int
  c_other_info :: string
  c_tag :: "string option"
  c_setting :: "string option"
  c_param_override :: "string option"
  c_header_override :: "string option"
  c_remark :: string
  c_max_input_tokens :: int
  c_channel_info :: "ChannelInfo option"
  c_settings :: string

record TagRow = Channel +
  tr_children :: "Channel list"

datatype ChannelOrTagRow = ChannelRow Channel | AggregateRow TagRow

definition CHANNEL_TYPES :: "(int \<times> string) list" where
  "CHANNEL_TYPES = [
    (0, ''Unknown''), (1, ''OpenAI''), (2, ''Midjourney''), (3, ''Azure''), (4, ''Ollama''),
    (5, ''MidjourneyPlus''), (6, ''OpenAIMax''), (7, ''OhMyGPT''), (8, ''Custom''), (9, ''AILS''),
    (10, ''AI Proxy''), (11, ''PaLM''), (12, ''API2GPT''), (13, ''AIGC2D''), (14, ''Anthropic''),
    (15, ''Baidu''), (16, ''Zhipu''), (17, ''Ali''), (18, ''Xunfei''), (19, ''360''),
    (20, ''OpenRouter''), (21, ''AI Proxy Library''), (22, ''FastGPT''), (23, ''Tencent''),
    (24, ''Gemini''), (25, ''Moonshot''), (26, ''Zhipu V4''), (27, ''Perplexity''),
    (31, ''LingYiWanWu''), (33, ''AWS''), (34, ''Cohere''), (35, ''MiniMax''), (36, ''SunoAPI''),
    (37, ''Dify''), (38, ''Jina''), (39, ''Cloudflare''), (40, ''SiliconFlow''), (41, ''Vertex AI''),
    (42, ''Mistral''), (43, ''DeepSeek''), (44, ''MokaAI''), (45, ''VolcEngine''), (46, ''Baidu V2''),
    (47, ''Xinference''), (48, ''xAI''), (49, ''Coze''), (50, ''Kling''), (51, ''Jimeng''),
    (52, ''Vidu''), (53, ''Submodel''), (54, ''DoubaoVideo''), (55, ''Sora''), (56, ''Replicate''),
    (57, ''ChatGPT Subscription (Codex)'')]"

definition CHANNEL_TYPE_DISPLAY_ORDER :: "int list" where
  "CHANNEL_TYPE_DISPLAY_ORDER = [
    1, 14, 33, 24, 43, 3, 41, 48, 42, 34, 20, 4, 40, 27, 25, 17, 26, 15, 46, 23, 18, 45, 31, 35, 49, 19,
    47, 37, 38, 39, 11, 8, 57, 22, 21, 44, 2, 5, 36, 50, 51, 52, 53, 54, 55, 56]"

definition TYPE_TO_ICON :: "(int \<times> string) list" where
  "TYPE_TO_ICON = [
    (1, ''OpenAI''), (6, ''OpenAI''), (7, ''OpenAI''), (8, ''OpenAI''), (3, ''Azure''),
    (14, ''Claude''), (24, ''Gemini''), (11, ''Google''), (41, ''Gemini''), (33, ''Aws''),
    (39, ''Cloudflare''), (15, ''Baidu''), (46, ''Baidu''), (16, ''Zhipu''), (26, ''Zhipu''),
    (17, ''Qwen''), (18, ''Spark''), (23, ''Hunyuan''), (19, ''Ai360''), (25, ''Moonshot''),
    (31, ''Yi''), (35, ''Minimax''), (45, ''Volcengine''), (4, ''Ollama''), (27, ''Perplexity''),
    (34, ''Cohere''), (42, ''Mistral''), (43, ''DeepSeek''), (48, ''XAI''), (49, ''Coze''),
    (40, ''SiliconCloud''), (44, ''OpenAI''), (20, ''OpenRouter''), (2, ''Midjourney''),
    (5, ''Midjourney''), (50, ''Kling''), (51, ''Jimeng''), (52, ''Vidu''), (36, ''Suno''),
    (55, ''OpenAI''), (54, ''Doubao''), (56, ''Replicate''), (37, ''Dify''), (38, ''Jina''),
    (22, ''FastGPT''), (47, ''Xinference''), (53, ''OpenAI''), (10, ''OpenAI''), (21, ''OpenAI''),
    (12, ''OpenAI''), (13, ''OpenAI''), (9, ''OpenAI'')]"

definition TYPE_TO_KEY_PROMPT :: "(int \<times> string) list" where
  "TYPE_TO_KEY_PROMPT = [
    (15, ''Format: APIKey|SecretKey''), (18, ''Format: APPID|APISecret|APIKey''),
    (22, ''Format: APIKey-AppId, e.g., fastgpt-0sp2gtvfdgyi4k30jwlgwf1i-64f335d84283f05518e9e041''),
    (23, ''Format: AppId|SecretId|SecretKey''), (33, ''Format: Ak|Sk|Region''),
    (50, ''Format: AccessKey|SecretKey (or just ApiKey if upstream is New API)''),
    (51, ''Format: Access Key ID|Secret Access Key''),
    (57, ''Paste Codex OAuth JSON credential (access_token / refresh_token / account_id)'')]"

text \<open>\<open>table[key] || d\<close> for a table of strings.\<close>

definition lookup_or :: "(int \<times> string) list \<Rightarrow> int \<Rightarrow> string \<Rightarrow> string" where
  "lookup_or table k d = (case map_of table k of Some s \<Rightarrow> str_or s d | None \<Rightarrow> d)"

definition getChannelTypeLabel :: "int \<Rightarrow> string" where
  "getChannelTypeLabel type = lookup_or CHANNEL_TYPES type ''Unknown''"

definition getChannelTypeIcon :: "int \<Rightarrow> string" where
  "getChannelTypeIcon type = lookup_or TYPE_TO_ICON type ''OpenAI''"

definition getKeyPromptForType :: "int \<Rightarrow> string" where
  "getKeyPromptForType type = lookup_or TYPE_TO_KEY_PROMPT type ''Enter API key for this channel''"

text \<open>The options of the type selector: the display order first, then every other type but 0. The keys of
  the table are enumerated in ascending order, the order in which they are written.\<close>

definition ordered_options :: "(int \<times> string) list" where
  "ordered_options =
     List.map_filter (\<lambda>i. case map_of CHANNEL_TYPES i of
         Some label \<Rightarrow> if label \<noteq> [] then Some (i, label) else None
       | None \<Rightarrow> None) CHANNEL_TYPE_DISPLAY_ORDER"

definition CHANNEL_TYPE_OPTIONS :: "(int \<times> string) list" where
  "CHANNEL_TYPE_OPTIONS =
     (let ordered = ordered_options; seen = map fst ordered in
      ordered @ filter (\<lambda>(i, label). i \<noteq> 0 \<and> i \<notin> set seen) CHANNEL_TYPES)"

section \<open>Status, lists and ratings\<close>

definition isChannelEnabled :: "Channel \<Rightarrow> bool" where
  "isChannelEnabled channel = (c_status channel = Some 1)"

definition isMultiKeyChannel :: "Channel \<Rightarrow> bool" where
  "isMultiKeyChannel channel = (case c_channel_info channel of Some i \<Rightarrow> is_multi_key i | None \<Rightarrow> False)"

definition parseModelsList :: "string \<Rightarrow> string list" where
  "parseModelsList models =
     (if models = [] then [] else filter_boolean (map trim (split_char CHR '','' models)))"

text \<open>The comparison puts \<open>default\<close> first and orders the rest by \<open>localeCompare\<close>, whose order is an argument.
  Entries called \<open>default\<close> are equal strings, so their mutual order does not show.\<close>

definition parseGroupsList :: "(string \<Rightarrow> 'o::linorder) \<Rightarrow> string \<Rightarrow> string list" where
  "parseGroupsList locale_key groups =
     (if groups = [] then []
      else let list = filter_boolean (map trim (split_char CHR '','' groups)) in
        filter (\<lambda>g. g = ''default'') list @ sort_key locale_key (filter (\<lambda>g. g \<noteq> ''default'') list))"

definition parseChannelSettings :: "string option \<Rightarrow> jsval" where
  "parseChannelSettings settingStr =
     (case settingStr of
        None \<Rightarrow> JObj []
      | Some s \<Rightarrow> if s = [] then JObj []
                  else (case json_parse s of Some v \<Rightarrow> v | None \<Rightarrow> JObj []))"

datatype variant = success | info | warning | danger | neutral

definition getBalanceVariant :: "jsnum \<Rightarrow> variant" where
  "getBalanceVariant balance =
     (if js_eq balance (Fin 0) then neutral
      else if js_lt balance (Fin 1) then danger
      else if js_lt balance (Fin 10) then warning
      else success)"

text \<open>The text without a translation function.\<close>

definition formatResponseTime :: "jsnum \<Rightarrow> string" where
  "formatResponseTime timeMs =
     (if js_eq timeMs (Fin 0) then ''Not tested''
      else if js_lt timeMs (Fin 1000) then js_String timeMs @ ''ms''
      else to_fixed 2 (js_div timeMs (Fin 1000)) @ ''s'')"

record ResponseTimeConfig =
  rt_variant :: variant
  rt_label :: string

definition RESPONSE_TIME_THRESHOLDS :: "jsnum \<times> jsnum \<times> jsnum \<times> jsnum" where
  "RESPONSE_TIME_THRESHOLDS = (Fin 500, Fin 1000, Fin 2000, Fin 5000)"

definition getResponseTimeConfig :: "jsnum \<Rightarrow> ResponseTimeConfig" where
  "getResponseTimeConfig timeMs =
     (case RESPONSE_TIME_THRESHOLDS of (EXCELLENT, GOOD, FAIR, POOR) \<Rightarrow>
      if js_eq timeMs (Fin 0) then \<lparr>rt_variant = neutral, rt_label = ''Not tested''\<rparr>
      else if js_le timeMs EXCELLENT then \<lparr>rt_variant = success, rt_label = ''Excellent''\<rparr>
      else if js_le timeMs GOOD then \<lparr>rt_variant = info, rt_label = ''Good''\<rparr>
      else if js_le timeMs FAIR then \<lparr>rt_variant = warning, rt_label = ''Fair''\<rparr>
      else if js_le timeMs POOR then \<lparr>rt_variant = danger, rt_label = ''Poor''\<rparr>
      else \<lparr>rt_variant = danger, rt_label = ''Poor''\<rparr>)"

section \<open>Grouping by tag\<close>

fun isTagAggregateRow :: "ChannelOrTagRow \<Rightarrow> bool" where
  "isTagAggregateRow (AggregateRow r) = True"
| "isTagAggregateRow (ChannelRow c) = False"

definition channel_tag :: "Channel \<Rightarrow> string" where
  "channel_tag channel = (case c_tag channel of Some t \<Rightarrow> str_or t [] | None \<Rightarrow> [])"

definition new_tag_row :: "string \<Rightarrow> Channel \<Rightarrow> TagRow" where
  "new_tag_row tag channel =
     (Channel.extend channel (TagRow.fields []))
       \<lparr>c_key := tag, c_id := TagId tag, c_tag := Some tag, c_name := tag, c_type := 0, c_status := None,
        c_group := [], c_used_quota := Fin 0, c_response_time := Fin 0, c_priority := OInt (- 1),
        c_weight := OInt (- 1), c_balance := Fin 0, c_test_time := 0, c_created_time := 0,
        c_balance_updated_time := 0, c_models := []\<rparr>"

definition aggregate_average :: "jsnum \<Rightarrow> nat \<Rightarrow> jsnum \<Rightarrow> jsnum" where
  "aggregate_average average childCount time =
     js_div (js_add (js_mul average (Fin (of_nat (childCount - 1)))) time) (Fin (of_nat childCount))"

definition aggregate_same :: "opt_int \<Rightarrow> opt_int \<Rightarrow> opt_int" where
  "aggregate_same p q = (if p = OInt (- 1) then q else if p \<noteq> q then ONull else p)"

definition aggregate_group :: "string \<Rightarrow> string \<Rightarrow> string" where
  "aggregate_group row_group channel_group =
     (if row_group = [] then channel_group
      else let existingGroups = filter_boolean (split_char CHR '','' row_group);
               newGroups = filter_boolean (split_char CHR '','' channel_group)
           in foldl (\<lambda>acc g. if g \<in> set existingGroups then acc else acc @ '','' @ g) row_group newGroups)"

definition aggregate_status :: "int option \<Rightarrow> int option \<Rightarrow> int option" where
  "aggregate_status s t = (if t = Some 1 then Some 1 else if s = None then t else s)"

definition add_child :: "TagRow \<Rightarrow> Channel \<Rightarrow> TagRow" where
  "add_child row channel =
     (let row1 = row\<lparr>tr_children := tr_children row @ [channel]\<rparr>;
          childCount = length (tr_children row1)
      in row1
        \<lparr>c_used_quota := js_add (c_used_quota row) (c_used_quota channel),
         c_response_time := aggregate_average (c_response_time row) childCount (c_response_time channel),
         c_priority := aggregate_same (c_priority row) (c_priority channel),
         c_weight := aggregate_same (c_weight row) (c_weight channel),
         c_group := aggregate_group (c_group row) (c_group channel),
         c_status := aggregate_status (c_status row) (c_status channel)\<rparr>)"

definition tag_step :: "(string \<times> TagRow) list \<Rightarrow> Channel \<Rightarrow> (string \<times> TagRow) list" where
  "tag_step tagMap channel =
     (let tag = channel_tag channel;
          tagMap1 = (if tag \<in> fst ` set tagMap then tagMap else tagMap @ [(tag, new_tag_row tag channel)])
      in map (\<lambda>(t, row). (t, if t = tag then add_child row channel else row)) tagMap1)"

definition aggregateChannelsByTag :: "Channel list \<Rightarrow> ChannelOrTagRow list" where
  "aggregateChannelsByTag channels = map (\<lambda>(t, row). AggregateRow row) (foldl tag_step [] channels)"

section \<open>Keys\<close>

record DeduplicatedKeys =
  deduplicatedText :: string
  beforeCount :: int
  afterCount :: int
  removedCount :: int

text \<open>The set of keys seen holds the same strings as the list of keys kept.\<close>

definition key_step :: "string list \<Rightarrow> string \<Rightarrow> string list" where
  "key_step deduplicatedKeys line =
     (let trimmedLine = trim line in
      if trimmedLine \<noteq> [] \<and> trimmedLine \<notin> set deduplicatedKeys then deduplicatedKeys @ [trimmedLine]
      else deduplicatedKeys)"

definition deduplicateKeys :: "string \<Rightarrow> DeduplicatedKeys" where
  "deduplicateKeys keysText =
     (if keysText = [] \<or> trim keysText = []
      then \<lparr>deduplicatedText = [], beforeCount = 0, afterCount = 0, removedCount = 0\<rparr>
      else let keyLines = split_char CHR 0x0A keysText;
               deduplicatedKeys = foldl key_step [] keyLines
           in \<lparr>deduplicatedText = join [CHR 0x0A] deduplicatedKeys, beforeCount = int (length keyLines),
               afterCount = int (length deduplicatedKeys),
               removedCount = int (length keyLines) - int (length deduplicatedKeys)\<rparr>)"

section \<open>What a tag row holds\<close>

definition of_tag :: "string \<Rightarrow> Channel list \<Rightarrow> Channel list" where
  "of_tag t channels = filter (\<lambda>c. channel_tag c = t) channels"

definition tag_row :: "string \<Rightarrow> Channel list \<Rightarrow> TagRow" where
  "tag_row t ds = foldl add_child (new_tag_row t (hd ds)) ds"

lemma of_tag_snoc: "of_tag t (cs @ [c]) = (if channel_tag c = t then of_tag t cs @ [c] else of_tag t cs)"
  by (simp add: of_tag_def)

lemma of_tag_Nil_iff: "of_tag t cs = [] \<longleftrightarrow> t \<notin> channel_tag ` set cs"
  by (auto simp: of_tag_def filter_empty_conv)

lemma tag_row_snoc: "ds \<noteq> [] \<Longrightarrow> tag_row t (ds @ [c]) = add_child (tag_row t ds) c"
  by (simp add: tag_row_def)

lemma tag_row_single: "tag_row t [c] = add_child (new_tag_row t c) c"
  by (simp add: tag_row_def)

lemma tag_row_of_tag:
  "t \<in> channel_tag ` set cs \<Longrightarrow>
   tag_row t (of_tag t (cs @ [c])) =
   (if t = channel_tag c then add_child (tag_row t (of_tag t cs)) c else tag_row t (of_tag t cs))"
  by (cases "t = channel_tag c") (simp_all add: of_tag_snoc tag_row_snoc of_tag_Nil_iff)

text \<open>The loop over the channels groups them: one row per tag in the order of first occurrence, each folded
  over the channels of its tag.\<close>

lemma tag_steps:
  "foldl tag_step [] cs = map (\<lambda>t. (t, tag_row t (of_tag t cs))) (uniq (map channel_tag cs))"
proof (induction cs rule: rev_induct)
  case Nil
  then show ?case by simp
next
  case (snoc c cs)
  let ?old = "map (\<lambda>t. (t, tag_row t (of_tag t cs))) (uniq (map channel_tag cs))"
  have upd: "map (\<lambda>(t, row). (t, if t = channel_tag c then add_child row c else row)) ?old =
      map (\<lambda>t. (t, tag_row t (of_tag t (cs @ [c])))) (uniq (map channel_tag cs))"
    by (simp add: tag_row_of_tag)
  have tags: "fst ` set ?old = channel_tag ` set cs"
    by force
  have step: "foldl tag_step [] (cs @ [c]) = tag_step ?old c"
    by (simp add: snoc.IH)
  show ?case
  proof (cases "channel_tag c \<in> channel_tag ` set cs")
    case True
    then have "tag_step ?old c = map (\<lambda>(t, row). (t, if t = channel_tag c then add_child row c else row)) ?old"
      unfolding tag_step_def Let_def tags by simp
    then show ?thesis unfolding step upd using True by (simp add: uniq_snoc)
  next
    case False
    then have "of_tag (channel_tag c) (cs @ [c]) = [c]"
      using of_tag_Nil_iff by (simp add: of_tag_snoc)
    moreover have "tag_step ?old c =
        map (\<lambda>(t, row). (t, if t = channel_tag c then add_child row c else row)) ?old @
        [(channel_tag c, tag_row (channel_tag c) [c])]"
      unfolding tag_step_def Let_def tags using False by (simp add: tag_row_single)
    ultimately show ?thesis unfolding step upd using False by (simp add: uniq_snoc)
  qed
qed

lemma children_foldl: "tr_children (foldl add_child r ds) = tr_children r @ ds"
  by (induction ds arbitrary: r) (simp_all add: add_child_def Let_def)

lemma quota_foldl:
  "c_used_quota (foldl add_child r ds) = foldl js_add (c_used_quota r) (map c_used_quota ds)"
  by (induction ds arbitrary: r) (simp_all add: add_child_def Let_def)

lemma priority_foldl:
  "c_priority (foldl add_child r ds) = foldl aggregate_same (c_priority r) (map c_priority ds)"
  by (induction ds arbitrary: r) (simp_all add: add_child_def Let_def)

lemma weight_foldl:
  "c_weight (foldl add_child r ds) = foldl aggregate_same (c_weight r) (map c_weight ds)"
  by (induction ds arbitrary: r) (simp_all add: add_child_def Let_def)

lemma group_foldl:
  "c_group (foldl add_child r ds) = foldl aggregate_group (c_group r) (map c_group ds)"
  by (induction ds arbitrary: r) (simp_all add: add_child_def Let_def)

lemma status_foldl:
  "c_status (foldl add_child r ds) = foldl aggregate_status (c_status r) (map c_status ds)"
  by (induction ds arbitrary: r) (simp_all add: add_child_def Let_def)

lemma truncate_foldl:
  "Channel.truncate (foldl add_child r ds) =
   (Channel.truncate r)
     \<lparr>c_used_quota := c_used_quota (foldl add_child r ds),
      c_response_time := c_response_time (foldl add_child r ds),
      c_priority := c_priority (foldl add_child r ds), c_weight := c_weight (foldl add_child r ds),
      c_group := c_group (foldl add_child r ds), c_status := c_status (foldl add_child r ds)\<rparr>"
proof (induction ds rule: rev_induct)
  case Nil
  then show ?case by (simp add: Channel.truncate_def)
next
  case (snoc d ds)
  have "Channel.truncate (add_child s d) =
      (Channel.truncate s)
        \<lparr>c_used_quota := c_used_quota (add_child s d), c_response_time := c_response_time (add_child s d),
         c_priority := c_priority (add_child s d), c_weight := c_weight (add_child s d),
         c_group := c_group (add_child s d), c_status := c_status (add_child s d)\<rparr>" for s
    by (simp add: add_child_def Let_def Channel.truncate_def)
  from this [of "foldl add_child r ds"] show ?case
    using snoc by (simp add: foldl_append)
qed

lemma truncate_new_tag_row:
  "Channel.truncate (new_tag_row t c) =
   c\<lparr>c_key := t, c_id := TagId t, c_tag := Some t, c_name := t, c_type := 0, c_status := None,
     c_group := [], c_used_quota := Fin 0, c_response_time := Fin 0, c_priority := OInt (- 1),
     c_weight := OInt (- 1), c_balance := Fin 0, c_test_time := 0, c_created_time := 0,
     c_balance_updated_time := 0, c_models := []\<rparr>"
  by (simp add: new_tag_row_def Channel.truncate_def Channel.extend_def TagRow.fields_def)

text \<open>The common value of a field: leading \<open>-1\<close> are taken for unset, and a second value makes it \<open>null\<close>.\<close>

definition common_value :: "opt_int list \<Rightarrow> opt_int" where
  "common_value ps =
     (case dropWhile (\<lambda>p. p = OInt (- 1)) ps of
        [] \<Rightarrow> OInt (- 1)
      | q # qs \<Rightarrow> if \<forall>p\<in>set qs. p = q then q else ONull)"

lemma aggregate_same_unset: "aggregate_same (OInt (- 1)) q = q"
  by (simp add: aggregate_same_def)

lemma same_foldl_set:
  "q \<noteq> OInt (- 1) \<Longrightarrow> foldl aggregate_same q ps = (if \<forall>p\<in>set ps. p = q then q else ONull)"
  by (induction ps arbitrary: q) (auto simp: aggregate_same_def)

lemma same_foldl: "foldl aggregate_same (OInt (- 1)) ps = common_value ps"
proof (induction ps)
  case Nil
  then show ?case by (simp add: common_value_def)
next
  case (Cons p ps)
  then show ?case
    by (cases "p = OInt (- 1)") (simp_all add: aggregate_same_unset common_value_def same_foldl_set)
qed

definition first_status :: "int option list \<Rightarrow> int option" where
  "first_status ss =
     (if Some 1 \<in> set ss then Some 1
      else case dropWhile (\<lambda>s. s = None) ss of [] \<Rightarrow> None | s # _ \<Rightarrow> s)"

lemma aggregate_status_unset: "aggregate_status None s = s"
  by (simp add: aggregate_status_def)

lemma status_foldl_set:
  "s \<noteq> None \<Longrightarrow> foldl aggregate_status s ss = (if Some 1 \<in> set ss then Some 1 else s)"
  by (induction ss arbitrary: s) (auto simp: aggregate_status_def)

lemma status_foldl_first: "foldl aggregate_status None ss = first_status ss"
proof (induction ss)
  case Nil
  then show ?case by (simp add: first_status_def)
next
  case (Cons s ss)
  then show ?case
    by (cases s) (simp_all add: aggregate_status_unset first_status_def status_foldl_set)
qed

text \<open>The entries of a comma-separated list of groups.\<close>

definition group_entries :: "string \<Rightarrow> string list" where
  "group_entries g = filter_boolean (split_char CHR '','' g)"

lemma group_entries_free: "g \<in> set (group_entries s) \<Longrightarrow> g \<noteq> [] \<and> CHR '','' \<notin> set g"
  using split_char_free by (auto simp: group_entries_def filter_boolean_def)

lemma append_groups_entries:
  "\<forall>g\<in>set gs. g \<noteq> [] \<and> CHR '','' \<notin> set g \<Longrightarrow>
   group_entries (foldl (\<lambda>acc g. if g \<in> E then acc else acc @ '','' @ g) acc gs) =
   group_entries acc @ filter (\<lambda>g. g \<notin> E) gs"
proof (induction gs arbitrary: acc)
  case Nil
  then show ?case by simp
next
  case (Cons g gs)
  then have "group_entries (acc @ CHR '','' # g) = group_entries acc @ [g]"
    by (simp add: group_entries_def split_char_concat split_char_no_sep filter_boolean_id)
  then show ?case using Cons by simp
qed

lemma aggregate_group_entries:
  "group_entries (aggregate_group s t) =
   (if s = [] then group_entries t
    else group_entries s @ filter (\<lambda>g. g \<notin> set (group_entries s)) (group_entries t))"
  using append_groups_entries [of "group_entries t" "set (group_entries s)" s] group_entries_free
  by (simp add: aggregate_group_def Let_def group_entries_def)

lemma group_entries_Nil [simp]: "group_entries [] = []"
  by (simp add: group_entries_def filter_boolean_def)

lemma group_foldl_entries:
  "\<forall>g\<in>set gs. distinct (group_entries g) \<Longrightarrow> distinct (group_entries s) \<Longrightarrow>
   group_entries (foldl aggregate_group s gs) = uniq (group_entries s @ concat (map group_entries gs))"
proof (induction gs arbitrary: s)
  case (Cons g gs)
  then have g: "group_entries (aggregate_group s g) = uniq (group_entries s @ group_entries g)"
    by (simp add: aggregate_group_entries uniq_append uniq_distinct)
  then have "group_entries (foldl aggregate_group s (g # gs)) =
      uniq (uniq (group_entries s @ group_entries g) @ concat (map group_entries gs))"
    using Cons by simp
  also have "\<dots> = uniq (group_entries s @ concat (map group_entries (g # gs)))"
    using uniq_append [of "uniq (group_entries s @ group_entries g)" "concat (map group_entries gs)"]
      uniq_append [of "group_entries s @ group_entries g" "concat (map group_entries gs)"] by simp
  finally show ?case .
qed (simp add: uniq_distinct)

lemma new_tag_row_fields:
  "tr_children (new_tag_row t c) = []" "c_used_quota (new_tag_row t c) = Fin 0"
  "c_response_time (new_tag_row t c) = Fin 0" "c_priority (new_tag_row t c) = OInt (- 1)"
  "c_weight (new_tag_row t c) = OInt (- 1)" "c_group (new_tag_row t c) = []" "c_status (new_tag_row t c) = None"
  by (simp_all add: new_tag_row_def Channel.extend_def TagRow.fields_def)

lemmas tag_row_fields = children_foldl quota_foldl priority_foldl weight_foldl group_foldl status_foldl
  new_tag_row_fields same_foldl status_foldl_first

lemma aggregate_rows:
  "aggregateChannelsByTag cs = map (\<lambda>t. AggregateRow (tag_row t (of_tag t cs))) (uniq (map channel_tag cs))"
  by (simp add: aggregateChannelsByTag_def tag_steps)

lemma tag_row_truncate:
  "Channel.truncate (tag_row t ds) =
   (hd ds)
     \<lparr>c_key := t, c_id := TagId t, c_tag := Some t, c_name := t, c_type := 0,
      c_status := first_status (map c_status ds), c_group := c_group (tag_row t ds),
      c_used_quota := foldl js_add (Fin 0) (map c_used_quota ds),
      c_response_time := c_response_time (tag_row t ds),
      c_priority := common_value (map c_priority ds), c_weight := common_value (map c_weight ds),
      c_balance := Fin 0, c_test_time := 0, c_created_time := 0, c_balance_updated_time := 0,
      c_models := []\<rparr>"
  using truncate_foldl [of "new_tag_row t (hd ds)" ds]
  by (simp add: tag_row_def truncate_new_tag_row tag_row_fields)

text \<open>What the comments of the source promise of the row of a tag: the value its children share, or
  \<open>null\<close> if they differ, and their groups concatenated and deduplicated.\<close>

definition same_or_null :: "opt_int list \<Rightarrow> opt_int" where
  "same_or_null ps = (if \<forall>p\<in>set ps. p = hd ps then hd ps else ONull)"

lemma common_value_same: "ps \<noteq> [] \<Longrightarrow> OInt (- 1) \<notin> set ps \<Longrightarrow> common_value ps = same_or_null ps"
  by (cases ps) (auto simp: common_value_def same_or_null_def)

definition row_documented :: "Channel list \<Rightarrow> TagRow \<Rightarrow> bool" where
  "row_documented cs r =
     (let t = c_key r; ds = filter (\<lambda>c. channel_tag c = t) cs in
        ds \<noteq> [] \<and> tr_children r = ds \<and>
        Channel.truncate r =
        (hd ds)
          \<lparr>c_key := t, c_id := TagId t, c_tag := Some t, c_name := t, c_type := 0,
           c_status := first_status (map c_status ds), c_group := c_group r,
           c_used_quota := foldl js_add (Fin 0) (map c_used_quota ds),
           c_response_time := c_response_time r,
           c_priority := same_or_null (map c_priority ds), c_weight := same_or_null (map c_weight ds),
           c_balance := Fin 0, c_test_time := 0, c_created_time := 0, c_balance_updated_time := 0,
           c_models := []\<rparr> \<and>
        group_entries (c_group r) = uniq (concat (map (\<lambda>d. group_entries (c_group d)) ds)))"

lemma row_documentedD:
  assumes "row_documented cs r"
  shows "tr_children r = filter (\<lambda>c. channel_tag c = c_key r) cs"
    and "c_priority r = same_or_null (map c_priority (filter (\<lambda>c. channel_tag c = c_key r) cs))"
    and "group_entries (c_group r) =
      uniq (concat (map (\<lambda>d. group_entries (c_group d)) (filter (\<lambda>c. channel_tag c = c_key r) cs)))"
proof -
  have "c_priority (Channel.truncate r) = same_or_null (map c_priority (filter (\<lambda>c. channel_tag c = c_key r) cs))"
    using assms by (simp add: row_documented_def Let_def)
  then show "c_priority r = same_or_null (map c_priority (filter (\<lambda>c. channel_tag c = c_key r) cs))"
    by (simp add: Channel.truncate_def)
qed (use assms in \<open>simp_all add: row_documented_def Let_def\<close>)

lemma tag_row_key: "c_key (tag_row t ds) = t"
  using arg_cong [OF tag_row_truncate [of t ds], of c_key] by (simp add: Channel.truncate_def)

text \<open>A channel whose priority and weight are not the \<open>-1\<close> the code uses for unset, and that lists no
  group twice.\<close>

definition plain_channel :: "Channel \<Rightarrow> bool" where
  "plain_channel c \<longleftrightarrow> c_priority c \<noteq> OInt (- 1) \<and> c_weight c \<noteq> OInt (- 1) \<and> distinct (group_entries (c_group c))"

lemma tag_row_documented:
  assumes "c \<in> set cs" and plain: "\<forall>d\<in>set cs. plain_channel d"
  shows "row_documented cs (tag_row (channel_tag c) (of_tag (channel_tag c) cs))"
proof -
  let ?t = "channel_tag c"
  let ?ds = "of_tag ?t cs"
  have ds: "?ds \<noteq> []" "\<forall>d\<in>set ?ds. plain_channel d"
    using of_tag_Nil_iff [of ?t cs] assms by (auto simp: of_tag_def)
  then have "common_value (map c_priority ?ds) = same_or_null (map c_priority ?ds)"
    "common_value (map c_weight ?ds) = same_or_null (map c_weight ?ds)"
    by (fastforce intro!: common_value_same simp: plain_channel_def)+
  moreover have "group_entries (foldl aggregate_group [] (map c_group ?ds)) =
      uniq (concat (map (\<lambda>d. group_entries (c_group d)) ?ds))"
    using group_foldl_entries [of "map c_group ?ds" "[]"] ds(2) by (simp add: plain_channel_def comp_def)
  ultimately show ?thesis
    using tag_row_truncate [of ?t ?ds] ds(1)
    unfolding row_documented_def Let_def tag_row_key of_tag_def [symmetric]
    by (simp add: tag_row_def tag_row_fields)
qed

text \<open>C17: Grouping channels by tag gives one aggregate row per tag, in the order in which the tags first
  occur. The children of a row are exactly the channels of its tag, in order. The row is the first of them
  with its identity replaced by the tag, the quota summed and the status enabled if a child is
  enabled. As the comments of the source promise, its priority and weight are the value the children
  share, \<open>null\<close> if they differ, and its groups are those of the children concatenated and deduplicated, provided that
  no channel has priority or weight \<open>-1\<close>, which the code takes for unset, and none lists a group
  twice.\<close>

theorem aggregate_by_tag:
  assumes "\<forall>c\<in>set cs. plain_channel c"
  shows "\<exists>rows. aggregateChannelsByTag cs = map AggregateRow rows \<and>
    map c_key rows = uniq (map channel_tag cs) \<and> (\<forall>r\<in>set rows. row_documented cs r)"
proof -
  let ?rows = "map (\<lambda>t. tag_row t (of_tag t cs)) (uniq (map channel_tag cs))"
  have "aggregateChannelsByTag cs = map AggregateRow ?rows"
    by (simp add: aggregate_rows)
  moreover have "map c_key ?rows = uniq (map channel_tag cs)"
    by (simp add: tag_row_key comp_def)
  moreover have "\<forall>r\<in>set ?rows. row_documented cs r"
    using assms by (auto simp: tag_row_documented)
  ultimately show ?thesis by blast
qed

definition sample_channel :: "string \<Rightarrow> int \<Rightarrow> string \<Rightarrow> Channel" where
  "sample_channel tag priority groups =
     \<lparr>c_id = NumId 7, c_type = 1, c_key = ''k'', c_openai_organization = None, c_test_model = None,
      c_status = Some 2, c_name = ''n'', c_weight = OInt 0, c_created_time = 1, c_test_time = 1,
      c_response_time = Fin 300, c_base_url = None, c_other = [], c_balance = Fin 5,
      c_balance_updated_time = 1, c_models = ''m'', c_group = groups, c_used_quota = Fin 10,
      c_model_mapping = None, c_status_code_mapping = None, c_priority = OInt priority,
      c_auto_ban = OInt 1, c_other_info = [], c_tag = Some tag, c_setting = None,
      c_param_override = None, c_header_override = None, c_remark = [], c_max_input_tokens = 0,
      c_channel_info = None, c_settings = []\<rparr>"

theorem aggregate_by_tag_witness:
  "\<exists>r. aggregateChannelsByTag [sample_channel ''a'' 3 ''vip'', sample_channel ''a'' 4 ''vip,default''] =
       [AggregateRow r] \<and>
     tr_children r = [sample_channel ''a'' 3 ''vip'', sample_channel ''a'' 4 ''vip,default''] \<and>
     c_priority r = ONull \<and> group_entries (c_group r) = [''vip'', ''default'']"
proof -
  let ?cs = "[sample_channel ''a'' 3 ''vip'', sample_channel ''a'' 4 ''vip,default'']"
  have tag: "channel_tag (sample_channel t p g) = t" for t p g
    by (simp add: sample_channel_def channel_tag_def str_or_def)
  have f: "c_group (sample_channel t p g) = g" "c_priority (sample_channel t p g) = OInt p"
    "c_weight (sample_channel t p g) = OInt 0" for t p g by (simp_all add: sample_channel_def)
  have g: "group_entries ''vip'' = [''vip'']" "group_entries ''vip,default'' = [''vip'', ''default'']" by code_simp+
  have "\<forall>c\<in>set ?cs. plain_channel c" by (simp add: plain_channel_def f g)
  then obtain r where r: "aggregateChannelsByTag ?cs = [AggregateRow r]" "c_key r = ''a''" "row_documented ?cs r"
    using aggregate_by_tag [of ?cs] by (auto simp: tag)
  then show ?thesis using row_documentedD [OF r(3)] by (simp add: tag f g same_or_null_def)
qed

text \<open>Without that condition the row differs from the comments: priorities \<open>-1\<close> and 5 are shown as 5, and a
  group the first channel lists twice stays repeated.\<close>

lemma unset_priority_shown:
  "foldl aggregate_same (OInt (- 1)) [OInt (- 1), OInt 5] = OInt 5"
  "same_or_null [OInt (- 1), OInt 5] = ONull"
  "group_entries (foldl aggregate_group [] [''vip,vip'']) = [''vip'', ''vip'']"
  by code_simp+

section \<open>Accuracy of the aggregated numbers\<close>

lemma fround_between:
  assumes "\<bar>a\<bar> \<le> 2 ^ 53" "\<bar>b\<bar> \<le> 2 ^ 53" "of_int a \<le> x" "x \<le> of_int b"
  shows "\<exists>r. fround x = Fin r \<and> of_int a \<le> r \<and> r \<le> of_int b"
proof -
  have "of_int b \<le> (of_int (2 ^ 53) :: rat)" "of_int (- (2 ^ 53)) \<le> (of_int a :: rat)"
    unfolding of_int_le_iff using assms(1,2) by linarith+
  then have "\<bar>x\<bar> \<le> 2 ^ 53" using assms(3,4) by (simp add: abs_le_iff)
  also have "(2 ^ 53 :: rat) < 2 powi 1000" by (simp add: power_int_def)
  finally obtain r where r: "fround x = Fin r" using fround_finite by blast
  have "\<bar>r - x\<bar> \<le> \<bar>of_int a - x\<bar>" "\<bar>r - x\<bar> \<le> \<bar>of_int b - x\<bar>"
    using fround_nearest [OF r] binary64_int assms(1,2) by blast+
  then have "of_int a \<le> r \<and> r \<le> of_int b" using assms(3,4) by linarith
  with r show ?thesis by blast
qed

lemma scale_bound:
  assumes "int (Suc n) * \<bar>m\<bar> \<le> B"
  shows "\<bar>m * int n\<bar> \<le> B \<and> \<bar>m * int (Suc n)\<bar> \<le> B \<and> \<bar>m\<bar> \<le> B"
proof -
  have "0 \<le> \<bar>m\<bar> * int n" by simp
  moreover have "\<bar>m\<bar> * int n + \<bar>m\<bar> \<le> B" using assms by (simp add: algebra_simps)
  moreover have "\<bar>m * int (Suc n)\<bar> = \<bar>m\<bar> * int n + \<bar>m\<bar>" by (simp only: abs_mult) (simp add: algebra_simps)
  moreover have "\<bar>m * int n\<bar> = \<bar>m\<bar> * int n" by (simp add: abs_mult)
  ultimately show ?thesis by linarith
qed

lemma aggregate_average_between:
  assumes b: "int (Suc n) * \<bar>m\<bar> \<le> 2 ^ 53" "int (Suc n) * \<bar>M\<bar> \<le> 2 ^ 53"
    and t: "of_int m \<le> t" "t \<le> of_int M"
    and x: "n = 0 \<or> of_int m \<le> x \<and> x \<le> of_int M"
  shows "\<exists>r. aggregate_average (Fin x) (Suc n) (Fin t) = Fin r \<and> of_int m \<le> r \<and> r \<le> of_int M"
proof -
  have le: "\<bar>m * int n\<bar> \<le> 2 ^ 53" "\<bar>M * int n\<bar> \<le> 2 ^ 53" "\<bar>m * int (Suc n)\<bar> \<le> 2 ^ 53" "\<bar>M * int (Suc n)\<bar> \<le> 2 ^ 53"
    "\<bar>m\<bar> \<le> 2 ^ 53" "\<bar>M\<bar> \<le> 2 ^ 53"
    using scale_bound [OF b(1)] scale_bound [OF b(2)] by blast+
  have "of_int (m * int n) \<le> x * of_nat n \<and> x * of_nat n \<le> of_int (M * int n)"
    using x by (auto intro: mult_right_mono)
  then obtain p where p: "fround (x * of_nat n) = Fin p" "of_int (m * int n) \<le> p" "p \<le> of_int (M * int n)"
    using fround_between le(1,2) by blast
  have "of_int (m * int (Suc n)) \<le> p + t" "p + t \<le> of_int (M * int (Suc n))"
    using p t by (simp_all add: algebra_simps)
  then obtain s where s: "fround (p + t) = Fin s" "of_int (m * int (Suc n)) \<le> s" "s \<le> of_int (M * int (Suc n))"
    using fround_between le(3,4) by blast
  have "of_int m \<le> s / of_nat (Suc n)" "s / of_nat (Suc n) \<le> of_int M"
    using s by (simp_all add: field_simps)
  then obtain r where "fround (s / of_nat (Suc n)) = Fin r" "of_int m \<le> r" "r \<le> of_int M"
    using fround_between le(5,6) by blast
  then show ?thesis using p s by (simp add: aggregate_average_def)
qed

lemma response_snoc:
  "c_response_time (foldl add_child r (ds @ [d])) =
   aggregate_average (c_response_time (foldl add_child r ds)) (Suc (length (tr_children r @ ds))) (c_response_time d)"
  by (simp add: add_child_def Let_def children_foldl)

lemma response_between:
  assumes "\<forall>d\<in>set ds. \<exists>x. c_response_time d = Fin x \<and> of_int m \<le> x \<and> x \<le> of_int M"
    and "int (length ds) * \<bar>m\<bar> \<le> 2 ^ 53" "int (length ds) * \<bar>M\<bar> \<le> 2 ^ 53" "ds \<noteq> []"
  shows "\<exists>x. c_response_time (foldl add_child (new_tag_row t c) ds) = Fin x \<and> of_int m \<le> x \<and> x \<le> of_int M"
  using assms
proof (induction ds rule: rev_induct)
  case (snoc d ds)
  let ?r = "foldl add_child (new_tag_row t c) ds"
  obtain y where y: "c_response_time d = Fin y" "of_int m \<le> y" "y \<le> of_int M" using snoc.prems(1) by auto
  have le: "int (length ds) * \<bar>m\<bar> \<le> 2 ^ 53" "int (length ds) * \<bar>M\<bar> \<le> 2 ^ 53"
    using snoc.prems(2,3) by (simp_all add: algebra_simps)
  obtain x where "c_response_time ?r = Fin x" "length ds = 0 \<or> of_int m \<le> x \<and> x \<le> of_int M"
    using snoc.IH snoc.prems(1) le by (cases "ds = []") (auto simp: new_tag_row_fields)
  then show ?case
    using aggregate_average_between [of "length ds" m M y x] snoc.prems(2,3) y
    by (simp add: response_snoc new_tag_row_fields del: foldl_append)
qed simp

lemma quota_sum:
  assumes "\<forall>d\<in>set ds. c_used_quota d = Fin (of_int (q d)) \<and> 0 \<le> q d" "0 \<le> a"
    "a + sum_list (map q ds) \<le> 2 ^ 53"
  shows "foldl js_add (Fin (of_int a)) (map c_used_quota ds) = Fin (of_int (a + sum_list (map q ds)))"
  using assms
proof (induction ds arbitrary: a)
  case (Cons d ds)
  then have "0 \<le> sum_list (map q ds)" by (intro sum_list_nonneg) auto
  then have "fround (of_int (a + q d)) = Fin (of_int (a + q d))"
    using Cons.prems by (intro fround_int) auto
  then show ?case using Cons.IH [of "a + q d"] Cons.prems by (simp add: add.assoc)
qed simp

text \<open>C18: The averaged response time of a tag row lies between the least and the greatest response time of
  its children, in spite of the rounding at every step, and the quota of the row is the exact sum, as long as
  the totals stay below \<open>2 ^ 53\<close>.\<close>

theorem tag_row_numbers:
  assumes "AggregateRow r \<in> set (aggregateChannelsByTag cs)"
    and "\<forall>d\<in>set (tr_children r). \<exists>x. c_response_time d = Fin x \<and> of_int m \<le> x \<and> x \<le> of_int M"
    and "int (length (tr_children r)) * \<bar>m\<bar> \<le> 2 ^ 53" "int (length (tr_children r)) * \<bar>M\<bar> \<le> 2 ^ 53"
    and "\<forall>d\<in>set (tr_children r). c_used_quota d = Fin (of_int (q d)) \<and> 0 \<le> q d"
    and "sum_list (map q (tr_children r)) \<le> 2 ^ 53"
  shows "(\<exists>x. c_response_time r = Fin x \<and> of_int m \<le> x \<and> x \<le> of_int M) \<and>
    c_used_quota r = Fin (of_int (sum_list (map q (tr_children r))))"
proof -
  obtain c where c: "c \<in> set cs" and r: "r = tag_row (channel_tag c) (of_tag (channel_tag c) cs)"
    using assms(1) by (auto simp: aggregate_rows)
  define ds where "ds = of_tag (channel_tag c) cs"
  have "ds \<noteq> []" using c by (auto simp: ds_def of_tag_Nil_iff)
  moreover have k: "tr_children r = ds" by (simp add: r ds_def tag_row_def tag_row_fields)
  ultimately have "\<exists>x. c_response_time r = Fin x \<and> of_int m \<le> x \<and> x \<le> of_int M"
    using response_between [of ds m M] assms(2-4) by (simp add: r ds_def [symmetric] tag_row_def)
  moreover have "c_used_quota r = Fin (of_int (sum_list (map q ds)))"
    using quota_sum [of ds q 0] assms(5,6) unfolding k
    by (simp add: r ds_def [symmetric] tag_row_def tag_row_fields)
  ultimately show ?thesis by (simp add: k)
qed

theorem tag_row_numbers_witness:
  "\<exists>r x. aggregateChannelsByTag [sample_channel ''a'' 3 ''vip'', sample_channel ''a'' 4 ''vip''] = [AggregateRow r] \<and>
     c_response_time r = Fin x \<and> 300 \<le> x \<and> x \<le> 300 \<and> c_used_quota r = Fin 20"
proof -
  let ?cs = "[sample_channel ''a'' 3 ''vip'', sample_channel ''a'' 4 ''vip'']"
  have tag: "channel_tag (sample_channel t p g) = t" and time: "c_response_time (sample_channel t p g) = Fin 300"
    and quota: "c_used_quota (sample_channel t p g) = Fin 10" for t p g
    by (simp_all add: sample_channel_def channel_tag_def str_or_def)
  obtain r where r: "aggregateChannelsByTag ?cs = [AggregateRow r]" "tr_children r = ?cs"
    using children_foldl [of "new_tag_row ''a'' (hd ?cs)" ?cs]
    by (simp add: aggregate_rows tag of_tag_def tag_row_def new_tag_row_fields)
  show ?thesis
    using tag_row_numbers [of r ?cs 300 300 "\<lambda>_. 10"] r
    by (simp add: time quota)
qed

section \<open>Selector options and keys\<close>

lemma channel_types_distinct: "distinct (map fst CHANNEL_TYPES)"
  by (simp add: CHANNEL_TYPES_def)

lemma display_order_distinct: "distinct CHANNEL_TYPE_DISPLAY_ORDER \<and> 0 \<notin> set CHANNEL_TYPE_DISPLAY_ORDER"
  by (simp add: CHANNEL_TYPE_DISPLAY_ORDER_def)

lemma channel_labels: "(i, label) \<in> set CHANNEL_TYPES \<Longrightarrow> label \<noteq> []"
  by (auto simp: CHANNEL_TYPES_def)

lemma ordered_options_iff:
  "(i, label) \<in> set ordered_options \<longleftrightarrow> i \<in> set CHANNEL_TYPE_DISPLAY_ORDER \<and> (i, label) \<in> set CHANNEL_TYPES"
proof -
  have f: "(case map_of CHANNEL_TYPES j of Some l \<Rightarrow> if l \<noteq> [] then Some (j, l) else None | None \<Rightarrow> None) =
      Some (i, label) \<longleftrightarrow> j = i \<and> map_of CHANNEL_TYPES i = Some label \<and> label \<noteq> []" for j
    by (cases "map_of CHANNEL_TYPES j") auto
  have "(i, label) \<in> set ordered_options \<longleftrightarrow>
      i \<in> set CHANNEL_TYPE_DISPLAY_ORDER \<and> map_of CHANNEL_TYPES i = Some label \<and> label \<noteq> []"
    unfolding ordered_options_def set_map_filter_iff f by blast
  then show ?thesis unfolding map_of_eq_Some_iff [OF channel_types_distinct] using channel_labels by blast
qed

text \<open>The selector offers every channel type but the unknown one.\<close>

lemma CHANNEL_TYPE_OPTIONS_complete:
  "(i, label) \<in> set CHANNEL_TYPE_OPTIONS \<longleftrightarrow> (i, label) \<in> set CHANNEL_TYPES \<and> i \<noteq> 0"
proof -
  have o: "(i, label) \<in> set CHANNEL_TYPE_OPTIONS \<longleftrightarrow>
      (i, label) \<in> set ordered_options \<or> (i, label) \<in> set CHANNEL_TYPES \<and> i \<noteq> 0 \<and> i \<notin> fst ` set ordered_options"
    unfolding CHANNEL_TYPE_OPTIONS_def Let_def by simp
  have m: "i \<in> fst ` set ordered_options \<longleftrightarrow> (\<exists>l. (i, l) \<in> set ordered_options)" by force
  show ?thesis unfolding o m ordered_options_iff using display_order_distinct by blast
qed

lemma key_steps: "foldl key_step [] ls = uniq (filter_boolean (map trim ls))"
proof (induction ls rule: rev_induct)
  case Nil
  then show ?case by (simp add: filter_boolean_def)
next
  case (snoc l ls)
  then show ?case by (simp add: key_step_def Let_def uniq_snoc filter_boolean_def)
qed

text \<open>The keys kept are the trimmed, non-empty lines without repetitions; a second pass removes nothing.\<close>

lemma deduplicateKeys_lines:
  assumes "trim s \<noteq> []"
  shows "filter_boolean (split_char CHR 0x0A (deduplicatedText (deduplicateKeys s))) =
     uniq (filter_boolean (map trim (split_char CHR 0x0A s)))"
    and "afterCount (deduplicateKeys s) + removedCount (deduplicateKeys s) = beforeCount (deduplicateKeys s)"
proof -
  define ks where "ks = uniq (filter_boolean (map trim (split_char CHR 0x0A s)))"
  have "k \<noteq> [] \<and> CHR 0x0A \<notin> set k" if k: "k \<in> set ks" for k
  proof -
    obtain l where "l \<in> set (split_char CHR 0x0A s)" "k = trim l" "k \<noteq> []"
      using k unfolding ks_def filter_boolean_def set_uniq set_filter set_map by blast
    then show ?thesis using split_char_free set_trim by blast
  qed
  then have free: "\<forall>k\<in>set ks. k \<noteq> []" "\<forall>k\<in>set ks. CHR 0x0A \<notin> set k" by blast+
  have "s \<noteq> []" using assms by auto
  then have d: "deduplicateKeys s =
      \<lparr>deduplicatedText = join [CHR 0x0A] ks, beforeCount = int (length (split_char CHR 0x0A s)),
       afterCount = int (length ks), removedCount = int (length (split_char CHR 0x0A s)) - int (length ks)\<rparr>"
    unfolding deduplicateKeys_def Let_def key_steps ks_def [symmetric] using assms by simp
  have "filter_boolean (split_char CHR 0x0A (join [CHR 0x0A] ks)) = ks"
  proof (cases "ks = []")
    case True
    then show ?thesis by (simp add: filter_boolean_def)
  next
    case False
    then show ?thesis using split_char_join [OF False free(2)] filter_boolean_id [OF free(1)] by simp
  qed
  then show "filter_boolean (split_char CHR 0x0A (deduplicatedText (deduplicateKeys s))) =
      uniq (filter_boolean (map trim (split_char CHR 0x0A s)))"
    unfolding d ks_def by simp
  show "afterCount (deduplicateKeys s) + removedCount (deduplicateKeys s) = beforeCount (deduplicateKeys s)"
    unfolding d by simp
qed

end
