(* ===== verification/PricingEditor.thy ===== *)
theory PricingEditor
  imports JsFormat RequestRules
begin

text \<open>
  The model pricing editor (\<open>features/system-settings/models\<close>): number formatting of
  \<open>pricing-format.ts\<close>, the data and derivations of \<open>model-pricing-core.ts\<close> and the editor panel of
  \<open>model-pricing-sheet.tsx\<close> as a state machine.

  Prices are edited per lane as text; what is saved are ratios. The panel keeps the mode, the prompt price,
  the price and switch of every lane, the two expressions and the form with the ratios; every handler of
  the panel is a function on that state. A form value is never undefined, since the form is always reset with
  every field, so a form is a function from field names to text.
\<close>

section \<open>Formatting\<close>

definition DISPLAY_DECIMALS :: nat where "DISPLAY_DECIMALS = 12"
definition SNAP_DECIMALS :: nat where "SNAP_DECIMALS = 8"
definition SNAP_EPSILON :: jsnum where "SNAP_EPSILON = fround (1 / 10 ^ 12)"
definition NUMBER_EPSILON :: jsnum where "NUMBER_EPSILON = Fin (1 / 2 ^ 52)"

definition hasValue :: "jsval \<Rightarrow> bool" where
  "hasValue v \<longleftrightarrow> v \<noteq> JStr [] \<and> v \<noteq> JNull \<and> v \<noteq> JUndefined \<and> v \<noteq> JBool False"

definition toNumberOrNull :: "jsval \<Rightarrow> jsnum option" where
  "toNumberOrNull v =
     (if \<not> hasValue v then None
      else let num = js_Number v in if is_finite num then Some num else None)"

text \<open>\<open>10 ** decimals\<close> is exact for the exponents in use.\<close>

definition roundToDecimals :: "jsnum \<Rightarrow> nat \<Rightarrow> jsnum" where
  "roundToDecimals v decimals = (let factor = Fin (10 ^ decimals) in js_div (js_round (js_mul v factor)) factor)"

definition tolerance :: "jsnum \<Rightarrow> jsnum" where
  "tolerance v = js_max SNAP_EPSILON (js_mul (js_mul (js_abs v) NUMBER_EPSILON) (Fin 8))"

definition snaps :: "jsnum \<Rightarrow> nat \<Rightarrow> bool" where
  "snaps v decimals = js_le (js_abs (js_sub v (roundToDecimals v decimals))) (tolerance v)"

definition snapFloatDrift :: "jsnum \<Rightarrow> jsnum" where
  "snapFloatDrift v =
     (case filter (snaps v) [0..<SNAP_DECIMALS + 1] of
        [] \<Rightarrow> v
      | decimals # _ \<Rightarrow> roundToDecimals v decimals)"

definition formatPricingNumber :: "jsval \<Rightarrow> string" where
  "formatPricingNumber v =
     (case toNumberOrNull v of
        None \<Rightarrow> []
      | Some num \<Rightarrow> js_String (parse_float (to_fixed DISPLAY_DECIMALS (snapFloatDrift num))))"

section \<open>Data of the editor\<close>

datatype PricingMode = PerToken | PerRequest | TieredExpr

datatype LaneKey = Completion | Cache | CreateCache | Image | AudioInput | AudioOutput

datatype FieldKey = FName | FPrice | FRatio | FCacheRatio | FCreateCacheRatio | FCompletionRatio
  | FImageRatio | FAudioRatio | FAudioCompletionRatio

type_synonym ModelPricingFormValues = "FieldKey \<Rightarrow> string"

record ModelRatioData =
  rd_name :: string
  rd_price :: "string option"
  rd_ratio :: "string option"
  rd_cacheRatio :: "string option"
  rd_createCacheRatio :: "string option"
  rd_completionRatio :: "string option"
  rd_imageRatio :: "string option"
  rd_audioRatio :: "string option"
  rd_audioCompletionRatio :: "string option"
  rd_billingMode :: "PricingMode option"
  rd_billingExpr :: "string option"
  rd_requestRuleExpr :: "string option"

record PreviewRow =
  pr_key :: string
  pr_label :: string
  pr_value :: string
  pr_multiline :: bool

definition draft_digits :: rx where
  "draft_digits = Plus (Cls is_digit)"

definition numericDraftRegex :: rx where
  "numericDraftRegex =
     seqs [Bol, Opt (Alt (seqs [draft_digits, Opt (seqs [lit ''.'', Star (Cls is_digit)])]) (seqs [lit ''.'', Star (Cls is_digit)])), Eol]"

definition EMPTY_LANE_PRICES :: "LaneKey \<Rightarrow> string" where "EMPTY_LANE_PRICES = (\<lambda>_. [])"
definition EMPTY_LANE_ENABLED :: "LaneKey \<Rightarrow> bool" where "EMPTY_LANE_ENABLED = (\<lambda>_. False)"

fun ratioFieldByLane :: "LaneKey \<Rightarrow> FieldKey" where
  "ratioFieldByLane Completion = FCompletionRatio"
| "ratioFieldByLane Cache = FCacheRatio"
| "ratioFieldByLane CreateCache = FCreateCacheRatio"
| "ratioFieldByLane Image = FImageRatio"
| "ratioFieldByLane AudioInput = FAudioRatio"
| "ratioFieldByLane AudioOutput = FAudioCompletionRatio"

text \<open>The keys of \<open>laneConfigs\<close>, in order; titles and placeholders are only displayed.\<close>

definition laneConfigs :: "LaneKey list" where
  "laneConfigs = [Completion, Cache, CreateCache, Image, AudioInput, AudioOutput]"

definition opt_val :: "string option \<Rightarrow> jsval" where
  "opt_val s = (case s of None \<Rightarrow> JUndefined | Some t \<Rightarrow> JStr t)"

definition opt_text :: "string option \<Rightarrow> string" where
  "opt_text s = (case s of None \<Rightarrow> [] | Some t \<Rightarrow> t)"

definition ratioToBasePrice :: "jsval \<Rightarrow> string" where
  "ratioToBasePrice ratio =
     (case toNumberOrNull ratio of None \<Rightarrow> [] | Some num \<Rightarrow> formatPricingNumber (JNum (js_mul num (Fin 2))))"

definition deriveLanePrice :: "jsval \<Rightarrow> jsval \<Rightarrow> string" where
  "deriveLanePrice ratio denominator =
     (case (toNumberOrNull ratio, toNumberOrNull denominator) of
        (Some ratioNumber, Some denominatorNumber) \<Rightarrow> formatPricingNumber (JNum (js_mul ratioNumber denominatorNumber))
      | _ \<Rightarrow> [])"

record LaneState =
  ls_promptPrice :: string
  ls_prices :: "LaneKey \<Rightarrow> string"
  ls_enabled :: "LaneKey \<Rightarrow> bool"

fun lane_ratio :: "ModelRatioData \<Rightarrow> LaneKey \<Rightarrow> jsval" where
  "lane_ratio data Completion = opt_val (rd_completionRatio data)"
| "lane_ratio data Cache = opt_val (rd_cacheRatio data)"
| "lane_ratio data CreateCache = opt_val (rd_createCacheRatio data)"
| "lane_ratio data Image = opt_val (rd_imageRatio data)"
| "lane_ratio data AudioInput = opt_val (rd_audioRatio data)"
| "lane_ratio data AudioOutput = opt_val (rd_audioCompletionRatio data)"

definition createInitialLaneState :: "ModelRatioData option \<Rightarrow> LaneState" where
  "createInitialLaneState data =
     (case data of
        None \<Rightarrow> \<lparr>ls_promptPrice = [], ls_prices = EMPTY_LANE_PRICES, ls_enabled = EMPTY_LANE_ENABLED\<rparr>
      | Some d \<Rightarrow>
          let promptPrice = ratioToBasePrice (opt_val (rd_ratio d));
              audioInputPrice = deriveLanePrice (lane_ratio d AudioInput) (JStr promptPrice)
          in \<lparr>ls_promptPrice = promptPrice,
              ls_prices = (\<lambda>lane.
                 if lane = AudioInput then audioInputPrice
                 else if lane = AudioOutput then deriveLanePrice (lane_ratio d AudioOutput) (JStr audioInputPrice)
                 else deriveLanePrice (lane_ratio d lane) (JStr promptPrice)),
              ls_enabled = (\<lambda>lane. hasValue (lane_ratio d lane))\<rparr>)"

definition preview_price :: "(string \<Rightarrow> string) \<Rightarrow> bool \<Rightarrow> string \<Rightarrow> string" where
  "preview_price t enabled price = (if enabled \<and> price \<noteq> [] then ''$'' @ price else t ''Empty'')"

definition preview_row :: "string \<Rightarrow> string \<Rightarrow> string \<Rightarrow> PreviewRow" where
  "preview_row k l v = \<lparr>pr_key = k, pr_label = l, pr_value = v, pr_multiline = False\<rparr>"

definition buildPreviewRows ::
  "ModelPricingFormValues \<Rightarrow> PricingMode \<Rightarrow> string \<Rightarrow> string \<Rightarrow> string \<Rightarrow> (LaneKey \<Rightarrow> string) \<Rightarrow> (LaneKey \<Rightarrow> bool) \<Rightarrow>
   (string \<Rightarrow> string) \<Rightarrow> PreviewRow list" where
  "buildPreviewRows values mode billingExpr requestRuleExpr promptPrice lanePrices laneEnabled t =
     (case mode of
        TieredExpr \<Rightarrow>
          let effectiveExpr = combineBillingExpr billingExpr requestRuleExpr
          in [preview_row ''mode'' ''BillingMode'' ''tiered_expr'',
              \<lparr>pr_key = ''expr'', pr_label = t ''Expression'', pr_value = str_or effectiveExpr (t ''Empty''), pr_multiline = True\<rparr>]
      | PerRequest \<Rightarrow> [preview_row ''price'' ''ModelPrice'' (str_or (values FPrice) (t ''Empty''))]
      | PerToken \<Rightarrow>
          let lane = (\<lambda>l. preview_price t (laneEnabled l) (lanePrices l))
          in [preview_row ''inputPrice'' (t ''Input price'') (preview_price t True promptPrice),
              preview_row ''completion'' (t ''Completion price'') (lane Completion),
              preview_row ''cache'' (t ''Cache read price'') (lane Cache),
              preview_row ''createCache'' (t ''Cache write price'') (lane CreateCache),
              preview_row ''image'' (t ''Image input price'') (lane Image),
              preview_row ''audio'' (t ''Audio input price'') (lane AudioInput),
              preview_row ''audioCompletion'' (t ''Audio output price'') (lane AudioOutput)])"

section \<open>The panel\<close>

record PricingPanel =
  pricingMode :: PricingMode
  promptPrice :: string
  lanePrices :: "LaneKey \<Rightarrow> string"
  laneEnabled :: "LaneKey \<Rightarrow> bool"
  pp_billingExpr :: string
  pp_requestRuleExpr :: string
  pp_form :: ModelPricingFormValues

fun form_of :: "ModelRatioData \<Rightarrow> FieldKey \<Rightarrow> string" where
  "form_of d FName = rd_name d"
| "form_of d FPrice = opt_text (rd_price d)"
| "form_of d FRatio = opt_text (rd_ratio d)"
| "form_of d FCacheRatio = opt_text (rd_cacheRatio d)"
| "form_of d FCreateCacheRatio = opt_text (rd_createCacheRatio d)"
| "form_of d FCompletionRatio = opt_text (rd_completionRatio d)"
| "form_of d FImageRatio = opt_text (rd_imageRatio d)"
| "form_of d FAudioRatio = opt_text (rd_audioRatio d)"
| "form_of d FAudioCompletionRatio = opt_text (rd_audioCompletionRatio d)"

definition openPanel :: "ModelRatioData option \<Rightarrow> PricingPanel" where
  "openPanel editData =
     (let nextLaneState = createInitialLaneState editData in
      \<lparr>pricingMode = (case editData of
           None \<Rightarrow> PerToken
         | Some d \<Rightarrow> if rd_billingMode d = Some TieredExpr then TieredExpr
                    else if opt_text (rd_price d) \<noteq> [] then PerRequest else PerToken),
       promptPrice = ls_promptPrice nextLaneState,
       lanePrices = ls_prices nextLaneState,
       laneEnabled = ls_enabled nextLaneState,
       pp_billingExpr = (case editData of None \<Rightarrow> [] | Some d \<Rightarrow> opt_text (rd_billingExpr d)),
       pp_requestRuleExpr = (case editData of None \<Rightarrow> [] | Some d \<Rightarrow> opt_text (rd_requestRuleExpr d)),
       pp_form = (case editData of None \<Rightarrow> (\<lambda>_. []) | Some d \<Rightarrow> form_of d)\<rparr>)"

definition setFormValue :: "FieldKey \<Rightarrow> string \<Rightarrow> PricingPanel \<Rightarrow> PricingPanel" where
  "setFormValue field v p = p\<lparr>pp_form := (pp_form p)(field := v)\<rparr>"

definition quotient_text :: "jsnum \<Rightarrow> jsval \<Rightarrow> string" where
  "quotient_text priceNumber denominator =
     (case toNumberOrNull denominator of
        None \<Rightarrow> []
      | Some n \<Rightarrow> if n = Fin 0 then [] else formatPricingNumber (JNum (js_div priceNumber n)))"

definition deriveLaneRatio :: "LaneKey \<Rightarrow> string \<Rightarrow> string \<Rightarrow> (LaneKey \<Rightarrow> string) \<Rightarrow> string" where
  "deriveLaneRatio lane price nextPromptPrice nextLanePrices =
     (case toNumberOrNull (JStr price) of
        None \<Rightarrow> []
      | Some priceNumber \<Rightarrow>
          if lane = AudioOutput then quotient_text priceNumber (JStr (nextLanePrices AudioInput))
          else quotient_text priceNumber (JStr nextPromptPrice))"

definition base_ratio :: "string \<Rightarrow> string" where
  "base_ratio price =
     (case toNumberOrNull (JStr price) of None \<Rightarrow> [] | Some n \<Rightarrow> formatPricingNumber (JNum (js_div n (Fin 2))))"

definition syncLaneRatios ::
  "string \<Rightarrow> (LaneKey \<Rightarrow> string) \<Rightarrow> (LaneKey \<Rightarrow> bool) \<Rightarrow> PricingPanel \<Rightarrow> PricingPanel" where
  "syncLaneRatios nextPromptPrice nextLanePrices nextLaneEnabled p =
     fold (\<lambda>key. setFormValue (ratioFieldByLane key)
             (if nextLaneEnabled key then deriveLaneRatio key (nextLanePrices key) nextPromptPrice nextLanePrices else []))
       laneConfigs (setFormValue FRatio (base_ratio nextPromptPrice) p)"

definition handlePromptPriceChange :: "string \<Rightarrow> PricingPanel \<Rightarrow> PricingPanel" where
  "handlePromptPriceChange v p =
     (if \<not> rx_test numericDraftRegex v then p
      else syncLaneRatios v (lanePrices p) (laneEnabled p) (p\<lparr>promptPrice := v\<rparr>))"

definition handleLanePriceChange :: "LaneKey \<Rightarrow> string \<Rightarrow> PricingPanel \<Rightarrow> PricingPanel" where
  "handleLanePriceChange lane v p =
     (if \<not> rx_test numericDraftRegex v then p
      else
        let nextLanePrices = (lanePrices p)(lane := v);
            p1 = p\<lparr>lanePrices := nextLanePrices\<rparr>;
            p2 = (if laneEnabled p lane
                  then setFormValue (ratioFieldByLane lane) (deriveLaneRatio lane v (promptPrice p) nextLanePrices) p1
                  else p1)
        in if lane = AudioInput \<and> laneEnabled p AudioOutput
           then setFormValue FAudioCompletionRatio
                  (deriveLaneRatio AudioOutput (nextLanePrices AudioOutput) (promptPrice p) nextLanePrices) p2
           else p2)"

definition handlePriceChange :: "string \<Rightarrow> PricingPanel \<Rightarrow> PricingPanel" where
  "handlePriceChange v p = (if rx_test numericDraftRegex v then setFormValue FPrice v p else p)"

definition handleLaneToggle :: "LaneKey \<Rightarrow> bool \<Rightarrow> PricingPanel \<Rightarrow> PricingPanel" where
  "handleLaneToggle lane checked p =
     (if checked then
        setFormValue (ratioFieldByLane lane) (deriveLaneRatio lane (lanePrices p lane) (promptPrice p) (lanePrices p))
          (p\<lparr>laneEnabled := (laneEnabled p)(lane := True)\<rparr>)
      else
        let p1 = setFormValue (ratioFieldByLane lane) [] p in
        if lane = AudioInput then
          (setFormValue FAudioCompletionRatio [] p1)
            \<lparr>laneEnabled := (laneEnabled p)(lane := False, AudioOutput := False),
             lanePrices := (lanePrices p)(lane := [], AudioOutput := [])\<rparr>
        else p1\<lparr>laneEnabled := (laneEnabled p)(lane := False), lanePrices := (lanePrices p)(lane := [])\<rparr>)"

definition default_expr :: string where
  "default_expr = ''tier('' @ [CHR 0x22] @ ''base'' @ [CHR 0x22] @ '', p * 0 + c * 0)''"

definition handleModeChange :: "PricingMode \<Rightarrow> PricingPanel \<Rightarrow> PricingPanel" where
  "handleModeChange nextMode p =
     (let p1 = p\<lparr>pricingMode := nextMode\<rparr>
      in if nextMode = TieredExpr \<and> pp_billingExpr p = [] then p1\<lparr>pp_billingExpr := default_expr\<rparr> else p1)"

definition missing_input_price :: "PricingPanel \<Rightarrow> bool" where
  "missing_input_price p \<longleftrightarrow>
     pricingMode p = PerToken \<and> toNumberOrNull (JStr (promptPrice p)) = None \<and>
     list_ex (\<lambda>key. laneEnabled p key \<and> hasValue (JStr (lanePrices p key))) laneConfigs"

definition missing_audio_price :: "PricingPanel \<Rightarrow> bool" where
  "missing_audio_price p \<longleftrightarrow>
     pricingMode p = PerToken \<and> laneEnabled p AudioOutput \<and> \<not> hasValue (JStr (lanePrices p AudioInput))"

definition warnings :: "(string \<Rightarrow> string) \<Rightarrow> ModelRatioData option \<Rightarrow> PricingPanel \<Rightarrow> string list" where
  "warnings t editData p =
     (let hasConflict = (case editData of
            None \<Rightarrow> False
          | Some d \<Rightarrow> opt_text (rd_price d) \<noteq> [] \<and>
              list_ex hasValue (map opt_val [rd_ratio d, rd_completionRatio d, rd_cacheRatio d, rd_createCacheRatio d,
                rd_imageRatio d, rd_audioRatio d, rd_audioCompletionRatio d]))
      in (if hasConflict then [t ''This model has both fixed-price and token-price settings. Saving the current mode will rewrite the conflicting fields.''] else [])
       @ (if missing_input_price p then [t ''Input price is required before saving dependent prices.''] else [])
       @ (if missing_audio_price p then [t ''Audio output price requires an audio input price.''] else []))"

definition validatePricingValues :: "PricingPanel \<Rightarrow> bool" where
  "validatePricingValues p = (if missing_input_price p then False else if missing_audio_price p then False else True)"

definition buildSubmitData :: "PricingPanel \<Rightarrow> ModelRatioData" where
  "buildSubmitData p =
     (let v = pp_form p; tiered = (pricingMode p = TieredExpr) in
      \<lparr>rd_name = trim (v FName), rd_price = Some (v FPrice), rd_ratio = Some (v FRatio),
       rd_cacheRatio = Some (v FCacheRatio), rd_createCacheRatio = Some (v FCreateCacheRatio),
       rd_completionRatio = Some (v FCompletionRatio), rd_imageRatio = Some (v FImageRatio),
       rd_audioRatio = Some (v FAudioRatio), rd_audioCompletionRatio = Some (v FAudioCompletionRatio),
       rd_billingMode = Some (pricingMode p),
       rd_billingExpr = (if tiered then Some (pp_billingExpr p) else None),
       rd_requestRuleExpr = (if tiered then Some (pp_requestRuleExpr p) else None)\<rparr>)"

text \<open>The form schema asks for a non-empty name.\<close>

definition commitDraft :: "PricingPanel \<Rightarrow> ModelRatioData option" where
  "commitDraft p =
     (if pp_form p FName = [] \<or> \<not> validatePricingValues p then None else Some (buildSubmitData p))"

section \<open>Accuracy of formatting\<close>

lemma binary64_double:
  assumes "binary64 t" and "\<bar>t\<bar> \<le> 2 powi 1000"
  shows "binary64 (2 * t)"
proof -
  obtain m k where mk: "t = of_int m * 2 powi k" "\<bar>m\<bar> < 2 ^ 53" "-1074 \<le> k" "k \<le> 971"
    using assms(1) by (auto simp: binary64_def)
  show ?thesis
  proof (cases "k = 971")
    case False
    have "2 * t = of_int m * 2 powi (k + 1)" by (simp add: mk(1) power_int_add)
    then show ?thesis using mk False by (intro binary64I [of _ m "k + 1"]) auto
  next
    case True
    have "\<bar>of_int m :: rat\<bar> * 2 powi 971 \<le> 2 powi (29 + 971)"
      using assms(2) mk(1) True by (simp add: abs_mult)
    moreover have "(2::rat) powi (29 + 971) = 2 ^ 29 * 2 powi 971"
      using power_int_add [of "2::rat" 29 971] by simp
    ultimately have "\<bar>of_int m :: rat\<bar> * 2 powi 971 \<le> 2 ^ 29 * 2 powi 971" by (simp only:)
    then have "\<bar>of_int m :: rat\<bar> \<le> 2 ^ 29" by (simp only: mult_le_cancel_right_pos zero_less_power_int zero_less_numeral)
    then have "\<bar>m\<bar> \<le> 2 ^ 29" by (metis of_int_abs of_int_le_iff of_int_numeral of_int_power)
    then show ?thesis using mk True by (intro binary64I [of _ "2 * m" k]) auto
  qed
qed

lemma fround_le_double:
  assumes "fround y = Fin f" and "0 \<le> y"
  shows "0 \<le> f \<and> f \<le> 2 * y"
  using fround_nearest [OF assms(1) binary64_0] assms(2) by (simp add: abs_if split: if_splits)

lemma SNAP_EPSILON_bounds: "\<exists>s. SNAP_EPSILON = Fin s \<and> 0 < s \<and> s \<le> 2 / 10 ^ 12 \<and> binary64 s"
proof -
  have "\<bar>1 / 10 ^ 12 :: rat\<bar> < 2 powi 1000" by simp
  then obtain s where s: "fround (1 / 10 ^ 12) = Fin s" using fround_finite by blast
  have "fround (1 / 10 ^ 12) \<noteq> Fin 0" by code_simp
  then show ?thesis
    using s fround_le_double [OF s] fround_Fin_binary64 [OF s] by (auto simp: SNAP_EPSILON_def order_le_less)
qed

lemma tolerance_bounds:
  assumes "binary64 x"
  shows "\<exists>t. tolerance (Fin x) = Fin t \<and> binary64 t \<and> 0 < t \<and> t \<le> 2 / 10 ^ 12 + \<bar>x\<bar> / 2 ^ 47"
proof -
  obtain s where s: "SNAP_EPSILON = Fin s" "0 < s" "s \<le> 2 / 10 ^ 12" "binary64 s" using SNAP_EPSILON_bounds by blast
  have "\<bar>x\<bar> < 10 powi 309" using binary64_less_pow10 [of "\<bar>x\<bar>"] assms by simp
  also have "(10 powi 309 :: rat) < 2 powi 1027" by simp
  finally have x: "\<bar>x\<bar> < 2 powi 1027" .
  then have "\<bar>\<bar>x\<bar> * (1 / 2 ^ 52)\<bar> < 2 powi 1000" by (simp add: abs_mult field_simps)
  then obtain a where a: "fround (\<bar>x\<bar> * (1 / 2 ^ 52)) = Fin a" using fround_finite by blast
  note A = fround_le_double [OF a]
  have "\<bar>a * 8\<bar> < 2 powi 1000" using A x by (simp add: field_simps)
  then obtain b where b: "fround (a * 8) = Fin b" using fround_finite by blast
  note B = fround_le_double [OF b]
  have "b \<le> \<bar>x\<bar> / 2 ^ 47" using A B by (simp add: field_simps)
  moreover have "tolerance (Fin x) = Fin (max s b)"
    using a b by (auto simp: tolerance_def s NUMBER_EPSILON_def js_max_def)
  moreover have "binary64 (max s b)" using s(4) fround_Fin_binary64 [OF b] by (simp add: max_def)
  moreover have "max s b \<le> 2 / 10 ^ 12 + \<bar>x\<bar> / 2 ^ 47"
    using s(3) calculation(1) by (simp add: max_def add_increasing add_increasing2)
  ultimately show ?thesis using s(2) by (intro exI [of _ "max s b"]) auto
qed

lemma wf_roundToDecimals: "wf_num (roundToDecimals v d)"
proof -
  have "wf_num (js_div w (Fin (10 ^ d)))" for w by (cases w) (auto simp: fround_wf)
  then show ?thesis by (simp add: roundToDecimals_def Let_def)
qed

lemma snap_close:
  assumes "snaps (Fin x) d" and "tolerance (Fin x) = Fin t" "binary64 t" "0 < t" "t \<le> 2 powi 1000"
  shows "\<exists>r. roundToDecimals (Fin x) d = Fin r \<and> binary64 r \<and> \<bar>r - x\<bar> \<le> 2 * t"
proof -
  have le: "js_le (js_abs (js_sub (Fin x) (roundToDecimals (Fin x) d))) (Fin t)"
    using assms(1,2) by (simp add: snaps_def)
  then obtain r where r: "roundToDecimals (Fin x) d = Fin r"
    by (cases "roundToDecimals (Fin x) d") (auto simp: js_sub_def js_le_def js_eq_def)
  then obtain f where f: "fround (x - r) = Fin f" "\<bar>f\<bar> \<le> t"
    using le by (cases "fround (x - r)") (auto simp: js_sub_def js_le_def js_eq_def)
  have d: "binary64 (2 * t)" "binary64 (- (2 * t))" using binary64_double assms(3-5) by auto
  have "\<bar>r - x\<bar> \<le> 2 * t"
  proof (rule ccontr)
    assume "\<not> \<bar>r - x\<bar> \<le> 2 * t"
    then consider "2 * t < x - r" | "x - r < - (2 * t)" by linarith
    then show False
    proof cases
      case 1
      then show ?thesis using fround_nearest [OF f(1) d(1)] f(2) assms(4) by linarith
    next
      case 2
      then show ?thesis using fround_nearest [OF f(1) d(2)] f(2) assms(4) by linarith
    qed
  qed
  then show ?thesis using r wf_roundToDecimals [of "Fin x" d] by simp
qed

lemma snapFloatDrift_close:
  assumes "binary64 x"
  shows "\<exists>r. snapFloatDrift (Fin x) = Fin r \<and> binary64 r \<and> \<bar>r - x\<bar> \<le> 4 / 10 ^ 12 + \<bar>x\<bar> / 2 ^ 46"
proof -
  obtain t where t: "tolerance (Fin x) = Fin t" "binary64 t" "0 < t" "t \<le> 2 / 10 ^ 12 + \<bar>x\<bar> / 2 ^ 47"
    using tolerance_bounds [OF assms] by blast
  have "\<bar>x\<bar> < 10 powi 309" using binary64_less_pow10 [of "\<bar>x\<bar>"] assms by simp
  also have "(10 powi 309 :: rat) < 2 powi 1027" by simp
  finally have "2 / 10 ^ 12 + \<bar>x\<bar> / 2 ^ 47 \<le> 2 powi 1000" by (simp add: field_simps)
  then have small: "t \<le> 2 powi 1000" using t(4) by linarith
  show ?thesis
  proof (cases "filter (snaps (Fin x)) [0..<SNAP_DECIMALS + 1]")
    case Nil
    then show ?thesis using assms by (simp add: snapFloatDrift_def add_nonneg_nonneg)
  next
    case (Cons d ds)
    then have "snaps (Fin x) d" by (metis filter_eq_ConsD)
    from snap_close [OF this t(1-3) small] obtain r where
      "roundToDecimals (Fin x) d = Fin r" "binary64 r" "\<bar>r - x\<bar> \<le> 2 * t" by blast
    then show ?thesis using t(4) Cons by (intro exI [of _ r]) (simp add: snapFloatDrift_def)
  qed
qed

text \<open>C13: A displayed price is close to the number it stands for: reading the text back gives a number that
  differs from the original by at most \<open>5 / 10 ^ 12\<close> plus a relative error of \<open>2 ^ -46\<close>; in particular the
  text is never empty or unreadable for a finite number.\<close>

theorem formatPricingNumber_accurate:
  assumes "binary64 x"
  shows "\<exists>p. string_to_number (formatPricingNumber (JNum (Fin x))) = Fin p \<and>
    \<bar>p - x\<bar> \<le> 5 / 10 ^ 12 + \<bar>x\<bar> / 2 ^ 46"
proof -
  obtain r where r: "snapFloatDrift (Fin x) = Fin r" "binary64 r" "\<bar>r - x\<bar> \<le> 4 / 10 ^ 12 + \<bar>x\<bar> / 2 ^ 46"
    using snapFloatDrift_close [OF assms] by blast
  obtain p where p: "parse_float (to_fixed DISPLAY_DECIMALS (Fin r)) = Fin p" "\<bar>p - r\<bar> \<le> 1 / 10 ^ DISPLAY_DECIMALS"
    using to_fixed_close [OF r(2)] by blast
  have "binary64 p" using p(1) parse_float_wf by (metis wf_num.simps(1))
  then have "string_to_number (formatPricingNumber (JNum (Fin x))) = Fin p"
    using p(1) r(1) string_to_number_String by (simp add: formatPricingNumber_def toNumberOrNull_def hasValue_def)
  moreover have "\<bar>p - x\<bar> \<le> 5 / 10 ^ 12 + \<bar>x\<bar> / 2 ^ 46"
  proof -
    have "\<bar>p - x\<bar> \<le> \<bar>p - r\<bar> + \<bar>r - x\<bar>" by linarith
    also have "\<dots> \<le> 1 / 10 ^ 12 + (4 / 10 ^ 12 + \<bar>x\<bar> / 2 ^ 46)"
      using p(2) r(3) unfolding DISPLAY_DECIMALS_def by (rule add_mono)
    finally show ?thesis by simp
  qed
  ultimately show ?thesis by blast
qed

theorem formatPricingNumber_accurate_witness:
  "\<exists>p. string_to_number (formatPricingNumber (JNum (Fin (3 / 4)))) = Fin p \<and> \<bar>p - 3 / 4\<bar> \<le> 5 / 10 ^ 12 + (3 / 4) / 2 ^ 46"
proof -
  have "binary64 (3 / 4)" by (rule binary64I [of _ 3 "-2"]) (simp_all add: power_int_minus)
  from formatPricingNumber_accurate [OF this] show ?thesis by simp
qed

section \<open>The ratios follow the prices\<close>

definition lane_text :: "PricingPanel \<Rightarrow> LaneKey \<Rightarrow> string" where
  "lane_text p lane =
     (if laneEnabled p lane then deriveLaneRatio lane (lanePrices p lane) (promptPrice p) (lanePrices p) else [])"

definition synced :: "PricingPanel \<Rightarrow> bool" where
  "synced p \<longleftrightarrow> pp_form p FRatio = base_ratio (promptPrice p) \<and>
     (\<forall>lane. pp_form p (ratioFieldByLane lane) = lane_text p lane)"

text \<open>The events of the panel. Price, name and the expressions are edited directly.\<close>

inductive panel_step :: "PricingPanel \<Rightarrow> PricingPanel \<Rightarrow> bool" where
  prompt: "panel_step p (handlePromptPriceChange v p)"
| lane_price: "panel_step p (handleLanePriceChange lane v p)"
| lane_toggle: "panel_step p (handleLaneToggle lane checked p)"
| mode: "panel_step p (handleModeChange m p)"
| name: "panel_step p (setFormValue FName v p)"
| price: "panel_step p (handlePriceChange v p)"
| billing_expr: "panel_step p (p\<lparr>pp_billingExpr := e\<rparr>)"
| rule_expr: "panel_step p (p\<lparr>pp_requestRuleExpr := e\<rparr>)"

inductive_cases panel_stepE: "panel_step p p'"

lemma ratioField_inj [simp]: "ratioFieldByLane a = ratioFieldByLane b \<longleftrightarrow> a = b"
  by (cases a; cases b) auto

lemma ratioField_neq [simp]: "ratioFieldByLane a \<noteq> FRatio" "ratioFieldByLane a \<noteq> FName" "ratioFieldByLane a \<noteq> FPrice"
  "FRatio \<noteq> ratioFieldByLane a" "FName \<noteq> ratioFieldByLane a" "FPrice \<noteq> ratioFieldByLane a"
  by (cases a; simp)+

lemma ratioField_audio [simp]: "FAudioCompletionRatio = ratioFieldByLane a \<longleftrightarrow> a = AudioOutput"
  "ratioFieldByLane a = FAudioCompletionRatio \<longleftrightarrow> a = AudioOutput"
  "FAudioRatio = ratioFieldByLane a \<longleftrightarrow> a = AudioInput" "ratioFieldByLane a = FAudioRatio \<longleftrightarrow> a = AudioInput"
  by (cases a; simp)+

lemma setFormValue_simps [simp]:
  "pp_form (setFormValue k v p) = (pp_form p)(k := v)" "promptPrice (setFormValue k v p) = promptPrice p"
  "lanePrices (setFormValue k v p) = lanePrices p" "laneEnabled (setFormValue k v p) = laneEnabled p"
  "pricingMode (setFormValue k v p) = pricingMode p"
  by (simp_all add: setFormValue_def)

lemma syncLaneRatios_simps [simp]:
  "promptPrice (syncLaneRatios a b c p) = promptPrice p" "lanePrices (syncLaneRatios a b c p) = lanePrices p"
  "laneEnabled (syncLaneRatios a b c p) = laneEnabled p"
  by (simp_all add: syncLaneRatios_def laneConfigs_def)

lemma syncLaneRatios_lane:
  "pp_form (syncLaneRatios a b c p) (ratioFieldByLane lane) = (if c lane then deriveLaneRatio lane (b lane) a b else [])"
  by (cases lane) (simp_all add: syncLaneRatios_def laneConfigs_def)

lemma syncLaneRatios_ratio: "pp_form (syncLaneRatios a b c p) FRatio = base_ratio a"
  by (simp add: syncLaneRatios_def laneConfigs_def)

text \<open>The ratio of a lane depends on its own price and on one denominator only.\<close>

lemma deriveLaneRatio_other:
  "lane' \<noteq> AudioInput \<or> lane \<noteq> AudioOutput \<Longrightarrow>
     deriveLaneRatio lane price prompt (prices(lane' := v)) = deriveLaneRatio lane price prompt prices"
  by (auto simp: deriveLaneRatio_def split: option.splits)

lemma deriveLaneRatio_blank [simp]: "deriveLaneRatio lane [] prompt prices = []"
  by (simp add: deriveLaneRatio_def toNumberOrNull_def hasValue_def)

lemma prompt_syncs: "rx_test numericDraftRegex v \<Longrightarrow> synced (handlePromptPriceChange v p)"
  by (simp add: synced_def handlePromptPriceChange_def syncLaneRatios_lane syncLaneRatios_ratio lane_text_def)

lemma synced_prompt: "synced p \<Longrightarrow> synced (handlePromptPriceChange v p)"
  using prompt_syncs by (cases "rx_test numericDraftRegex v") (auto simp: handlePromptPriceChange_def)

lemma synced_lane_price: "synced p \<Longrightarrow> synced (handleLanePriceChange lane v p)"
  by (auto 0 3 simp: synced_def handleLanePriceChange_def Let_def lane_text_def intro!: deriveLaneRatio_other [symmetric])

lemma synced_lane_toggle: "synced p \<Longrightarrow> synced (handleLaneToggle lane checked p)"
  by (auto simp: synced_def handleLaneToggle_def Let_def lane_text_def deriveLaneRatio_other)

lemma synced_step: "panel_step p p' \<Longrightarrow> synced p \<Longrightarrow> synced p'"
  by (erule panel_stepE)
    (simp_all add: synced_prompt synced_lane_price synced_lane_toggle,
     auto simp: synced_def handleModeChange_def handlePriceChange_def Let_def lane_text_def)

text \<open>C14: Once an input price has been accepted, the ratios the editor will save stay those of the displayed
  prices through any sequence of edits: the base ratio is half the input price, the ratio of every enabled
  lane is its price over the input price (over the audio input price for audio output), and a disabled lane
  has none.\<close>

theorem pricing_panel_synced:
  assumes "rx_test numericDraftRegex v" and "panel_step\<^sup>*\<^sup>* (handlePromptPriceChange v p) p'"
  shows "rd_ratio (buildSubmitData p') = Some (base_ratio (promptPrice p')) \<and>
    lane_ratio (buildSubmitData p') lane =
      JStr (if laneEnabled p' lane
            then deriveLaneRatio lane (lanePrices p' lane) (promptPrice p') (lanePrices p') else [])"
proof -
  from assms(2) have "synced p'"
    by (induction rule: rtranclp_induct) (auto simp: prompt_syncs [OF assms(1)] dest: synced_step)
  moreover have "lane_ratio (buildSubmitData p') lane = JStr (pp_form p' (ratioFieldByLane lane))"
    by (cases lane) (simp_all add: buildSubmitData_def Let_def opt_val_def)
  ultimately show ?thesis by (simp add: synced_def lane_text_def buildSubmitData_def Let_def)
qed

theorem pricing_panel_synced_witness:
  "rd_ratio (buildSubmitData (handleLaneToggle Cache True (handlePromptPriceChange ''3'' (openPanel None)))) = Some (base_ratio ''3'')"
proof -
  have "rx_test numericDraftRegex ''3''" by code_simp
  moreover have "panel_step\<^sup>*\<^sup>* q (handleLaneToggle Cache True q)" for q by (blast intro: panel_step.intros)
  moreover from calculation have "rd_ratio (buildSubmitData (handleLaneToggle Cache True (handlePromptPriceChange ''3'' (openPanel None)))) =
      Some (base_ratio (promptPrice (handleLaneToggle Cache True (handlePromptPriceChange ''3'' (openPanel None)))))"
    using pricing_panel_synced by blast
  moreover have "promptPrice (handleLaneToggle Cache True (handlePromptPriceChange ''3'' (openPanel None))) = ''3''"
    using calculation(1) by (simp add: handleLaneToggle_def handlePromptPriceChange_def)
  ultimately show ?thesis by simp
qed

text \<open>A price entered for a lane is lost when its denominator is zero: with an input price of zero the
  draft passes validation in per-token mode although the ratios of all enabled lanes, audio output apart,
  are empty.\<close>

theorem zero_input_price_drops_lanes:
  assumes "rx_test numericDraftRegex v" and "string_to_number v = Fin 0" "v \<noteq> []"
    and "panel_step\<^sup>*\<^sup>* (handlePromptPriceChange v p) p'" and "promptPrice p' = v"
    and "pp_form p' FName \<noteq> []" "\<not> laneEnabled p' AudioOutput"
  shows "commitDraft p' = Some (buildSubmitData p') \<and> lane_ratio (buildSubmitData p') lane = JStr []"
proof -
  have num: "toNumberOrNull (JStr v) = Some (Fin 0)" using assms(2,3) by (simp add: toNumberOrNull_def hasValue_def)
  have "validatePricingValues p'"
    using assms(5,7) num by (simp add: validatePricingValues_def missing_input_price_def missing_audio_price_def)
  moreover from assms(4) have "synced p'"
    by (induction rule: rtranclp_induct) (auto simp: prompt_syncs [OF assms(1)] dest: synced_step)
  moreover have "lane_text p' lane = []"
    using assms(5,7) num
    by (auto simp: lane_text_def deriveLaneRatio_def quotient_text_def split: option.splits)
  moreover have "lane_ratio (buildSubmitData p') lane = JStr (pp_form p' (ratioFieldByLane lane))"
    by (cases lane) (simp_all add: buildSubmitData_def Let_def opt_val_def)
  ultimately show ?thesis using assms(6) by (simp add: commitDraft_def synced_def)
qed

definition free_input :: PricingPanel where
  "free_input = handleLanePriceChange Completion ''15'' (handleLaneToggle Completion True
     (setFormValue FName ''m'' (handlePromptPriceChange ''0'' (openPanel None))))"

theorem zero_input_price_drops_lanes_witness:
  "commitDraft free_input = Some (buildSubmitData free_input) \<and> lane_ratio (buildSubmitData free_input) Completion = JStr [] \<and>
   lanePrices free_input Completion = ''15'' \<and> laneEnabled free_input Completion"
proof -
  have "panel_step\<^sup>*\<^sup>* (handlePromptPriceChange ''0'' (openPanel None)) free_input"
    unfolding free_input_def by (meson panel_step.intros rtranclp.rtrancl_into_rtrancl rtranclp.rtrancl_refl)
  moreover have rx: "rx_test numericDraftRegex ''0''" "rx_test numericDraftRegex ''15''" by code_simp+
  moreover have "string_to_number ''0'' = Fin 0" by code_simp
  moreover have "promptPrice free_input = ''0''" "pp_form free_input FName \<noteq> []" "\<not> laneEnabled free_input AudioOutput"
    "lanePrices free_input Completion = ''15''" "laneEnabled free_input Completion"
    using rx by (simp_all add: free_input_def handleLanePriceChange_def handleLaneToggle_def handlePromptPriceChange_def
      openPanel_def createInitialLaneState_def EMPTY_LANE_ENABLED_def Let_def)
  ultimately show ?thesis using zero_input_price_drops_lanes [of "''0''" "openPanel None" free_input Completion] by simp
qed

end
