(* ===== verification/JsJsonPrint.thy ===== *)
theory JsJsonPrint
  imports JsJson
begin

text \<open>
  \<open>JSON.stringify\<close> of a value, compact or with an indentation, and its round trip: parsing the text of a
  value gives the value with the keys of its objects in enumeration order and infinite numbers as null, and
  every result of \<open>JSON.parse\<close> is such a value.
\<close>

section \<open>Printing\<close>

text \<open>\<open>gap\<close> is the third argument of \<open>JSON.stringify\<close>, \<open>ind\<close> the indentation of the current line. A number
  that is not finite prints as null; an undefined property is left out.\<close>

definition new_line :: "nat \<Rightarrow> nat \<Rightarrow> string" where
  "new_line gap ind = (if gap = 0 then [] else CHR 0x0A # replicate ind CHR '' '')"

definition json_colon :: "nat \<Rightarrow> string" where
  "json_colon gap = (if gap = 0 then '':'' else '': '')"

definition json_number_text :: "jsnum \<Rightarrow> string" where
  "json_number_text n = (if is_finite n then js_String n else ''null'')"

function json_text :: "nat \<Rightarrow> nat \<Rightarrow> jsval \<Rightarrow> string" where
  "json_text gap ind JUndefined = ''null''"
| "json_text gap ind JNull = ''null''"
| "json_text gap ind (JBool b) = (if b then ''true'' else ''false'')"
| "json_text gap ind (JNum n) = json_number_text n"
| "json_text gap ind (JStr s) = json_quote s"
| "json_text gap ind (JArr vs) =
     (if vs = [] then ''[]''
      else ''['' @ new_line gap (ind + gap) @
        join ('','' @ new_line gap (ind + gap)) (map (\<lambda>v. json_text gap (ind + gap) v) vs) @ new_line gap ind @ '']'')"
| "json_text gap ind (JObj kvs) =
     (let es = filter (\<lambda>e. snd e \<noteq> JUndefined) (obj_entries kvs) in
      if es = [] then ''{}''
      else ''{'' @ new_line gap (ind + gap) @
        join ('','' @ new_line gap (ind + gap))
          (map (\<lambda>e. json_quote (fst e) @ json_colon gap @ json_text gap (ind + gap) (snd e)) es) @ new_line gap ind @ ''}'')"
  by pat_completeness auto
termination
proof (relation "measure (\<lambda>(g, i, v). size v)")
  show "((gap, ind + gap, v), (gap, ind, JArr vs)) \<in> measure (\<lambda>(g, i, v). size v)"
    if "v \<in> set vs" for gap ind :: nat and v vs
    using size_list_estimation' [OF that, of "size v" size] by simp
  show "((gap, ind + gap, snd e), (gap, ind, JObj kvs)) \<in> measure (\<lambda>(g, i, v). size v)"
    if "es = filter (\<lambda>e. snd e \<noteq> JUndefined) (obj_entries kvs)" "e \<in> set es" for gap ind :: nat and es kvs and e :: "string \<times> jsval"
  proof -
    have "e \<in> set kvs" using that by simp
    moreover obtain k v where e: "e = (k, v)" by (cases e)
    ultimately show ?thesis
      using size_list_estimation' [of e kvs "size v" "size_prod (\<lambda>_. 0) size"] by simp
  qed
qed simp_all

definition json_stringify :: "nat \<Rightarrow> jsval \<Rightarrow> string" where
  "json_stringify gap v = json_text gap 0 v"

section \<open>Numbers\<close>

text \<open>The decimal literals that are also JSON numbers.\<close>

definition json_shape :: "string \<Rightarrow> bool" where
  "json_shape s \<longleftrightarrow>
     (let ip = takeWhile is_digit s; r = dropWhile is_digit s in
      ip \<noteq> [] \<and> (length ip \<le> 1 \<or> hd ip \<noteq> CHR ''0'') \<and>
      (starts_with ''.'' r \<longrightarrow> takeWhile is_digit (tl r) \<noteq> []))"

definition num_stop :: "string \<Rightarrow> bool" where
  "num_stop rest \<longleftrightarrow> rest = [] \<or> \<not> is_num_char (hd rest) \<and> hd rest \<noteq> CHR ''E''"

lemma span_digits_stop:
  assumes "num_stop rest"
  shows "takeWhile is_digit (s @ rest) = takeWhile is_digit s" "dropWhile is_digit (s @ rest) = dropWhile is_digit s @ rest"
proof -
  have "rest = [] \<or> \<not> is_digit (hd rest)" using assms by (auto simp: num_stop_def is_num_char_def)
  then have "takeWhile is_digit rest = [] \<and> dropWhile is_digit rest = rest" by (cases rest) auto
  then show "takeWhile is_digit (s @ rest) = takeWhile is_digit s" "dropWhile is_digit (s @ rest) = dropWhile is_digit s @ rest"
    by (induction s) auto
qed

lemma starts_with_stop: "num_stop rest \<Longrightarrow> c \<in> {CHR ''.'', CHR ''e'', CHR ''E'', CHR ''-'', CHR ''+''} \<Longrightarrow>
    starts_with [c] (s @ rest) \<longleftrightarrow> starts_with [c] s"
  by (cases s; cases rest) (auto simp: num_stop_def is_num_char_def)

lemma json_exp_stop:
  assumes "parse_exponent r = Some e" and "num_stop rest"
  shows "json_exp (r @ rest) = Some (e, rest)"
proof (cases r)
  case Nil
  then show ?thesis using assms starts_with_stop [OF assms(2), of "CHR ''e''" "[]"] starts_with_stop [OF assms(2), of "CHR ''E''" "[]"]
    by (simp add: parse_exponent_def json_exp_def)
next
  case (Cons c t)
  then have c: "c = CHR ''e'' \<or> c = CHR ''E''" using assms(1) by (auto simp: parse_exponent_def split: if_splits)
  have sw: "starts_with [x] t \<longleftrightarrow> t \<noteq> [] \<and> hd t = x" for x by (cases t) auto
  define ds where "ds = (if t \<noteq> [] \<and> (hd t = CHR ''-'' \<or> hd t = CHR ''+'') then tl t else t)"
  have ds: "ds \<noteq> []" "list_all is_digit ds" and e: "e = (if t \<noteq> [] \<and> hd t = CHR ''-'' then - int_of_digits ds else int_of_digits ds)"
    using assms(1) c Cons by (auto simp: parse_exponent_def Let_def ds_def split: if_splits)
  have tw: "takeWhile is_digit (ds @ rest) = ds" "dropWhile is_digit (ds @ rest) = rest"
    using span_digits_stop [OF assms(2), of ds] ds(2) by (auto simp: list_all_iff dropWhile_eq_Nil_conv takeWhile_eq_all_conv)
  have u: "(if starts_with ''-'' (t @ rest) \<or> starts_with ''+'' (t @ rest) then tl (t @ rest) else t @ rest) = ds @ rest"
    using starts_with_stop [OF assms(2), of "CHR ''-''" t] starts_with_stop [OF assms(2), of "CHR ''+''" t]
    by (cases t) (auto simp: ds_def sw)
  have neg: "starts_with ''-'' (t @ rest) \<longleftrightarrow> t \<noteq> [] \<and> hd t = CHR ''-''"
    using starts_with_stop [OF assms(2), of "CHR ''-''" t] sw by simp
  show ?thesis
    using c Cons ds tw u e by (auto simp: json_exp_def Let_def neg)
qed

lemma json_number_unsigned:
  assumes "parse_unsigned_decimal s = Some x" and "json_shape s" and "num_stop rest"
  shows "json_number (s @ rest) = Some (fround x, rest) \<and> json_number (CHR ''-'' # s @ rest) = Some (fround (- x), rest)"
proof -
  define ip where "ip = takeWhile is_digit s"
  define r where "r = dropWhile is_digit s"
  define fp where "fp = (if starts_with ''.'' r then takeWhile is_digit (tl r) else [])"
  define r2 where "r2 = (if starts_with ''.'' r then dropWhile is_digit (tl r) else r)"
  have ip: "ip \<noteq> []" "\<not> (length ip > 1 \<and> hd ip = CHR ''0'')" and dot: "starts_with ''.'' r \<Longrightarrow> takeWhile is_digit (tl r) \<noteq> []"
    using assms(2) by (auto simp: json_shape_def Let_def ip_def r_def)
  have sw: "starts_with ''.'' r \<longleftrightarrow> r \<noteq> [] \<and> hd r = CHR ''.''" by (cases r) auto
  obtain e where e: "parse_exponent r2 = Some e" and x: "x = of_int (int_of_digits (ip @ fp)) * pow10 (e - int (length fp))"
    using assms(1) ip(1) sw unfolding parse_unsigned_decimal_def Let_def
    by (auto simp: ip_def [symmetric] r_def [symmetric] fp_def r2_def split: if_splits)
  have sp: "takeWhile is_digit (s @ rest) = ip" "dropWhile is_digit (s @ rest) = r @ rest"
    using span_digits_stop [OF assms(3), of s] by (simp_all add: ip_def r_def)
  have fr: "json_frac (r @ rest) = Some (fp, r2 @ rest)"
  proof (cases "starts_with ''.'' r")
    case True
    then obtain t where t: "r = CHR ''.'' # t" by (cases r) auto
    then show ?thesis using dot [OF True] span_digits_stop [OF assms(3), of t] by (simp add: json_frac_def fp_def r2_def)
  next
    case False
    then show ?thesis using starts_with_stop [OF assms(3), of "CHR ''.''" r] by (simp add: json_frac_def fp_def r2_def)
  qed
  have "is_digit (hd s)" using ip(1) by (cases s) (auto simp: ip_def split: if_splits)
  then have "\<not> starts_with ''-'' (s @ rest)" using ip(1) by (cases s) (auto simp: ip_def is_digit_def)
  then show ?thesis
    using ip fr json_exp_stop [OF e assms(3)] x by (simp add: json_number_def Let_def sp)
qed

lemma hd_digits_of: "n > 0 \<Longrightarrow> hd (digits_of n) \<noteq> CHR ''0''"
proof (induction n rule: digits_of.induct)
  case (1 n)
  show ?case
  proof (cases "n < 10")
    case True
    have "list_all (\<lambda>d. digit_char d \<noteq> CHR ''0'') [1..<10]" by code_simp
    moreover have "nat n \<in> set [1..<10]" using 1 True by auto
    ultimately have "digit_char (nat n) \<noteq> CHR ''0''" unfolding list_all_iff by blast
    then show ?thesis using True by (subst digits_of.simps) simp
  next
    case False
    then have "hd (digits_of (n div 10)) \<noteq> CHR ''0''" using 1 by simp
    then show ?thesis using False by (subst digits_of.simps) (simp add: hd_append)
  qed
qed

lemma json_shape_plain: "list_all is_digit ip \<Longrightarrow> ip \<noteq> [] \<Longrightarrow> hd ip \<noteq> CHR ''0'' \<or> length ip \<le> 1 \<Longrightarrow>
    no_digit_hd r \<Longrightarrow> r = [] \<or> hd r \<noteq> CHR ''.'' \<Longrightarrow> json_shape (ip @ r)"
proof -
  assume a: "list_all is_digit ip" "ip \<noteq> []" "hd ip \<noteq> CHR ''0'' \<or> length ip \<le> 1" "no_digit_hd r" "r = [] \<or> hd r \<noteq> CHR ''.''"
  have "\<not> starts_with ''.'' r" using a(5) by (cases r) auto
  then show ?thesis unfolding json_shape_def Let_def span_digits [OF a(1,4)] using a(2,3) by auto
qed

lemma json_shape_point: "list_all is_digit ip \<Longrightarrow> ip \<noteq> [] \<Longrightarrow> hd ip \<noteq> CHR ''0'' \<or> length ip \<le> 1 \<Longrightarrow>
    list_all is_digit fp \<Longrightarrow> fp \<noteq> [] \<Longrightarrow> no_digit_hd r \<Longrightarrow> json_shape (ip @ CHR ''.'' # fp @ r)"
  using span_digits [of ip "CHR ''.'' # fp @ r"] span_digits [of fp r]
  by (auto simp: json_shape_def Let_def no_digit_hd_def)

lemma json_shape_render:
  assumes k: "1 \<le> k" and s: "10 ^ (k - 1) \<le> s" "s < 10 ^ k"
  shows "json_shape (render_digits (s, k, n))"
proof -
  have "(0::int) < 10 ^ (k - 1)" by simp
  then have pos: "s > 0" using s(1) by linarith
  have len: "length (digits_of s) = k" using digits_of_length [OF s k] .
  have dig: "list_all is_digit (digits_of s)" using pos digits_of_digits by simp
  note hd0 = hd_digits_of [OF pos]
  define ex where "ex = ''e'' @ (if n - 1 < 0 then ''-'' else ''+'') @ digits_of \<bar>n - 1\<bar>"
  have ex: "no_digit_hd ex" "hd ex \<noteq> CHR ''.''" "ex \<noteq> []" by (auto simp: ex_def no_digit_hd_def is_digit_def)
  have zero: "is_digit CHR ''0''" by (simp add: is_digit_def)
  have r: "render_digits (s, k, n) =
      (if int k \<le> n \<and> n \<le> 21 then digits_of s @ replicate (nat (n - int k)) CHR ''0''
       else if 0 < n \<and> n \<le> 21 then take (nat n) (digits_of s) @ ''.'' @ drop (nat n) (digits_of s)
       else if -6 < n \<and> n \<le> 0 then ''0.'' @ replicate (nat (- n)) CHR ''0'' @ digits_of s
       else if k = 1 then digits_of s @ ex else take 1 (digits_of s) @ ''.'' @ drop 1 (digits_of s) @ ex)"
    by (simp add: render_digits_def ex_def Let_def)
  consider "int k \<le> n" "n \<le> 21" | "n < int k" "0 < n" "n \<le> 21" | "-6 < n" "n \<le> 0"
    | "n > 21 \<or> n \<le> -6" "k = 1" | "n > 21 \<or> n \<le> -6" "k > 1" using k by linarith
  then show ?thesis
  proof cases
    case 1
    then show ?thesis
      using json_shape_plain [of "digits_of s @ replicate (nat (n - int k)) CHR ''0''" "[]"] dig hd0
      by (simp add: r no_digit_hd_def)
  next
    case 2
    have "json_shape (take (nat n) (digits_of s) @ CHR ''.'' # drop (nat n) (digits_of s) @ [])"
      using 2 dig hd0 len list_all_take_drop [OF dig] by (intro json_shape_point) (auto simp: no_digit_hd_def)
    then show ?thesis using 2 by (simp add: r)
  next
    case 3
    have "json_shape (''0'' @ CHR ''.'' # (replicate (nat (- n)) CHR ''0'' @ digits_of s) @ [])"
      using dig zero by (intro json_shape_point) (auto simp: no_digit_hd_def)
    then show ?thesis using 3 k by (simp add: r)
  next
    case 4
    have "json_shape (digits_of s @ ex)" using dig hd0 ex by (intro json_shape_plain) auto
    moreover have "render_digits (s, k, n) = digits_of s @ ex" unfolding r using 4 by auto
    ultimately show ?thesis by simp
  next
    case 5
    have "json_shape (take 1 (digits_of s) @ CHR ''.'' # drop 1 (digits_of s) @ ex)"
      using 5 dig ex len list_all_take_drop [OF dig] by (intro json_shape_point) (auto simp: no_digit_hd_def)
    then show ?thesis using 5 by (auto simp: r)
  qed
qed

lemma json_number_String:
  assumes "binary64 v" and "num_stop rest"
  shows "json_number (js_String (Fin v) @ rest) = Some (Fin v, rest)"
proof -
  have pos: "json_number (string_of_pos_rat w @ rest) = Some (Fin w, rest) \<and>
      json_number (CHR ''-'' # string_of_pos_rat w @ rest) = Some (Fin (- w), rest)"
    if w: "binary64 w" "w > 0" for w
  proof -
    obtain s k n where r: "string_of_pos_rat w = render_digits (s, k, n)"
      "fround (digits_value (s, k, n)) = Fin w" "1 \<le> k" "10 ^ (k - 1) \<le> s" "s < 10 ^ k" "s \<ge> 0"
      using string_of_pos_rat_correct [OF w] .
    then show ?thesis
      using json_number_unsigned [OF parse_render_digits json_shape_render assms(2), of k s n] fround_uminus by simp
  qed
  have "parse_unsigned_decimal ''0'' = Some 0" "json_shape ''0''" by code_simp+
  from json_number_unsigned [OF this assms(2)] have "json_number (''0'' @ rest) = Some (Fin 0, rest)" by simp
  then show ?thesis using pos [of v] pos [of "- v"] assms(1) by (cases "v = 0") auto
qed

section \<open>Reading a printed value back\<close>

definition json_space :: "string \<Rightarrow> bool" where
  "json_space w \<longleftrightarrow> list_all is_json_ws w"

lemma skip_ws_space: "json_space w \<Longrightarrow> skip_ws (w @ s) = skip_ws s"
  by (induction w) (auto simp: json_space_def skip_ws_def)

lemma skip_ws_hd: "s \<noteq> [] \<Longrightarrow> \<not> is_json_ws (hd s) \<Longrightarrow> skip_ws s = s"
  by (cases s) (auto simp: skip_ws_def)

lemma new_line_space [simp]: "json_space (new_line g i)"
  by (auto simp: json_space_def new_line_def is_json_ws_def list_all_iff)

lemma num_char_facts:
  assumes "is_num_char c"
  shows "c \<noteq> CHR 0x22" "c \<noteq> CHR ''[''" "c \<noteq> CHR ''{''" "c \<noteq> CHR ''t''" "c \<noteq> CHR ''f''" "c \<noteq> CHR ''n''" "\<not> is_json_ws c"
  using assms by (auto simp: is_num_char_def is_digit_def is_json_ws_def)

lemma skip_ws_quote: "json_space w \<Longrightarrow> skip_ws (w @ json_quote k @ r) = CHR 0x22 # concat (map json_escape k) @ CHR 0x22 # r"
  by (simp add: skip_ws_space json_quote_def skip_ws_hd is_json_ws_def)

lemma obj_set_new: "k \<notin> fst ` set acc \<Longrightarrow> obj_set k v acc = acc @ [(k, v)]"
  by (induction acc) auto

lemma fold_obj_set: "distinct (map fst (acc @ es)) \<Longrightarrow> fold (\<lambda>(k, v). obj_set k v) es acc = acc @ es"
  by (induction es arbitrary: acc) (auto simp: obj_set_new)

lemma obj_entries_distinct: "distinct (map fst kvs) \<Longrightarrow> distinct (map fst (obj_entries kvs))"
  by (auto simp: obj_entries_def distinct_map sort_key_const inj_on_def intro: distinct_sort)

lemma map_of_obj_entries: "distinct (map fst kvs) \<Longrightarrow> map_of (obj_entries kvs) = map_of kvs"
  using map_of_inject_set [of "obj_entries kvs" kvs] obj_entries_distinct [of kvs] by simp

text \<open>The values \<open>JSON.parse\<close> can return, and what is left of them in print: an infinite number becomes null
  and the keys of an object take their enumeration order.\<close>

fun json_ok :: "jsval \<Rightarrow> bool" where
  "json_ok JUndefined = False"
| "json_ok (JNum n) = wf_num n"
| "json_ok (JArr vs) = (\<forall>v\<in>set vs. json_ok v)"
| "json_ok (JObj kvs) = (distinct (map fst kvs) \<and> (\<forall>e\<in>set kvs. json_ok (snd e)))"
| "json_ok _ = True"

primrec json_canon :: "jsval \<Rightarrow> jsval" where
  "json_canon JUndefined = JUndefined"
| "json_canon JNull = JNull"
| "json_canon (JBool b) = JBool b"
| "json_canon (JNum n) = (if is_finite n then JNum n else JNull)"
| "json_canon (JStr s) = JStr s"
| "json_canon (JArr vs) = JArr (map json_canon vs)"
| "json_canon (JObj kvs) = JObj (obj_entries (map (map_prod id json_canon) kvs))"

text \<open>With enough fuel, reading a value from a text gives a value and the rest of the text.\<close>

definition reads :: "string \<Rightarrow> jsval \<Rightarrow> string \<Rightarrow> bool" where
  "reads s v rest \<longleftrightarrow> (\<exists>F. \<forall>f\<ge>F. parse_value f s = Some (v, rest))"

definition reads_as :: "string \<Rightarrow> jsval \<Rightarrow> bool" where
  "reads_as t v \<longleftrightarrow> (\<forall>w rest. json_space w \<longrightarrow> num_stop rest \<longrightarrow> reads (w @ t @ rest) v rest)"

lemma readsI: "(\<And>f. parse_value (Suc f) s = Some (v, rest)) \<Longrightarrow> reads s v rest"
  unfolding reads_def by (rule exI [of _ 1]) (metis Suc_le_D One_nat_def)

lemma readsE:
  assumes "reads s v rest"
  obtains F where "\<And>f. F \<le> f \<Longrightarrow> parse_value f s = Some (v, rest)"
  using assms by (auto simp: reads_def)

lemma reads_asE:
  assumes "reads_as t v" "json_space w" "num_stop rest"
  obtains F where "\<And>f. F \<le> f \<Longrightarrow> parse_value f (w @ t @ rest) = Some (v, rest)"
  using assms unfolding reads_as_def reads_def by blast

lemma json_space_Nil [simp]: "json_space []"
  by (simp add: json_space_def)

lemma reads_json_parse:
  assumes "reads s v rest" "skip_ws rest = []"
  shows "json_parse s = Some v"
proof -
  obtain F where F: "\<And>f. F \<le> f \<Longrightarrow> parse_value f s = Some (v, rest)" using assms(1) by (rule readsE) blast
  have "parse_value (2 * length s + 2) s = parse_value (max F (2 * length s + 2)) s"
    by (rule parse_value_fuel [symmetric]) simp
  then show ?thesis using F [of "max F (2 * length s + 2)"] assms(2) by (simp add: json_parse_def)
qed

lemma num_stop_delim:
  assumes "json_space w" and "c \<in> {CHR '','', CHR ''}'', CHR '']''}"
  shows "num_stop (w @ c # r)"
proof -
  have "\<not> is_num_char x" "x \<noteq> CHR ''E''" if "is_json_ws x" for x
    using that by (auto simp: is_json_ws_def is_num_char_def is_digit_def)
  then show ?thesis using assms by (cases w) (auto simp: num_stop_def json_space_def is_num_char_def is_digit_def)
qed

lemma skip_ws_delim: "json_space w \<Longrightarrow> c \<in> {CHR '','', CHR ''}'', CHR '']'', CHR '':''} \<Longrightarrow> skip_ws (w @ c # r) = c # r"
  by (auto simp: skip_ws_space skip_ws_hd is_json_ws_def)

lemma reads_as_number:
  assumes "binary64 x"
  shows "reads_as (js_String (Fin x)) (JNum (Fin x))"
  unfolding reads_as_def
proof (intro allI impI readsI)
  fix w rest f assume w: "json_space w" and rest: "num_stop rest"
  obtain c cs where c: "js_String (Fin x) = c # cs" "is_num_char c"
    using js_String_chars [OF assms] by (cases "js_String (Fin x)") auto
  note F = num_char_facts [OF c(2)]
  have "parse_value (Suc f) (w @ c # cs @ rest) = map_option (\<lambda>(n, r). (JNum n, r)) (json_number (c # cs @ rest))"
    using w F by (simp add: skip_ws_space skip_ws_hd)
  then show "parse_value (Suc f) (w @ js_String (Fin x) @ rest) = Some (JNum (Fin x), rest)"
    using json_number_String [OF assms rest] c(1) by simp
qed

lemma reads_as_quote: "reads_as (json_quote s) (JStr s)"
  unfolding reads_as_def
proof (intro allI impI readsI)
  fix w rest f assume "json_space w"
  then have "skip_ws (w @ json_quote s @ rest) = CHR 0x22 # concat (map json_escape s) @ CHR 0x22 # rest"
    by (simp add: skip_ws_space json_quote_def skip_ws_hd is_json_ws_def)
  then show "parse_value (Suc f) (w @ json_quote s @ rest) = Some (JStr s, rest)"
    using parse_string_body_quote [of s rest] by simp
qed

lemma reads_as_literal:
  "reads_as ''null'' JNull" "reads_as ''true'' (JBool True)" "reads_as ''false'' (JBool False)"
  "reads_as ''[]'' (JArr [])" "reads_as ''{}'' (JObj [])"
  unfolding reads_as_def by (auto intro!: readsI simp: skip_ws_space skip_ws_hd is_json_ws_def)

text \<open>The elements of an array and the members of an object.\<close>

lemma reads_elements:
  assumes "list_all2 reads_as ts vs" "ts \<noteq> []" "json_space w" "json_space w'"
  shows "\<exists>F. \<forall>f\<ge>F. parse_elements f (w @ join ('','' @ w) ts @ w' @ CHR '']'' # r) = Some (vs, r)"
  using assms(1,2)
proof (induction ts vs rule: list_all2_induct)
  case (Cons t ts v vs)
  show ?case
  proof (cases "ts = []")
    case True
    then have vs: "vs = []" using Cons.hyps by simp
    obtain F where F: "\<And>f. F \<le> f \<Longrightarrow> parse_value f (w @ t @ w' @ CHR '']'' # r) = Some (v, w' @ CHR '']'' # r)"
      using reads_asE [OF Cons.hyps(1) assms(3) num_stop_delim [OF assms(4), of "CHR '']''" r]] by auto
    have "parse_elements f (w @ t @ w' @ CHR '']'' # r) = Some ([v], r)" if "Suc F \<le> f" for f
      using F that skip_ws_delim [OF assms(4), of "CHR '']''" r] by (cases f) simp_all
    then show ?thesis using True vs by auto
  next
    case False
    let ?more = "w @ join ('','' @ w) ts @ w' @ CHR '']'' # r"
    obtain G where G: "\<And>f. G \<le> f \<Longrightarrow> parse_elements f ?more = Some (vs, r)" using Cons.IH False by blast
    obtain F where F: "\<And>f. F \<le> f \<Longrightarrow> parse_value f (w @ t @ CHR '','' # ?more) = Some (v, CHR '','' # ?more)"
      using reads_asE [OF Cons.hyps(1) assms(3) num_stop_delim [of "[]" "CHR '',''" ?more]] by auto
    have eq: "w @ join ('','' @ w) (t # ts) @ w' @ CHR '']'' # r = w @ t @ CHR '','' # ?more"
      using False by (cases ts) simp_all
    have "parse_elements f (w @ t @ CHR '','' # ?more) = Some (v # vs, r)" if "Suc (max F G) \<le> f" for f
    proof -
      obtain k where k: "f = Suc k" "F \<le> k" "G \<le> k" using \<open>Suc (max F G) \<le> f\<close> by (cases f) auto
      then show ?thesis
        using F [OF k(2)] G [OF k(3)] skip_ws_delim [of "[]" "CHR '',''" ?more] by simp
    qed
    then show ?thesis unfolding eq by blast
  qed
qed simp


lemma parse_members_step:
  assumes v: "parse_value f (sp @ t @ w' @ c # r) = Some (v, w' @ c # r)" and col: "json_colon g = CHR '':'' # sp"
    and w: "json_space w" "json_space w'" and c: "c = CHR '','' \<or> c = CHR ''}''"
  shows "parse_members (Suc f) acc (w @ (json_quote k @ json_colon g @ t) @ w' @ c # r) =
    (if c = CHR ''}'' then Some (obj_set k v acc, r) else parse_members f (obj_set k v acc) r)"
proof -
  let ?rest = "w' @ c # r"
  have "skip_ws (w @ (json_quote k @ json_colon g @ t) @ ?rest) =
      CHR 0x22 # concat (map json_escape k) @ CHR 0x22 # json_colon g @ t @ ?rest"
    using skip_ws_quote [OF w(1), of k "json_colon g @ t @ ?rest"] by simp
  moreover have "skip_ws (json_colon g @ t @ ?rest) = CHR '':'' # sp @ t @ ?rest"
    using col skip_ws_delim [of "[]" "CHR '':''"] by simp
  moreover have "skip_ws ?rest = c # r" using w(2) c skip_ws_delim by blast
  moreover note parse_string_body_quote [of k "json_colon g @ t @ ?rest"] v
  ultimately show ?thesis using c by (auto simp: Let_def simp del: parse_value.simps)
qed

lemma json_colon_space: obtains sp where "json_colon g = CHR '':'' # sp" "json_space sp"
  by (cases "g = 0") (auto simp: json_colon_def json_space_def is_json_ws_def)

lemma reads_members:
  assumes "list_all2 (\<lambda>m e. \<exists>t. m = json_quote (fst e) @ json_colon g @ t \<and> reads_as t (snd e)) ms es"
    "ms \<noteq> []" "json_space w" "json_space w'"
  shows "\<exists>F. \<forall>f\<ge>F. parse_members f acc (w @ join ('','' @ w) ms @ w' @ CHR ''}'' # r) =
    Some (fold (\<lambda>(k, v). obj_set k v) es acc, r)"
  using assms(1,2)
proof (induction ms es arbitrary: acc rule: list_all2_induct)
  case (Cons m ms e es)
  obtain k v where e: "e = (k, v)" by (cases e)
  obtain t where m: "m = json_quote k @ json_colon g @ t" "reads_as t v" using Cons.hyps(1) e by auto
  obtain sp where sp: "json_colon g = CHR '':'' # sp" "json_space sp" by (rule json_colon_space)
  show ?case
  proof (cases "ms = []")
    case True
    then have es: "es = []" using Cons.hyps by simp
    obtain F where F: "\<And>f. F \<le> f \<Longrightarrow> parse_value f (sp @ t @ w' @ CHR ''}'' # r) = Some (v, w' @ CHR ''}'' # r)"
      using reads_asE [OF m(2) sp(2) num_stop_delim [OF assms(4), of "CHR ''}''" r]] by auto
    have "parse_members f acc (w @ m @ w' @ CHR ''}'' # r) = Some (obj_set k v acc, r)" if "Suc F \<le> f" for f
      using parse_members_step [OF F sp(1) assms(3,4)] that unfolding m(1) by (cases f) auto
    then show ?thesis using True es e by auto
  next
    case False
    let ?more = "w @ join ('','' @ w) ms @ w' @ CHR ''}'' # r"
    obtain G where G: "\<And>f. G \<le> f \<Longrightarrow>
        parse_members f (obj_set k v acc) ?more = Some (fold (\<lambda>(k, v). obj_set k v) es (obj_set k v acc), r)"
      using Cons.IH [OF False] by blast
    obtain F where F: "\<And>f. F \<le> f \<Longrightarrow> parse_value f (sp @ t @ [] @ CHR '','' # ?more) = Some (v, [] @ CHR '','' # ?more)"
      using reads_asE [OF m(2) sp(2) num_stop_delim [of "[]" "CHR '',''" ?more]] by auto
    have eq: "w @ join ('','' @ w) (m # ms) @ w' @ CHR ''}'' # r = w @ m @ [] @ CHR '','' # ?more"
      using False by (cases ms) simp_all
    have "parse_members f acc (w @ m @ [] @ CHR '','' # ?more) = Some (fold (\<lambda>(k, v). obj_set k v) (e # es) acc, r)"
      if f: "Suc (max F G) \<le> f" for f
    proof -
      obtain n where n: "f = Suc n" "F \<le> n" "G \<le> n" using f by (cases f) auto
      show ?thesis
        using parse_members_step [OF F [OF n(2)] sp(1) assms(3) json_space_Nil, of acc k] G [OF n(3)]
        unfolding n(1) m(1) by (simp add: e)
    qed
    then show ?thesis unfolding eq by blast
  qed
qed simp

lemma reads_as_array:
  assumes "list_all2 reads_as ts vs" "ts \<noteq> []" "json_space w" "json_space w'"
    and "\<And>t. t \<in> set ts \<Longrightarrow> t \<noteq> [] \<and> \<not> is_json_ws (hd t) \<and> hd t \<noteq> CHR '']''"
  shows "reads_as (''['' @ w @ join ('','' @ w) ts @ w' @ '']'') (JArr vs)"
  unfolding reads_as_def
proof (intro allI impI)
  fix u rest assume u: "json_space u" "num_stop rest"
  let ?body = "w @ join ('','' @ w) ts @ w' @ CHR '']'' # rest"
  obtain F where F: "\<And>f. F \<le> f \<Longrightarrow> parse_elements f ?body = Some (vs, rest)"
    using reads_elements [OF assms(1-4)] by blast
  obtain t ts' where "ts = t # ts'" using assms(2) by (cases ts) auto
  then have "\<exists>c cs. join ('','' @ w) ts = c # cs \<and> \<not> is_json_ws c \<and> c \<noteq> CHR '']''"
    using assms(5) [of t] by (cases t; cases ts') auto
  then have ne: "\<not> starts_with '']'' (skip_ws ?body)" using assms(3) by (auto simp: skip_ws_space skip_ws_hd)
  have "skip_ws (u @ (''['' @ w @ join ('','' @ w) ts @ w' @ '']'') @ rest) = CHR ''['' # ?body"
    using u(1) by (simp add: skip_ws_space skip_ws_hd is_json_ws_def)
  then have "parse_value (Suc f) (u @ (''['' @ w @ join ('','' @ w) ts @ w' @ '']'') @ rest) = Some (JArr vs, rest)"
    if "F \<le> f" for f using F [OF that] ne by (simp del: parse_elements.simps)
  then show "reads (u @ (''['' @ w @ join ('','' @ w) ts @ w' @ '']'') @ rest) (JArr vs) rest"
    unfolding reads_def by (metis Suc_le_D Suc_le_mono)
qed

lemma reads_as_object:
  assumes "list_all2 (\<lambda>m e. \<exists>t. m = json_quote (fst e) @ json_colon g @ t \<and> reads_as t (snd e)) ms es"
    "ms \<noteq> []" "json_space w" "json_space w'" "distinct (map fst es)"
  shows "reads_as (''{'' @ w @ join ('','' @ w) ms @ w' @ ''}'') (JObj es)"
  unfolding reads_as_def
proof (intro allI impI)
  fix u rest assume u: "json_space u" "num_stop rest"
  let ?body = "w @ join ('','' @ w) ms @ w' @ CHR ''}'' # rest"
  obtain F where F: "\<And>f. F \<le> f \<Longrightarrow> parse_members f [] ?body = Some (es, rest)"
    using reads_members [OF assms(1-4), of "[]"] fold_obj_set [of "[]" es] assms(5) by auto
  obtain m ms' e es' where ms: "ms = m # ms'" "es = e # es'" using assms(1,2) by (cases ms; cases es) auto
  then have "\<exists>cs. join ('','' @ w) ms = CHR 0x22 # cs"
    using assms(1) by (cases ms') (auto simp: json_quote_def)
  then have ne: "\<not> starts_with ''}'' (skip_ws ?body)"
    using assms(3) by (auto simp: skip_ws_space skip_ws_hd is_json_ws_def)
  have "skip_ws (u @ (''{'' @ w @ join ('','' @ w) ms @ w' @ ''}'') @ rest) = CHR ''{'' # ?body"
    using u(1) by (simp add: skip_ws_space skip_ws_hd is_json_ws_def)
  then have "parse_value (Suc f) (u @ (''{'' @ w @ join ('','' @ w) ms @ w' @ ''}'') @ rest) = Some (JObj es, rest)"
    if "F \<le> f" for f using F [OF that] ne by (simp del: parse_members.simps)
  then show "reads (u @ (''{'' @ w @ join ('','' @ w) ms @ w' @ ''}'') @ rest) (JObj es) rest"
    unfolding reads_def by (metis Suc_le_D Suc_le_mono)
qed


lemma insort_key_map: "insort_key k (f x) (map f xs) = map f (insort_key (\<lambda>y. k (f y)) x xs)"
  by (induction xs) auto

lemma sort_key_map: "sort_key k (map f xs) = map f (sort_key (\<lambda>y. k (f y)) xs)"
  by (induction xs) (auto simp: insort_key_map)

lemma obj_entries_map: "obj_entries (map (map_prod id f) kvs) = map (map_prod id f) (obj_entries kvs)"
  by (simp add: obj_entries_def filter_map sort_key_map comp_def)

lemma obj_entries_idem [simp]: "obj_entries (obj_entries kvs) = obj_entries kvs"
proof -
  have "filter P (sort_key k (filter P xs)) = sort_key k (filter P xs)" for P and k :: "string \<times> 'a \<Rightarrow> int" and xs
    by (simp add: filter_id_conv)
  moreover have "filter (\<lambda>e. \<not> P e) (sort_key k (filter P xs)) = []" for P and k :: "string \<times> 'a \<Rightarrow> int" and xs
    by (simp add: filter_empty_conv)
  ultimately show ?thesis by (simp add: obj_entries_def sort_key_id_if_sorted)
qed

lemma json_canon_undefined [simp]: "json_canon v = JUndefined \<longleftrightarrow> v = JUndefined"
  by (cases v) auto

lemma json_text_hd:
  assumes "json_ok v"
  shows "json_text g i v \<noteq> [] \<and> \<not> is_json_ws (hd (json_text g i v)) \<and> hd (json_text g i v) \<noteq> CHR '']''"
proof (cases v)
  case (JNum n)
  then show ?thesis
  proof (cases n)
    case (Fin x)
    then obtain c cs where "js_String (Fin x) = c # cs" "is_num_char c"
      using js_String_chars [of x] assms JNum by (cases "js_String (Fin x)") auto
    then show ?thesis using JNum Fin num_char_facts [of c]
      by (auto simp: json_number_text_def is_num_char_def is_digit_def simp del: js_String.simps)
  qed (simp_all add: json_number_text_def is_json_ws_def)
qed (use assms in \<open>auto simp: json_quote_def is_json_ws_def Let_def\<close>)

lemma json_text_reads: "json_ok v \<Longrightarrow> reads_as (json_text g i v) (json_canon v)"
proof (induction v arbitrary: i)
  case (JNum n)
  then show ?case
    using reads_as_number reads_as_literal by (cases n) (simp_all add: json_number_text_def del: js_String.simps)
next
  case (JArr vs)
  show ?case
  proof (cases "vs = []")
    case True
    then show ?thesis using reads_as_literal by simp
  next
    case False
    have "list_all2 reads_as (map (json_text g (i + g)) vs) (map json_canon vs)"
      using JArr by (simp add: list.rel_map list_all2_same)
    then have "reads_as (''['' @ new_line g (i + g) @ join ('','' @ new_line g (i + g)) (map (json_text g (i + g)) vs) @
        new_line g i @ '']'') (JArr (map json_canon vs))"
      using False JArr.prems json_text_hd by (intro reads_as_array) auto
    then show ?thesis using False by simp
  qed
next
  case (JObj kvs)
  let ?es = "obj_entries kvs"
  have ok: "json_ok (snd e)" "reads_as (json_text g j (snd e)) (json_canon (snd e))" if "e \<in> set ?es" for e j
    using JObj.prems JObj.IH [of e "snd e"] that by (auto simp: snds.simps)
  have nu: "filter (\<lambda>e. snd e \<noteq> JUndefined) ?es = ?es"
    unfolding filter_id_conv using ok(1) by force
  show ?case
  proof (cases "?es = []")
    case True
    then show ?thesis using reads_as_literal by (simp add: obj_entries_map)
  next
    case False
    let ?ms = "map (\<lambda>e. json_quote (fst e) @ json_colon g @ json_text g (i + g) (snd e)) ?es"
    have "list_all2 (\<lambda>m e. \<exists>t. m = json_quote (fst e) @ json_colon g @ t \<and> reads_as t (snd e))
        ?ms (map (map_prod id json_canon) ?es)"
      using ok(2) by (auto simp: list.rel_map list_all2_same)
    moreover have "distinct (map fst (map (map_prod id json_canon) ?es))"
      using JObj.prems obj_entries_distinct [of kvs] by (simp add: comp_def)
    ultimately have "reads_as (''{'' @ new_line g (i + g) @ join ('','' @ new_line g (i + g)) ?ms @ new_line g i @ ''}'')
        (JObj (map (map_prod id json_canon) ?es))"
      using False by (intro reads_as_object) simp_all
    then show ?thesis using False nu by (simp add: Let_def obj_entries_map)
  qed
qed (use reads_as_quote reads_as_literal in auto)

text \<open>Parsing the text of a value gives the value, up to what is lost in print.\<close>

lemma json_parse_stringify_canon:
  assumes "json_ok v"
  shows "json_parse (json_stringify g v) = Some (json_canon v)"
proof -
  have "reads ([] @ json_text g 0 v @ []) (json_canon v) []"
    using json_text_reads [OF assms, of g 0] unfolding reads_as_def by (metis json_space_Nil num_stop_def)
  then show ?thesis by (simp add: reads_json_parse json_stringify_def skip_ws_def)
qed

lemma json_text_canon: "json_text g i (json_canon v) = json_text g i v"
proof (induction v arbitrary: i)
  case (JObj kvs)
  have "filter (\<lambda>e. snd e \<noteq> JUndefined) (map (map_prod id json_canon) (obj_entries kvs)) =
      map (map_prod id json_canon) (filter (\<lambda>e. snd e \<noteq> JUndefined) (obj_entries kvs))"
    by (simp add: filter_map comp_def)
  moreover have e: "json_text g j (json_canon (snd e)) = json_text g j (snd e)" if "e \<in> set kvs" for e j
    using JObj [of e "snd e"] that by (auto simp: snds.simps)
  have m: "map (\<lambda>e. json_quote (fst e) @ json_colon g @ json_text g j (json_canon (snd e)))
        (filter (\<lambda>e. snd e \<noteq> JUndefined) (obj_entries kvs)) =
      map (\<lambda>e. json_quote (fst e) @ json_colon g @ json_text g j (snd e))
        (filter (\<lambda>e. snd e \<noteq> JUndefined) (obj_entries kvs))" for j
    by (intro map_cong) (simp_all add: e)
  ultimately show ?case by (simp add: Let_def obj_entries_map comp_def m)
qed (auto simp: json_number_text_def comp_def cong: map_cong)

lemma json_stringify_canon [simp]: "json_stringify g (json_canon v) = json_stringify g v"
  by (simp add: json_stringify_def json_text_canon)

lemma json_ok_canon: "json_ok v \<Longrightarrow> json_ok (json_canon v)"
proof (induction v)
  case (JObj kvs)
  then show ?case using obj_entries_distinct [of kvs] by (auto simp: obj_entries_map snds.simps)
qed auto


text \<open>What \<open>JSON.parse\<close> returns is such a value.\<close>

lemma json_number_wf: "json_number s = Some (n, r) \<Longrightarrow> wf_num n"
  by (auto simp: json_number_def Let_def fround_wf split: if_splits option.splits)

lemma json_ok_obj_set: "json_ok (JObj kvs) \<Longrightarrow> json_ok v \<Longrightarrow> json_ok (JObj (obj_set k v kvs))"
  using set_obj_set [of k v kvs] distinct_obj_set [of kvs k v] by fastforce

lemma parse_json_ok:
  "(parse_value f s = Some (v, r) \<longrightarrow> json_ok v) \<and>
   (parse_elements f s = Some (vs, r) \<longrightarrow> json_ok (JArr vs)) \<and>
   (parse_members f acc s = Some (ms, r) \<longrightarrow> json_ok (JObj acc) \<longrightarrow> json_ok (JObj ms))"
proof (induction f arbitrary: s v r vs acc ms)
  case (Suc f)
  have V: "json_ok v" if "parse_value f s = Some (v, r)" for s v r using Suc.IH that by blast
  have E: "json_ok (JArr vs)" if "parse_elements f s = Some (vs, r)" for s vs r using Suc.IH that by blast
  have M: "json_ok (JObj ms)" if "parse_members f acc s = Some (ms, r)" "json_ok (JObj acc)" for s acc ms r
    using Suc.IH that by blast
  have "json_ok v" if "parse_value (Suc f) s = Some (v, r)"
    using that by (auto simp: Let_def json_number_wf simp del: json_ok.simps(3,4) dest!: E M split: if_splits) auto
  moreover have "json_ok (JArr vs)" if "parse_elements (Suc f) s = Some (vs, r)"
    using that V E by (fastforce simp: Let_def split: if_splits option.splits)
  moreover have "json_ok (JObj ms)" if m: "parse_members (Suc f) acc s = Some (ms, r)" and acc: "json_ok (JObj acc)"
  proof -
    obtain k v where v: "json_ok v" and
      ms: "ms = obj_set k v acc \<or> (\<exists>u. parse_members f (obj_set k v acc) u = Some (ms, r))"
      using m by (auto simp: Let_def dest!: V split: if_splits option.splits) blast+
    then show ?thesis using M json_ok_obj_set [OF acc v] by blast
  qed
  ultimately show ?case by blast
qed simp

lemma json_parse_ok: "json_parse s = Some v \<Longrightarrow> json_ok v"
  using parse_json_ok [of "2 * length s + 2" s v] unfolding json_parse_def by (auto split: option.splits if_splits simp del: parse_value.simps)

section \<open>Objects of simple values\<close>

fun simple_val :: "jsval \<Rightarrow> bool" where
  "simple_val (JStr s) = True"
| "simple_val (JNum (Fin x)) = binary64 x"
| "simple_val (JBool b) = True"
| "simple_val JNull = True"
| "simple_val _ = False"

definition simple_obj :: "(string \<times> jsval) list \<Rightarrow> bool" where
  "simple_obj kvs \<longleftrightarrow> distinct (map fst kvs) \<and> list_all simple_val (map snd kvs)"

lemma simple_val_canon: "simple_val v \<Longrightarrow> json_ok v \<and> json_canon v = v"
  by (induction v rule: simple_val.induct) auto

text \<open>Parsing the text of an object of simple values gives its entries in enumeration order.\<close>

lemma json_parse_stringify:
  assumes "simple_obj kvs"
  shows "json_parse (json_stringify g (JObj kvs)) = Some (JObj (obj_entries kvs))"
proof -
  have "map (map_prod id json_canon) kvs = kvs"
    using assms simple_val_canon by (intro map_idI) (auto simp: simple_obj_def list_all_iff)
  then show ?thesis
    using assms simple_val_canon json_parse_stringify_canon [of "JObj kvs" g]
    by (simp add: simple_obj_def list_all_iff)
qed

lemma trim_Nil_iff: "trim s = [] \<longleftrightarrow> (\<forall>c\<in>set s. is_ws c)"
proof
  assume "trim s = []"
  then have "\<forall>c\<in>set (dropWhile is_ws s). is_ws c" by (simp add: trim_def dropWhile_eq_Nil_conv)
  then have "dropWhile is_ws s = []" by (metis dropWhile_eq_Nil_conv hd_dropWhile list.set_sel(1))
  then show "\<forall>c\<in>set s. is_ws c" by (simp add: dropWhile_eq_Nil_conv)
qed (auto simp: trim_def dropWhile_eq_Nil_conv dest: set_dropWhileD)

lemma blank_not_json: "trim s = [] \<Longrightarrow> json_parse s = None"
proof -
  assume "trim s = []"
  then have ws: "\<forall>c\<in>set (skip_ws s). is_ws c" unfolding trim_Nil_iff skip_ws_def by (meson set_dropWhileD)
  have "parse_value (Suc n) s = None" for n
  proof (cases "skip_ws s")
    case (Cons c t)
    then have "is_ws c" using ws by simp
    then have "json_number (c # t) = None" "c \<notin> {CHR 0x22, CHR ''['', CHR ''{'', CHR ''t'', CHR ''f'', CHR ''n''}"
      by (auto simp: is_ws_def json_number_def is_digit_def Let_def)
    then show ?thesis using Cons by (auto simp: Let_def)
  qed simp
  from this [of "2 * length s + 1"] show ?thesis by (simp add: json_parse_def)
qed

end
