(* ===== verification/PricingSettings.thy ===== *)
theory PricingSettings
  imports PricingEditor JsJsonPrint
begin

text \<open>
  The stored pricing settings (\<open>features/system-settings/models\<close>): \<open>model-pricing-snapshots.ts\<close>,
  \<open>safeJsonParse\<close> of \<open>utils/json-parser.ts\<close> and the table of \<open>model-ratio-visual-editor.tsx\<close> that reads,
  compares, changes and writes them.

  The settings are ten JSON texts, each an object from model names to a number or a string. The ten parallel
  variables of the source are one function from \<open>PriceKey\<close>. Reading a setting whose JSON is not an object, or
  a billing expression that is not a string, contradicts the declared types and is an error of the model.
  An absent optional field and an empty one are treated alike throughout the source, so both are the empty
  text here. Inherited properties of objects are not modelled.
\<close>

section \<open>Settings\<close>

datatype PriceKey = ModelPrice | ModelRatio | CacheRatio | CreateCacheRatio | CompletionRatio | ImageRatio
  | AudioRatio | AudioCompletionRatio | BillingMode | BillingExpr

definition price_keys :: "PriceKey list" where
  "price_keys = [ModelPrice, ModelRatio, CacheRatio, CreateCacheRatio, CompletionRatio, ImageRatio, AudioRatio,
     AudioCompletionRatio, BillingMode, BillingExpr]"

type_synonym price_map = "(string \<times> jsval) list"
type_synonym PricingTexts = "PriceKey \<Rightarrow> string"
type_synonym PricingMaps = "PriceKey \<Rightarrow> price_map"

datatype pricing_error = NotAnObject | NotAString | ParseError parse_exn

definition safeJsonParse :: "string \<Rightarrow> jsval \<Rightarrow> jsval" where
  "safeJsonParse v fallback =
     (if v = [] \<or> trim v = [] then fallback
      else case json_parse (trim v) of None \<Rightarrow> fallback | Some x \<Rightarrow> x)"

definition read_map :: "string \<Rightarrow> price_map option" where
  "read_map s = (case safeJsonParse s (JObj []) of JObj kvs \<Rightarrow> Some kvs | _ \<Rightarrow> None)"

definition read_maps :: "PricingTexts \<Rightarrow> pricing_error + PricingMaps" where
  "read_maps T =
     (if list_ex (\<lambda>k. read_map (T k) = None) price_keys then Inl NotAnObject
      else Inr (\<lambda>k. case read_map (T k) of None \<Rightarrow> [] | Some kvs \<Rightarrow> kvs))"

definition write_maps :: "PricingMaps \<Rightarrow> PricingTexts" where
  "write_maps M = (\<lambda>k. json_stringify 2 (JObj (M k)))"

section \<open>Snapshots\<close>

record ModelPricingSnapshot =
  sn_name :: string
  sn_price :: string
  sn_ratio :: string
  sn_cacheRatio :: string
  sn_createCacheRatio :: string
  sn_completionRatio :: string
  sn_imageRatio :: string
  sn_audioRatio :: string
  sn_audioCompletionRatio :: string
  sn_billingMode :: string
  sn_billingExpr :: string
  sn_requestRuleExpr :: string
  hasConflict :: bool

definition hasPricingValue :: "string \<Rightarrow> bool" where
  "hasPricingValue v \<longleftrightarrow> v \<noteq> []"

definition price_number :: "string \<Rightarrow> jsnum option" where
  "price_number v =
     (if \<not> hasPricingValue v then None
      else let num = string_to_number v in if is_finite num then Some num else None)"

definition ratioToPrice :: "string \<Rightarrow> string \<Rightarrow> string" where
  "ratioToPrice ratio denominator =
     (case (price_number ratio, if denominator \<noteq> [] then price_number denominator else Some (Fin 2)) of
        (Some ratioNumber, Some denominatorNumber) \<Rightarrow> formatPricingNumber (JNum (js_mul ratioNumber denominatorNumber))
      | _ \<Rightarrow> [])"

definition getModeLabel :: "string \<Rightarrow> string" where
  "getModeLabel mode =
     (if mode = ''per-request'' then ''Per-request''
      else if mode = ''tiered_expr'' then ''Expression'' else ''Per-token'')"

datatype mode_variant = Warning | Info | Success

definition getModeVariant :: "string \<Rightarrow> mode_variant" where
  "getModeVariant mode =
     (if mode = ''per-request'' then Warning else if mode = ''tiered_expr'' then Info else Success)"

text \<open>The separator of the summaries is a middle dot between spaces.\<close>

definition dot_sep :: string where "dot_sep = [CHR '' '', CHR 0xB7, CHR '' '']"

definition getExpressionSummary :: "(string \<Rightarrow> string) \<Rightarrow> ModelPricingSnapshot \<Rightarrow> string" where
  "getExpressionSummary t row =
     (let tierCount = length (rx_exec_all (lit ''tier('') [] (sn_billingExpr row)) in
      if tierCount > 0 then t ''Tiered pricing'' @ dot_sep @ string_of_nat tierCount @ '' '' @ t ''tiers''
      else t ''Expression pricing'')"

definition getPriceSummary :: "(string \<Rightarrow> string) \<Rightarrow> ModelPricingSnapshot \<Rightarrow> string" where
  "getPriceSummary t row =
     (if sn_billingMode row = ''tiered_expr'' then getExpressionSummary t row
      else if sn_billingMode row = ''per-request'' then
        (if sn_price row \<noteq> [] then ''$'' @ sn_price row @ '' / '' @ t ''request'' else t ''Unset price'')
      else
        let inputPrice = ratioToPrice (sn_ratio row) [] in
        if inputPrice = [] then t ''Unset price''
        else
          let extraCount = length (filter hasPricingValue [sn_completionRatio row, sn_cacheRatio row,
                sn_createCacheRatio row, sn_imageRatio row, sn_audioRatio row, sn_audioCompletionRatio row])
          in if extraCount > 0 then t ''Input'' @ '' $'' @ inputPrice @ dot_sep @ string_of_nat extraCount @ '' '' @ t ''extras''
             else t ''Input'' @ '' $'' @ inputPrice)"

definition price_detail :: "string \<Rightarrow> string \<Rightarrow> string \<Rightarrow> string list" where
  "price_detail label ratio inputPrice = (if ratio \<noteq> [] then [label @ '' $'' @ ratioToPrice ratio inputPrice] else [])"

definition getPriceDetail :: "(string \<Rightarrow> string) \<Rightarrow> ModelPricingSnapshot \<Rightarrow> string" where
  "getPriceDetail t row =
     (if sn_billingMode row = ''tiered_expr'' then
        (if sn_requestRuleExpr row \<noteq> [] then t ''Includes request rules'' else t ''Expression based'')
      else if sn_billingMode row = ''per-request'' then t ''Fixed request price''
      else
        let inputPrice = ratioToPrice (sn_ratio row) [] in
        if inputPrice = [] then t ''No base input price''
        else
          let details = take 2 (price_detail (t ''Output'') (sn_completionRatio row) inputPrice @
                price_detail (t ''Cache'') (sn_cacheRatio row) inputPrice @
                price_detail (t ''Cache write'') (sn_createCacheRatio row) inputPrice)
          in if details \<noteq> [] then join dot_sep details else t ''Base input price only'')"

text \<open>\<open>map[name]?.toString() || ''\<close>.\<close>

definition cell_text :: "jsval option \<Rightarrow> string" where
  "cell_text v =
     (case v of None \<Rightarrow> [] | Some x \<Rightarrow> if x = JNull \<or> x = JUndefined then [] else js_to_string x)"

definition expr_text :: "jsval option \<Rightarrow> pricing_error + string" where
  "expr_text v =
     (case v of
        None \<Rightarrow> Inr []
      | Some (JStr s) \<Rightarrow> Inr s
      | Some x \<Rightarrow> if truthy x then Inl NotAString else Inr [])"

definition split_expr :: "string \<Rightarrow> pricing_error + SplitBillingExpr" where
  "split_expr e = (case splitBillingExprAndRequestRules e of Inl x \<Rightarrow> Inl (ParseError x) | Inr s \<Rightarrow> Inr s)"

definition model_snapshot :: "PricingMaps \<Rightarrow> string \<Rightarrow> pricing_error + ModelPricingSnapshot" where
  "model_snapshot M name =
     (let txt = (\<lambda>k. cell_text (map_of (M k) name));
          row = \<lparr>sn_name = name, sn_price = txt ModelPrice, sn_ratio = txt ModelRatio, sn_cacheRatio = txt CacheRatio,
            sn_createCacheRatio = txt CreateCacheRatio, sn_completionRatio = txt CompletionRatio,
            sn_imageRatio = txt ImageRatio, sn_audioRatio = txt AudioRatio,
            sn_audioCompletionRatio = txt AudioCompletionRatio,
            sn_billingMode = (if txt ModelPrice \<noteq> [] then ''per-request'' else ''per-token''),
            sn_billingExpr = [], sn_requestRuleExpr = [],
            hasConflict = (txt ModelPrice \<noteq> [] \<and>
              (txt ModelRatio \<noteq> [] \<or> txt CompletionRatio \<noteq> [] \<or> txt CacheRatio \<noteq> [] \<or> txt CreateCacheRatio \<noteq> [] \<or>
               txt ImageRatio \<noteq> [] \<or> txt AudioRatio \<noteq> [] \<or> txt AudioCompletionRatio \<noteq> []))\<rparr>
      in if map_of (M BillingMode) name = Some (JStr ''tiered_expr'') then
           sbind (expr_text (map_of (M BillingExpr) name)) (\<lambda>fullExpr.
           sbind (split_expr fullExpr) (\<lambda>s.
           Inr (row\<lparr>sn_billingMode := ''tiered_expr'', sn_billingExpr := sb_billingExpr s,
                    sn_requestRuleExpr := sb_requestRuleExpr s, hasConflict := False\<rparr>)))
         else Inr row)"

definition model_names :: "PricingMaps \<Rightarrow> string list" where
  "model_names M = uniq (concat (map (\<lambda>k. obj_keys (M k)) price_keys))"

definition buildModelSnapshots :: "PricingTexts \<Rightarrow> pricing_error + ModelPricingSnapshot list" where
  "buildModelSnapshots T = sbind (read_maps T) (\<lambda>M. smap (model_snapshot M) (model_names M))"

definition signature_object :: "ModelPricingSnapshot \<Rightarrow> (string \<times> jsval) list" where
  "signature_object s =
     [(''price'', JStr (sn_price s)), (''ratio'', JStr (sn_ratio s)), (''cacheRatio'', JStr (sn_cacheRatio s)),
      (''createCacheRatio'', JStr (sn_createCacheRatio s)), (''completionRatio'', JStr (sn_completionRatio s)),
      (''imageRatio'', JStr (sn_imageRatio s)), (''audioRatio'', JStr (sn_audioRatio s)),
      (''audioCompletionRatio'', JStr (sn_audioCompletionRatio s)),
      (''billingMode'', JStr (str_or (sn_billingMode s) ''per-token'')), (''billingExpr'', JStr (sn_billingExpr s)),
      (''requestRuleExpr'', JStr (sn_requestRuleExpr s))]"

definition getSnapshotSignature :: "ModelPricingSnapshot option \<Rightarrow> string" where
  "getSnapshotSignature snapshot =
     (case snapshot of None \<Rightarrow> [] | Some s \<Rightarrow> json_stringify 0 (JObj (signature_object s)))"

section \<open>The table\<close>

record ModelRow =
  mr_displayed :: ModelPricingSnapshot
  mr_saved :: "ModelPricingSnapshot option"
  mr_draft :: "ModelPricingSnapshot option"
  isDraftChanged :: bool
  isDraftDeleted :: bool
  isDraftNew :: bool

text \<open>A \<open>Map\<close> built from rows: a later row of the same name replaces an earlier one.\<close>

definition by_name :: "ModelPricingSnapshot list \<Rightarrow> string \<Rightarrow> ModelPricingSnapshot option" where
  "by_name rows name = map_of (rev (map (\<lambda>r. (sn_name r, r)) rows)) name"

definition model_row :: "ModelPricingSnapshot list \<Rightarrow> ModelPricingSnapshot list \<Rightarrow> string \<Rightarrow> ModelRow" where
  "model_row savedRows draftRows name =
     (let saved = by_name savedRows name; draft = by_name draftRows name in
      \<lparr>mr_displayed = (case saved of Some s \<Rightarrow> s | None \<Rightarrow> the draft), mr_saved = saved, mr_draft = draft,
       isDraftChanged = (getSnapshotSignature saved \<noteq> getSnapshotSignature draft),
       isDraftDeleted = (saved \<noteq> None \<and> draft = None),
       isDraftNew = (saved = None \<and> draft \<noteq> None)\<rparr>)"

text \<open>The order of names is that of \<open>localeCompare\<close>, an argument; the sort is stable.\<close>

definition model_rows ::
  "(string \<Rightarrow> 'o::linorder) \<Rightarrow> ModelPricingSnapshot list \<Rightarrow> ModelPricingSnapshot list \<Rightarrow> ModelRow list" where
  "model_rows locale_key savedRows draftRows =
     sort_key (\<lambda>r. locale_key (sn_name (mr_displayed r)))
       (map (model_row savedRows draftRows) (uniq (map sn_name savedRows @ map sn_name draftRows)))"

record ModeCounts =
  perToken :: nat
  perRequest :: nat
  tieredExpr :: nat

definition count_mode :: "ModelRow \<Rightarrow> ModeCounts \<Rightarrow> ModeCounts" where
  "count_mode r acc =
     (if sn_billingMode (mr_displayed r) = ''per-request'' then acc\<lparr>perRequest := perRequest acc + 1\<rparr>
      else if sn_billingMode (mr_displayed r) = ''tiered_expr'' then acc\<lparr>tieredExpr := tieredExpr acc + 1\<rparr>
      else acc\<lparr>perToken := perToken acc + 1\<rparr>)"

definition modeCounts :: "ModelRow list \<Rightarrow> ModeCounts" where
  "modeCounts rows = fold count_mode rows \<lparr>perToken = 0, perRequest = 0, tieredExpr = 0\<rparr>"

definition handleEdit :: "ModelRow \<Rightarrow> ModelRatioData" where
  "handleEdit row =
     (let m = (case mr_draft row of Some d \<Rightarrow> d | None \<Rightarrow> (case mr_saved row of Some s \<Rightarrow> s | None \<Rightarrow> mr_displayed row)) in
      \<lparr>rd_name = sn_name m, rd_price = Some (sn_price m), rd_ratio = Some (sn_ratio m),
       rd_cacheRatio = Some (sn_cacheRatio m), rd_createCacheRatio = Some (sn_createCacheRatio m),
       rd_completionRatio = Some (sn_completionRatio m), rd_imageRatio = Some (sn_imageRatio m),
       rd_audioRatio = Some (sn_audioRatio m), rd_audioCompletionRatio = Some (sn_audioCompletionRatio m),
       rd_billingMode = Some (if sn_billingMode m = ''tiered_expr'' then TieredExpr
                              else if sn_price m \<noteq> [] then PerRequest else PerToken),
       rd_billingExpr = Some (sn_billingExpr m), rd_requestRuleExpr = Some (sn_requestRuleExpr m)\<rparr>)"

section \<open>Changing the settings\<close>

definition handleDelete :: "string \<Rightarrow> PricingTexts \<Rightarrow> pricing_error + PricingTexts" where
  "handleDelete name T = sbind (read_maps T) (\<lambda>M. Inr (write_maps (\<lambda>k. obj_delete name (M k))))"

definition setIfPresent :: "string \<Rightarrow> string option \<Rightarrow> price_map \<Rightarrow> price_map" where
  "setIfPresent name v target =
     (if opt_text v = [] then target
      else let parsed = parse_float (opt_text v)
           in if is_finite parsed then obj_set name (JNum parsed) target else target)"

fun data_field :: "ModelRatioData \<Rightarrow> PriceKey \<Rightarrow> string option" where
  "data_field d ModelPrice = rd_price d"
| "data_field d ModelRatio = rd_ratio d"
| "data_field d CacheRatio = rd_cacheRatio d"
| "data_field d CreateCacheRatio = rd_createCacheRatio d"
| "data_field d CompletionRatio = rd_completionRatio d"
| "data_field d ImageRatio = rd_imageRatio d"
| "data_field d AudioRatio = rd_audioRatio d"
| "data_field d AudioCompletionRatio = rd_audioCompletionRatio d"
| "data_field d _ = None"

text \<open>One target of \<open>persistPricingData\<close>: every entry of the model is deleted, then those of its mode are set.\<close>

definition persist_one :: "ModelRatioData \<Rightarrow> string \<Rightarrow> PricingMaps \<Rightarrow> PricingMaps" where
  "persist_one data name M =
     (let D = (\<lambda>k. obj_delete name (M k));
          combined = combineBillingExpr (opt_text (rd_billingExpr data)) (opt_text (rd_requestRuleExpr data))
      in if rd_billingMode data = Some TieredExpr then
           (\<lambda>k. if k = BillingMode then (if combined \<noteq> [] then obj_set name (JStr ''tiered_expr'') (D k) else D k)
                else if k = BillingExpr then (if combined \<noteq> [] then obj_set name (JStr combined) (D k) else D k)
                else setIfPresent name (data_field data k) (D k))
         else if opt_text (rd_price data) \<noteq> [] then
           D(ModelPrice := setIfPresent name (rd_price data) (D ModelPrice))
         else (\<lambda>k. if k = BillingMode \<or> k = BillingExpr \<or> k = ModelPrice then D k
                   else setIfPresent name (data_field data k) (D k)))"

definition persistPricingData :: "ModelRatioData \<Rightarrow> string list \<Rightarrow> PricingTexts \<Rightarrow> pricing_error + PricingTexts" where
  "persistPricingData data targetNames T =
     sbind (read_maps T) (\<lambda>M. Inr (write_maps (fold (persist_one data) targetNames M)))"

text \<open>\<open>handleBatchCopy\<close>: \<open>None\<close> is a refusal that changes nothing.\<close>

definition handleBatchCopy ::
  "ModelRatioData option \<Rightarrow> string list \<Rightarrow> PricingTexts \<Rightarrow> (pricing_error + PricingTexts) option" where
  "handleBatchCopy editData targetNames T =
     (case editData of
        None \<Rightarrow> None
      | Some d \<Rightarrow> if targetNames = [] then None else Some (persistPricingData d targetNames T))"

text \<open>\<open>commitOpenEditor\<close> returns whether the editor could be committed, the settings and the edited data.\<close>

definition commitOpenEditor ::
  "PricingPanel option \<Rightarrow> ModelRatioData option \<Rightarrow> PricingTexts \<Rightarrow>
   bool \<times> (pricing_error + PricingTexts) \<times> ModelRatioData option" where
  "commitOpenEditor panel editData T =
     (case panel of
        None \<Rightarrow> (True, Inr T, editData)
      | Some p \<Rightarrow> (case commitDraft p of
                    None \<Rightarrow> (False, Inr T, editData)
                  | Some d \<Rightarrow> (True, persistPricingData d [rd_name d] T, Some d)))"

section \<open>Reading what was written\<close>

lemma stringify_obj_text: "\<exists>u. json_stringify g (JObj kvs) = CHR ''{'' # u @ [CHR ''}'']"
  by (auto simp: json_stringify_def Let_def)

lemma trim_stringify_obj: "trim (json_stringify g (JObj kvs)) = json_stringify g (JObj kvs)"
  using stringify_obj_text [of g kvs] by (auto intro!: trim_id simp: is_ws_def)

lemma read_map_stringify: "simple_obj kvs \<Longrightarrow> read_map (json_stringify g (JObj kvs)) = Some (obj_entries kvs)"
  using stringify_obj_text [of g kvs]
  by (auto simp: read_map_def safeJsonParse_def trim_stringify_obj json_parse_stringify)

lemma simple_obj_entries: "simple_obj kvs \<Longrightarrow> simple_obj (obj_entries kvs)"
  using obj_entries_distinct by (auto simp: simple_obj_def list_all_iff)

text \<open>A store of objects: what is written under a key is read back with the same properties.\<close>

locale text_store =
  fixes load :: "'t \<Rightarrow> 'e + 'm"
    and save :: "'m \<Rightarrow> 't"
    and ok :: "'m \<Rightarrow> bool"
    and same :: "'m \<Rightarrow> 'm \<Rightarrow> bool"
  assumes load_save: "ok m \<Longrightarrow> \<exists>m'. load (save m) = Inr m' \<and> ok m' \<and> same m' m"
begin

text \<open>Updating through the text is updating the object.\<close>

lemma update_through_text:
  assumes "load t = Inr m" and "ok (f m)"
  shows "\<exists>m'. sbind (sbind (load t) (\<lambda>x. Inr (save (f x)))) load = Inr m' \<and> ok m' \<and> same m' (f m)"
  using assms load_save by simp

end

definition simple_maps :: "PricingMaps \<Rightarrow> bool" where
  "simple_maps M \<longleftrightarrow> (\<forall>k. simple_obj (M k))"

definition same_maps :: "PricingMaps \<Rightarrow> PricingMaps \<Rightarrow> bool" where
  "same_maps M M' \<longleftrightarrow> (\<forall>k. map_of (M k) = map_of (M' k))"

interpretation settings: text_store read_maps write_maps simple_maps same_maps
proof
  fix M assume s: "simple_maps M"
  then have "read_maps (write_maps M) = Inr (\<lambda>k. obj_entries (M k))"
    by (simp add: read_maps_def write_maps_def price_keys_def read_map_stringify simple_maps_def)
  then show "\<exists>M'. read_maps (write_maps M) = Inr M' \<and> simple_maps M' \<and> same_maps M' M"
    using s simple_obj_entries map_of_obj_entries by (auto simp: simple_maps_def same_maps_def simple_obj_def)
qed

section \<open>Updates\<close>

lemma simple_obj_set: "simple_obj m \<Longrightarrow> simple_val v \<Longrightarrow> simple_obj (obj_set k v m)"
  using set_obj_set [of k v m] distinct_obj_set by (fastforce simp: simple_obj_def list_all_iff)

lemma simple_obj_delete: "simple_obj m \<Longrightarrow> simple_obj (obj_delete n m)"
  by (auto simp: simple_obj_def obj_delete_def list_all_iff distinct_map_filter)

definition stored_number :: "string option \<Rightarrow> jsval option" where
  "stored_number v = (if opt_text v \<noteq> [] \<and> is_finite (parse_float (opt_text v)) then Some (JNum (parse_float (opt_text v))) else None)"

lemma map_of_setIfPresent:
  "map_of (setIfPresent n v m) = (case stored_number v of None \<Rightarrow> map_of m | Some x \<Rightarrow> (map_of m)(n \<mapsto> x))"
  by (simp add: setIfPresent_def stored_number_def Let_def map_of_obj_set)

lemma simple_setIfPresent: "simple_obj m \<Longrightarrow> simple_obj (setIfPresent n v m)"
proof -
  have "simple_val (JNum (parse_float s))" if "is_finite (parse_float s)" for s
    using that parse_float_wf [of s] by (cases "parse_float s") auto
  then show "simple_obj m \<Longrightarrow> simple_obj (setIfPresent n v m)"
    by (simp add: setIfPresent_def Let_def simple_obj_set)
qed

text \<open>What the settings hold for a model after its data was saved.\<close>

definition stored :: "ModelRatioData \<Rightarrow> PriceKey \<Rightarrow> jsval option" where
  "stored data k =
     (let combined = combineBillingExpr (opt_text (rd_billingExpr data)) (opt_text (rd_requestRuleExpr data)) in
      if rd_billingMode data = Some TieredExpr then
        (if k = BillingMode then (if combined \<noteq> [] then Some (JStr ''tiered_expr'') else None)
         else if k = BillingExpr then (if combined \<noteq> [] then Some (JStr combined) else None)
         else stored_number (data_field data k))
      else if opt_text (rd_price data) \<noteq> [] then (if k = ModelPrice then stored_number (rd_price data) else None)
      else if k = BillingMode \<or> k = BillingExpr \<or> k = ModelPrice then None
      else stored_number (data_field data k))"

lemma persist_one_map: "map_of (persist_one data n M k) = (map_of (M k))(n := stored data k)"
  by (auto simp: persist_one_def stored_def Let_def map_of_obj_set map_of_obj_delete map_of_setIfPresent
    split: option.splits)

lemma persist_one_simple: "simple_maps M \<Longrightarrow> simple_maps (persist_one data n M)"
  by (simp add: simple_maps_def persist_one_def Let_def simple_obj_set simple_obj_delete simple_setIfPresent)

lemma persist_map: "map_of (fold (persist_one data) ns M k) n = (if n \<in> set ns then stored data k else map_of (M k) n)"
  by (induction ns arbitrary: M) (auto simp: persist_one_map)

lemma persist_simple: "simple_maps M \<Longrightarrow> simple_maps (fold (persist_one data) ns M)"
  by (induction ns arbitrary: M) (simp_all add: persist_one_simple)

text \<open>Saving through the texts is saving into the objects: every target gets what is stored for the data.\<close>

lemma persisted_entries:
  assumes "read_maps T = Inr M" and "\<And>k. simple_obj (M k)"
  shows "\<exists>M'. sbind (persistPricingData data targets T) read_maps = Inr M' \<and>
    (\<forall>k n. map_of (M' k) n = (if n \<in> set targets then stored data k else map_of (M k) n))"
proof -
  have "simple_maps (fold (persist_one data) targets M)" using assms(2) by (intro persist_simple) (simp add: simple_maps_def)
  from settings.update_through_text [OF assms(1), where f = "fold (persist_one data) targets", OF this] show ?thesis
    by (auto simp: persistPricingData_def same_maps_def persist_map)
qed

text \<open>The entries a pricing mode consists of: a fixed price, the token ratios, or the expression with the
  prices and ratios kept beside it. Data agrees with its mode when, outside the expression mode, it has a
  fixed price exactly in the per-request mode.\<close>

definition mode_entries :: "ModelRatioData \<Rightarrow> PriceKey \<Rightarrow> jsval option" where
  "mode_entries data k =
     (case rd_billingMode data of
        Some TieredExpr \<Rightarrow>
          (let expr = combineBillingExpr (opt_text (rd_billingExpr data)) (opt_text (rd_requestRuleExpr data)) in
           if k = BillingMode then (if expr \<noteq> [] then Some (JStr ''tiered_expr'') else None)
           else if k = BillingExpr then (if expr \<noteq> [] then Some (JStr expr) else None)
           else stored_number (data_field data k))
      | Some PerRequest \<Rightarrow> if k = ModelPrice then stored_number (rd_price data) else None
      | _ \<Rightarrow> if k = BillingMode \<or> k = BillingExpr \<or> k = ModelPrice then None else stored_number (data_field data k))"

definition agrees_with_mode :: "ModelRatioData \<Rightarrow> bool" where
  "agrees_with_mode data \<longleftrightarrow> rd_billingMode data = Some TieredExpr \<or>
     (opt_text (rd_price data) \<noteq> []) = (rd_billingMode data = Some PerRequest)"

lemma stored_mode_entries: "agrees_with_mode data \<Longrightarrow> stored data k = mode_entries data k"
  by (auto simp: agrees_with_mode_def stored_def mode_entries_def Let_def split: option.split PricingMode.split)

text \<open>C15: For data that agrees with its pricing mode (in the per-request mode it has a fixed price, in the
  per-token mode it has none), saving it for a list of targets and reading the settings again gives, for
  every target, exactly the entries of that mode, each price or ratio as the number its text reads as: the
  fixed price only, the token ratios only, or the expression and its mark with the numbers kept beside it.
  Every other model has the entries it had before. Data that still holds a fixed price in the per-token mode is
  not covered: the code then saves the price, as \<open>mode_switch_not_saved\<close> shows below.\<close>

theorem persistPricingData_correct:
  assumes "read_maps T = Inr M" and "\<And>k. simple_obj (M k)" and "agrees_with_mode data"
  shows "\<exists>M'. sbind (persistPricingData data targets T) read_maps = Inr M' \<and>
    (\<forall>k n. map_of (M' k) n = (if n \<in> set targets then mode_entries data k else map_of (M k) n))"
  using persisted_entries [OF assms(1,2), of data targets] by (simp only: stored_mode_entries [OF assms(3)])

definition sample_texts :: PricingTexts where
  "sample_texts = (\<lambda>k. if k = ModelRatio then ''{'' @ json_quote ''b'' @ '': 2}'' else [])"

lemma read_sample_texts:
  "read_maps sample_texts = Inr (\<lambda>k. if k = ModelRatio then [(''b'', JNum (Fin 2))] else [])"
proof -
  have "read_map (''{'' @ json_quote ''b'' @ '': 2}'') = Some [(''b'', JNum (Fin 2))]" "read_map [] = Some []" by code_simp+
  then show ?thesis by (auto simp: read_maps_def sample_texts_def price_keys_def fun_eq_iff)
qed

lemma binary64_2: "binary64 2"
  using binary64_int [of 2] by simp

definition plain_data :: "string \<Rightarrow> ModelRatioData" where
  "plain_data r = \<lparr>rd_name = ''a'', rd_price = None, rd_ratio = Some r, rd_cacheRatio = None, rd_createCacheRatio = None,
     rd_completionRatio = None, rd_imageRatio = None, rd_audioRatio = None, rd_audioCompletionRatio = None,
     rd_billingMode = Some PerToken, rd_billingExpr = None, rd_requestRuleExpr = None\<rparr>"

theorem persistPricingData_correct_witness:
  "\<exists>M'. sbind (persistPricingData (plain_data ''1.5'') [''a''] sample_texts) read_maps = Inr M' \<and>
     map_of (M' ModelRatio) ''a'' = Some (JNum (Fin (3 / 2))) \<and> map_of (M' ModelRatio) ''b'' = Some (JNum (Fin 2))"
proof -
  have agrees: "agrees_with_mode (plain_data ''1.5'')" by code_simp
  have "simple_obj (if k = ModelRatio then [(''b'', JNum (Fin 2))] else [])" for k
    by (simp add: simple_obj_def binary64_2)
  from persistPricingData_correct [OF read_sample_texts this agrees, of "[''a'']"]
  obtain M' where M': "sbind (persistPricingData (plain_data ''1.5'') [''a''] sample_texts) read_maps = Inr M'"
    "\<And>k n. map_of (M' k) n = (if n \<in> set [''a''] then mode_entries (plain_data ''1.5'') k
       else map_of (if k = ModelRatio then [(''b'', JNum (Fin 2))] else []) n)" by blast
  moreover have "mode_entries (plain_data ''1.5'') ModelRatio = Some (JNum (Fin (3 / 2)))" by code_simp
  ultimately show ?thesis by simp
qed

text \<open>Switching a model from a fixed price to token prices is not saved: as long as the form still holds
  the fixed price, committing the panel in per-token mode writes the fixed price only, and the settings
  read back hold no ratio for the model.\<close>

theorem mode_switch_not_saved:
  assumes "pricingMode p = PerToken" and "pp_form p FPrice \<noteq> []" and "commitDraft p = Some d"
    and "read_maps T = Inr M" and "\<And>k. simple_obj (M k)"
  shows "fst (commitOpenEditor (Some p) e T) \<and>
    (\<exists>M'. sbind (fst (snd (commitOpenEditor (Some p) e T))) read_maps = Inr M' \<and>
      (\<forall>k. map_of (M' k) (rd_name d) = (if k = ModelPrice then stored_number (Some (pp_form p FPrice)) else None)))"
proof -
  have d: "d = buildSubmitData p" using assms(3) by (simp add: commitDraft_def split: if_splits)
  have "stored d k = (if k = ModelPrice then stored_number (Some (pp_form p FPrice)) else None)" for k
    using assms(1,2) by (simp add: d stored_def buildSubmitData_def Let_def opt_text_def)
  then show ?thesis
    using persisted_entries [OF assms(4,5), of d "[rd_name d]"] assms(3) by (auto simp: commitOpenEditor_def)
qed

lemma lane_ratio_none: "lane_ratio ((plain_data r)\<lparr>rd_price := x, rd_billingMode := m\<rparr>) lane = JUndefined"
  by (cases lane) (simp_all add: plain_data_def opt_val_def)

definition switched_panel :: PricingPanel where
  "switched_panel = handlePromptPriceChange ''3'' (handleModeChange PerToken
     (openPanel (Some ((plain_data [])\<lparr>rd_price := Some ''2'', rd_billingMode := Some PerRequest\<rparr>))))"

theorem mode_switch_not_saved_witness:
  "pp_form switched_panel FRatio = base_ratio ''3'' \<and>
   (\<exists>M'. sbind (fst (snd (commitOpenEditor (Some switched_panel) None sample_texts))) read_maps = Inr M' \<and> map_of (M' ModelRatio) ''a'' = None)"
proof -
  have rx: "rx_test numericDraftRegex ''3''" by code_simp
  have p: "pricingMode switched_panel = PerToken" "pp_form switched_panel FPrice \<noteq> []" "pp_form switched_panel FName = ''a''"
    "promptPrice switched_panel = ''3''" "pp_form switched_panel FRatio = base_ratio ''3''"
    using rx by (simp_all add: switched_panel_def handlePromptPriceChange_def handleModeChange_def openPanel_def Let_def
      plain_data_def opt_text_def opt_val_def createInitialLaneState_def syncLaneRatios_def laneConfigs_def)
  have off: "laneEnabled switched_panel lane = False" for lane
    using rx lane_ratio_none [where r = "[]" and x = "Some ''2''" and m = "Some PerRequest" and lane = lane]
    by (simp add: switched_panel_def handlePromptPriceChange_def handleModeChange_def openPanel_def Let_def
      createInitialLaneState_def hasValue_def)
  have n: "string_to_number ''3'' = Fin 3" "trim ''a'' = ''a''" by code_simp+
  have c: "commitDraft switched_panel = Some (buildSubmitData switched_panel)"
    using p off by (simp add: commitDraft_def validatePricingValues_def missing_input_price_def missing_audio_price_def
      laneConfigs_def)
  have nm: "rd_name (buildSubmitData switched_panel) = ''a''" using p(3) n(2) by (simp add: buildSubmitData_def Let_def)
  have "simple_obj (if k = ModelRatio then [(''b'', JNum (Fin 2))] else [])" for k
    by (simp add: simple_obj_def binary64_2)
  from mode_switch_not_saved [where e = None, OF p(1,2) c read_sample_texts this] show ?thesis using p(5) nm by auto
qed

section \<open>Signatures\<close>

definition pricing_of :: "ModelPricingSnapshot \<Rightarrow> string list" where
  "pricing_of s = [sn_price s, sn_ratio s, sn_cacheRatio s, sn_createCacheRatio s, sn_completionRatio s, sn_imageRatio s,
     sn_audioRatio s, sn_audioCompletionRatio s, str_or (sn_billingMode s) ''per-token'', sn_billingExpr s, sn_requestRuleExpr s]"

lemma signature_object_simple: "simple_obj (signature_object s)"
  by (simp add: simple_obj_def signature_object_def)

lemma signature_parse: "json_parse (getSnapshotSignature (Some s)) = Some (JObj (obj_entries (signature_object s)))"
  by (simp add: getSnapshotSignature_def json_parse_stringify signature_object_simple)

lemma signature_not_empty: "getSnapshotSignature (Some s) \<noteq> []"
  using stringify_obj_text [of 0 "signature_object s"] by (auto simp: getSnapshotSignature_def)

text \<open>The table marks a model as changed exactly when its saved and its draft pricing differ: a model on
  one side only is changed, and two snapshots have the same signature exactly when all eleven pricing
  fields agree.\<close>

theorem isDraftChanged_correct:
  "isDraftChanged (model_row savedRows draftRows name) \<longleftrightarrow>
     map_option pricing_of (by_name savedRows name) \<noteq> map_option pricing_of (by_name draftRows name)"
proof -
  have inj: "getSnapshotSignature (Some a) = getSnapshotSignature (Some b) \<longleftrightarrow> pricing_of a = pricing_of b" for a b
  proof
    assume "getSnapshotSignature (Some a) = getSnapshotSignature (Some b)"
    then have "obj_entries (signature_object a) = obj_entries (signature_object b)"
      using signature_parse [of a] signature_parse [of b] by simp
    then have "map_of (signature_object a) = map_of (signature_object b)"
      by (metis map_of_obj_entries signature_object_simple simple_obj_def)
    then have "map (map_of (signature_object a)) (map fst (signature_object a)) =
        map (map_of (signature_object b)) (map fst (signature_object a))" by simp
    then show "pricing_of a = pricing_of b" by (simp add: signature_object_def pricing_of_def)
  next
    assume "pricing_of a = pricing_of b"
    then have "signature_object a = signature_object b" by (simp add: signature_object_def pricing_of_def)
    then show "getSnapshotSignature (Some a) = getSnapshotSignature (Some b)" by (simp add: getSnapshotSignature_def)
  qed
  show ?thesis
    using inj signature_not_empty signature_not_empty [symmetric]
    by (cases "by_name savedRows name"; cases "by_name draftRows name")
      (auto simp: model_row_def Let_def getSnapshotSignature_def [of None])
qed

end
