(* ===== verification/RatioSync.thy ===== *)
theory RatioSync
  imports PricingSettings
begin

text \<open>
  Synchronising prices with upstream channels (\<open>features/system-settings/models\<close>):
  \<open>upstream-ratio-sync.tsx\<close>, its table \<open>upstream-ratio-sync-table.tsx\<close> and
  \<open>upstream-ratio-sync-helpers.ts\<close>.

  The user selects, per model and pricing field, the value of one upstream channel. The selections are the
  resolutions, an object from models to objects from fields to values; a field is a \<open>PriceKey\<close>, and the
  names of fields and of stored options are functions of it. Applying the selections rewrites the stored
  settings of \<open>PricingSettings\<close>.
\<close>

section \<open>Fields\<close>

text \<open>The names of the fields in the upstream data and of the stored options.\<close>

fun sync_name :: "PriceKey \<Rightarrow> string" where
  "sync_name ModelRatio = ''model_ratio''"
| "sync_name CompletionRatio = ''completion_ratio''"
| "sync_name CacheRatio = ''cache_ratio''"
| "sync_name CreateCacheRatio = ''create_cache_ratio''"
| "sync_name ImageRatio = ''image_ratio''"
| "sync_name AudioRatio = ''audio_ratio''"
| "sync_name AudioCompletionRatio = ''audio_completion_ratio''"
| "sync_name ModelPrice = ''model_price''"
| "sync_name BillingMode = ''billing_mode''"
| "sync_name BillingExpr = ''billing_expr''"

fun option_key :: "PriceKey \<Rightarrow> string" where
  "option_key ModelRatio = ''ModelRatio''"
| "option_key CompletionRatio = ''CompletionRatio''"
| "option_key CacheRatio = ''CacheRatio''"
| "option_key CreateCacheRatio = ''CreateCacheRatio''"
| "option_key ImageRatio = ''ImageRatio''"
| "option_key AudioRatio = ''AudioRatio''"
| "option_key AudioCompletionRatio = ''AudioCompletionRatio''"
| "option_key ModelPrice = ''ModelPrice''"
| "option_key BillingMode = ''billing_setting.billing_mode''"
| "option_key BillingExpr = ''billing_setting.billing_expr''"

definition RATIO_SYNC_FIELDS :: "PriceKey list" where
  "RATIO_SYNC_FIELDS = [ModelRatio, CompletionRatio, CacheRatio, CreateCacheRatio, ImageRatio, AudioRatio, AudioCompletionRatio]"

definition SYNC_FIELD_ORDER :: "PriceKey list" where
  "SYNC_FIELD_ORDER = RATIO_SYNC_FIELDS @ [ModelPrice, BillingMode, BillingExpr]"

definition NUMERIC_SYNC_FIELDS :: "PriceKey list" where
  "NUMERIC_SYNC_FIELDS = RATIO_SYNC_FIELDS @ [ModelPrice]"

datatype billing_category = Price | Ratio | Tiered

fun getBillingCategory :: "PriceKey \<Rightarrow> billing_category" where
  "getBillingCategory ModelPrice = Price"
| "getBillingCategory BillingMode = Tiered"
| "getBillingCategory BillingExpr = Tiered"
| "getBillingCategory _ = Ratio"

definition capitalize :: "string \<Rightarrow> string" where
  "capitalize word =
     (case word of
        [] \<Rightarrow> []
      | c # cs \<Rightarrow> (let n = (of_char c :: nat) in if 97 \<le> n \<and> n \<le> 122 then char_of (n - 32) else c) # cs)"

text \<open>\<open>optionKeyBySyncField\<close> on the names; only the first letters of lower case words are capitalised.\<close>

definition optionKeyBySyncField :: "string \<Rightarrow> string" where
  "optionKeyBySyncField ratioType =
     (if ratioType = ''billing_mode'' then ''billing_setting.billing_mode''
      else if ratioType = ''billing_expr'' then ''billing_setting.billing_expr''
      else join [] (map capitalize (split_char CHR ''_'' ratioType)))"

section \<open>Differences\<close>

record RatioDifferenceEntry =
  rde_current :: jsval
  upstreams :: "(string \<times> jsval) list"
  confidence :: "(string \<times> bool) list"

type_synonym RatioTypes = "(PriceKey \<times> RatioDifferenceEntry) list"
type_synonym DifferencesMap = "(string \<times> RatioTypes) list"
type_synonym Resolution = "(PriceKey \<times> jsval) list"
type_synonym ResolutionsMap = "(string \<times> Resolution) list"

text \<open>\<open>ratioTypes[k]?.upstreams?.[source]\<close>.\<close>

definition upstream_value :: "RatioTypes \<Rightarrow> PriceKey \<Rightarrow> string \<Rightarrow> jsval" where
  "upstream_value ratioTypes k sourceName =
     (case map_of ratioTypes k of
        None \<Rightarrow> JUndefined
      | Some e \<Rightarrow> (case map_of (upstreams e) sourceName of None \<Rightarrow> JUndefined | Some v \<Rightarrow> v))"

definition isSelectableUpstreamValue :: "jsval \<Rightarrow> bool" where
  "isSelectableUpstreamValue v \<longleftrightarrow> v \<noteq> JNull \<and> v \<noteq> JUndefined \<and> v \<noteq> JStr ''same''"

definition getPreferredSyncField :: "RatioTypes \<Rightarrow> PriceKey \<Rightarrow> string \<Rightarrow> PriceKey" where
  "getPreferredSyncField ratioTypes ratioType sourceName =
     (let exprValue = upstream_value ratioTypes BillingExpr sourceName in
      if ratioType \<noteq> BillingExpr \<and> exprValue \<noteq> JNull \<and> exprValue \<noteq> JUndefined \<and> exprValue \<noteq> JStr ''same''
      then BillingExpr else ratioType)"

text \<open>Every field of the model is in \<open>SYNC_FIELD_ORDER\<close>, so the second part of the ordered list is empty
  there; \<open>filter\<close> is \<open>None\<close> for no filter and for \<open>__all__\<close>.\<close>

definition getOrderedRatioTypes :: "RatioTypes \<Rightarrow> PriceKey option \<Rightarrow> PriceKey list" where
  "getOrderedRatioTypes ratioTypes flt =
     (let keys = map fst ratioTypes;
          ordered = filter (\<lambda>f. f \<in> set keys) SYNC_FIELD_ORDER @ filter (\<lambda>f. f \<notin> set SYNC_FIELD_ORDER) keys
      in case flt of None \<Rightarrow> ordered | Some f' \<Rightarrow> filter (\<lambda>f. f = f') ordered)"

record SyncRow =
  sr_model :: string
  sr_ratioTypes :: RatioTypes
  billingConflict :: bool

definition dataSource :: "DifferencesMap \<Rightarrow> SyncRow list" where
  "dataSource differences =
     map (\<lambda>(model, ratioTypes).
       \<lparr>sr_model = model, sr_ratioTypes = ratioTypes,
        billingConflict = (ModelPrice \<in> set (map fst ratioTypes) \<and>
          list_ex (\<lambda>rt. rt \<in> set (map fst ratioTypes)) RATIO_SYNC_FIELDS)\<rparr>) (obj_entries differences)"

definition filteredData :: "string \<Rightarrow> PriceKey option \<Rightarrow> SyncRow list \<Rightarrow> SyncRow list" where
  "filteredData search ratioTypeFilter rows =
     (let data = (if trim search \<noteq> [] then filter (\<lambda>row. str_includes (to_lower search) (to_lower (sr_model row))) rows else rows)
      in case ratioTypeFilter of
           None \<Rightarrow> data
         | Some f \<Rightarrow> filter (\<lambda>row. f \<in> set (map fst (sr_ratioTypes row))) data)"

definition upstreamNames :: "PriceKey option \<Rightarrow> SyncRow list \<Rightarrow> string list" where
  "upstreamNames ratioTypeFilter rows =
     uniq (concat (map (\<lambda>row. concat (map (\<lambda>k.
       case map_of (sr_ratioTypes row) k of None \<Rightarrow> [] | Some e \<Rightarrow> obj_keys (upstreams e))
         (getOrderedRatioTypes (sr_ratioTypes row) ratioTypeFilter))) rows))"

section \<open>Selecting\<close>

definition deleteResolutionField :: "ResolutionsMap \<Rightarrow> string \<Rightarrow> PriceKey \<Rightarrow> ResolutionsMap" where
  "deleteResolutionField res model ratioType =
     (case map_of res model of
        None \<Rightarrow> res
      | Some modelRes \<Rightarrow>
          let r1 = obj_delete ratioType modelRes;
              r2 = (if ratioType = BillingExpr then obj_delete BillingMode r1 else r1);
              r3 = (if ratioType = BillingMode then obj_delete BillingExpr r2 else r2)
          in if r3 = [] then obj_delete model res else obj_set model r3 res)"

definition clear_conflicting :: "billing_category \<Rightarrow> Resolution \<Rightarrow> Resolution" where
  "clear_conflicting category modelRes =
     filter (\<lambda>e. \<not> (category \<noteq> Tiered \<and> getBillingCategory (fst e) \<noteq> Tiered \<and> getBillingCategory (fst e) \<noteq> category)) modelRes"

definition populate_tiered :: "PriceKey \<Rightarrow> string \<Rightarrow> RatioTypes \<Rightarrow> Resolution \<Rightarrow> Resolution" where
  "populate_tiered finalType sourceName modelDiffs r =
     (let modeVal = upstream_value modelDiffs BillingMode sourceName;
          exprVal = upstream_value modelDiffs BillingExpr sourceName;
          r1 = (if isSelectableUpstreamValue modeVal then obj_set BillingMode modeVal r
                else if finalType = BillingExpr then obj_set BillingMode (JStr ''tiered_expr'') r else r)
      in if isSelectableUpstreamValue exprVal then obj_set BillingExpr exprVal r1 else r1)"

definition select_in_model ::
  "RatioTypes option \<Rightarrow> PriceKey \<Rightarrow> jsval \<Rightarrow> string \<Rightarrow> Resolution \<Rightarrow> Resolution" where
  "select_in_model modelDiffs finalType finalValue sourceName modelRes =
     (let category = getBillingCategory finalType;
          r = obj_set finalType finalValue (clear_conflicting category modelRes)
      in case modelDiffs of
           Some mdiffs \<Rightarrow> if category = Tiered \<and> sourceName \<noteq> [] then populate_tiered finalType sourceName mdiffs r else r
         | None \<Rightarrow> r)"

definition handleSelectValue ::
  "DifferencesMap \<Rightarrow> string \<Rightarrow> PriceKey \<Rightarrow> jsval \<Rightarrow> string \<Rightarrow> ResolutionsMap \<Rightarrow> ResolutionsMap" where
  "handleSelectValue differences model ratioType v sourceName prev =
     (let modelDiffs = map_of differences model;
          mdiffs = (case modelDiffs of None \<Rightarrow> [] | Some d \<Rightarrow> d);
          preferredType = (if sourceName \<noteq> [] then getPreferredSyncField mdiffs ratioType sourceName else ratioType);
          upstream = upstream_value mdiffs preferredType sourceName;
          preferredValue = (if preferredType = ratioType then v
                            else if upstream = JUndefined \<or> upstream = JNull then v else upstream)
      in obj_set model
           (select_in_model modelDiffs preferredType preferredValue sourceName
              (case map_of prev model of None \<Rightarrow> [] | Some r \<Rightarrow> r)) prev)"

definition handleUnselectValue :: "string \<Rightarrow> PriceKey \<Rightarrow> ResolutionsMap \<Rightarrow> ResolutionsMap" where
  "handleUnselectValue model ratioType prev = deleteResolutionField prev model ratioType"

definition handleBulkSelect ::
  "DifferencesMap \<Rightarrow> PriceKey option \<Rightarrow> string \<Rightarrow> SyncRow list \<Rightarrow> ResolutionsMap \<Rightarrow> ResolutionsMap" where
  "handleBulkSelect differences flt upstream rows prev =
     fold (\<lambda>row. fold (\<lambda>ratioType res.
        let v = upstream_value (sr_ratioTypes row) ratioType upstream in
        if getPreferredSyncField (sr_ratioTypes row) ratioType upstream = ratioType \<and> isSelectableUpstreamValue v
        then handleSelectValue differences (sr_model row) ratioType v upstream res else res)
       (getOrderedRatioTypes (sr_ratioTypes row) flt)) rows prev"

definition handleBulkUnselect ::
  "PriceKey option \<Rightarrow> string \<Rightarrow> SyncRow list \<Rightarrow> ResolutionsMap \<Rightarrow> ResolutionsMap" where
  "handleBulkUnselect flt upstream rows prev =
     fold (\<lambda>row. fold (\<lambda>ratioType res.
        if upstream_value (sr_ratioTypes row) ratioType upstream \<noteq> JUndefined
        then handleUnselectValue (sr_model row) ratioType res else res)
       (getOrderedRatioTypes (sr_ratioTypes row) flt)) rows prev"

section \<open>Applying\<close>

definition parseJsonRecord :: "string \<Rightarrow> price_map option" where
  "parseJsonRecord raw =
     (case json_parse (str_or raw ''{}'') of
        None \<Rightarrow> Some []
      | Some (JObj kvs) \<Rightarrow> Some kvs
      | Some _ \<Rightarrow> None)"

definition parsedRatios :: "PricingTexts \<Rightarrow> pricing_error + PricingMaps" where
  "parsedRatios T =
     (if list_ex (\<lambda>k. parseJsonRecord (T k) = None) price_keys then Inl NotAnObject
      else Inr (\<lambda>k. case parseJsonRecord (T k) of None \<Rightarrow> [] | Some kvs \<Rightarrow> kvs))"

definition getLocalBillingCategory :: "string \<Rightarrow> PricingMaps \<Rightarrow> billing_category option" where
  "getLocalBillingCategory model M =
     (if map_of (M ModelPrice) model \<noteq> None then Some Price
      else if list_ex (\<lambda>k. map_of (M k) model \<noteq> None) RATIO_SYNC_FIELDS then Some Ratio
      else None)"

definition set_field :: "string \<Rightarrow> PriceKey \<times> jsval \<Rightarrow> PricingMaps \<Rightarrow> PricingMaps" where
  "set_field model e F =
     (case e of (k, v) \<Rightarrow>
        F(k := obj_set model (if k \<in> set NUMERIC_SYNC_FIELDS then JNum (js_Number v) else v) (F k)))"

definition sync_model :: "string \<times> Resolution \<Rightarrow> PricingMaps \<Rightarrow> PricingMaps" where
  "sync_model e F =
     (case e of (model, ratios) \<Rightarrow>
        let selectedTypes = map fst ratios;
            hasPrice = (ModelPrice \<in> set selectedTypes);
            hasRatio = list_ex (\<lambda>rt. rt \<in> set RATIO_SYNC_FIELDS) selectedTypes;
            F1 = (if hasPrice then (\<lambda>k. if k \<in> set RATIO_SYNC_FIELDS then obj_delete model (F k) else F k) else F);
            F2 = (if hasRatio then F1(ModelPrice := obj_delete model (F1 ModelPrice)) else F1)
        in fold (set_field model) ratios F2)"

definition finalRatios :: "ResolutionsMap \<Rightarrow> PricingMaps \<Rightarrow> PricingMaps" where
  "finalRatios resolutions currentRatios = fold sync_model (obj_entries resolutions) currentRatios"

definition performSync :: "ResolutionsMap \<Rightarrow> PricingMaps \<Rightarrow> (string \<times> string) list" where
  "performSync resolutions currentRatios =
     map (\<lambda>k. (option_key k, write_maps (finalRatios resolutions currentRatios) k)) SYNC_FIELD_ORDER"

text \<open>After a successful update: the synchronised fields leave the differences.\<close>

definition drop_difference :: "string \<Rightarrow> PriceKey \<Rightarrow> DifferencesMap \<Rightarrow> DifferencesMap" where
  "drop_difference model ratioType mdiffs =
     (case map_of mdiffs model of
        None \<Rightarrow> mdiffs
      | Some d \<Rightarrow>
          if map_of d ratioType = None then mdiffs
          else let d' = obj_delete ratioType d
               in if d' = [] then obj_delete model mdiffs else obj_set model d' mdiffs)"

definition syncSucceeded :: "ResolutionsMap \<Rightarrow> DifferencesMap \<Rightarrow> DifferencesMap \<times> ResolutionsMap" where
  "syncSucceeded resolutions mdiffs =
     (fold (\<lambda>(model, ratios). fold (\<lambda>e. drop_difference model (fst e)) ratios) (obj_entries resolutions) mdiffs, [])"

definition new_category :: "Resolution \<Rightarrow> billing_category" where
  "new_category ratios =
     (if ModelPrice \<in> set (map fst ratios) then Price
      else if list_ex (\<lambda>rt. rt \<in> set (map fst ratios)) RATIO_SYNC_FIELDS then Ratio
      else Tiered)"

definition is_conflict :: "PricingMaps \<Rightarrow> string \<times> Resolution \<Rightarrow> bool" where
  "is_conflict M e =
     (case getLocalBillingCategory (fst e) M of
        None \<Rightarrow> False
      | Some localCat \<Rightarrow> new_category (snd e) \<noteq> Tiered \<and> localCat \<noteq> new_category (snd e))"

text \<open>\<open>handleApplySync\<close>: \<open>Inl\<close> holds the models whose conflict must be confirmed, \<open>Inr\<close> the updates. The
  descriptions shown in the dialog are not modelled.\<close>

definition handleApplySync :: "ResolutionsMap \<Rightarrow> PricingMaps \<Rightarrow> string list + (string \<times> string) list" where
  "handleApplySync resolutions M =
     (let conflicts = filter (is_conflict M) (obj_entries resolutions)
      in if conflicts \<noteq> [] then Inl (map fst conflicts) else Inr (performSync resolutions M))"

section \<open>Selections are never contradictory\<close>

lemma ratio_field_category: "k \<in> set RATIO_SYNC_FIELDS \<longleftrightarrow> getBillingCategory k = Ratio"
  by (cases k) (simp_all add: RATIO_SYNC_FIELDS_def)

lemma price_category [simp]: "getBillingCategory k = Price \<longleftrightarrow> k = ModelPrice"
  by (cases k) simp_all

text \<open>The name translation of the source agrees with the option each field is stored under.\<close>

lemma option_key_names: "optionKeyBySyncField (sync_name k) = option_key k"
  by (cases k; simp; code_simp)

abbreviation fields :: "Resolution \<Rightarrow> PriceKey set" where
  "fields r \<equiv> fst ` set r"

definition exclusive :: "PriceKey set \<Rightarrow> bool" where
  "exclusive ks \<longleftrightarrow> \<not> (ModelPrice \<in> ks \<and> (\<exists>k\<in>ks. getBillingCategory k = Ratio))"

definition good_resolution :: "Resolution \<Rightarrow> bool" where
  "good_resolution r \<longleftrightarrow> r \<noteq> [] \<and> distinct (map fst r) \<and> exclusive (fields r)"

definition good_resolutions :: "ResolutionsMap \<Rightarrow> bool" where
  "good_resolutions res \<longleftrightarrow> distinct (map fst res) \<and> (\<forall>r\<in>snd ` set res. good_resolution r)"

lemma exclusive_mono: "exclusive ks \<Longrightarrow> ks' \<subseteq> ks \<Longrightarrow> exclusive ks'"
  by (auto simp: exclusive_def)

lemma exclusive_tiered: "exclusive ks \<Longrightarrow> getBillingCategory k = Tiered \<Longrightarrow> exclusive (insert k ks)"
  by (auto simp: exclusive_def)

lemma exclusive_clear:
  assumes "exclusive (fields r)"
  shows "exclusive (insert k (fields (clear_conflicting (getBillingCategory k) r)))"
proof (cases "getBillingCategory k")
  case Tiered
  then show ?thesis using assms by (auto intro!: exclusive_tiered simp: clear_conflicting_def)
qed (auto simp: exclusive_def clear_conflicting_def)

lemma fields_populate:
  "distinct (map fst r) \<Longrightarrow> distinct (map fst (populate_tiered k s d r)) \<and>
     (\<exists>extra. extra \<subseteq> {BillingMode, BillingExpr} \<and> fields (populate_tiered k s d r) = extra \<union> fields r)"
  by (auto simp: populate_tiered_def Let_def keys_obj_set distinct_obj_set)

lemma exclusive_extra: "exclusive ks \<Longrightarrow> extra \<subseteq> {BillingMode, BillingExpr} \<Longrightarrow> exclusive (extra \<union> ks)"
  by (auto simp: exclusive_def)

lemma distinct_clear: "distinct (map fst r) \<Longrightarrow> distinct (map fst (clear_conflicting c r))"
  by (simp add: clear_conflicting_def distinct_map_filter)

lemma good_select:
  assumes "distinct (map fst r)" and "exclusive (fields r)"
  shows "good_resolution (select_in_model md k v s r)"
proof -
  let ?r = "obj_set k v (clear_conflicting (getBillingCategory k) r)"
  have r: "distinct (map fst ?r)" "exclusive (fields ?r)" "k \<in> fields ?r"
    using assms exclusive_clear by (auto simp: distinct_obj_set distinct_clear keys_obj_set)
  have g: "good_resolution q" if "distinct (map fst q)" "exclusive (fields q)" "k \<in> fields q" for q
    using that by (auto simp: good_resolution_def)
  have "good_resolution (populate_tiered k s d ?r)" for d
    using fields_populate [OF r(1), of k s d] r exclusive_extra by (intro g) auto
  then show ?thesis unfolding select_in_model_def Let_def using g [OF r] by (auto split: option.split)
qed

lemma good_obj_set: "good_resolutions res \<Longrightarrow> good_resolution r \<Longrightarrow> good_resolutions (obj_set m r res)"
  using set_obj_set [of m r res] distinct_obj_set [of res m r] by (fastforce simp: good_resolutions_def)

lemma good_lookup: "good_resolutions res \<Longrightarrow> map_of res m = Some r \<Longrightarrow> good_resolution r"
  by (force simp: good_resolutions_def dest: map_of_SomeD)

lemma good_handleSelectValue:
  assumes "good_resolutions res"
  shows "good_resolutions (handleSelectValue D m k v s res)"
proof -
  let ?r = "case map_of res m of None \<Rightarrow> [] | Some r \<Rightarrow> r"
  have "distinct (map fst ?r) \<and> exclusive (fields ?r)"
    using good_lookup [OF assms] by (auto simp: good_resolution_def exclusive_def [of "{}"] split: option.splits)
  then show ?thesis unfolding handleSelectValue_def Let_def using assms by (intro good_obj_set good_select) auto
qed

lemma good_delete:
  assumes "good_resolution r" and "fields r' \<subseteq> fields r" and "distinct (map fst r')" and "r' \<noteq> []"
  shows "good_resolution r'"
  using assms exclusive_mono by (auto simp: good_resolution_def)

lemma good_handleUnselectValue:
  assumes "good_resolutions res"
  shows "good_resolutions (handleUnselectValue m k res)"
proof (cases "map_of res m")
  case None
  then show ?thesis using assms by (simp add: handleUnselectValue_def deleteResolutionField_def)
next
  case (Some r)
  have g: "good_resolution r" by (rule good_lookup [OF assms Some])
  define r1 where "r1 = obj_delete k r"
  define r2 where "r2 = (if k = BillingExpr then obj_delete BillingMode r1 else r1)"
  define r3 where "r3 = (if k = BillingMode then obj_delete BillingExpr r2 else r2)"
  have r3: "fields r3 \<subseteq> fields r" "distinct (map fst r3)"
    using g by (auto simp: r1_def r2_def r3_def keys_obj_delete distinct_obj_delete good_resolution_def split: if_splits)
  have eq: "handleUnselectValue m k res = (if r3 = [] then obj_delete m res else obj_set m r3 res)"
    by (simp add: handleUnselectValue_def deleteResolutionField_def Some Let_def r1_def r2_def r3_def)
  have "good_resolutions (obj_delete m res)"
    using assms by (auto simp: good_resolutions_def distinct_obj_delete) (auto simp: obj_delete_def)
  then show ?thesis using eq good_obj_set [OF assms good_delete [OF g r3]] by simp
qed

text \<open>What the user can do while differences are shown.\<close>

inductive sync_step :: "DifferencesMap \<Rightarrow> ResolutionsMap \<Rightarrow> ResolutionsMap \<Rightarrow> bool" for D where
  select: "sync_step D res (handleSelectValue D m k v s res)"
| unselect: "sync_step D res (handleUnselectValue m k res)"
| bulk_select: "sync_step D res (handleBulkSelect D flt up rows res)"
| bulk_unselect: "sync_step D res (handleBulkUnselect flt up rows res)"

inductive_cases sync_stepE: "sync_step D res res'"

lemma fold_invariant:
  "P s \<Longrightarrow> (\<And>x s. P s \<Longrightarrow> P (f x s)) \<Longrightarrow> P (fold f xs s)"
  by (induction xs arbitrary: s) auto

lemma good_step: "sync_step D res res' \<Longrightarrow> good_resolutions res \<Longrightarrow> good_resolutions res'"
proof (induction rule: sync_step.induct)
  case (bulk_select flt up rows res)
  then show ?case unfolding handleBulkSelect_def
    by (intro fold_invariant [where P = good_resolutions]) (auto simp: Let_def good_handleSelectValue)
next
  case (bulk_unselect flt up rows res)
  then show ?case unfolding handleBulkUnselect_def
    by (intro fold_invariant [where P = good_resolutions]) (auto simp: Let_def good_handleUnselectValue)
qed (simp_all add: good_handleSelectValue good_handleUnselectValue)

lemma good_reachable: "(sync_step D)\<^sup>*\<^sup>* [] res \<Longrightarrow> good_resolutions res"
  by (induction rule: rtranclp_induct) (auto simp: good_resolutions_def [of "[]"] intro: good_step)

section \<open>What applying the selections does\<close>

definition sync_val :: "PriceKey \<Rightarrow> jsval \<Rightarrow> jsval" where
  "sync_val k v = (if k \<in> set NUMERIC_SYNC_FIELDS then JNum (js_Number v) else v)"

text \<open>The entry of a model under a field after its resolution was applied.\<close>

definition synced_entry :: "Resolution \<Rightarrow> PriceKey \<Rightarrow> jsval option \<Rightarrow> jsval option" where
  "synced_entry r k old =
     (case map_of r k of
        Some v \<Rightarrow> Some (sync_val k v)
      | None \<Rightarrow>
          if ModelPrice \<in> fields r \<and> getBillingCategory k = Ratio \<or>
             k = ModelPrice \<and> (\<exists>k'\<in>fields r. getBillingCategory k' = Ratio) then None
          else old)"

lemma set_fields_map:
  "distinct (map fst r) \<Longrightarrow>
     map_of (fold (set_field m) r F k) =
       (case map_of r k of None \<Rightarrow> map_of (F k) | Some v \<Rightarrow> (map_of (F k))(m \<mapsto> sync_val k v))"
proof (induction r arbitrary: F)
  case (Cons e r)
  obtain k' v where e: "e = (k', v)" by (cases e)
  then have "k' \<notin> fields r" using Cons.prems by simp
  then have "map_of r k' = None" by (simp add: map_of_eq_None_iff)
  then show ?case using Cons e by (auto simp: set_field_def map_of_obj_set sync_val_def split: option.splits)
qed simp

lemma sync_model_map:
  assumes "distinct (map fst r)"
  shows "map_of (sync_model (m, r) F k) n = (if n = m then synced_entry r k (map_of (F k) n) else map_of (F k) n)"
proof -
  have h: "list_ex (\<lambda>rt. rt \<in> set RATIO_SYNC_FIELDS) (map fst r) \<longleftrightarrow> (\<exists>k'\<in>fields r. getBillingCategory k' = Ratio)"
    by (auto simp: list_ex_iff ratio_field_category)
  have "ModelPrice \<notin> set RATIO_SYNC_FIELDS" by (simp add: ratio_field_category)
  then show ?thesis
    unfolding sync_model_def prod.case Let_def set_fields_map [OF assms] h
    by (auto simp: synced_entry_def map_of_obj_delete ratio_field_category split: option.splits)
qed

lemma sync_fold_map:
  "distinct (map fst es) \<Longrightarrow> \<forall>r\<in>snd ` set es. distinct (map fst r) \<Longrightarrow>
     map_of (fold sync_model es M k) n =
       (case map_of es n of None \<Rightarrow> map_of (M k) n | Some r \<Rightarrow> synced_entry r k (map_of (M k) n))"
proof (induction es arbitrary: M)
  case (Cons e es)
  obtain m r where e: "e = (m, r)" by (cases e)
  then have "map_of es m = None" using Cons.prems by (simp add: map_of_eq_None_iff)
  then show ?case using Cons e by (auto simp: sync_model_map split: option.splits)
qed simp

lemma finalRatios_map:
  assumes "good_resolutions res"
  shows "map_of (finalRatios res M k) n =
    (case map_of res n of None \<Rightarrow> map_of (M k) n | Some r \<Rightarrow> synced_entry r k (map_of (M k) n))"
proof -
  have d: "distinct (map fst res)" "\<forall>r\<in>snd ` set (obj_entries res). distinct (map fst r)"
    using assms by (auto simp: good_resolutions_def good_resolution_def)
  show ?thesis
    unfolding finalRatios_def sync_fold_map [OF obj_entries_distinct [OF d(1)] d(2)] map_of_obj_entries [OF d(1)] ..
qed

text \<open>C16: Whatever values the user selects and unselects, applying them never leaves a model that was given a
  price or a ratio with both a fixed price and a ratio, and models without a selection keep their entries.\<close>

theorem ratio_sync_exclusive:
  assumes "(sync_step D)\<^sup>*\<^sup>* [] res"
  shows "(map_of res n = None \<longrightarrow> map_of (finalRatios res M k) n = map_of (M k) n) \<and>
    (map_of res n = Some r \<and> new_category r \<noteq> Tiered \<longrightarrow>
      map_of (finalRatios res M ModelPrice) n = None \<or>
      list_all (\<lambda>k. map_of (finalRatios res M k) n = None) RATIO_SYNC_FIELDS)"
proof -
  have g: "good_resolutions res" by (rule good_reachable [OF assms])
  have "map_of (finalRatios res M ModelPrice) n = None \<or>
      list_all (\<lambda>k. map_of (finalRatios res M k) n = None) RATIO_SYNC_FIELDS"
    if r: "map_of res n = Some r" and c: "new_category r \<noteq> Tiered"
  proof -
    have ex: "exclusive (fields r)" using good_lookup [OF g r] by (simp add: good_resolution_def)
    have fin: "map_of (finalRatios res M k) n = synced_entry r k (map_of (M k) n)" for k
      using finalRatios_map [OF g, of M k n] r by simp
    show ?thesis
    proof (cases "ModelPrice \<in> fields r")
      case True
      then have "map_of r k = None" if "getBillingCategory k = Ratio" for k
        using ex that by (auto simp: exclusive_def map_of_eq_None_iff)
      then show ?thesis using True by (simp add: list_all_iff fin ratio_field_category synced_entry_def)
    next
      case False
      then have "\<exists>k'\<in>fields r. getBillingCategory k' = Ratio"
        using c by (force simp: new_category_def list_ex_iff ratio_field_category split: if_splits)
      moreover have "map_of r ModelPrice = None" using False by (simp add: map_of_eq_None_iff)
      ultimately show ?thesis by (simp add: fin synced_entry_def)
    qed
  qed
  then show ?thesis using finalRatios_map [OF g, of M k n] by simp
qed

definition sample_differences :: DifferencesMap where
  "sample_differences = [(''a'', [(ModelPrice, \<lparr>rde_current = JNull, upstreams = [(''u'', JNum (Fin 2))], confidence = []\<rparr>)])]"

definition sample_resolutions :: ResolutionsMap where
  "sample_resolutions = handleSelectValue sample_differences ''a'' ModelPrice (JNum (Fin 2)) ''u''
     (handleSelectValue sample_differences ''a'' ModelRatio (JNum (Fin 1)) ''v'' [])"

theorem ratio_sync_exclusive_witness:
  "map_of sample_resolutions ''a'' = Some [(ModelPrice, JNum (Fin 2))] \<and>
   (map_of (finalRatios sample_resolutions (\<lambda>_. [(''a'', JNum (Fin 3))]) ModelPrice) ''a'' = None \<or>
    list_all (\<lambda>k. map_of (finalRatios sample_resolutions (\<lambda>_. [(''a'', JNum (Fin 3))]) k) ''a'' = None) RATIO_SYNC_FIELDS)"
proof -
  have "(sync_step sample_differences)\<^sup>*\<^sup>* [] sample_resolutions"
    unfolding sample_resolutions_def by (meson sync_step.select rtranclp.rtrancl_into_rtrancl rtranclp.rtrancl_refl)
  moreover have "map_of sample_resolutions ''a'' = Some [(ModelPrice, JNum (Fin 2))]" "new_category [(ModelPrice, JNum (Fin 2))] \<noteq> Tiered"
    by code_simp+
  ultimately show ?thesis
    using ratio_sync_exclusive [of sample_differences sample_resolutions "''a''" "\<lambda>_. [(''a'', JNum (Fin 3))]" _ "[(ModelPrice, JNum (Fin 2))]"]
    by blast
qed

end
