(* ===== verification/ParamOverride.thy ===== *)
theory ParamOverride
  imports JsFormat JsJsonPrint
begin

text \<open>
  Parameter overrides of a channel (\<open>features/channels/components/dialogs/param-override-editor-dialog.tsx\<close>):
  the data of the editor, the reading of a stored override and the writing of the edited one.

  An override is JSON text, either a plain object (the legacy format) or an object with a list of operations. The editor
  shows every operation as a form whose value is a text: JSON if the text parses, otherwise the text itself. Every
  operation, condition and pruning rule has an identifier made from the clock and a counter; the counter is
  passed along, and \<open>clock n\<close> is the time of the \<open>n\<close>-th call. Reading a property of \<open>null\<close> throws, so reading
  a list of operations returns a sum. Messages are the translation keys with the number of the rule.

  The lemmas show that saving what was read from a saved text gives that text again, when no value is a string
  that itself reads as JSON.
\<close>

section \<open>Types and tables\<close>

record ParamOverrideCondition =
  pc_id :: string
  pc_path :: string
  pc_mode :: string
  pc_value_text :: string
  pc_invert :: bool
  pc_pass_missing_key :: bool

record ParamOverrideOperation =
  po_id :: string
  po_description :: string
  po_path :: string
  po_mode :: string
  po_from :: string
  po_to :: string
  po_value_text :: string
  po_keep_origin :: bool
  po_logic :: string
  po_conditions :: "ParamOverrideCondition list"

definition OPERATION_MODE_OPTIONS :: "(string \<times> string) list" where
  "OPERATION_MODE_OPTIONS = [
    (''set'', ''Set Field''), (''delete'', ''Delete Field''), (''append'', ''Append to End''),
    (''prepend'', ''Prepend to Start''), (''copy'', ''Copy Field''), (''move'', ''Move Field''),
    (''replace'', ''String Replace''), (''regex_replace'', ''Regex Replace''),
    (''trim_prefix'', ''Trim Prefix''), (''trim_suffix'', ''Trim Suffix''),
    (''ensure_prefix'', ''Ensure Prefix''), (''ensure_suffix'', ''Ensure Suffix''),
    (''trim_space'', ''Trim Space''), (''to_lower'', ''To Lowercase''), (''to_upper'', ''To Uppercase''),
    (''return_error'', ''Return Custom Error''), (''prune_objects'', ''Prune Object Items''),
    (''pass_headers'', ''Pass Through Headers''), (''sync_fields'', ''Sync Fields''),
    (''set_header'', ''Set Request Header''), (''delete_header'', ''Delete Request Header''),
    (''copy_header'', ''Copy Request Header''), (''move_header'', ''Move Request Header'')]"

definition OPERATION_MODE_VALUES :: "string list" where
  "OPERATION_MODE_VALUES = map fst OPERATION_MODE_OPTIONS"

definition CONDITION_MODE_VALUES :: "string list" where
  "CONDITION_MODE_VALUES = [
    ''full'', ''prefix'', ''suffix'', ''contains'', ''gt'', ''gte'', ''lt'', ''lte'']"

datatype mode_flag = Mpath | MpathOptional | Mvalue | Mfrom | Mto | MkeepOrigin | MpathAlias

text \<open>The flags of a mode that are true.\<close>

definition MODE_META :: "(string \<times> mode_flag list) list" where
  "MODE_META = [
    (''delete'', [Mpath]), (''set'', [Mpath, Mvalue, MkeepOrigin]),
    (''append'', [Mpath, Mvalue, MkeepOrigin]), (''prepend'', [Mpath, Mvalue, MkeepOrigin]),
    (''copy'', [Mfrom, Mto]), (''move'', [Mfrom, Mto]), (''replace'', [Mpath, Mfrom]),
    (''regex_replace'', [Mpath, Mfrom]), (''trim_prefix'', [Mpath, Mvalue]),
    (''trim_suffix'', [Mpath, Mvalue]), (''ensure_prefix'', [Mpath, Mvalue]),
    (''ensure_suffix'', [Mpath, Mvalue]), (''trim_space'', [Mpath]), (''to_lower'', [Mpath]),
    (''to_upper'', [Mpath]), (''return_error'', [Mvalue]), (''prune_objects'', [MpathOptional, Mvalue]),
    (''pass_headers'', [Mvalue, MkeepOrigin]), (''sync_fields'', [Mfrom, Mto]),
    (''set_header'', [Mpath, Mvalue, MkeepOrigin]), (''delete_header'', [Mpath]),
    (''copy_header'', [Mfrom, Mto, MkeepOrigin, MpathAlias]),
    (''move_header'', [Mfrom, Mto, MkeepOrigin, MpathAlias])]"

definition VALUE_REQUIRED_MODES :: "string list" where
  "VALUE_REQUIRED_MODES = [
    ''trim_prefix'', ''trim_suffix'', ''ensure_prefix'', ''ensure_suffix'', ''set_header'',
    ''return_error'', ''prune_objects'', ''pass_headers'']"

definition FROM_REQUIRED_MODES :: "string list" where
  "FROM_REQUIRED_MODES = [
    ''copy'', ''move'', ''replace'', ''regex_replace'', ''copy_header'', ''move_header'', ''sync_fields'']"

definition TO_REQUIRED_MODES :: "string list" where
  "TO_REQUIRED_MODES = [
    ''copy'', ''move'', ''copy_header'', ''move_header'', ''sync_fields'']"

definition mode_meta :: "string \<Rightarrow> mode_flag list" where
  "mode_meta mode =
     (case map_of MODE_META mode of Some m \<Rightarrow> m | None \<Rightarrow> the (map_of MODE_META ''set''))"

section \<open>Values\<close>

datatype editor_error = TypeError | RuleError string nat | EditorError string

definition nextLocalId :: "(nat \<Rightarrow> nat) \<Rightarrow> nat \<Rightarrow> string" where
  "nextLocalId clock localIdSeed = ''po_'' @ digits_of (int (clock localIdSeed)) @ ''_'' @ digits_of (int localIdSeed)"

definition toValueText :: "jsval \<Rightarrow> string" where
  "toValueText v = (case v of JUndefined \<Rightarrow> [] | JStr s \<Rightarrow> s | _ \<Rightarrow> json_stringify 0 v)"

definition parseLooseValue :: "string \<Rightarrow> jsval" where
  "parseLooseValue valueText =
     (let raw = trim valueText in
      if raw = [] then JStr []
      else case json_parse raw of Some v \<Rightarrow> v | None \<Rightarrow> JStr raw)"

definition verifyJSON :: "string \<Rightarrow> bool" where
  "verifyJSON text = (json_parse text \<noteq> None)"

text \<open>\<open>typeof v === 'string' ? v : ''\<close>.\<close>

definition string_or_empty :: "jsval \<Rightarrow> string" where
  "string_or_empty v = (case v of JStr s \<Rightarrow> s | _ \<Rightarrow> [])"

text \<open>\<open>toUpperCase\<close>, only used to compare with \<open>AND\<close> and \<open>OR\<close>: no letter beyond \<open>a-z\<close> becomes one of theirs.\<close>

definition to_upper :: "string \<Rightarrow> string" where
  "to_upper s =
     map (\<lambda>c. let n = (of_char c :: nat) in if 97 \<le> n \<and> n \<le> 122 then char_of (n - 32) else c) s"

definition mode_or :: "string list \<Rightarrow> jsval \<Rightarrow> string \<Rightarrow> string" where
  "mode_or modes v d = (case v of JStr s \<Rightarrow> if s \<in> set modes then s else d | _ \<Rightarrow> d)"

section \<open>Reading conditions and operations\<close>

definition condition_of :: "(nat \<Rightarrow> nat) \<Rightarrow> nat \<Rightarrow> jsval \<Rightarrow> ParamOverrideCondition" where
  "condition_of clock n condition =
     \<lparr>pc_id = nextLocalId clock n,
      pc_path = string_or_empty (prop_of condition ''path''),
      pc_mode = mode_or CONDITION_MODE_VALUES (prop_of condition ''mode'') ''full'',
      pc_value_text = toValueText (prop_of condition ''value''),
      pc_invert = (prop_of condition ''invert'' = JBool True),
      pc_pass_missing_key = (prop_of condition ''pass_missing_key'' = JBool True)\<rparr>"

definition normalizeCondition :: "(nat \<Rightarrow> nat) \<Rightarrow> nat \<Rightarrow> jsval \<Rightarrow> editor_error + ParamOverrideCondition" where
  "normalizeCondition clock n condition =
     (if condition = JNull then Inl TypeError else Inr (condition_of clock n condition))"

definition createDefaultCondition :: "(nat \<Rightarrow> nat) \<Rightarrow> nat \<Rightarrow> ParamOverrideCondition" where
  "createDefaultCondition clock n = condition_of clock n (JObj [])"

fun normalizeConditions :: "(nat \<Rightarrow> nat) \<Rightarrow> nat \<Rightarrow> jsval list \<Rightarrow> editor_error + ParamOverrideCondition list" where
  "normalizeConditions clock n [] = Inr []"
| "normalizeConditions clock n (v # vs) =
     sbind (normalizeCondition clock n v) (\<lambda>c. sbind (normalizeConditions clock (Suc n) vs) (\<lambda>cs. Inr (c # cs)))"

definition operation_of ::
  "(nat \<Rightarrow> nat) \<Rightarrow> nat \<Rightarrow> jsval \<Rightarrow> ParamOverrideCondition list \<Rightarrow> ParamOverrideOperation" where
  "operation_of clock n operation conditions =
     \<lparr>po_id = nextLocalId clock n,
      po_description = string_or_empty (prop_of operation ''description''),
      po_path = string_or_empty (prop_of operation ''path''),
      po_mode = mode_or OPERATION_MODE_VALUES (prop_of operation ''mode'') ''set'',
      po_from = string_or_empty (prop_of operation ''from''),
      po_to = string_or_empty (prop_of operation ''to''),
      po_value_text = toValueText (prop_of operation ''value''),
      po_keep_origin = (prop_of operation ''keep_origin'' = JBool True),
      po_logic =
        (if to_upper (js_to_string (value_or (prop_of operation ''logic'') (JStr ''OR''))) = ''AND''
         then ''AND'' else ''OR''),
      po_conditions = conditions\<rparr>"

text \<open>The operation takes the first identifier, its conditions the following ones. The result has the next
  value of the counter.\<close>

definition normalizeOperation ::
  "(nat \<Rightarrow> nat) \<Rightarrow> nat \<Rightarrow> jsval \<Rightarrow> editor_error + ParamOverrideOperation \<times> nat" where
  "normalizeOperation clock n operation =
     (if operation = JNull then Inl TypeError
      else sbind
        (case prop_of operation ''conditions'' of
           JArr vs \<Rightarrow> normalizeConditions clock (Suc n) vs
         | _ \<Rightarrow> Inr [])
        (\<lambda>cs. Inr (operation_of clock n operation cs, Suc n + length cs)))"

fun normalizeOperations ::
  "(nat \<Rightarrow> nat) \<Rightarrow> nat \<Rightarrow> jsval list \<Rightarrow> editor_error + ParamOverrideOperation list \<times> nat" where
  "normalizeOperations clock n [] = Inr ([], n)"
| "normalizeOperations clock n (v # vs) =
     sbind (normalizeOperation clock n v) (\<lambda>(p, m).
       sbind (normalizeOperations clock m vs) (\<lambda>(ps, k). Inr (p # ps, k)))"

definition createDefaultOperation :: "(nat \<Rightarrow> nat) \<Rightarrow> nat \<Rightarrow> ParamOverrideOperation" where
  "createDefaultOperation clock n = operation_of clock n (JObj [(''mode'', JStr ''set'')]) []"

definition reorderOperations ::
  "ParamOverrideOperation list \<Rightarrow> string \<Rightarrow> string \<Rightarrow> bool \<Rightarrow> ParamOverrideOperation list" where
  "reorderOperations ops sourceId targetId after =
     (if sourceId = [] \<or> targetId = [] \<or> sourceId = targetId then ops
      else case List.extract (\<lambda>p. po_id p = sourceId) ops of
          None \<Rightarrow> ops
        | Some (before, moved, rest) \<Rightarrow>
            (case List.extract (\<lambda>p. po_id p = targetId) (before @ rest) of
               None \<Rightarrow> ops
             | Some (ps, target, qs) \<Rightarrow>
                 if after then ps @ target # moved # qs else ps @ moved # target # qs))"

definition isOperationBlank :: "ParamOverrideOperation \<Rightarrow> bool" where
  "isOperationBlank operation =
     (let hasCondition = list_ex (\<lambda>c. trim (pc_path c) \<noteq> [] \<or> trim (pc_value_text c) \<noteq> [] \<or>
            pc_mode c \<noteq> ''full'' \<or> pc_invert c \<or> pc_pass_missing_key c) (po_conditions operation)
      in po_mode operation = ''set'' \<and> trim (po_path operation) = [] \<and> trim (po_from operation) = [] \<and>
         trim (po_to operation) = [] \<and> trim (po_value_text operation) = [] \<and>
         \<not> po_keep_origin operation \<and> \<not> hasCondition)"

definition getOperationSummary :: "ParamOverrideOperation \<Rightarrow> nat \<Rightarrow> string" where
  "getOperationSummary operation index =
     (let mode = str_or (po_mode operation) ''set'';
          modeLabel = (case map_of OPERATION_MODE_OPTIONS mode of Some l \<Rightarrow> str_or l mode | None \<Rightarrow> mode);
          path = trim (po_path operation); src = trim (po_from operation); dst = trim (po_to operation);
          target = (if mode = ''sync_fields'' then str_or src (str_or dst ''-'')
                    else str_or path (str_or src (str_or dst ''-'')))
      in digits_of (int (index + 1)) @ ''. '' @ modeLabel @ [CHR '' '', CHR 0xB7, CHR '' ''] @ target)"

section \<open>Synchronised fields\<close>

record SyncTarget =
  st_type :: string
  st_key :: string

definition parseSyncTargetSpec :: "string \<Rightarrow> SyncTarget" where
  "parseSyncTargetSpec spec =
     (let raw = trim spec in
      if raw = [] then \<lparr>st_type = ''json'', st_key = []\<rparr>
      else case index_of '':'' raw of
          None \<Rightarrow> \<lparr>st_type = ''json'', st_key = raw\<rparr>
        | Some idx \<Rightarrow>
            \<lparr>st_type = (if to_lower (trim (take idx raw)) = ''header'' then ''header'' else ''json''),
             st_key = trim (drop (idx + 1) raw)\<rparr>)"

definition buildSyncTargetSpec :: "string \<Rightarrow> string \<Rightarrow> string" where
  "buildSyncTargetSpec type key =
     (let normalizedType = (if type = ''header'' then ''header'' else ''json''); normalizedKey = trim key in
      if normalizedKey = [] then [] else normalizedType @ '':'' @ normalizedKey)"

section \<open>Custom errors\<close>

record ReturnErrorDraft =
  re_message :: string
  re_statusCode :: jsnum
  re_code :: string
  re_type :: string
  re_skipRetry :: bool
  re_simpleMode :: bool

definition error_defaults :: ReturnErrorDraft where
  "error_defaults =
     \<lparr>re_message = [], re_statusCode = Fin 400, re_code = [], re_type = [], re_skipRetry = True,
      re_simpleMode = True\<rparr>"

definition js_isInteger :: "jsnum \<Rightarrow> bool" where
  "js_isInteger n = (case n of Fin x \<Rightarrow> of_int \<lfloor>x\<rfloor> = x | _ \<Rightarrow> False)"

definition status_or_400 :: "jsnum \<Rightarrow> jsnum" where
  "status_or_400 n = (if js_isInteger n \<and> js_le (Fin 100) n \<and> js_le n (Fin 599) then n else Fin 400)"

text \<open>\<open>String(v || '').trim()\<close>.\<close>

definition trimmed_text :: "jsval \<Rightarrow> string" where
  "trimmed_text v = trim (js_to_string (value_or v (JStr [])))"

definition parseReturnErrorDraft :: "string \<Rightarrow> ReturnErrorDraft" where
  "parseReturnErrorDraft valueText =
     (let raw = trim valueText in
      if raw = [] then error_defaults
      else case json_parse raw of
          Some (JObj kvs) \<Rightarrow>
            (let parsed = JObj kvs;
                 statusRaw = (if prop_of parsed ''status_code'' \<noteq> JUndefined then prop_of parsed ''status_code''
                              else prop_of parsed ''status'')
             in \<lparr>re_message = trimmed_text (value_or (prop_of parsed ''message'') (prop_of parsed ''msg'')),
                 re_statusCode = status_or_400 (js_Number statusRaw),
                 re_code = trimmed_text (prop_of parsed ''code''),
                 re_type = trimmed_text (prop_of parsed ''type''),
                 re_skipRetry = (prop_of parsed ''skip_retry'' \<noteq> JBool False),
                 re_simpleMode = False\<rparr>)
        | _ \<Rightarrow> error_defaults\<lparr>re_message := raw, re_simpleMode := True\<rparr>)"

text \<open>The properties of a payload that are set, in the order in which they are set.\<close>

definition set_if :: "bool \<Rightarrow> string \<Rightarrow> jsval \<Rightarrow> (string \<times> jsval) list \<Rightarrow> (string \<times> jsval) list" where
  "set_if b k v payload = (if b then obj_set k v payload else payload)"

definition buildReturnErrorValueText :: "ReturnErrorDraft \<Rightarrow> string" where
  "buildReturnErrorValueText draft =
     (let message = trim (re_message draft) in
      if re_simpleMode draft then message
      else
        let code = trim (re_code draft); type = trim (re_type draft);
            payload0 = [(''message'', JStr message), (''status_code'', JNum (status_or_400 (re_statusCode draft)))];
            payload1 = set_if (code \<noteq> []) ''code'' (JStr code) payload0;
            payload2 = set_if (type \<noteq> []) ''type'' (JStr type) payload1;
            payload3 = set_if (\<not> re_skipRetry draft) ''skip_retry'' (JBool False) payload2
        in json_stringify 0 (JObj payload3))"

section \<open>Pruning rules\<close>

text \<open>A \<open>PruneRule\<close> has the properties of a condition.\<close>

type_synonym PruneRule = ParamOverrideCondition

record PruneObjectsDraft =
  pd_simpleMode :: bool
  pd_typeText :: string
  pd_logic :: string
  pd_recursive :: bool
  pd_rules :: "PruneRule list"

definition prune_defaults :: PruneObjectsDraft where
  "prune_defaults =
     \<lparr>pd_simpleMode = True, pd_typeText = [], pd_logic = ''AND'', pd_recursive = True, pd_rules = []\<rparr>"

definition normalizePruneRule :: "(nat \<Rightarrow> nat) \<Rightarrow> nat \<Rightarrow> jsval \<Rightarrow> PruneRule" where
  "normalizePruneRule clock n rule =
     \<lparr>pc_id = nextLocalId clock n,
      pc_path = string_or_empty (prop_of rule ''path''),
      pc_mode = mode_or CONDITION_MODE_VALUES (prop_of rule ''mode'') ''full'',
      pc_value_text = toValueText (prop_of rule ''value''),
      pc_invert = (prop_of rule ''invert'' = JBool True),
      pc_pass_missing_key = (prop_of rule ''pass_missing_key'' = JBool True)\<rparr>"

text \<open>The objects from which the rules of a parsed value are made.\<close>

definition entry_rules :: "(string \<times> jsval) list \<Rightarrow> jsval list" where
  "entry_rules kvs =
     map (\<lambda>(path, v). JObj [(''path'', JStr path), (''mode'', JStr ''full''), (''value'', v)]) (obj_entries kvs)"

definition is_object :: "jsval \<Rightarrow> bool" where
  "is_object v = (case v of JObj _ \<Rightarrow> True | JArr _ \<Rightarrow> True | _ \<Rightarrow> False)"

definition prune_sources :: "jsval \<Rightarrow> jsval list" where
  "prune_sources parsed =
     (case prop_of parsed ''where'' of JObj kvs \<Rightarrow> entry_rules kvs | _ \<Rightarrow> []) @
     (case prop_of parsed ''conditions'' of
        JArr items \<Rightarrow> filter is_object items
      | JObj kvs \<Rightarrow> entry_rules kvs
      | _ \<Rightarrow> [])"

definition number_rules :: "(nat \<Rightarrow> nat) \<Rightarrow> nat \<Rightarrow> jsval list \<Rightarrow> PruneRule list" where
  "number_rules clock n vs = map (\<lambda>(i, v). normalizePruneRule clock i v) (List.enumerate n vs)"

definition parsePruneObjectsDraft :: "(nat \<Rightarrow> nat) \<Rightarrow> nat \<Rightarrow> string \<Rightarrow> PruneObjectsDraft \<times> nat" where
  "parsePruneObjectsDraft clock n valueText =
     (let raw = trim valueText in
      if raw = [] then (prune_defaults, n)
      else case json_parse raw of
          None \<Rightarrow> (prune_defaults\<lparr>pd_typeText := raw\<rparr>, n)
        | Some (JStr s) \<Rightarrow> (prune_defaults\<lparr>pd_typeText := trim s\<rparr>, n)
        | Some (JObj kvs) \<Rightarrow>
            (let parsed = JObj kvs; sources = prune_sources parsed;
                 hasAdvancedFields = list_ex (\<lambda>k. prop_of parsed k \<noteq> JUndefined)
                   [''logic'', ''recursive'', ''where'', ''conditions'']
             in (\<lparr>pd_simpleMode = (\<not> hasAdvancedFields),
                  pd_typeText = (if prop_of parsed ''type'' = JUndefined then []
                                 else trim (js_to_string (prop_of parsed ''type''))),
                  pd_logic = (if to_upper (js_to_string (value_or (prop_of parsed ''logic'') (JStr ''AND''))) = ''OR''
                              then ''OR'' else ''AND''),
                  pd_recursive = (prop_of parsed ''recursive'' \<noteq> JBool False),
                  pd_rules = number_rules clock n sources\<rparr>, n + length sources))
        | Some v \<Rightarrow> (prune_defaults\<lparr>pd_typeText := (if v = JNull then [] else trim (js_to_string v))\<rparr>, n))"

definition prune_condition :: "PruneRule \<Rightarrow> jsval" where
  "prune_condition rule =
     (let valueRaw = trim (pc_value_text rule);
          payload0 = [(''path'', JStr (trim (pc_path rule))),
            (''mode'', JStr (if pc_mode rule \<in> set CONDITION_MODE_VALUES then pc_mode rule else ''full''))];
          payload1 = set_if (valueRaw \<noteq> []) ''value'' (parseLooseValue valueRaw) payload0;
          payload2 = set_if (pc_invert rule) ''invert'' (JBool True) payload1
      in JObj (set_if (pc_pass_missing_key rule) ''pass_missing_key'' (JBool True) payload2))"

definition buildPruneObjectsValueText :: "PruneObjectsDraft \<Rightarrow> string" where
  "buildPruneObjectsValueText draft =
     (let typeText = trim (pd_typeText draft) in
      if pd_simpleMode draft then typeText
      else
        let conditions = map prune_condition (filter (\<lambda>rule. trim (pc_path rule) \<noteq> []) (pd_rules draft));
            payload1 = set_if (typeText \<noteq> []) ''type'' (JStr typeText) [];
            payload2 = set_if (to_upper (str_or (pd_logic draft) ''AND'') = ''OR'') ''logic'' (JStr ''OR'') payload1;
            payload3 = set_if (\<not> pd_recursive draft) ''recursive'' (JBool False) payload2;
            payload = set_if (conditions \<noteq> []) ''conditions'' (JArr conditions) payload3
        in if typeText = [] \<and> conditions = [] then json_stringify 0 (JObj [(''logic'', JStr ''AND'')])
           else json_stringify 0 (JObj payload))"

section \<open>Passed headers\<close>

text \<open>\<open>String(i ?? '').trim()\<close>.\<close>

definition header_text :: "jsval \<Rightarrow> string" where
  "header_text v = (if v = JNull \<or> v = JUndefined then [] else trim (js_to_string v))"

definition parsePassHeaderNames :: "jsval \<Rightarrow> string list" where
  "parsePassHeaderNames rawValue =
     (case rawValue of
        JArr vs \<Rightarrow> filter_boolean (map header_text vs)
      | JObj kvs \<Rightarrow>
          (case prop_of rawValue ''headers'' of
             JArr vs \<Rightarrow> filter_boolean (map header_text vs)
           | _ \<Rightarrow>
               if prop_of rawValue ''header'' \<noteq> JUndefined
               then (let single = header_text (prop_of rawValue ''header'') in if single \<noteq> [] then [single] else [])
               else [])
      | JStr s \<Rightarrow> filter_boolean (map trim (split_char CHR '','' s))
      | _ \<Rightarrow> [])"

section \<open>Validation and writing\<close>

definition buildConditionPayload :: "ParamOverrideCondition \<Rightarrow> jsval option" where
  "buildConditionPayload condition =
     (let path = trim (pc_path condition) in
      if path = [] then None
      else
        let payload0 = [(''path'', JStr path), (''mode'', JStr (str_or (pc_mode condition) ''full'')),
              (''value'', parseLooseValue (pc_value_text condition))];
            payload1 = set_if (pc_invert condition) ''invert'' (JBool True) payload0
        in Some (JObj (set_if (pc_pass_missing_key condition) ''pass_missing_key'' (JBool True) payload1)))"

text \<open>The first complaint about a rule.\<close>

definition operation_problem :: "ParamOverrideOperation \<Rightarrow> string option" where
  "operation_problem operation =
     (let mode = str_or (po_mode operation) ''set''; meta = mode_meta mode;
          path = trim (po_path operation); src = trim (po_from operation); dst = trim (po_to operation);
          raw = trim (po_value_text operation);
          alias = (MpathAlias \<in> set meta \<and> path \<noteq> [])
      in if Mpath \<in> set meta \<and> path = [] then Some ''Rule {{line}} is missing target path''
         else if mode \<in> set FROM_REQUIRED_MODES \<and> src = [] \<and> \<not> alias then Some ''Rule {{line}} is missing source field''
         else if mode \<in> set TO_REQUIRED_MODES \<and> dst = [] \<and> \<not> alias then Some ''Rule {{line}} is missing target field''
         else if mode \<in> set VALUE_REQUIRED_MODES \<and> raw = [] then Some ''Rule {{line}} is missing value''
         else if mode = ''return_error'' then
           (if raw = [] then Some ''Rule {{line}} is missing value''
            else case json_parse raw of
                Some (JObj kvs) \<Rightarrow>
                  if trimmed_text (prop_of (JObj kvs) ''message'') = []
                  then Some ''Rule {{line}} return_error requires a message field'' else None
              | _ \<Rightarrow> None)
         else if mode = ''prune_objects'' then
           (if raw = [] then Some ''Rule {{line}} prune_objects is missing conditions'' else None)
         else if mode = ''pass_headers'' then
           (if raw = [] then Some ''Rule {{line}} pass_headers is missing header names''
            else if parsePassHeaderNames (parseLooseValue raw) = []
            then Some ''Rule {{line}} pass_headers format is invalid'' else None)
         else None)"

fun validate_from :: "nat \<Rightarrow> ParamOverrideOperation list \<Rightarrow> editor_error option" where
  "validate_from i [] = None"
| "validate_from i (p # ps) =
     (case operation_problem p of Some key \<Rightarrow> Some (RuleError key (i + 1)) | None \<Rightarrow> validate_from (i + 1) ps)"

definition validateOperations :: "ParamOverrideOperation list \<Rightarrow> editor_error option" where
  "validateOperations operations = validate_from 0 operations"

definition string_prop :: "(string \<times> jsval) list \<Rightarrow> string \<Rightarrow> bool" where
  "string_prop payload k = truthy (prop_of (JObj payload) k)"

definition operation_payload :: "ParamOverrideOperation \<Rightarrow> jsval" where
  "operation_payload operation =
     (let mode = str_or (po_mode operation) ''set''; meta = mode_meta mode;
          description = trim (po_description operation);
          path = trim (po_path operation); src = trim (po_from operation); dst = trim (po_to operation);
          p0 = [(''mode'', JStr mode)];
          p1 = set_if (description \<noteq> []) ''description'' (JStr description) p0;
          p2 = set_if (Mpath \<in> set meta) ''path'' (JStr path) p1;
          p3 = set_if (MpathOptional \<in> set meta \<and> path \<noteq> []) ''path'' (JStr path) p2;
          p4 = set_if (Mvalue \<in> set meta) ''value'' (parseLooseValue (po_value_text operation)) p3;
          p5 = set_if (MkeepOrigin \<in> set meta \<and> po_keep_origin operation) ''keep_origin'' (JBool True) p4;
          p6 = set_if (Mfrom \<in> set meta) ''from'' (JStr src) p5;
          p7 = set_if (Mto \<notin> set meta \<and> dst \<noteq> []) ''to'' (JStr dst) p6;
          p8 = set_if (Mto \<in> set meta) ''to'' (JStr dst) p7;
          p9 = set_if (MpathAlias \<in> set meta \<and> \<not> string_prop p8 ''from'' \<and> path \<noteq> []) ''from'' (JStr path) p8;
          p10 = set_if (MpathAlias \<in> set meta \<and> \<not> string_prop p9 ''to'' \<and> path \<noteq> []) ''to'' (JStr path) p9;
          conditions = List.map_filter buildConditionPayload (po_conditions operation);
          p11 = set_if (conditions \<noteq> []) ''conditions'' (JArr conditions) p10
      in JObj (set_if (conditions \<noteq> []) ''logic'' (JStr (if po_logic operation = ''AND'' then ''AND'' else ''OR'')) p11))"

definition buildOperationsJson :: "ParamOverrideOperation list \<Rightarrow> bool \<Rightarrow> editor_error + string" where
  "buildOperationsJson sourceOperations validate =
     (let filteredOps = filter (\<lambda>p. \<not> isOperationBlank p) sourceOperations in
      if filteredOps = [] then Inr []
      else case (if validate then validateOperations filteredOps else None) of
          Some e \<Rightarrow> Inl e
        | None \<Rightarrow> Inr (json_stringify 2 (JObj [(''operations'', JArr (map operation_payload filteredOps))])))"

section \<open>The initial state\<close>

datatype EditMode = EditVisual | EditJson

datatype VisualMode = VisualOperations | VisualLegacy

record EditorState =
  es_editMode :: EditMode
  es_visualMode :: VisualMode
  es_legacyValue :: string
  es_operations :: "ParamOverrideOperation list"
  es_jsonText :: string
  es_jsonError :: string

text \<open>The operations of a parsed override, or a default one if the list is empty.\<close>

definition operations_or_default ::
  "(nat \<Rightarrow> nat) \<Rightarrow> nat \<Rightarrow> jsval list \<Rightarrow> editor_error + ParamOverrideOperation list \<times> nat" where
  "operations_or_default clock n vs =
     (if vs \<noteq> [] then normalizeOperations clock n vs else Inr ([createDefaultOperation clock n], Suc n))"

definition parseInitialState :: "(nat \<Rightarrow> nat) \<Rightarrow> nat \<Rightarrow> string \<Rightarrow> editor_error + EditorState \<times> nat" where
  "parseInitialState clock n text =
     (let trimmed = trim text;
          base = \<lparr>es_editMode = EditVisual, es_visualMode = VisualOperations, es_legacyValue = [],
            es_operations = [createDefaultOperation clock n], es_jsonText = [], es_jsonError = []\<rparr>
      in if trimmed = [] then Inr (base, Suc n)
         else case json_parse trimmed of
             None \<Rightarrow> Inr (base\<lparr>es_editMode := EditJson, es_jsonText := text, es_jsonError := ''Invalid JSON format''\<rparr>, Suc n)
           | Some parsed \<Rightarrow>
               (let pretty = json_stringify 2 parsed in
                case parsed of
                  JObj kvs \<Rightarrow>
                    (case prop_of parsed ''operations'' of
                       JArr vs \<Rightarrow>
                         sbind (operations_or_default clock n vs)
                           (\<lambda>(ops, m). Inr (base\<lparr>es_operations := ops, es_jsonText := pretty\<rparr>, m))
                     | _ \<Rightarrow> Inr (base\<lparr>es_visualMode := VisualLegacy, es_legacyValue := pretty, es_jsonText := pretty\<rparr>, Suc n))
                | _ \<Rightarrow> Inr (base\<lparr>es_editMode := EditJson, es_jsonText := pretty\<rparr>, Suc n)))"

section \<open>Values that survive a round trip\<close>

fun json_finite :: "jsval \<Rightarrow> bool" where
  "json_finite (JNum n) = is_finite n"
| "json_finite (JArr vs) = (\<forall>v\<in>set vs. json_finite v)"
| "json_finite (JObj kvs) = (\<forall>e\<in>set kvs. json_finite (snd e))"
| "json_finite _ = True"

text \<open>A value text that reads back: no overflowing number, and no quoted string that is empty, has outer blanks
  or is itself JSON.\<close>

definition stable_text :: "string \<Rightarrow> bool" where
  "stable_text t \<longleftrightarrow>
     (case json_parse (trim t) of
        Some (JStr s) \<Rightarrow> s \<noteq> [] \<and> trim s = s \<and> json_parse s = None
      | Some v \<Rightarrow> json_finite v
      | None \<Rightarrow> True)"

lemma json_canon_idem [simp]: "json_canon (json_canon v) = json_canon v"
proof (induction v)
  case (JObj kvs)
  then have e: "\<forall>e\<in>set kvs. map_prod id json_canon (map_prod id json_canon e) = map_prod id json_canon e"
    by (auto simp: snds.simps)
  have "json_canon (json_canon (JObj kvs)) =
      JObj (obj_entries (map (\<lambda>e. map_prod id json_canon (map_prod id json_canon e)) (obj_entries kvs)))"
    by (simp add: obj_entries_map comp_def)
  also have "map (\<lambda>e. map_prod id json_canon (map_prod id json_canon e)) (obj_entries kvs) =
      map (map_prod id json_canon) (obj_entries kvs)"
    using e by (intro map_cong) simp_all
  finally show ?case by (simp add: obj_entries_map)
qed auto

lemma js_to_string_canon: "json_finite v \<Longrightarrow> js_to_string (json_canon v) = js_to_string v"
proof (induction v)
  case (JArr vs)
  have "json_canon v = JNull \<longleftrightarrow> v = JNull" if "json_finite v" for v using that by (cases v) auto
  then show ?case using JArr by (auto simp: comp_def intro!: arg_cong [of _ _ "join _"])
qed auto

lemma truthy_canon: "json_finite v \<Longrightarrow> truthy (json_canon v) = truthy v"
  by (cases v) (auto simp: truthy_def)

lemma header_text_canon: "json_finite v \<Longrightarrow> header_text (json_canon v) = header_text v"
proof -
  assume f: "json_finite v"
  then have "json_canon v = JNull \<longleftrightarrow> v = JNull" by (cases v) auto
  then show ?thesis using js_to_string_canon [OF f] by (simp add: header_text_def)
qed

lemma trimmed_text_canon: "json_finite v \<Longrightarrow> trimmed_text (json_canon v) = trimmed_text v"
  using truthy_canon js_to_string_canon by (simp add: trimmed_text_def value_or_def)

lemma map_of_canon_entries:
  "distinct (map fst kvs) \<Longrightarrow>
   map_of (obj_entries (map (map_prod id f) kvs)) k = map_option f (map_of kvs k)"
proof -
  assume d: "distinct (map fst kvs)"
  have "map_of (obj_entries (map (map_prod id f) kvs)) = map_of (map (map_prod id f) kvs)"
    using d by (intro map_of_inject_set [THEN iffD2]) (auto simp: obj_entries_distinct comp_def)
  moreover have "map_of (map (map_prod id f) kvs) k = map_option f (map_of kvs k)"
    by (induction kvs) auto
  ultimately show ?thesis by simp
qed

lemma prop_of_canon: "json_ok v \<Longrightarrow> prop_of (json_canon v) k = json_canon (prop_of v k)"
proof (cases v)
  case (JObj kvs)
  assume "json_ok v"
  then have "distinct (map fst kvs)" using JObj by simp
  then show ?thesis using JObj by (simp add: prop_of_def map_of_canon_entries split: option.splits)
qed (auto simp: prop_of_def)

lemma prop_of_finite: "json_finite v \<Longrightarrow> json_finite (prop_of v k)"
proof (cases v)
  case (JObj kvs)
  assume "json_finite v"
  then show ?thesis using JObj by (fastforce simp: prop_of_def dest: map_of_SomeD split: option.splits)
qed (auto simp: prop_of_def)

lemma parsePassHeaderNames_canon:
  assumes "json_ok v" "json_finite v"
  shows "parsePassHeaderNames (json_canon v) = parsePassHeaderNames v"
proof (cases v)
  case (JArr vs)
  then show ?thesis using assms header_text_canon by (simp add: parsePassHeaderNames_def comp_def cong: map_cong)
next
  case (JObj kvs)
  have f: "prop_of (json_canon v) k = json_canon (prop_of v k)" "json_finite (prop_of v k)" for k
    using prop_of_canon [OF assms(1)] prop_of_finite [OF assms(2)] by simp_all
  have h: "header_text (prop_of (json_canon v) ''header'') = header_text (prop_of v ''header'')"
    using f header_text_canon by simp
  have "parsePassHeaderNames w = (case prop_of w ''headers'' of JArr vs \<Rightarrow> filter_boolean (map header_text vs)
      | _ \<Rightarrow> if prop_of w ''header'' \<noteq> JUndefined
          then (let single = header_text (prop_of w ''header'') in if single \<noteq> [] then [single] else []) else [])"
    if "w = v \<or> w = json_canon v" for w using that JObj by (auto simp: parsePassHeaderNames_def)
  note this [of v] this [of "json_canon v"]
  moreover have "map header_text (map json_canon vs) = map header_text vs" if "prop_of v ''headers'' = JArr vs" for vs
    using f(2) [of "''headers''"] that header_text_canon by simp
  ultimately show ?thesis
    using f(1) [of "''headers''"] f(1) [of "''header''"] f(2) [of "''headers''"] h
    by (cases "prop_of v ''headers''") (auto simp: comp_def cong: map_cong)
qed (use assms in \<open>auto simp: parsePassHeaderNames_def\<close>)

lemma trim_json_text:
  assumes "json_ok v"
  shows "trim (json_text g i v) = json_text g i v" "json_text g i v \<noteq> []"
proof -
  have "json_text g i v \<noteq> [] \<and> \<not> is_ws (hd (json_text g i v)) \<and> \<not> is_ws (last (json_text g i v))"
  proof (cases v)
    case (JNum n)
    show ?thesis
    proof (cases n)
      case (Fin x)
      then have c: "list_all is_num_char (js_String (Fin x))" "js_String (Fin x) \<noteq> []"
        using js_String_chars [of x] assms JNum by auto
      have "\<not> is_ws c" if "is_num_char c" for c using that by (auto simp: is_num_char_def is_digit_def is_ws_def)
      then have "\<not> is_ws (hd (js_String (Fin x)))" "\<not> is_ws (last (js_String (Fin x)))"
        using c hd_in_set last_in_set unfolding list_all_iff by blast+
      then show ?thesis using c JNum Fin by (simp add: json_number_text_def del: js_String.simps)
    qed (simp_all add: JNum json_number_text_def is_ws_def)
  qed (use assms in \<open>auto simp: json_quote_def is_ws_def Let_def\<close>)
  then show "trim (json_text g i v) = json_text g i v" "json_text g i v \<noteq> []"
    by (auto intro: trim_id)
qed

lemma parseLooseValue_ok: "json_ok (parseLooseValue t)"
  by (auto simp: parseLooseValue_def Let_def json_parse_ok split: option.splits)

lemma parseLooseValue_trim [simp]: "parseLooseValue (trim t) = parseLooseValue t"
  by (simp add: parseLooseValue_def)

lemma toValueText_print: "\<nexists>s. v = JStr s \<Longrightarrow> v \<noteq> JUndefined \<Longrightarrow> toValueText v = json_stringify 0 v"
  by (cases v) (auto simp: toValueText_def)

lemma parseLooseValue_print:
  assumes "json_ok v" "\<nexists>s. v = JStr s"
  shows "parseLooseValue (toValueText (json_canon v)) = json_canon v" "trim (toValueText (json_canon v)) \<noteq> []"
proof -
  have "\<nexists>s. json_canon v = JStr s" "json_canon v \<noteq> JUndefined" using assms by (cases v; auto)+
  then have t: "toValueText (json_canon v) = json_stringify 0 v" by (simp add: toValueText_print)
  have "trim (json_stringify 0 v) = json_stringify 0 v" "json_stringify 0 v \<noteq> []"
    using trim_json_text [OF assms(1)] by (simp_all add: json_stringify_def)
  then show "parseLooseValue (toValueText (json_canon v)) = json_canon v" "trim (toValueText (json_canon v)) \<noteq> []"
    using json_parse_stringify_canon [OF assms(1), of 0] by (simp_all add: t parseLooseValue_def)
qed

text \<open>A stable text gives the same value after it has been written and read; another string may not.\<close>

lemma stable_text_value:
  assumes "stable_text t"
  shows "parseLooseValue (toValueText (json_canon (parseLooseValue t))) = json_canon (parseLooseValue t)"
    and "trim t \<noteq> [] \<Longrightarrow> trim (toValueText (json_canon (parseLooseValue t))) \<noteq> []"
    and "json_finite (parseLooseValue t)"
proof -
  consider "trim t = []" | "trim t \<noteq> []" "json_parse (trim t) = None"
    | s where "trim t \<noteq> []" "json_parse (trim t) = Some (JStr s)"
    | v where "trim t \<noteq> []" "json_parse (trim t) = Some v" "\<nexists>s. v = JStr s" by blast
  then have "parseLooseValue (toValueText (json_canon (parseLooseValue t))) = json_canon (parseLooseValue t) \<and>
    (trim t \<noteq> [] \<longrightarrow> trim (toValueText (json_canon (parseLooseValue t))) \<noteq> []) \<and> json_finite (parseLooseValue t)"
  proof cases
    case 1
    then show ?thesis by (simp add: parseLooseValue_def toValueText_def)
  next
    case 2
    then show ?thesis by (simp add: parseLooseValue_def toValueText_def)
  next
    case 3
    then show ?thesis using assms by (simp add: parseLooseValue_def toValueText_def stable_text_def)
  next
    case 4
    then have v: "parseLooseValue t = v" by (simp add: parseLooseValue_def)
    have "json_finite v" using assms 4 by (cases v) (auto simp: stable_text_def)
    then show ?thesis using parseLooseValue_print [OF json_parse_ok 4(3)] 4(2) unfolding v by blast
  qed
  then show "parseLooseValue (toValueText (json_canon (parseLooseValue t))) = json_canon (parseLooseValue t)"
    "trim t \<noteq> [] \<Longrightarrow> trim (toValueText (json_canon (parseLooseValue t))) \<noteq> []" "json_finite (parseLooseValue t)" by auto
qed

lemma string_value_retyped:
  "json_parse s = Some v \<Longrightarrow> trim s = s \<Longrightarrow> parseLooseValue (toValueText (JStr s)) = v"
proof -
  assume "json_parse s = Some v" "trim s = s"
  moreover have "json_parse [] = None" by code_simp
  ultimately show ?thesis by (cases "s = []") (auto simp: parseLooseValue_def toValueText_def)
qed

section \<open>Payloads\<close>

definition opt_entry :: "bool \<Rightarrow> string \<Rightarrow> jsval \<Rightarrow> (string \<times> jsval) list" where
  "opt_entry b k v = (if b then [(k, v)] else [])"

lemma set_if_append: "k \<notin> fst ` set xs \<Longrightarrow> set_if b k v xs = xs @ opt_entry b k v"
  by (simp add: set_if_def opt_entry_def obj_set_new)

lemma keys_opt_entry [simp]: "fst ` set (opt_entry b k v) = (if b then {k} else {})"
  by (simp add: opt_entry_def)

lemma map_of_opt_entry [simp]: "map_of (opt_entry b k v) k' = (if b \<and> k' = k then Some v else None)"
  by (simp add: opt_entry_def)

lemma map_opt_entry [simp]: "map (map_prod id f) (opt_entry b k v) = opt_entry b k (f v)"
  by (simp add: opt_entry_def)

lemma condition_payload:
  "buildConditionPayload c =
     (if trim (pc_path c) = [] then None
      else Some (JObj ([(''path'', JStr (trim (pc_path c))), (''mode'', JStr (str_or (pc_mode c) ''full'')),
        (''value'', parseLooseValue (pc_value_text c))] @
        opt_entry (pc_invert c) ''invert'' (JBool True) @
        opt_entry (pc_pass_missing_key c) ''pass_missing_key'' (JBool True))))"
  by (simp add: buildConditionPayload_def Let_def set_if_append)

text \<open>What the table of modes guarantees.\<close>

lemma mode_meta_in: "mode_meta m \<in> set (map snd MODE_META)"
proof -
  obtain fs where fs: "map_of MODE_META ''set'' = Some fs" by (simp add: MODE_META_def)
  have "f \<in> set (map snd MODE_META)" if "map_of MODE_META k = Some f" for k f
    using map_of_SomeD [OF that] by (metis image_eqI set_map snd_conv)
  then show ?thesis using fs by (cases "map_of MODE_META m") (simp_all add: mode_meta_def)
qed

lemma mode_flags:
  "(MpathAlias \<in> set (mode_meta m) \<longrightarrow>
     Mfrom \<in> set (mode_meta m) \<and> Mto \<in> set (mode_meta m) \<and> Mpath \<notin> set (mode_meta m) \<and> MpathOptional \<notin> set (mode_meta m)) \<and>
   (MpathOptional \<in> set (mode_meta m) \<longrightarrow> Mpath \<notin> set (mode_meta m))"
proof -
  have "list_all (\<lambda>fs. (MpathAlias \<in> set fs \<longrightarrow> Mfrom \<in> set fs \<and> Mto \<in> set fs \<and> Mpath \<notin> set fs \<and> MpathOptional \<notin> set fs) \<and>
      (MpathOptional \<in> set fs \<longrightarrow> Mpath \<notin> set fs)) (map snd MODE_META)"
    by (simp add: MODE_META_def)
  then show ?thesis using mode_meta_in unfolding list_all_iff by blast
qed

lemma mode_required:
  "m \<in> set FROM_REQUIRED_MODES \<Longrightarrow> Mfrom \<in> set (mode_meta m)"
  "m \<in> set TO_REQUIRED_MODES \<Longrightarrow> Mto \<in> set (mode_meta m)"
  "m \<in> set VALUE_REQUIRED_MODES \<Longrightarrow> Mvalue \<in> set (mode_meta m)"
  "Mpath \<in> set (mode_meta ''set'')"
proof -
  have "list_all (\<lambda>m. Mfrom \<in> set (mode_meta m)) FROM_REQUIRED_MODES" by code_simp
  then show "m \<in> set FROM_REQUIRED_MODES \<Longrightarrow> Mfrom \<in> set (mode_meta m)" unfolding list_all_iff by blast
  have "list_all (\<lambda>m. Mto \<in> set (mode_meta m)) TO_REQUIRED_MODES" by code_simp
  then show "m \<in> set TO_REQUIRED_MODES \<Longrightarrow> Mto \<in> set (mode_meta m)" unfolding list_all_iff by blast
  have "list_all (\<lambda>m. Mvalue \<in> set (mode_meta m)) VALUE_REQUIRED_MODES" by code_simp
  then show "m \<in> set VALUE_REQUIRED_MODES \<Longrightarrow> Mvalue \<in> set (mode_meta m)" unfolding list_all_iff by blast
  show "Mpath \<in> set (mode_meta ''set'')" by code_simp
qed

text \<open>The source and target written for an operation: header modes fall back to the path.\<close>

definition has_flag :: "ParamOverrideOperation \<Rightarrow> mode_flag \<Rightarrow> bool" where
  "has_flag p f \<longleftrightarrow> f \<in> set (mode_meta (str_or (po_mode p) ''set''))"

definition written_path :: "ParamOverrideOperation \<Rightarrow> bool" where
  "written_path p \<longleftrightarrow> has_flag p Mpath \<or> has_flag p MpathOptional \<and> trim (po_path p) \<noteq> []"

definition alias_or :: "ParamOverrideOperation \<Rightarrow> string \<Rightarrow> string" where
  "alias_or p s = (if has_flag p MpathAlias \<and> trim s = [] then trim (po_path p) else trim s)"

definition condition_payloads :: "ParamOverrideOperation \<Rightarrow> jsval list" where
  "condition_payloads p = List.map_filter buildConditionPayload (po_conditions p)"

definition payload_entries :: "ParamOverrideOperation \<Rightarrow> (string \<times> jsval) list" where
  "payload_entries p =
     [(''mode'', JStr (str_or (po_mode p) ''set''))] @
     opt_entry (trim (po_description p) \<noteq> []) ''description'' (JStr (trim (po_description p))) @
     opt_entry (written_path p) ''path'' (JStr (trim (po_path p))) @
     opt_entry (has_flag p Mvalue) ''value'' (parseLooseValue (po_value_text p)) @
     opt_entry (has_flag p MkeepOrigin \<and> po_keep_origin p) ''keep_origin'' (JBool True) @
     opt_entry (has_flag p Mfrom) ''from'' (JStr (alias_or p (po_from p))) @
     opt_entry (has_flag p Mto \<or> trim (po_to p) \<noteq> []) ''to'' (JStr (alias_or p (po_to p))) @
     opt_entry (condition_payloads p \<noteq> []) ''conditions'' (JArr (condition_payloads p)) @
     opt_entry (condition_payloads p \<noteq> []) ''logic'' (JStr (if po_logic p = ''AND'' then ''AND'' else ''OR''))"

lemma obj_set_last: "k \<notin> fst ` set xs \<Longrightarrow> obj_set k v (xs @ (k, w) # ys) = xs @ (k, v) # ys"
  by (induction xs) auto

lemma operation_payload_entries: "operation_payload p = JObj (payload_entries p)"
proof -
  define meta where "meta = mode_meta (str_or (po_mode p) ''set'')"
  have flags: "MpathAlias \<in> set meta \<Longrightarrow> Mfrom \<in> set meta \<and> Mto \<in> set meta \<and> Mpath \<notin> set meta \<and> MpathOptional \<notin> set meta"
    "MpathOptional \<in> set meta \<Longrightarrow> Mpath \<notin> set meta"
    using mode_flags [of "str_or (po_mode p) ''set''"] by (auto simp: meta_def)
  define p5 where "p5 = [(''mode'', JStr (str_or (po_mode p) ''set''))] @
     opt_entry (trim (po_description p) \<noteq> []) ''description'' (JStr (trim (po_description p))) @
     opt_entry (written_path p) ''path'' (JStr (trim (po_path p))) @
     opt_entry (has_flag p Mvalue) ''value'' (parseLooseValue (po_value_text p)) @
     opt_entry (has_flag p MkeepOrigin \<and> po_keep_origin p) ''keep_origin'' (JBool True)"
  have k5: "k \<notin> fst ` set p5" if "k \<in> {''from'', ''to'', ''conditions'', ''logic''}" for k
    using that by (auto simp: p5_def opt_entry_def split: if_splits)
  have p5: "set_if (MkeepOrigin \<in> set meta \<and> po_keep_origin p) ''keep_origin'' (JBool True)
      (set_if (Mvalue \<in> set meta) ''value'' (parseLooseValue (po_value_text p))
        (set_if (MpathOptional \<in> set meta \<and> trim (po_path p) \<noteq> []) ''path'' (JStr (trim (po_path p)))
          (set_if (Mpath \<in> set meta) ''path'' (JStr (trim (po_path p)))
            (set_if (trim (po_description p) \<noteq> []) ''description'' (JStr (trim (po_description p)))
              [(''mode'', JStr (str_or (po_mode p) ''set''))])))) = p5"
    using flags(2)
    by (cases "Mpath \<in> set meta")
       (auto simp: p5_def set_if_append written_path_def has_flag_def meta_def [symmetric] opt_entry_def set_if_def)
  define src where "src = trim (po_from p)"
  define dst where "dst = trim (po_to p)"
  define path where "path = trim (po_path p)"
  define p8 where "p8 = set_if (Mto \<in> set meta) ''to'' (JStr dst) (set_if (Mto \<notin> set meta \<and> dst \<noteq> []) ''to'' (JStr dst)
    (set_if (Mfrom \<in> set meta) ''from'' (JStr src) p5))"
  define p9 where "p9 = set_if (MpathAlias \<in> set meta \<and> \<not> string_prop p8 ''from'' \<and> path \<noteq> []) ''from'' (JStr path) p8"
  define p10 where "p10 = set_if (MpathAlias \<in> set meta \<and> \<not> string_prop p9 ''to'' \<and> path \<noteq> []) ''to'' (JStr path) p9"
  have p10: "p10 = p5 @ opt_entry (has_flag p Mfrom) ''from'' (JStr (alias_or p (po_from p))) @
      opt_entry (has_flag p Mto \<or> dst \<noteq> []) ''to'' (JStr (alias_or p (po_to p)))"
  proof (cases "MpathAlias \<in> set meta")
    case True
    note f = flags(1) [OF True]
    have p8: "p8 = p5 @ [(''from'', JStr src), (''to'', JStr dst)]"
      using f k5 by (simp add: p8_def set_if_def obj_set_new)
    have "map_of p5 ''from'' = None" "map_of p5 ''to'' = None" using k5 by (simp_all add: map_of_eq_None_iff)
    then have t: "string_prop (p5 @ [(''from'', JStr a), (''to'', JStr b)]) ''from'' \<longleftrightarrow> a \<noteq> []"
      "string_prop (p5 @ [(''from'', JStr a), (''to'', JStr b)]) ''to'' \<longleftrightarrow> b \<noteq> []" for a b
      by (simp_all add: string_prop_def prop_of_def truthy_def map_add_def)
    have p9: "p9 = p5 @ [(''from'', JStr (alias_or p (po_from p))), (''to'', JStr dst)]"
      using True k5 by (auto simp: p9_def p8 t set_if_def obj_set_last alias_or_def has_flag_def meta_def [symmetric] src_def path_def)
    have "obj_set ''to'' v (p5 @ [(''from'', a), (''to'', w)]) = p5 @ [(''from'', a), (''to'', v)]" for a v w
      using obj_set_last [of "''to''" "p5 @ [(''from'', a)]" v w "[]"] k5 [of "''to''"] by simp
    then show ?thesis
      using True f by (auto simp: p10_def p9 t set_if_def alias_or_def has_flag_def meta_def [symmetric] dst_def path_def opt_entry_def)
  next
    case False
    then show ?thesis
      using k5 by (auto simp: p10_def p9_def p8_def set_if_def obj_set_new alias_or_def has_flag_def meta_def [symmetric]
          src_def dst_def opt_entry_def)
  qed
  have k10: "k \<notin> fst ` set p10" if "k \<in> {''conditions'', ''logic''}" for k
    using that k5 [of k] by (auto simp: p10 opt_entry_def split: if_splits)
  have c: "set_if b ''conditions'' v p10 = p10 @ opt_entry b ''conditions'' v" for b v
    using k10 by (intro set_if_append) simp
  have l: "set_if b ''logic'' v (p10 @ opt_entry d ''conditions'' w) = (p10 @ opt_entry d ''conditions'' w) @ opt_entry b ''logic'' v"
    for b v d w using k10 [of "''logic''"] by (intro set_if_append) (auto simp: opt_entry_def)
  have "operation_payload p = JObj (set_if (condition_payloads p \<noteq> []) ''logic'' (JStr (if po_logic p = ''AND'' then ''AND'' else ''OR''))
      (set_if (condition_payloads p \<noteq> []) ''conditions'' (JArr (condition_payloads p)) p10))"
    unfolding operation_payload_def Let_def meta_def [symmetric] condition_payloads_def [symmetric]
      src_def [symmetric] dst_def [symmetric] path_def [symmetric]
    unfolding path_def p5 unfolding path_def [symmetric] p8_def [symmetric] p9_def [symmetric] p10_def [symmetric] ..
  also have "\<dots> = JObj (payload_entries p)"
    unfolding c l by (simp add: payload_entries_def p10 p5_def dst_def)
  finally show ?thesis .
qed

lemma map_of_app: "map_of (xs @ ys) k = (case map_of xs k of None \<Rightarrow> map_of ys k | Some v \<Rightarrow> Some v)"
  by (induction xs) auto

lemma distinct_opt_entry [simp]: "distinct (map fst (opt_entry b k v))"
  by (simp add: opt_entry_def)

lemma json_ok_opt_entry: "(b \<Longrightarrow> json_ok v) \<Longrightarrow> \<forall>e\<in>set (opt_entry b k v). json_ok (snd e)"
  by (simp add: opt_entry_def)

lemma obj_entries_plain: "\<forall>k\<in>fst ` set kvs. \<not> is_array_index k \<Longrightarrow> obj_entries kvs = kvs"
proof -
  assume a: "\<forall>k\<in>fst ` set kvs. \<not> is_array_index k"
  then have "filter (\<lambda>e. is_array_index (fst e)) kvs = []" "filter (\<lambda>e. \<not> is_array_index (fst e)) kvs = kvs"
    by (auto simp: filter_empty_conv filter_id_conv)
  then show ?thesis by (simp add: obj_entries_def)
qed

lemma not_index: "k \<noteq> [] \<Longrightarrow> \<not> is_digit (hd k) \<Longrightarrow> \<not> is_array_index k"
  by (cases k) (auto simp: is_array_index_def)

definition plain_keys :: "(string \<times> jsval) list \<Rightarrow> bool" where
  "plain_keys kvs \<longleftrightarrow> list_all (\<lambda>e. fst e \<noteq> [] \<and> \<not> is_digit (hd (fst e))) kvs"

lemma plain_keys_simps [simp]:
  "plain_keys []" "plain_keys (xs @ ys) \<longleftrightarrow> plain_keys xs \<and> plain_keys ys"
  "plain_keys ((k, v) # xs) \<longleftrightarrow> k \<noteq> [] \<and> \<not> is_digit (hd k) \<and> plain_keys xs"
  "plain_keys (opt_entry b k v) \<longleftrightarrow> (b \<longrightarrow> k \<noteq> [] \<and> \<not> is_digit (hd k))"
  by (simp_all add: plain_keys_def opt_entry_def)

lemma canon_plain: "plain_keys kvs \<Longrightarrow> json_canon (JObj kvs) = JObj (map (map_prod id json_canon) kvs)"
  by (simp add: obj_entries_plain not_index image_image plain_keys_def list_all_iff)

text \<open>The payload of a condition is read back as the condition, and written the same way.\<close>

definition stable_condition :: "ParamOverrideCondition \<Rightarrow> bool" where
  "stable_condition c \<longleftrightarrow> pc_mode c \<in> set CONDITION_MODE_VALUES \<and> stable_text (pc_value_text c)"

lemma condition_mode_nonempty: "m \<in> set CONDITION_MODE_VALUES \<Longrightarrow> m \<noteq> []"
  by (auto simp: CONDITION_MODE_VALUES_def)

lemma condition_payload_ok: "buildConditionPayload c = Some v \<Longrightarrow> json_ok v \<and> v \<noteq> JNull"
  using parseLooseValue_ok [of "pc_value_text c"]
  by (auto simp: condition_payload opt_entry_def split: if_splits)

lemma condition_reread:
  assumes "buildConditionPayload c = Some v" "stable_condition c"
  shows "buildConditionPayload (condition_of clock n (json_canon v)) = Some (json_canon v)"
proof -
  define w where "w = json_canon (parseLooseValue (pc_value_text c))"
  have path: "trim (pc_path c) \<noteq> []" and mode: "pc_mode c \<noteq> []" "pc_mode c \<in> set CONDITION_MODE_VALUES"
    using assms condition_mode_nonempty by (auto simp: condition_payload stable_condition_def split: if_splits)
  have kvs: "v = JObj ([(''path'', JStr (trim (pc_path c))), (''mode'', JStr (pc_mode c)),
        (''value'', parseLooseValue (pc_value_text c))] @ opt_entry (pc_invert c) ''invert'' (JBool True) @
        opt_entry (pc_pass_missing_key c) ''pass_missing_key'' (JBool True))"
    using assms(1) path mode(1) by (simp add: condition_payload str_or_def)
  have canon: "json_canon v = JObj ([(''path'', JStr (trim (pc_path c))), (''mode'', JStr (pc_mode c)), (''value'', w)] @
        opt_entry (pc_invert c) ''invert'' (JBool True) @ opt_entry (pc_pass_missing_key c) ''pass_missing_key'' (JBool True))"
    unfolding kvs by (subst canon_plain) (simp_all add: w_def is_digit_def)
  have "parseLooseValue (toValueText w) = w"
    using stable_text_value(1) assms(2) by (simp add: w_def stable_condition_def)
  then show ?thesis
    using path mode unfolding canon
    by (simp add: condition_payload condition_of_def prop_of_def map_of_app string_or_empty_def mode_or_def str_or_def del: map_of_append)
qed

lemma conditions_reread:
  assumes "\<forall>c\<in>set cs. stable_condition c"
  shows "\<exists>ds. normalizeConditions clock n (map json_canon (List.map_filter buildConditionPayload cs)) = Inr ds \<and>
    List.map_filter buildConditionPayload ds = map json_canon (List.map_filter buildConditionPayload cs)"
  using assms
proof (induction cs arbitrary: n)
  case (Cons c cs)
  show ?case
  proof (cases "buildConditionPayload c")
    case None
    then show ?thesis using Cons by (simp add: map_filter_simps)
  next
    case (Some v)
    obtain ds where "normalizeConditions clock (Suc n) (map json_canon (List.map_filter buildConditionPayload cs)) = Inr ds"
      "List.map_filter buildConditionPayload ds = map json_canon (List.map_filter buildConditionPayload cs)"
      using Cons by auto
    moreover have "json_canon v \<noteq> JNull" using Some by (auto simp: condition_payload split: if_splits)
    ultimately show ?thesis
      using Some condition_reread [OF Some] Cons.prems by (simp add: map_filter_simps normalizeCondition_def)
  qed
qed (simp add: map_filter_simps)

text \<open>The payload of an operation.\<close>

lemma payload_keys:
  "plain_keys (payload_entries p)" "distinct (map fst (payload_entries p))"
  by (simp_all add: payload_entries_def is_digit_def image_Un)

lemma payload_ok: "json_ok (operation_payload p)" "operation_payload p \<noteq> JNull"
proof -
  have "json_ok v" if "v \<in> set (condition_payloads p)" for v
    using that condition_payload_ok by (auto simp: condition_payloads_def set_map_filter_iff)
  then have "\<forall>e\<in>set (payload_entries p). json_ok (snd e)"
    by (auto simp: payload_entries_def opt_entry_def parseLooseValue_ok split: if_splits)
  then show "json_ok (operation_payload p)" "operation_payload p \<noteq> JNull"
    using payload_keys(2) by (auto simp: operation_payload_entries)
qed

lemma prop_of_payload:
  "prop_of (json_canon (operation_payload p)) k =
   (case map_of (payload_entries p) k of Some w \<Rightarrow> json_canon w | None \<Rightarrow> JUndefined)"
proof -
  have "prop_of (json_canon (operation_payload p)) k = json_canon (prop_of (operation_payload p) k)"
    using prop_of_canon payload_ok(1) by blast
  then show ?thesis by (simp add: operation_payload_entries prop_of_def split: option.splits)
qed


definition stable_operation :: "ParamOverrideOperation \<Rightarrow> bool" where
  "stable_operation p \<longleftrightarrow>
     po_mode p \<in> set OPERATION_MODE_VALUES \<and> stable_text (po_value_text p) \<and>
     (\<forall>c\<in>set (po_conditions p). stable_condition c)"

lemma operation_mode_nonempty: "m \<in> set OPERATION_MODE_VALUES \<Longrightarrow> m \<noteq> []"
  by (auto simp: OPERATION_MODE_VALUES_def OPERATION_MODE_OPTIONS_def)

text \<open>The fields of an operation read from its payload.\<close>

lemma payload_fields:
  assumes "stable_operation p"
  defines "v \<equiv> json_canon (operation_payload p)"
  shows "prop_of v ''mode'' = JStr (po_mode p)"
    "string_or_empty (prop_of v ''description'') = trim (po_description p)"
    "string_or_empty (prop_of v ''path'') = (if written_path p then trim (po_path p) else [])"
    "prop_of v ''value'' = (if has_flag p Mvalue then json_canon (parseLooseValue (po_value_text p)) else JUndefined)"
    "prop_of v ''keep_origin'' = JBool True \<longleftrightarrow> has_flag p MkeepOrigin \<and> po_keep_origin p"
    "string_or_empty (prop_of v ''from'') = (if has_flag p Mfrom then alias_or p (po_from p) else [])"
    "string_or_empty (prop_of v ''to'') = (if has_flag p Mto \<or> trim (po_to p) \<noteq> [] then alias_or p (po_to p) else [])"
    "prop_of v ''conditions'' =
      (if condition_payloads p \<noteq> [] then JArr (map json_canon (condition_payloads p)) else JUndefined)"
    "condition_payloads p \<noteq> [] \<Longrightarrow> prop_of v ''logic'' = JStr (if po_logic p = ''AND'' then ''AND'' else ''OR'')"
proof -
  have m: "po_mode p \<noteq> []" using assms operation_mode_nonempty by (auto simp: stable_operation_def)
  note E = prop_of_payload [of p, folded v_def] payload_entries_def map_of_app string_or_empty_def
  show "prop_of v ''mode'' = JStr (po_mode p)" using m by (simp add: E str_or_def del: map_of_append)
  show "string_or_empty (prop_of v ''description'') = trim (po_description p)" by (simp add: E del: map_of_append)
  show "string_or_empty (prop_of v ''path'') = (if written_path p then trim (po_path p) else [])"
    by (simp add: E del: map_of_append)
  show "prop_of v ''value'' = (if has_flag p Mvalue then json_canon (parseLooseValue (po_value_text p)) else JUndefined)"
    by (simp add: E del: map_of_append)
  show "prop_of v ''keep_origin'' = JBool True \<longleftrightarrow> has_flag p MkeepOrigin \<and> po_keep_origin p"
    by (simp add: E del: map_of_append)
  show "string_or_empty (prop_of v ''from'') = (if has_flag p Mfrom then alias_or p (po_from p) else [])"
    by (simp add: E del: map_of_append)
  show "string_or_empty (prop_of v ''to'') = (if has_flag p Mto \<or> trim (po_to p) \<noteq> [] then alias_or p (po_to p) else [])"
    by (simp add: E del: map_of_append)
  show "prop_of v ''conditions'' =
      (if condition_payloads p \<noteq> [] then JArr (map json_canon (condition_payloads p)) else JUndefined)"
    by (simp add: E del: map_of_append)
  show "condition_payloads p \<noteq> [] \<Longrightarrow> prop_of v ''logic'' = JStr (if po_logic p = ''AND'' then ''AND'' else ''OR'')"
    by (simp add: E del: map_of_append)
qed

text \<open>What the editor shows for an operation read back from its payload.\<close>

definition reread_of :: "ParamOverrideOperation \<Rightarrow> ParamOverrideOperation \<Rightarrow> bool" where
  "reread_of p q \<longleftrightarrow>
     po_mode q = po_mode p \<and> po_description q = trim (po_description p) \<and>
     po_path q = (if written_path p then trim (po_path p) else []) \<and>
     po_value_text q = (if has_flag p Mvalue then toValueText (json_canon (parseLooseValue (po_value_text p))) else []) \<and>
     po_keep_origin q = (has_flag p MkeepOrigin \<and> po_keep_origin p) \<and>
     po_from q = (if has_flag p Mfrom then alias_or p (po_from p) else []) \<and>
     po_to q = (if has_flag p Mto \<or> trim (po_to p) \<noteq> [] then alias_or p (po_to p) else []) \<and>
     condition_payloads q = map json_canon (condition_payloads p) \<and>
     (condition_payloads p \<noteq> [] \<longrightarrow> po_logic q = (if po_logic p = ''AND'' then ''AND'' else ''OR''))"

lemma operation_reread:
  assumes "stable_operation p"
  shows "\<exists>q m. normalizeOperation clock n (json_canon (operation_payload p)) = Inr (q, m) \<and> reread_of p q"
proof -
  let ?v = "json_canon (operation_payload p)"
  note F = payload_fields [OF assms]
  have nn: "?v \<noteq> JNull" by (simp add: operation_payload_entries)
  obtain ds where ds: "normalizeConditions clock (Suc n) (map json_canon (condition_payloads p)) = Inr ds"
    "List.map_filter buildConditionPayload ds = map json_canon (condition_payloads p)"
    using conditions_reread [of "po_conditions p" clock "Suc n"] assms
    by (auto simp: stable_operation_def condition_payloads_def)
  have norm: "normalizeOperation clock n ?v = Inr (operation_of clock n ?v ds, Suc n + length ds)"
  proof (cases "condition_payloads p = []")
    case True
    then show ?thesis using ds nn F(8) by (simp add: normalizeOperation_def)
  next
    case False
    then show ?thesis using ds nn F(8) by (simp add: normalizeOperation_def)
  qed
  have mode: "po_mode p \<in> set OPERATION_MODE_VALUES" using assms by (simp add: stable_operation_def)
  have up: "to_upper ''AND'' = ''AND''" "to_upper ''OR'' = ''OR''" by (simp_all add: to_upper_def)
  have "reread_of p (operation_of clock n ?v ds)"
    unfolding reread_of_def operation_of_def
    using F mode ds(2) up
    by (simp add: mode_or_def toValueText_def condition_payloads_def value_or_def truthy_def)
  then show ?thesis using norm by blast
qed

lemma reread_flag: "reread_of p q \<Longrightarrow> has_flag q f = has_flag p f"
  by (simp add: reread_of_def has_flag_def)

lemma has_flag_facts:
  "has_flag p MpathAlias \<Longrightarrow> has_flag p Mfrom \<and> has_flag p Mto \<and> \<not> has_flag p Mpath \<and> \<not> has_flag p MpathOptional"
  using mode_flags by (auto simp: has_flag_def)

lemma trim_alias_or [simp]: "trim (alias_or p s) = alias_or p s"
  by (simp add: alias_or_def)

lemma reread_alias:
  assumes "reread_of p q"
  shows "alias_or q s = trim s"
proof (cases "has_flag p MpathAlias")
  case True
  then have "po_path q = []" using assms has_flag_facts by (auto simp: reread_of_def written_path_def)
  then show ?thesis by (simp add: alias_or_def)
next
  case False
  then show ?thesis using reread_flag [OF assms] by (simp add: alias_or_def)
qed

lemma opt_entry_cong: "b = b' \<Longrightarrow> (b' \<Longrightarrow> v = v') \<Longrightarrow> opt_entry b k v = opt_entry b' k v'"
  by (simp add: opt_entry_def)

lemma reread_payload:
  assumes r: "reread_of p q" and s: "stable_operation p"
  shows "operation_payload q = json_canon (operation_payload p)"
proof -
  note R = r [unfolded reread_of_def]
  have flag: "has_flag q f = has_flag p f" for f by (rule reread_flag [OF r])
  have path: "written_path q = written_path p" "written_path p \<Longrightarrow> trim (po_path q) = trim (po_path p)"
    using R flag by (auto simp: written_path_def)
  have val: "has_flag p Mvalue \<Longrightarrow> parseLooseValue (po_value_text q) = json_canon (parseLooseValue (po_value_text p))"
    using R s stable_text_value(1) by (simp add: stable_operation_def)
  have to: "(has_flag p Mto \<or> trim (po_to q) \<noteq> []) = (has_flag p Mto \<or> trim (po_to p) \<noteq> [])"
    using R has_flag_facts [of p] by (auto simp: alias_or_def)
  have "payload_entries q = map (map_prod id json_canon) (payload_entries p)"
    unfolding payload_entries_def map_append map_opt_entry flag reread_alias [OF r] path(1) to
    using R path(2) val
    by (intro arg_cong2 [where f = "(@)"] opt_entry_cong) (simp_all add: id_def)
  then show ?thesis
    using canon_plain [OF payload_keys(1)] by (simp add: operation_payload_entries del: json_canon.simps)
qed

text \<open>Validation in terms of the value that is written.\<close>

definition valid_operation :: "ParamOverrideOperation \<Rightarrow> bool" where
  "valid_operation p \<longleftrightarrow>
     (let mode = str_or (po_mode p) ''set''; v = parseLooseValue (po_value_text p) in
      (has_flag p Mpath \<longrightarrow> trim (po_path p) \<noteq> []) \<and>
      (mode \<in> set FROM_REQUIRED_MODES \<longrightarrow> alias_or p (po_from p) \<noteq> []) \<and>
      (mode \<in> set TO_REQUIRED_MODES \<longrightarrow> alias_or p (po_to p) \<noteq> []) \<and>
      (mode \<in> set VALUE_REQUIRED_MODES \<longrightarrow> trim (po_value_text p) \<noteq> []) \<and>
      (mode = ''return_error'' \<longrightarrow> (\<forall>kvs. v = JObj kvs \<longrightarrow> trimmed_text (prop_of (JObj kvs) ''message'') \<noteq> [])) \<and>
      (mode = ''pass_headers'' \<longrightarrow> parsePassHeaderNames v \<noteq> []))"

lemma parseLooseValue_obj: "parseLooseValue t = JObj kvs \<longleftrightarrow> trim t \<noteq> [] \<and> json_parse (trim t) = Some (JObj kvs)"
  by (auto simp: parseLooseValue_def Let_def split: option.splits)

lemma value_required_modes: "{''return_error'', ''prune_objects'', ''pass_headers''} \<subseteq> set VALUE_REQUIRED_MODES"
  by (simp add: VALUE_REQUIRED_MODES_def)

lemma operation_problem_iff: "operation_problem p = None \<longleftrightarrow> valid_operation p"
proof -
  have "operation_problem p = None \<longleftrightarrow>
     (let mode = str_or (po_mode p) ''set'' in
      (has_flag p Mpath \<longrightarrow> trim (po_path p) \<noteq> []) \<and>
      (mode \<in> set FROM_REQUIRED_MODES \<longrightarrow> alias_or p (po_from p) \<noteq> []) \<and>
      (mode \<in> set TO_REQUIRED_MODES \<longrightarrow> alias_or p (po_to p) \<noteq> []) \<and>
      (mode \<in> set VALUE_REQUIRED_MODES \<longrightarrow> trim (po_value_text p) \<noteq> []) \<and>
      (if mode = ''return_error'' then trim (po_value_text p) \<noteq> [] \<and>
         (\<forall>kvs. json_parse (trim (po_value_text p)) = Some (JObj kvs) \<longrightarrow> trimmed_text (prop_of (JObj kvs) ''message'') \<noteq> [])
       else if mode = ''prune_objects'' then trim (po_value_text p) \<noteq> []
       else if mode = ''pass_headers'' then trim (po_value_text p) \<noteq> [] \<and>
         parsePassHeaderNames (parseLooseValue (trim (po_value_text p))) \<noteq> []
       else True))"
    unfolding operation_problem_def Let_def has_flag_def alias_or_def
    by (auto split: if_splits option.splits jsval.splits)
  also have "\<dots> \<longleftrightarrow> valid_operation p"
    using value_required_modes unfolding valid_operation_def Let_def by (auto simp: parseLooseValue_obj)
  finally show ?thesis .
qed

lemma canon_obj: "(\<exists>kvs. json_canon v = JObj kvs) \<longleftrightarrow> (\<exists>kvs. v = JObj kvs)"
  by (cases v) auto

lemma reread_valid:
  assumes r: "reread_of p q" and s: "stable_operation p" and v: "valid_operation p"
  shows "valid_operation q" "\<not> isOperationBlank q"
proof -
  note R = r [unfolded reread_of_def]
  note M = mode_required(1-3) [of "str_or (po_mode p) ''set''", folded has_flag_def]
  let ?v = "parseLooseValue (po_value_text p)" and ?mode = "str_or (po_mode p) ''set''"
  have t: "stable_text (po_value_text p)" using s by (simp add: stable_operation_def)
  note V = v [unfolded valid_operation_def Let_def]
  have w: "parseLooseValue (po_value_text q) = json_canon ?v" "trim (po_value_text q) \<noteq> []"
    if "?mode \<in> set VALUE_REQUIRED_MODES"
    using that M(3) V R stable_text_value [OF t] by simp_all
  have path: "has_flag p Mpath \<Longrightarrow> trim (po_path q) \<noteq> []" using R V by (simp add: written_path_def)
  have "alias_or q (po_from q) \<noteq> []" if "?mode \<in> set FROM_REQUIRED_MODES"
    using that M(1) V R by (simp add: reread_alias [OF r])
  moreover have "alias_or q (po_to q) \<noteq> []" if "?mode \<in> set TO_REQUIRED_MODES"
    using that M(2) V R by (simp add: reread_alias [OF r])
  moreover have "trimmed_text (prop_of (JObj kvs) ''message'') \<noteq> []"
    if m: "?mode = ''return_error''" and k: "json_canon ?v = JObj kvs" for kvs
  proof -
    obtain kvs0 where k0: "?v = JObj kvs0" using k canon_obj by blast
    have "trimmed_text (prop_of (json_canon ?v) ''message'') = trimmed_text (prop_of ?v ''message'')"
      using prop_of_canon [OF parseLooseValue_ok] trimmed_text_canon prop_of_finite [OF stable_text_value(3) [OF t]] by simp
    then show ?thesis using V m k0 k by simp
  qed
  moreover have "parsePassHeaderNames (json_canon ?v) \<noteq> []" if "?mode = ''pass_headers''"
    using that V parsePassHeaderNames_canon [OF parseLooseValue_ok stable_text_value(3) [OF t]] by simp
  ultimately show "valid_operation q"
    using w path value_required_modes R unfolding valid_operation_def Let_def reread_flag [OF r] by auto
  show "\<not> isOperationBlank q"
  proof
    assume "isOperationBlank q"
    then have "po_mode p = ''set''" "trim (po_path q) = []" using R by (auto simp: isOperationBlank_def Let_def)
    then show False using path mode_required(4) by (simp add: has_flag_def str_or_def)
  qed
qed

lemma validate_None: "validate_from i ps = None \<longleftrightarrow> (\<forall>p\<in>set ps. valid_operation p)"
  by (induction ps arbitrary: i) (auto simp: operation_problem_iff [symmetric] split: option.splits)

lemma operations_reread:
  assumes "\<forall>p\<in>set ps. stable_operation p \<and> valid_operation p"
  shows "\<exists>qs m. normalizeOperations clock n (map (\<lambda>p. json_canon (operation_payload p)) ps) = Inr (qs, m) \<and>
    map operation_payload qs = map (\<lambda>p. json_canon (operation_payload p)) ps \<and>
    (\<forall>q\<in>set qs. valid_operation q \<and> \<not> isOperationBlank q)"
  using assms
proof (induction ps arbitrary: n)
  case (Cons p ps)
  obtain q m where q: "normalizeOperation clock n (json_canon (operation_payload p)) = Inr (q, m)" "reread_of p q"
    using operation_reread [of p clock n] Cons.prems by auto
  obtain qs k where "normalizeOperations clock m (map (\<lambda>p. json_canon (operation_payload p)) ps) = Inr (qs, k)"
    "map operation_payload qs = map (\<lambda>p. json_canon (operation_payload p)) ps"
    "\<forall>q\<in>set qs. valid_operation q \<and> \<not> isOperationBlank q"
    using Cons.IH [of m] Cons.prems by auto
  then show ?case
    using q reread_payload [OF q(2)] reread_valid [OF q(2)] Cons.prems by auto
qed simp

lemma operations_text_reads:
  fixes ps
  defines "s \<equiv> json_stringify 2 (JObj [(''operations'', JArr (map operation_payload ps))])"
  shows "json_parse s = Some (JObj [(''operations'', JArr (map (\<lambda>p. json_canon (operation_payload p)) ps))])"
    and "trim s = s" and "s \<noteq> []"
    and "json_stringify 2 (JObj [(''operations'', JArr (map (\<lambda>p. json_canon (operation_payload p)) ps))]) = s"
proof -
  let ?v = "JObj [(''operations'', JArr (map operation_payload ps))]"
  have ok: "json_ok ?v" using payload_ok by simp
  have canon: "json_canon ?v = JObj [(''operations'', JArr (map (\<lambda>p. json_canon (operation_payload p)) ps))]"
    by (subst canon_plain) (simp_all add: is_digit_def comp_def)
  show "json_parse s = Some (JObj [(''operations'', JArr (map (\<lambda>p. json_canon (operation_payload p)) ps))])"
    unfolding s_def canon [symmetric] by (rule json_parse_stringify_canon [OF ok])
  show "trim s = s" "s \<noteq> []" using trim_json_text [OF ok] by (simp_all only: s_def json_stringify_def not_False_eq_True)
  show "json_stringify 2 (JObj [(''operations'', JArr (map (\<lambda>p. json_canon (operation_payload p)) ps))]) = s"
    unfolding s_def canon [symmetric] by (rule json_stringify_canon)
qed

text \<open>C19: Saving an override and opening the saved text again is stable: if the form of valid operations is written
  as a text, the editor opens that text in its visual mode with one operation for every operation that is not
  blank, and saving without an edit writes the same text. The modes have to be those of the selectors, and a value
  must not be a quoted string that is empty, has outer blanks or itself reads as JSON.\<close>

theorem param_override_resave:
  assumes "buildOperationsJson ops True = Inr s" and "s \<noteq> []" and "\<forall>p\<in>set ops. stable_operation p"
  shows "\<exists>st m. parseInitialState clock n s = Inr (st, m) \<and>
    es_editMode st = EditVisual \<and> es_visualMode st = VisualOperations \<and> es_jsonText st = s \<and>
    length (es_operations st) = length (filter (\<lambda>p. \<not> isOperationBlank p) ops) \<and>
    buildOperationsJson (es_operations st) True = Inr s"
proof -
  define ps where "ps = filter (\<lambda>p. \<not> isOperationBlank p) ops"
  have ps: "ps \<noteq> []" "validateOperations ps = None" and
    s: "s = json_stringify 2 (JObj [(''operations'', JArr (map operation_payload ps))])"
    using assms(1,2) by (auto simp: buildOperationsJson_def Let_def ps_def [symmetric] split: if_splits option.splits)
  have "\<forall>p\<in>set ps. stable_operation p \<and> valid_operation p"
    using assms(3) ps(2) validate_None by (auto simp: ps_def validateOperations_def)
  from operations_reread [OF this, of clock n] obtain qs m where
    qs: "normalizeOperations clock n (map (\<lambda>p. json_canon (operation_payload p)) ps) = Inr (qs, m)"
      "map operation_payload qs = map (\<lambda>p. json_canon (operation_payload p)) ps"
      "\<forall>q\<in>set qs. valid_operation q \<and> \<not> isOperationBlank q" by blast
  note T = operations_text_reads [of ps, folded s]
  define st where "st = \<lparr>es_editMode = EditVisual, es_visualMode = VisualOperations, es_legacyValue = [],
    es_operations = qs, es_jsonText = s, es_jsonError = []\<rparr>"
  have "parseInitialState clock n s = Inr (st, m)"
    using T ps(1) qs(1)
    by (simp add: parseInitialState_def prop_of_def operations_or_default_def st_def)
  moreover have "length qs = length ps" using arg_cong [OF qs(2), of length] by simp
  moreover have "buildOperationsJson qs True = Inr s"
  proof -
    have "filter (\<lambda>q. \<not> isOperationBlank q) qs = qs" using qs(3) by (simp add: filter_id_conv)
    moreover have "validateOperations qs = None" using qs(3) validate_None by (simp add: validateOperations_def)
    moreover have "qs \<noteq> []" using ps(1) \<open>length qs = length ps\<close> by auto
    ultimately show ?thesis using qs(2) T(4) by (simp add: buildOperationsJson_def)
  qed
  ultimately show ?thesis unfolding ps_def st_def by auto
qed

definition sample_operation :: ParamOverrideOperation where
  "sample_operation =
     \<lparr>po_id = ''a'', po_description = [], po_path = ''model'', po_mode = ''set'', po_from = [], po_to = [],
      po_value_text = ''fast'', po_keep_origin = True, po_logic = ''AND'',
      po_conditions = [\<lparr>pc_id = ''b'', pc_path = ''user'', pc_mode = ''full'', pc_value_text = ''x'', pc_invert = False,
        pc_pass_missing_key = True\<rparr>]\<rparr>"

theorem param_override_resave_witness:
  "\<exists>s st m. buildOperationsJson [sample_operation] True = Inr s \<and>
     parseInitialState (\<lambda>n. n) 0 s = Inr (st, m) \<and> es_visualMode st = VisualOperations \<and>
     length (es_operations st) = 1 \<and> buildOperationsJson (es_operations st) True = Inr s"
proof -
  have st: "stable_operation sample_operation" by code_simp
  have v: "operation_problem sample_operation = None" "\<not> isOperationBlank sample_operation" by code_simp+
  then obtain s where s: "buildOperationsJson [sample_operation] True = Inr s" "s \<noteq> []"
    using operations_text_reads(3) [of "[sample_operation]"]
    by (simp add: buildOperationsJson_def validateOperations_def)
  from param_override_resave [OF s, of "\<lambda>n. n" 0] show ?thesis using st s(1) v(2) by auto
qed

end
