(* ===== verification/ParamOverrideDialog.thy ===== *)
theory ParamOverrideDialog
  imports ParamOverride "HOL-Library.Multiset"
begin

text \<open>
  The dialog of the parameter override editor (\<open>param-override-editor-dialog.tsx\<close>): its state, every handler as
  a function on the state, and the sequences of events as a step relation.

  The state includes the module's counter of identifiers. The text of a message is made by the translation
  package, so \<open>tr\<close> is an argument, as is the clock. An updater that React runs at once or later decides whether
  duplicating an operation also selects it; that choice is an argument of the handler. The position of a drag over an
  operation comes from the geometry of the page and is an argument of the event. A handler that throws leaves
  the state as it was. The effect that repairs the selection runs after every event.

  The lemmas show that the list of operations is never empty and that all identifiers stay distinct, and that
  the identifiers of pruning rules are useless: every edit of a rule parses the rules again under new identifiers.
\<close>

section \<open>Templates\<close>

definition LEGACY_TEMPLATE :: jsval where
  "LEGACY_TEMPLATE = JObj [(''temperature'', JNum (Fin 0)), (''max_tokens'', JNum (Fin 1000))]"

text \<open>An object with a list of operations.\<close>

definition operations_object :: "jsval list \<Rightarrow> jsval" where
  "operations_object vs = JObj [(''operations'', JArr vs)]"

definition OPERATION_TEMPLATE :: jsval where
  "OPERATION_TEMPLATE = operations_object [JObj [
    (''description'', JStr ''Set default temperature for openai/* models.''),
    (''path'', JStr ''temperature''), (''mode'', JStr ''set''), (''value'', JNum (fround (7 / 10))),
    (''conditions'', JArr [JObj [(''path'', JStr ''model''), (''mode'', JStr ''prefix''), (''value'', JStr ''openai/'')]]),
    (''logic'', JStr ''AND'')]]"

definition HEADER_PASSTHROUGH_TEMPLATE :: jsval where
  "HEADER_PASSTHROUGH_TEMPLATE = operations_object [JObj [
    (''description'', JStr ''Pass through X-Request-Id header to upstream.''),
    (''mode'', JStr ''pass_headers''), (''value'', JArr [JStr ''X-Request-Id'']), (''keep_origin'', JBool True)]]"

definition GEMINI_IMAGE_4K_TEMPLATE :: jsval where
  "GEMINI_IMAGE_4K_TEMPLATE = operations_object [JObj [
    (''description'', JStr ''Set imageSize to 4K when model contains gemini/image and ends with 4k.''),
    (''mode'', JStr ''set''), (''path'', JStr ''generationConfig.imageConfig.imageSize''), (''value'', JStr ''4K''),
    (''conditions'', JArr [
      JObj [(''path'', JStr ''original_model''), (''mode'', JStr ''contains''), (''value'', JStr ''gemini'')],
      JObj [(''path'', JStr ''original_model''), (''mode'', JStr ''contains''), (''value'', JStr ''image'')],
      JObj [(''path'', JStr ''original_model''), (''mode'', JStr ''suffix''), (''value'', JStr ''4k'')]]),
    (''logic'', JStr ''AND'')]]"

definition CODEX_CLI_HEADER_PASSTHROUGH_HEADERS :: "jsval list" where
  "CODEX_CLI_HEADER_PASSTHROUGH_HEADERS = [
    JStr ''Originator'', JStr ''Session_id'', JStr ''User-Agent'', JStr ''X-Codex-Beta-Features'',
    JStr ''X-Codex-Turn-Metadata'']"

definition CLAUDE_CLI_HEADER_PASSTHROUGH_HEADERS :: "jsval list" where
  "CLAUDE_CLI_HEADER_PASSTHROUGH_HEADERS = [
    JStr ''X-Stainless-Arch'', JStr ''X-Stainless-Lang'', JStr ''X-Stainless-Os'',
    JStr ''X-Stainless-Package-Version'', JStr ''X-Stainless-Retry-Count'', JStr ''X-Stainless-Runtime'',
    JStr ''X-Stainless-Runtime-Version'', JStr ''X-Stainless-Timeout'', JStr ''User-Agent'', JStr ''X-App'',
    JStr ''Anthropic-Beta'', JStr ''Anthropic-Dangerous-Direct-Browser-Access'',
    JStr ''Anthropic-Version'']"

definition buildPassHeadersTemplate :: "jsval list \<Rightarrow> jsval" where
  "buildPassHeadersTemplate headers =
     operations_object [JObj [(''mode'', JStr ''pass_headers''), (''value'', JArr headers), (''keep_origin'', JBool True)]]"

definition AWS_BEDROCK_ANTHROPIC_COMPAT_TEMPLATE :: jsval where
  "AWS_BEDROCK_ANTHROPIC_COMPAT_TEMPLATE = operations_object [
    JObj [
      (''description'', JStr ''Normalize anthropic-beta header tokens for Bedrock compatibility.''),
      (''mode'', JStr ''set_header''), (''path'', JStr ''anthropic-beta''),
      (''value'', JObj [
        (''advanced-tool-use-2025-11-20'', JStr ''tool-search-tool-2025-10-19''),
        (''bash_20241022'', JNull), (''bash_20250124'', JNull), (''code-execution-2025-08-25'', JNull),
        (''compact-2026-01-12'', JStr ''compact-2026-01-12''),
        (''computer-use-2025-01-24'', JStr ''computer-use-2025-01-24''),
        (''computer-use-2025-11-24'', JStr ''computer-use-2025-11-24''),
        (''context-1m-2025-08-07'', JStr ''context-1m-2025-08-07''),
        (''context-management-2025-06-27'', JStr ''context-management-2025-06-27''),
        (''effort-2025-11-24'', JNull), (''fast-mode-2026-02-01'', JNull),
        (''files-api-2025-04-14'', JNull), (''fine-grained-tool-streaming-2025-05-14'', JNull),
        (''interleaved-thinking-2025-05-14'', JStr ''interleaved-thinking-2025-05-14''),
        (''mcp-client-2025-11-20'', JNull), (''mcp-client-2025-04-04'', JNull),
        (''mcp-servers-2025-12-04'', JNull), (''output-128k-2025-02-19'', JNull),
        (''structured-output-2024-03-01'', JNull), (''prompt-caching-scope-2026-01-05'', JNull),
        (''skills-2025-10-02'', JNull), (''structured-outputs-2025-11-13'', JNull),
        (''text_editor_20241022'', JNull), (''text_editor_20250124'', JNull),
        (''token-efficient-tools-2025-02-19'', JNull),
        (''tool-search-tool-2025-10-19'', JStr ''tool-search-tool-2025-10-19''),
        (''web-fetch-2025-09-10'', JNull), (''web-search-2025-03-05'', JNull),
        (''oauth-2025-04-20'', JNull)])],
    JObj [
      (''description'', JStr ''Remove all tools[*].custom.input_examples before upstream relay.''),
      (''mode'', JStr ''delete''), (''path'', JStr ''tools.*.custom.input_examples'')]]"

datatype TemplateKind = OperationsKind | LegacyKind

definition TEMPLATE_PRESET_CONFIG :: "(string \<times> TemplateKind \<times> jsval) list" where
  "TEMPLATE_PRESET_CONFIG = [
    (''operations_default'', OperationsKind, OPERATION_TEMPLATE),
    (''legacy_default'', LegacyKind, LEGACY_TEMPLATE),
    (''pass_headers_auth'', OperationsKind, HEADER_PASSTHROUGH_TEMPLATE),
    (''gemini_image_4k'', OperationsKind, GEMINI_IMAGE_4K_TEMPLATE),
    (''claude_cli_headers_passthrough'', OperationsKind, buildPassHeadersTemplate CLAUDE_CLI_HEADER_PASSTHROUGH_HEADERS),
    (''codex_cli_headers_passthrough'', OperationsKind, buildPassHeadersTemplate CODEX_CLI_HEADER_PASSTHROUGH_HEADERS),
    (''aws_bedrock_anthropic_beta_override'', OperationsKind, AWS_BEDROCK_ANTHROPIC_COMPAT_TEMPLATE)]"

section \<open>State\<close>

record Dialog =
  dg_editMode :: EditMode
  dg_visualMode :: VisualMode
  dg_legacyValue :: string
  dg_operations :: "ParamOverrideOperation list"
  dg_jsonText :: string
  dg_jsonError :: string
  dg_operationSearch :: string
  dg_selectedOperationId :: string
  dg_expandedConditions :: "(string \<times> bool) list"
  dg_draggedOperationId :: string
  dg_dragOverOperationId :: string
  dg_dragOverAfter :: bool
  dg_templatePresetKey :: string
  dg_seed :: nat

text \<open>\<open>operations[0]?.id || ''\<close>.\<close>

definition first_id :: "ParamOverrideOperation list \<Rightarrow> string" where
  "first_id ops = (case ops of [] \<Rightarrow> [] | p # _ \<Rightarrow> po_id p)"

definition openDialog :: "(nat \<Rightarrow> nat) \<Rightarrow> nat \<Rightarrow> string \<Rightarrow> editor_error + Dialog" where
  "openDialog clock n text =
     sbind (parseInitialState clock n text) (\<lambda>(st, m). Inr
       \<lparr>dg_editMode = es_editMode st, dg_visualMode = es_visualMode st, dg_legacyValue = es_legacyValue st,
        dg_operations = es_operations st, dg_jsonText = es_jsonText st, dg_jsonError = es_jsonError st,
        dg_operationSearch = [], dg_selectedOperationId = first_id (es_operations st), dg_expandedConditions = [],
        dg_draggedOperationId = [], dg_dragOverOperationId = [], dg_dragOverAfter = False,
        dg_templatePresetKey = (if es_visualMode st = VisualLegacy then ''legacy_default'' else ''operations_default''),
        dg_seed = m\<rparr>)"

definition keepSelectionValid :: "Dialog \<Rightarrow> Dialog" where
  "keepSelectionValid d =
     (if dg_operations d = [] then d\<lparr>dg_selectedOperationId := []\<rparr>
      else if list_ex (\<lambda>p. po_id p = dg_selectedOperationId d) (dg_operations d) then d
      else d\<lparr>dg_selectedOperationId := first_id (dg_operations d)\<rparr>)"

definition operationCount :: "Dialog \<Rightarrow> nat" where
  "operationCount d = length (filter (\<lambda>p. \<not> isOperationBlank p) (dg_operations d))"

definition filteredOperations :: "Dialog \<Rightarrow> ParamOverrideOperation list" where
  "filteredOperations d =
     (let keyword = to_lower (trim (dg_operationSearch d)) in
      if keyword = [] then dg_operations d
      else filter (\<lambda>p. str_includes keyword (to_lower (join '' '' (filter_boolean
          [po_description p, po_mode p, po_path p, po_from p, po_to p, po_value_text p])))) (dg_operations d))"

definition selectedOperation :: "Dialog \<Rightarrow> ParamOverrideOperation option" where
  "selectedOperation d = List.find (\<lambda>p. po_id p = dg_selectedOperationId d) (dg_operations d)"

text \<open>The most frequent modes, at most four; the sort is stable.\<close>

definition topOperationModes :: "Dialog \<Rightarrow> (string \<times> nat) list" where
  "topOperationModes d =
     (let modes = map (\<lambda>p. str_or (po_mode p) ''set'') (dg_operations d);
          counts = foldl (\<lambda>acc m. obj_set m (Suc (case map_of acc m of Some n \<Rightarrow> n | None \<Rightarrow> 0)) acc) [] modes
      in take 4 (sort_key (\<lambda>e. - int (snd e)) (obj_entries counts)))"

section \<open>Operations and conditions\<close>

text \<open>The properties the form changes; it never changes an identifier or the list of conditions this way.\<close>

record OperationPatch =
  op_description :: "string option"
  op_path :: "string option"
  op_mode :: "string option"
  op_from :: "string option"
  op_to :: "string option"
  op_value_text :: "string option"
  op_keep_origin :: "bool option"
  op_logic :: "string option"

definition patched :: "'a option \<Rightarrow> 'a \<Rightarrow> 'a" where
  "patched q x = (case q of Some y \<Rightarrow> y | None \<Rightarrow> x)"

definition patch_operation :: "OperationPatch \<Rightarrow> ParamOverrideOperation \<Rightarrow> ParamOverrideOperation" where
  "patch_operation q p =
     p\<lparr>po_description := patched (op_description q) (po_description p), po_path := patched (op_path q) (po_path p),
       po_mode := patched (op_mode q) (po_mode p), po_from := patched (op_from q) (po_from p),
       po_to := patched (op_to q) (po_to p), po_value_text := patched (op_value_text q) (po_value_text p),
       po_keep_origin := patched (op_keep_origin q) (po_keep_origin p), po_logic := patched (op_logic q) (po_logic p)\<rparr>"

record ConditionPatch =
  cp_path :: "string option"
  cp_mode :: "string option"
  cp_value_text :: "string option"
  cp_invert :: "bool option"
  cp_pass_missing_key :: "bool option"

definition patch_condition :: "ConditionPatch \<Rightarrow> ParamOverrideCondition \<Rightarrow> ParamOverrideCondition" where
  "patch_condition q c =
     c\<lparr>pc_path := patched (cp_path q) (pc_path c), pc_mode := patched (cp_mode q) (pc_mode c),
       pc_value_text := patched (cp_value_text q) (pc_value_text c), pc_invert := patched (cp_invert q) (pc_invert c),
       pc_pass_missing_key := patched (cp_pass_missing_key q) (pc_pass_missing_key c)\<rparr>"

definition map_operation :: "string \<Rightarrow> (ParamOverrideOperation \<Rightarrow> ParamOverrideOperation) \<Rightarrow> Dialog \<Rightarrow> Dialog" where
  "map_operation operationId f d =
     d\<lparr>dg_operations := map (\<lambda>p. if po_id p = operationId then f p else p) (dg_operations d)\<rparr>"

definition updateOperation :: "string \<Rightarrow> OperationPatch \<Rightarrow> Dialog \<Rightarrow> Dialog" where
  "updateOperation operationId patch d = map_operation operationId (patch_operation patch) d"

definition addOperation :: "(nat \<Rightarrow> nat) \<Rightarrow> Dialog \<Rightarrow> Dialog" where
  "addOperation clock d =
     (let created = createDefaultOperation clock (dg_seed d) in
      d\<lparr>dg_operations := dg_operations d @ [created], dg_selectedOperationId := po_id created,
        dg_seed := Suc (dg_seed d)\<rparr>)"

definition condition_source :: "ParamOverrideCondition \<Rightarrow> jsval" where
  "condition_source c =
     JObj [(''path'', JStr (pc_path c)), (''mode'', JStr (pc_mode c)), (''value'', parseLooseValue (pc_value_text c)),
       (''invert'', JBool (pc_invert c)), (''pass_missing_key'', JBool (pc_pass_missing_key c))]"

definition operation_source :: "ParamOverrideOperation \<Rightarrow> jsval" where
  "operation_source p =
     JObj [(''description'', JStr (po_description p)), (''path'', JStr (po_path p)), (''mode'', JStr (po_mode p)),
       (''value'', parseLooseValue (po_value_text p)), (''keep_origin'', JBool (po_keep_origin p)),
       (''from'', JStr (po_from p)), (''to'', JStr (po_to p)), (''logic'', JStr (po_logic p)),
       (''conditions'', JArr (map condition_source (po_conditions p)))]"

text \<open>\<open>eager\<close>: the updater has run before the identifier of the copy is looked at.\<close>

definition duplicateOperation :: "(nat \<Rightarrow> nat) \<Rightarrow> bool \<Rightarrow> string \<Rightarrow> Dialog \<Rightarrow> Dialog" where
  "duplicateOperation clock eager operationId d =
     (case List.extract (\<lambda>p. po_id p = operationId) (dg_operations d) of
        None \<Rightarrow> d
      | Some (ps, source, qs) \<Rightarrow>
          (case normalizeOperation clock (dg_seed d) (operation_source source) of
             Inl e \<Rightarrow> d
           | Inr (cloned, m) \<Rightarrow>
               d\<lparr>dg_operations := ps @ source # cloned # qs,
                 dg_selectedOperationId := (if eager then po_id cloned else dg_selectedOperationId d),
                 dg_seed := m\<rparr>))"

definition removeOperation :: "(nat \<Rightarrow> nat) \<Rightarrow> string \<Rightarrow> Dialog \<Rightarrow> Dialog" where
  "removeOperation clock operationId d =
     (if length (dg_operations d) \<le> 1
      then d\<lparr>dg_operations := [createDefaultOperation clock (dg_seed d)], dg_seed := Suc (dg_seed d)\<rparr>
      else d\<lparr>dg_operations := filter (\<lambda>p. po_id p \<noteq> operationId) (dg_operations d)\<rparr>)"

definition addCondition :: "(nat \<Rightarrow> nat) \<Rightarrow> string \<Rightarrow> Dialog \<Rightarrow> Dialog" where
  "addCondition clock operationId d =
     (let created = createDefaultCondition clock (dg_seed d);
          d1 = map_operation operationId (\<lambda>p. p\<lparr>po_conditions := po_conditions p @ [created]\<rparr>) d
      in d1\<lparr>dg_expandedConditions := obj_set (pc_id created) True (dg_expandedConditions d), dg_seed := Suc (dg_seed d)\<rparr>)"

definition updateCondition :: "string \<Rightarrow> string \<Rightarrow> ConditionPatch \<Rightarrow> Dialog \<Rightarrow> Dialog" where
  "updateCondition operationId conditionId patch d =
     map_operation operationId (\<lambda>p. p\<lparr>po_conditions :=
       map (\<lambda>c. if pc_id c = conditionId then patch_condition patch c else c) (po_conditions p)\<rparr>) d"

definition removeCondition :: "string \<Rightarrow> string \<Rightarrow> Dialog \<Rightarrow> Dialog" where
  "removeCondition operationId conditionId d =
     map_operation operationId (\<lambda>p. p\<lparr>po_conditions := filter (\<lambda>c. pc_id c \<noteq> conditionId) (po_conditions p)\<rparr>) d"

definition toggleAllConditions :: "bool \<Rightarrow> Dialog \<Rightarrow> Dialog" where
  "toggleAllConditions b d =
     (case selectedOperation d of
        None \<Rightarrow> d
      | Some p \<Rightarrow> d\<lparr>dg_expandedConditions :=
          foldl (\<lambda>acc c. obj_set (pc_id c) b acc) (dg_expandedConditions d) (po_conditions p)\<rparr>)"

section \<open>Drafts of custom errors and pruning rules\<close>

record ReturnErrorPatch =
  rp_message :: "string option"
  rp_statusCode :: "jsnum option"
  rp_code :: "string option"
  rp_type :: "string option"
  rp_skipRetry :: "bool option"
  rp_simpleMode :: "bool option"

definition patch_error :: "ReturnErrorPatch \<Rightarrow> ReturnErrorDraft \<Rightarrow> ReturnErrorDraft" where
  "patch_error q r =
     \<lparr>re_message = patched (rp_message q) (re_message r), re_statusCode = patched (rp_statusCode q) (re_statusCode r),
      re_code = patched (rp_code q) (re_code r), re_type = patched (rp_type q) (re_type r),
      re_skipRetry = patched (rp_skipRetry q) (re_skipRetry r), re_simpleMode = patched (rp_simpleMode q) (re_simpleMode r)\<rparr>"

definition updateReturnErrorDraft :: "string \<Rightarrow> ReturnErrorPatch \<Rightarrow> Dialog \<Rightarrow> Dialog" where
  "updateReturnErrorDraft operationId patch d =
     map_operation operationId (\<lambda>p. p\<lparr>po_value_text :=
       buildReturnErrorValueText (patch_error patch (parseReturnErrorDraft (po_value_text p)))\<rparr>) d"

text \<open>An updater may take identifiers, so it is given the counter and returns it.\<close>

type_synonym prune_updater = "nat \<Rightarrow> PruneObjectsDraft \<Rightarrow> PruneObjectsDraft \<times> nat"

fun update_prune ::
  "(nat \<Rightarrow> nat) \<Rightarrow> string \<Rightarrow> prune_updater \<Rightarrow> nat \<Rightarrow> ParamOverrideOperation list \<Rightarrow> ParamOverrideOperation list \<times> nat" where
  "update_prune clock operationId updater n [] = ([], n)"
| "update_prune clock operationId updater n (p # ps) =
     (if po_id p \<noteq> operationId then
        let (ps', k) = update_prune clock operationId updater n ps in (p # ps', k)
      else
        let (draft, m) = parsePruneObjectsDraft clock n (po_value_text p);
            (nextDraft, j) = updater m draft;
            (ps', k) = update_prune clock operationId updater j ps
        in (p\<lparr>po_value_text := buildPruneObjectsValueText nextDraft\<rparr> # ps', k))"

definition updatePruneObjectsDraft :: "(nat \<Rightarrow> nat) \<Rightarrow> string \<Rightarrow> prune_updater \<Rightarrow> Dialog \<Rightarrow> Dialog" where
  "updatePruneObjectsDraft clock operationId updater d =
     (let (ops, n) = update_prune clock operationId updater (dg_seed d) (dg_operations d)
      in d\<lparr>dg_operations := ops, dg_seed := n\<rparr>)"

record PrunePatch =
  pp_simpleMode :: "bool option"
  pp_typeText :: "string option"
  pp_logic :: "string option"
  pp_recursive :: "bool option"

definition patch_prune :: "PrunePatch \<Rightarrow> PruneObjectsDraft \<Rightarrow> PruneObjectsDraft" where
  "patch_prune q r =
     r\<lparr>pd_simpleMode := patched (pp_simpleMode q) (pd_simpleMode r), pd_typeText := patched (pp_typeText q) (pd_typeText r),
       pd_logic := patched (pp_logic q) (pd_logic r), pd_recursive := patched (pp_recursive q) (pd_recursive r)\<rparr>"

definition addPruneRule :: "(nat \<Rightarrow> nat) \<Rightarrow> string \<Rightarrow> Dialog \<Rightarrow> Dialog" where
  "addPruneRule clock operationId d =
     updatePruneObjectsDraft clock operationId (\<lambda>n draft.
       (draft\<lparr>pd_simpleMode := False, pd_rules := pd_rules draft @ [normalizePruneRule clock n (JObj [])]\<rparr>, Suc n)) d"

definition updatePruneRule :: "(nat \<Rightarrow> nat) \<Rightarrow> string \<Rightarrow> string \<Rightarrow> ConditionPatch \<Rightarrow> Dialog \<Rightarrow> Dialog" where
  "updatePruneRule clock operationId ruleId patch d =
     updatePruneObjectsDraft clock operationId (\<lambda>n draft.
       (draft\<lparr>pd_rules := map (\<lambda>r. if pc_id r = ruleId then patch_condition patch r else r) (pd_rules draft)\<rparr>, n)) d"

definition removePruneRule :: "(nat \<Rightarrow> nat) \<Rightarrow> string \<Rightarrow> string \<Rightarrow> Dialog \<Rightarrow> Dialog" where
  "removePruneRule clock operationId ruleId d =
     updatePruneObjectsDraft clock operationId (\<lambda>n draft.
       (draft\<lparr>pd_rules := filter (\<lambda>r. pc_id r \<noteq> ruleId) (pd_rules draft)\<rparr>, n)) d"

text \<open>Showing the dialog parses the rules of the selected operation, which takes identifiers.\<close>

definition pruneObjectsDraft :: "(nat \<Rightarrow> nat) \<Rightarrow> Dialog \<Rightarrow> PruneObjectsDraft option \<times> nat" where
  "pruneObjectsDraft clock d =
     (case selectedOperation d of
        Some p \<Rightarrow>
          if po_mode p \<noteq> ''prune_objects'' then (None, dg_seed d)
          else (let (draft, m) = parsePruneObjectsDraft clock (dg_seed d) (po_value_text p) in (Some draft, m))
      | None \<Rightarrow> (None, dg_seed d))"

section \<open>Dragging\<close>

definition resetDragState :: "Dialog \<Rightarrow> Dialog" where
  "resetDragState d = d\<lparr>dg_draggedOperationId := [], dg_dragOverOperationId := [], dg_dragOverAfter := False\<rparr>"

definition handleDragStart :: "string \<Rightarrow> Dialog \<Rightarrow> Dialog" where
  "handleDragStart operationId d = d\<lparr>dg_draggedOperationId := operationId, dg_selectedOperationId := operationId\<rparr>"

definition handleDragOver :: "string \<Rightarrow> bool \<Rightarrow> Dialog \<Rightarrow> Dialog" where
  "handleDragOver operationId after d =
     (if dg_draggedOperationId d = [] \<or> dg_draggedOperationId d = operationId then d
      else d\<lparr>dg_dragOverOperationId := operationId, dg_dragOverAfter := after\<rparr>)"

definition handleDrop :: "string \<Rightarrow> string \<Rightarrow> Dialog \<Rightarrow> Dialog" where
  "handleDrop operationId data d =
     (let sourceId = str_or (dg_draggedOperationId d) data;
          after = (dg_dragOverOperationId d = operationId \<and> dg_dragOverAfter d);
          d1 = (if sourceId \<noteq> [] \<and> operationId \<noteq> [] \<and> sourceId \<noteq> operationId
                then d\<lparr>dg_operations := reorderOperations (dg_operations d) sourceId operationId after,
                       dg_selectedOperationId := sourceId\<rparr>
                else d)
      in resetDragState d1)"

section \<open>Modes, templates and saving\<close>

definition buildVisualJson :: "Dialog \<Rightarrow> editor_error + string" where
  "buildVisualJson d =
     (if dg_visualMode d = VisualLegacy then
        let trimmed = trim (dg_legacyValue d) in
        if trimmed = [] then Inr []
        else case json_parse trimmed of
            None \<Rightarrow> Inl (EditorError ''Parameter override must be valid JSON format'')
          | Some (JObj kvs) \<Rightarrow> Inr (json_stringify 2 (JObj kvs))
          | Some _ \<Rightarrow> Inl (EditorError ''Legacy format must be a JSON object'')
      else buildOperationsJson (dg_operations d) True)"

definition switchToJsonMode :: "(editor_error \<Rightarrow> string) \<Rightarrow> Dialog \<Rightarrow> Dialog" where
  "switchToJsonMode tr d =
     (if dg_editMode d = EditJson then d
      else case buildVisualJson d of
          Inr text \<Rightarrow> d\<lparr>dg_jsonText := text, dg_jsonError := [], dg_editMode := EditJson\<rparr>
        | Inl e \<Rightarrow>
            d\<lparr>dg_jsonText :=
                (if dg_visualMode d = VisualLegacy then dg_legacyValue d
                 else case buildOperationsJson (dg_operations d) False of Inr text \<Rightarrow> text | Inl _ \<Rightarrow> []),
              dg_jsonError := str_or (tr e) (tr (EditorError ''Parameter configuration error'')),
              dg_editMode := EditJson\<rparr>)"

definition switchToVisualMode :: "(nat \<Rightarrow> nat) \<Rightarrow> Dialog \<Rightarrow> Dialog" where
  "switchToVisualMode clock d =
     (if dg_editMode d = EditVisual then d
      else
        let trimmed = trim (dg_jsonText d); fallback = createDefaultOperation clock (dg_seed d);
            reset = d\<lparr>dg_visualMode := VisualOperations, dg_operations := [fallback],
              dg_selectedOperationId := po_id fallback, dg_legacyValue := [], dg_jsonError := [],
              dg_editMode := EditVisual, dg_seed := Suc (dg_seed d)\<rparr>
        in if trimmed = [] then reset
           else case json_parse trimmed of
               Some (JObj kvs) \<Rightarrow>
                 (case prop_of (JObj kvs) ''operations'' of
                    JArr vs \<Rightarrow>
                      (case operations_or_default clock (dg_seed d) vs of
                         Inl e \<Rightarrow> d
                       | Inr (nextOps, m) \<Rightarrow>
                           d\<lparr>dg_visualMode := VisualOperations, dg_operations := nextOps,
                             dg_selectedOperationId := first_id nextOps, dg_legacyValue := [], dg_jsonError := [],
                             dg_editMode := EditVisual, dg_templatePresetKey := ''operations_default'', dg_seed := m\<rparr>)
                  | _ \<Rightarrow> reset\<lparr>dg_visualMode := VisualLegacy, dg_legacyValue := json_stringify 2 (JObj kvs),
                              dg_templatePresetKey := ''legacy_default''\<rparr>)
             | _ \<Rightarrow> d)"

definition legacy_template :: "(nat \<Rightarrow> nat) \<Rightarrow> string \<Rightarrow> Dialog \<Rightarrow> Dialog" where
  "legacy_template clock text d =
     d\<lparr>dg_visualMode := VisualLegacy, dg_legacyValue := text,
       dg_operations := [createDefaultOperation clock (dg_seed d)], dg_jsonText := text, dg_jsonError := [],
       dg_editMode := EditVisual, dg_seed := Suc (dg_seed d)\<rparr>"

definition fill_legacy :: "(nat \<Rightarrow> nat) \<Rightarrow> bool \<Rightarrow> jsval \<Rightarrow> Dialog \<Rightarrow> Dialog" where
  "fill_legacy clock appending payload d =
     (if appending \<and> dg_visualMode d = VisualLegacy then
        let trimmed = trim (dg_legacyValue d) in
        if trimmed = [] then legacy_template clock (json_stringify 2 (JObj (spread_entries payload))) d
        else case json_parse trimmed of
            None \<Rightarrow> d
          | Some parsedCurrent \<Rightarrow>
              legacy_template clock (json_stringify 2
                (JObj (foldl (\<lambda>acc (k, v). obj_set k v acc) (spread_entries payload) (spread_entries parsedCurrent)))) d
      else legacy_template clock (json_stringify 2 payload) d)"

definition fill_operations :: "(nat \<Rightarrow> nat) \<Rightarrow> bool \<Rightarrow> jsval list \<Rightarrow> Dialog \<Rightarrow> Dialog" where
  "fill_operations clock appending operationsPayload d =
     (case normalizeOperations clock (dg_seed d) operationsPayload of
        Inl e \<Rightarrow> d
      | Inr (appended, m) \<Rightarrow>
          if appending then
            let existing = (if dg_visualMode d = VisualOperations
                  then filter (\<lambda>p. \<not> isOperationBlank p) (dg_operations d) else []);
                nextOps = existing @ appended
            in d\<lparr>dg_visualMode := VisualOperations,
                 dg_operations := (if nextOps \<noteq> [] then nextOps else appended),
                 dg_selectedOperationId := str_or (first_id nextOps) (first_id appended),
                 dg_legacyValue := [], dg_jsonError := [], dg_editMode := EditVisual, dg_jsonText := [],
                 dg_seed := m\<rparr>
          else
            let finalOps = (if appended \<noteq> [] then appended else [createDefaultOperation clock m])
            in d\<lparr>dg_visualMode := VisualOperations, dg_operations := finalOps,
                 dg_selectedOperationId := first_id finalOps,
                 dg_jsonText := json_stringify 2 (operations_object operationsPayload), dg_jsonError := [],
                 dg_editMode := EditVisual, dg_seed := (if appended \<noteq> [] then m else Suc m)\<rparr>)"

definition template_preset :: "Dialog \<Rightarrow> TemplateKind \<times> jsval" where
  "template_preset d =
     (case map_of TEMPLATE_PRESET_CONFIG (dg_templatePresetKey d) of
        Some preset \<Rightarrow> preset
      | None \<Rightarrow> (OperationsKind, OPERATION_TEMPLATE))"

definition fillTemplate :: "(nat \<Rightarrow> nat) \<Rightarrow> bool \<Rightarrow> Dialog \<Rightarrow> Dialog" where
  "fillTemplate clock appending d =
     (case template_preset d of
        (LegacyKind, payload) \<Rightarrow> fill_legacy clock appending payload d
      | (OperationsKind, payload) \<Rightarrow>
          fill_operations clock appending (case prop_of payload ''operations'' of JArr vs \<Rightarrow> vs | _ \<Rightarrow> []) d)"

definition resetEditorState :: "(nat \<Rightarrow> nat) \<Rightarrow> Dialog \<Rightarrow> Dialog" where
  "resetEditorState clock d =
     (let fallback = createDefaultOperation clock (dg_seed d) in
      d\<lparr>dg_visualMode := VisualOperations, dg_legacyValue := [], dg_operations := [fallback],
        dg_selectedOperationId := po_id fallback, dg_jsonText := [], dg_jsonError := [],
        dg_templatePresetKey := ''operations_default'', dg_editMode := EditVisual, dg_seed := Suc (dg_seed d)\<rparr>)"

definition handleJsonChange :: "(editor_error \<Rightarrow> string) \<Rightarrow> string \<Rightarrow> Dialog \<Rightarrow> Dialog" where
  "handleJsonChange tr nextValue d =
     (let trimmed = trim nextValue in
      d\<lparr>dg_jsonText := nextValue,
        dg_jsonError := (if trimmed = [] \<or> verifyJSON trimmed then [] else tr (EditorError ''JSON format error''))\<rparr>)"

definition formatJson :: "Dialog \<Rightarrow> Dialog" where
  "formatJson d =
     (let trimmed = trim (dg_jsonText d) in
      if trimmed = [] then d
      else case json_parse trimmed of
          None \<Rightarrow> d
        | Some v \<Rightarrow> d\<lparr>dg_jsonText := json_stringify 2 v, dg_jsonError := []\<rparr>)"

definition visualValidationError :: "(editor_error \<Rightarrow> string) \<Rightarrow> Dialog \<Rightarrow> string" where
  "visualValidationError tr d =
     (if dg_editMode d \<noteq> EditVisual then []
      else case buildVisualJson d of
          Inr _ \<Rightarrow> []
        | Inl e \<Rightarrow> str_or (tr e) (tr (EditorError ''Parameter configuration error'')))"

text \<open>The text handed to \<open>onSave\<close>, or the message shown instead.\<close>

definition handleSave :: "Dialog \<Rightarrow> editor_error + string" where
  "handleSave d =
     (if dg_editMode d = EditJson then
        let trimmed = trim (dg_jsonText d) in
        if trimmed = [] then Inr []
        else case json_parse trimmed of
            None \<Rightarrow> Inl (EditorError ''Parameter override must be valid JSON format'')
          | Some v \<Rightarrow> Inr (json_stringify 2 v)
      else buildVisualJson d)"

section \<open>Events\<close>

datatype DialogEvent =
    UpdateOperation string OperationPatch
  | AddOperation
  | DuplicateOperation bool string
  | RemoveOperation string
  | AddCondition string
  | UpdateCondition string string ConditionPatch
  | RemoveCondition string string
  | UpdateReturnError string ReturnErrorPatch
  | UpdatePrune string PrunePatch
  | AddPruneRule string
  | UpdatePruneRule string string ConditionPatch
  | RemovePruneRule string string
  | DragStart string
  | DragOver string bool
  | DropOn string string
  | DragEnd
  | SwitchToJson
  | SwitchToVisual
  | FillTemplate bool
  | SelectTemplate string
  | ResetEditor
  | JsonChange string
  | FormatJson
  | LegacyChange string
  | SearchChange string
  | SelectOperation string
  | ToggleAll bool
  | ToggleCondition string bool
  | ShowDialog

fun dialog_event :: "(nat \<Rightarrow> nat) \<Rightarrow> (editor_error \<Rightarrow> string) \<Rightarrow> DialogEvent \<Rightarrow> Dialog \<Rightarrow> Dialog" where
  "dialog_event clock tr (UpdateOperation i q) d = updateOperation i q d"
| "dialog_event clock tr AddOperation d = addOperation clock d"
| "dialog_event clock tr (DuplicateOperation eager i) d = duplicateOperation clock eager i d"
| "dialog_event clock tr (RemoveOperation i) d = removeOperation clock i d"
| "dialog_event clock tr (AddCondition i) d = addCondition clock i d"
| "dialog_event clock tr (UpdateCondition i c q) d = updateCondition i c q d"
| "dialog_event clock tr (RemoveCondition i c) d = removeCondition i c d"
| "dialog_event clock tr (UpdateReturnError i q) d = updateReturnErrorDraft i q d"
| "dialog_event clock tr (UpdatePrune i q) d = updatePruneObjectsDraft clock i (\<lambda>n draft. (patch_prune q draft, n)) d"
| "dialog_event clock tr (AddPruneRule i) d = addPruneRule clock i d"
| "dialog_event clock tr (UpdatePruneRule i r q) d = updatePruneRule clock i r q d"
| "dialog_event clock tr (RemovePruneRule i r) d = removePruneRule clock i r d"
| "dialog_event clock tr (DragStart i) d = handleDragStart i d"
| "dialog_event clock tr (DragOver i after) d = handleDragOver i after d"
| "dialog_event clock tr (DropOn i data) d = handleDrop i data d"
| "dialog_event clock tr DragEnd d = resetDragState d"
| "dialog_event clock tr SwitchToJson d = switchToJsonMode tr d"
| "dialog_event clock tr SwitchToVisual d = switchToVisualMode clock d"
| "dialog_event clock tr (FillTemplate appending) d = fillTemplate clock appending d"
| "dialog_event clock tr (SelectTemplate k) d = d\<lparr>dg_templatePresetKey := str_or k ''operations_default''\<rparr>"
| "dialog_event clock tr ResetEditor d = resetEditorState clock d"
| "dialog_event clock tr (JsonChange t) d = handleJsonChange tr t d"
| "dialog_event clock tr FormatJson d = formatJson d"
| "dialog_event clock tr (LegacyChange t) d = d\<lparr>dg_legacyValue := t\<rparr>"
| "dialog_event clock tr (SearchChange t) d = d\<lparr>dg_operationSearch := t\<rparr>"
| "dialog_event clock tr (SelectOperation i) d = d\<lparr>dg_selectedOperationId := i\<rparr>"
| "dialog_event clock tr (ToggleAll b) d = toggleAllConditions b d"
| "dialog_event clock tr (ToggleCondition c b) d = d\<lparr>dg_expandedConditions := obj_set c b (dg_expandedConditions d)\<rparr>"
| "dialog_event clock tr ShowDialog d = d\<lparr>dg_seed := snd (pruneObjectsDraft clock d)\<rparr>"

text \<open>The selectors only offer the modes of their tables.\<close>

definition offered_mode :: "string list \<Rightarrow> string option \<Rightarrow> bool" where
  "offered_mode modes q \<longleftrightarrow> (case q of None \<Rightarrow> True | Some m \<Rightarrow> m \<in> set modes)"

fun offered :: "DialogEvent \<Rightarrow> bool" where
  "offered (UpdateOperation i q) = offered_mode OPERATION_MODE_VALUES (op_mode q)"
| "offered (UpdateCondition i c q) = offered_mode CONDITION_MODE_VALUES (cp_mode q)"
| "offered _ = True"

inductive dialog_reachable :: "(nat \<Rightarrow> nat) \<Rightarrow> (editor_error \<Rightarrow> string) \<Rightarrow> Dialog \<Rightarrow> bool"
  for clock tr where
  opened: "openDialog clock n text = Inr d \<Longrightarrow> dialog_reachable clock tr (keepSelectionValid d)"
| event: "dialog_reachable clock tr d \<Longrightarrow> offered e \<Longrightarrow>
    dialog_reachable clock tr (keepSelectionValid (dialog_event clock tr e d))"

section \<open>Identifiers\<close>

lemma nextLocalId_inj: "nextLocalId clock m = nextLocalId clock n \<Longrightarrow> m = n"
proof -
  assume eq: "nextLocalId clock m = nextLocalId clock n"
  have last: "rev (takeWhile (\<lambda>c. c \<noteq> CHR ''_'') (rev (nextLocalId clock k))) = digits_of (int k)" for k
  proof -
    have "CHR ''_'' \<notin> set (digits_of (int k))"
      using digits_of_digits [of "int k"] by (auto simp: list_all_iff is_digit_def)
    then have "takeWhile (\<lambda>c. c \<noteq> CHR ''_'') (rev (digits_of (int k)) @ CHR ''_'' # rev (''po_'' @ digits_of (int (clock k)))) =
        rev (digits_of (int k))"
      by (subst takeWhile_append2) auto
    then show ?thesis by (simp add: nextLocalId_def)
  qed
  have "digits_of (int m) = digits_of (int n)" using last [of m] last [of n] eq by simp
  then have "int_of_digits (digits_of (int m)) = int_of_digits (digits_of (int n))" by simp
  then show ?thesis by simp
qed

definition op_ids :: "ParamOverrideOperation \<Rightarrow> string list" where
  "op_ids p = po_id p # map pc_id (po_conditions p)"

definition all_ids :: "ParamOverrideOperation list \<Rightarrow> string list" where
  "all_ids ops = concat (map op_ids ops)"

definition modes_ok :: "ParamOverrideOperation \<Rightarrow> bool" where
  "modes_ok p \<longleftrightarrow> po_mode p \<in> set OPERATION_MODE_VALUES \<and> (\<forall>c\<in>set (po_conditions p). pc_mode c \<in> set CONDITION_MODE_VALUES)"

definition issued :: "(nat \<Rightarrow> nat) \<Rightarrow> nat \<Rightarrow> string set" where
  "issued clock n = nextLocalId clock ` {..<n}"

definition operations_ok :: "(nat \<Rightarrow> nat) \<Rightarrow> nat \<Rightarrow> ParamOverrideOperation list \<Rightarrow> bool" where
  "operations_ok clock n ops \<longleftrightarrow>
     distinct (all_ids ops) \<and> set (all_ids ops) \<subseteq> issued clock n \<and> (\<forall>p\<in>set ops. modes_ok p)"

lemma all_ids_simps [simp]:
  "all_ids [] = []" "all_ids (p # ps) = op_ids p @ all_ids ps" "all_ids (ps @ qs) = all_ids ps @ all_ids qs"
  by (simp_all add: all_ids_def)

lemma issued_mono: "m \<le> n \<Longrightarrow> issued clock m \<subseteq> issued clock n"
  by (auto simp: issued_def)

lemma nextLocalId_issued: "nextLocalId clock k \<in> issued clock n \<longleftrightarrow> k < n"
  using nextLocalId_inj by (auto simp: issued_def)

lemma fresh_ids:
  "n \<le> m \<Longrightarrow> distinct (map (nextLocalId clock) [n..<m]) \<and>
   set (map (nextLocalId clock) [n..<m]) \<subseteq> issued clock m \<and>
   set (map (nextLocalId clock) [n..<m]) \<inter> issued clock n = {}"
  using nextLocalId_inj by (auto simp: distinct_map inj_on_def nextLocalId_issued)

text \<open>Reading takes the identifiers in order.\<close>

lemma mode_or_in: "d \<in> set modes \<Longrightarrow> mode_or modes v d \<in> set modes"
  by (cases v) (simp_all add: mode_or_def)

lemma full_mode: "''full'' \<in> set CONDITION_MODE_VALUES"
  by (simp add: CONDITION_MODE_VALUES_def)

lemma set_mode: "''set'' \<in> set OPERATION_MODE_VALUES"
  by (simp add: OPERATION_MODE_VALUES_def OPERATION_MODE_OPTIONS_def)

lemma normalizeConditions_ids:
  "normalizeConditions clock n vs = Inr cs \<Longrightarrow>
   map pc_id cs = map (nextLocalId clock) [n..<n + length cs] \<and> (\<forall>c\<in>set cs. pc_mode c \<in> set CONDITION_MODE_VALUES)"
proof (induction vs arbitrary: n cs)
  case (Cons v vs)
  then obtain c ds where c: "normalizeCondition clock n v = Inr c" "normalizeConditions clock (Suc n) vs = Inr ds" "cs = c # ds"
    by (auto simp: sbind_Inr_iff)
  have "c = condition_of clock n v" using c(1) by (auto simp: normalizeCondition_def split: if_splits)
  then show ?case using Cons.IH [OF c(2)] c(3) mode_or_in [OF full_mode] upt_conv_Cons [of n "Suc n + length ds"] by (simp add: condition_of_def del: upt_Suc)
qed simp

lemma normalizeOperation_ids:
  assumes "normalizeOperation clock n v = Inr (p, m)"
  shows "op_ids p = map (nextLocalId clock) [n..<m]" "n < m" "modes_ok p"
proof -
  obtain cs where cs: "p = operation_of clock n v cs" "m = Suc n + length cs"
    "map pc_id cs = map (nextLocalId clock) [Suc n..<Suc n + length cs]" "\<forall>c\<in>set cs. pc_mode c \<in> set CONDITION_MODE_VALUES"
  proof -
    obtain cs where c: "(case prop_of v ''conditions'' of JArr vs \<Rightarrow> normalizeConditions clock (Suc n) vs | _ \<Rightarrow> Inr []) = Inr cs"
      "p = operation_of clock n v cs" "m = Suc n + length cs"
      using assms by (auto simp: normalizeOperation_def sbind_Inr_iff split: if_splits)
    have "map pc_id cs = map (nextLocalId clock) [Suc n..<Suc n + length cs] \<and> (\<forall>c\<in>set cs. pc_mode c \<in> set CONDITION_MODE_VALUES)"
      using c(1) normalizeConditions_ids by (cases "prop_of v ''conditions''") auto
    then show ?thesis using that c(2,3) by blast
  qed
  then show "op_ids p = map (nextLocalId clock) [n..<m]" "n < m" "modes_ok p"
    using mode_or_in [OF set_mode] upt_conv_Cons [of n m] by (simp_all add: op_ids_def operation_of_def modes_ok_def del: upt_Suc)
qed

lemma normalizeOperations_ids:
  "normalizeOperations clock n vs = Inr (ops, m) \<Longrightarrow>
   all_ids ops = map (nextLocalId clock) [n..<m] \<and> n \<le> m \<and> (\<forall>p\<in>set ops. modes_ok p) \<and> length ops = length vs"
proof (induction vs arbitrary: n ops m)
  case (Cons v vs)
  then obtain p k ps where p: "normalizeOperation clock n v = Inr (p, k)" "normalizeOperations clock k vs = Inr (ps, m)" "ops = p # ps"
    by (auto simp: sbind_Inr_iff split: prod.splits)
  note O = normalizeOperation_ids [OF p(1)] and R = Cons.IH [OF p(2)]
  then have "[n..<m] = [n..<k] @ [k..<m]" using upt_add_eq_append [of n k "m - k"] by simp
  then show ?case using O R p(3) by simp
qed simp

lemma default_operation_ids: "op_ids (createDefaultOperation clock n) = [nextLocalId clock n]" "modes_ok (createDefaultOperation clock n)"
  using mode_or_in [OF set_mode] by (simp_all add: createDefaultOperation_def operation_of_def op_ids_def modes_ok_def)

lemma operations_or_default_ids:
  assumes "operations_or_default clock n vs = Inr (ops, m)"
  shows "all_ids ops = map (nextLocalId clock) [n..<m]" "n \<le> m" "\<forall>p\<in>set ops. modes_ok p" "ops \<noteq> []"
proof -
  have "all_ids ops = map (nextLocalId clock) [n..<m] \<and> n \<le> m \<and> (\<forall>p\<in>set ops. modes_ok p) \<and> ops \<noteq> []"
    using assms normalizeOperations_ids [of clock n vs ops m] default_operation_ids
    by (cases vs) (auto simp: operations_or_default_def split: if_splits)
  then show "all_ids ops = map (nextLocalId clock) [n..<m]" "n \<le> m" "\<forall>p\<in>set ops. modes_ok p" "ops \<noteq> []" by auto
qed

text \<open>Lists of operations that keep the identifiers distinct.\<close>

lemma operations_ok_fresh:
  "all_ids ops = map (nextLocalId clock) [n..<m] \<Longrightarrow> n \<le> m \<Longrightarrow> \<forall>p\<in>set ops. modes_ok p \<Longrightarrow> operations_ok clock m ops"
  using fresh_ids by (simp add: operations_ok_def)

lemma operations_ok_default: "operations_ok clock (Suc n) [createDefaultOperation clock n]"
  by (rule operations_ok_fresh [of _ _ n]) (simp_all add: default_operation_ids)

lemma operations_ok_append:
  assumes "operations_ok clock n ops" "all_ids new = map (nextLocalId clock) [n..<m]" "n \<le> m" "\<forall>p\<in>set new. modes_ok p"
  shows "operations_ok clock m (ops @ new)"
  using assms fresh_ids [OF assms(3), of clock] issued_mono [OF assms(3), of clock]
  unfolding operations_ok_def by auto

lemma operations_ok_mono: "operations_ok clock n ops \<Longrightarrow> n \<le> m \<Longrightarrow> operations_ok clock m ops"
  using issued_mono unfolding operations_ok_def by blast

lemma operations_ok_perm:
  assumes "operations_ok clock n ops" "mset qs = mset ops"
  shows "operations_ok clock n qs"
proof -
  have "mset (all_ids qs) = mset (all_ids ops)"
    using arg_cong [OF assms(2), of "\<lambda>M. \<Sum>\<^sub># (image_mset (\<lambda>p. mset (op_ids p)) M)"]
    by (simp add: all_ids_def mset_concat comp_def flip: sum_mset_sum_list)
  then show ?thesis
    using assms unfolding operations_ok_def by (metis mset_eq_imp_distinct_iff mset_eq_setD)
qed

lemma operations_ok_filter:
  assumes "operations_ok clock n ops"
  shows "operations_ok clock n (filter P ops)"
proof -
  have "distinct (all_ids xs) \<Longrightarrow> distinct (all_ids (filter P xs)) \<and> set (all_ids (filter P xs)) \<subseteq> set (all_ids xs)" for xs
    by (induction xs) auto
  then show ?thesis using assms unfolding operations_ok_def by fastforce
qed


lemma map_operation_ids:
  assumes "distinct (all_ids ops)" "x \<notin> set (all_ids ops)"
    and "\<And>p. distinct (op_ids p) \<Longrightarrow> x \<notin> set (op_ids p) \<Longrightarrow>
      distinct (op_ids (f p)) \<and> set (op_ids (f p)) \<subseteq> insert x (set (op_ids p))"
  shows "distinct (all_ids (map (\<lambda>p. if po_id p = i then f p else p) ops)) \<and>
    set (all_ids (map (\<lambda>p. if po_id p = i then f p else p) ops)) \<subseteq> insert x (set (all_ids ops))"
  using assms(1,2)
proof (induction ops)
  case (Cons p ops)
  show ?case
  proof (cases "po_id p = i")
    case True
    have "po_id q \<noteq> i" if "q \<in> set ops" for q
      using that Cons.prems(1) True by (auto simp: op_ids_def all_ids_def)
    then have "map (\<lambda>p. if po_id p = i then f p else p) ops = ops" by (simp add: map_idI)
    then show ?thesis using True Cons.prems assms(3) [of p] by auto
  next
    case False
    then show ?thesis using Cons by auto
  qed
qed simp

lemma operations_ok_map:
  assumes ok: "operations_ok clock n ops" and nm: "n < m"
    and ids: "\<And>p. distinct (op_ids p) \<Longrightarrow> nextLocalId clock n \<notin> set (op_ids p) \<Longrightarrow>
      distinct (op_ids (f p)) \<and> set (op_ids (f p)) \<subseteq> insert (nextLocalId clock n) (set (op_ids p))"
    and modes: "\<And>p. modes_ok p \<Longrightarrow> modes_ok (f p)"
  shows "operations_ok clock m (map (\<lambda>p. if po_id p = i then f p else p) ops)"
proof -
  have "nextLocalId clock n \<notin> set (all_ids ops)" "set (all_ids ops) \<subseteq> issued clock m" "nextLocalId clock n \<in> issued clock m"
    using ok nm issued_mono [of n m clock] by (auto simp: operations_ok_def nextLocalId_issued)
  then show ?thesis
    using ok map_operation_ids [of ops "nextLocalId clock n" f i, OF _ _ ids] modes
    unfolding operations_ok_def by auto
qed

text \<open>Updates that keep the identifiers.\<close>

lemma operations_ok_same_ids:
  assumes "operations_ok clock n ops" "map op_ids qs = map op_ids ops" "\<forall>p\<in>set qs. modes_ok p" "n \<le> m"
  shows "operations_ok clock m qs"
  using assms issued_mono [OF assms(4), of clock] unfolding operations_ok_def all_ids_def by auto

lemma map_same_ids:
  assumes "operations_ok clock n ops" "\<And>p. op_ids (f p) = op_ids p" "\<And>p. modes_ok p \<Longrightarrow> modes_ok (f p)"
  shows "operations_ok clock n (map (\<lambda>p. if po_id p = i then f p else p) ops)"
  using assms by (intro operations_ok_same_ids [OF assms(1)]) (auto simp: operations_ok_def)

lemma map_fewer_ids:
  assumes ok: "operations_ok clock n ops"
    and ids: "\<And>p. distinct (op_ids p) \<Longrightarrow> distinct (op_ids (f p)) \<and> set (op_ids (f p)) \<subseteq> set (op_ids p)"
    and modes: "\<And>p. modes_ok p \<Longrightarrow> modes_ok (f p)"
  shows "operations_ok clock n (map (\<lambda>p. if po_id p = i then f p else p) ops)"
proof -
  have "distinct (all_ids (map (\<lambda>p. if po_id p = i then f p else p) xs)) \<and>
      set (all_ids (map (\<lambda>p. if po_id p = i then f p else p) xs)) \<subseteq> set (all_ids xs)" if "distinct (all_ids xs)" for xs
    using that
  proof (induction xs)
    case (Cons a xs)
    then show ?case using ids [of a] by auto
  qed simp
  then show ?thesis using ok modes unfolding operations_ok_def by fastforce
qed

lemma parsePrune_seed: "snd (parsePruneObjectsDraft clock n t) \<ge> n"
proof (cases "trim t = []")
  case False
  show ?thesis
  proof (cases "json_parse (trim t)")
    case (Some v)
    then show ?thesis using False by (cases v) (simp_all add: parsePruneObjectsDraft_def Let_def)
  qed (use False in \<open>simp add: parsePruneObjectsDraft_def\<close>)
qed (simp add: parsePruneObjectsDraft_def)

lemma update_prune_other:
  "po_id p \<noteq> i \<Longrightarrow> update_prune clock i updater n (p # ops) = apfst ((#) p) (update_prune clock i updater n ops)"
  by (cases "update_prune clock i updater n ops") simp

lemma update_prune_hit:
  assumes "po_id p = i" "parsePruneObjectsDraft clock n (po_value_text p) = (draft, m)" "updater m draft = (nextDraft, j)"
  shows "update_prune clock i updater n (p # ops) =
    apfst ((#) (p\<lparr>po_value_text := buildPruneObjectsValueText nextDraft\<rparr>)) (update_prune clock i updater j ops)"
  using assms by (cases "update_prune clock i updater j ops") simp

lemma value_text_ids [simp]:
  "op_ids (p\<lparr>po_value_text := t\<rparr>) = op_ids p" "modes_ok (p\<lparr>po_value_text := t\<rparr>) \<longleftrightarrow> modes_ok p"
  by (simp_all add: op_ids_def modes_ok_def)

lemma update_prune_ok:
  assumes upd: "\<And>m draft. snd (updater m draft) \<ge> m"
  shows "map op_ids (fst (update_prune clock i updater n ops)) = map op_ids ops \<and> n \<le> snd (update_prune clock i updater n ops) \<and>
    ((\<forall>p\<in>set ops. modes_ok p) \<longrightarrow> (\<forall>p\<in>set (fst (update_prune clock i updater n ops)). modes_ok p))"
proof (induction ops arbitrary: n)
  case (Cons p ops)
  show ?case
  proof (cases "po_id p = i")
    case False
    show ?thesis using Cons [of n] by (simp add: update_prune_other [OF False] del: update_prune.simps)
  next
    case True
    obtain draft m where a: "parsePruneObjectsDraft clock n (po_value_text p) = (draft, m)" by fastforce
    obtain nextDraft j where b: "updater m draft = (nextDraft, j)" by fastforce
    have "n \<le> j" using parsePrune_seed [of n clock "po_value_text p"] a upd [of m draft] b by simp
    then show ?thesis using Cons [of j]
      by (simp add: update_prune_hit [where updater = updater, OF True a b] del: update_prune.simps)
  qed
qed simp

lemma extract_mset: "List.extract P xs = Some (ps, x, qs) \<Longrightarrow> mset xs = {#x#} + mset ps + mset qs"
  by (auto simp: extract_Some_iff)

lemma reorder_perm: "mset (reorderOperations ops s t after) = mset ops"
proof (cases "s = [] \<or> t = [] \<or> s = t \<or> List.extract (\<lambda>p. po_id p = s) ops = None")
  case True
  then show ?thesis by (auto simp: reorderOperations_def)
next
  case False
  then obtain ps m qs where e: "List.extract (\<lambda>p. po_id p = s) ops = Some (ps, m, qs)" by auto
  show ?thesis
  proof (cases "List.extract (\<lambda>p. po_id p = t) (ps @ qs)")
    case None
    then show ?thesis using False e by (simp add: reorderOperations_def)
  next
    case (Some r)
    obtain us x vs where r: "r = (us, x, vs)" by (cases r)
    have "mset (ps @ qs) = {#x#} + mset us + mset vs" by (rule extract_mset [OF Some [unfolded r]])
    then show ?thesis using False e Some r extract_mset [OF e] by (auto simp: reorderOperations_def)
  qed
qed

fun has_operations :: "jsval \<Rightarrow> bool" where
  "has_operations v = (case prop_of v ''operations'' of JArr (w # ws) \<Rightarrow> True | _ \<Rightarrow> False)"

lemma templates_nonempty:
  assumes "fst (template_preset d) = OperationsKind"
  shows "\<exists>v vs. prop_of (snd (template_preset d)) ''operations'' = JArr (v # vs)"
proof -
  have t: "has_operations OPERATION_TEMPLATE"
    by (simp add: OPERATION_TEMPLATE_def operations_object_def prop_of_def)
  have "list_all (\<lambda>e. fst (snd e) = LegacyKind \<or> has_operations (snd (snd e))) TEMPLATE_PRESET_CONFIG"
    using t by (simp add: TEMPLATE_PRESET_CONFIG_def HEADER_PASSTHROUGH_TEMPLATE_def GEMINI_IMAGE_4K_TEMPLATE_def
        buildPassHeadersTemplate_def AWS_BEDROCK_ANTHROPIC_COMPAT_TEMPLATE_def operations_object_def prop_of_def)
  then have "\<forall>e\<in>set TEMPLATE_PRESET_CONFIG. fst (snd e) = LegacyKind \<or> has_operations (snd (snd e))"
    unfolding list_all_iff .
  moreover have "(dg_templatePresetKey d, template_preset d) \<in> set TEMPLATE_PRESET_CONFIG \<or> snd (template_preset d) = OPERATION_TEMPLATE"
    by (cases "map_of TEMPLATE_PRESET_CONFIG (dg_templatePresetKey d)") (auto simp: template_preset_def dest: map_of_SomeD)
  ultimately have "has_operations (snd (template_preset d))" using assms t by fastforce
  then show ?thesis by (auto split: jsval.splits list.splits)
qed

section \<open>Every event keeps the list of operations\<close>

definition dialog_ok :: "(nat \<Rightarrow> nat) \<Rightarrow> Dialog \<Rightarrow> bool" where
  "dialog_ok clock d \<longleftrightarrow> dg_operations d \<noteq> [] \<and> operations_ok clock (dg_seed d) (dg_operations d)"

lemma dialog_okI: "operations_ok clock (dg_seed d) (dg_operations d) \<Longrightarrow> dg_operations d \<noteq> [] \<Longrightarrow> dialog_ok clock d"
  by (simp add: dialog_ok_def)

lemma dialog_ok_same: "dialog_ok clock d \<Longrightarrow> dg_operations e = dg_operations d \<Longrightarrow> dg_seed d \<le> dg_seed e \<Longrightarrow> dialog_ok clock e"
  using operations_ok_mono [of clock "dg_seed d" "dg_operations d" "dg_seed e"] by (simp add: dialog_ok_def)

lemma parseInitialState_operations:
  assumes "parseInitialState clock n t = Inr (st, m)"
  shows "(es_operations st, m) = ([createDefaultOperation clock n], Suc n) \<or>
    (\<exists>vs. operations_or_default clock n vs = Inr (es_operations st, m))"
proof (cases "trim t = []")
  case False
  show ?thesis
  proof (cases "json_parse (trim t)")
    case (Some v)
    show ?thesis
    proof (cases "\<exists>kvs vs. v = JObj kvs \<and> prop_of v ''operations'' = JArr vs")
      case True
      then obtain kvs vs where v: "v = JObj kvs" "prop_of (JObj kvs) ''operations'' = JArr vs" by auto
      then have "operations_or_default clock n vs = Inr (es_operations st, m)"
        using assms False Some by (auto simp: parseInitialState_def Let_def sbind_Inr_iff)
      then show ?thesis by blast
    next
      case non: False
      then have "(es_operations st, m) = ([createDefaultOperation clock n], Suc n)"
      proof (cases v)
        case (JObj kvs)
        then show ?thesis using non assms False Some
          by (cases "prop_of (JObj kvs) ''operations''") (auto simp: parseInitialState_def Let_def)
      qed (use assms False Some in \<open>auto simp: parseInitialState_def Let_def\<close>)
      then show ?thesis by blast
    qed
  qed (use assms False in \<open>auto simp: parseInitialState_def\<close>)
qed (use assms in \<open>auto simp: parseInitialState_def\<close>)

lemma operations_or_default_ok:
  "operations_or_default clock n vs = Inr (ops, m) \<Longrightarrow> operations_ok clock m ops \<and> ops \<noteq> []"
  using operations_or_default_ids [of clock n vs ops m] operations_ok_fresh [of ops clock n m] by blast

lemma openDialog_ok: "openDialog clock n t = Inr d \<Longrightarrow> dialog_ok clock d"
proof -
  assume "openDialog clock n t = Inr d"
  then obtain st m where st: "parseInitialState clock n t = Inr (st, m)" "dg_operations d = es_operations st" "dg_seed d = m"
    by (auto simp: openDialog_def sbind_Inr_iff)
  then show ?thesis
    using parseInitialState_operations [OF st(1)] operations_or_default_ok [of clock n _ "es_operations st" m]
      operations_ok_default [of clock n]
    unfolding dialog_ok_def by auto
qed

lemma map_operation_sel [simp]:
  "dg_seed (map_operation i f d) = dg_seed d"
  "dg_operations (map_operation i f d) = map (\<lambda>p. if po_id p = i then f p else p) (dg_operations d)"
  by (simp_all add: map_operation_def)

lemma patched_mode: "offered_mode modes q \<Longrightarrow> m \<in> set modes \<Longrightarrow> patched q m \<in> set modes"
  by (cases q) (simp_all add: patched_def offered_mode_def)

lemma updateOperation_ok:
  "dialog_ok clock d \<Longrightarrow> offered_mode OPERATION_MODE_VALUES (op_mode q) \<Longrightarrow> dialog_ok clock (updateOperation i q d)"
  unfolding dialog_ok_def updateOperation_def map_operation_sel
  by (auto intro!: map_same_ids simp: patch_operation_def op_ids_def modes_ok_def patched_mode)

lemma updateReturnError_ok: "dialog_ok clock d \<Longrightarrow> dialog_ok clock (updateReturnErrorDraft i q d)"
  unfolding dialog_ok_def updateReturnErrorDraft_def map_operation_sel
  by (auto intro!: map_same_ids simp: op_ids_def modes_ok_def)

lemma updateCondition_ok:
  "dialog_ok clock d \<Longrightarrow> offered_mode CONDITION_MODE_VALUES (cp_mode q) \<Longrightarrow> dialog_ok clock (updateCondition i c q d)"
  unfolding dialog_ok_def updateCondition_def map_operation_sel
  by (auto intro!: map_same_ids simp: patch_condition_def op_ids_def modes_ok_def patched_mode comp_def)

lemma removeCondition_ok: "dialog_ok clock d \<Longrightarrow> dialog_ok clock (removeCondition i c d)"
  unfolding dialog_ok_def removeCondition_def map_operation_sel
  by (auto intro!: map_fewer_ids simp: op_ids_def modes_ok_def distinct_map_filter)

lemma addCondition_ok: "dialog_ok clock d \<Longrightarrow> dialog_ok clock (addCondition clock i d)"
proof -
  assume d: "dialog_ok clock d"
  let ?c = "createDefaultCondition clock (dg_seed d)"
  have c: "pc_id ?c = nextLocalId clock (dg_seed d)" "pc_mode ?c \<in> set CONDITION_MODE_VALUES"
    using mode_or_in [OF full_mode] by (simp_all add: createDefaultCondition_def condition_of_def)
  have "operations_ok clock (Suc (dg_seed d))
      (map (\<lambda>p. if po_id p = i then p\<lparr>po_conditions := po_conditions p @ [?c]\<rparr> else p) (dg_operations d))"
    using d c by (intro operations_ok_map [where n = "dg_seed d"]) (auto simp: dialog_ok_def op_ids_def modes_ok_def)
  then show ?thesis using d by (simp add: dialog_ok_def addCondition_def Let_def)
qed

lemma addOperation_ok: "dialog_ok clock d \<Longrightarrow> dialog_ok clock (addOperation clock d)"
  unfolding dialog_ok_def addOperation_def Let_def
  by (auto intro!: operations_ok_append [where n = "dg_seed d"] simp: default_operation_ids)

lemma duplicateOperation_ok: "dialog_ok clock d \<Longrightarrow> dialog_ok clock (duplicateOperation clock eager i d)"
proof (cases "List.extract (\<lambda>p. po_id p = i) (dg_operations d)")
  case (Some r)
  assume d: "dialog_ok clock d"
  obtain ps s qs where r: "r = (ps, s, qs)" by (cases r)
  show ?thesis
  proof (cases "normalizeOperation clock (dg_seed d) (operation_source s)")
    case (Inr cm)
    obtain c m where cm: "cm = (c, m)" by (cases cm)
    note O = normalizeOperation_ids [OF Inr [unfolded cm]]
    have "operations_ok clock m (dg_operations d @ [c])"
      using d O by (intro operations_ok_append [where n = "dg_seed d"]) (simp_all add: dialog_ok_def)
    moreover have "dg_operations d = ps @ s # qs" using Some r by (simp add: extract_Some_iff)
    ultimately have "operations_ok clock m (ps @ s # c # qs)" by (elim operations_ok_perm) simp
    then show ?thesis using Some r Inr cm by (simp add: duplicateOperation_def dialog_ok_def)
  qed (use d Some r in \<open>simp add: duplicateOperation_def\<close>)
qed (simp add: duplicateOperation_def)

lemma removeOperation_ok: "dialog_ok clock d \<Longrightarrow> dialog_ok clock (removeOperation clock i d)"
proof (cases "length (dg_operations d) \<le> 1")
  case True
  then show ?thesis using operations_ok_default by (simp add: dialog_ok_def removeOperation_def)
next
  case False
  assume d: "dialog_ok clock d"
  obtain p q ps where ops: "dg_operations d = p # q # ps"
    using False by (cases "dg_operations d" rule: remdups_adj.cases) auto
  have "po_id p \<noteq> po_id q" using d ops by (auto simp: dialog_ok_def operations_ok_def op_ids_def)
  then have "filter (\<lambda>p. po_id p \<noteq> i) (dg_operations d) \<noteq> []" using ops by auto
  then show ?thesis using False d operations_ok_filter by (simp add: dialog_ok_def removeOperation_def)
qed

lemma updatePrune_ok:
  assumes "dialog_ok clock d" "\<And>m draft. snd (updater m draft) \<ge> m"
  shows "dialog_ok clock (updatePruneObjectsDraft clock i updater d)"
proof -
  obtain ops n where u: "update_prune clock i updater (dg_seed d) (dg_operations d) = (ops, n)"
    by (cases "update_prune clock i updater (dg_seed d) (dg_operations d)")
  then have "map op_ids ops = map op_ids (dg_operations d)" "dg_seed d \<le> n" "\<forall>p\<in>set ops. modes_ok p"
    using update_prune_ok [where updater = updater and clock = clock and i = i and n = "dg_seed d" and ops = "dg_operations d", OF assms(2)] assms(1)
    by (auto simp: dialog_ok_def operations_ok_def)
  then show ?thesis
    using u assms(1) operations_ok_same_ids unfolding dialog_ok_def updatePruneObjectsDraft_def by fastforce
qed

lemma handleDrop_ok: "dialog_ok clock d \<Longrightarrow> dialog_ok clock (handleDrop i data d)"
proof -
  assume d: "dialog_ok clock d"
  have "operations_ok clock (dg_seed d) (reorderOperations (dg_operations d) s i after) \<and>
      reorderOperations (dg_operations d) s i after \<noteq> []" for s after
    using d reorder_perm [of "dg_operations d" s i after] operations_ok_perm by (fastforce simp: dialog_ok_def)
  then show ?thesis using d by (simp add: dialog_ok_def handleDrop_def resetDragState_def Let_def)
qed

lemma switchToJsonMode_ok: "dialog_ok clock d \<Longrightarrow> dialog_ok clock (switchToJsonMode tr d)"
  by (erule dialog_ok_same) (cases "buildVisualJson d"; simp add: switchToJsonMode_def)+

lemma fallback_ok:
  "dg_operations e = [createDefaultOperation clock n] \<Longrightarrow> dg_seed e = Suc n \<Longrightarrow> dialog_ok clock e"
  by (simp add: dialog_ok_def operations_ok_default)

lemma switchToVisualMode_ok:
  assumes d: "dialog_ok clock d"
  shows "dialog_ok clock (switchToVisualMode clock d)"
proof (cases "dg_editMode d = EditVisual \<or> trim (dg_jsonText d) = []")
  case True
  then show ?thesis using d by (auto simp: switchToVisualMode_def Let_def intro!: fallback_ok)
next
  case ed: False
  show ?thesis
  proof (cases "json_parse (trim (dg_jsonText d))")
    case (Some v)
    show ?thesis
    proof (cases v)
      case (JObj kvs)
      show ?thesis
      proof (cases "prop_of (JObj kvs) ''operations''")
        case (JArr vs)
        then show ?thesis using ed Some JObj d operations_or_default_ok [of clock "dg_seed d" vs]
          by (cases "operations_or_default clock (dg_seed d) vs") (auto simp: switchToVisualMode_def dialog_ok_def Let_def)
      qed (use ed Some JObj d in \<open>auto simp: switchToVisualMode_def Let_def intro!: fallback_ok\<close>)
    qed (use ed Some d in \<open>auto simp: switchToVisualMode_def\<close>)
  qed (use ed d in \<open>auto simp: switchToVisualMode_def\<close>)
qed

lemma fill_legacy_ok: "dialog_ok clock d \<Longrightarrow> dialog_ok clock (fill_legacy clock appending payload d)"
  by (auto simp: fill_legacy_def legacy_template_def Let_def intro!: fallback_ok split: option.splits)

lemma fill_operations_ok:
  assumes d: "dialog_ok clock d" and vs: "vs \<noteq> []"
  shows "dialog_ok clock (fill_operations clock appending vs d)"
proof (cases "normalizeOperations clock (dg_seed d) vs")
  case (Inr r)
  obtain new m where r: "r = (new, m)" by (cases r)
  note N = normalizeOperations_ids [OF Inr [unfolded r]]
  then have new: "new \<noteq> []" using vs by auto
  have "operations_ok clock (dg_seed d) (filter P (dg_operations d))" "operations_ok clock (dg_seed d) []" for P
    using d operations_ok_filter [of clock "dg_seed d" "dg_operations d" P] by (simp_all add: dialog_ok_def operations_ok_def)
  then have "operations_ok clock m (filter P (dg_operations d) @ new)" "operations_ok clock m ([] @ new)" for P
    using N by (blast intro: operations_ok_append)+
  then show ?thesis using Inr r new by (simp add: fill_operations_def dialog_ok_def Let_def)
qed (use d in \<open>simp add: fill_operations_def\<close>)

lemma fillTemplate_ok: "dialog_ok clock d \<Longrightarrow> dialog_ok clock (fillTemplate clock appending d)"
proof -
  assume d: "dialog_ok clock d"
  obtain k payload where t: "template_preset d = (k, payload)" by (cases "template_preset d")
  show ?thesis
  proof (cases k)
    case OperationsKind
    then obtain v vs where "prop_of payload ''operations'' = JArr (v # vs)" using templates_nonempty [of d] t by auto
    then show ?thesis using t OperationsKind fill_operations_ok [OF d, of "v # vs"] by (simp add: fillTemplate_def)
  next
    case LegacyKind
    then show ?thesis using t fill_legacy_ok [OF d] by (simp add: fillTemplate_def)
  qed
qed

lemma resetEditorState_ok: "dialog_ok clock (resetEditorState clock d)"
  by (rule fallback_ok [of _ _ "dg_seed d"]) (simp_all add: resetEditorState_def Let_def)

lemma prune_events_ok:
  assumes "dialog_ok clock d"
  shows "dialog_ok clock (addPruneRule clock i d)" "dialog_ok clock (updatePruneRule clock i r q d)"
    "dialog_ok clock (removePruneRule clock i r d)"
  unfolding addPruneRule_def updatePruneRule_def removePruneRule_def by (rule updatePrune_ok [OF assms]; simp)+

lemma pruneObjectsDraft_seed: "dg_seed d \<le> snd (pruneObjectsDraft clock d)"
  using parsePrune_seed by (simp add: pruneObjectsDraft_def split: option.splits prod.splits) (metis snd_conv)

lemma text_events_ok:
  assumes "dialog_ok clock d"
  shows "dialog_ok clock (handleDragStart i d)" "dialog_ok clock (handleDragOver i after d)"
    "dialog_ok clock (resetDragState d)" "dialog_ok clock (handleJsonChange tr t d)" "dialog_ok clock (formatJson d)"
    "dialog_ok clock (toggleAllConditions b d)" "dialog_ok clock (keepSelectionValid d)"
    "dialog_ok clock (d\<lparr>dg_seed := snd (pruneObjectsDraft clock d)\<rparr>)"
  by (rule dialog_ok_same [OF assms];
      simp add: handleDragStart_def handleDragOver_def resetDragState_def handleJsonChange_def formatJson_def
        toggleAllConditions_def keepSelectionValid_def pruneObjectsDraft_seed Let_def split: option.splits)+

lemmas dialog_events_ok =
  updateOperation_ok addOperation_ok duplicateOperation_ok removeOperation_ok addCondition_ok updateCondition_ok
  removeCondition_ok updateReturnError_ok handleDrop_ok switchToJsonMode_ok switchToVisualMode_ok fillTemplate_ok
  resetEditorState_ok prune_events_ok text_events_ok

lemma dialog_event_ok: "dialog_ok clock d \<Longrightarrow> offered e \<Longrightarrow> dialog_ok clock (dialog_event clock tr e d)"
proof (cases e)
  case (UpdatePrune i q)
  then show "dialog_ok clock d \<Longrightarrow> ?thesis" by (auto intro!: updatePrune_ok)
qed (auto intro: dialog_events_ok dialog_ok_same)

lemma dialog_reachable_ok: "dialog_reachable clock tr d \<Longrightarrow> dialog_ok clock d"
  by (induction rule: dialog_reachable.induct) (auto intro: openDialog_ok dialog_event_ok text_events_ok)

lemma keepSelectionValid_selected:
  "dg_operations d \<noteq> [] \<Longrightarrow> \<exists>p\<in>set (dg_operations (keepSelectionValid d)). po_id p = dg_selectedOperationId (keepSelectionValid d)"
  by (cases "dg_operations d") (auto simp: keepSelectionValid_def first_id_def list_ex_iff)

lemma dialog_reachable_selected:
  assumes "dialog_reachable clock tr d"
  shows "\<exists>p\<in>set (dg_operations d). po_id p = dg_selectedOperationId d"
  using assms
proof cases
  case (opened n t e)
  then show ?thesis using openDialog_ok keepSelectionValid_selected by (auto simp: dialog_ok_def)
next
  case (event e x)
  then show ?thesis using dialog_event_ok [OF dialog_reachable_ok] keepSelectionValid_selected by (auto simp: dialog_ok_def)
qed

text \<open>C20: in every state the dialog can reach, by opening it on any text and by any sequence of events, the list of
  operations is not empty, the identifiers of operations and conditions are pairwise distinct, the selected
  identifier is that of an operation, and every operation and condition has a mode of the tables.
\<close>

theorem dialog_invariant:
  assumes "dialog_reachable clock tr d"
  shows "dg_operations d \<noteq> [] \<and> distinct (all_ids (dg_operations d)) \<and>
    (\<exists>p\<in>set (dg_operations d). po_id p = dg_selectedOperationId d) \<and>
    (\<forall>p\<in>set (dg_operations d). po_mode p \<in> set OPERATION_MODE_VALUES \<and>
       (\<forall>c\<in>set (po_conditions p). pc_mode c \<in> set CONDITION_MODE_VALUES))"
  using dialog_reachable_ok [OF assms] dialog_reachable_selected [OF assms]
  by (simp add: dialog_ok_def operations_ok_def modes_ok_def)

theorem dialog_invariant_witness:
  "\<exists>d. dialog_reachable (\<lambda>_. 7) (\<lambda>_. ''error'') d \<and> length (dg_operations d) = 2 \<and>
     distinct (all_ids (dg_operations d)) \<and> (\<exists>p\<in>set (dg_operations d). po_id p = dg_selectedOperationId d)"
proof -
  let ?tr = "\<lambda>_ :: editor_error. ''error''" and ?clock = "\<lambda>_ :: nat. 7 :: nat"
  obtain d where d: "openDialog ?clock 0 [] = Inr d" "length (dg_operations d) = 1"
    by (simp add: openDialog_def parseInitialState_def trim_def Let_def)
  let ?e = "keepSelectionValid (dialog_event ?clock ?tr AddOperation (keepSelectionValid d))"
  have r: "dialog_reachable ?clock ?tr ?e" using d(1) by (intro dialog_reachable.intros) auto
  have "length (dg_operations ?e) = 2" using d(2) by (auto simp: keepSelectionValid_def addOperation_def Let_def)
  then show ?thesis using r dialog_invariant [OF r] by blast
qed

section \<open>Edits of pruning rules\<close>

lemma number_rules_ids:
  "r \<in> set (number_rules clock n vs) \<Longrightarrow> \<exists>k. n \<le> k \<and> k < n + length vs \<and> pc_id r = nextLocalId clock k"
  by (auto simp: number_rules_def normalizePruneRule_def in_set_enumerate_eq)

lemma parsePrune_ids:
  assumes "parsePruneObjectsDraft clock n t = (draft, m)" "r \<in> set (pd_rules draft)"
  shows "\<exists>k. n \<le> k \<and> k < m \<and> pc_id r = nextLocalId clock k"
proof -
  have none: "pd_rules prune_defaults = []" by (simp add: prune_defaults_def)
  have "\<exists>vs. pd_rules draft = number_rules clock n vs \<and> m = n + length vs"
  proof (cases "trim t = [] \<or> json_parse (trim t) = None")
    case True
    then show ?thesis using assms none by (auto simp: parsePruneObjectsDraft_def Let_def split: if_splits)
  next
    case False
    then obtain v where "json_parse (trim t) = Some v" by auto
    then show ?thesis using False assms none by (cases v) (auto simp: parsePruneObjectsDraft_def Let_def)
  qed
  then show ?thesis using assms(2) number_rules_ids by fastforce
qed

text \<open>An updater only sees rules numbered from the counter on.\<close>

lemma update_prune_cong:
  assumes "\<And>m draft. s \<le> m \<Longrightarrow> \<forall>r\<in>set (pd_rules draft). \<exists>k\<ge>s. pc_id r = nextLocalId clock k \<Longrightarrow> upd m draft = upd' m draft"
    and upd: "\<And>m draft. snd (upd m draft) \<ge> m" and n: "s \<le> n"
  shows "update_prune clock i upd n ops = update_prune clock i upd' n ops"
  using n
proof (induction ops arbitrary: n)
  case (Cons p ops)
  show ?case
  proof (cases "po_id p = i")
    case False
    show ?thesis using Cons by (simp add: update_prune_other [OF False] del: update_prune.simps)
  next
    case True
    obtain draft m where a: "parsePruneObjectsDraft clock n (po_value_text p) = (draft, m)" by fastforce
    obtain nextDraft j where b: "upd m draft = (nextDraft, j)" by fastforce
    have "s \<le> m" "s \<le> j" using Cons.prems parsePrune_seed [of n clock "po_value_text p"] a b upd [of m draft] by simp_all
    moreover have "\<forall>r\<in>set (pd_rules draft). \<exists>k\<ge>s. pc_id r = nextLocalId clock k"
      using parsePrune_ids [OF a] Cons.prems by (meson order_trans)
    ultimately have "upd' m draft = (nextDraft, j)" "update_prune clock i upd j ops = update_prune clock i upd' j ops"
      using assms(1) [of m draft] b Cons.IH by simp_all
    then show ?thesis
      by (simp add: update_prune_hit [where updater = upd, OF True a b] update_prune_hit [where updater = upd', OF True a] del: update_prune.simps)
  qed
qed simp

lemma stale_rule:
  assumes "k < s" "\<forall>r\<in>set rules. \<exists>k\<ge>s. pc_id r = nextLocalId clock k"
  shows "map (\<lambda>r. if pc_id r = nextLocalId clock k then f r else r) rules = rules"
    "filter (\<lambda>r. pc_id r \<noteq> nextLocalId clock k) rules = rules"
  using assms nextLocalId_inj by (fastforce intro!: map_idI filter_True)+

lemma blank_rule_dropped:
  "buildPruneObjectsValueText (draft\<lparr>pd_rules := pd_rules draft @ [normalizePruneRule clock n (JObj [])]\<rparr>) =
   buildPruneObjectsValueText draft"
proof -
  have "trim (pc_path (normalizePruneRule clock n (JObj []))) = []"
    by (simp add: normalizePruneRule_def string_or_empty_def prop_of_def trim_def)
  then show ?thesis by (simp add: buildPruneObjectsValueText_def Let_def)
qed

text \<open>C21: the rules shown for a pruning operation cannot be edited. The identifiers on the screen were taken when the
  rules were parsed for display; a later edit or removal parses the text again under new identifiers, so nothing
  matches and the handler only writes the parsed rules back. A rule that is added has no path and is dropped when
  the rules are written.
\<close>

theorem prune_rule_edits_lost:
  assumes shown: "pruneObjectsDraft clock d = (Some draft, m)" and rule: "r \<in> set (pd_rules draft)" and later: "m \<le> dg_seed e"
  shows "updatePruneRule clock i (pc_id r) q e = updatePruneObjectsDraft clock i (\<lambda>n draft. (draft, n)) e \<and>
    removePruneRule clock i (pc_id r) e = updatePruneObjectsDraft clock i (\<lambda>n draft. (draft, n)) e \<and>
    buildPruneObjectsValueText (new\<lparr>pd_rules := pd_rules new @ [normalizePruneRule clock k (JObj [])]\<rparr>) =
      buildPruneObjectsValueText new"
proof -
  have "\<exists>t. parsePruneObjectsDraft clock (dg_seed d) t = (draft, m)"
    using shown unfolding pruneObjectsDraft_def by (auto split: option.splits if_splits prod.splits)
  then obtain j where j: "j < m" "pc_id r = nextLocalId clock j" using parsePrune_ids rule by blast
  note C = update_prune_cong [where s = "dg_seed e" and n = "dg_seed e" and clock = clock and i = i and ops = "dg_operations e"]
  have "update_prune clock i (\<lambda>n draft. (draft\<lparr>pd_rules := map (\<lambda>s. if pc_id s = pc_id r then patch_condition q s else s) (pd_rules draft)\<rparr>, n))
      (dg_seed e) (dg_operations e) = update_prune clock i (\<lambda>n draft. (draft, n)) (dg_seed e) (dg_operations e)"
    "update_prune clock i (\<lambda>n draft. (draft\<lparr>pd_rules := filter (\<lambda>s. pc_id s \<noteq> pc_id r) (pd_rules draft)\<rparr>, n))
      (dg_seed e) (dg_operations e) = update_prune clock i (\<lambda>n draft. (draft, n)) (dg_seed e) (dg_operations e)"
    using j later by (intro C; simp add: stale_rule [of j "dg_seed e"])+
  then show ?thesis
    by (simp add: updatePruneRule_def removePruneRule_def updatePruneObjectsDraft_def blank_rule_dropped)
qed

definition pruned_value :: jsval where
  "pruned_value = JObj [(''conditions'', JArr [JObj [(''path'', JStr ''a'')]])]"

definition pruned_operation :: ParamOverrideOperation where
  "pruned_operation = (createDefaultOperation (\<lambda>_. 7) 0)
     \<lparr>po_mode := ''prune_objects'', po_value_text := json_stringify 0 pruned_value\<rparr>"

definition pruning_dialog :: Dialog where
  "pruning_dialog =
     \<lparr>dg_editMode = EditVisual, dg_visualMode = VisualOperations, dg_legacyValue = [], dg_operations = [pruned_operation],
      dg_jsonText = [], dg_jsonError = [], dg_operationSearch = [], dg_selectedOperationId = po_id pruned_operation,
      dg_expandedConditions = [], dg_draggedOperationId = [], dg_dragOverOperationId = [], dg_dragOverAfter = False,
      dg_templatePresetKey = ''operations_default'', dg_seed = 1\<rparr>"

lemma pruning_dialog_draft:
  "\<exists>draft. pruneObjectsDraft (\<lambda>_. 7) pruning_dialog = (Some draft, 2) \<and>
     pd_rules draft = [normalizePruneRule (\<lambda>_. 7) 1 (JObj [(''path'', JStr ''a'')])]"
proof -
  have ok: "json_ok pruned_value" by (simp add: pruned_value_def)
  have canon: "json_canon pruned_value = pruned_value"
    unfolding pruned_value_def by (simp add: obj_entries_map [symmetric] obj_entries_def)
  have parse: "json_parse (json_stringify 0 pruned_value) = Some pruned_value"
    using json_parse_stringify_canon [OF ok, of 0] canon by simp
  have reads: "trim (json_stringify 0 pruned_value) = json_stringify 0 pruned_value" "json_stringify 0 pruned_value \<noteq> []"
    using trim_json_text [OF ok] by (simp_all add: json_stringify_def)
  have "prune_sources pruned_value = [JObj [(''path'', JStr ''a'')]]"
    by (simp add: pruned_value_def prune_sources_def prop_of_def is_object_def)
  then have "\<exists>draft. parsePruneObjectsDraft (\<lambda>_. 7) 1 (json_stringify 0 pruned_value) = (draft, 2) \<and>
      pd_rules draft = [normalizePruneRule (\<lambda>_. 7) 1 (JObj [(''path'', JStr ''a'')])]"
    using parse reads by (simp add: parsePruneObjectsDraft_def pruned_value_def number_rules_def Let_def)
  then show ?thesis
    by (auto simp: pruneObjectsDraft_def pruning_dialog_def selectedOperation_def pruned_operation_def)
qed

theorem prune_rule_edits_lost_witness:
  "\<exists>r :: PruneRule. pc_path r = ''a'' \<and>
     removePruneRule (\<lambda>_. 7) (po_id pruned_operation) (pc_id r) (pruning_dialog\<lparr>dg_seed := 2\<rparr>) =
     updatePruneObjectsDraft (\<lambda>_. 7) (po_id pruned_operation) (\<lambda>n draft. (draft, n)) (pruning_dialog\<lparr>dg_seed := 2\<rparr>)"
proof -
  let ?r = "normalizePruneRule (\<lambda>_. 7) 1 (JObj [(''path'', JStr ''a'')])"
  obtain draft where "pruneObjectsDraft (\<lambda>_. 7) pruning_dialog = (Some draft, 2)" "?r \<in> set (pd_rules draft)"
    using pruning_dialog_draft by auto
  note lost = prune_rule_edits_lost [OF this, of "pruning_dialog\<lparr>dg_seed := 2\<rparr>"]
  have "pc_path ?r = ''a''" by (simp add: normalizePruneRule_def string_or_empty_def prop_of_def)
  moreover have "2 \<le> dg_seed (pruning_dialog\<lparr>dg_seed := 2\<rparr>)" by simp
  ultimately show ?thesis using lost by blast
qed

end
