(* ===== verification/ChannelFormData.thy ===== *)
theory ChannelFormData
  imports ChannelModels ChannelRows ParamOverrideDialog
begin

text \<open>
  The channel form (\<open>features/channels/lib/channel-form.ts\<close>) and the request made from it
  (\<open>hooks/use-channel-mutate-form.ts\<close>): which forms the schema accepts, the form of a stored channel, and the
  payloads for creating and updating a channel.

  The record of the form extends the one of \<open>ChannelModels\<close>, whose fields the submit handler reads. A value
  that is read from a stored settings object without a check of its type is a JSON value; an optional string is
  an option. A payload is an association list, as it is sent. The schema package decides with a list of checks on the fields and a
  final refinement; the model has the checks, not the package.

  The lemmas show which properties of the stored settings a save keeps, that the settings read back as they
  were entered, and that a key is only sent when one was typed.
\<close>

section \<open>Checks of the schema\<close>

definition parseOptionalJson :: "string option \<Rightarrow> unit + jsval" where
  "parseOptionalJson value =
     (if trim (or_empty value) = [] then Inr JUndefined
      else case json_parse (or_empty value) of None \<Rightarrow> Inl () | Some v \<Rightarrow> Inr v)"

definition isJsonObjectValue :: "jsval \<Rightarrow> bool" where
  "isJsonObjectValue value = (case value of JObj _ \<Rightarrow> True | _ \<Rightarrow> False)"

definition isOptionalJsonObject :: "string option \<Rightarrow> bool" where
  "isOptionalJsonObject value =
     (case parseOptionalJson value of Inl _ \<Rightarrow> False | Inr parsed \<Rightarrow> parsed = JUndefined \<or> isJsonObjectValue parsed)"

definition isOptionalModelMapping :: "string option \<Rightarrow> bool" where
  "isOptionalModelMapping value =
     (case parseOptionalJson value of
        Inl _ \<Rightarrow> False
      | Inr JUndefined \<Rightarrow> True
      | Inr (JObj kvs) \<Rightarrow> list_all is_JStr (obj_values kvs)
      | Inr _ \<Rightarrow> False)"

definition status_code :: "jsnum \<Rightarrow> bool" where
  "status_code n \<longleftrightarrow> js_isInteger n \<and> js_le (Fin 100) n \<and> js_le n (Fin 599)"

definition isOptionalStatusCodeMapping :: "string option \<Rightarrow> bool" where
  "isOptionalStatusCodeMapping value =
     (case parseOptionalJson value of
        Inl _ \<Rightarrow> False
      | Inr JUndefined \<Rightarrow> True
      | Inr (JObj kvs) \<Rightarrow> list_all (\<lambda>(source, target). status_code (string_to_number source) \<and> status_code (js_Number target)) (obj_entries kvs)
      | Inr _ \<Rightarrow> False)"

text \<open>\<open>typeof v === 'string' && v.trim().length > 0\<close>.\<close>

definition nonblank_string :: "jsval \<Rightarrow> bool" where
  "nonblank_string v = (case v of JStr s \<Rightarrow> trim s \<noteq> [] | _ \<Rightarrow> False)"

definition isCodexCredential :: "string option \<Rightarrow> bool" where
  "isCodexCredential value =
     (case parseOptionalJson value of
        Inl _ \<Rightarrow> False
      | Inr parsed \<Rightarrow> parsed = JUndefined \<or>
          isJsonObjectValue parsed \<and> nonblank_string (prop_of parsed ''access_token'') \<and>
          nonblank_string (prop_of parsed ''account_id''))"

definition isVertexJsonKey :: "string option \<Rightarrow> bool" where
  "isVertexJsonKey value =
     (case parseOptionalJson value of
        Inl _ \<Rightarrow> False
      | Inr JUndefined \<Rightarrow> True
      | Inr (JArr vs) \<Rightarrow> list_all isJsonObjectValue vs
      | Inr parsed \<Rightarrow> isJsonObjectValue parsed)"

section \<open>The form\<close>

record ChannelFormValues = ChannelForm +
  fv_name :: string
  fv_type :: int
  fv_base_url :: "string option"
  fv_openai_organization :: "string option"
  fv_group :: "string list"
  fv_priority :: "int option"
  fv_weight :: "int option"
  fv_test_model :: "string option"
  fv_auto_ban :: "int option"
  fv_status :: "int option"
  fv_tag :: "string option"
  fv_remark :: "string option"
  fv_setting :: "string option"
  fv_param_override :: "string option"
  fv_header_override :: "string option"
  fv_settings :: "string option"
  fv_other :: "string option"
  fv_multi_key_mode :: "string option"
  fv_multi_key_type :: "string option"
  fv_batch_add_set_key_prefix_2_name :: "bool option"
  fv_key_mode :: "string option"
  fv_force_format :: jsval
  fv_thinking_to_content :: jsval
  fv_proxy :: jsval
  fv_pass_through_body_enabled :: jsval
  fv_system_prompt :: jsval
  fv_system_prompt_override :: jsval
  fv_is_enterprise_account :: jsval
  fv_vertex_key_type :: jsval
  fv_aws_key_type :: jsval
  fv_azure_responses_version :: jsval
  fv_allow_service_tier :: jsval
  fv_disable_store :: jsval
  fv_allow_safety_identifier :: jsval
  fv_allow_include_obfuscation :: jsval
  fv_allow_inference_geo :: jsval
  fv_allow_speed :: jsval
  fv_claude_beta_query :: jsval
  fv_upstream_model_update_check_enabled :: jsval
  fv_upstream_model_update_auto_sync_enabled :: jsval
  fv_upstream_model_update_ignored_models :: jsval

definition optional_boolean :: "jsval \<Rightarrow> bool" where
  "optional_boolean v = (case v of JUndefined \<Rightarrow> True | JBool _ \<Rightarrow> True | _ \<Rightarrow> False)"

definition optional_string :: "jsval \<Rightarrow> bool" where
  "optional_string v = (case v of JUndefined \<Rightarrow> True | JStr _ \<Rightarrow> True | _ \<Rightarrow> False)"

definition optional_enum :: "string list \<Rightarrow> jsval \<Rightarrow> bool" where
  "optional_enum values v = (case v of JUndefined \<Rightarrow> True | JStr s \<Rightarrow> s \<in> set values | _ \<Rightarrow> False)"

definition in_enum :: "string list \<Rightarrow> string option \<Rightarrow> bool" where
  "in_enum values v = (case v of None \<Rightarrow> True | Some s \<Rightarrow> s \<in> set values)"

definition schema_fields :: "ChannelFormValues \<Rightarrow> bool" where
  "schema_fields data \<longleftrightarrow>
     fv_name data \<noteq> [] \<and> 0 \<le> fv_type data \<and> cf_key data \<noteq> None \<and> or_empty (cf_models data) \<noteq> [] \<and>
     fv_group data \<noteq> [] \<and> isOptionalModelMapping (cf_model_mapping data) \<and> fv_status data \<noteq> None \<and>
     isOptionalStatusCodeMapping (cf_status_code_mapping data) \<and> length (or_empty (fv_remark data)) \<le> 255 \<and>
     isOptionalJsonObject (fv_setting data) \<and> isOptionalJsonObject (fv_param_override data) \<and>
     isOptionalJsonObject (fv_header_override data) \<and> isOptionalJsonObject (fv_settings data) \<and>
     in_enum [''single'', ''batch'', ''multi_to_single''] (fv_multi_key_mode data) \<and>
     in_enum [''random'', ''polling''] (fv_multi_key_type data) \<and> in_enum [''append'', ''replace''] (fv_key_mode data) \<and>
     list_all optional_boolean
       [fv_force_format data, fv_thinking_to_content data, fv_pass_through_body_enabled data,
        fv_system_prompt_override data, fv_is_enterprise_account data, fv_allow_service_tier data,
        fv_disable_store data, fv_allow_safety_identifier data, fv_allow_include_obfuscation data,
        fv_allow_inference_geo data, fv_allow_speed data, fv_claude_beta_query data,
        fv_upstream_model_update_check_enabled data, fv_upstream_model_update_auto_sync_enabled data] \<and>
     list_all optional_string
       [fv_proxy data, fv_system_prompt data, fv_azure_responses_version data, fv_upstream_model_update_ignored_models data] \<and>
     optional_enum [''json'', ''api_key''] (fv_vertex_key_type data) \<and>
     optional_enum [''ak_sk'', ''api_key''] (fv_aws_key_type data)"

text \<open>The refinement: the fields it complains about, with its messages.\<close>

definition batch_mode :: "ChannelFormValues \<Rightarrow> bool" where
  "batch_mode data \<longleftrightarrow> or_empty (fv_multi_key_mode data) \<notin> {[], ''single''}"

definition schema_issues :: "ChannelFormValues \<Rightarrow> (string \<times> string) list" where
  "schema_issues data =
     (if fv_type data \<in> {3, 8, 36, 45} \<and> trim (or_empty (fv_base_url data)) = []
      then [(''base_url'', ''Base URL is required for this channel type'')] else []) @
     (if fv_type data \<in> {3, 18, 21, 39, 41, 49} \<and> trim (or_empty (fv_other data)) = []
      then [(''other'', ''This channel type requires additional configuration'')] else []) @
     (if fv_type data = 57 then
        (if batch_mode data then [(''multi_key_mode'', ''Codex channels do not support batch creation'')] else []) @
        (if trim (or_empty (cf_key data)) \<noteq> [] \<and> \<not> isCodexCredential (cf_key data)
         then [(''key'', ''Codex credential must be a JSON object with access_token and account_id'')] else [])
      else []) @
     (if fv_type data = 41 \<and> fv_vertex_key_type data = JStr ''json'' \<and> trim (or_empty (cf_key data)) \<noteq> [] \<and>
         \<not> isVertexJsonKey (cf_key data)
      then [(''key'', ''Vertex AI service account key must be valid JSON'')] else []) @
     (if fv_type data = 41 \<and> fv_vertex_key_type data = JStr ''api_key'' \<and> batch_mode data
      then [(''multi_key_mode'', ''Vertex AI API Key mode does not support batch creation'')] else [])"

definition channelFormSchema :: "ChannelFormValues \<Rightarrow> bool" where
  "channelFormSchema data \<longleftrightarrow> schema_fields data \<and> schema_issues data = []"

definition CHANNEL_FORM_DEFAULT_VALUES :: ChannelFormValues where
  "CHANNEL_FORM_DEFAULT_VALUES =
     \<lparr>cf_key = Some [], cf_models = Some [], cf_model_mapping = Some [], cf_status_code_mapping = Some [],
      fv_name = [], fv_type = 1, fv_base_url = Some [], fv_openai_organization = Some [], fv_group = [''default''],
      fv_priority = Some 0, fv_weight = Some 0, fv_test_model = Some [], fv_auto_ban = Some 1, fv_status = Some 1,
      fv_tag = Some [], fv_remark = Some [], fv_setting = Some [], fv_param_override = Some [],
      fv_header_override = Some [], fv_settings = Some ''{}'', fv_other = Some [],
      fv_multi_key_mode = Some ''single'', fv_multi_key_type = Some ''random'',
      fv_batch_add_set_key_prefix_2_name = Some False, fv_key_mode = Some ''append'',
      fv_force_format = JBool False, fv_thinking_to_content = JBool False, fv_proxy = JStr [],
      fv_pass_through_body_enabled = JBool False, fv_system_prompt = JStr [], fv_system_prompt_override = JBool False,
      fv_is_enterprise_account = JBool False, fv_vertex_key_type = JStr ''json'', fv_aws_key_type = JStr ''ak_sk'',
      fv_azure_responses_version = JStr [], fv_allow_service_tier = JBool False, fv_disable_store = JBool False,
      fv_allow_safety_identifier = JBool False, fv_allow_include_obfuscation = JBool False,
      fv_allow_inference_geo = JBool False, fv_allow_speed = JBool False, fv_claude_beta_query = JBool False,
      fv_upstream_model_update_check_enabled = JBool False,
      fv_upstream_model_update_auto_sync_enabled = JBool False,
      fv_upstream_model_update_ignored_models = JStr []\<rparr>"

section \<open>The form of a stored channel\<close>

definition parseGroups :: "string \<Rightarrow> string list" where
  "parseGroups groups = (if groups = [] then [] else filter (\<lambda>g. g \<noteq> []) (map trim (split_char CHR '','' groups)))"

definition formatGroups :: "string list \<Rightarrow> string" where
  "formatGroups groups = join '','' groups"

text \<open>The object the stored settings are read from. A text that is empty or not JSON, and \<open>null\<close>, whose first property
  read throws, leave all defaults, which is what an object without properties gives.\<close>

definition stored_object :: "string option \<Rightarrow> jsval" where
  "stored_object s =
     (if or_empty s = [] then JObj []
      else case json_parse (or_empty s) of
          None \<Rightarrow> JObj []
        | Some JNull \<Rightarrow> JObj []
        | Some v \<Rightarrow> v)"

definition setting_or :: "jsval \<Rightarrow> string \<Rightarrow> jsval \<Rightarrow> jsval" where
  "setting_or parsed k d = value_or (prop_of parsed k) d"

definition flag_of :: "jsval \<Rightarrow> string \<Rightarrow> jsval" where
  "flag_of parsed k = JBool (prop_of parsed k = JBool True)"

definition opt_int_or :: "opt_int \<Rightarrow> int \<Rightarrow> int" where
  "opt_int_or v d = (case v of OInt n \<Rightarrow> n | _ \<Rightarrow> d)"

definition transformChannelToFormDefaults :: "Channel \<Rightarrow> upstream_error + ChannelFormValues" where
  "transformChannelToFormDefaults channel =
     (let extra = stored_object (c_setting channel); parsed = stored_object (Some (c_settings channel)) in
      case c_channel_info channel of
        None \<Rightarrow> Inl upstream_error.TypeError
      | Some ci \<Rightarrow> Inr
          \<lparr>cf_key = Some [], cf_models = Some (c_models channel), cf_model_mapping = Some (or_empty (c_model_mapping channel)),
           cf_status_code_mapping = Some (or_empty (c_status_code_mapping channel)),
           fv_name = c_name channel, fv_type = c_type channel, fv_base_url = Some (or_empty (c_base_url channel)),
           fv_openai_organization = Some (or_empty (c_openai_organization channel)),
           fv_group = parseGroups (str_or (c_group channel) ''default''),
           fv_priority = Some (opt_int_or (c_priority channel) 0), fv_weight = Some (opt_int_or (c_weight channel) 0),
           fv_test_model = Some (or_empty (c_test_model channel)), fv_auto_ban = Some (opt_int_or (c_auto_ban channel) 1),
           fv_status = c_status channel, fv_tag = Some (or_empty (c_tag channel)), fv_remark = Some (c_remark channel),
           fv_setting = Some (or_empty (c_setting channel)),
           fv_param_override = Some (or_empty (c_param_override channel)),
           fv_header_override = Some (or_empty (c_header_override channel)),
           fv_settings = Some (str_or (c_settings channel) ''{}''), fv_other = Some (c_other channel),
           fv_multi_key_mode = Some ''single'', fv_multi_key_type = Some (str_or (multi_key_mode ci) ''random''),
           fv_batch_add_set_key_prefix_2_name = Some False, fv_key_mode = Some ''append'',
           fv_force_format = setting_or extra ''force_format'' (JBool False),
           fv_thinking_to_content = setting_or extra ''thinking_to_content'' (JBool False),
           fv_proxy = setting_or extra ''proxy'' (JStr []),
           fv_pass_through_body_enabled = setting_or extra ''pass_through_body_enabled'' (JBool False),
           fv_system_prompt = setting_or extra ''system_prompt'' (JStr []),
           fv_system_prompt_override = setting_or extra ''system_prompt_override'' (JBool False),
           fv_is_enterprise_account = flag_of parsed ''openrouter_enterprise'',
           fv_vertex_key_type = setting_or parsed ''vertex_key_type'' (JStr ''json''),
           fv_aws_key_type = setting_or parsed ''aws_key_type'' (JStr ''ak_sk''),
           fv_azure_responses_version = setting_or parsed ''azure_responses_version'' (JStr []),
           fv_allow_service_tier = flag_of parsed ''allow_service_tier'',
           fv_disable_store = flag_of parsed ''disable_store'',
           fv_allow_safety_identifier = flag_of parsed ''allow_safety_identifier'',
           fv_allow_include_obfuscation = flag_of parsed ''allow_include_obfuscation'',
           fv_allow_inference_geo = flag_of parsed ''allow_inference_geo'',
           fv_allow_speed = flag_of parsed ''allow_speed'',
           fv_claude_beta_query = flag_of parsed ''claude_beta_query'',
           fv_upstream_model_update_check_enabled = flag_of parsed ''upstream_model_update_check_enabled'',
           fv_upstream_model_update_auto_sync_enabled = flag_of parsed ''upstream_model_update_auto_sync_enabled'',
           fv_upstream_model_update_ignored_models =
             (case prop_of parsed ''upstream_model_update_ignored_models'' of
                JArr vs \<Rightarrow> JStr (js_to_string (JArr vs))
              | _ \<Rightarrow> JStr [])\<rparr>)"

section \<open>Payloads\<close>

definition buildSettingJSON :: "ChannelFormValues \<Rightarrow> string" where
  "buildSettingJSON formData = json_stringify 0 (JObj [
     (''force_format'', value_or (fv_force_format formData) (JBool False)),
     (''thinking_to_content'', value_or (fv_thinking_to_content formData) (JBool False)),
     (''proxy'', value_or (fv_proxy formData) (JStr [])),
     (''pass_through_body_enabled'', value_or (fv_pass_through_body_enabled formData) (JBool False)),
     (''system_prompt'', value_or (fv_system_prompt formData) (JStr [])),
     (''system_prompt_override'', value_or (fv_system_prompt_override formData) (JBool False))])"

definition MODEL_FETCHABLE_TYPES :: "int list" where
  "MODEL_FETCHABLE_TYPES = [1, 4, 14, 17, 20, 23, 24, 25, 26, 27, 31, 34, 35, 40, 42, 43, 47, 48]"

definition set_or_delete :: "bool \<Rightarrow> string \<Rightarrow> jsval \<Rightarrow> (string \<times> jsval) list \<Rightarrow> (string \<times> jsval) list" where
  "set_or_delete b k v kvs = (if b then obj_set k v kvs else obj_delete k kvs)"

definition is_true :: "jsval \<Rightarrow> jsval" where
  "is_true v = JBool (v = JBool True)"

text \<open>Field passthrough controls.\<close>

definition passthrough_settings :: "ChannelFormValues \<Rightarrow> (string \<times> jsval) list \<Rightarrow> (string \<times> jsval) list" where
  "passthrough_settings formData s =
     (let ty = fv_type formData;
          s1 = set_or_delete (ty = 1 \<or> ty = 14) ''allow_service_tier'' (is_true (fv_allow_service_tier formData)) s;
          s2 =
            (if ty = 1 then
               obj_set ''allow_inference_geo'' (is_true (fv_allow_inference_geo formData))
                 (obj_set ''allow_include_obfuscation'' (is_true (fv_allow_include_obfuscation formData))
                   (obj_set ''allow_safety_identifier'' (is_true (fv_allow_safety_identifier formData))
                     (obj_set ''disable_store'' (is_true (fv_disable_store formData)) s1)))
             else
               let d = obj_delete ''allow_include_obfuscation''
                     (obj_delete ''allow_safety_identifier'' (obj_delete ''disable_store'' s1))
               in if ty \<noteq> 14 then obj_delete ''allow_inference_geo'' d else d)
      in if ty = 14 then
           obj_set ''claude_beta_query'' (is_true (fv_claude_beta_query formData))
             (obj_set ''allow_speed'' (is_true (fv_allow_speed formData))
               (obj_set ''allow_inference_geo'' (is_true (fv_allow_inference_geo formData)) s2))
         else obj_delete ''claude_beta_query'' (obj_delete ''allow_speed'' s2))"

text \<open>Settings of the upstream model update.\<close>

definition ignored_models :: "ChannelFormValues \<Rightarrow> string list" where
  "ignored_models formData =
     uniq (filter_boolean (map trim (split_char CHR '',''
       (js_to_string (value_or (fv_upstream_model_update_ignored_models formData) (JStr []))))))"

definition upstream_settings :: "ChannelFormValues \<Rightarrow> (string \<times> jsval) list \<Rightarrow> (string \<times> jsval) list" where
  "upstream_settings formData s =
     (if fv_type formData \<notin> set MODEL_FETCHABLE_TYPES then s
      else
        let enabled = (fv_upstream_model_update_check_enabled formData = JBool True);
            s1 = obj_set ''upstream_model_update_check_enabled'' (JBool enabled) s;
            s2 = obj_set ''upstream_model_update_auto_sync_enabled''
              (JBool (enabled \<and> fv_upstream_model_update_auto_sync_enabled formData = JBool True)) s1;
            s3 = obj_set ''upstream_model_update_ignored_models'' (JArr (map JStr (ignored_models formData))) s2;
            s4 = (case prop_of (JObj s3) ''upstream_model_update_last_detected_models'' of
                JArr vs \<Rightarrow> if enabled then s3 else obj_set ''upstream_model_update_last_detected_models'' (JArr []) s3
              | _ \<Rightarrow> obj_set ''upstream_model_update_last_detected_models'' (JArr []) s3)
        in case prop_of (JObj s4) ''upstream_model_update_last_check_time'' of
             JNum _ \<Rightarrow> s4
           | _ \<Rightarrow> obj_set ''upstream_model_update_last_check_time'' (JNum (Fin 0)) s4)"

definition settings_entries :: "ChannelFormValues \<Rightarrow> (string \<times> jsval) list \<Rightarrow> (string \<times> jsval) list" where
  "settings_entries formData s =
     (let ty = fv_type formData;
          s1 = set_or_delete (ty = 41) ''vertex_key_type'' (value_or (fv_vertex_key_type formData) (JStr ''json'')) s;
          s2 = set_or_delete (ty = 3 \<and> truthy (fv_azure_responses_version formData)) ''azure_responses_version''
            (fv_azure_responses_version formData) s1;
          s3 = set_or_delete (ty = 20) ''openrouter_enterprise'' (is_true (fv_is_enterprise_account formData)) s2;
          s4 = set_or_delete (ty = 33) ''aws_key_type'' (value_or (fv_aws_key_type formData) (JStr ''ak_sk'')) s3
      in upstream_settings formData (passthrough_settings formData s4))"

definition existing_settings :: "string option \<Rightarrow> jsval" where
  "existing_settings settings =
     (if or_empty settings = [] \<or> or_empty settings = ''{}'' then JObj []
      else case json_parse (or_empty settings) of None \<Rightarrow> JObj [] | Some v \<Rightarrow> v)"

text \<open>Setting or testing a property of a value that is not an object throws. The properties given to an array are not
  printed.\<close>

definition buildSettingsJSON :: "ChannelFormValues \<Rightarrow> upstream_error + string" where
  "buildSettingsJSON formData =
     (case existing_settings (fv_settings formData) of
        JObj kvs \<Rightarrow> Inr (json_stringify 0 (JObj (settings_entries formData kvs)))
      | JArr vs \<Rightarrow> Inr (json_stringify 0 (JArr vs))
      | _ \<Rightarrow> Inl upstream_error.TypeError)"

definition normalizeBaseUrl :: "string option \<Rightarrow> string" where
  "normalizeBaseUrl value = rev (dropWhile (\<lambda>c. c = CHR ''/'') (rev (trim (or_empty value))))"

definition num_val :: "int \<Rightarrow> jsval" where
  "num_val n = JNum (Fin (of_int n))"

text \<open>\<open>s || null\<close>.\<close>

definition text_or_null :: "string \<Rightarrow> jsval" where
  "text_or_null s = (if s = [] then JNull else JStr s)"

type_synonym payload = "(string \<times> jsval) list"

definition empty_to_null :: "payload \<Rightarrow> payload" where
  "empty_to_null p = map (\<lambda>(k, v). (k, if v = JStr [] then JNull else v)) p"

definition opt_num :: "int option \<Rightarrow> jsval" where
  "opt_num v = (case v of None \<Rightarrow> JUndefined | Some n \<Rightarrow> num_val n)"

record CreatePayload =
  cr_mode :: string
  cr_multi_key_mode :: "string option"
  cr_batch_add_set_key_prefix_2_name :: "bool option"
  cr_channel :: payload

text \<open>The object literals of the two payloads.\<close>

definition create_entries :: "ChannelFormValues \<Rightarrow> string \<Rightarrow> payload" where
  "create_entries formData settings =
     [(''name'', JStr (fv_name formData)), (''type'', num_val (fv_type formData)),
      (''base_url'', text_or_null (normalizeBaseUrl (fv_base_url formData))),
      (''key'', JStr (or_empty (cf_key formData))),
      (''openai_organization'', text_or_null (or_empty (fv_openai_organization formData))),
      (''models'', JStr (or_empty (cf_models formData))), (''group'', JStr (formatGroups (fv_group formData))),
      (''model_mapping'', text_or_null (or_empty (cf_model_mapping formData))),
      (''priority'', case fv_priority formData of Some n \<Rightarrow> if n \<noteq> 0 then num_val n else JNull | None \<Rightarrow> JNull),
      (''weight'', case fv_weight formData of Some n \<Rightarrow> if n \<noteq> 0 then num_val n else JNull | None \<Rightarrow> JNull),
      (''test_model'', text_or_null (or_empty (fv_test_model formData))),
      (''auto_ban'', num_val (case fv_auto_ban formData of Some n \<Rightarrow> n | None \<Rightarrow> 1)),
      (''status'', opt_num (fv_status formData)),
      (''status_code_mapping'', text_or_null (or_empty (cf_status_code_mapping formData))),
      (''tag'', text_or_null (or_empty (fv_tag formData))), (''remark'', JStr (or_empty (fv_remark formData))),
      (''setting'', JStr (buildSettingJSON formData)),
      (''param_override'', text_or_null (or_empty (fv_param_override formData))),
      (''header_override'', text_or_null (or_empty (fv_header_override formData))),
      (''settings'', JStr settings), (''other'', JStr (or_empty (fv_other formData)))]"

definition update_entries :: "ChannelFormValues \<Rightarrow> int \<Rightarrow> string \<Rightarrow> payload" where
  "update_entries formData channelId settings =
     [(''id'', num_val channelId), (''name'', JStr (fv_name formData)), (''type'', num_val (fv_type formData)),
      (''base_url'', text_or_null (normalizeBaseUrl (fv_base_url formData))),
      (''openai_organization'', text_or_null (or_empty (fv_openai_organization formData))),
      (''models'', JStr (or_empty (cf_models formData))), (''group'', JStr (formatGroups (fv_group formData))),
      (''model_mapping'', text_or_null (or_empty (cf_model_mapping formData))),
      (''priority'', num_val (case fv_priority formData of Some n \<Rightarrow> n | None \<Rightarrow> 0)),
      (''weight'', num_val (case fv_weight formData of Some n \<Rightarrow> n | None \<Rightarrow> 0)),
      (''test_model'', text_or_null (or_empty (fv_test_model formData))),
      (''auto_ban'', num_val (case fv_auto_ban formData of Some n \<Rightarrow> n | None \<Rightarrow> 1)),
      (''status'', opt_num (fv_status formData)),
      (''status_code_mapping'', text_or_null (or_empty (cf_status_code_mapping formData))),
      (''tag'', text_or_null (or_empty (fv_tag formData))), (''remark'', JStr (or_empty (fv_remark formData))),
      (''setting'', JStr (buildSettingJSON formData)),
      (''param_override'', text_or_null (or_empty (fv_param_override formData))),
      (''header_override'', text_or_null (or_empty (fv_header_override formData))),
      (''settings'', JStr settings), (''other'', JStr (or_empty (fv_other formData)))]"

text \<open>The fields that are sent as an empty string when they are empty.\<close>

definition cleared_to_empty :: "ChannelFormValues \<Rightarrow> (string \<times> string) list" where
  "cleared_to_empty formData =
     [(''base_url'', normalizeBaseUrl (fv_base_url formData)),
      (''openai_organization'', or_empty (fv_openai_organization formData)),
      (''test_model'', or_empty (fv_test_model formData)), (''tag'', or_empty (fv_tag formData)),
      (''remark'', or_empty (fv_remark formData)), (''model_mapping'', or_empty (cf_model_mapping formData)),
      (''status_code_mapping'', or_empty (cf_status_code_mapping formData)),
      (''param_override'', or_empty (fv_param_override formData)),
      (''header_override'', or_empty (fv_header_override formData))]"

definition transformFormDataToCreatePayload :: "ChannelFormValues \<Rightarrow> upstream_error + CreatePayload" where
  "transformFormDataToCreatePayload formData =
     (let mode = str_or (or_empty (fv_multi_key_mode formData)) ''single'' in
      sbind (buildSettingsJSON formData) (\<lambda>settings. Inr
        \<lparr>cr_mode = mode,
         cr_multi_key_mode = (if mode = ''multi_to_single'' then fv_multi_key_type formData else None),
         cr_batch_add_set_key_prefix_2_name =
           (if mode = ''batch'' then fv_batch_add_set_key_prefix_2_name formData else None),
         cr_channel = empty_to_null (create_entries formData settings)\<rparr>))"

definition transformFormDataToUpdatePayload :: "ChannelFormValues \<Rightarrow> int \<Rightarrow> upstream_error + payload" where
  "transformFormDataToUpdatePayload formData channelId =
     sbind (buildSettingsJSON formData) (\<lambda>settings.
       let payload0 = update_entries formData channelId settings;
           payload1 = (if trim (or_empty (cf_key formData)) \<noteq> []
             then obj_set ''key'' (JStr (or_empty (cf_key formData))) payload0 else payload0);
           payload2 = empty_to_null payload1
       in Inr (foldl (\<lambda>p (k, v). obj_set k (JStr v) p) payload2 (cleared_to_empty formData)))"

section \<open>Requests\<close>

datatype ChannelRequest = CreateChannel CreatePayload | UpdateChannel int payload

text \<open>\<open>currentRow\<close> is the identifier of the edited channel.\<close>

definition mutationFn :: "bool \<Rightarrow> int option \<Rightarrow> bool \<Rightarrow> ChannelFormValues \<Rightarrow> upstream_error + ChannelRequest" where
  "mutationFn editing currentRow multiKeyChannel data =
     (case (editing, currentRow) of
        (True, Some channelId) \<Rightarrow>
          sbind (transformFormDataToUpdatePayload data channelId) (\<lambda>payload.
            Inr (UpdateChannel channelId
              (if multiKeyChannel \<and> or_empty (fv_key_mode data) \<noteq> []
               then obj_set ''key_mode'' (JStr (or_empty (fv_key_mode data))) payload else payload)))
      | _ \<Rightarrow> sbind (transformFormDataToCreatePayload data) (\<lambda>payload. Inr (CreateChannel payload)))"

text \<open>Submitting: the resolver of the form runs the schema, then the submit handler its checks, then the request is made. The
  handler changes the model list of the form only.\<close>

definition submitForm ::
  "(string list \<Rightarrow> bool) \<Rightarrow> (string list \<Rightarrow> confirm_action) \<Rightarrow> InitialChannel \<Rightarrow> int option \<Rightarrow> bool \<Rightarrow>
     ChannelFormValues \<Rightarrow> upstream_error + ChannelRequest option" where
  "submitForm confirmRisk confirmMissing initial currentRow multiKeyChannel data =
     (if \<not> channelFormSchema data then Inr None
      else case onSubmit confirmRisk confirmMissing initial (ChannelForm.truncate data) of
          Mutate form \<Rightarrow>
            sbind (mutationFn (isEditing initial) currentRow multiKeyChannel (data\<lparr>cf_models := cf_models form\<rparr>))
              (\<lambda>r. Inr (Some r))
        | _ \<Rightarrow> Inr None)"

section \<open>What the settings object holds\<close>

lemma map_of_set_or_delete: "map_of (set_or_delete b k v s) = (map_of s)(k := if b then Some v else None)"
  by (simp add: set_or_delete_def map_of_obj_set map_of_obj_delete)

lemma map_of_passthrough:
  "map_of (passthrough_settings d s) = (map_of s)
     (''allow_service_tier'' := if fv_type d = 1 \<or> fv_type d = 14 then Some (is_true (fv_allow_service_tier d)) else None,
      ''disable_store'' := if fv_type d = 1 then Some (is_true (fv_disable_store d)) else None,
      ''allow_safety_identifier'' := if fv_type d = 1 then Some (is_true (fv_allow_safety_identifier d)) else None,
      ''allow_include_obfuscation'' := if fv_type d = 1 then Some (is_true (fv_allow_include_obfuscation d)) else None,
      ''allow_inference_geo'' := if fv_type d = 1 \<or> fv_type d = 14 then Some (is_true (fv_allow_inference_geo d)) else None,
      ''allow_speed'' := if fv_type d = 14 then Some (is_true (fv_allow_speed d)) else None,
      ''claude_beta_query'' := if fv_type d = 14 then Some (is_true (fv_claude_beta_query d)) else None)"
proof -
  consider "fv_type d = 1" | "fv_type d = 14" | "fv_type d \<noteq> 1" "fv_type d \<noteq> 14" by auto
  then show ?thesis
    by cases (auto simp: passthrough_settings_def Let_def map_of_set_or_delete map_of_obj_set map_of_obj_delete fun_eq_iff)
qed

definition UPSTREAM_KEYS :: "string list" where
  "UPSTREAM_KEYS = [''upstream_model_update_check_enabled'', ''upstream_model_update_auto_sync_enabled'',
     ''upstream_model_update_ignored_models'', ''upstream_model_update_last_detected_models'',
     ''upstream_model_update_last_check_time'']"

definition fetchable :: "ChannelFormValues \<Rightarrow> bool" where
  "fetchable d \<longleftrightarrow> fv_type d \<in> set MODEL_FETCHABLE_TYPES"

lemma upstream_settings_cases:
  obtains "\<not> fetchable d" "upstream_settings d s = s"
  | v w where "fetchable d" "map_of (upstream_settings d s) = (map_of s)
      (''upstream_model_update_check_enabled'' \<mapsto> is_true (fv_upstream_model_update_check_enabled d),
       ''upstream_model_update_auto_sync_enabled'' \<mapsto> JBool (fv_upstream_model_update_check_enabled d = JBool True \<and>
          fv_upstream_model_update_auto_sync_enabled d = JBool True),
       ''upstream_model_update_ignored_models'' \<mapsto> JArr (map JStr (ignored_models d)),
       ''upstream_model_update_last_detected_models'' := v, ''upstream_model_update_last_check_time'' := w)"
proof (cases "fetchable d")
  case False
  then show ?thesis using that(1) by (simp add: upstream_settings_def fetchable_def)
next
  case True
  let ?e = "fv_upstream_model_update_check_enabled d = JBool True"
  define s3 where "s3 = obj_set ''upstream_model_update_ignored_models'' (JArr (map JStr (ignored_models d)))
    (obj_set ''upstream_model_update_auto_sync_enabled'' (JBool (?e \<and> fv_upstream_model_update_auto_sync_enabled d = JBool True))
      (obj_set ''upstream_model_update_check_enabled'' (JBool ?e) s))"
  define s4 where "s4 = (case prop_of (JObj s3) ''upstream_model_update_last_detected_models'' of
      JArr vs \<Rightarrow> if ?e then s3 else obj_set ''upstream_model_update_last_detected_models'' (JArr []) s3
    | _ \<Rightarrow> obj_set ''upstream_model_update_last_detected_models'' (JArr []) s3)"
  have "\<exists>v. map_of s4 = (map_of s3)(''upstream_model_update_last_detected_models'' := v)"
    unfolding s4_def by (cases "prop_of (JObj s3) ''upstream_model_update_last_detected_models''")
      (auto simp: map_of_obj_set intro: exI [of _ "map_of s3 ''upstream_model_update_last_detected_models''"])
  then obtain v where v: "map_of s4 = (map_of s3)(''upstream_model_update_last_detected_models'' := v)" by blast
  have u: "upstream_settings d s = (case prop_of (JObj s4) ''upstream_model_update_last_check_time'' of
      JNum _ \<Rightarrow> s4 | _ \<Rightarrow> obj_set ''upstream_model_update_last_check_time'' (JNum (Fin 0)) s4)"
    using True unfolding fetchable_def upstream_settings_def s4_def s3_def Let_def by (simp only: not_True_eq_False if_False)
  have "\<exists>w. map_of (upstream_settings d s) = (map_of s4)(''upstream_model_update_last_check_time'' := w)"
    unfolding u by (cases "prop_of (JObj s4) ''upstream_model_update_last_check_time''")
      (auto simp: map_of_obj_set intro: exI [of _ "map_of s4 ''upstream_model_update_last_check_time''"])
  then obtain w where w: "map_of (upstream_settings d s) = (map_of s4)(''upstream_model_update_last_check_time'' := w)" by blast
  show ?thesis by (rule that(2) [OF True, of v w]) (simp only: w v s3_def map_of_obj_set is_true_def)
qed

lemma map_of_settings_other:
  "k \<notin> set UPSTREAM_KEYS \<Longrightarrow> map_of (upstream_settings d s) k = map_of s k"
  by (rule upstream_settings_cases [of d s]) (auto simp: UPSTREAM_KEYS_def)

definition MANAGED_KEYS :: "string list" where
  "MANAGED_KEYS = [''vertex_key_type'', ''azure_responses_version'', ''openrouter_enterprise'', ''aws_key_type'',
     ''allow_service_tier'', ''disable_store'', ''allow_safety_identifier'', ''allow_include_obfuscation'',
     ''allow_inference_geo'', ''allow_speed'', ''claude_beta_query''] @ UPSTREAM_KEYS"

text \<open>Properties the form does not know are kept.\<close>

lemma settings_frame: "k \<notin> set MANAGED_KEYS \<Longrightarrow> map_of (settings_entries d s) k = map_of s k"
  by (simp add: settings_entries_def Let_def map_of_settings_other map_of_passthrough map_of_set_or_delete MANAGED_KEYS_def)

text \<open>The properties of the type are set and those of other types removed.\<close>

lemma settings_lookup:
  "map_of (settings_entries d s) ''vertex_key_type'' =
     (if fv_type d = 41 then Some (value_or (fv_vertex_key_type d) (JStr ''json'')) else None)"
  "map_of (settings_entries d s) ''azure_responses_version'' =
     (if fv_type d = 3 \<and> truthy (fv_azure_responses_version d) then Some (fv_azure_responses_version d) else None)"
  "map_of (settings_entries d s) ''openrouter_enterprise'' =
     (if fv_type d = 20 then Some (is_true (fv_is_enterprise_account d)) else None)"
  "map_of (settings_entries d s) ''aws_key_type'' =
     (if fv_type d = 33 then Some (value_or (fv_aws_key_type d) (JStr ''ak_sk'')) else None)"
  "map_of (settings_entries d s) ''allow_service_tier'' =
     (if fv_type d = 1 \<or> fv_type d = 14 then Some (is_true (fv_allow_service_tier d)) else None)"
  "map_of (settings_entries d s) ''disable_store'' = (if fv_type d = 1 then Some (is_true (fv_disable_store d)) else None)"
  "map_of (settings_entries d s) ''allow_safety_identifier'' =
     (if fv_type d = 1 then Some (is_true (fv_allow_safety_identifier d)) else None)"
  "map_of (settings_entries d s) ''allow_include_obfuscation'' =
     (if fv_type d = 1 then Some (is_true (fv_allow_include_obfuscation d)) else None)"
  "map_of (settings_entries d s) ''allow_inference_geo'' =
     (if fv_type d = 1 \<or> fv_type d = 14 then Some (is_true (fv_allow_inference_geo d)) else None)"
  "map_of (settings_entries d s) ''allow_speed'' = (if fv_type d = 14 then Some (is_true (fv_allow_speed d)) else None)"
  "map_of (settings_entries d s) ''claude_beta_query'' =
     (if fv_type d = 14 then Some (is_true (fv_claude_beta_query d)) else None)"
  by (simp_all add: settings_entries_def Let_def map_of_settings_other UPSTREAM_KEYS_def map_of_passthrough map_of_set_or_delete)

lemma upstream_lookup:
  assumes "fetchable d"
  shows "map_of (settings_entries d s) ''upstream_model_update_check_enabled'' =
      Some (is_true (fv_upstream_model_update_check_enabled d))"
    "map_of (settings_entries d s) ''upstream_model_update_auto_sync_enabled'' =
      Some (JBool (fv_upstream_model_update_check_enabled d = JBool True \<and> fv_upstream_model_update_auto_sync_enabled d = JBool True))"
    "map_of (settings_entries d s) ''upstream_model_update_ignored_models'' = Some (JArr (map JStr (ignored_models d)))"
proof -
  have "map_of (upstream_settings d t) ''upstream_model_update_check_enabled'' =
        Some (is_true (fv_upstream_model_update_check_enabled d)) \<and>
      map_of (upstream_settings d t) ''upstream_model_update_auto_sync_enabled'' =
        Some (JBool (fv_upstream_model_update_check_enabled d = JBool True \<and> fv_upstream_model_update_auto_sync_enabled d = JBool True)) \<and>
      map_of (upstream_settings d t) ''upstream_model_update_ignored_models'' = Some (JArr (map JStr (ignored_models d)))" for t
    by (rule upstream_settings_cases [of d t]) (use assms in simp_all)
  then show "map_of (settings_entries d s) ''upstream_model_update_check_enabled'' =
      Some (is_true (fv_upstream_model_update_check_enabled d))"
    "map_of (settings_entries d s) ''upstream_model_update_auto_sync_enabled'' =
      Some (JBool (fv_upstream_model_update_check_enabled d = JBool True \<and> fv_upstream_model_update_auto_sync_enabled d = JBool True))"
    "map_of (settings_entries d s) ''upstream_model_update_ignored_models'' = Some (JArr (map JStr (ignored_models d)))"
    unfolding settings_entries_def Let_def by blast+
qed

section \<open>Reading the settings back\<close>

lemma json_ok_obj_delete: "json_ok (JObj s) \<Longrightarrow> json_ok (JObj (obj_delete k s))"
  using distinct_obj_delete by (auto simp: obj_delete_def distinct_map_filter)

lemma json_ok_set_or_delete: "json_ok (JObj s) \<Longrightarrow> (b \<Longrightarrow> json_ok v) \<Longrightarrow> json_ok (JObj (set_or_delete b k v s))"
  unfolding set_or_delete_def using json_ok_obj_set json_ok_obj_delete by (cases b) (simp_all del: json_ok.simps)

lemma json_ok_is_true [simp]: "json_ok (is_true v)"
  by (simp add: is_true_def)

lemma optional_values_ok:
  "optional_string v \<Longrightarrow> json_ok (value_or v (JStr t))" "optional_enum es v \<Longrightarrow> json_ok (value_or v (JStr t))"
  "optional_boolean v \<Longrightarrow> json_ok (value_or v (JBool b))" "optional_string v \<Longrightarrow> truthy v \<Longrightarrow> json_ok v"
  by (cases v; simp add: optional_string_def optional_enum_def optional_boolean_def value_or_def truthy_def)+

lemmas settings_json_ok = json_ok_obj_set json_ok_obj_delete json_ok_set_or_delete

lemma passthrough_ok: "json_ok (JObj s) \<Longrightarrow> json_ok (JObj (passthrough_settings d s))"
  unfolding passthrough_settings_def Let_def
  by (auto intro!: settings_json_ok simp del: json_ok.simps)

lemma upstream_ok:
  assumes "json_ok (JObj s)"
  shows "json_ok (JObj (upstream_settings d s))"
proof -
  have arr: "json_ok (JArr [])" "json_ok (JArr (map JStr ms))" "json_ok (JBool b)" "json_ok (JNum (Fin 0))" for ms b by simp_all
  have c: "json_ok (JObj (case v of JArr vs \<Rightarrow> if b then m else obj_set k (JArr []) m | _ \<Rightarrow> obj_set k (JArr []) m))"
    if "json_ok (JObj m)" for v b m k
    using that arr by (cases v) (simp_all add: json_ok_obj_set del: json_ok.simps)
  have n: "json_ok (JObj (case v of JNum _ \<Rightarrow> m | _ \<Rightarrow> obj_set k (JNum (Fin 0)) m))" if "json_ok (JObj m)" for v m k
    using that arr by (cases v) (simp_all add: json_ok_obj_set del: json_ok.simps)
  have i: "json_ok (JObj (if b then x else y))" if "json_ok (JObj x)" "json_ok (JObj y)" for b x y using that by (cases b) auto
  show ?thesis
    unfolding upstream_settings_def Let_def by (intro i n c json_ok_obj_set arr assms)
qed

lemma settings_entries_ok:
  assumes "json_ok (JObj s)" "schema_fields d"
  shows "json_ok (JObj (settings_entries d s))"
  using assms(2) unfolding settings_entries_def Let_def
  by (intro upstream_ok passthrough_ok json_ok_set_or_delete assms(1))
    (auto simp: schema_fields_def intro: optional_values_ok simp del: json_ok.simps)

text \<open>A printed object is read as itself, property by property.\<close>

lemma stored_object_print:
  assumes "json_ok (JObj s)"
  shows "prop_of (stored_object (Some (json_stringify 0 (JObj s)))) k =
    (case map_of s k of Some v \<Rightarrow> json_canon v | None \<Rightarrow> JUndefined)"
proof -
  let ?t = "json_stringify 0 (JObj s)"
  have "?t \<noteq> []" using trim_json_text(2) [OF assms] unfolding json_stringify_def by (metis jsval.simps)
  moreover have "json_parse ?t = Some (json_canon (JObj s))" by (rule json_parse_stringify_canon [OF assms])
  ultimately have "stored_object (Some ?t) = json_canon (JObj s)" by (simp add: stored_object_def or_empty_def)
  then show ?thesis using prop_of_canon [OF assms, of k] by (simp add: prop_of_def split: option.splits)
qed

lemma value_or_idem:
  "optional_boolean v \<Longrightarrow> value_or (json_canon (value_or v (JBool b))) (JBool b) = value_or v (JBool b)"
  "optional_string v \<Longrightarrow> value_or (json_canon (value_or v (JStr t))) (JStr t) = value_or v (JStr t)"
  "optional_enum es v \<Longrightarrow> value_or (json_canon (value_or v (JStr t))) (JStr t) = value_or v (JStr t)"
  "optional_string v \<Longrightarrow> truthy v \<Longrightarrow> value_or (json_canon v) (JStr t) = value_or v (JStr t)"
  by (cases v; auto simp: optional_boolean_def optional_string_def optional_enum_def value_or_def truthy_def)+

lemma canon_is_true [simp]: "json_canon (is_true v) = is_true v" "(is_true v = JBool True) = (v = JBool True)"
  by (simp_all add: is_true_def)

lemma value_or_undefined [simp]: "value_or JUndefined d = d"
  by (simp add: value_or_def truthy_def)

text \<open>The settings of a form, and what is left of them after a save: a field that does not apply to the type of the
  channel has its default.\<close>

definition extra_settings :: "ChannelFormValues \<Rightarrow> jsval list" where
  "extra_settings f = [fv_force_format f, fv_thinking_to_content f, fv_proxy f, fv_pass_through_body_enabled f,
     fv_system_prompt f, fv_system_prompt_override f]"

definition kept_extra :: "ChannelFormValues \<Rightarrow> jsval list" where
  "kept_extra f = [value_or (fv_force_format f) (JBool False), value_or (fv_thinking_to_content f) (JBool False),
     value_or (fv_proxy f) (JStr []), value_or (fv_pass_through_body_enabled f) (JBool False),
     value_or (fv_system_prompt f) (JStr []), value_or (fv_system_prompt_override f) (JBool False)]"

definition type_settings :: "ChannelFormValues \<Rightarrow> jsval list" where
  "type_settings f = [fv_vertex_key_type f, fv_azure_responses_version f, fv_is_enterprise_account f, fv_aws_key_type f,
     fv_allow_service_tier f, fv_disable_store f, fv_allow_safety_identifier f, fv_allow_include_obfuscation f,
     fv_allow_inference_geo f, fv_allow_speed f, fv_claude_beta_query f]"

definition kept_settings :: "ChannelFormValues \<Rightarrow> jsval list" where
  "kept_settings f =
     [if fv_type f = 41 then value_or (fv_vertex_key_type f) (JStr ''json'') else JStr ''json'',
      if fv_type f = 3 then value_or (fv_azure_responses_version f) (JStr []) else JStr [],
      JBool (fv_type f = 20 \<and> fv_is_enterprise_account f = JBool True),
      if fv_type f = 33 then value_or (fv_aws_key_type f) (JStr ''ak_sk'') else JStr ''ak_sk'',
      JBool (fv_type f \<in> {1, 14} \<and> fv_allow_service_tier f = JBool True),
      JBool (fv_type f = 1 \<and> fv_disable_store f = JBool True),
      JBool (fv_type f = 1 \<and> fv_allow_safety_identifier f = JBool True),
      JBool (fv_type f = 1 \<and> fv_allow_include_obfuscation f = JBool True),
      JBool (fv_type f \<in> {1, 14} \<and> fv_allow_inference_geo f = JBool True),
      JBool (fv_type f = 14 \<and> fv_allow_speed f = JBool True),
      JBool (fv_type f = 14 \<and> fv_claude_beta_query f = JBool True)]"

lemma setting_json_ok:
  assumes "schema_fields d"
  shows "json_ok (JObj [
     (''force_format'', value_or (fv_force_format d) (JBool False)),
     (''thinking_to_content'', value_or (fv_thinking_to_content d) (JBool False)),
     (''proxy'', value_or (fv_proxy d) (JStr [])),
     (''pass_through_body_enabled'', value_or (fv_pass_through_body_enabled d) (JBool False)),
     (''system_prompt'', value_or (fv_system_prompt d) (JStr [])),
     (''system_prompt_override'', value_or (fv_system_prompt_override d) (JBool False))])"
  using assms by (auto simp: schema_fields_def intro: optional_values_ok)

lemma extra_settings_read:
  assumes "schema_fields d" "c_setting c = Some (buildSettingJSON d)" "transformChannelToFormDefaults c = Inr f"
  shows "extra_settings f = kept_extra d"
proof -
  note P = stored_object_print [OF setting_json_ok [OF assms(1)], folded buildSettingJSON_def]
  have o: "optional_boolean (fv_force_format d)" "optional_boolean (fv_thinking_to_content d)" "optional_string (fv_proxy d)"
    "optional_boolean (fv_pass_through_body_enabled d)" "optional_string (fv_system_prompt d)" "optional_boolean (fv_system_prompt_override d)"
    using assms(1) by (simp_all add: schema_fields_def)
  have "extra_settings f =
    [setting_or (stored_object (c_setting c)) ''force_format'' (JBool False),
     setting_or (stored_object (c_setting c)) ''thinking_to_content'' (JBool False),
     setting_or (stored_object (c_setting c)) ''proxy'' (JStr []),
     setting_or (stored_object (c_setting c)) ''pass_through_body_enabled'' (JBool False),
     setting_or (stored_object (c_setting c)) ''system_prompt'' (JStr []),
     setting_or (stored_object (c_setting c)) ''system_prompt_override'' (JBool False)]"
    using assms(3) by (auto simp: transformChannelToFormDefaults_def Let_def extra_settings_def split: option.splits)
  then show ?thesis using o by (simp add: assms(2) setting_or_def P kept_extra_def value_or_idem)
qed

lemma stored_settings_read:
  assumes "schema_fields d" "existing_settings (fv_settings d) = JObj kvs" "json_ok (JObj kvs)"
    and "c_settings c = json_stringify 0 (JObj (settings_entries d kvs))" "transformChannelToFormDefaults c = Inr f"
  shows "type_settings f = kept_settings d"
proof -
  note P = stored_object_print [OF settings_entries_ok [OF assms(3,1)], folded assms(4)]
  have o: "optional_enum [''json'', ''api_key''] (fv_vertex_key_type d)" "optional_string (fv_azure_responses_version d)"
    "optional_enum [''ak_sk'', ''api_key''] (fv_aws_key_type d)"
    using assms(1) by (simp_all add: schema_fields_def)
  let ?p = "stored_object (Some (c_settings c))"
  have "type_settings f =
    [setting_or ?p ''vertex_key_type'' (JStr ''json''), setting_or ?p ''azure_responses_version'' (JStr []),
     flag_of ?p ''openrouter_enterprise'', setting_or ?p ''aws_key_type'' (JStr ''ak_sk''),
     flag_of ?p ''allow_service_tier'', flag_of ?p ''disable_store'', flag_of ?p ''allow_safety_identifier'',
     flag_of ?p ''allow_include_obfuscation'', flag_of ?p ''allow_inference_geo'', flag_of ?p ''allow_speed'',
     flag_of ?p ''claude_beta_query'']"
    using assms(5) by (auto simp: transformChannelToFormDefaults_def Let_def type_settings_def split: option.splits)
  then show ?thesis using o
    by (simp add: setting_or_def flag_of_def P settings_lookup kept_settings_def value_or_idem) (simp add: value_or_def)
qed

lemma ignored_models_clean: "m \<in> set (ignored_models d) \<Longrightarrow> clean_model m"
  using set_trim by (auto simp: ignored_models_def filter_boolean_def clean_model_def dest!: split_char_free)

lemma ignored_models_reread:
  assumes "fv_upstream_model_update_ignored_models f = JStr (js_to_string (JArr (map JStr (ignored_models d))))"
  shows "ignored_models f = ignored_models d"
proof -
  let ?ms = "ignored_models d"
  have shown: "fv_upstream_model_update_ignored_models f = JStr (join '','' ?ms)" using assms by (simp add: comp_def)
  have "map trim ?ms = ?ms" "filter_boolean ?ms = ?ms"
    using ignored_models_clean [of _ d] by (auto simp: clean_model_def filter_boolean_def filter_id_conv intro: map_idI)
  moreover have "uniq ?ms = ?ms" by (simp add: ignored_models_def)
  moreover have "split_char CHR '','' (join '','' ?ms) = ?ms" if "?ms \<noteq> []"
    using that ignored_models_clean [of _ d] by (intro split_char_join) (auto simp: clean_model_def)
  moreover have "ignored_models f = uniq (filter_boolean (map trim (split_char CHR '','' (join '','' ?ms))))"
    by (simp add: ignored_models_def [of f] shown value_or_def truthy_def)
  ultimately show ?thesis by (cases "?ms = []") (simp_all add: filter_boolean_def)
qed

lemma upstream_read:
  assumes "schema_fields d" "json_ok (JObj kvs)" "fetchable d"
    and "c_settings c = json_stringify 0 (JObj (settings_entries d kvs))" "transformChannelToFormDefaults c = Inr f"
  shows "fv_upstream_model_update_check_enabled f = is_true (fv_upstream_model_update_check_enabled d)"
    "fv_upstream_model_update_auto_sync_enabled f =
      JBool (fv_upstream_model_update_check_enabled d = JBool True \<and> fv_upstream_model_update_auto_sync_enabled d = JBool True)"
    "ignored_models f = ignored_models d"
proof -
  note P = stored_object_print [OF settings_entries_ok [OF assms(2,1)], folded assms(4)]
  let ?p = "stored_object (Some (c_settings c))"
  have f: "fv_upstream_model_update_check_enabled f = flag_of ?p ''upstream_model_update_check_enabled''"
    "fv_upstream_model_update_auto_sync_enabled f = flag_of ?p ''upstream_model_update_auto_sync_enabled''"
    "fv_upstream_model_update_ignored_models f =
      (case prop_of ?p ''upstream_model_update_ignored_models'' of JArr vs \<Rightarrow> JStr (js_to_string (JArr vs)) | _ \<Rightarrow> JStr [])"
    using assms(5) by (auto simp: transformChannelToFormDefaults_def Let_def split: option.splits)
  then show "fv_upstream_model_update_check_enabled f = is_true (fv_upstream_model_update_check_enabled d)"
    "fv_upstream_model_update_auto_sync_enabled f =
      JBool (fv_upstream_model_update_check_enabled d = JBool True \<and> fv_upstream_model_update_auto_sync_enabled d = JBool True)"
    by (simp_all add: flag_of_def P upstream_lookup [OF assms(3)] is_true_def)
  show "ignored_models f = ignored_models d"
    by (rule ignored_models_reread) (simp add: f(3) P upstream_lookup [OF assms(3)] comp_def del: js_to_string.simps)
qed

text \<open>The schema only lets an object through as the stored settings.\<close>

lemma schema_settings:
  assumes "isOptionalJsonObject s"
  shows "\<exists>kvs. existing_settings s = JObj kvs \<and> stored_object s = JObj kvs \<and> json_ok (JObj kvs)"
proof (cases "json_parse (or_empty s)")
  case None
  then show ?thesis by (auto simp: existing_settings_def stored_object_def)
next
  case (Some v)
  then have "trim (or_empty s) \<noteq> []" using blank_not_json by auto
  then obtain kvs where v: "v = JObj kvs"
    using assms Some json_parse_ok [OF Some]
    by (cases v) (auto simp: isOptionalJsonObject_def parseOptionalJson_def isJsonObjectValue_def)
  have "json_parse ''{}'' = Some (JObj [])" by code_simp
  then have "kvs = []" if "or_empty s = ''{}''" using that Some v by simp
  then show ?thesis using Some v json_parse_ok [OF Some] by (auto simp: existing_settings_def stored_object_def)
qed

text \<open>C22: What is entered in the settings part of a channel form is what the form shows when the saved channel is
  opened again, for every form the schema accepts: the extra settings, the settings that apply to the type of the channel (the
  others are reset), and the upstream update settings of the types that have them. Every property of the stored
  settings that the form does not know is still there.\<close>

theorem channel_settings_roundtrip:
  assumes valid: "channelFormSchema d" and saved: "buildSettingsJSON d = Inr s"
    and stored: "c_setting c = Some (buildSettingJSON d)" "c_settings c = s"
    and opened: "transformChannelToFormDefaults c = Inr f"
  shows "extra_settings f = kept_extra d \<and> type_settings f = kept_settings d \<and>
    (fv_type d \<in> set MODEL_FETCHABLE_TYPES \<longrightarrow>
       fv_upstream_model_update_check_enabled f = is_true (fv_upstream_model_update_check_enabled d) \<and>
       fv_upstream_model_update_auto_sync_enabled f =
         JBool (fv_upstream_model_update_check_enabled d = JBool True \<and> fv_upstream_model_update_auto_sync_enabled d = JBool True) \<and>
       ignored_models f = ignored_models d) \<and>
    (\<forall>k. k \<notin> set MANAGED_KEYS \<longrightarrow>
       prop_of (stored_object (Some (c_settings c))) k = json_canon (prop_of (stored_object (fv_settings d)) k))"
proof -
  have v: "schema_fields d" using valid by (simp add: channelFormSchema_def)
  then have "isOptionalJsonObject (fv_settings d)" by (simp add: schema_fields_def)
  then obtain kvs where k: "existing_settings (fv_settings d) = JObj kvs" "stored_object (fv_settings d) = JObj kvs"
    "json_ok (JObj kvs)" using schema_settings by blast
  have c: "c_settings c = json_stringify 0 (JObj (settings_entries d kvs))"
    using saved stored(2) k(1) by (simp add: buildSettingsJSON_def)
  have "prop_of (stored_object (Some (c_settings c))) key = json_canon (prop_of (stored_object (fv_settings d)) key)"
    if "key \<notin> set MANAGED_KEYS" for key
    unfolding c stored_object_print [OF settings_entries_ok [OF k(3) v]] settings_frame [OF that] k(2)
    by (simp add: prop_of_def split: option.splits)
  then show ?thesis
    using extra_settings_read [OF v stored(1) opened] stored_settings_read [OF v k(1,3) c opened]
      upstream_read [OF v k(3) _ c opened] unfolding fetchable_def by blast
qed

definition stored_channel :: "string option \<Rightarrow> string \<Rightarrow> Channel" where
  "stored_channel setting settings =
     \<lparr>c_id = NumId 1, c_type = 14, c_key = [], c_openai_organization = None, c_test_model = None, c_status = Some 1,
      c_name = ''main'', c_weight = ONull, c_created_time = 0, c_test_time = 0, c_response_time = Fin 0,
      c_base_url = Some ''https://x.org'', c_other = [], c_balance = Fin 0, c_balance_updated_time = 0,
      c_models = ''claude'', c_group = ''default, vip'', c_used_quota = Fin 0, c_model_mapping = None,
      c_status_code_mapping = None, c_priority = OInt 3, c_auto_ban = OInt 1, c_other_info = [], c_tag = Some ''t'',
      c_setting = setting, c_param_override = None, c_header_override = None, c_remark = [], c_max_input_tokens = 0,
      c_channel_info = Some \<lparr>is_multi_key = False, multi_key_size = 0, multi_key_status_list = None,
        multi_key_disabled_reason = None, multi_key_disabled_time = None, multi_key_polling_index = 0, multi_key_mode = ''random''\<rparr>,
      c_settings = settings\<rparr>"

definition anthropic_form :: ChannelFormValues where
  "anthropic_form = CHANNEL_FORM_DEFAULT_VALUES
     \<lparr>cf_key := Some ''sk'', cf_models := Some ''claude'', fv_name := ''main'', fv_type := 14, fv_allow_speed := JBool True, fv_disable_store := JBool True\<rparr>"

lemma anthropic_form_valid: "channelFormSchema anthropic_form"
proof -
  have "json_parse ''{}'' = Some (JObj [])" by code_simp
  moreover have "trim ''{}'' \<noteq> []" by code_simp
  ultimately show ?thesis
    by (simp add: channelFormSchema_def schema_fields_def schema_issues_def anthropic_form_def CHANNEL_FORM_DEFAULT_VALUES_def
        or_empty_def isOptionalModelMapping_def isOptionalStatusCodeMapping_def isOptionalJsonObject_def parseOptionalJson_def
        in_enum_def optional_boolean_def optional_string_def optional_enum_def isJsonObjectValue_def)
qed

lemma transform_defined: "c_channel_info c = Some ci \<Longrightarrow> \<exists>f. transformChannelToFormDefaults c = Inr f"
  by (simp add: transformChannelToFormDefaults_def Let_def)

theorem channel_settings_roundtrip_witness:
  "\<exists>s f. buildSettingsJSON anthropic_form = Inr s \<and>
     transformChannelToFormDefaults (stored_channel (Some (buildSettingJSON anthropic_form)) s) = Inr f \<and>
     fv_allow_speed f = JBool True \<and> fv_disable_store f = JBool False \<and> ignored_models f = []"
proof -
  let ?s = "json_stringify 0 (JObj (settings_entries anthropic_form []))"
  let ?c = "stored_channel (Some (buildSettingJSON anthropic_form)) ?s"
  have s: "buildSettingsJSON anthropic_form = Inr ?s"
    by (simp add: buildSettingsJSON_def existing_settings_def anthropic_form_def CHANNEL_FORM_DEFAULT_VALUES_def or_empty_def)
  obtain f where f: "transformChannelToFormDefaults ?c = Inr f"
    using transform_defined [of ?c] by (auto simp: stored_channel_def)
  have c: "c_setting ?c = Some (buildSettingJSON anthropic_form)" "c_settings ?c = ?s" by (simp_all add: stored_channel_def)
  note R = channel_settings_roundtrip [OF anthropic_form_valid s c f]
  have "fv_type anthropic_form \<in> set MODEL_FETCHABLE_TYPES" "ignored_models anthropic_form = []"
    by (simp_all add: anthropic_form_def CHANNEL_FORM_DEFAULT_VALUES_def MODEL_FETCHABLE_TYPES_def ignored_models_def value_or_def
        truthy_def filter_boolean_def)
  then have "type_settings f = kept_settings anthropic_form" "ignored_models f = []" using R by simp_all
  then have "fv_allow_speed f = JBool True" "fv_disable_store f = JBool False"
    by (simp_all add: type_settings_def kept_settings_def anthropic_form_def CHANNEL_FORM_DEFAULT_VALUES_def)
  then show ?thesis using s f \<open>ignored_models f = []\<close> by blast
qed

section \<open>Requests\<close>

lemma map_of_empty_to_null: "map_of (empty_to_null p) k = map_option (\<lambda>v. if v = JStr [] then JNull else v) (map_of p k)"
proof (induction p)
  case (Cons e p)
  then show ?case by (cases e) (simp add: empty_to_null_def)
qed (simp add: empty_to_null_def)

lemma map_of_foldl_set:
  "map_of (foldl (\<lambda>p (k, v). obj_set k (JStr v) p) p kvs) k =
   (case map_of (rev kvs) k of Some v \<Rightarrow> Some (JStr v) | None \<Rightarrow> map_of p k)"
proof (induction kvs arbitrary: p)
  case (Cons e kvs)
  then show ?case by (cases e) (simp add: Cons map_of_obj_set map_add_def split: option.split)
qed simp

lemma update_payload_lookup:
  assumes "transformFormDataToUpdatePayload d i = Inr p"
  shows "\<forall>(k, v)\<in>set (cleared_to_empty d). map_of p k = Some (JStr v)"
    "map_of p ''key'' = (if trim (or_empty (cf_key d)) \<noteq> [] then Some (JStr (or_empty (cf_key d))) else None)"
    "\<exists>s. buildSettingsJSON d = Inr s \<and> (\<forall>k. k \<notin> fst ` set (cleared_to_empty d) \<longrightarrow> k \<noteq> ''key'' \<longrightarrow>
       map_of p k = map_option (\<lambda>v. if v = JStr [] then JNull else v) (map_of (update_entries d i s) k))"
proof -
  obtain s where s: "buildSettingsJSON d = Inr s"
    using assms by (cases "buildSettingsJSON d") (auto simp: transformFormDataToUpdatePayload_def)
  define q where "q = (if trim (or_empty (cf_key d)) \<noteq> []
    then obj_set ''key'' (JStr (or_empty (cf_key d))) (update_entries d i s) else update_entries d i s)"
  have p: "p = foldl (\<lambda>p (k, v). obj_set k (JStr v) p) (empty_to_null q) (cleared_to_empty d)"
    using assms s by (simp add: transformFormDataToUpdatePayload_def q_def Let_def)
  have other: "map_of p k = map_option (\<lambda>v. if v = JStr [] then JNull else v) (map_of q k)"
    if "k \<notin> fst ` set (cleared_to_empty d)" for k
  proof -
    have "map_of (rev (cleared_to_empty d)) k = None" using that by (simp add: map_of_eq_None_iff)
    then show ?thesis unfolding p map_of_foldl_set by (simp add: map_of_empty_to_null)
  qed
  show "\<forall>(k, v)\<in>set (cleared_to_empty d). map_of p k = Some (JStr v)"
    unfolding p map_of_foldl_set by (simp add: cleared_to_empty_def)
  have "map_of (update_entries d i s) ''key'' = None" by (simp add: update_entries_def)
  moreover have "''key'' \<notin> fst ` set (cleared_to_empty d)" by (simp add: cleared_to_empty_def)
  ultimately show "map_of p ''key'' = (if trim (or_empty (cf_key d)) \<noteq> [] then Some (JStr (or_empty (cf_key d))) else None)"
    using other by (auto simp: q_def map_of_obj_set)
  show "\<exists>s. buildSettingsJSON d = Inr s \<and> (\<forall>k. k \<notin> fst ` set (cleared_to_empty d) \<longrightarrow> k \<noteq> ''key'' \<longrightarrow>
       map_of p k = map_option (\<lambda>v. if v = JStr [] then JNull else v) (map_of (update_entries d i s) k))"
    using s other by (auto simp: q_def map_of_obj_set)
qed

lemma parseGroups_clean: "g \<in> set (parseGroups s) \<Longrightarrow> clean_model g"
  using set_trim by (auto simp: parseGroups_def clean_model_def dest!: split_char_free split: if_splits)

lemma groups_reread: "parseGroups (formatGroups (parseGroups s)) = parseGroups s"
proof (cases "parseGroups s = []")
  case True
  then show ?thesis by (simp add: formatGroups_def parseGroups_def)
next
  case False
  let ?gs = "parseGroups s"
  have "split_char CHR '','' (join '','' ?gs) = ?gs"
    using False parseGroups_clean [of _ s] by (intro split_char_join) (auto simp: clean_model_def)
  moreover have "map trim ?gs = ?gs" "filter (\<lambda>g. g \<noteq> []) ?gs = ?gs"
    using parseGroups_clean [of _ s] by (auto simp: clean_model_def filter_id_conv intro: map_idI)
  moreover have "join '','' ?gs \<noteq> []"
    using False parseGroups_clean [of "hd ?gs" s] by (cases ?gs rule: remdups_adj.cases) (auto simp: clean_model_def)
  ultimately show ?thesis by (simp add: formatGroups_def parseGroups_def [of "join '','' ?gs"])
qed

section \<open>Saving without an edit\<close>

lemma upstream_exact:
  assumes "fetchable d"
  shows "map_of (upstream_settings d s) ''upstream_model_update_last_detected_models'' =
      Some (case prop_of (JObj s) ''upstream_model_update_last_detected_models'' of
          JArr vs \<Rightarrow> JArr (if fv_upstream_model_update_check_enabled d = JBool True then vs else [])
        | _ \<Rightarrow> JArr [])"
    "map_of (upstream_settings d s) ''upstream_model_update_last_check_time'' =
      Some (case prop_of (JObj s) ''upstream_model_update_last_check_time'' of JNum n \<Rightarrow> JNum n | _ \<Rightarrow> JNum (Fin 0))"
proof -
  let ?e = "fv_upstream_model_update_check_enabled d = JBool True"
  define s3 where "s3 = obj_set ''upstream_model_update_ignored_models'' (JArr (map JStr (ignored_models d)))
    (obj_set ''upstream_model_update_auto_sync_enabled'' (JBool (?e \<and> fv_upstream_model_update_auto_sync_enabled d = JBool True))
      (obj_set ''upstream_model_update_check_enabled'' (JBool ?e) s))"
  define s4 where "s4 = (case prop_of (JObj s3) ''upstream_model_update_last_detected_models'' of
      JArr vs \<Rightarrow> if ?e then s3 else obj_set ''upstream_model_update_last_detected_models'' (JArr []) s3
    | _ \<Rightarrow> obj_set ''upstream_model_update_last_detected_models'' (JArr []) s3)"
  have u: "upstream_settings d s = (case prop_of (JObj s4) ''upstream_model_update_last_check_time'' of
      JNum _ \<Rightarrow> s4 | _ \<Rightarrow> obj_set ''upstream_model_update_last_check_time'' (JNum (Fin 0)) s4)"
    using assms unfolding fetchable_def upstream_settings_def s4_def s3_def Let_def by (simp only: not_True_eq_False if_False)
  have p3: "prop_of (JObj s3) k = prop_of (JObj s) k"
    if "k \<in> {''upstream_model_update_last_detected_models'', ''upstream_model_update_last_check_time''}" for k
    using that by (auto simp: prop_of_def s3_def map_of_obj_set)
  have m4: "map_of s4 = (map_of s3)(''upstream_model_update_last_detected_models'' \<mapsto>
      (case prop_of (JObj s) ''upstream_model_update_last_detected_models'' of
          JArr vs \<Rightarrow> JArr (if ?e then vs else []) | _ \<Rightarrow> JArr []))"
    unfolding s4_def using p3 [of "''upstream_model_update_last_detected_models''"]
    by (cases "prop_of (JObj s) ''upstream_model_update_last_detected_models''")
      (auto simp: map_of_obj_set prop_of_def fun_upd_idem_iff split: option.splits)
  have "prop_of (JObj s4) ''upstream_model_update_last_check_time'' = prop_of (JObj s) ''upstream_model_update_last_check_time''"
    using p3 [of "''upstream_model_update_last_check_time''"] by (simp add: prop_of_def m4)
  then have "map_of (upstream_settings d s) = (map_of s4)(''upstream_model_update_last_check_time'' \<mapsto>
      (case prop_of (JObj s) ''upstream_model_update_last_check_time'' of JNum n \<Rightarrow> JNum n | _ \<Rightarrow> JNum (Fin 0)))"
    unfolding u by (cases "prop_of (JObj s) ''upstream_model_update_last_check_time''")
      (auto simp: map_of_obj_set prop_of_def fun_upd_idem_iff split: option.splits)
  then show "map_of (upstream_settings d s) ''upstream_model_update_last_detected_models'' =
      Some (case prop_of (JObj s) ''upstream_model_update_last_detected_models'' of
          JArr vs \<Rightarrow> JArr (if ?e then vs else []) | _ \<Rightarrow> JArr [])"
    "map_of (upstream_settings d s) ''upstream_model_update_last_check_time'' =
      Some (case prop_of (JObj s) ''upstream_model_update_last_check_time'' of JNum n \<Rightarrow> JNum n | _ \<Rightarrow> JNum (Fin 0))"
    by (simp_all add: m4)
qed

lemma upstream_lookup_exact:
  assumes "fetchable d"
  shows "map_of (settings_entries d s) ''upstream_model_update_last_detected_models'' =
      Some (case prop_of (JObj s) ''upstream_model_update_last_detected_models'' of
          JArr vs \<Rightarrow> JArr (if fv_upstream_model_update_check_enabled d = JBool True then vs else [])
        | _ \<Rightarrow> JArr [])"
    "map_of (settings_entries d s) ''upstream_model_update_last_check_time'' =
      Some (case prop_of (JObj s) ''upstream_model_update_last_check_time'' of JNum n \<Rightarrow> JNum n | _ \<Rightarrow> JNum (Fin 0))"
  unfolding settings_entries_def Let_def upstream_exact [OF assms]
  by (simp_all add: prop_of_def map_of_passthrough map_of_set_or_delete)

lemma upstream_untouched: "k \<in> set UPSTREAM_KEYS \<Longrightarrow> \<not> fetchable d \<Longrightarrow> map_of (settings_entries d s) k = map_of s k"
  unfolding UPSTREAM_KEYS_def list.set insert_iff empty_iff settings_entries_def Let_def
  by (elim disjE) (simp_all add: upstream_settings_def fetchable_def map_of_passthrough map_of_set_or_delete)

text \<open>The properties of \<open>setting\<close> that a save writes, with their defaults, and what a save without an edit makes of a property
  of \<open>settings\<close>: the properties of other channel types are removed, those of the type are normalised, and the rest is
  kept.\<close>

definition EXTRA_SETTINGS :: "(string \<times> jsval) list" where
  "EXTRA_SETTINGS = [(''force_format'', JBool False), (''thinking_to_content'', JBool False), (''proxy'', JStr []),
     (''pass_through_body_enabled'', JBool False), (''system_prompt'', JStr []), (''system_prompt_override'', JBool False)]"

definition only_if :: "bool \<Rightarrow> jsval \<Rightarrow> jsval" where
  "only_if b v = (if b then v else JUndefined)"

definition resaved_setting :: "int \<Rightarrow> jsval \<Rightarrow> string \<Rightarrow> jsval" where
  "resaved_setting ty stored k =
     (let check = prop_of stored ''upstream_model_update_check_enabled'' = JBool True in
      if k = ''vertex_key_type'' then only_if (ty = 41) (setting_or stored k (JStr ''json''))
      else if k = ''azure_responses_version'' then only_if (ty = 3 \<and> truthy (prop_of stored k)) (prop_of stored k)
      else if k = ''openrouter_enterprise'' then only_if (ty = 20) (flag_of stored k)
      else if k = ''aws_key_type'' then only_if (ty = 33) (setting_or stored k (JStr ''ak_sk''))
      else if k \<in> {''allow_service_tier'', ''allow_inference_geo''} then only_if (ty \<in> {1, 14}) (flag_of stored k)
      else if k \<in> {''disable_store'', ''allow_safety_identifier'', ''allow_include_obfuscation''}
        then only_if (ty = 1) (flag_of stored k)
      else if k \<in> {''allow_speed'', ''claude_beta_query''} then only_if (ty = 14) (flag_of stored k)
      else if ty \<notin> set MODEL_FETCHABLE_TYPES then json_canon (prop_of stored k)
      else if k = ''upstream_model_update_check_enabled'' then flag_of stored k
      else if k = ''upstream_model_update_auto_sync_enabled'' then JBool (check \<and> prop_of stored k = JBool True)
      else if k = ''upstream_model_update_ignored_models'' then
        JArr (map JStr (uniq (filter_boolean (map trim (split_char CHR '',''
          (case prop_of stored k of JArr vs \<Rightarrow> js_to_string (JArr vs) | _ \<Rightarrow> []))))))
      else if k = ''upstream_model_update_last_detected_models'' then
        (case prop_of stored k of JArr vs \<Rightarrow> json_canon (JArr (if check then vs else [])) | _ \<Rightarrow> JArr [])
      else if k = ''upstream_model_update_last_check_time'' then
        (case prop_of stored k of JNum n \<Rightarrow> json_canon (JNum n) | _ \<Rightarrow> JNum (Fin 0))
      else json_canon (prop_of stored k))"

lemma opened_settings:
  assumes "transformChannelToFormDefaults c = Inr f"
  defines "p \<equiv> stored_object (Some (c_settings c))"
  shows "fv_type f = c_type c" "fv_vertex_key_type f = setting_or p ''vertex_key_type'' (JStr ''json'')"
    "fv_azure_responses_version f = setting_or p ''azure_responses_version'' (JStr [])"
    "fv_is_enterprise_account f = flag_of p ''openrouter_enterprise''"
    "fv_aws_key_type f = setting_or p ''aws_key_type'' (JStr ''ak_sk'')"
    "fv_allow_service_tier f = flag_of p ''allow_service_tier''" "fv_disable_store f = flag_of p ''disable_store''"
    "fv_allow_safety_identifier f = flag_of p ''allow_safety_identifier''"
    "fv_allow_include_obfuscation f = flag_of p ''allow_include_obfuscation''"
    "fv_allow_inference_geo f = flag_of p ''allow_inference_geo''" "fv_allow_speed f = flag_of p ''allow_speed''"
    "fv_claude_beta_query f = flag_of p ''claude_beta_query''"
    "fv_upstream_model_update_check_enabled f = flag_of p ''upstream_model_update_check_enabled''"
    "fv_upstream_model_update_auto_sync_enabled f = flag_of p ''upstream_model_update_auto_sync_enabled''"
    "fv_upstream_model_update_ignored_models f =
      (case prop_of p ''upstream_model_update_ignored_models'' of JArr vs \<Rightarrow> JStr (js_to_string (JArr vs)) | _ \<Rightarrow> JStr [])"
  using assms by (auto simp: transformChannelToFormDefaults_def Let_def split: option.splits)

lemma optional_canon:
  "optional_string v \<Longrightarrow> json_canon v = v" "optional_enum es v \<Longrightarrow> json_canon v = v" "optional_boolean v \<Longrightarrow> json_canon v = v"
  by (cases v; simp add: optional_string_def optional_enum_def optional_boolean_def)+

lemma setting_or_again [simp]: "value_or (setting_or p k d) d = setting_or p k d"
  by (simp add: setting_or_def value_or_def)

lemma flag_again [simp]: "is_true (flag_of p k) = flag_of p k" "(flag_of p k = JBool True) = (prop_of p k = JBool True)"
  "json_canon (flag_of p k) = flag_of p k"
  by (simp_all add: is_true_def flag_of_def)

lemma ignored_models_opened:
  assumes "transformChannelToFormDefaults c = Inr f"
  shows "ignored_models f = uniq (filter_boolean (map trim (split_char CHR '',''
    (case prop_of (stored_object (Some (c_settings c))) ''upstream_model_update_ignored_models'' of
       JArr vs \<Rightarrow> js_to_string (JArr vs) | _ \<Rightarrow> []))))"
proof -
  have "js_to_string (value_or (JStr t) (JStr [])) = t" for t by (simp add: value_or_def truthy_def)
  then show ?thesis
    unfolding ignored_models_def opened_settings(15) [OF assms]
    by (cases "prop_of (stored_object (Some (c_settings c))) ''upstream_model_update_ignored_models''")
      (simp_all del: js_to_string.simps)
qed

lemma resaved_settings:
  assumes opened: "transformChannelToFormDefaults c = Inr f" and valid: "schema_fields f"
    and kvs: "stored_object (Some (c_settings c)) = JObj kvs" "json_ok (JObj kvs)"
  shows "prop_of (stored_object (Some (json_stringify 0 (JObj (settings_entries f kvs))))) k =
    resaved_setting (c_type c) (JObj kvs) k"
proof -
  let ?m = "map_of (settings_entries f kvs)"
  note F = opened_settings [OF opened, unfolded kvs(1)]
  have o: "json_canon (fv_vertex_key_type f) = fv_vertex_key_type f" "json_canon (fv_azure_responses_version f) = fv_azure_responses_version f"
    "json_canon (fv_aws_key_type f) = fv_aws_key_type f"
    using valid by (auto simp: schema_fields_def intro: optional_canon)
  have own: "(case map_of kvs k of Some v \<Rightarrow> json_canon v | None \<Rightarrow> JUndefined) = json_canon (prop_of (JObj kvs) k)" for k
    by (simp add: prop_of_def split: option.split)
  have "(case ?m k of Some v \<Rightarrow> json_canon v | None \<Rightarrow> JUndefined) = resaved_setting (c_type c) (JObj kvs) k"
  proof (cases "k \<in> set MANAGED_KEYS")
    case False
    then show ?thesis unfolding settings_frame [OF False] own by (simp add: resaved_setting_def Let_def MANAGED_KEYS_def UPSTREAM_KEYS_def)
  next
    case True
    then consider "k \<in> set UPSTREAM_KEYS" "fetchable f" | "k \<in> set UPSTREAM_KEYS" "\<not> fetchable f"
      | "k \<in> set MANAGED_KEYS" "k \<notin> set UPSTREAM_KEYS" by blast
    then show ?thesis
    proof cases
      case 1
      note L = upstream_lookup [OF 1(2)] upstream_lookup_exact [OF 1(2)] ignored_models_opened [OF opened, unfolded kvs(1)]
      have ty: "c_type c \<in> set MODEL_FETCHABLE_TYPES" using 1(2) F(1) by (simp add: fetchable_def)
      show ?thesis
        using 1(1) unfolding UPSTREAM_KEYS_def list.set insert_iff empty_iff
        by (elim disjE) (use ty in \<open>simp_all add: L F resaved_setting_def Let_def comp_def del: js_to_string.simps split: jsval.split\<close>)
    next
      case 2
      have "?m k = map_of kvs k" using 2 by (rule upstream_untouched)
      moreover have "resaved_setting (c_type c) (JObj kvs) k = json_canon (prop_of (JObj kvs) k)"
        using 2 F(1) unfolding UPSTREAM_KEYS_def list.set insert_iff empty_iff
        by (elim disjE) (simp_all add: resaved_setting_def fetchable_def)
      ultimately show ?thesis using own [of k] by simp
    next
      case 3
      have az: "truthy (setting_or (JObj kvs) q (JStr [])) \<longleftrightarrow> truthy (prop_of (JObj kvs) q)"
        "truthy (prop_of (JObj kvs) q) \<Longrightarrow> setting_or (JObj kvs) q d = prop_of (JObj kvs) q" for q d
        by (simp_all add: setting_or_def value_or_def truthy_def)
      have azc: "truthy (prop_of (JObj kvs) ''azure_responses_version'') \<Longrightarrow>
          json_canon (prop_of (JObj kvs) ''azure_responses_version'') = prop_of (JObj kvs) ''azure_responses_version''"
        using o(2) by (simp add: F(3) az(2))
      show ?thesis
        using 3 o azc unfolding MANAGED_KEYS_def UPSTREAM_KEYS_def set_append list.set insert_iff empty_iff Un_iff
        by (elim disjE) (simp_all add: settings_lookup F resaved_setting_def only_if_def az)
    qed
  qed
  then show ?thesis unfolding stored_object_print [OF settings_entries_ok [OF kvs(2) valid]] .
qed

lemma stringify_object_not_empty: "json_stringify g (JObj kvs) \<noteq> []"
  by (simp add: json_stringify_def Let_def)

lemma resaved_extra:
  assumes opened: "transformChannelToFormDefaults c = Inr f" and valid: "schema_fields f"
  shows "prop_of (stored_object (Some (buildSettingJSON f))) k =
    (case map_of EXTRA_SETTINGS k of Some d \<Rightarrow> setting_or (stored_object (c_setting c)) k d | None \<Rightarrow> JUndefined)"
proof -
  let ?x = "stored_object (c_setting c)"
  have F: "fv_force_format f = setting_or ?x ''force_format'' (JBool False)"
    "fv_thinking_to_content f = setting_or ?x ''thinking_to_content'' (JBool False)"
    "fv_proxy f = setting_or ?x ''proxy'' (JStr [])"
    "fv_pass_through_body_enabled f = setting_or ?x ''pass_through_body_enabled'' (JBool False)"
    "fv_system_prompt f = setting_or ?x ''system_prompt'' (JStr [])"
    "fv_system_prompt_override f = setting_or ?x ''system_prompt_override'' (JBool False)"
    using opened by (auto simp: transformChannelToFormDefaults_def Let_def split: option.splits)
  have o: "json_canon (fv_force_format f) = fv_force_format f" "json_canon (fv_thinking_to_content f) = fv_thinking_to_content f"
    "json_canon (fv_proxy f) = fv_proxy f" "json_canon (fv_pass_through_body_enabled f) = fv_pass_through_body_enabled f"
    "json_canon (fv_system_prompt f) = fv_system_prompt f"
    "json_canon (fv_system_prompt_override f) = fv_system_prompt_override f"
    using valid by (auto simp: schema_fields_def intro: optional_canon)
  show ?thesis
    unfolding buildSettingJSON_def stored_object_print [OF setting_json_ok [OF valid]]
    using o by (simp add: F EXTRA_SETTINGS_def)
qed

lemma opened_settings_object:
  assumes opened: "transformChannelToFormDefaults c = Inr f" and valid: "schema_fields f"
  obtains kvs where "stored_object (Some (c_settings c)) = JObj kvs" "json_ok (JObj kvs)"
    "buildSettingsJSON f = Inr (json_stringify 0 (JObj (settings_entries f kvs)))"
proof -
  have f: "fv_settings f = Some (str_or (c_settings c) ''{}'')"
    using opened by (auto simp: transformChannelToFormDefaults_def Let_def split: option.splits)
  have "isOptionalJsonObject (fv_settings f)" using valid by (simp add: schema_fields_def)
  then obtain kvs where k: "existing_settings (fv_settings f) = JObj kvs" "stored_object (fv_settings f) = JObj kvs"
    "json_ok (JObj kvs)" using schema_settings by blast
  have "json_parse ''{}'' = Some (JObj [])" by code_simp
  then have "stored_object (Some (c_settings c)) = JObj kvs"
    using k(2) unfolding f by (cases "c_settings c = []") (auto simp: stored_object_def str_or_def)
  then show ?thesis using that k by (simp add: buildSettingsJSON_def)
qed

text \<open>C24: When a channel is opened and its form, which the schema accepts, is saved without an edit, the request is made and
  holds exactly this. There is no key, so the stored one is not overwritten. The name, type, models, tag, remark, test model,
  organisation, the other configuration, the mappings, the overrides and the status are the stored ones, a missing text being sent as an empty
  one or as \<open>null\<close>; a missing priority or weight is sent as 0 and a missing ban flag as 1; the groups are the same list, and the base
  address has lost outer blanks and trailing slashes. The \<open>setting\<close> object is rebuilt: its six known properties have the stored
  values, or their defaults, and every other property is lost. In the \<open>settings\<close> object every property is as
  \<open>resaved_setting\<close> states: those of other channel types are removed, those of the type and of the upstream update are
  normalised, and all unknown ones are kept.\<close>

theorem unedited_save_neutral:
  assumes opened: "transformChannelToFormDefaults c = Inr f" and valid: "channelFormSchema f"
  shows "\<exists>p setting settings. transformFormDataToUpdatePayload f i = Inr p \<and>
    map_of p ''key'' = None \<and> map_of p ''id'' = Some (num_val i) \<and> map_of p ''type'' = Some (num_val (c_type c)) \<and>
    map_of p ''name'' = Some (JStr (c_name c)) \<and> map_of p ''models'' = Some (JStr (c_models c)) \<and>
    map_of p ''tag'' = Some (JStr (or_empty (c_tag c))) \<and> map_of p ''remark'' = Some (JStr (c_remark c)) \<and>
    map_of p ''test_model'' = Some (JStr (or_empty (c_test_model c))) \<and>
    map_of p ''openai_organization'' = Some (JStr (or_empty (c_openai_organization c))) \<and>
    map_of p ''other'' = Some (text_or_null (c_other c)) \<and>
    map_of p ''model_mapping'' = Some (JStr (or_empty (c_model_mapping c))) \<and>
    map_of p ''status_code_mapping'' = Some (JStr (or_empty (c_status_code_mapping c))) \<and>
    map_of p ''param_override'' = Some (JStr (or_empty (c_param_override c))) \<and>
    map_of p ''header_override'' = Some (JStr (or_empty (c_header_override c))) \<and>
    map_of p ''base_url'' = Some (JStr (normalizeBaseUrl (c_base_url c))) \<and>
    map_of p ''priority'' = Some (num_val (opt_int_or (c_priority c) 0)) \<and>
    map_of p ''weight'' = Some (num_val (opt_int_or (c_weight c) 0)) \<and>
    map_of p ''auto_ban'' = Some (num_val (opt_int_or (c_auto_ban c) 1)) \<and> map_of p ''status'' = Some (opt_num (c_status c)) \<and>
    (\<exists>g. map_of p ''group'' = Some (text_or_null g) \<and> parseGroups g = parseGroups (str_or (c_group c) ''default'')) \<and>
    map_of p ''setting'' = Some (JStr setting) \<and>
    (\<forall>k. prop_of (stored_object (Some setting)) k =
       (case map_of EXTRA_SETTINGS k of Some d \<Rightarrow> setting_or (stored_object (c_setting c)) k d | None \<Rightarrow> JUndefined)) \<and>
    map_of p ''settings'' = Some (JStr settings) \<and>
    (\<forall>k. prop_of (stored_object (Some settings)) k = resaved_setting (c_type c) (stored_object (Some (c_settings c))) k)"
proof -
  have v: "schema_fields f" using valid by (simp add: channelFormSchema_def)
  have f: "cf_key f = Some []" "cf_models f = Some (c_models c)" "cf_model_mapping f = Some (or_empty (c_model_mapping c))"
    "cf_status_code_mapping f = Some (or_empty (c_status_code_mapping c))" "fv_name f = c_name c" "fv_type f = c_type c"
    "fv_base_url f = Some (or_empty (c_base_url c))" "fv_group f = parseGroups (str_or (c_group c) ''default'')"
    "fv_priority f = Some (opt_int_or (c_priority c) 0)" "fv_weight f = Some (opt_int_or (c_weight c) 0)"
    "fv_auto_ban f = Some (opt_int_or (c_auto_ban c) 1)" "fv_status f = c_status c" "fv_tag f = Some (or_empty (c_tag c))"
    "fv_remark f = Some (c_remark c)" "fv_param_override f = Some (or_empty (c_param_override c))"
    "fv_header_override f = Some (or_empty (c_header_override c))" "fv_test_model f = Some (or_empty (c_test_model c))"
    "fv_openai_organization f = Some (or_empty (c_openai_organization c))" "fv_other f = Some (c_other c)"
    using opened by (auto simp: transformChannelToFormDefaults_def Let_def split: option.splits)
  have ne: "c_name c \<noteq> []" "c_models c \<noteq> []" using v by (simp_all add: schema_fields_def f)
  obtain kvs where k: "stored_object (Some (c_settings c)) = JObj kvs" "json_ok (JObj kvs)"
    "buildSettingsJSON f = Inr (json_stringify 0 (JObj (settings_entries f kvs)))"
    by (rule opened_settings_object [OF opened v])
  let ?s = "json_stringify 0 (JObj (settings_entries f kvs))"
  obtain p where p: "transformFormDataToUpdatePayload f i = Inr p" using k(3) by (simp add: transformFormDataToUpdatePayload_def Let_def)
  note L = update_payload_lookup [OF p]
  have cleared: "map_of p ''tag'' = Some (JStr (or_empty (c_tag c)))" "map_of p ''remark'' = Some (JStr (c_remark c))"
    "map_of p ''model_mapping'' = Some (JStr (or_empty (c_model_mapping c)))"
    "map_of p ''status_code_mapping'' = Some (JStr (or_empty (c_status_code_mapping c)))"
    "map_of p ''param_override'' = Some (JStr (or_empty (c_param_override c)))"
    "map_of p ''header_override'' = Some (JStr (or_empty (c_header_override c)))"
    "map_of p ''base_url'' = Some (JStr (normalizeBaseUrl (c_base_url c)))"
    "map_of p ''test_model'' = Some (JStr (or_empty (c_test_model c)))"
    "map_of p ''openai_organization'' = Some (JStr (or_empty (c_openai_organization c)))"
    using L(1) by (simp_all add: cleared_to_empty_def f normalizeBaseUrl_def)
  have s: "map_of p k = map_option (\<lambda>v. if v = JStr [] then JNull else v) (map_of (update_entries f i ?s) k)"
    if "k \<notin> fst ` set (cleared_to_empty f)" "k \<noteq> ''key''" for k using L(3) k(3) that by auto
  have rest: "map_of p ''id'' = Some (num_val i)" "map_of p ''type'' = Some (num_val (c_type c))"
    "map_of p ''name'' = Some (JStr (c_name c))" "map_of p ''models'' = Some (JStr (c_models c))"
    "map_of p ''priority'' = Some (num_val (opt_int_or (c_priority c) 0))"
    "map_of p ''weight'' = Some (num_val (opt_int_or (c_weight c) 0))"
    "map_of p ''auto_ban'' = Some (num_val (opt_int_or (c_auto_ban c) 1))" "map_of p ''status'' = Some (opt_num (c_status c))"
    "map_of p ''group'' = Some (text_or_null (formatGroups (fv_group f)))" "map_of p ''other'' = Some (text_or_null (c_other c))"
    "map_of p ''setting'' = Some (JStr (buildSettingJSON f))" "map_of p ''settings'' = Some (JStr ?s)"
    by (subst s; simp add: cleared_to_empty_def update_entries_def f ne text_or_null_def num_val_def opt_num_def
      buildSettingJSON_def stringify_object_not_empty split: option.split)+
  have "parseGroups (formatGroups (fv_group f)) = parseGroups (str_or (c_group c) ''default'')"
    unfolding f by (rule groups_reread)
  then show ?thesis
    using cleared rest L(2) f(1) resaved_extra [OF opened v] resaved_settings [OF opened v k(1,2)] p k(1)
    by (intro exI [of _ p] exI [of _ "buildSettingJSON f"] exI [of _ ?s]) auto
qed

definition opened_form :: ChannelFormValues where
  "opened_form = CHANNEL_FORM_DEFAULT_VALUES
     \<lparr>cf_models := Some ''claude'', fv_name := ''main'', fv_type := 14, fv_base_url := Some ''https://x.org'',
      fv_group := [''default'', ''vip''], fv_priority := Some 3, fv_tag := Some ''t''\<rparr>"

lemma stored_channel_form: "transformChannelToFormDefaults (stored_channel None ''{}'') = Inr opened_form"
proof -
  have j: "stored_object (Some ''{}'') = JObj []" "stored_object None = JObj []"
    "parseGroups ''default, vip'' = [''default'', ''vip'']" by code_simp+
  have p: "setting_or (JObj []) k d = d" "flag_of (JObj []) k = JBool False" "prop_of (JObj []) k = JUndefined" for k d
    by (simp_all add: setting_or_def flag_of_def prop_of_def)
  show ?thesis
    by (simp add: transformChannelToFormDefaults_def stored_channel_def opened_form_def CHANNEL_FORM_DEFAULT_VALUES_def
      str_or_def opt_int_or_def j p)
qed

lemma opened_form_valid: "channelFormSchema opened_form"
proof -
  have "json_parse ''{}'' = Some (JObj [])" by code_simp
  moreover have "trim ''{}'' \<noteq> []" by code_simp
  ultimately show ?thesis
    by (simp add: channelFormSchema_def schema_fields_def schema_issues_def opened_form_def CHANNEL_FORM_DEFAULT_VALUES_def
        or_empty_def isOptionalModelMapping_def isOptionalStatusCodeMapping_def isOptionalJsonObject_def parseOptionalJson_def
        in_enum_def optional_boolean_def optional_string_def optional_enum_def isJsonObjectValue_def)
qed

theorem unedited_save_neutral_witness:
  "\<exists>p. transformFormDataToUpdatePayload opened_form 1 = Inr p \<and> map_of p ''key'' = None \<and> map_of p ''tag'' = Some (JStr ''t'')"
proof -
  obtain p where p: "transformFormDataToUpdatePayload opened_form 1 = Inr p" "map_of p ''key'' = None"
    "map_of p ''tag'' = Some (JStr (or_empty (c_tag (stored_channel None ''{}''))))"
    using unedited_save_neutral [OF stored_channel_form opened_form_valid, of 1] by (elim exE conjE)
  have "or_empty (c_tag (stored_channel None ''{}'')) = ''t''" by (simp add: stored_channel_def or_empty_def)
  with p(3) have "map_of p ''tag'' = Some (JStr ''t'')" by (simp only:)
  with p(1,2) show ?thesis by blast
qed

text \<open>C23: A request is only made for a form that the schema and the submit handler accept. A new channel always carries the
  key that was typed; an update carries a key exactly when one was typed, so saving other fields leaves the stored
  key alone.\<close>

theorem submit_key_safe:
  assumes sent: "submitForm risk ask initial row multi d = Inr (Some r)" and editing: "isEditing initial \<longleftrightarrow> row \<noteq> None"
  shows "channelFormSchema d \<and> collectInvalidStatusCodeEntries (or_empty (cf_status_code_mapping d)) = [] \<and>
    (case r of
       CreateChannel p \<Rightarrow> row = None \<and> trim (or_empty (cf_key d)) \<noteq> [] \<and>
         map_of (cr_channel p) ''key'' = Some (JStr (or_empty (cf_key d)))
     | UpdateChannel i p \<Rightarrow> row = Some i \<and>
         map_of p ''key'' = (if trim (or_empty (cf_key d)) \<noteq> [] then Some (JStr (or_empty (cf_key d))) else None))"
proof -
  have schema: "channelFormSchema d" using sent by (auto simp: submitForm_def split: if_splits)
  obtain form where form: "onSubmit risk ask initial (ChannelForm.truncate d) = Mutate form"
    and m: "mutationFn (isEditing initial) row multi (d\<lparr>cf_models := cf_models form\<rparr>) = Inr r"
    using sent by (auto simp: submitForm_def sbind_Inr_iff split: if_splits submit_outcome.splits)
  note pass = onSubmit_pass [OF form]
  have t: "cf_key (ChannelForm.truncate d) = cf_key d" "cf_status_code_mapping (ChannelForm.truncate d) = cf_status_code_mapping d"
    by (simp_all add: ChannelForm.defs)
  have codes: "collectInvalidStatusCodeEntries (or_empty (cf_status_code_mapping d)) = []"
    using status_code_check_pass [OF conjunct1 [OF pass]] t by simp
  show ?thesis
  proof (cases row)
    case None
    then have "trim (or_empty (cf_key d)) \<noteq> []" using editing form t by (auto simp: onSubmit_def split: if_splits)
    moreover obtain s where "r = CreateChannel \<lparr>cr_mode = str_or (or_empty (fv_multi_key_mode d)) ''single'',
        cr_multi_key_mode = (if str_or (or_empty (fv_multi_key_mode d)) ''single'' = ''multi_to_single'' then fv_multi_key_type d else None),
        cr_batch_add_set_key_prefix_2_name = (if str_or (or_empty (fv_multi_key_mode d)) ''single'' = ''batch''
          then fv_batch_add_set_key_prefix_2_name d else None),
        cr_channel = empty_to_null (create_entries (d\<lparr>cf_models := cf_models form\<rparr>) s)\<rparr>"
      using m None editing by (auto simp: mutationFn_def transformFormDataToCreatePayload_def sbind_Inr_iff Let_def)
    ultimately show ?thesis using schema codes None
      by (auto simp: map_of_empty_to_null create_entries_def)
  next
    case (Some i)
    then obtain p where p: "transformFormDataToUpdatePayload (d\<lparr>cf_models := cf_models form\<rparr>) i = Inr p"
      and r: "r = UpdateChannel i (if multi \<and> or_empty (fv_key_mode d) \<noteq> []
        then obj_set ''key_mode'' (JStr (or_empty (fv_key_mode d))) p else p)"
      using m editing by (auto simp: mutationFn_def sbind_Inr_iff)
    then show ?thesis using schema codes Some update_payload_lookup(2) [OF p] by (auto simp: map_of_obj_set)
  qed
qed

theorem submit_key_safe_witness:
  "\<exists>p. submitForm (\<lambda>_. False) (\<lambda>_. Cancel) \<lparr>isEditing = False, initialModels = [], initialModelMapping = [], initialStatusCodeMapping = []\<rparr>
      None False anthropic_form = Inr (Some (CreateChannel p)) \<and> map_of (cr_channel p) ''key'' = Some (JStr ''sk'')"
proof -
  let ?i = "\<lparr>isEditing = False, initialModels = [], initialModelMapping = [], initialStatusCodeMapping = []\<rparr>"
  have k: "trim ''sk'' \<noteq> []" by code_simp
  let ?d = "anthropic_form\<lparr>cf_models := cf_models (ChannelForm.truncate anthropic_form)\<rparr>"
  have o: "onSubmit (\<lambda>_. False) (\<lambda>_. Cancel) ?i (ChannelForm.truncate anthropic_form) = Mutate (ChannelForm.truncate anthropic_form)"
    using k by (simp add: onSubmit_def status_code_check_def model_mapping_check_def anthropic_form_def
        CHANNEL_FORM_DEFAULT_VALUES_def or_empty_def ChannelForm.defs)
  have "fv_settings ?d = Some ''{}''" by (simp add: anthropic_form_def CHANNEL_FORM_DEFAULT_VALUES_def)
  then obtain s where "buildSettingsJSON ?d = Inr s"
    by (simp add: buildSettingsJSON_def existing_settings_def or_empty_def)
  then obtain p where "transformFormDataToCreatePayload ?d = Inr p"
    by (simp add: transformFormDataToCreatePayload_def Let_def)
  then have p: "submitForm (\<lambda>_. False) (\<lambda>_. Cancel) ?i None False anthropic_form = Inr (Some (CreateChannel p))"
    using anthropic_form_valid o by (simp add: submitForm_def mutationFn_def)
  have "or_empty (cf_key anthropic_form) = ''sk''" by (simp add: anthropic_form_def or_empty_def)
  then show ?thesis using p submit_key_safe [OF p] by auto
qed

text \<open>Printed objects pass the check of an optional object.\<close>

lemma printed_object_accepted:
  assumes "json_ok (JObj kvs)"
  shows "isOptionalJsonObject (Some (json_stringify g (JObj kvs)))"
  using json_parse_stringify_canon [OF assms, of g]
  by (simp add: isOptionalJsonObject_def parseOptionalJson_def or_empty_def isJsonObjectValue_def)

lemma visual_override_accepted:
  assumes "buildVisualJson d = Inr t"
  shows "isOptionalJsonObject (Some t)"
proof -
  have blank: "isOptionalJsonObject (Some [])" by (simp add: isOptionalJsonObject_def parseOptionalJson_def or_empty_def)
  show ?thesis
  proof (cases "dg_visualMode d = VisualLegacy")
    case True
    then have "t = [] \<or> (\<exists>kvs. json_parse (trim (dg_legacyValue d)) = Some (JObj kvs) \<and> t = json_stringify 2 (JObj kvs))"
      using assms by (auto simp: buildVisualJson_def Let_def split: if_splits option.splits jsval.splits)
    then show ?thesis using blank printed_object_accepted json_parse_ok by blast
  next
    case False
    let ?v = "\<lambda>ps. [(''operations'', JArr (map operation_payload ps))]"
    have "t = [] \<or> (\<exists>ps. t = json_stringify 2 (JObj (?v ps)))"
      using assms False by (auto simp: buildVisualJson_def buildOperationsJson_def Let_def split: if_splits option.splits)
    moreover have "json_ok (JObj (?v ps))" for ps using payload_ok by simp
    ultimately show ?thesis using blank printed_object_accepted by blast
  qed
qed

end
