(* ===== verification/NavModules.thy ===== *)
theory NavModules
  imports JsJsonPrint "HOL-Library.Sublist"
begin

text \<open>
  Navigation modules (\<open>lib/nav-modules.ts\<close>, \<open>hooks/use-sidebar-config.ts\<close>, \<open>hooks/use-top-nav-links.ts\<close>) and the guards
  of the routes they protect (\<open>routes/rankings\<close>, \<open>routes/pricing\<close>, \<open>routes/_authenticated/playground\<close>).

  The configuration comes from the status of the server as JSON, so its values are JSON values and every cast of the
  source is a case distinction of the model. The answer of the server, the cached status and the user are
  arguments. Titles, icons and translated labels are carried along as texts.

  The lemmas show that the user's configuration only narrows the administrator's, and relate what the sidebar
  shows to what the guard of the route admits.
\<close>

section \<open>Header modules\<close>

record ModuleAccess =
  enabled :: bool
  requireAuth :: bool

datatype nav_value = NavBool bool | NavAccess ModuleAccess

type_synonym HeaderNavModules = "(string \<times> nav_value) list"

definition DEFAULT_HEADER_NAV_MODULES :: HeaderNavModules where
  "DEFAULT_HEADER_NAV_MODULES =
     [(''home'', NavBool True), (''console'', NavBool True),
      (''pricing'', NavAccess \<lparr>enabled = True, requireAuth = False\<rparr>),
      (''rankings'', NavAccess \<lparr>enabled = True, requireAuth = False\<rparr>), (''docs'', NavBool True), (''about'', NavBool True)]"

definition parseHeaderNavBoolean :: "jsval \<Rightarrow> bool \<Rightarrow> bool" where
  "parseHeaderNavBoolean raw fallback =
     (case raw of
        JBool b \<Rightarrow> b
      | JNum n \<Rightarrow> if js_eq n (Fin 1) then True else if js_eq n (Fin 0) then False else fallback
      | JStr s \<Rightarrow>
          (let normalized = to_lower (trim s) in
           if normalized = ''true'' \<or> normalized = ''1'' then True
           else if normalized = ''false'' \<or> normalized = ''0'' then False
           else fallback)
      | _ \<Rightarrow> fallback)"

definition is_primitive :: "jsval \<Rightarrow> bool" where
  "is_primitive v = (case v of JBool _ \<Rightarrow> True | JNum _ \<Rightarrow> True | JStr _ \<Rightarrow> True | _ \<Rightarrow> False)"

definition parseAccess :: "jsval \<Rightarrow> ModuleAccess \<Rightarrow> ModuleAccess" where
  "parseAccess raw fallback =
     (if is_primitive raw then
        \<lparr>enabled = parseHeaderNavBoolean raw (enabled fallback), requireAuth = requireAuth fallback\<rparr>
      else if truthy raw then
        \<lparr>enabled = parseHeaderNavBoolean (prop_of raw ''enabled'') (enabled fallback),
         requireAuth = parseHeaderNavBoolean (prop_of raw ''requireAuth'') (requireAuth fallback)\<rparr>
      else fallback)"

text \<open>\<open>null\<close> is the absence of a record; a text may parse to a value that is not an object.\<close>

definition parseHeaderNavRecord :: "jsval \<Rightarrow> jsval" where
  "parseHeaderNavRecord raw =
     (if \<not> truthy raw \<or> trim (js_to_string raw) = [] then JNull
      else case raw of
          JObj _ \<Rightarrow> raw
        | JArr _ \<Rightarrow> raw
        | _ \<Rightarrow> (case json_parse (js_to_string raw) of Some v \<Rightarrow> v | None \<Rightarrow> JNull))"

definition access_of :: "nav_value option \<Rightarrow> ModuleAccess" where
  "access_of v = (case v of Some (NavAccess a) \<Rightarrow> a | _ \<Rightarrow> \<lparr>enabled = True, requireAuth = False\<rparr>)"

definition nav_step :: "HeaderNavModules \<Rightarrow> string \<times> jsval \<Rightarrow> HeaderNavModules" where
  "nav_step result e =
     (let (key, value) = e in
      if key = ''pricing'' \<or> key = ''rankings''
      then obj_set key (NavAccess (parseAccess value (access_of (map_of result key)))) result
      else
        let fallback = map_of result key;
            known = (case fallback of Some (NavBool _) \<Rightarrow> True | _ \<Rightarrow> False)
        in if known \<or> is_primitive value
           then obj_set key (NavBool (parseHeaderNavBoolean value (case fallback of Some (NavBool b) \<Rightarrow> b | _ \<Rightarrow> True))) result
           else result)"

definition parseHeaderNavModules :: "jsval \<Rightarrow> HeaderNavModules" where
  "parseHeaderNavModules raw =
     (let parsed = parseHeaderNavRecord raw in
      if \<not> truthy parsed then DEFAULT_HEADER_NAV_MODULES
      else foldl nav_step DEFAULT_HEADER_NAV_MODULES (spread_entries parsed))"

text \<open>\<open>status\<close> is \<open>null\<close> or an object.\<close>

definition parseHeaderNavModulesFromStatus :: "jsval \<Rightarrow> HeaderNavModules" where
  "parseHeaderNavModulesFromStatus status = parseHeaderNavModules (prop_of status ''HeaderNavModules'')"

definition getModuleAccessFromStatus :: "jsval \<Rightarrow> string \<Rightarrow> ModuleAccess" where
  "getModuleAccessFromStatus status moduleKey = access_of (map_of (parseHeaderNavModulesFromStatus status) moduleKey)"

text \<open>The request for the status fails or returns it.\<close>

definition getFreshModuleAccess :: "unit + jsval \<Rightarrow> string \<Rightarrow> ModuleAccess" where
  "getFreshModuleAccess response moduleKey =
     (case response of
        Inr status \<Rightarrow> getModuleAccessFromStatus status moduleKey
      | Inl _ \<Rightarrow> \<lparr>enabled = False, requireAuth = True\<rparr>)"

section \<open>Guards of routes\<close>

datatype guard = Enter | RedirectTo string

definition module_route :: "string \<Rightarrow> unit + jsval \<Rightarrow> bool \<Rightarrow> guard" where
  "module_route moduleKey response signedIn =
     (let access = getFreshModuleAccess response moduleKey in
      if \<not> enabled access then RedirectTo ''/''
      else if requireAuth access \<and> \<not> signedIn then RedirectTo ''/sign-in''
      else Enter)"

text \<open>\<open>cached\<close> is the text stored under \<open>status\<close>, if any.\<close>

definition getCachedStatus :: "string option \<Rightarrow> jsval" where
  "getCachedStatus cached =
     (case cached of
        None \<Rightarrow> JNull
      | Some raw \<Rightarrow> if raw = [] then JNull else (case json_parse raw of Some v \<Rightarrow> v | None \<Rightarrow> JNull))"

definition isSidebarModuleEnabled :: "string option \<Rightarrow> string \<Rightarrow> string \<Rightarrow> bool" where
  "isSidebarModuleEnabled cached sect moduleKey =
     (let status = getCachedStatus cached in
      if \<not> truthy status then True
      else
        let raw = prop_of status ''SidebarModulesAdmin'' in
        if \<not> truthy raw \<or> trim (js_to_string raw) = [] then True
        else case json_parse (js_to_string raw) of
            None \<Rightarrow> True
          | Some parsed \<Rightarrow>
              if parsed = JNull then True
              else
                let sectionConfig = prop_of parsed sect in
                if \<not> truthy sectionConfig then True
                else if prop_of sectionConfig ''enabled'' = JBool False then False
                else prop_of sectionConfig moduleKey \<noteq> JBool False)"

section \<open>Sidebar\<close>

type_synonym SidebarConfig = "(string \<times> jsval) list"

definition sidebar_section :: "string list \<Rightarrow> jsval" where
  "sidebar_section ms = JObj (map (\<lambda>m. (m, JBool True)) (''enabled'' # ms))"

definition DEFAULT_SIDEBAR_MODULES :: SidebarConfig where
  "DEFAULT_SIDEBAR_MODULES =
     [(''chat'', sidebar_section [''playground'', ''chat'']),
      (''console'', sidebar_section [''detail'', ''token'', ''log'', ''midjourney'', ''task'']),
      (''personal'', sidebar_section [''topup'', ''personal'']),
      (''admin'', sidebar_section [''channel'', ''models'', ''redemption'', ''user'', ''setting'', ''subscription'', ''game'',
         ''chatBinding''])]"

text \<open>\<open>{...a, ...b}\<close>.\<close>

definition spread2 :: "jsval \<Rightarrow> jsval \<Rightarrow> (string \<times> jsval) list" where
  "spread2 a b = foldl (\<lambda>acc (k, v). obj_set k v acc) (spread_entries a) (spread_entries b)"

definition fill_undefined :: "(string \<times> jsval) list \<Rightarrow> string \<times> jsval \<Rightarrow> (string \<times> jsval) list" where
  "fill_undefined s e = (if prop_of (JObj s) (fst e) = JUndefined then obj_set (fst e) (snd e) s else s)"

definition merge_section :: "SidebarConfig \<Rightarrow> string \<times> jsval \<Rightarrow> SidebarConfig" where
  "merge_section merged e =
     (let (sectionKey, defaultSection) = e; existingSection = prop_of (JObj merged) sectionKey in
      if \<not> truthy existingSection then obj_set sectionKey defaultSection merged
      else obj_set sectionKey
        (JObj (foldl fill_undefined (spread2 defaultSection existingSection) (spread_entries defaultSection))) merged)"

definition mergeWithDefaultSidebarModules :: "jsval \<Rightarrow> SidebarConfig" where
  "mergeWithDefaultSidebarModules config = foldl merge_section (spread_entries config) DEFAULT_SIDEBAR_MODULES"

definition URL_TO_CONFIG_MAP :: "(string \<times> string \<times> string) list" where
  "URL_TO_CONFIG_MAP =
     [(''/playground'', ''chat'', ''playground''), (''/dashboard'', ''console'', ''detail''),
      (''/dashboard/overview'', ''console'', ''detail''), (''/dashboard/models'', ''console'', ''detail''),
      (''/dashboard/users'', ''console'', ''detail''), (''/keys'', ''console'', ''token''),
      (''/usage-logs'', ''console'', ''log''), (''/usage-logs/common'', ''console'', ''log''),
      (''/usage-logs/drawing'', ''console'', ''midjourney''), (''/usage-logs/task'', ''console'', ''task''),
      (''/wallet'', ''personal'', ''topup''), (''/profile'', ''personal'', ''personal''),
      (''/channels'', ''admin'', ''channel''), (''/models'', ''admin'', ''models''),
      (''/models/metadata'', ''admin'', ''models''), (''/models/deployments'', ''admin'', ''models''),
      (''/users'', ''admin'', ''user''), (''/redemption-codes'', ''admin'', ''redemption''),
      (''/subscriptions'', ''admin'', ''subscription''), (''/system-settings'', ''admin'', ''setting''),
      (''/system-settings/site'', ''admin'', ''setting''),
      (''/api/agent/chatops/bind-page'', ''admin'', ''chatBinding'')]"

definition parseSidebarConfig :: "string option \<Rightarrow> SidebarConfig" where
  "parseSidebarConfig value =
     (case value of
        None \<Rightarrow> DEFAULT_SIDEBAR_MODULES
      | Some t \<Rightarrow>
          if trim t = [] then DEFAULT_SIDEBAR_MODULES
          else case json_parse t of
              Some parsed \<Rightarrow> mergeWithDefaultSidebarModules parsed
            | None \<Rightarrow> DEFAULT_SIDEBAR_MODULES)"

text \<open>\<open>None\<close> is the \<open>null\<close> that does not narrow.\<close>

definition parseUserSidebarConfig :: "string option \<Rightarrow> jsval option" where
  "parseUserSidebarConfig value =
     (case value of
        None \<Rightarrow> None
      | Some t \<Rightarrow>
          if trim t = [] then None
          else case json_parse t of
              Some (JObj kvs) \<Rightarrow> Some (JObj kvs)
            | Some (JArr vs) \<Rightarrow> Some (JArr vs)
            | _ \<Rightarrow> None)"

definition section_allowed :: "SidebarConfig \<Rightarrow> string \<Rightarrow> string \<Rightarrow> bool" where
  "section_allowed adminConfig sect moduleKey =
     (let adminSection = prop_of (JObj adminConfig) sect in
      truthy adminSection \<and> truthy (prop_of adminSection ''enabled'') \<and> prop_of adminSection moduleKey = JBool True)"

definition user_allows :: "jsval option \<Rightarrow> string \<Rightarrow> string \<Rightarrow> bool" where
  "user_allows userConfig sect moduleKey =
     (case userConfig of
        None \<Rightarrow> True
      | Some config \<Rightarrow>
          let userSection = prop_of config sect in
          if \<not> truthy userSection then True
          else if prop_of userSection ''enabled'' = JBool False then False
          else prop_of userSection moduleKey \<noteq> JBool False)"

definition isModuleEnabled :: "string \<Rightarrow> SidebarConfig \<Rightarrow> jsval option \<Rightarrow> bool" where
  "isModuleEnabled url adminConfig userConfig =
     (case map_of URL_TO_CONFIG_MAP url of
        None \<Rightarrow> True
      | Some (sect, moduleKey) \<Rightarrow>
          section_allowed adminConfig sect moduleKey \<and> user_allows userConfig sect moduleKey)"

type_synonym NavSubItem = "string \<times> string"

datatype NavItem =
    NavLink string string "string list option"
  | NavCollapsible string "NavSubItem list"
  | NavChatPresets string

definition isNavItemVisible :: "NavItem \<Rightarrow> SidebarConfig \<Rightarrow> jsval option \<Rightarrow> bool" where
  "isNavItemVisible item adminConfig userConfig =
     (case item of
        NavChatPresets _ \<Rightarrow> section_allowed adminConfig ''chat'' ''chat'' \<and> user_allows userConfig ''chat'' ''chat''
      | NavLink _ url configUrls \<Rightarrow>
          if url = [] then True
          else list_ex (\<lambda>u. isModuleEnabled u adminConfig userConfig) (case configUrls of Some us \<Rightarrow> us | None \<Rightarrow> [url])
      | NavCollapsible _ items \<Rightarrow> list_ex (\<lambda>i. isModuleEnabled (snd i) adminConfig userConfig) items)"

definition filter_sub_items :: "SidebarConfig \<Rightarrow> jsval option \<Rightarrow> NavItem \<Rightarrow> NavItem" where
  "filter_sub_items adminConfig userConfig item =
     (case item of
        NavCollapsible title items \<Rightarrow> NavCollapsible title (filter (\<lambda>i. isModuleEnabled (snd i) adminConfig userConfig) items)
      | _ \<Rightarrow> item)"

definition filterNavItems :: "NavItem list \<Rightarrow> SidebarConfig \<Rightarrow> jsval option \<Rightarrow> NavItem list" where
  "filterNavItems items adminConfig userConfig =
     filter (\<lambda>item. isNavItemVisible item adminConfig userConfig) (map (filter_sub_items adminConfig userConfig) items)"

record NavGroup =
  ng_title :: string
  ng_items :: "NavItem list"

text \<open>\<open>sidebarSettings\<close> is the permission of the user, \<open>undefined\<close> when it is not sent.\<close>

definition useSidebarConfig :: "string option \<Rightarrow> jsval \<Rightarrow> string option \<Rightarrow> NavGroup list \<Rightarrow> NavGroup list" where
  "useSidebarConfig adminText sidebarSettings userText navGroups =
     (let adminConfig = parseSidebarConfig adminText;
          userConfig = (if sidebarSettings = JBool False then None else parseUserSidebarConfig userText)
      in filter (\<lambda>g. ng_items g \<noteq> [])
           (map (\<lambda>g. g\<lparr>ng_items := filterNavItems (ng_items g) adminConfig userConfig\<rparr>) navGroups))"

section \<open>Links in the header\<close>

record TopNavLink =
  tl_title :: string
  tl_href :: string
  tl_requiresAuth :: "bool option"
  tl_external :: bool

definition nav_link :: "string \<Rightarrow> string \<Rightarrow> TopNavLink" where
  "nav_link title href = \<lparr>tl_title = title, tl_href = href, tl_requiresAuth = None, tl_external = False\<rparr>"

definition shown :: "HeaderNavModules \<Rightarrow> string \<Rightarrow> bool" where
  "shown modules k \<longleftrightarrow> map_of modules k \<noteq> Some (NavBool False)"

definition access_link :: "HeaderNavModules \<Rightarrow> bool \<Rightarrow> string \<Rightarrow> string \<Rightarrow> string \<Rightarrow> TopNavLink list" where
  "access_link modules isAuthed moduleKey title href =
     (case map_of modules moduleKey of
        Some (NavAccess a) \<Rightarrow>
          if enabled a then [(nav_link title href)\<lparr>tl_requiresAuth := Some (requireAuth a \<and> \<not> isAuthed)\<rparr>] else []
      | _ \<Rightarrow> [])"

definition useTopNavLinks :: "(string \<Rightarrow> string) \<Rightarrow> jsval \<Rightarrow> bool \<Rightarrow> TopNavLink list" where
  "useTopNavLinks t status isAuthed =
     (let modules = parseHeaderNavModulesFromStatus status; docsLink = prop_of status ''docs_link'' in
      (if shown modules ''home'' then [nav_link (t ''Home'') ''/''] else []) @
      (if shown modules ''console'' then [nav_link (t ''Console'') ''/dashboard''] else []) @
      access_link modules isAuthed ''pricing'' (t ''Model Square'') ''/pricing'' @
      access_link modules isAuthed ''rankings'' (t ''Rankings'') ''/rankings'' @
      (if shown modules ''docs'' then
         [if truthy docsLink then (nav_link (t ''Docs'') (js_to_string docsLink))\<lparr>tl_external := True\<rparr>
          else nav_link (t ''Docs'') ''/docs''] else []) @
      (if shown modules ''about'' then [nav_link (t ''About'') ''/about''] else []))"

section \<open>Header links and guards agree\<close>

definition has_access :: "HeaderNavModules \<Rightarrow> bool" where
  "has_access ms \<longleftrightarrow> (\<forall>k\<in>{''pricing'', ''rankings''}. \<exists>a. map_of ms k = Some (NavAccess a))"

lemma nav_step_access: "has_access ms \<Longrightarrow> has_access (nav_step ms e)"
  by (cases e) (auto simp: has_access_def nav_step_def Let_def map_of_obj_set)

lemma header_access: "has_access (parseHeaderNavModules raw)"
proof -
  have "has_access ms \<Longrightarrow> has_access (foldl nav_step ms es)" for ms es
    by (induction es arbitrary: ms) (simp_all add: nav_step_access)
  moreover have "has_access DEFAULT_HEADER_NAV_MODULES" by (simp add: has_access_def DEFAULT_HEADER_NAV_MODULES_def)
  ultimately show ?thesis by (simp add: parseHeaderNavModules_def Let_def)
qed

text \<open>The header and the routes agree. For the same status, the link to a protected page is shown as usable exactly
  when the guard of the route admits the visitor, whatever the stored configuration is; when the status cannot be
  read the guard admits nobody.\<close>

theorem header_link_guard:
  assumes "(k, href) \<in> {(''pricing'', ''/pricing''), (''rankings'', ''/rankings'')}"
  shows "((\<exists>l\<in>set (useTopNavLinks t status signedIn). tl_href l = href \<and> tl_requiresAuth l = Some False) \<longleftrightarrow>
      module_route k (Inr status) signedIn = Enter) \<and> module_route k (Inl e) signedIn = RedirectTo ''/''"
proof -
  obtain p r where m: "map_of (parseHeaderNavModulesFromStatus status) ''pricing'' = Some (NavAccess p)"
      "map_of (parseHeaderNavModulesFromStatus status) ''rankings'' = Some (NavAccess r)"
    using header_access [of "prop_of status ''HeaderNavModules''"] by (auto simp: has_access_def parseHeaderNavModulesFromStatus_def)
  have "tl_requiresAuth l = Some b \<Longrightarrow> l \<in> set (useTopNavLinks t status signedIn) \<longleftrightarrow>
      l \<in> set (access_link (parseHeaderNavModulesFromStatus status) signedIn ''pricing'' (t ''Model Square'') ''/pricing'' @
        access_link (parseHeaderNavModulesFromStatus status) signedIn ''rankings'' (t ''Rankings'') ''/rankings'')" for l b
    by (auto simp: useTopNavLinks_def nav_link_def Let_def)
  then have "(\<exists>l\<in>set (useTopNavLinks t status signedIn). tl_href l = href \<and> tl_requiresAuth l = Some False) \<longleftrightarrow>
      (\<exists>l\<in>set (access_link (parseHeaderNavModulesFromStatus status) signedIn ''pricing'' (t ''Model Square'') ''/pricing'' @
        access_link (parseHeaderNavModulesFromStatus status) signedIn ''rankings'' (t ''Rankings'') ''/rankings'').
        tl_href l = href \<and> tl_requiresAuth l = Some False)" by blast
  then show ?thesis
    using assms m by (auto simp: access_link_def nav_link_def module_route_def getFreshModuleAccess_def getModuleAccessFromStatus_def
        access_of_def Let_def split: if_splits)
qed

theorem header_link_guard_witness:
  "module_route ''pricing'' (Inr JNull) False = Enter \<and>
   (\<exists>l\<in>set (useTopNavLinks id JNull False). tl_href l = ''/pricing'' \<and> tl_requiresAuth l = Some False)"
proof -
  have "module_route ''pricing'' (Inr JNull) False = Enter"
    by (simp add: module_route_def getFreshModuleAccess_def getModuleAccessFromStatus_def parseHeaderNavModulesFromStatus_def
        parseHeaderNavModules_def parseHeaderNavRecord_def DEFAULT_HEADER_NAV_MODULES_def access_of_def prop_of_def truthy_def)
  then show ?thesis using header_link_guard [of "''pricing''" "''/pricing''" id JNull False] by simp
qed

section \<open>The user's configuration narrows the administrator's\<close>

fun shown_urls :: "NavItem \<Rightarrow> string list" where
  "shown_urls (NavLink _ url _) = [url]"
| "shown_urls (NavCollapsible _ items) = map snd items"
| "shown_urls (NavChatPresets _) = [''chat-presets'']"

definition group_urls :: "NavGroup list \<Rightarrow> string list" where
  "group_urls gs = concat (map (\<lambda>g. concat (map shown_urls (ng_items g))) gs)"

lemma isModuleEnabled_narrow: "isModuleEnabled url a u \<Longrightarrow> isModuleEnabled url a None"
  by (auto simp: isModuleEnabled_def user_allows_def split: option.splits)

lemma isNavItemVisible_narrow: "isNavItemVisible item a u \<Longrightarrow> isNavItemVisible item a None"
  using isModuleEnabled_narrow by (fastforce simp: isNavItemVisible_def list_ex_iff user_allows_def split: NavItem.splits if_splits)

lemma subseq_filter_mono: "(\<And>x. P x \<Longrightarrow> Q x) \<Longrightarrow> subseq (filter P xs) (filter Q xs)"
  by (induction xs) auto

lemma item_urls_narrow:
  assumes "isNavItemVisible (filter_sub_items a u item) a u"
  shows "isNavItemVisible (filter_sub_items a None item) a None"
    "subseq (shown_urls (filter_sub_items a u item)) (shown_urls (filter_sub_items a None item))"
proof -
  show "subseq (shown_urls (filter_sub_items a u item)) (shown_urls (filter_sub_items a None item))"
    using isModuleEnabled_narrow by (cases item) (auto simp: filter_sub_items_def intro!: subseq_map subseq_filter_mono)
  show "isNavItemVisible (filter_sub_items a None item) a None"
  proof (cases item)
    case (NavCollapsible title items)
    then show ?thesis using assms isModuleEnabled_narrow
      by (fastforce simp: filter_sub_items_def isNavItemVisible_def list_ex_iff)
  qed (use assms isNavItemVisible_narrow in \<open>fastforce simp: filter_sub_items_def\<close>)+
qed

lemma items_narrow:
  "subseq (concat (map shown_urls (filterNavItems items a u))) (concat (map shown_urls (filterNavItems items a None)))"
proof (induction items)
  case (Cons item items)
  then show ?case
    using item_urls_narrow [of a u item] by (auto simp: filterNavItems_def intro: list_emb_append_mono list_emb_append2)
qed (simp add: filterNavItems_def)

lemma group_urls_nonempty: "group_urls (filter (\<lambda>g. ng_items g \<noteq> []) gs) = group_urls gs"
  by (induction gs) (auto simp: group_urls_def)

lemma groups_narrow:
  "subseq (group_urls (map (\<lambda>g. g\<lparr>ng_items := filterNavItems (ng_items g) a u\<rparr>) gs))
     (group_urls (map (\<lambda>g. g\<lparr>ng_items := filterNavItems (ng_items g) a None\<rparr>) gs))"
  by (induction gs) (auto simp: group_urls_def intro: list_emb_append_mono items_narrow)

section \<open>Merging with the defaults\<close>

definition plain_key :: "string \<Rightarrow> bool" where
  "plain_key k \<longleftrightarrow> k \<noteq> [] \<and> \<not> is_digit (hd k)"

lemma enumerate_key: "plain_key k \<Longrightarrow> map_of (map (\<lambda>(i, w). (digits_of (int i), f w)) (List.enumerate n vs)) k = None"
proof -
  assume "plain_key k"
  moreover have "is_digit (hd (digits_of (int i)))" for i
    using digits_of_digits [of "int i"] by (cases "digits_of (int i)") (auto simp: list_all_iff)
  ultimately show ?thesis by (auto simp: map_of_eq_None_iff plain_key_def)
qed

text \<open>The own properties of a parsed value, by name.\<close>

lemma map_of_spread:
  assumes "json_ok v" "plain_key k"
  shows "map_of (spread_entries v) k = (if prop_of v k = JUndefined then None else Some (prop_of v k))"
proof (cases v)
  case (JObj kvs)
  then have d: "map_of (obj_entries kvs) = map_of kvs" using assms(1) map_of_obj_entries [of kvs] by simp
  have "w \<noteq> JUndefined" if "map_of kvs k = Some w" for w using that assms(1) JObj by (auto dest!: map_of_SomeD)
  then show ?thesis using JObj d by (auto simp: spread_entries_def prop_of_def split: option.splits)
qed (use assms enumerate_key [of k "\<lambda>w :: jsval. w"] enumerate_key [of k "\<lambda>c. JStr [c]"] in \<open>simp_all add: spread_entries_def prop_of_def\<close>)

lemma map_of_foldl_obj_set:
  "map_of (foldl (\<lambda>acc (k, v). obj_set k v acc) s es) k = (case map_of (rev es) k of Some v \<Rightarrow> Some v | None \<Rightarrow> map_of s k)"
proof (induction es arbitrary: s)
  case (Cons e es)
  then show ?case by (cases e) (simp add: Cons map_of_obj_set map_add_def split: option.split)
qed simp

lemma map_of_rev_None: "map_of xs k = None \<Longrightarrow> map_of (rev xs) k = None"
  by (simp add: map_of_eq_None_iff)

lemma prop_of_JObj: "prop_of (JObj s) k = (case map_of s k of Some w \<Rightarrow> w | None \<Rightarrow> JUndefined)"
  by (simp add: prop_of_def)

lemma map_of_rev_spread:
  assumes "json_ok v" "plain_key k"
  shows "map_of (rev (spread_entries v)) k = map_of (spread_entries v) k"
proof (cases v)
  case (JObj kvs)
  then have "distinct (map fst (obj_entries kvs))" using assms(1) obj_entries_distinct [of kvs] by simp
  then have "map_of (rev (obj_entries kvs)) = map_of (obj_entries kvs)"
    by (subst map_of_inject_set) (simp_all add: rev_map [symmetric])
  then show ?thesis using JObj by (simp add: spread_entries_def)
qed (use enumerate_key [OF assms(2), of "\<lambda>w :: jsval. w"] enumerate_key [OF assms(2), of "\<lambda>c. JStr [c]"] in
  \<open>simp_all add: spread_entries_def map_of_rev_None\<close>)

text \<open>A section of the merged configuration: what is stored wins over the defaults.\<close>

lemma spread2_lookup:
  assumes "json_ok a" "json_ok b" "plain_key k"
  shows "prop_of (JObj (spread2 a b)) k = (if prop_of b k = JUndefined then prop_of a k else prop_of b k)"
  using map_of_spread [OF assms(1,3)] map_of_spread [OF assms(2,3)] map_of_rev_spread [OF assms(2,3)]
  unfolding prop_of_JObj spread2_def map_of_foldl_obj_set by simp

lemma fill_undefined_lookup:
  "prop_of (JObj s) k \<noteq> JUndefined \<Longrightarrow> prop_of (JObj (foldl fill_undefined s es)) k = prop_of (JObj s) k"
proof (induction es arbitrary: s)
  case (Cons e es)
  have "prop_of (JObj (fill_undefined s e)) k = prop_of (JObj s) k"
    using Cons.prems by (auto simp: fill_undefined_def prop_of_def map_of_obj_set split: option.splits)
  then show ?case using Cons by simp
qed simp

lemma merge_section_lookup:
  "prop_of (JObj (merge_section m (s, d))) k =
     (if k \<noteq> s then prop_of (JObj m) k else if \<not> truthy (prop_of (JObj m) s) then d
      else JObj (foldl fill_undefined (spread2 d (prop_of (JObj m) s)) (spread_entries d)))"
  by (simp add: merge_section_def Let_def prop_of_def map_of_obj_set split: option.split)

lemma merged_sections:
  "distinct (map fst ds) \<Longrightarrow> prop_of (JObj (foldl merge_section m ds)) sect =
    (case map_of ds sect of None \<Rightarrow> prop_of (JObj m) sect
     | Some d \<Rightarrow> if \<not> truthy (prop_of (JObj m) sect) then d
         else JObj (foldl fill_undefined (spread2 d (prop_of (JObj m) sect)) (spread_entries d)))"
proof (induction ds arbitrary: m)
  case (Cons e ds)
  obtain s d where e: "e = (s, d)" by (cases e)
  then have "map_of ds s = None" using Cons.prems by (simp add: map_of_eq_None_iff)
  then show ?case using Cons e by (simp add: merge_section_lookup split: option.split)
qed simp

lemma merged_lookup:
  assumes "json_ok parsed" "map_of DEFAULT_SIDEBAR_MODULES sect = Some d" "plain_key sect"
  shows "prop_of (JObj (mergeWithDefaultSidebarModules parsed)) sect =
    (if \<not> truthy (prop_of parsed sect) then d
     else JObj (foldl fill_undefined (spread2 d (prop_of parsed sect)) (spread_entries d)))"
proof -
  have "prop_of (JObj (spread_entries parsed)) sect = prop_of parsed sect"
    using map_of_spread [OF assms(1,3)] by (simp add: prop_of_JObj)
  moreover have "distinct (map fst DEFAULT_SIDEBAR_MODULES)" by (simp add: DEFAULT_SIDEBAR_MODULES_def)
  ultimately show ?thesis using merged_sections assms(2) by (simp add: mergeWithDefaultSidebarModules_def)
qed

text \<open>The modules that decide about entries of the sidebar: those of the known addresses and the chat presets.\<close>

definition governed_modules :: "(string \<times> string) list" where
  "governed_modules = (''chat'', ''chat'') # map snd URL_TO_CONFIG_MAP"

lemma url_governed: "map_of URL_TO_CONFIG_MAP url = Some p \<Longrightarrow> p \<in> set governed_modules"
  by (force simp: governed_modules_def dest: map_of_SomeD)

definition default_entry :: "string \<times> string \<Rightarrow> bool" where
  "default_entry e =
     (let (sect, m) = e in
      plain_key sect \<and> plain_key m \<and>
      (case map_of DEFAULT_SIDEBAR_MODULES sect of
         Some (JObj s) \<Rightarrow> map_of s m = Some (JBool True) \<and> map_of s ''enabled'' = Some (JBool True) \<and>
           distinct (map fst s) \<and> list_all (\<lambda>e. snd e = JBool True) s
       | _ \<Rightarrow> False))"

lemma governed_defaults:
  assumes "(sect, m) \<in> set governed_modules"
  shows "plain_key sect" "plain_key m"
    "\<exists>d. map_of DEFAULT_SIDEBAR_MODULES sect = Some d \<and> json_ok d \<and> truthy d \<and> prop_of d m = JBool True \<and>
       prop_of d ''enabled'' = JBool True"
proof -
  have "list_all default_entry governed_modules" by code_simp
  then have "default_entry (sect, m)" using assms by (simp add: list_all_iff)
  then show "plain_key sect" "plain_key m"
    "\<exists>d. map_of DEFAULT_SIDEBAR_MODULES sect = Some d \<and> json_ok d \<and> truthy d \<and> prop_of d m = JBool True \<and>
       prop_of d ''enabled'' = JBool True"
    by (auto simp: default_entry_def prop_of_def truthy_def list_all_iff split: option.splits jsval.splits)
qed

text \<open>A stored section allows a module unless a value is given that is not a permission.\<close>

definition permits :: "jsval \<Rightarrow> string \<Rightarrow> bool" where
  "permits sec m \<longleftrightarrow> \<not> truthy sec \<or>
     (prop_of sec ''enabled'' = JUndefined \<or> truthy (prop_of sec ''enabled'')) \<and> prop_of sec m \<in> {JUndefined, JBool True}"

lemma json_ok_prop_of: "json_ok v \<Longrightarrow> prop_of v k = JUndefined \<or> json_ok (prop_of v k)"
  by (cases v) (auto simp: prop_of_def split: option.splits dest!: map_of_SomeD)

lemma section_allowed_merged:
  assumes "json_ok parsed" "(sect, m) \<in> set governed_modules"
  shows "section_allowed (mergeWithDefaultSidebarModules parsed) sect m \<longleftrightarrow> permits (prop_of parsed sect) m"
proof -
  note keys = governed_defaults(1,2) [OF assms(2)]
  obtain d where d: "map_of DEFAULT_SIDEBAR_MODULES sect = Some d" "json_ok d" "truthy d" "prop_of d m = JBool True"
    "prop_of d ''enabled'' = JBool True" using governed_defaults(3) [OF assms(2)] by blast
  note M = merged_lookup [OF assms(1) d(1) keys(1)]
  show ?thesis
  proof (cases "truthy (prop_of parsed sect)")
    case False
    then show ?thesis using M d by (simp add: section_allowed_def permits_def truthy_def)
  next
    case True
    let ?e = "prop_of parsed sect"
    have e: "json_ok ?e" using json_ok_prop_of [OF assms(1), of sect] True by (auto simp: truthy_def)
    have en: "plain_key ''enabled''" by (simp add: plain_key_def is_digit_def)
    have L: "prop_of (JObj (foldl fill_undefined (spread2 d ?e) (spread_entries d))) k =
        (if prop_of ?e k = JUndefined then prop_of d k else prop_of ?e k)" if "plain_key k" "prop_of d k \<noteq> JUndefined" for k
      using spread2_lookup [OF d(2) e that(1)] that(2) by (subst fill_undefined_lookup) auto
    then show ?thesis using True M L [OF keys(2)] L [OF en] d by (auto simp: section_allowed_def permits_def truthy_def)
  qed
qed

section \<open>The two layers of the sidebar\<close>

text \<open>The layers, read off the stored texts. The administrator's text, where it is JSON, forbids a module when its section
  is present and either switched off or holds another value than \<open>true\<close> for it. The user's text hides one
  only where its section is present and holds \<open>false\<close> for the whole section or for the module.\<close>

definition admin_permits :: "string option \<Rightarrow> string \<times> string \<Rightarrow> bool" where
  "admin_permits stored p =
     (case stored of
        None \<Rightarrow> True
      | Some t \<Rightarrow> (case json_parse t of None \<Rightarrow> True | Some v \<Rightarrow> permits (prop_of v (fst p)) (snd p)))"

definition user_hides :: "string option \<Rightarrow> string \<times> string \<Rightarrow> bool" where
  "user_hides stored p \<longleftrightarrow>
     (\<exists>t v. stored = Some t \<and> json_parse t = Some v \<and> truthy (prop_of v (fst p)) \<and>
        (prop_of (prop_of v (fst p)) ''enabled'' = JBool False \<or> prop_of (prop_of v (fst p)) (snd p) = JBool False))"

text \<open>The entries of the sidebar: each address, or the chat presets, with the modules one of which has to be
  allowed; \<open>None\<close> stands for an address no module decides about, which is always shown.\<close>

type_synonym nav_entry = "string \<times> (string \<times> string) option list"

fun item_entries :: "NavItem \<Rightarrow> nav_entry list" where
  "item_entries (NavLink _ url configUrls) =
     [(url, if url = [] then [None] else map (map_of URL_TO_CONFIG_MAP) (case configUrls of Some us \<Rightarrow> us | None \<Rightarrow> [url]))]"
| "item_entries (NavCollapsible _ items) = map (\<lambda>i. (snd i, [map_of URL_TO_CONFIG_MAP (snd i)])) items"
| "item_entries (NavChatPresets _) = [(''chat-presets'', [Some (''chat'', ''chat'')])]"

definition group_row :: "NavGroup \<Rightarrow> string \<times> nav_entry list" where
  "group_row g = (ng_title g, concat (map item_entries (ng_items g)))"

definition entry_allowed :: "string option \<Rightarrow> jsval \<Rightarrow> string option \<Rightarrow> nav_entry \<Rightarrow> bool" where
  "entry_allowed adminText s userText e \<longleftrightarrow>
     (\<exists>p\<in>set (snd e). p = None \<or>
        admin_permits adminText (the p) \<and> (s = JBool False \<or> \<not> user_hides userText (the p)))"

lemma section_allowed_admin:
  assumes "p \<in> set governed_modules"
  shows "section_allowed (parseSidebarConfig stored) (fst p) (snd p) \<longleftrightarrow> admin_permits stored p"
proof -
  have g: "(fst p, snd p) \<in> set governed_modules" using assms by simp
  have default: "section_allowed DEFAULT_SIDEBAR_MODULES (fst p) (snd p)"
    using governed_defaults(3) [OF g] by (auto simp: section_allowed_def prop_of_JObj truthy_def)
  show ?thesis
  proof (cases "\<exists>t v. stored = Some t \<and> json_parse t = Some v")
    case True
    then obtain t v where t: "stored = Some t" "json_parse t = Some v" by blast
    moreover have "trim t \<noteq> []" using t(2) blank_not_json by auto
    ultimately show ?thesis
      using section_allowed_merged [OF json_parse_ok g] by (simp add: parseSidebarConfig_def admin_permits_def)
  next
    case False
    then have "parseSidebarConfig stored = DEFAULT_SIDEBAR_MODULES" "admin_permits stored p"
      by (auto simp: parseSidebarConfig_def admin_permits_def split: option.split)
    then show ?thesis using default by simp
  qed
qed

lemma user_allows_hides: "user_allows (parseUserSidebarConfig stored) (fst p) (snd p) \<longleftrightarrow> \<not> user_hides stored p"
proof (cases "\<exists>t v. stored = Some t \<and> json_parse t = Some v")
  case True
  then obtain t v where t: "stored = Some t" "json_parse t = Some v" by blast
  moreover have "trim t \<noteq> []" using t(2) blank_not_json by auto
  ultimately show ?thesis
    by (cases v) (auto simp: user_allows_def parseUserSidebarConfig_def user_hides_def Let_def prop_of_def truthy_def)
next
  case False
  then have "parseUserSidebarConfig stored = None" "\<not> user_hides stored p"
    by (auto simp: parseUserSidebarConfig_def user_hides_def split: option.splits)
  then show ?thesis by (simp add: user_allows_def)
qed

text \<open>Both layers together, as the code combines them.\<close>

definition overlay :: "jsval \<Rightarrow> string option \<Rightarrow> jsval option" where
  "overlay s userText = (if s = JBool False then None else parseUserSidebarConfig userText)"

lemma module_layers:
  assumes "p \<in> set governed_modules"
  shows "section_allowed (parseSidebarConfig adminText) (fst p) (snd p) \<and> user_allows (overlay s userText) (fst p) (snd p) \<longleftrightarrow>
    admin_permits adminText p \<and> (s = JBool False \<or> \<not> user_hides userText p)"
proof (cases "s = JBool False")
  case True
  then show ?thesis using section_allowed_admin [OF assms] by (simp add: overlay_def user_allows_def)
next
  case False
  then show ?thesis using section_allowed_admin [OF assms] user_allows_hides by (simp add: overlay_def)
qed

lemma isModuleEnabled_layers:
  "isModuleEnabled url (parseSidebarConfig adminText) (overlay s userText) \<longleftrightarrow>
     entry_allowed adminText s userText (u, [map_of URL_TO_CONFIG_MAP url])"
proof (cases "map_of URL_TO_CONFIG_MAP url")
  case None
  then show ?thesis by (simp add: isModuleEnabled_def entry_allowed_def)
next
  case (Some p)
  then show ?thesis using module_layers [OF url_governed [OF Some]]
    by (cases p) (simp add: isModuleEnabled_def entry_allowed_def)
qed

lemma entry_allowed_some:
  "entry_allowed adminText s userText (u, map f us) \<longleftrightarrow> list_ex (\<lambda>x. entry_allowed adminText s userText (u, [f x])) us"
  by (auto simp: entry_allowed_def list_ex_iff)

text \<open>An item that is kept keeps exactly its allowed entries; one that is dropped had none.\<close>

lemma item_entries_filtered:
  fixes adminText s userText
  defines "a \<equiv> parseSidebarConfig adminText" and "u \<equiv> overlay s userText"
  shows "(if isNavItemVisible (filter_sub_items a u item) a u then item_entries (filter_sub_items a u item) else []) =
      filter (entry_allowed adminText s userText) (item_entries item)"
    and "isNavItemVisible (filter_sub_items a u item) a u \<Longrightarrow> item_entries (filter_sub_items a u item) \<noteq> []"
proof -
  note L = isModuleEnabled_layers [where adminText = adminText and s = s and userText = userText, folded a_def u_def]
  have chat: "section_allowed a ''chat'' ''chat'' \<and> user_allows u ''chat'' ''chat'' \<longleftrightarrow>
      entry_allowed adminText s userText (''chat-presets'', [Some (''chat'', ''chat'')])"
    using module_layers [of "(''chat'', ''chat'')" adminText s userText]
    by (simp add: governed_modules_def entry_allowed_def a_def u_def)
  have none: "entry_allowed adminText s userText (x, [None])" for x by (simp add: entry_allowed_def)
  show "(if isNavItemVisible (filter_sub_items a u item) a u then item_entries (filter_sub_items a u item) else []) =
      filter (entry_allowed adminText s userText) (item_entries item)"
  proof (cases item)
    case (NavLink title url configUrls)
    then show ?thesis
      using L [where u = url] none
      by (simp add: filter_sub_items_def isNavItemVisible_def entry_allowed_some split: option.split)
  next
    case (NavCollapsible title items)
    have "filter (entry_allowed adminText s userText) (map (\<lambda>i. (snd i, [map_of URL_TO_CONFIG_MAP (snd i)])) items) =
        map (\<lambda>i. (snd i, [map_of URL_TO_CONFIG_MAP (snd i)])) (filter (\<lambda>i. isModuleEnabled (snd i) a u) items)"
      using L by (simp add: filter_map comp_def)
    then show ?thesis using NavCollapsible
      by (auto simp: filter_sub_items_def isNavItemVisible_def list_ex_iff filter_empty_conv)
  next
    case (NavChatPresets title)
    then show ?thesis using chat by (simp add: filter_sub_items_def isNavItemVisible_def)
  qed
  show "isNavItemVisible (filter_sub_items a u item) a u \<Longrightarrow> item_entries (filter_sub_items a u item) \<noteq> []"
    by (cases item) (fastforce simp: filter_sub_items_def isNavItemVisible_def list_ex_iff filter_empty_conv)+
qed

lemma items_entries_filtered:
  fixes adminText s userText
  defines "a \<equiv> parseSidebarConfig adminText" and "u \<equiv> overlay s userText"
  shows "concat (map item_entries (filterNavItems items a u)) =
      filter (entry_allowed adminText s userText) (concat (map item_entries items))"
    and "concat (map item_entries (filterNavItems items a u)) = [] \<longleftrightarrow> filterNavItems items a u = []"
proof -
  note F = item_entries_filtered [where adminText = adminText and s = s and userText = userText, folded a_def u_def]
  show "concat (map item_entries (filterNavItems items a u)) =
      filter (entry_allowed adminText s userText) (concat (map item_entries items))"
  proof (induction items)
    case (Cons item items)
    then show ?case using F(1) [of item] by (auto simp: filterNavItems_def split: if_splits)
  qed (simp add: filterNavItems_def)
  show "concat (map item_entries (filterNavItems items a u)) = [] \<longleftrightarrow> filterNavItems items a u = []"
    using F(2) by (auto simp: filterNavItems_def filter_empty_conv)
qed

text \<open>C26: The sidebar shows exactly what both layers of the stored configuration allow, group by group and in the given
  order: an entry is shown when one of its modules is permitted by the administrator's text and, unless the user may not
  configure the sidebar, not hidden by the user's; entries without a module are always shown, and a group is shown
  exactly when one of its entries is. A text that is missing or not JSON restricts nothing. So a user's configuration never shows more
  than the administrator's alone.\<close>

theorem sidebar_user_narrows:
  "map group_row (useSidebarConfig adminText s userText gs) =
     filter (\<lambda>row. snd row \<noteq> [])
       (map (\<lambda>g. map_prod id (filter (entry_allowed adminText s userText)) (group_row g)) gs) \<and>
   subseq (group_urls (useSidebarConfig adminText s userText gs)) (group_urls (useSidebarConfig adminText s None gs))"
proof -
  let ?a = "parseSidebarConfig adminText" and ?u = "overlay s userText"
  note F = items_entries_filtered [where adminText = adminText and s = s and userText = userText]
  have "group_row (g\<lparr>ng_items := filterNavItems (ng_items g) ?a ?u\<rparr>) =
      map_prod id (filter (entry_allowed adminText s userText)) (group_row g)" for g
    by (simp add: group_row_def F(1))
  moreover have "filterNavItems (ng_items g) ?a ?u \<noteq> [] \<longleftrightarrow>
      snd (map_prod id (filter (entry_allowed adminText s userText)) (group_row g)) \<noteq> []" for g
    unfolding F(2) [symmetric] F(1) by (simp add: group_row_def)
  ultimately have "map group_row (useSidebarConfig adminText s userText gs) =
      filter (\<lambda>row. snd row \<noteq> []) (map (\<lambda>g. map_prod id (filter (entry_allowed adminText s userText)) (group_row g)) gs)"
    unfolding useSidebarConfig_def Let_def overlay_def [symmetric] by (induction gs) auto
  moreover have "(if s = JBool False then None else parseUserSidebarConfig None) = None" by (simp add: parseUserSidebarConfig_def)
  then have "subseq (group_urls (useSidebarConfig adminText s userText gs)) (group_urls (useSidebarConfig adminText s None gs))"
    using groups_narrow [of ?a ?u gs] by (simp add: useSidebarConfig_def group_urls_nonempty overlay_def)
  ultimately show ?thesis by blast
qed

section \<open>What the sidebar shows, the guard admits\<close>

definition boolean_or_absent :: "jsval \<Rightarrow> bool" where
  "boolean_or_absent v = (case v of JUndefined \<Rightarrow> True | JBool _ \<Rightarrow> True | _ \<Rightarrow> False)"

lemma guard_admits:
  assumes "json_parse c = Some status" "prop_of status ''SidebarModulesAdmin'' = JStr t" "c \<noteq> []"
    and "trim t \<noteq> []" "json_parse t = Some parsed"
  shows "isSidebarModuleEnabled (Some c) sect m \<longleftrightarrow>
    \<not> truthy (prop_of parsed sect) \<or>
    prop_of (prop_of parsed sect) ''enabled'' \<noteq> JBool False \<and> prop_of (prop_of parsed sect) m \<noteq> JBool False"
proof -
  have "t \<noteq> []" using assms(4) by auto
  moreover have "truthy status" using assms(2) by (cases status) (auto simp: prop_of_def truthy_def)
  moreover have "prop_of JNull k = JUndefined" for k by (simp add: prop_of_def)
  ultimately show ?thesis using assms
    by (auto simp: isSidebarModuleEnabled_def getCachedStatus_def Let_def truthy_def)
qed

text \<open>C27: The sidebar and the guard of a route read the same configuration. A page whose link is shown is never
  refused by the guard; and as long as the stored section holds only booleans, the guard admits exactly the pages the
  administrator's configuration shows.\<close>

theorem sidebar_guard_agree:
  assumes "map_of URL_TO_CONFIG_MAP url = Some (sect, m)" "c \<noteq> []" "json_parse c = Some status"
    and "prop_of status ''SidebarModulesAdmin'' = JStr t" "json_parse t = Some parsed"
  shows "(isModuleEnabled url (parseSidebarConfig (Some t)) u \<longrightarrow> isSidebarModuleEnabled (Some c) sect m) \<and>
    (boolean_or_absent (prop_of (prop_of parsed sect) ''enabled'') \<longrightarrow> boolean_or_absent (prop_of (prop_of parsed sect) m) \<longrightarrow>
       (isSidebarModuleEnabled (Some c) sect m \<longleftrightarrow> isModuleEnabled url (parseSidebarConfig (Some t)) None))"
proof -
  have t: "trim t \<noteq> []" using assms(5) blank_not_json by auto
  have "section_allowed (parseSidebarConfig (Some t)) sect m \<longleftrightarrow> permits (prop_of parsed sect) m"
    using section_allowed_merged [OF json_parse_ok [OF assms(5)] url_governed [OF assms(1)]] t assms(5) by (simp add: parseSidebarConfig_def)
  then have v: "isModuleEnabled url (parseSidebarConfig (Some t)) w \<longleftrightarrow> permits (prop_of parsed sect) m \<and> user_allows w sect m" for w
    using assms(1) by (simp add: isModuleEnabled_def)
  note g = guard_admits [OF assms(3,4,2) t assms(5), of sect m]
  show ?thesis
    unfolding v g by (auto simp: permits_def boolean_or_absent_def user_allows_def truthy_def split: jsval.splits)
qed

definition admin_value :: "jsval \<Rightarrow> jsval" where
  "admin_value v = JObj [(''chat'', JObj [(''playground'', v)])]"

definition admin_text :: "jsval \<Rightarrow> string" where
  "admin_text v = json_stringify 0 (admin_value v)"

definition status_text :: "jsval \<Rightarrow> string" where
  "status_text v = json_stringify 0 (JObj [(''SidebarModulesAdmin'', JStr (admin_text v))])"

lemma sample_status:
  assumes "json_ok v" "json_canon v = v"
  shows "json_parse (admin_text v) = Some (admin_value v)" "status_text v \<noteq> []"
    "\<exists>status. json_parse (status_text v) = Some status \<and> prop_of status ''SidebarModulesAdmin'' = JStr (admin_text v)"
proof -
  have k: "obj_entries [(s, w)] = [(s, w)]" if "\<not> is_array_index s" for s and w :: jsval using that by (simp add: obj_entries_def)
  have i: "\<not> is_array_index ''chat''" "\<not> is_array_index ''playground''" "\<not> is_array_index ''SidebarModulesAdmin''"
    by (simp_all add: is_array_index_def is_digit_def)
  have "json_parse (admin_text v) = Some (json_canon (admin_value v))"
    unfolding admin_text_def by (rule json_parse_stringify_canon) (use assms(1) in \<open>simp add: admin_value_def\<close>)
  then show "json_parse (admin_text v) = Some (admin_value v)" using assms(2) by (simp add: admin_value_def k i)
  have s: "json_parse (status_text v) = Some (json_canon (JObj [(''SidebarModulesAdmin'', JStr (admin_text v))]))"
    unfolding status_text_def by (rule json_parse_stringify_canon) simp
  then show "\<exists>status. json_parse (status_text v) = Some status \<and> prop_of status ''SidebarModulesAdmin'' = JStr (admin_text v)"
    by (simp add: k i prop_of_def)
  have "json_parse [] = None" by code_simp
  then show "status_text v \<noteq> []" using s by auto
qed

theorem sidebar_guard_agree_witness:
  "\<not> isSidebarModuleEnabled (Some (status_text (JBool False))) ''chat'' ''playground'' \<and>
   \<not> isModuleEnabled ''/playground'' (parseSidebarConfig (Some (admin_text (JBool False)))) None"
proof -
  have v: "json_ok (JBool False)" "json_canon (JBool False) = JBool False" by simp_all
  note S = sample_status [OF v]
  obtain status where st: "json_parse (status_text (JBool False)) = Some status"
    "prop_of status ''SidebarModulesAdmin'' = JStr (admin_text (JBool False))" using S(3) by blast
  have url: "map_of URL_TO_CONFIG_MAP ''/playground'' = Some (''chat'', ''playground'')" by (simp add: URL_TO_CONFIG_MAP_def)
  have p: "prop_of (prop_of (admin_value (JBool False)) ''chat'') ''enabled'' = JUndefined"
    "prop_of (prop_of (admin_value (JBool False)) ''chat'') ''playground'' = JBool False" "truthy (prop_of (admin_value (JBool False)) ''chat'')"
    by (simp_all add: admin_value_def prop_of_def truthy_def)
  have "trim (admin_text (JBool False)) \<noteq> []" using S(1) blank_not_json by auto
  then have "\<not> isSidebarModuleEnabled (Some (status_text (JBool False))) ''chat'' ''playground''"
    using guard_admits [OF st S(2) _ S(1)] p by simp
  then show ?thesis using sidebar_guard_agree [OF url S(2) st S(1)] p by (simp add: boolean_or_absent_def)
qed

text \<open>A number in place of the boolean hides the link and leaves the route open.\<close>

lemma number_hides_only:
  "isSidebarModuleEnabled (Some (status_text (JNum (Fin 0)))) ''chat'' ''playground''"
  "\<not> isModuleEnabled ''/playground'' (parseSidebarConfig (Some (admin_text (JNum (Fin 0))))) None"
proof -
  have v: "json_ok (JNum (Fin 0))" "json_canon (JNum (Fin 0)) = JNum (Fin 0)" by simp_all
  note S = sample_status [OF v]
  obtain status where st: "json_parse (status_text (JNum (Fin 0))) = Some status"
    "prop_of status ''SidebarModulesAdmin'' = JStr (admin_text (JNum (Fin 0)))" using S(3) by blast
  have url: "map_of URL_TO_CONFIG_MAP ''/playground'' = Some (''chat'', ''playground'')" by (simp add: URL_TO_CONFIG_MAP_def)
  have t: "trim (admin_text (JNum (Fin 0))) \<noteq> []" using S(1) blank_not_json by auto
  show "isSidebarModuleEnabled (Some (status_text (JNum (Fin 0)))) ''chat'' ''playground''"
    using guard_admits [OF st S(2) t S(1)] by (simp add: admin_value_def prop_of_def)
  show "\<not> isModuleEnabled ''/playground'' (parseSidebarConfig (Some (admin_text (JNum (Fin 0))))) None"
    using section_allowed_merged [OF json_parse_ok [OF S(1)] url_governed [OF url]] t S(1)
    by (simp add: isModuleEnabled_def url parseSidebarConfig_def permits_def admin_value_def prop_of_def truthy_def)
qed

end
