(* ===== verification/TableUrlState.thy ===== *)
theory TableUrlState
  imports JsFormat
begin

text \<open>
  Table state in the address (\<open>hooks/use-table-url-state.ts\<close>): pagination, a global filter and column filters of a
  table, kept in the search parameters of the page.

  The search parameters are an association list; a parameter set to \<open>undefined\<close> reads like an absent one. Numbers are
  binary64 numbers. The transformers of a column are functions of its configuration. A change handler is called with the new
  value; the form with an updater computes it from the current one first. Every navigation replaces the parameters, and
  the effect on them, which reads the column filters again, runs when a parameter has changed. A navigation that does
  not come from the table (the back button, a link, the filter bar of the usage logs) is an event of its own. The columns of the usage
  logs (\<open>features/usage-logs/components/usage-logs-table.tsx\<close>), the only ones with a transformer, are an instance.

  The lemmas show that the filters of the table are those of the address in every reachable state, that a page is read
  back as it was set, and that correcting a page that is out of range takes one navigation.
\<close>

section \<open>Configuration\<close>

type_synonym SearchRecord = "(string \<times> jsval) list"

record ColumnFilterCfg =
  columnId :: string
  searchKey :: string
  filterType :: "string option"
  serialize :: "jsval \<Rightarrow> jsval"
  deserialize :: "jsval \<Rightarrow> jsval"

record UseTableUrlStateParams =
  up_pageKey :: "string option"
  up_pageSizeKey :: "string option"
  up_defaultPage :: "jsnum option"
  up_defaultPageSize :: "jsnum option"
  up_globalFilterEnabled :: "bool option"
  up_globalFilterKey :: "string option"
  up_trimGlobal :: "bool option"
  up_columnFilters :: "ColumnFilterCfg list"

definition pageKey :: "UseTableUrlStateParams \<Rightarrow> string" where
  "pageKey p = nullish (up_pageKey p) ''page''"

definition pageSizeKey :: "UseTableUrlStateParams \<Rightarrow> string" where
  "pageSizeKey p = nullish (up_pageSizeKey p) ''pageSize''"

definition defaultPage :: "UseTableUrlStateParams \<Rightarrow> jsnum" where
  "defaultPage p = nullish (up_defaultPage p) (Fin 1)"

definition defaultPageSize :: "UseTableUrlStateParams \<Rightarrow> jsnum" where
  "defaultPageSize p = nullish (up_defaultPageSize p) (Fin 20)"

definition globalFilterKey :: "UseTableUrlStateParams \<Rightarrow> string" where
  "globalFilterKey p = nullish (up_globalFilterKey p) ''filter''"

definition globalFilterEnabled :: "UseTableUrlStateParams \<Rightarrow> bool" where
  "globalFilterEnabled p = nullish (up_globalFilterEnabled p) True"

definition trimGlobal :: "UseTableUrlStateParams \<Rightarrow> bool" where
  "trimGlobal p = nullish (up_trimGlobal p) True"

section \<open>Reading the parameters\<close>

type_synonym ColumnFiltersState = "(string \<times> jsval) list"

record PaginationState =
  pageIndex :: jsnum
  pageSize :: jsnum

definition search_value :: "SearchRecord \<Rightarrow> string \<Rightarrow> jsval" where
  "search_value s k = (case map_of s k of Some v \<Rightarrow> v | None \<Rightarrow> JUndefined)"

text \<open>The value of a filter that counts: a string that is not blank, or an array that is not empty.\<close>

definition filter_value :: "ColumnFilterCfg \<Rightarrow> jsval \<Rightarrow> jsval option" where
  "filter_value cfg v =
     (if filterType cfg = Some ''string'' then
        (case v of JStr s \<Rightarrow> if trim s \<noteq> [] then Some (JStr s) else None | _ \<Rightarrow> None)
      else
        (case v of JArr vs \<Rightarrow> if vs \<noteq> [] then Some (JArr vs) else None | _ \<Rightarrow> None))"

definition initialColumnFilters :: "ColumnFilterCfg list \<Rightarrow> SearchRecord \<Rightarrow> ColumnFiltersState" where
  "initialColumnFilters cfgs search =
     List.map_filter (\<lambda>cfg. map_option (\<lambda>v. (columnId cfg, v))
       (filter_value cfg (deserialize cfg (search_value search (searchKey cfg))))) cfgs"

definition number_or :: "jsval \<Rightarrow> jsnum \<Rightarrow> jsnum" where
  "number_or v d = (case v of JNum n \<Rightarrow> n | _ \<Rightarrow> d)"

definition pagination :: "UseTableUrlStateParams \<Rightarrow> SearchRecord \<Rightarrow> PaginationState" where
  "pagination p search =
     (let pageNum = number_or (search_value search (pageKey p)) (defaultPage p);
          pageSizeNum = number_or (search_value search (pageSizeKey p)) (defaultPageSize p)
      in \<lparr>pageIndex = js_max (Fin 0) (js_sub pageNum (Fin 1)), pageSize = pageSizeNum\<rparr>)"

definition initialGlobalFilter :: "UseTableUrlStateParams \<Rightarrow> SearchRecord \<Rightarrow> string option" where
  "initialGlobalFilter p search =
     (if \<not> globalFilterEnabled p then None
      else Some (case search_value search (globalFilterKey p) of JStr s \<Rightarrow> s | _ \<Rightarrow> []))"

section \<open>State and handlers\<close>

record TableState =
  ts_search :: SearchRecord
  ts_columnFilters :: ColumnFiltersState
  ts_globalFilter :: "string option"

definition openTable :: "UseTableUrlStateParams \<Rightarrow> SearchRecord \<Rightarrow> TableState" where
  "openTable p search =
     \<lparr>ts_search = search, ts_columnFilters = initialColumnFilters (up_columnFilters p) search,
      ts_globalFilter = initialGlobalFilter p search\<rparr>"

text \<open>Two addresses are the same to the router when every parameter has the same value; a parameter that is
  \<open>undefined\<close> is not in the address.\<close>

definition same_search :: "SearchRecord \<Rightarrow> SearchRecord \<Rightarrow> bool" where
  "same_search s s' = list_all (\<lambda>k. search_value s k = search_value s' k) (map fst s @ map fst s')"

text \<open>A navigation and the effect on the search parameters.\<close>

definition navigate :: "UseTableUrlStateParams \<Rightarrow> SearchRecord \<Rightarrow> TableState \<Rightarrow> TableState" where
  "navigate p search' st =
     (if same_search search' (ts_search st) then st
      else st\<lparr>ts_search := search', ts_columnFilters := initialColumnFilters (up_columnFilters p) search'\<rparr>)"

definition onPaginationChange :: "UseTableUrlStateParams \<Rightarrow> PaginationState \<Rightarrow> TableState \<Rightarrow> TableState" where
  "onPaginationChange p nxt st =
     (let nextPage = js_add (pageIndex nxt) (Fin 1) in
      navigate p (obj_set (pageSizeKey p) (JNum (pageSize nxt))
        (obj_set (pageKey p) (if js_le nextPage (defaultPage p) then JUndefined else JNum nextPage) (ts_search st))) st)"

definition onGlobalFilterChange :: "UseTableUrlStateParams \<Rightarrow> string \<Rightarrow> TableState \<Rightarrow> TableState" where
  "onGlobalFilterChange p nxt st =
     (if \<not> globalFilterEnabled p then st
      else
        let value = (if trimGlobal p then trim nxt else nxt) in
        navigate p (obj_set (globalFilterKey p) (if value \<noteq> [] then JStr value else JUndefined)
          (obj_set (pageKey p) JUndefined (ts_search st))) (st\<lparr>ts_globalFilter := Some value\<rparr>))"

text \<open>The parameter of a column filter.\<close>

definition filter_param :: "ColumnFiltersState \<Rightarrow> ColumnFilterCfg \<Rightarrow> jsval" where
  "filter_param nxt cfg =
     (case Option.bind (map_of nxt (columnId cfg)) (filter_value cfg) of Some v \<Rightarrow> serialize cfg v | None \<Rightarrow> JUndefined)"

definition column_patch :: "ColumnFilterCfg list \<Rightarrow> ColumnFiltersState \<Rightarrow> SearchRecord \<Rightarrow> SearchRecord" where
  "column_patch cfgs nxt search = foldl (\<lambda>s cfg. obj_set (searchKey cfg) (filter_param nxt cfg) s) search cfgs"

definition onColumnFiltersChange :: "UseTableUrlStateParams \<Rightarrow> ColumnFiltersState \<Rightarrow> TableState \<Rightarrow> TableState" where
  "onColumnFiltersChange p nxt st =
     navigate p (column_patch (up_columnFilters p) nxt (obj_set (pageKey p) JUndefined (ts_search st)))
       (st\<lparr>ts_columnFilters := nxt\<rparr>)"

definition ensurePageInRange :: "UseTableUrlStateParams \<Rightarrow> jsnum \<Rightarrow> bool \<Rightarrow> TableState \<Rightarrow> TableState" where
  "ensurePageInRange p pageCount resetToLast st =
     (let pageNum = number_or (search_value (ts_search st) (pageKey p)) (defaultPage p) in
      if js_lt (Fin 0) pageCount \<and> js_lt pageCount pageNum
      then navigate p (obj_set (pageKey p) (if resetToLast then JNum pageCount else JUndefined) (ts_search st)) st
      else st)"

section \<open>Events\<close>

datatype TableEvent =
    SetPagination PaginationState
  | SetGlobalFilter string
  | SetColumnFilters ColumnFiltersState
  | EnsurePage jsnum bool
  | Navigated SearchRecord

fun table_event :: "UseTableUrlStateParams \<Rightarrow> TableEvent \<Rightarrow> TableState \<Rightarrow> TableState" where
  "table_event p (SetPagination nxt) st = onPaginationChange p nxt st"
| "table_event p (SetGlobalFilter nxt) st = onGlobalFilterChange p nxt st"
| "table_event p (SetColumnFilters nxt) st = onColumnFiltersChange p nxt st"
| "table_event p (EnsurePage pageCount resetToLast) st = ensurePageInRange p pageCount resetToLast st"
| "table_event p (Navigated search') st = navigate p search' st"

definition table_run :: "UseTableUrlStateParams \<Rightarrow> SearchRecord \<Rightarrow> TableEvent list \<Rightarrow> TableState" where
  "table_run p search es = foldl (\<lambda>st e. table_event p e st) (openTable p search) es"

text \<open>The component corrects the page in an effect: again after every navigation, until nothing changes.\<close>

partial_function (option) settle_page :: "UseTableUrlStateParams \<Rightarrow> jsnum \<Rightarrow> bool \<Rightarrow> TableState \<Rightarrow> TableState option" where
  "settle_page p pageCount resetToLast st =
     (let st' = ensurePageInRange p pageCount resetToLast st in
      if st' = st then Some st else settle_page p pageCount resetToLast st')"

section \<open>Filters of the table and of the address\<close>

definition shown_filters :: "ColumnFilterCfg list \<Rightarrow> ColumnFiltersState \<Rightarrow> ColumnFiltersState" where
  "shown_filters cfgs fs =
     List.map_filter (\<lambda>cfg. map_option (\<lambda>v. (columnId cfg, v)) (Option.bind (map_of fs (columnId cfg)) (filter_value cfg))) cfgs"

text \<open>The columns have different names and parameters, and an absent parameter is no filter.\<close>

definition good_params :: "UseTableUrlStateParams \<Rightarrow> bool" where
  "good_params p \<longleftrightarrow>
     distinct (map columnId (up_columnFilters p)) \<and> distinct (map searchKey (up_columnFilters p)) \<and>
     list_all (\<lambda>cfg. filter_value cfg (deserialize cfg JUndefined) = None) (up_columnFilters p)"

text \<open>The table may set a filter that its column reads back from the parameter it writes.\<close>

definition rereads :: "ColumnFilterCfg \<Rightarrow> jsval \<Rightarrow> bool" where
  "rereads cfg v \<longleftrightarrow>
     (case filter_value cfg v of None \<Rightarrow> True | Some w \<Rightarrow> filter_value cfg (deserialize cfg (serialize cfg w)) = Some w)"

fun admissible :: "UseTableUrlStateParams \<Rightarrow> TableEvent \<Rightarrow> bool" where
  "admissible p (SetColumnFilters nxt) =
     list_all (\<lambda>cfg. case map_of nxt (columnId cfg) of None \<Rightarrow> True | Some v \<Rightarrow> rereads cfg v) (up_columnFilters p)"
| "admissible p _ = True"

lemma same_search_iff: "same_search s s' \<longleftrightarrow> search_value s = search_value s'"
proof
  assume same: "same_search s s'"
  show "search_value s = search_value s'"
  proof
    fix k
    show "search_value s k = search_value s' k"
    proof (cases "k \<in> fst ` set s \<union> fst ` set s'")
      case True
      then show ?thesis using same by (auto simp: same_search_def list_all_iff)
    next
      case False
      then have "map_of s k = None" "map_of s' k = None" by (simp_all add: map_of_eq_None_iff)
      then show ?thesis by (simp add: search_value_def)
    qed
  qed
qed (simp add: same_search_def list_all_iff)

lemma initialColumnFilters_cong:
  "search_value s = search_value s' \<Longrightarrow> initialColumnFilters cfgs s = initialColumnFilters cfgs s'"
  by (simp add: initialColumnFilters_def)

lemma navigate_search [simp]: "search_value (ts_search (navigate p s st)) = search_value s"
  by (simp add: navigate_def same_search_iff)

lemma filter_value_idem: "filter_value cfg v = Some w \<Longrightarrow> filter_value cfg w = Some w"
  by (auto simp: filter_value_def split: if_splits jsval.splits)

lemma map_filter_cong: "(\<And>x. x \<in> set xs \<Longrightarrow> f x = g x) \<Longrightarrow> List.map_filter f xs = List.map_filter g xs"
  by (induction xs) (auto simp: List.map_filter_simps split: option.split)

lemma search_value_set: "search_value (obj_set k v s) k' = (if k' = k then v else search_value s k')"
  by (simp add: search_value_def map_of_obj_set)

lemma search_value_patch:
  "distinct (map searchKey cfgs) \<Longrightarrow> cfg \<in> set cfgs \<Longrightarrow> search_value (column_patch cfgs nxt s) (searchKey cfg) = filter_param nxt cfg"
proof (induction cfgs arbitrary: s)
  case (Cons c cfgs)
  have other: "search_value (column_patch ds nxt s) k = search_value s k" if "k \<notin> searchKey ` set ds" for ds s k
    using that by (induction ds arbitrary: s) (auto simp: column_patch_def search_value_set)
  show ?case
  proof (cases "cfg = c")
    case True
    have "searchKey c \<notin> searchKey ` set cfgs" using Cons.prems(1) by simp
    then show ?thesis using True other [of "searchKey c" cfgs] by (simp add: column_patch_def search_value_set)
  next
    case False
    then have "cfg \<in> set cfgs" "distinct (map searchKey cfgs)" using Cons.prems by auto
    then show ?thesis using Cons.IH [of "obj_set (searchKey c) (filter_param nxt c) s"] by (simp add: column_patch_def)
  qed
qed simp

text \<open>The filters read from the parameters that were written are the filters that were set.\<close>

lemma filters_reread:
  assumes "good_params p" and nxt: "admissible p (SetColumnFilters nxt)"
  shows "initialColumnFilters (up_columnFilters p) (column_patch (up_columnFilters p) nxt s) = shown_filters (up_columnFilters p) nxt"
  unfolding initialColumnFilters_def shown_filters_def
proof (rule map_filter_cong)
  fix cfg assume cfg: "cfg \<in> set (up_columnFilters p)"
  have v: "search_value (column_patch (up_columnFilters p) nxt s) (searchKey cfg) = filter_param nxt cfg"
    using assms cfg by (intro search_value_patch) (auto simp: good_params_def)
  have g: "filter_value cfg (deserialize cfg JUndefined) = None"
      "\<And>v w. map_of nxt (columnId cfg) = Some v \<Longrightarrow> filter_value cfg v = Some w \<Longrightarrow>
         filter_value cfg (deserialize cfg (serialize cfg w)) = Some w"
    using assms cfg by (auto simp: good_params_def list_all_iff rereads_def split: option.splits)
  have "filter_value cfg (deserialize cfg (filter_param nxt cfg)) = Option.bind (map_of nxt (columnId cfg)) (filter_value cfg)"
    using g by (cases "Option.bind (map_of nxt (columnId cfg)) (filter_value cfg)")
      (auto simp: filter_param_def bind_eq_Some_conv)
  then show "map_option (\<lambda>v. (columnId cfg, v)) (filter_value cfg (deserialize cfg
      (search_value (column_patch (up_columnFilters p) nxt s) (searchKey cfg)))) =
    map_option (\<lambda>v. (columnId cfg, v)) (Option.bind (map_of nxt (columnId cfg)) (filter_value cfg))" unfolding v by simp
qed

lemma shown_read: 
  assumes "distinct (map columnId cfgs)"
  shows "shown_filters cfgs (initialColumnFilters cfgs s) = initialColumnFilters cfgs s"
proof -
  let ?f = "\<lambda>cfg. filter_value cfg (deserialize cfg (search_value s (searchKey cfg)))"
  have m: "map_of (initialColumnFilters cs s) (columnId cfg) = ?f cfg"
    if "distinct (map columnId cs)" "cfg \<in> set cs" for cs cfg
    using that
  proof (induction cs)
    case (Cons c cs)
    have none: "map_of (initialColumnFilters ds s) k = None" if "k \<notin> columnId ` set ds" for ds k
      using that by (induction ds) (auto simp: initialColumnFilters_def List.map_filter_simps split: option.splits)
    have step: "initialColumnFilters (c # cs) s =
        (case ?f c of Some v \<Rightarrow> [(columnId c, v)] | None \<Rightarrow> []) @ initialColumnFilters cs s"
      by (simp add: initialColumnFilters_def List.map_filter_simps split: option.splits)
    show ?case
    proof (cases "cfg = c")
      case True
      then show ?thesis using Cons.prems none [of "columnId c" cs] step by (auto split: option.splits)
    next
      case False
      then have "cfg \<in> set cs" "columnId cfg \<noteq> columnId c" using Cons.prems by (auto simp: image_iff)
      then show ?thesis using Cons step by (auto split: option.splits)
    qed
  qed simp
  have "Option.bind (?f cfg) (filter_value cfg) = ?f cfg" for cfg
    using filter_value_idem by (cases "?f cfg") auto
  then have "shown_filters cfgs (initialColumnFilters cfgs s) = List.map_filter (\<lambda>cfg. map_option (\<lambda>v. (columnId cfg, v)) (?f cfg)) cfgs"
    unfolding shown_filters_def using m [OF assms] by (intro map_filter_cong) simp
  then show ?thesis by (simp add: initialColumnFilters_def)
qed

definition synced :: "UseTableUrlStateParams \<Rightarrow> TableState \<Rightarrow> bool" where
  "synced p st \<longleftrightarrow>
     shown_filters (up_columnFilters p) (ts_columnFilters st) = initialColumnFilters (up_columnFilters p) (ts_search st)"

lemma navigate_synced:
  assumes "good_params p"
    and "search_value (ts_search st) = search_value search' \<Longrightarrow> synced p st"
  shows "synced p (navigate p search' st)"
  using assms shown_read by (auto simp: synced_def navigate_def good_params_def same_search_iff)

lemma event_synced:
  assumes good: "good_params p" and ok: "admissible p e" and sync: "synced p st"
  shows "synced p (table_event p e st)"
proof (cases e)
  case (SetColumnFilters nxt)
  let ?s = "obj_set (pageKey p) JUndefined (ts_search st)"
  have "initialColumnFilters (up_columnFilters p) s = shown_filters (up_columnFilters p) nxt"
    if "search_value s = search_value (column_patch (up_columnFilters p) nxt ?s)" for s
    using initialColumnFilters_cong [OF that] filters_reread [OF good ok [unfolded SetColumnFilters], of ?s] by simp
  then show ?thesis unfolding SetColumnFilters table_event.simps onColumnFiltersChange_def
    by (intro navigate_synced [OF good]) (simp add: synced_def)
next
  case (SetGlobalFilter t)
  have "synced p (st\<lparr>ts_globalFilter := g\<rparr>)" for g using sync by (simp add: synced_def)
  then show ?thesis using SetGlobalFilter sync by (auto simp: onGlobalFilterChange_def Let_def intro!: navigate_synced [OF good])
qed (use sync in \<open>auto simp: onPaginationChange_def ensurePageInRange_def Let_def intro!: navigate_synced [OF good]\<close>)

section \<open>The usage logs\<close>

definition LOG_TYPE_ALL_VALUE :: string where "LOG_TYPE_ALL_VALUE = ''0''"

definition deserializeLogTypeFilter :: "jsval \<Rightarrow> jsval" where
  "deserializeLogTypeFilter value =
     (let items = (case value of JArr vs \<Rightarrow> vs | _ \<Rightarrow> if truthy value then [value] else [])
      in JArr (filter (\<lambda>item. js_to_string item \<noteq> LOG_TYPE_ALL_VALUE) items))"

definition string_column :: "string \<Rightarrow> string \<Rightarrow> ColumnFilterCfg" where
  "string_column column key =
     \<lparr>columnId = column, searchKey = key, filterType = Some ''string'', serialize = (\<lambda>v. v), deserialize = (\<lambda>v. v)\<rparr>"

definition usage_logs_params :: "bool \<Rightarrow> bool \<Rightarrow> UseTableUrlStateParams" where
  "usage_logs_params isAdmin isMobile =
     \<lparr>up_pageKey = None, up_pageSizeKey = None, up_defaultPage = Some (Fin 1),
      up_defaultPageSize = Some (Fin (if isMobile then 20 else 100)),
      up_globalFilterEnabled = Some False, up_globalFilterKey = None, up_trimGlobal = None,
      up_columnFilters =
        [\<lparr>columnId = ''created_at'', searchKey = ''type'', filterType = Some ''array'',
          serialize = (\<lambda>v. v), deserialize = deserializeLogTypeFilter\<rparr>,
         string_column ''model_name'' ''model'', string_column ''token_name'' ''token'', string_column ''group'' ''group''] @
        (if isAdmin then [string_column ''channel'' ''channel'', string_column ''username'' ''username''] else [])\<rparr>"

lemma rereads_plain: "serialize cfg = (\<lambda>v. v) \<Longrightarrow> deserialize cfg = (\<lambda>v. v) \<Longrightarrow> rereads cfg v"
  by (auto simp: rereads_def dest: filter_value_idem split: option.split)

text \<open>The usage logs satisfy the conditions; their table may set every list of types without the value for all types.\<close>

lemma usage_logs_good: "good_params (usage_logs_params isAdmin isMobile)"
  by (cases isAdmin)
    (simp_all add: good_params_def usage_logs_params_def string_column_def filter_value_def deserializeLogTypeFilter_def truthy_def)

lemma usage_logs_admissible:
  assumes "\<forall>vs. map_of nxt ''created_at'' = Some (JArr vs) \<longrightarrow> LOG_TYPE_ALL_VALUE \<notin> js_to_string ` set vs"
  shows "admissible (usage_logs_params isAdmin isMobile) (SetColumnFilters nxt)"
proof -
  have "rereads (string_column c k) v" for c k v by (simp add: rereads_plain string_column_def)
  moreover have "rereads \<lparr>columnId = ''created_at'', searchKey = ''type'', filterType = Some ''array'',
      serialize = (\<lambda>v. v), deserialize = deserializeLogTypeFilter\<rparr> v" if v: "map_of nxt ''created_at'' = Some v" for v
  proof (cases v)
    case (JArr vs)
    then have "filter (\<lambda>item. js_to_string item \<noteq> LOG_TYPE_ALL_VALUE) vs = vs"
      using assms v by (force simp: filter_id_conv)
    then show ?thesis using JArr by (simp add: rereads_def filter_value_def deserializeLogTypeFilter_def)
  qed (simp_all add: rereads_def filter_value_def)
  ultimately show ?thesis
    by (auto simp: usage_logs_params_def list_all_iff string_column_def split: option.split)
qed

text \<open>C28: The address is the source of the column filters: after every sequence of events of a table (changes of
  its filters, its global filter and its page, corrections of the page and navigations from outside) the filters that count are exactly
  the filters of the address. The columns have to have distinct names and parameters, and every filter the table sets
  itself has to be one that its column reads back from the parameter: every filter of a column without transformers is, and
  for the log types of the usage logs, whose transformer drops the value for all types, every list without that value
  (\<open>usage_logs_admissible\<close>). Navigations from outside, as of their filter bar, may hold any value.\<close>

theorem table_filters_synced:
  assumes "good_params p" "list_all (admissible p) es"
  shows "shown_filters (up_columnFilters p) (ts_columnFilters (table_run p search es)) =
    initialColumnFilters (up_columnFilters p) (ts_search (table_run p search es))"
proof -
  have "synced p (openTable p search)"
    using assms(1) shown_read by (simp add: synced_def openTable_def good_params_def)
  moreover have "synced p st \<Longrightarrow> synced p (foldl (\<lambda>st e. table_event p e st) st es)" for st
    using assms(2)
  proof (induction es arbitrary: st)
    case (Cons e es)
    then show ?case using event_synced [OF assms(1), of e st] by simp
  qed simp
  ultimately show ?thesis unfolding table_run_def synced_def by blast
qed

definition sample_events :: "TableEvent list" where
  "sample_events =
     [Navigated [(''type'', JArr [JStr ''0''])], SetColumnFilters [(''created_at'', JArr [JStr ''2'']), (''model_name'', JStr ''gpt'')]]"

theorem table_filters_synced_witness:
  "(let p = usage_logs_params False True; st = table_run p [] sample_events in
    shown_filters (up_columnFilters p) (ts_columnFilters st) =
      [(''created_at'', JArr [JStr ''2'']), (''model_name'', JStr ''gpt'')] \<and>
    initialColumnFilters (up_columnFilters p) (ts_search st) =
      [(''created_at'', JArr [JStr ''2'']), (''model_name'', JStr ''gpt'')])"
proof -
  let ?p = "usage_logs_params False True"
  have ok: "list_all (admissible ?p) sample_events"
    using usage_logs_admissible [of "[(''created_at'', JArr [JStr ''2'']), (''model_name'', JStr ''gpt'')]" False True]
    by (simp add: sample_events_def LOG_TYPE_ALL_VALUE_def)
  have "initialColumnFilters (up_columnFilters ?p) (ts_search (table_run ?p [] sample_events)) =
      [(''created_at'', JArr [JStr ''2'']), (''model_name'', JStr ''gpt'')]" by code_simp
  then show ?thesis using table_filters_synced [OF usage_logs_good ok, of "[]"] by (simp add: Let_def)
qed

text \<open>A table that sets the value for all types itself, with that value already in the address, keeps a filter the
  address does not have.\<close>

lemma all_types_desync:
  "(let p = usage_logs_params False True;
        st = table_run p [(''type'', JArr [JStr ''0''])] [SetColumnFilters [(''created_at'', JArr [JStr ''0''])]]
    in shown_filters (up_columnFilters p) (ts_columnFilters st) = [(''created_at'', JArr [JStr ''0''])] \<and>
       initialColumnFilters (up_columnFilters p) (ts_search st) = [])"
  by code_simp

section \<open>Pages\<close>

definition status_column :: ColumnFilterCfg where
  "status_column = \<lparr>columnId = ''status'', searchKey = ''status'', filterType = Some ''array'', serialize = (\<lambda>v. v), deserialize = (\<lambda>v. v)\<rparr>"

definition channels_params :: UseTableUrlStateParams where
  "channels_params =
     \<lparr>up_pageKey = None, up_pageSizeKey = None, up_defaultPage = Some (Fin 1), up_defaultPageSize = Some (Fin 20),
      up_globalFilterEnabled = Some True, up_globalFilterKey = Some ''filter'', up_trimGlobal = None,
      up_columnFilters = [status_column]\<rparr>"


lemma int_sum: "int i + 1 \<le> 2 ^ 53 \<Longrightarrow> js_add (Fin (of_nat i)) (Fin 1) = Fin (of_nat i + 1)"
  using fround_int [of "int i + 1"] by simp

lemma int_pred: "int i + 1 \<le> 2 ^ 53 \<Longrightarrow> js_sub (Fin (of_nat i + 1)) (Fin 1) = Fin (of_nat i)"
  using fround_int [of "int i"] by (simp add: js_sub_def)

text \<open>A page that is set is the page that is read back from the address, with its size, for tables that start on
  the first page; setting a filter or the global filter goes back to the first page.\<close>

theorem page_roundtrip:
  assumes "pageKey p \<noteq> pageSizeKey p" "defaultPage p = Fin 1" "int i < 2 ^ 53"
  shows "pagination p (ts_search (onPaginationChange p \<lparr>pageIndex = Fin (of_nat i), pageSize = n\<rparr> st)) =
      \<lparr>pageIndex = Fin (of_nat i), pageSize = n\<rparr> \<and>
    (pageKey p \<notin> searchKey ` set (up_columnFilters p) \<longrightarrow>
      pageIndex (pagination p (ts_search (onColumnFiltersChange p fs st))) = Fin 0) \<and>
    (globalFilterEnabled p \<longrightarrow> pageKey p \<noteq> globalFilterKey p \<longrightarrow>
      pageIndex (pagination p (ts_search (onGlobalFilterChange p t st))) = Fin 0)"
proof -
  have zero: "js_sub (Fin 1) (Fin 1) = Fin 0" using int_pred [of 0] by simp
  have max0: "js_max (Fin 0) (Fin 0) = Fin 0" "js_max (Fin 0) (Fin (of_nat i)) = Fin (of_nat i)"
    by (simp_all add: js_max_def)
  have "int i + 1 \<le> 2 ^ 53" using assms(3) by simp
  note arith = int_sum [OF this] int_pred [OF this]
  have first: "search_value (column_patch cfgs fs s) k = search_value s k" if "k \<notin> searchKey ` set cfgs" for cfgs s k
    using that by (induction cfgs arbitrary: s) (auto simp: column_patch_def search_value_set)
  have "js_le (Fin (of_nat i + 1)) (Fin 1) \<longleftrightarrow> i = 0" by (auto simp: js_le_def js_eq_def)
  then have "pagination p (ts_search (onPaginationChange p \<lparr>pageIndex = Fin (of_nat i), pageSize = n\<rparr> st)) =
      \<lparr>pageIndex = Fin (of_nat i), pageSize = n\<rparr>"
    using assms arith zero max0
    by (cases "i = 0") (auto simp: onPaginationChange_def pagination_def search_value_set number_or_def Let_def)
  moreover have "pageIndex (pagination p (ts_search (onColumnFiltersChange p fs st))) = Fin 0"
    if "pageKey p \<notin> searchKey ` set (up_columnFilters p)"
    using that assms zero max0 first by (simp add: onColumnFiltersChange_def pagination_def search_value_set number_or_def Let_def)
  moreover have "pageIndex (pagination p (ts_search (onGlobalFilterChange p t st))) = Fin 0"
    if "globalFilterEnabled p" "pageKey p \<noteq> globalFilterKey p"
    using that assms zero max0 by (simp add: onGlobalFilterChange_def pagination_def search_value_set number_or_def Let_def)
  ultimately show ?thesis by blast
qed

theorem page_roundtrip_witness:
  "pagination channels_params (ts_search (onPaginationChange channels_params \<lparr>pageIndex = Fin 2, pageSize = Fin 50\<rparr>
     (openTable channels_params []))) = \<lparr>pageIndex = Fin 2, pageSize = Fin 50\<rparr>"
proof -
  have "pageKey channels_params \<noteq> pageSizeKey channels_params" "defaultPage channels_params = Fin 1"
    by (simp_all add: channels_params_def pageKey_def pageSizeKey_def defaultPage_def nullish_def)
  from page_roundtrip [OF this, of 2] show ?thesis by simp
qed

text \<open>The page the address stands for.\<close>

definition current_page :: "UseTableUrlStateParams \<Rightarrow> TableState \<Rightarrow> jsnum" where
  "current_page p st = number_or (search_value (ts_search st) (pageKey p)) (defaultPage p)"

lemma not_js_lt_self: "\<not> js_lt n n"
  by (cases n) auto

lemma ensurePageInRange_idem:
  "ensurePageInRange p n toLast (ensurePageInRange p n toLast st) = ensurePageInRange p n toLast st"
proof (cases "js_lt (Fin 0) n \<and> js_lt n (current_page p st)")
  case True
  let ?s = "obj_set (pageKey p) (if toLast then JNum n else JUndefined) (ts_search st)"
  define t where "t = navigate p ?s st"
  have st': "ensurePageInRange p n toLast st = t"
    using True by (simp add: t_def ensurePageInRange_def current_page_def Let_def)
  have page: "current_page p t = (if toLast then n else defaultPage p)"
    by (simp add: t_def current_page_def search_value_set number_or_def)
  have same: "same_search (obj_set (pageKey p) JUndefined (ts_search t)) (ts_search t)" if "\<not> toLast"
    using that by (simp add: t_def same_search_iff fun_eq_iff search_value_set)
  have "ensurePageInRange p n toLast t =
      (if js_lt (Fin 0) n \<and> js_lt n (current_page p t)
       then navigate p (obj_set (pageKey p) (if toLast then JNum n else JUndefined) (ts_search t)) t else t)"
    by (simp add: ensurePageInRange_def current_page_def Let_def)
  then have "ensurePageInRange p n toLast t = t"
    using page same not_js_lt_self [of n] by (cases toLast) (simp_all add: navigate_def)
  then show ?thesis unfolding st' .
next
  case False
  then have "ensurePageInRange p n toLast st = st" unfolding ensurePageInRange_def current_page_def Let_def by (rule if_not_P)
  then show ?thesis by simp
qed

text \<open>C29: The effect that corrects a page out of range ends with exactly one correction: running it again changes
  nothing any more. When there are pages and the current page is past the last one, the page becomes the last page, or the default
  page if it is reset to the first, and every other parameter is kept. Otherwise, in particular when there are
  no pages, the state is left as it is.\<close>

theorem settle_page_ends:
  "\<exists>st'. settle_page p pageCount resetToLast st = Some st' \<and>
     (\<forall>n. (ensurePageInRange p pageCount resetToLast ^^ Suc n) st = st') \<and>
     (if js_lt (Fin 0) pageCount \<and> js_lt pageCount (current_page p st)
      then current_page p st' = (if resetToLast then pageCount else defaultPage p) \<and>
        (\<forall>k. k = pageKey p \<or> search_value (ts_search st') k = search_value (ts_search st) k)
      else st' = st)"
proof -
  let ?f = "ensurePageInRange p pageCount resetToLast"
  note idem = ensurePageInRange_idem [of p pageCount resetToLast st]
  have "settle_page p pageCount resetToLast (?f st) = Some (?f st)"
    by (subst settle_page.simps) (simp add: idem Let_def)
  then have "settle_page p pageCount resetToLast st = Some (?f st)"
    by (subst settle_page.simps) (simp add: Let_def)
  moreover have "(?f ^^ Suc n) st = ?f st" for n by (induction n) (simp_all add: idem)
  moreover have "if js_lt (Fin 0) pageCount \<and> js_lt pageCount (current_page p st)
      then current_page p (?f st) = (if resetToLast then pageCount else defaultPage p) \<and>
        (\<forall>k. k = pageKey p \<or> search_value (ts_search (?f st)) k = search_value (ts_search st) k)
      else ?f st = st"
    by (simp add: ensurePageInRange_def current_page_def Let_def search_value_set number_or_def)
  ultimately show ?thesis by blast
qed

theorem settle_page_ends_witness:
  "\<exists>st'. settle_page channels_params (Fin 3) True (openTable channels_params [(''page'', JNum (Fin 9))]) = Some st' \<and>
     current_page channels_params st' = Fin 3"
proof -
  have "js_lt (Fin 0) (Fin 3) \<and> js_lt (Fin 3) (current_page channels_params (openTable channels_params [(''page'', JNum (Fin 9))]))"
    by code_simp
  then show ?thesis
    using settle_page_ends [of channels_params "Fin 3" True "openTable channels_params [(''page'', JNum (Fin 9))]"] by auto
qed

text \<open>The global filter is only read when the table is opened: a navigation from outside leaves the old one.\<close>

lemma global_filter_stale:
  "ts_globalFilter (table_event p (Navigated search') st) = ts_globalFilter st"
  by (simp add: navigate_def)

end
