(* ===== verification/Notifications.thy ===== *)
theory Notifications
  imports JsJsonPrint "HOL-Library.Word"
begin

text \<open>
  The notification centre: the store of what the user has read
  (\<open>web/default/src/stores/notification-store.ts\<close>) and the hook that shows the notice and the
  announcements (\<open>web/default/src/hooks/use-notifications.ts\<close>).

  The store is a record. The hook is a state machine over the store, the open popover, the active
  tab and the text that \<open>localStorage\<close> keeps under the key of the forced popups; its events are the
  handlers it returns, the arrival of new data and the mounting of a new instance. A run of the hook
  that raises is a value of the error type. An announcement is a record of unknown fields and stays
  a value of \<open>JsJson\<close>. The key of an announcement without an id is a 32-bit hash, computed as the
  code computes it: the shift and \<open>| 0\<close> act on the 32 low bits and read them as a signed number, the
  subtraction and the addition are exact because their results stay below \<open>2 ^ 53\<close>.
\<close>

section \<open>The store\<close>

record NotificationState =
  lastReadNotice :: string
  readAnnouncementKeys :: "string list"
  closedUntilDate :: "string option"

definition initial_store :: NotificationState where
  "initial_store = \<lparr>lastReadNotice = [], readAnnouncementKeys = [], closedUntilDate = None\<rparr>"

definition markNoticeRead :: "string \<Rightarrow> NotificationState \<Rightarrow> NotificationState" where
  "markNoticeRead noticeContent st = st\<lparr>lastReadNotice := trim noticeContent\<rparr>"

definition markAnnouncementsRead :: "string list \<Rightarrow> NotificationState \<Rightarrow> NotificationState" where
  "markAnnouncementsRead keys st = st\<lparr>readAnnouncementKeys := uniq (readAnnouncementKeys st @ keys)\<rparr>"

definition setClosedUntilDate :: "string option \<Rightarrow> NotificationState \<Rightarrow> NotificationState" where
  "setClosedUntilDate date st = st\<lparr>closedUntilDate := date\<rparr>"

definition isAnnouncementRead :: "NotificationState \<Rightarrow> string \<Rightarrow> bool" where
  "isAnnouncementRead st key = (key \<in> set (readAnnouncementKeys st))"

text \<open>The argument is \<open>new Date().toDateString()\<close> at the time of the call.\<close>

definition isNoticeClosed :: "string \<Rightarrow> NotificationState \<Rightarrow> bool" where
  "isNoticeClosed today st =
     (case closedUntilDate st of None \<Rightarrow> False | Some d \<Rightarrow> if d = [] then False else d = today)"

section \<open>Forced popups\<close>

datatype hook_error = TypeError

definition normalizeBoolean :: "jsval \<Rightarrow> bool" where
  "normalizeBoolean v = (v = JBool True \<or> v = JStr ''true'' \<or> v = JNum (Fin 1) \<or> v = JStr ''1'')"

definition isForcePopupAnnouncement :: "jsval \<Rightarrow> bool" where
  "isForcePopupAnnouncement item =
     (normalizeBoolean (prop_of item ''forcePopup'') \<or>
      normalizeBoolean (prop_of item ''force_popup'') \<or>
      normalizeBoolean (prop_of item ''forced''))"

text \<open>The argument is what \<open>localStorage.getItem\<close> returns.\<close>

definition getForcePopupSeenKeys :: "string option \<Rightarrow> jsval" where
  "getForcePopupSeenKeys raw =
     (case json_parse (case raw of None \<Rightarrow> ''[]'' | Some s \<Rightarrow> str_or s ''[]'') of
        Some v \<Rightarrow> v
      | None \<Rightarrow> JArr [])"

text \<open>\<open>[...v]\<close>: arrays and strings are iterable, the other values of JSON are not.\<close>

definition iterate :: "jsval \<Rightarrow> hook_error + jsval list" where
  "iterate v = (case v of JArr vs \<Rightarrow> Inr vs | JStr s \<Rightarrow> Inr (map (\<lambda>c. JStr [c]) s) | _ \<Rightarrow> Inl TypeError)"

text \<open>\<open>v.includes(key)\<close>.\<close>

definition includes_key :: "jsval \<Rightarrow> string \<Rightarrow> hook_error + bool" where
  "includes_key v key =
     (case v of JArr vs \<Rightarrow> Inr (JStr key \<in> set vs) | JStr s \<Rightarrow> Inr (str_includes key s) | _ \<Rightarrow> Inl TypeError)"

text \<open>\<open>new Set(vs)\<close>: two objects are never the same element.\<close>

definition is_reference :: "jsval \<Rightarrow> bool" where
  "is_reference v = (case v of JArr _ \<Rightarrow> True | JObj _ \<Rightarrow> True | _ \<Rightarrow> False)"

fun value_set :: "jsval list \<Rightarrow> jsval list" where
  "value_set [] = []"
| "value_set (v # vs) = v # filter (\<lambda>w. w \<noteq> v \<or> is_reference w) (value_set vs)"

definition markForcePopupSeen :: "string \<Rightarrow> string option \<Rightarrow> hook_error + string option" where
  "markForcePopupSeen key raw =
     (if key = [] then Inr raw
      else sbind (iterate (getForcePopupSeenKeys raw)) (\<lambda>seenKeys.
        Inr (Some (json_stringify 0 (JArr (value_set (seenKeys @ [JStr key])))))))"

section \<open>The key of an announcement\<close>

text \<open>\<open>i | 0\<close> and \<open>i << n\<close>.\<close>

definition to_int32 :: "int \<Rightarrow> int" where
  "to_int32 i = sint (word_of_int i :: 32 word)"

definition shift_left32 :: "int \<Rightarrow> nat \<Rightarrow> int" where
  "shift_left32 i n = sint (push_bit n (word_of_int i :: 32 word))"

definition hash_step :: "int \<Rightarrow> char \<Rightarrow> int" where
  "hash_step hash chr = to_int32 (shift_left32 hash 5 - hash + of_char chr)"

text \<open>\<open>n.toString(36)\<close> of an integer.\<close>

definition char36 :: "nat \<Rightarrow> char" where
  "char36 d = (if d < 10 then char_of (48 + d) else char_of (87 + d))"

function digits36 :: "int \<Rightarrow> string" where
  "digits36 n =
     (if n < 36 then [char36 (nat n)] else digits36 (n div 36) @ [char36 (nat (n mod 36))])"
  by pat_completeness auto
termination
  by (relation "measure nat") auto

declare digits36.simps [simp del]

definition to_string36 :: "int \<Rightarrow> string" where
  "to_string36 i = (if i < 0 then ''-'' @ digits36 (- i) else digits36 i)"

definition hashString :: "string \<Rightarrow> string" where
  "hashString input = (if input = [] then ''0'' else to_string36 (foldl hash_step 0 input))"

definition trimmed_field :: "jsval \<Rightarrow> string \<Rightarrow> hook_error + jsval" where
  "trimmed_field item name =
     (case value_or (prop_of item name) (JStr []) of JStr s \<Rightarrow> Inr (JStr (trim s)) | _ \<Rightarrow> Inl TypeError)"

definition fingerprint :: "jsval \<Rightarrow> hook_error + string" where
  "fingerprint item =
     sbind (trimmed_field item ''content'') (\<lambda>content.
     sbind (trimmed_field item ''extra'') (\<lambda>extra.
     sbind (trimmed_field item ''title'') (\<lambda>title.
     sbind (trimmed_field item ''link'') (\<lambda>link.
     Inr (json_stringify 0 (JObj
       [(''publishDate'', value_or (prop_of item ''publishDate'') (JStr [])),
        (''content'', content), (''extra'', extra),
        (''type'', value_or (prop_of item ''type'') (JStr [])),
        (''title'', title), (''link'', link)]))))))"

definition getAnnouncementKey :: "jsval \<Rightarrow> hook_error + string" where
  "getAnnouncementKey item =
     (if \<not> truthy item then Inr []
      else if prop_of item ''id'' \<noteq> JUndefined \<and> prop_of item ''id'' \<noteq> JNull
        then Inr (''id:'' @ js_to_string (prop_of item ''id''))
      else sbind (fingerprint item) (\<lambda>f. Inr (''hash:'' @ hashString f)))"

section \<open>The hook\<close>

datatype Tab = TabNotice | TabAnnouncements

record NoticeResponse =
  nr_success :: bool
  nr_data :: "string option"

text \<open>The data of the two queries.\<close>

record Inputs =
  noticeResponse :: "NoticeResponse option"
  status :: jsval

definition announcements :: "Inputs \<Rightarrow> hook_error + jsval list" where
  "announcements i =
     (if truthy (prop_of (status i) ''announcements_enabled'')
      then case value_or (prop_of (status i) ''announcements'') (JArr []) of
             JArr vs \<Rightarrow> Inr (take 20 vs)
           | _ \<Rightarrow> Inl TypeError
      else Inr [])"

definition noticeContent :: "Inputs \<Rightarrow> string" where
  "noticeContent i =
     (case noticeResponse i of
        Some r \<Rightarrow> if nr_success r then trim (case nr_data r of Some d \<Rightarrow> d | None \<Rightarrow> []) else []
      | None \<Rightarrow> [])"

record Counts =
  count_notice :: nat
  count_announcements :: nat
  count_total :: nat

text \<open>One rendering: the keys of the announcements, the key of the forced popup and the unread counts.\<close>

record View =
  view_keys :: "string list"
  forcePopupKey :: string
  unreadCounts :: Counts

definition unread :: "Inputs \<Rightarrow> string list \<Rightarrow> NotificationState \<Rightarrow> Counts" where
  "unread i keys st =
     (let noticeUnread = (if noticeContent i \<noteq> [] \<and> noticeContent i \<noteq> lastReadNotice st then 1 else 0);
          announcementsUnread = length (filter (\<lambda>key. \<not> isAnnouncementRead st key) keys)
      in \<lparr>count_notice = noticeUnread, count_announcements = announcementsUnread,
          count_total = noticeUnread + announcementsUnread\<rparr>)"

definition render :: "Inputs \<Rightarrow> NotificationState \<Rightarrow> hook_error + View" where
  "render i st =
     sbind (announcements i) (\<lambda>items.
     sbind (smap getAnnouncementKey (filter isForcePopupAnnouncement items)) (\<lambda>forced.
     sbind (smap getAnnouncementKey items) (\<lambda>keys.
     Inr \<lparr>view_keys = keys, forcePopupKey = join ''|'' forced, unreadCounts = unread i keys st\<rparr>)))"

text \<open>The state behind the hook. \<open>seen_text\<close> is the item of \<open>localStorage\<close>; \<open>effect_key\<close> is the key the
  effect last ran with, none in a fresh instance.\<close>

record Centre =
  inputs :: Inputs
  notif_store :: NotificationState
  popoverOpen :: bool
  activeTab :: Tab
  seen_text :: "string option"
  effect_key :: "string option"

text \<open>The effect on \<open>forcePopupKey\<close>: it runs when the key differs from that of the last run.\<close>

definition force_popup_effect :: "View \<Rightarrow> Centre \<Rightarrow> hook_error + Centre" where
  "force_popup_effect v c =
     (let key = forcePopupKey v; c' = c\<lparr>effect_key := Some key\<rparr> in
      if effect_key c = Some key then Inr c
      else if key = [] then Inr c'
      else sbind (includes_key (getForcePopupSeenKeys (seen_text c)) key) (\<lambda>seen.
        Inr (if seen then c' else c'\<lparr>activeTab := TabAnnouncements, popoverOpen := True\<rparr>)))"

definition settle_render :: "Centre \<Rightarrow> hook_error + Centre" where
  "settle_render c = sbind (render (inputs c) (notif_store c)) (\<lambda>v. force_popup_effect v c)"

definition markAnnouncementsAsRead :: "View \<Rightarrow> NotificationState \<Rightarrow> NotificationState" where
  "markAnnouncementsAsRead v st =
     (if length (view_keys v) > 0 then markAnnouncementsRead (view_keys v) st else st)"

definition handleOpenPopover :: "View \<Rightarrow> Tab option \<Rightarrow> Centre \<Rightarrow> Centre" where
  "handleOpenPopover v tab c =
     (let nextTab = (case tab of Some t \<Rightarrow> t | None \<Rightarrow> activeTab c);
          s1 = (if noticeContent (inputs c) \<noteq> [] then markNoticeRead (noticeContent (inputs c)) (notif_store c)
                else notif_store c);
          s2 = (if nextTab = TabAnnouncements then markAnnouncementsAsRead v s1 else s1)
      in c\<lparr>notif_store := s2, activeTab := nextTab, popoverOpen := True\<rparr>)"

definition closePopover :: "View \<Rightarrow> Centre \<Rightarrow> hook_error + Centre" where
  "closePopover v c =
     sbind (if forcePopupKey v \<noteq> [] then markForcePopupSeen (forcePopupKey v) (seen_text c) else Inr (seen_text c))
       (\<lambda>raw. Inr (c\<lparr>seen_text := raw, popoverOpen := False\<rparr>))"

definition handlePopoverOpenChange :: "View \<Rightarrow> bool \<Rightarrow> Centre \<Rightarrow> hook_error + Centre" where
  "handlePopoverOpenChange v open' c =
     (if open' then Inr (handleOpenPopover v (Some (activeTab c)) c) else closePopover v c)"

definition handleTabChange :: "View \<Rightarrow> Tab \<Rightarrow> Centre \<Rightarrow> Centre" where
  "handleTabChange v tab c =
     (let c' = c\<lparr>activeTab := tab\<rparr> in
      if tab = TabAnnouncements then c'\<lparr>notif_store := markAnnouncementsAsRead v (notif_store c)\<rparr> else c')"

datatype event =
    OpenPopover "Tab option"
  | OpenChange bool
  | TabChange Tab
  | ClosePopover
  | DataArrives Inputs
  | Remount

definition remount :: "Centre \<Rightarrow> Centre" where
  "remount c = c\<lparr>popoverOpen := False, activeTab := TabNotice, effect_key := None\<rparr>"

text \<open>A handler works on the view of the last rendering; the hook then renders again.\<close>

definition handler :: "event \<Rightarrow> View \<Rightarrow> Centre \<Rightarrow> hook_error + Centre" where
  "handler ev v c =
     (case ev of
        OpenPopover tab \<Rightarrow> Inr (handleOpenPopover v tab c)
      | OpenChange b \<Rightarrow> handlePopoverOpenChange v b c
      | TabChange tab \<Rightarrow> Inr (handleTabChange v tab c)
      | ClosePopover \<Rightarrow> closePopover v c
      | DataArrives i \<Rightarrow> Inr (c\<lparr>inputs := i\<rparr>)
      | Remount \<Rightarrow> Inr (remount c))"

definition centre_step :: "event \<Rightarrow> Centre \<Rightarrow> hook_error + Centre" where
  "centre_step ev c =
     sbind (render (inputs c) (notif_store c)) (\<lambda>v. sbind (handler ev v c) settle_render)"

definition first_mount :: "Inputs \<Rightarrow> hook_error + Centre" where
  "first_mount i =
     settle_render \<lparr>inputs = i, notif_store = initial_store, popoverOpen = False, activeTab = TabNotice,
                    seen_text = None, effect_key = None\<rparr>"

text \<open>The states a user can bring the notification centre to, from an empty browser storage.\<close>

inductive centre_reachable :: "Centre \<Rightarrow> bool" where
  mount: "first_mount i = Inr c \<Longrightarrow> centre_reachable c"
| step: "centre_reachable c \<Longrightarrow> centre_step ev c = Inr c' \<Longrightarrow> centre_reachable c'"

section \<open>The hash\<close>

text \<open>The polynomial the loop computes, on 32-bit words.\<close>

definition hash_word :: "32 word \<Rightarrow> string \<Rightarrow> 32 word" where
  "hash_word h s = foldl (\<lambda>h c. 31 * h + of_char c) h s"

lemma hash_word_simps [simp]:
  "hash_word h [] = h"
  "hash_word h (c # s) = hash_word (31 * h + of_char c) s"
  "hash_word h (s @ t) = hash_word (hash_word h s) t"
  by (simp_all add: hash_word_def)

lemma hash_step_word: "hash_step (sint (w :: 32 word)) c = sint (31 * w + of_char c)"
proof -
  have "push_bit 5 w = 32 * w" by (simp add: push_bit_eq_mult)
  then have "word_of_int (sint (push_bit 5 w) - sint w + of_char c) = 31 * w + (of_char c :: 32 word)"
    by (simp add: of_int_of_char)
  then have "to_int32 (sint (push_bit 5 w) - sint w + of_char c) = sint (31 * w + of_char c)"
    by (simp only: to_int32_def)
  then show ?thesis by (simp add: hash_step_def shift_left32_def)
qed

lemma foldl_hash_step: "foldl hash_step (sint w) s = sint (hash_word w s)"
  by (induction s arbitrary: w) (simp_all add: hash_step_word)

lemma hash_loop_word: "foldl hash_step 0 s = sint (hash_word 0 s)"
  using foldl_hash_step [of 0 s] by simp

lemma hash_step_exact:
  assumes "- (2 ^ 31) \<le> h" "h < 2 ^ 31"
  shows "\<bar>shift_left32 h 5 - h + of_char c\<bar> < 2 ^ 33"
proof -
  have "- (2 ^ 31) \<le> shift_left32 h 5" "shift_left32 h 5 < 2 ^ 31"
    using sint_ge [of "push_bit 5 (word_of_int h :: 32 word)"] sint_lt [of "push_bit 5 (word_of_int h :: 32 word)"]
    by (simp_all add: shift_left32_def)
  moreover have "of_char c < (256 :: int)" "0 \<le> (of_char c :: int)"
    by (simp_all add: of_char_def)
  ultimately show ?thesis using assms by simp
qed

lemma mult31_cancel: "31 * x = 31 * y \<longleftrightarrow> x = (y :: 32 word)"
proof
  assume "31 * x = 31 * y"
  then have "3186588639 * (31 * x) = 3186588639 * (31 * y)" by simp
  then have "(3186588639 * 31) * x = (3186588639 * 31) * y" by (simp only: mult.assoc)
  moreover have "(3186588639 * 31 :: 32 word) = 1" by (simp add: word_numeral_alt [symmetric])
  ultimately show "x = y" by (metis mult_1)
qed simp

lemma hash_word_inject: "hash_word x s = hash_word y s \<longleftrightarrow> x = y"
  by (induction s arbitrary: x y) (simp_all add: mult31_cancel)

lemma of_char_word_inject: "of_char c = (of_char d :: 32 word) \<longleftrightarrow> c = d"
proof
  assume "of_char c = (of_char d :: 32 word)"
  then have "unat (of_nat (of_char c) :: 32 word) = unat (of_nat (of_char d) :: 32 word)"
    by (simp only: of_nat_of_char)
  moreover have "unat (of_nat (of_char a) :: 32 word) = of_char a" for a
    using less_trans [OF nat_of_char_less_256 [of a], of "2 ^ 32"] by (simp add: unat_of_nat)
  ultimately show "c = d" by simp
qed simp

text \<open>Another character at one place is another hash; two neighbours can change together and keep it.\<close>

lemma hash_word_one_char: "hash_word h (u @ c # v) = hash_word h (u @ d # v) \<longleftrightarrow> c = d"
  by (simp add: hash_word_inject of_char_word_inject)

lemma hash_word_collision: "hash_word h (u @ ''Aa'' @ v) = hash_word h (u @ ''BB'' @ v)"
  by (simp add: hash_word_inject of_char_def algebra_simps)

section \<open>Base 36\<close>

definition val36 :: "char \<Rightarrow> int" where
  "val36 c = (let n = (of_char c :: nat) in int (if n < 58 then n - 48 else n - 87))"

definition value36 :: "string \<Rightarrow> int" where
  "value36 s = foldl (\<lambda>n c. 36 * n + val36 c) 0 s"

lemma val36_char36: "d < 36 \<Longrightarrow> val36 (char36 d) = int d"
  by (simp add: val36_def char36_def)

lemma value36_digits36: "n \<ge> 0 \<Longrightarrow> value36 (digits36 n) = n"
proof (induction n rule: digits36.induct)
  case (1 n)
  then show ?case
    using digits36.simps [of n] by (cases "n < 36") (simp_all add: value36_def val36_char36)
qed

lemma digits36_chars: "n \<ge> 0 \<Longrightarrow> c \<in> set (digits36 n) \<Longrightarrow> c \<noteq> CHR ''-''"
proof (induction n rule: digits36.induct)
  case (1 n)
  have "(of_char (char36 d) :: nat) \<noteq> of_char CHR ''-''" if "d < 36" for d
    using that by (simp add: char36_def)
  then have "char36 d \<noteq> CHR ''-''" if "d < 36" for d using that by metis
  from this [of "nat n"] this [of "nat (n mod 36)"]
  have "n < 36 \<Longrightarrow> char36 (nat n) \<noteq> CHR ''-''" "char36 (nat (n mod 36)) \<noteq> CHR ''-''" by simp_all
  then show ?case
    using 1 digits36.simps [of n] by (cases "n < 36") (auto simp: pos_imp_zdiv_nonneg_iff)
qed

lemma digits36_not_Nil [simp]: "digits36 n \<noteq> []"
  using digits36.simps [of n] by (cases "n < 36") simp_all

lemma digits36_inject: "m \<ge> 0 \<Longrightarrow> n \<ge> 0 \<Longrightarrow> digits36 m = digits36 n \<longleftrightarrow> m = n"
  by (metis value36_digits36)

lemma digits36_no_sign: "n \<ge> 0 \<Longrightarrow> digits36 n \<noteq> CHR ''-'' # s"
  using digits36_chars [of n "CHR ''-''"] by auto

lemma to_string36_inject: "to_string36 i = to_string36 j \<longleftrightarrow> i = j"
proof (cases "i < 0 \<longleftrightarrow> j < 0")
  case True
  then show ?thesis by (cases "i < 0") (simp_all add: to_string36_def digits36_inject)
next
  case False
  then show ?thesis
    using digits36_no_sign [of i "digits36 (- j)"] digits36_no_sign [of j "digits36 (- i)"]
    by (cases "i < 0") (auto simp: to_string36_def)
qed

lemma hashString_inject:
  assumes "s \<noteq> []" "t \<noteq> []"
  shows "hashString s = hashString t \<longleftrightarrow> hash_word 0 s = hash_word 0 t"
proof -
  have "sint x = sint y \<longleftrightarrow> x = y" for x y :: "32 word" by (auto intro: signed_word_eqI)
  then show ?thesis using assms by (simp add: hashString_def to_string36_inject hash_loop_word)
qed

section \<open>Editing an announcement\<close>

text \<open>The announcement with another content.\<close>

definition with_content :: "(string \<times> jsval) list \<Rightarrow> string \<Rightarrow> jsval" where
  "with_content kvs s = JObj (obj_set ''content'' (JStr s) kvs)"

lemma prop_of_with_content:
  "prop_of (with_content kvs s) k = (if k = ''content'' then JStr s else prop_of (JObj kvs) k)"
  by (simp add: with_content_def prop_of_def map_of_obj_set)

lemma value_or_defined: "value_or v (JStr s) \<noteq> JUndefined"
  by (simp add: value_or_def truthy_def split: jsval.splits)

lemma trimmed_field_content: "trimmed_field (with_content kvs s) ''content'' = Inr (JStr (trim s))"
  by (simp add: trimmed_field_def prop_of_with_content value_or_def truthy_def)

lemma trimmed_field_other:
  "k \<noteq> ''content'' \<Longrightarrow> trimmed_field (with_content kvs s) k = trimmed_field (JObj kvs) k"
  by (simp add: trimmed_field_def prop_of_with_content)

lemma trimmed_field_JStr: "trimmed_field item k = Inr v \<Longrightarrow> \<exists>s. v = JStr s"
  by (auto simp: trimmed_field_def split: jsval.splits)

text \<open>The content stands quoted between a beginning and an end that do not depend on it.\<close>

lemma fingerprint_with_content:
  "(\<exists>p q. \<forall>s. fingerprint (with_content kvs s) = Inr (p @ concat (map json_escape (trim s)) @ q)) \<or>
   (\<forall>s. fingerprint (with_content kvs s) = Inl TypeError)"
proof -
  have other: "fingerprint (with_content kvs s) =
     sbind (trimmed_field (JObj kvs) ''extra'') (\<lambda>extra.
     sbind (trimmed_field (JObj kvs) ''title'') (\<lambda>title.
     sbind (trimmed_field (JObj kvs) ''link'') (\<lambda>link.
     Inr (json_stringify 0 (JObj
       [(''publishDate'', value_or (prop_of (JObj kvs) ''publishDate'') (JStr [])),
        (''content'', JStr (trim s)), (''extra'', extra),
        (''type'', value_or (prop_of (JObj kvs) ''type'') (JStr [])),
        (''title'', title), (''link'', link)])))))" for s
    by (simp add: fingerprint_def trimmed_field_content trimmed_field_other prop_of_with_content)
  show ?thesis
  proof (cases "\<exists>e t l. trimmed_field (JObj kvs) ''extra'' = Inr e \<and> trimmed_field (JObj kvs) ''title'' = Inr t \<and>
      trimmed_field (JObj kvs) ''link'' = Inr l")
    case True
    then obtain e t l where f: "trimmed_field (JObj kvs) ''extra'' = Inr (JStr e)"
        "trimmed_field (JObj kvs) ''title'' = Inr (JStr t)" "trimmed_field (JObj kvs) ''link'' = Inr (JStr l)"
      using trimmed_field_JStr by metis
    define d where "d = value_or (prop_of (JObj kvs) ''publishDate'') (JStr [])"
    define y where "y = value_or (prop_of (JObj kvs) ''type'') (JStr [])"
    have dy: "d \<noteq> JUndefined" "y \<noteq> JUndefined" by (simp_all add: d_def y_def value_or_defined)
    have "obj_entries [(''publishDate'', d), (''content'', JStr s), (''extra'', JStr e), (''type'', y),
        (''title'', JStr t), (''link'', JStr l)] = [(''publishDate'', d), (''content'', JStr s), (''extra'', JStr e), (''type'', y),
        (''title'', JStr t), (''link'', JStr l)]" for s
      by (simp add: obj_entries_def is_array_index_def is_digit_def)
    then have "fingerprint (with_content kvs s) = Inr
       ((''{'' @ json_quote ''publishDate'' @ '':'' @ json_text 0 0 d @ '','' @ json_quote ''content'' @ '':'' @ [CHR 0x22]) @
        concat (map json_escape (trim s)) @
        ([CHR 0x22] @ '','' @ json_quote ''extra'' @ '':'' @ json_quote e @ '','' @ json_quote ''type'' @ '':'' @
         json_text 0 0 y @ '','' @ json_quote ''title'' @ '':'' @ json_quote t @ '','' @ json_quote ''link'' @ '':'' @
         json_quote l @ ''}''))" for s
      using dy by (simp add: other f json_stringify_def new_line_def json_colon_def json_quote_def [of "trim s"]
          flip: d_def y_def)
    then show ?thesis by blast
  next
    case False
    then show ?thesis
      by (cases "trimmed_field (JObj kvs) ''extra''"; cases "trimmed_field (JObj kvs) ''title''";
          cases "trimmed_field (JObj kvs) ''link''") (auto simp: other trimmed_field_def split: jsval.splits)
  qed
qed

lemma trim_middle:
  assumes "\<not> is_ws c"
  shows "trim (u @ c # v) = dropWhile is_ws u @ c # rev (dropWhile is_ws (rev v))"
proof -
  have "dropWhile is_ws (u @ c # v) = dropWhile is_ws u @ c # v"
    using assms by (simp add: dropWhile_append)
  moreover have "dropWhile is_ws (rev (w @ c # v)) = dropWhile is_ws (rev v) @ c # rev w" for w
    using assms by (simp add: dropWhile_append)
  ultimately show ?thesis by (simp add: trim_def)
qed

lemma key_without_id:
  assumes "prop_of (JObj kvs) ''id'' \<in> {JUndefined, JNull}"
  shows "getAnnouncementKey (with_content kvs s) =
    sbind (fingerprint (with_content kvs s)) (\<lambda>f. Inr (''hash:'' @ hashString f))"
  using assms by (auto simp: getAnnouncementKey_def prop_of_with_content) (simp_all add: with_content_def truthy_def)

text \<open>C31: An announcement without an id whose content changes in one character, other than white
  space and the characters JSON escapes, gets another key, so that it counts as unread again.\<close>

theorem one_character_edit:
  assumes "prop_of (JObj kvs) ''id'' \<in> {JUndefined, JNull}"
    and "c \<noteq> d" and "\<not> is_ws c" and "\<not> is_ws d" and "json_escape c = [c]" and "json_escape d = [d]"
    and "getAnnouncementKey (with_content kvs (u @ c # v)) = Inr key"
  shows "\<exists>key'. getAnnouncementKey (with_content kvs (u @ d # v)) = Inr key' \<and> key' \<noteq> key"
proof -
  obtain p q where pq: "\<And>s. fingerprint (with_content kvs s) = Inr (p @ concat (map json_escape (trim s)) @ q)"
    using fingerprint_with_content [of kvs] assms(1,7) by (auto simp: key_without_id)
  define u' where "u' = p @ concat (map json_escape (dropWhile is_ws u))"
  define v' where "v' = concat (map json_escape (rev (dropWhile is_ws (rev v)))) @ q"
  have "getAnnouncementKey (with_content kvs (u @ x # v)) = Inr (''hash:'' @ hashString (u' @ x # v'))"
    if "\<not> is_ws x" "json_escape x = [x]" for x
    using that assms(1) by (simp add: key_without_id pq trim_middle u'_def v'_def)
  then show ?thesis
    using assms hashString_inject [of "u' @ c # v'" "u' @ d # v'"] hash_word_one_char [of 0 u' c v' d] by auto
qed

theorem one_character_edit_witness:
  "\<exists>key key'. getAnnouncementKey (with_content [(''type'', JStr ''default'')] ''v1'') = Inr key \<and>
     getAnnouncementKey (with_content [(''type'', JStr ''default'')] ''v2'') = Inr key' \<and> key' \<noteq> key"
proof -
  obtain key where "getAnnouncementKey (with_content [(''type'', JStr ''default'')] ''v1'') = Inr key"
    by (simp add: getAnnouncementKey_def fingerprint_def trimmed_field_def with_content_def prop_of_def value_or_def truthy_def)
  then show ?thesis
    using one_character_edit [of "[(''type'', JStr ''default'')]" "CHR ''1''" "CHR ''2''" "''v''" "[]" key]
    by (simp add: prop_of_def json_escape_def is_ws_def)
qed

text \<open>The key does not identify the content: replacing \<open>Aa\<close> by \<open>BB\<close> anywhere in the content of an
  announcement without an id keeps its key, so that the edited announcement counts as read where the old one was.\<close>

theorem edit_unnoticed:
  assumes "prop_of (JObj kvs) ''id'' \<in> {JUndefined, JNull}"
  shows "getAnnouncementKey (with_content kvs (u @ ''Aa'' @ v)) = getAnnouncementKey (with_content kvs (u @ ''BB'' @ v))"
proof -
  have ws: "\<not> is_ws c" "json_escape c = [c]" if "c \<in> {CHR ''A'', CHR ''a'', CHR ''B''}" for c
    using that by (auto simp: is_ws_def json_escape_def)
  consider (ok) p q where "\<And>s. fingerprint (with_content kvs s) = Inr (p @ concat (map json_escape (trim s)) @ q)"
    | (bad) "\<And>s. fingerprint (with_content kvs s) = Inl TypeError"
    using fingerprint_with_content [of kvs] by blast
  then show ?thesis
  proof cases
    case ok
    define u' where "u' = p @ concat (map json_escape (dropWhile is_ws u))"
    define v' where "v' = concat (map json_escape (rev (dropWhile is_ws (rev v)))) @ q"
    have tr: "trim (u @ [x, y] @ v) = dropWhile is_ws u @ [x, y] @ rev (dropWhile is_ws (rev v))"
      if "\<not> is_ws x" "\<not> is_ws y" for x y
      using that trim_middle [of y "u @ [x]" v] by (simp add: dropWhile_append)
    have "getAnnouncementKey (with_content kvs (u @ [x, y] @ v)) = Inr (''hash:'' @ hashString (u' @ [x, y] @ v'))"
      if "x \<in> {CHR ''A'', CHR ''a'', CHR ''B''}" "y \<in> {CHR ''A'', CHR ''a'', CHR ''B''}" for x y
      using ws [OF that(1)] ws [OF that(2)] tr [of x y] assms by (simp add: key_without_id ok u'_def v'_def)
    then show ?thesis
      using hashString_inject [of "u' @ ''Aa'' @ v'" "u' @ ''BB'' @ v'"] hash_word_collision [of 0 u' v'] by auto
  qed (simp add: key_without_id [OF assms])
qed

theorem edit_unnoticed_witness:
  "getAnnouncementKey (with_content [(''type'', JStr ''default'')] ''Aa!'') =
   getAnnouncementKey (with_content [(''type'', JStr ''default'')] ''BB!'')"
  using edit_unnoticed [of "[(''type'', JStr ''default'')]" "[]" "''!''"] by (simp add: prop_of_def)

section \<open>Logs of keys\<close>

text \<open>What the user has seen is kept twice, as the list of the store and as the text of the browser
  storage. Both are logs: an added key is there afterwards, and nothing is forgotten.\<close>

locale key_log =
  fixes ok :: "'s \<Rightarrow> bool"
    and has :: "'s \<Rightarrow> 'k \<Rightarrow> bool"
    and valid :: "'k \<Rightarrow> bool"
    and add :: "'k list \<Rightarrow> 's \<Rightarrow> 's"
  assumes ok_add: "ok s \<Longrightarrow> ok (add ks s)"
    and has_add: "ok s \<Longrightarrow> list_all valid ks \<Longrightarrow> has (add ks s) k \<longleftrightarrow> has s k \<or> k \<in> set ks"
begin

lemma none_missing:
  "ok s \<Longrightarrow> list_all valid ks \<Longrightarrow> filter (\<lambda>k. \<not> has (add ks s) k) ks = []"
  by (simp add: has_add)

lemma missing_later:
  "ok s \<Longrightarrow> list_all valid ks \<Longrightarrow>
   filter (\<lambda>k. \<not> has (add ks s) k) ks' = filter (\<lambda>k. \<not> has s k \<and> k \<notin> set ks) ks'"
  by (simp add: has_add)

lemma add_twice:
  "ok s \<Longrightarrow> list_all valid ks \<Longrightarrow> list_all valid ks' \<Longrightarrow> has (add ks' (add ks s)) k \<longleftrightarrow> has (add (ks @ ks') s) k"
  by (auto simp: has_add ok_add)

end

interpretation read_log: key_log "\<lambda>st. distinct (readAnnouncementKeys st)" isAnnouncementRead "\<lambda>_. True" markAnnouncementsRead
  by unfold_locales (auto simp: markAnnouncementsRead_def isAnnouncementRead_def)

text \<open>The texts the hook writes: arrays of distinct strings.\<close>

definition seen_ok :: "string option \<Rightarrow> bool" where
  "seen_ok raw \<longleftrightarrow> (\<exists>ks. distinct ks \<and> getForcePopupSeenKeys raw = JArr (map JStr ks))"

definition seen_has :: "string option \<Rightarrow> string \<Rightarrow> bool" where
  "seen_has raw key \<longleftrightarrow> includes_key (getForcePopupSeenKeys raw) key = Inr True"

definition mark_seen :: "string list \<Rightarrow> string option \<Rightarrow> string option" where
  "mark_seen ks raw = fold (\<lambda>k raw. projr (markForcePopupSeen k raw)) ks raw"

lemma value_set_strings: "value_set (map JStr ks) = map JStr (uniq ks)"
  by (induction ks) (auto simp: filter_map comp_def is_reference_def)

lemma stringify_keys_read:
  "getForcePopupSeenKeys (Some (json_stringify 0 (JArr (map JStr ks)))) = JArr (map JStr ks)"
proof -
  have "json_stringify 0 (JArr (map JStr ks)) \<noteq> []" by (simp add: json_stringify_def)
  moreover have "json_parse (json_stringify 0 (JArr (map JStr ks))) = Some (JArr (map JStr ks))"
    using json_parse_stringify_canon [of "JArr (map JStr ks)" 0] by (simp add: comp_def)
  ultimately show ?thesis by (simp add: getForcePopupSeenKeys_def str_or_def)
qed

lemma markForcePopupSeen_ok:
  assumes "seen_ok raw" "key \<noteq> []"
  obtains raw' where "markForcePopupSeen key raw = Inr raw'" "seen_ok raw'"
    "\<And>k. seen_has raw' k \<longleftrightarrow> seen_has raw k \<or> k = key"
proof -
  obtain ks where ks: "distinct ks" "getForcePopupSeenKeys raw = JArr (map JStr ks)"
    using assms(1) by (auto simp: seen_ok_def)
  let ?raw = "Some (json_stringify 0 (JArr (map JStr (uniq (ks @ [key])))))"
  have g: "getForcePopupSeenKeys ?raw = JArr (map JStr (uniq (ks @ [key])))" by (rule stringify_keys_read)
  show thesis
  proof
    show "markForcePopupSeen key raw = Inr ?raw"
      using assms(2) value_set_strings [of "ks @ [key]"] by (simp add: markForcePopupSeen_def ks iterate_def)
    show "seen_ok ?raw" unfolding seen_ok_def g by (metis distinct_uniq)
    show "seen_has ?raw k \<longleftrightarrow> seen_has raw k \<or> k = key" for k
      unfolding seen_has_def g ks by (auto simp: includes_key_def)
  qed
qed

lemma seen_ok_None: "seen_ok None"
proof -
  have "json_parse ''[]'' = Some (JArr [])" by code_simp
  then show ?thesis unfolding seen_ok_def getForcePopupSeenKeys_def by (intro exI [of _ "[]"]) simp
qed

lemma mark_seen_log:
  "seen_ok raw \<Longrightarrow> list_all (\<lambda>k. k \<noteq> []) ks \<Longrightarrow>
   seen_ok (mark_seen ks raw) \<and> (\<forall>k. seen_has (mark_seen ks raw) k \<longleftrightarrow> seen_has raw k \<or> k \<in> set ks)"
proof (induction ks arbitrary: raw)
  case (Cons x ks)
  then obtain raw' where r: "markForcePopupSeen x raw = Inr raw'" "seen_ok raw'"
      "\<And>k. seen_has raw' k \<longleftrightarrow> seen_has raw k \<or> k = x"
    using markForcePopupSeen_ok [of raw x] by auto
  then have "mark_seen (x # ks) raw = mark_seen ks raw'" by (simp add: mark_seen_def)
  then show ?case using Cons.IH [OF r(2)] Cons.prems r(3) by auto
qed (simp add: mark_seen_def)

lemma mark_seen_drop: "mark_seen (filter (\<lambda>k. k \<noteq> []) ks) raw = mark_seen ks raw"
  by (induction ks arbitrary: raw) (simp_all add: mark_seen_def markForcePopupSeen_def)

interpretation seen_log: key_log seen_ok seen_has "\<lambda>k. k \<noteq> []" mark_seen
proof
  show "seen_ok (mark_seen ks s)" if "seen_ok s" for ks s
    using mark_seen_log [OF that, of "filter (\<lambda>k. k \<noteq> []) ks"] by (simp add: mark_seen_drop list_all_iff)
qed (simp add: mark_seen_log)

section \<open>The notification centre\<close>

text \<open>The stored lists are well formed, and a forced popup that is not open has been seen.\<close>

definition base_inv :: "Centre \<Rightarrow> bool" where
  "base_inv c \<longleftrightarrow>
     distinct (readAnnouncementKeys (notif_store c)) \<and>
     trim (lastReadNotice (notif_store c)) = lastReadNotice (notif_store c) \<and>
     seen_ok (seen_text c) \<and>
     (\<forall>key. effect_key c = Some key \<longrightarrow> popoverOpen c \<or> key = [] \<or> seen_has (seen_text c) key)"

definition centre_inv :: "Centre \<Rightarrow> bool" where
  "centre_inv c \<longleftrightarrow>
     base_inv c \<and> (\<exists>v. render (inputs c) (notif_store c) = Inr v \<and> effect_key c = Some (forcePopupKey v))"

lemma render_other_store:
  "render i st = Inr v \<Longrightarrow> render i st' = Inr (v\<lparr>unreadCounts := unread i (view_keys v) st'\<rparr>)"
  by (auto simp: render_def sbind_Inr_iff)

lemma render_raises_other_store: "render i st = Inl e \<Longrightarrow> render i st' = Inl e"
  by (auto simp: render_def sbind_Inl_iff sbind_Inr_iff)

lemma render_counts: "render i st = Inr v \<Longrightarrow> unreadCounts v = unread i (view_keys v) st"
  by (auto simp: render_def sbind_Inr_iff)

lemma includes_key_seen: "seen_ok raw \<Longrightarrow> includes_key (getForcePopupSeenKeys raw) key = Inr (seen_has raw key)"
  by (auto simp: seen_ok_def seen_has_def includes_key_def)

text \<open>On a readable text the effect never raises.\<close>

definition effect_result :: "View \<Rightarrow> Centre \<Rightarrow> Centre" where
  "effect_result v c =
     (let key = forcePopupKey v; c' = c\<lparr>effect_key := Some key\<rparr> in
      if effect_key c = Some key then c
      else if key = [] \<or> seen_has (seen_text c) key then c'
      else c'\<lparr>activeTab := TabAnnouncements, popoverOpen := True\<rparr>)"

lemma force_popup_effect_eq: "base_inv c \<Longrightarrow> force_popup_effect v c = Inr (effect_result v c)"
  by (simp add: force_popup_effect_def effect_result_def Let_def base_inv_def includes_key_seen)

lemma effect_result_frame [simp]:
  "inputs (effect_result v c) = inputs c" "notif_store (effect_result v c) = notif_store c"
  "seen_text (effect_result v c) = seen_text c" "effect_key (effect_result v c) = Some (forcePopupKey v)"
  by (simp_all add: effect_result_def Let_def)

lemma effect_result_inv: "base_inv c \<Longrightarrow> base_inv (effect_result v c)"
  by (simp add: effect_result_def Let_def base_inv_def)

lemma settle_render_Inr:
  "base_inv c \<Longrightarrow> settle_render c = Inr c' \<longleftrightarrow>
   (\<exists>v. render (inputs c) (notif_store c) = Inr v \<and> c' = effect_result v c)"
  by (auto simp: settle_render_def sbind_Inr_iff force_popup_effect_eq)

lemma settle_render_Inl:
  "base_inv c \<Longrightarrow> settle_render c = Inl e \<longleftrightarrow> render (inputs c) (notif_store c) = Inl e"
  by (auto simp: settle_render_def sbind_Inl_iff force_popup_effect_eq)

lemma settle_render_inv: "base_inv c \<Longrightarrow> settle_render c = Inr c' \<Longrightarrow> centre_inv c'"
  by (auto simp: settle_render_Inr centre_inv_def effect_result_inv)

lemma closePopover_total:
  assumes "base_inv c" and "effect_key c = Some (forcePopupKey v)"
  shows "\<exists>raw. closePopover v c = Inr (c\<lparr>seen_text := raw, popoverOpen := False\<rparr>) \<and>
    base_inv (c\<lparr>seen_text := raw, popoverOpen := False\<rparr>) \<and> (forcePopupKey v = [] \<or> seen_has raw (forcePopupKey v))"
proof (cases "forcePopupKey v = []")
  case True
  then show ?thesis using assms by (intro exI [of _ "seen_text c"]) (simp add: closePopover_def base_inv_def)
next
  case False
  have "seen_ok (seen_text c)" using assms(1) by (simp add: base_inv_def)
  then obtain raw where raw: "markForcePopupSeen (forcePopupKey v) (seen_text c) = Inr raw" "seen_ok raw"
      "\<And>k. seen_has raw k \<longleftrightarrow> seen_has (seen_text c) k \<or> k = forcePopupKey v"
    using markForcePopupSeen_ok [OF _ False, of "seen_text c"] by metis
  show ?thesis using raw assms False by (intro exI [of _ raw]) (simp add: closePopover_def base_inv_def)
qed

lemma markAnnouncementsAsRead_distinct:
  "distinct (readAnnouncementKeys st) \<Longrightarrow> distinct (readAnnouncementKeys (markAnnouncementsAsRead v st))"
  by (simp add: markAnnouncementsAsRead_def read_log.ok_add)

lemma markAnnouncementsAsRead_notice [simp]: "lastReadNotice (markAnnouncementsAsRead v st) = lastReadNotice st"
  by (simp add: markAnnouncementsAsRead_def markAnnouncementsRead_def)

lemma markNoticeRead_simps [simp]:
  "readAnnouncementKeys (markNoticeRead s st) = readAnnouncementKeys st"
  "lastReadNotice (markNoticeRead s st) = trim s"
  by (simp_all add: markNoticeRead_def)

lemma base_inv_open: "base_inv c \<Longrightarrow> base_inv (handleOpenPopover v tab c)"
  by (simp add: base_inv_def handleOpenPopover_def Let_def markAnnouncementsAsRead_distinct)

lemma base_inv_tab: "base_inv c \<Longrightarrow> base_inv (handleTabChange v tab c)"
  by (simp add: base_inv_def handleTabChange_def Let_def markAnnouncementsAsRead_distinct)

lemma base_inv_data: "base_inv c \<Longrightarrow> base_inv (c\<lparr>inputs := i\<rparr>)"
  by (simp add: base_inv_def)

lemma base_inv_remount: "base_inv c \<Longrightarrow> base_inv (remount c)"
  by (simp add: base_inv_def remount_def)

lemma frame_inputs [simp]:
  "inputs (handleOpenPopover v tab c) = inputs c" "inputs (handleTabChange v t c) = inputs c" "inputs (remount c) = inputs c"
  by (simp_all add: handleOpenPopover_def handleTabChange_def remount_def Let_def)

lemma handler_total:
  assumes "base_inv c" and "effect_key c = Some (forcePopupKey v)"
  shows "\<exists>c'. handler ev v c = Inr c' \<and> base_inv c' \<and>
    inputs c' = (case ev of DataArrives i \<Rightarrow> i | _ \<Rightarrow> inputs c)"
proof -
  obtain raw where "closePopover v c = Inr (c\<lparr>seen_text := raw, popoverOpen := False\<rparr>)"
      "base_inv (c\<lparr>seen_text := raw, popoverOpen := False\<rparr>)"
    using closePopover_total [OF assms] by blast
  then show ?thesis
    using base_inv_open [OF assms(1)] base_inv_tab [OF assms(1)] base_inv_data [OF assms(1)] base_inv_remount [OF assms(1)]
    by (cases ev) (simp_all add: handler_def handlePopoverOpenChange_def)
qed

text \<open>A step from a well-formed state: the view, the state the handler leaves, and the rendering after it.\<close>

lemma centre_stepE:
  assumes "centre_inv c"
  obtains v c1 where "render (inputs c) (notif_store c) = Inr v" "effect_key c = Some (forcePopupKey v)"
    "handler ev v c = Inr c1" "base_inv c1" "inputs c1 = (case ev of DataArrives i \<Rightarrow> i | _ \<Rightarrow> inputs c)"
    "centre_step ev c = settle_render c1"
proof -
  obtain v where v: "render (inputs c) (notif_store c) = Inr v" "effect_key c = Some (forcePopupKey v)" "base_inv c"
    using assms by (auto simp: centre_inv_def)
  then obtain c1 where "handler ev v c = Inr c1" "base_inv c1" "inputs c1 = (case ev of DataArrives i \<Rightarrow> i | _ \<Rightarrow> inputs c)"
    using handler_total by blast
  then show thesis using v that by (simp add: centre_step_def)
qed

lemma centre_inv_step: "centre_inv c \<Longrightarrow> centre_step ev c = Inr c' \<Longrightarrow> centre_inv c'"
  by (metis centre_stepE settle_render_inv)

lemma centre_inv_mount: "first_mount i = Inr c \<Longrightarrow> centre_inv c"
  unfolding first_mount_def
  by (erule settle_render_inv [rotated]) (simp add: base_inv_def initial_store_def seen_ok_None)

lemma reachable_inv: "centre_reachable c \<Longrightarrow> centre_inv c"
  by (induction rule: centre_reachable.induct) (auto intro: centre_inv_mount centre_inv_step)

text \<open>A notice and two announcements, one of them forced.\<close>

definition sample_inputs :: Inputs where
  "sample_inputs =
     \<lparr>noticeResponse = Some \<lparr>nr_success = True, nr_data = Some '' Maintenance ''\<rparr>,
      status = JObj [(''announcements_enabled'', JBool True),
        (''announcements'', JArr [JObj [(''id'', JStr ''1''), (''forced'', JBool True)], JObj [(''id'', JStr ''2'')]])]\<rparr>"

definition sample_centre :: Centre where
  "sample_centre =
     \<lparr>inputs = sample_inputs, notif_store = initial_store, popoverOpen = True, activeTab = TabAnnouncements,
      seen_text = None, effect_key = Some ''id:1''\<rparr>"

lemma sample_reachable: "centre_reachable sample_centre"
proof (rule centre_reachable.mount)
  show "first_mount sample_inputs = Inr sample_centre" by code_simp
qed

text \<open>C30: Whatever the user does, the announcements marked as read stay distinct, the notice marked as read stays
  trimmed, the text of the seen popups stays an array of distinct strings, and a forced popup that is not on the
  screen has been seen.\<close>

theorem centre_invariant:
  assumes "centre_reachable c"
  shows "distinct (readAnnouncementKeys (notif_store c)) \<and>
    trim (lastReadNotice (notif_store c)) = lastReadNotice (notif_store c) \<and>
    (\<exists>ks. distinct ks \<and> getForcePopupSeenKeys (seen_text c) = JArr (map JStr ks)) \<and>
    (\<exists>v. render (inputs c) (notif_store c) = Inr v \<and>
       (popoverOpen c \<or> forcePopupKey v = [] \<or>
        includes_key (getForcePopupSeenKeys (seen_text c)) (forcePopupKey v) = Inr True))"
  using reachable_inv [OF assms] by (auto simp: centre_inv_def base_inv_def seen_ok_def seen_has_def)

theorem centre_invariant_witness:
  "distinct (readAnnouncementKeys (notif_store sample_centre)) \<and> popoverOpen sample_centre \<and>
   (\<exists>v. render (inputs sample_centre) (notif_store sample_centre) = Inr v)"
  using centre_invariant [OF sample_reachable] by (auto simp: sample_centre_def)

text \<open>The hook raises only when new data arrive that cannot be rendered; no handler and no remount raises.\<close>

theorem centre_raises_only_on_data:
  assumes "centre_reachable c"
  shows "centre_step ev c = Inl e \<longleftrightarrow> (\<exists>i. ev = DataArrives i \<and> render i (notif_store c) = Inl e)"
proof -
  obtain v c1 where s: "render (inputs c) (notif_store c) = Inr v" "handler ev v c = Inr c1" "base_inv c1"
      "inputs c1 = (case ev of DataArrives i \<Rightarrow> i | _ \<Rightarrow> inputs c)" "centre_step ev c = settle_render c1"
    using centre_stepE [OF reachable_inv [OF assms]] by metis
  have "render (inputs c) st \<noteq> Inl e" for st using render_raises_other_store [of "inputs c" st e] s(1) by fastforce
  then show ?thesis
    using s by (cases ev) (auto simp: settle_render_Inl handler_def)
qed

theorem centre_raises_only_on_data_witness:
  "centre_step ClosePopover sample_centre \<noteq> Inl TypeError \<and>
   centre_step (DataArrives (sample_inputs\<lparr>status := JObj [(''announcements_enabled'', JBool True),
     (''announcements'', JArr [JObj [(''content'', JNum (Fin 1))]])]\<rparr>)) sample_centre = Inl TypeError"
proof -
  have "render (sample_inputs\<lparr>status := JObj [(''announcements_enabled'', JBool True),
     (''announcements'', JArr [JObj [(''content'', JNum (Fin 1))]])]\<rparr>) (notif_store sample_centre) = Inl TypeError"
    by code_simp
  then show ?thesis using centre_raises_only_on_data [OF sample_reachable] by blast
qed

lemma read_after_open:
  assumes "distinct (readAnnouncementKeys (notif_store c))"
  shows "isAnnouncementRead (notif_store (handleOpenPopover v (Some TabAnnouncements) c)) key \<longleftrightarrow>
    isAnnouncementRead (notif_store c) key \<or> key \<in> set (view_keys v)"
proof -
  have "isAnnouncementRead (markAnnouncementsAsRead v st) key \<longleftrightarrow> isAnnouncementRead st key \<or> key \<in> set (view_keys v)"
    if "distinct (readAnnouncementKeys st)" for st
    using read_log.has_add [of st "view_keys v" key] that by (auto simp: markAnnouncementsAsRead_def list_all_iff)
  then show ?thesis using assms by (simp add: handleOpenPopover_def Let_def isAnnouncementRead_def)
qed

lemma notice_after_open:
  "noticeContent (inputs c) \<noteq> [] \<Longrightarrow> lastReadNotice (notif_store (handleOpenPopover v tab c)) = noticeContent (inputs c)"
  by (simp add: handleOpenPopover_def Let_def noticeContent_def split: option.splits if_splits)

text \<open>Opening the announcements marks everything on the screen as read: no count is left. When new data
  arrive afterwards, the unread announcements are those whose keys were neither read nor shown before.\<close>

theorem open_marks_all_read:
  assumes "centre_reachable c" and "render (inputs c) (notif_store c) = Inr v"
    and "centre_step (OpenPopover (Some TabAnnouncements)) c = Inr c1"
    and "centre_step (DataArrives i) c1 = Inr c2" and "render (inputs c2) (notif_store c2) = Inr v2"
  shows "(\<exists>v1. render (inputs c1) (notif_store c1) = Inr v1 \<and> count_total (unreadCounts v1) = 0) \<and>
    count_announcements (unreadCounts v2) =
      length (filter (\<lambda>key. \<not> isAnnouncementRead (notif_store c) key \<and> key \<notin> set (view_keys v)) (view_keys v2))"
proof -
  let ?c' = "handleOpenPopover v (Some TabAnnouncements) c"
  have inv: "base_inv c" using reachable_inv [OF assms(1)] by (simp add: centre_inv_def)
  then have read: "isAnnouncementRead (notif_store ?c') key \<longleftrightarrow> isAnnouncementRead (notif_store c) key \<or> key \<in> set (view_keys v)" for key
    by (simp add: read_after_open base_inv_def)
  have c1: "inputs c1 = inputs c" "notif_store c1 = notif_store ?c'" and inv1: "base_inv c1"
    using assms(2,3) base_inv_open [OF inv] by (auto simp: centre_step_def handler_def settle_render_Inr effect_result_inv)
  let ?v1 = "v\<lparr>unreadCounts := unread (inputs c) (view_keys v) (notif_store ?c')\<rparr>"
  have v1: "render (inputs c1) (notif_store c1) = Inr ?v1"
    using render_other_store [OF assms(2)] c1 by simp
  moreover have "count_total (unreadCounts ?v1) = 0"
    using notice_after_open [of c v "Some TabAnnouncements"]
    by (cases "noticeContent (inputs c) = []") (simp_all add: unread_def Let_def read filter_empty_conv)
  moreover have "notif_store c2 = notif_store ?c'"
    using assms(4) c1 base_inv_data [OF inv1] v1 by (auto simp: centre_step_def handler_def settle_render_Inr)
  ultimately show ?thesis using render_counts [OF assms(5)] by (simp add: unread_def Let_def read)
qed

theorem open_marks_all_read_witness:
  "\<exists>c1 v1 c2 v2. centre_step (OpenPopover (Some TabAnnouncements)) sample_centre = Inr c1 \<and>
     render (inputs c1) (notif_store c1) = Inr v1 \<and> count_total (unreadCounts v1) = 0 \<and>
     centre_step (DataArrives (sample_inputs\<lparr>status := JObj [(''announcements_enabled'', JBool True),
       (''announcements'', JArr [JObj [(''id'', JStr ''3'')], JObj [(''id'', JStr ''2'')]])]\<rparr>)) c1 = Inr c2 \<and>
     render (inputs c2) (notif_store c2) = Inr v2 \<and> count_announcements (unreadCounts v2) = 1"
proof -
  let ?i = "sample_inputs\<lparr>status := JObj [(''announcements_enabled'', JBool True),
       (''announcements'', JArr [JObj [(''id'', JStr ''3'')], JObj [(''id'', JStr ''2'')]])]\<rparr>"
  let ?c1 = "sample_centre\<lparr>notif_store := \<lparr>lastReadNotice = ''Maintenance'', readAnnouncementKeys = [''id:1'', ''id:2''], closedUntilDate = None\<rparr>\<rparr>"
  let ?c2 = "?c1\<lparr>inputs := ?i, effect_key := Some []\<rparr>"
  have e: "render (inputs sample_centre) (notif_store sample_centre) =
      Inr \<lparr>view_keys = [''id:1'', ''id:2''], forcePopupKey = ''id:1'', unreadCounts = \<lparr>count_notice = 1, count_announcements = 2, count_total = 3\<rparr>\<rparr>"
    "centre_step (OpenPopover (Some TabAnnouncements)) sample_centre = Inr ?c1"
    "centre_step (DataArrives ?i) ?c1 = Inr ?c2"
    "render (inputs ?c2) (notif_store ?c2) = Inr \<lparr>view_keys = [''id:3'', ''id:2''], forcePopupKey = [],
       unreadCounts = \<lparr>count_notice = 0, count_announcements = 1, count_total = 1\<rparr>\<rparr>"
    by code_simp+
  show ?thesis using open_marks_all_read [OF sample_reachable e] e by auto
qed

text \<open>A forced popup the user has closed does not come back when the header is mounted again.\<close>

theorem closed_popup_stays_closed:
  assumes "centre_reachable c" and "centre_step ClosePopover c = Inr c1" and "centre_step Remount c1 = Inr c2"
  shows "\<not> popoverOpen c2"
proof -
  have inv: "centre_inv c" by (rule reachable_inv [OF assms(1)])
  obtain v c' where c': "effect_key c = Some (forcePopupKey v)" "handler ClosePopover v c = Inr c'" "base_inv c'"
      "centre_step ClosePopover c = settle_render c'" "base_inv c" "render (inputs c) (notif_store c) = Inr v"
    using centre_stepE [OF inv] inv unfolding centre_inv_def by metis
  obtain raw where raw: "c' = c\<lparr>seen_text := raw, popoverOpen := False\<rparr>" "forcePopupKey v = [] \<or> seen_has raw (forcePopupKey v)"
    using closePopover_total [OF c'(5,1)] c'(2) by (auto simp: handler_def)
  have c1: "c1 = c'"
    using assms(2) c' raw by (auto simp: settle_render_Inr effect_result_def Let_def)
  have "centre_step Remount c1 = settle_render (remount c1)" "base_inv (remount c1)"
    using c' raw c1 by (simp_all add: centre_step_def handler_def base_inv_remount)
  then show ?thesis
    using assms(3) c'(6) raw c1 by (auto simp: settle_render_Inr remount_def effect_result_def Let_def)
qed

theorem closed_popup_stays_closed_witness:
  "\<exists>c1 c2. popoverOpen sample_centre \<and> centre_step ClosePopover sample_centre = Inr c1 \<and>
     centre_step Remount c1 = Inr c2 \<and> \<not> popoverOpen c2"
proof -
  let ?c1 = "sample_centre\<lparr>popoverOpen := False, seen_text := Some (json_stringify 0 (JArr [JStr ''id:1'']))\<rparr>"
  have e: "centre_step ClosePopover sample_centre = Inr ?c1"
    "centre_step Remount ?c1 = Inr (?c1\<lparr>activeTab := TabNotice\<rparr>)" "popoverOpen sample_centre"
    by code_simp+
  show ?thesis using closed_popup_stays_closed [OF sample_reachable e(1,2)] e by blast
qed

lemma hash_word_sum:
  "hash_word h s = 31 ^ length s * h + (\<Sum>i<length s. 31 ^ (length s - Suc i) * of_char (s ! i))"
proof (induction s arbitrary: h)
  case (Cons c s)
  have "(\<Sum>i<length (c # s). 31 ^ (length (c # s) - Suc i) * of_char ((c # s) ! i)) =
      31 ^ length s * of_char c + (\<Sum>i<length s. 31 ^ (length s - Suc i) * of_char (s ! i) :: 32 word)"
    by (simp add: sum.lessThan_Suc_shift del: sum.lessThan_Suc)
  then show ?case by (simp add: Cons.IH algebra_simps)
qed simp

text \<open>The hash of a text is its polynomial in 31 modulo \<open>2 ^ 32\<close>, read as a signed 32-bit number and
  printed in base 36; the empty text is no exception.\<close>

theorem hashString_polynomial:
  "hashString s = to_string36 (sint (\<Sum>i<length s. 31 ^ (length s - Suc i) * of_char (s ! i) :: 32 word))"
proof (cases "s = []")
  case True
  have "to_string36 0 = ''0''" by code_simp
  then show ?thesis using True by (simp add: hashString_def)
next
  case False
  then show ?thesis using hash_word_sum [of 0 s] by (simp add: hashString_def hash_loop_word)
qed

end
