(* ===== verification/CurrencyDisplay.thy ===== *)
theory CurrencyDisplay
  imports JsFormat JsRegex JsJson
begin

text \<open>
  Amounts of money: the display settings (\<open>web/default/src/stores/system-config-store.ts\<close>,
  \<open>hooks/use-system-config.ts\<close>), the conversion of system dollars, quota units and local currency
  (\<open>lib/currency.ts\<close>) and the number formats built on them (\<open>lib/format.ts\<close>).

  All arithmetic is that of binary64 numbers. \<open>Intl.NumberFormat\<close> prints by the locale of the browser and is
  an argument: a function from the requested style and the largest number of fraction digits. \<open>Math.pow(10, -d)\<close> is the
  correctly rounded power. The formats of time stamps are left out; they belong to the package \<open>dayjs\<close>.

  The lemmas show that the conversion from quota units to the displayed currency and back loses nothing, in spite
  of four roundings.
\<close>

section \<open>Display settings\<close>

record CurrencyConfig =
  displayInCurrency :: jsval
  quotaDisplayType :: jsval
  quotaPerUnit :: jsnum
  usdExchangeRate :: jsnum
  customCurrencySymbol :: string
  customCurrencyExchangeRate :: jsnum

record SystemConfig =
  systemName :: jsval
  logo :: jsval
  footerHtml :: jsval
  demoSiteEnabled :: jsval
  displayTokenStatEnabled :: jsval
  currency :: CurrencyConfig

definition DEFAULT_CURRENCY_CONFIG :: CurrencyConfig where
  "DEFAULT_CURRENCY_CONFIG =
     \<lparr>displayInCurrency = JBool True, quotaDisplayType = JStr ''USD'', quotaPerUnit = Fin 500000,
      usdExchangeRate = Fin 1, customCurrencySymbol = [CHR 0xA4], customCurrencyExchangeRate = Fin 1\<rparr>"

definition DEFAULT_SYSTEM_NAME :: string where
  "DEFAULT_SYSTEM_NAME = ''New API''"

definition DEFAULT_LOGO :: string where
  "DEFAULT_LOGO = ''/logo.png''"

record SystemConfigState =
  config :: SystemConfig
  loading :: bool
  loadedLogoUrl :: jsval

definition initial_config_state :: SystemConfigState where
  "initial_config_state =
     \<lparr>config = \<lparr>systemName = JStr DEFAULT_SYSTEM_NAME, logo = JStr DEFAULT_LOGO, footerHtml = JUndefined,
                demoSiteEnabled = JUndefined, displayTokenStatEnabled = JUndefined, currency = DEFAULT_CURRENCY_CONFIG\<rparr>,
      loading = True, loadedLogoUrl = JStr DEFAULT_LOGO\<rparr>"

text \<open>A new configuration is either empty or has every field.\<close>

definition setConfig :: "SystemConfig option \<Rightarrow> SystemConfigState \<Rightarrow> SystemConfigState" where
  "setConfig newConfig st = (case newConfig of None \<Rightarrow> st | Some c \<Rightarrow> st\<lparr>config := c\<rparr>)"

definition setLoadedLogoUrl :: "jsval \<Rightarrow> SystemConfigState \<Rightarrow> SystemConfigState" where
  "setLoadedLogoUrl url st = st\<lparr>loadedLogoUrl := url\<rparr>"

definition setLoading :: "bool \<Rightarrow> SystemConfigState \<Rightarrow> SystemConfigState" where
  "setLoading b st = st\<lparr>loading := b\<rparr>"

definition toNumber :: "jsval \<Rightarrow> jsnum \<Rightarrow> jsnum" where
  "toNumber v fallback =
     (case v of
        JNum n \<Rightarrow> if n \<noteq> NaN then n else fallback
      | JStr s \<Rightarrow> if string_to_number s \<noteq> NaN then string_to_number s else fallback
      | _ \<Rightarrow> fallback)"

text \<open>\<open>v ?? w\<close>.\<close>

definition nullish_value :: "jsval \<Rightarrow> jsval \<Rightarrow> jsval" where
  "nullish_value v w = (if v = JUndefined \<or> v = JNull then w else v)"

datatype map_error = TrimOfNonString

definition trimmed_symbol :: "jsval \<Rightarrow> map_error + string" where
  "trimmed_symbol v =
     (case v of
        JStr s \<Rightarrow> Inr (str_or (trim s) (customCurrencySymbol DEFAULT_CURRENCY_CONFIG))
      | JUndefined \<Rightarrow> Inr (customCurrencySymbol DEFAULT_CURRENCY_CONFIG)
      | JNull \<Rightarrow> Inr (customCurrencySymbol DEFAULT_CURRENCY_CONFIG)
      | _ \<Rightarrow> Inl TrimOfNonString)"

definition mapStatusDataToConfig :: "jsval \<Rightarrow> map_error + SystemConfig option" where
  "mapStatusDataToConfig data =
     (if \<not> truthy data then Inr None
      else sbind (trimmed_symbol (prop_of data ''custom_currency_symbol'')) (\<lambda>symbol.
        Inr (Some
          \<lparr>systemName = value_or (prop_of data ''system_name'') (JStr DEFAULT_SYSTEM_NAME),
           logo = value_or (prop_of data ''logo'') (JStr DEFAULT_LOGO),
           footerHtml = prop_of data ''footer_html'',
           demoSiteEnabled = prop_of data ''demo_site_enabled'',
           displayTokenStatEnabled = prop_of data ''display_token_stat_enabled'',
           currency =
             \<lparr>displayInCurrency = nullish_value (prop_of data ''display_in_currency'') (displayInCurrency DEFAULT_CURRENCY_CONFIG),
              quotaDisplayType = nullish_value (prop_of data ''quota_display_type'') (quotaDisplayType DEFAULT_CURRENCY_CONFIG),
              quotaPerUnit = toNumber (prop_of data ''quota_per_unit'') (quotaPerUnit DEFAULT_CURRENCY_CONFIG),
              usdExchangeRate = toNumber (prop_of data ''usd_exchange_rate'') (usdExchangeRate DEFAULT_CURRENCY_CONFIG),
              customCurrencySymbol = symbol,
              customCurrencyExchangeRate =
                toNumber (prop_of data ''custom_currency_exchange_rate'') (customCurrencyExchangeRate DEFAULT_CURRENCY_CONFIG)\<rparr>\<rparr>)))"

text \<open>The answer of the server: none when the request fails, the status is an error or the body is not successful.\<close>

definition loadConfig :: "jsval option \<Rightarrow> SystemConfigState \<Rightarrow> SystemConfigState" where
  "loadConfig answer st =
     (let st1 = setLoading True st;
          st2 = (case answer of
                   None \<Rightarrow> st1
                 | Some data \<Rightarrow> (case mapStatusDataToConfig data of Inl _ \<Rightarrow> st1 | Inr c \<Rightarrow> setConfig c st1))
      in setLoading False st2)"

text \<open>The effect on the logo: when the image has loaded, and also when it has failed, its address counts as loaded.\<close>

definition logo_effect :: "SystemConfigState \<Rightarrow> SystemConfigState" where
  "logo_effect st =
     (let l = logo (config st) in
      if \<not> truthy l \<or> l = loadedLogoUrl st then st else setLoadedLogoUrl l st)"

definition logoLoaded :: "SystemConfigState \<Rightarrow> bool" where
  "logoLoaded st = (logo (config st) = loadedLogoUrl st \<and> truthy (loadedLogoUrl st))"

section \<open>Currency\<close>

record FormatOptions =
  digitsLarge :: nat
  digitsSmall :: nat
  abbreviate :: bool
  minimumNonZero :: jsnum

record CurrencyFormatOptions =
  opt_digitsLarge :: "nat option"
  opt_digitsSmall :: "nat option"
  opt_abbreviate :: "bool option"
  opt_minimumNonZero :: "jsnum option"

datatype DisplayMeta =
    MetaCurrency string string jsnum
  | MetaCustom string jsnum
  | MetaTokens jsnum

definition DEFAULT_FORMAT_OPTIONS :: FormatOptions where
  "DEFAULT_FORMAT_OPTIONS = \<lparr>digitsLarge = 2, digitsSmall = 4, abbreviate = True, minimumNonZero = Fin 0\<rparr>"

definition isCurrencyDisplayType :: "jsval \<Rightarrow> bool" where
  "isCurrencyDisplayType v = (v \<in> {JStr ''USD'', JStr ''CNY'', JStr ''TOKENS'', JStr ''CUSTOM''})"

definition parseCurrencyDisplayType :: "jsval \<Rightarrow> jsval \<Rightarrow> jsval" where
  "parseCurrencyDisplayType v fallback = (if isCurrencyDisplayType v then v else fallback)"

text \<open>\<open>x && x > 0 ? x : fallback\<close>.\<close>

definition positive_or :: "jsnum \<Rightarrow> jsnum \<Rightarrow> jsnum" where
  "positive_or x fallback = (if num_truthy x \<and> js_lt (Fin 0) x then x else fallback)"

definition getConfig :: "SystemConfig \<Rightarrow> CurrencyConfig" where
  "getConfig sys =
     (let c = currency sys in
      c\<lparr>quotaPerUnit := positive_or (quotaPerUnit c) (quotaPerUnit DEFAULT_CURRENCY_CONFIG),
        usdExchangeRate := positive_or (usdExchangeRate c) (usdExchangeRate DEFAULT_CURRENCY_CONFIG),
        customCurrencyExchangeRate :=
          positive_or (customCurrencyExchangeRate c) (customCurrencyExchangeRate DEFAULT_CURRENCY_CONFIG),
        customCurrencySymbol := str_or (trim (customCurrencySymbol c)) (customCurrencySymbol DEFAULT_CURRENCY_CONFIG)\<rparr>)"

definition getDisplayMeta :: "CurrencyConfig \<Rightarrow> DisplayMeta" where
  "getDisplayMeta c =
     (if quotaDisplayType c = JStr ''CNY'' then MetaCurrency [CHR 0xA5] ''CNY'' (usdExchangeRate c)
      else if quotaDisplayType c = JStr ''CUSTOM'' then MetaCustom (customCurrencySymbol c) (customCurrencyExchangeRate c)
      else if quotaDisplayType c = JStr ''TOKENS'' then MetaTokens (quotaPerUnit c)
      else MetaCurrency ''$'' ''USD'' (Fin 1))"

definition getBillingDisplayMeta :: "CurrencyConfig \<Rightarrow> DisplayMeta" where
  "getBillingDisplayMeta c =
     (case getDisplayMeta c of MetaTokens _ \<Rightarrow> MetaCurrency ''$'' ''USD'' (Fin 1) | meta \<Rightarrow> meta)"

definition mergeOptions :: "CurrencyFormatOptions option \<Rightarrow> FormatOptions" where
  "mergeOptions options =
     (case options of
        None \<Rightarrow> DEFAULT_FORMAT_OPTIONS
      | Some p \<Rightarrow>
          \<lparr>digitsLarge = nullish (opt_digitsLarge p) (digitsLarge DEFAULT_FORMAT_OPTIONS),
           digitsSmall = nullish (opt_digitsSmall p) (digitsSmall DEFAULT_FORMAT_OPTIONS),
           abbreviate = nullish (opt_abbreviate p) (abbreviate DEFAULT_FORMAT_OPTIONS),
           minimumNonZero = nullish (opt_minimumNonZero p) (minimumNonZero DEFAULT_FORMAT_OPTIONS)\<rparr>)"

text \<open>\<open>/(\.[0-9]*?)0+$/\<close> replaced by its first group, then \<open>/\.$/\<close> by nothing.\<close>

definition zeros_rx :: rx where
  "zeros_rx = seqs [Grp 1 (Seq (lit ''.'') (LazyStar (Cls is_digit))), Plus (Cls (\<lambda>c. c = CHR ''0'')), Eol]"

definition replace_first :: "rx \<Rightarrow> (caps \<Rightarrow> string) \<Rightarrow> string \<Rightarrow> string" where
  "replace_first r f s =
     (case rx_search r [] s of
        None \<Rightarrow> s
      | Some (found, (pre', rest, c)) \<Rightarrow> take (length s - length found) s @ f c @ rest)"

definition group_one :: "caps \<Rightarrow> string" where
  "group_one c = (case c 1 of Some s \<Rightarrow> s | None \<Rightarrow> [])"

definition removeTrailingZeros :: "string \<Rightarrow> string" where
  "removeTrailingZeros str =
     (if CHR ''.'' \<notin> set str then str
      else replace_first (Seq (lit ''.'') Eol) (\<lambda>_. []) (replace_first zeros_rx group_one str))"

definition formatNumberWithSuffix :: "jsnum \<Rightarrow> nat \<Rightarrow> nat \<Rightarrow> bool \<Rightarrow> string" where
  "formatNumberWithSuffix x large small abbr =
     (let a = js_abs x in
      if abbr \<and> js_le (Fin 1000) a then removeTrailingZeros (to_fixed 1 (js_div x (Fin 1000))) @ ''k''
      else removeTrailingZeros (to_fixed (if js_le (Fin 1) a then large else small) x))"

definition adjustForMinimum :: "jsnum \<Rightarrow> nat \<Rightarrow> jsnum \<Rightarrow> jsnum" where
  "adjustForMinimum x digits minimum =
     (if js_eq x (Fin 0) then x
      else let threshold = (if js_lt (Fin 0) minimum then minimum else fround (1 / 10 ^ digits)); a = js_abs x in
        if js_lt (Fin 0) a \<and> js_lt a threshold then (if js_lt (Fin 0) x then threshold else js_neg threshold)
        else x)"

datatype IntlStyle = IntlCurrency string | IntlDecimal | IntlCompact

type_synonym intl = "IntlStyle \<Rightarrow> nat \<Rightarrow> jsnum \<Rightarrow> string"

definition formatCurrencyValue :: "intl \<Rightarrow> jsnum \<Rightarrow> FormatOptions \<Rightarrow> DisplayMeta \<Rightarrow> string" where
  "formatCurrencyValue fmt x opts meta =
     (let digits = (if js_le (Fin 1) (js_abs x) then digitsLarge opts else digitsSmall opts);
          adjusted = adjustForMinimum x digits (minimumNonZero opts)
      in case meta of
           MetaTokens _ \<Rightarrow> formatNumberWithSuffix x (digitsLarge opts) (digitsSmall opts) (abbreviate opts)
         | MetaCurrency _ code _ \<Rightarrow> fmt (IntlCurrency code) digits adjusted
         | MetaCustom symbol _ \<Rightarrow> symbol @ '' '' @ fmt IntlDecimal digits adjusted)"

text \<open>\<open>None\<close> stands for \<open>null\<close> and \<open>undefined\<close>.\<close>

definition formatCurrencyFromUSD ::
  "intl \<Rightarrow> SystemConfig \<Rightarrow> jsnum option \<Rightarrow> CurrencyFormatOptions option \<Rightarrow> string" where
  "formatCurrencyFromUSD fmt sys amountUSD options =
     (case amountUSD of
        None \<Rightarrow> ''-''
      | Some x \<Rightarrow>
          if x = NaN then ''-''
          else let c = getConfig sys; meta = getDisplayMeta c; merged = mergeOptions options in
            case meta of
              MetaTokens _ \<Rightarrow>
                formatNumberWithSuffix (js_mul x (quotaPerUnit c)) 0 (digitsSmall merged) (abbreviate merged)
            | MetaCurrency _ _ rate \<Rightarrow> formatCurrencyValue fmt (js_mul x rate) merged meta
            | MetaCustom _ rate \<Rightarrow> formatCurrencyValue fmt (js_mul x rate) merged meta)"

definition formatBillingCurrencyFromUSD ::
  "intl \<Rightarrow> SystemConfig \<Rightarrow> jsnum option \<Rightarrow> CurrencyFormatOptions option \<Rightarrow> string" where
  "formatBillingCurrencyFromUSD fmt sys amountUSD options =
     (case amountUSD of
        None \<Rightarrow> ''-''
      | Some x \<Rightarrow>
          if x = NaN then ''-''
          else let meta = getBillingDisplayMeta (getConfig sys);
                   y = (case meta of
                          MetaCurrency _ _ rate \<Rightarrow> js_mul x rate
                        | MetaCustom _ rate \<Rightarrow> js_mul x rate
                        | MetaTokens _ \<Rightarrow> x)
               in formatCurrencyValue fmt y (mergeOptions options) meta)"

definition formatQuotaWithCurrency ::
  "intl \<Rightarrow> SystemConfig \<Rightarrow> jsnum option \<Rightarrow> CurrencyFormatOptions option \<Rightarrow> string" where
  "formatQuotaWithCurrency fmt sys quota options =
     (case quota of
        None \<Rightarrow> ''-''
      | Some q \<Rightarrow>
          if q = NaN then ''-''
          else formatCurrencyFromUSD fmt sys (Some (js_div q (quotaPerUnit (getConfig sys)))) options)"

definition getCurrencyLabel :: "SystemConfig \<Rightarrow> string" where
  "getCurrencyLabel sys =
     (let c = getConfig sys; meta = getDisplayMeta c in
      case meta of
        MetaTokens _ \<Rightarrow> ''Tokens''
      | _ \<Rightarrow>
          if quotaDisplayType c = JStr ''CNY'' then ''CNY''
          else if quotaDisplayType c = JStr ''CUSTOM'' then (case meta of MetaCustom symbol _ \<Rightarrow> symbol | _ \<Rightarrow> ''Custom'')
          else ''USD'')"

definition isCurrencyDisplayEnabled :: "SystemConfig \<Rightarrow> bool" where
  "isCurrencyDisplayEnabled sys = (case getDisplayMeta (getConfig sys) of MetaTokens _ \<Rightarrow> False | _ \<Rightarrow> True)"

definition formatLocalCurrencyAmount ::
  "intl \<Rightarrow> SystemConfig \<Rightarrow> jsnum option \<Rightarrow> CurrencyFormatOptions option \<Rightarrow> string" where
  "formatLocalCurrencyAmount fmt sys amount options =
     (case amount of
        None \<Rightarrow> ''-''
      | Some x \<Rightarrow>
          if x = NaN then ''-''
          else formatCurrencyValue fmt x (mergeOptions options) (getBillingDisplayMeta (getConfig sys)))"

section \<open>Numbers, quota, tokens and durations\<close>

definition formatNumber :: "intl \<Rightarrow> jsnum option \<Rightarrow> string" where
  "formatNumber fmt x = (case x of None \<Rightarrow> ''-'' | Some v \<Rightarrow> if v = NaN then ''-'' else fmt IntlDecimal 2 v)"

definition formatCompactNumber :: "intl \<Rightarrow> jsnum option \<Rightarrow> string" where
  "formatCompactNumber fmt x = (case x of None \<Rightarrow> ''-'' | Some v \<Rightarrow> if v = NaN then ''-'' else fmt IntlCompact 1 v)"

definition digit_options :: "nat \<Rightarrow> nat \<Rightarrow> bool \<Rightarrow> CurrencyFormatOptions option" where
  "digit_options large small abbr =
     Some \<lparr>opt_digitsLarge = Some large, opt_digitsSmall = Some small, opt_abbreviate = Some abbr, opt_minimumNonZero = None\<rparr>"

definition formatQuota :: "intl \<Rightarrow> SystemConfig \<Rightarrow> jsnum \<Rightarrow> string" where
  "formatQuota fmt sys quota = formatQuotaWithCurrency fmt sys (Some quota) (digit_options 2 4 True)"

definition formatLogQuota :: "intl \<Rightarrow> SystemConfig \<Rightarrow> jsnum \<Rightarrow> string" where
  "formatLogQuota fmt sys quota = formatQuotaWithCurrency fmt sys (Some quota) (digit_options 4 6 False)"

definition meta_rate :: "DisplayMeta \<Rightarrow> jsnum" where
  "meta_rate meta = (case meta of MetaCurrency _ _ r \<Rightarrow> r | MetaCustom _ r \<Rightarrow> r | MetaTokens _ \<Rightarrow> Fin 1)"

definition is_tokens :: "DisplayMeta \<Rightarrow> bool" where
  "is_tokens meta = (case meta of MetaTokens _ \<Rightarrow> True | _ \<Rightarrow> False)"

definition parseQuotaFromDollars :: "SystemConfig \<Rightarrow> jsnum \<Rightarrow> jsnum" where
  "parseQuotaFromDollars sys amount =
     (if \<not> is_finite amount then Fin 0
      else let c = getConfig sys; meta = getDisplayMeta c in
        if is_tokens meta then js_round amount
        else let exchangeRate = meta_rate meta;
                 usdAmount = (if js_lt (Fin 0) exchangeRate then js_div amount exchangeRate else amount)
             in js_round (js_mul usdAmount (quotaPerUnit c)))"

definition quotaUnitsToDollars :: "SystemConfig \<Rightarrow> jsnum \<Rightarrow> jsnum" where
  "quotaUnitsToDollars sys units =
     (let c = getConfig sys; meta = getDisplayMeta c in
      if is_tokens meta then units else js_mul (js_div units (quotaPerUnit c)) (meta_rate meta))"

definition formatTokens :: "jsnum \<Rightarrow> string" where
  "formatTokens tokens =
     (if js_eq tokens (Fin 0) then ''-''
      else if js_lt tokens (Fin 1000) then js_String tokens
      else if js_lt tokens (Fin 1000000) then to_fixed 1 (js_div tokens (Fin 1000)) @ ''K''
      else to_fixed 2 (js_div tokens (Fin 1000000)) @ ''M'')"

definition formatUseTime :: "jsnum \<Rightarrow> string" where
  "formatUseTime seconds =
     (if js_lt seconds (Fin 60) then to_fixed 1 seconds @ ''s''
      else js_String (js_floor (js_div seconds (Fin 60))) @ ''m '' @ to_fixed 0 (js_rem seconds (Fin 60)) @ ''s'')"

section \<open>Converting quota units and back\<close>

text \<open>Rates a site can be configured with, with a wide margin.\<close>

fun moderate :: "jsnum \<Rightarrow> bool" where
  "moderate (Fin x) = (1 / 2 ^ 200 \<le> x \<and> x \<le> 2 ^ 200)"
| "moderate _ = False"

lemma fround_step:
  assumes "\<bar>F - 1\<bar> \<le> \<delta>" "\<delta> \<le> 1 / 8" "1 / 2 ^ 800 \<le> \<bar>x\<bar>" "\<bar>x\<bar> \<le> 2 ^ 800"
  shows "\<exists>G. fround (x * F) = Fin (x * G) \<and> \<bar>G - 1\<bar> \<le> \<delta> + 9 / 8 / 2 ^ 53"
proof -
  have F: "7 / 8 \<le> F" "F \<le> 9 / 8" using assms(1,2) by linarith+
  have "\<bar>x\<bar> * (7 / 8) \<le> \<bar>x\<bar> * F" "\<bar>x\<bar> * F \<le> \<bar>x\<bar> * (9 / 8)" 
    using mult_left_mono [OF F(1), of "\<bar>x\<bar>"] mult_left_mono [OF F(2), of "\<bar>x\<bar>"] by (simp_all only: abs_ge_zero)
  moreover have "\<bar>x * F\<bar> = \<bar>x\<bar> * F" using F by (simp add: abs_mult)
  ultimately have "L * (7 / 8) \<le> \<bar>x * F\<bar> \<and> \<bar>x * F\<bar> \<le> H * (9 / 8)" if "L \<le> \<bar>x\<bar>" "\<bar>x\<bar> \<le> H" for L H
    using that by linarith
  from this [OF assms(3,4)] have b: "1 / 2 ^ 800 * (7 / 8) \<le> \<bar>x * F\<bar>" "\<bar>x * F\<bar> \<le> 2 ^ 800 * (9 / 8)" by blast+
  have "2 powi (- 1022) \<le> \<bar>x * F\<bar>" "\<bar>x * F\<bar> < 2 powi 1000"
    by (rule order_trans [OF _ b(1)], simp) (rule le_less_trans [OF b(2)], simp)
  then obtain e where e: "fround (x * F) = Fin (x * F * (1 + e))" "\<bar>e\<bar> \<le> 1 / 2 ^ 53"
    using fround_factor by blast
  have "\<bar>F * e\<bar> \<le> 9 / 8 * (1 / 2 ^ 53)" using F e(2) unfolding abs_mult by (intro mult_mono) auto
  moreover have "F * (1 + e) - 1 = (F - 1) + F * e" by (simp add: algebra_simps)
  ultimately have "\<bar>F * (1 + e) - 1\<bar> \<le> \<delta> + 9 / 8 / 2 ^ 53" using assms(1) by linarith
  then show ?thesis using e(1) by (intro exI [of _ "F * (1 + e)"]) (simp add: mult.assoc)
qed

lemma quotient_bounds:
  fixes m q :: rat
  assumes "1 \<le> \<bar>m\<bar>" "\<bar>m\<bar> \<le> 2 ^ 49" "1 / 2 ^ 200 \<le> q" "q \<le> 2 ^ 200"
  shows "1 / 2 ^ 200 \<le> \<bar>m / q\<bar>" "\<bar>m / q\<bar> \<le> 2 ^ 249"
proof -
  have q: "q > 0" using assms(3) by (rule less_le_trans [rotated]) simp
  have "1 / 2 ^ 200 \<le> \<bar>m\<bar> / q" using assms q by (intro frac_le) auto
  moreover have "\<bar>m\<bar> / q \<le> 2 ^ 49 / (1 / 2 ^ 200)" using assms q by (intro frac_le) auto
  ultimately show "1 / 2 ^ 200 \<le> \<bar>m / q\<bar>" "\<bar>m / q\<bar> \<le> 2 ^ 249" using q by (simp_all add: abs_divide)
qed

lemma round_near: "\<bar>d - of_int n\<bar> < (1 / 2 :: rat) \<Longrightarrow> \<lfloor>d + 1 / 2\<rfloor> = n"
  by linarith

text \<open>Four roundings on the way to the displayed currency and back stay below one half.\<close>

lemma quota_through_currency:
  assumes n: "\<bar>n\<bar> \<le> 2 ^ 49" and q: "1 / 2 ^ 200 \<le> q" "q \<le> 2 ^ 200" and r: "1 / 2 ^ 200 \<le> r" "r \<le> 2 ^ 200"
  shows "\<exists>b. js_mul (js_div (Fin (of_int n)) (Fin q)) (Fin r) = Fin b \<and>
    js_round (js_mul (js_div (Fin b) (Fin r)) (Fin q)) = Fin (of_int n)"
proof (cases "n = 0")
  case True
  have "q \<noteq> 0" "r \<noteq> 0" using q r by auto
  then show ?thesis using True round_near [of 0 0] by simp
next
  case False
  let ?n = "of_int n :: rat"
  have n1: "1 \<le> \<bar>?n\<bar>" "\<bar>?n\<bar> \<le> 2 ^ 49"
    using False n of_int_le_iff [of 1 "\<bar>n\<bar>", where 'a = rat] of_int_le_iff [of "\<bar>n\<bar>" "2 ^ 49", where 'a = rat] by simp_all
  have pos: "q > 0" "r > 0" using q r by (auto intro: less_le_trans [rotated])
  note nq = quotient_bounds [OF n1 q]
  have "1 / 2 ^ 200 * (1 / 2 ^ 200) \<le> \<bar>?n / q\<bar> * r" "\<bar>?n / q\<bar> * r \<le> 2 ^ 249 * 2 ^ 200"
    by (rule mult_mono [OF nq(1) r(1)], simp_all only: abs_ge_zero zero_le_divide_1_iff zero_le_power zero_le_numeral)
       (rule mult_mono [OF nq(2) r(2)], use pos in \<open>simp_all only: zero_le_power zero_le_numeral less_imp_le\<close>)
  then have nqr: "1 / 2 ^ 400 \<le> \<bar>?n / q * r\<bar>" "\<bar>?n / q * r\<bar> \<le> 2 ^ 449" using pos by (simp_all add: abs_mult)
  have big: "1 / 2 ^ 800 \<le> \<bar>x\<bar> \<and> \<bar>x\<bar> \<le> 2 ^ 800" if "1 / 2 ^ 400 \<le> \<bar>x\<bar>" "\<bar>x\<bar> \<le> 2 ^ 449" for x :: rat
    by (rule conjI, rule order_trans [OF _ that(1)], simp, rule order_trans [OF that(2)], simp)
  have nq': "1 / 2 ^ 400 \<le> \<bar>?n / q\<bar>" "\<bar>?n / q\<bar> \<le> 2 ^ 449"
    by (rule order_trans [OF _ nq(1)], simp, rule order_trans [OF nq(2)], simp)
  have n': "1 / 2 ^ 400 \<le> \<bar>?n\<bar>" "\<bar>?n\<bar> \<le> 2 ^ 449"
    by (rule order_trans [OF _ n1(1)], simp, rule order_trans [OF n1(2)], simp)
  obtain A where A: "fround (?n / q * 1) = Fin (?n / q * A)" "\<bar>A - 1\<bar> \<le> 0 + 9 / 8 / 2 ^ 53"
    using fround_step [of 1 0 "?n / q"] big [OF nq'] by auto
  obtain B where B: "fround (?n / q * r * A) = Fin (?n / q * r * B)" "\<bar>B - 1\<bar> \<le> 9 / 8 / 2 ^ 53 + 9 / 8 / 2 ^ 53"
    using fround_step [of A "9 / 8 / 2 ^ 53" "?n / q * r"] big [OF nqr] A by auto
  obtain C where C: "fround (?n / q * B) = Fin (?n / q * C)" "\<bar>C - 1\<bar> \<le> 9 / 4 / 2 ^ 53 + 9 / 8 / 2 ^ 53"
    using fround_step [of B "9 / 4 / 2 ^ 53" "?n / q"] big [OF nq'] B by auto
  obtain D where D: "fround (?n * C) = Fin (?n * D)" "\<bar>D - 1\<bar> \<le> 27 / 8 / 2 ^ 53 + 9 / 8 / 2 ^ 53"
    using fround_step [of C "27 / 8 / 2 ^ 53" "?n"] big [OF n'] C by auto
  have "\<bar>?n\<bar> * \<bar>D - 1\<bar> \<le> 2 ^ 49 * (9 / 2 / 2 ^ 53)" using n1(2) D(2) by (intro mult_mono) auto
  moreover have "\<bar>?n * D - ?n\<bar> = \<bar>?n\<bar> * \<bar>D - 1\<bar>" by (simp flip: abs_mult add: algebra_simps)
  ultimately have "\<bar>?n * D - ?n\<bar> < 1 / 2" by simp
  then have "\<lfloor>?n * D + 1 / 2\<rfloor> = n" by (rule round_near)
  moreover have "js_mul (js_div (Fin ?n) (Fin q)) (Fin r) = Fin (?n / q * r * B)"
    using A(1) B(1) pos by (simp add: mult_ac)
  moreover have "js_mul (js_div (Fin (?n / q * r * B)) (Fin r)) (Fin q) = Fin (?n * D)"
    using C(1) D(1) pos by (simp add: field_simps)
  ultimately show ?thesis by simp
qed


lemma positive_or_pos: "js_lt (Fin 0) fallback \<Longrightarrow> js_lt (Fin 0) (positive_or x fallback)"
  by (simp add: positive_or_def)

lemma moderate_Fin: "moderate x \<Longrightarrow> \<exists>v. x = Fin v \<and> 1 / 2 ^ 200 \<le> v \<and> v \<le> 2 ^ 200"
  by (cases x) simp_all

lemma quota_roundtrip:
  assumes "\<bar>n\<bar> \<le> 2 ^ 49"
    and "moderate (quotaPerUnit (getConfig sys))" and "moderate (meta_rate (getDisplayMeta (getConfig sys)))"
  shows "parseQuotaFromDollars sys (quotaUnitsToDollars sys (Fin (of_int n))) = Fin (of_int n)"
proof -
  obtain q r where q: "quotaPerUnit (getConfig sys) = Fin q" "1 / 2 ^ 200 \<le> q" "q \<le> 2 ^ 200"
    and r: "meta_rate (getDisplayMeta (getConfig sys)) = Fin r" "1 / 2 ^ 200 \<le> r" "r \<le> 2 ^ 200"
    using moderate_Fin [OF assms(2)] moderate_Fin [OF assms(3)] by blast
  have "0 < r" using r(2) by (rule less_le_trans [rotated]) simp
  then show ?thesis
    using quota_through_currency [OF assms(1) q(2,3) r(2,3)] round_near [of "of_int n" n]
    by (auto simp: parseQuotaFromDollars_def quotaUnitsToDollars_def Let_def q(1) r(1) simp del: js_mul.simps js_div.simps)
qed

lemma quota_dollars_finite:
  assumes "\<bar>n\<bar> \<le> 2 ^ 49"
    and "moderate (quotaPerUnit (getConfig sys))" and "moderate (meta_rate (getDisplayMeta (getConfig sys)))"
  shows "\<exists>b. quotaUnitsToDollars sys (Fin (of_int n)) = Fin b"
proof -
  obtain q r where q: "quotaPerUnit (getConfig sys) = Fin q" "1 / 2 ^ 200 \<le> q" "q \<le> 2 ^ 200"
    and r: "meta_rate (getDisplayMeta (getConfig sys)) = Fin r" "1 / 2 ^ 200 \<le> r" "r \<le> 2 ^ 200"
    using moderate_Fin [OF assms(2)] moderate_Fin [OF assms(3)] by blast
  show ?thesis
    using quota_through_currency [OF assms(1) q(2,3) r(2,3)]
    by (auto simp: quotaUnitsToDollars_def Let_def q(1) r(1) simp del: js_mul.simps js_div.simps)
qed

text \<open>C32: Showing a number of quota units in the display currency and reading the displayed amount back gives the same number
  of units, for up to \<open>2 ^ 49\<close> units and any moderate rates, whatever currency is displayed.\<close>

theorem quota_display_roundtrip:
  assumes "\<bar>n\<bar> \<le> 2 ^ 49"
    and "moderate (quotaPerUnit (getConfig sys))" and "moderate (meta_rate (getDisplayMeta (getConfig sys)))"
  shows "parseQuotaFromDollars sys (quotaUnitsToDollars sys (Fin (of_int n))) = Fin (of_int n)"
  using assms by (rule quota_roundtrip)

text \<open>The settings are always positive, whatever the server sent.\<close>

lemma getConfig_positive:
  "js_lt (Fin 0) (quotaPerUnit (getConfig sys))" "js_lt (Fin 0) (meta_rate (getDisplayMeta (getConfig sys)))"
  by (auto simp: getConfig_def Let_def DEFAULT_CURRENCY_CONFIG_def getDisplayMeta_def meta_rate_def intro!: positive_or_pos)

definition cny_config :: SystemConfig where
  "cny_config = (config initial_config_state)\<lparr>currency := DEFAULT_CURRENCY_CONFIG\<lparr>quotaDisplayType := JStr ''CNY'', usdExchangeRate := Fin (15 / 2)\<rparr>\<rparr>"

theorem quota_display_roundtrip_witness:
  "parseQuotaFromDollars cny_config (quotaUnitsToDollars cny_config (Fin (of_int 1234567))) = Fin (of_int 1234567)"
proof (rule quota_display_roundtrip)
  show "moderate (quotaPerUnit (getConfig cny_config))" by code_simp
  show "moderate (meta_rate (getDisplayMeta (getConfig cny_config)))" by code_simp
qed simp

section \<open>Displayed amounts\<close>

text \<open>A billing amount is converted once and then shown as a local amount; it never depends on the token display.\<close>

lemma billing_is_local:
  "formatBillingCurrencyFromUSD fmt sys (Some x) options =
   (if x = NaN then ''-''
    else formatLocalCurrencyAmount fmt sys (Some (js_mul x (meta_rate (getBillingDisplayMeta (getConfig sys))))) options)"
  if "js_mul x (meta_rate (getBillingDisplayMeta (getConfig sys))) \<noteq> NaN"
  using that
  by (auto simp: formatBillingCurrencyFromUSD_def formatLocalCurrencyAmount_def Let_def meta_rate_def getBillingDisplayMeta_def
      split: DisplayMeta.splits)

lemma billing_ignores_tokens:
  "formatBillingCurrencyFromUSD fmt (sys\<lparr>currency := (currency sys)\<lparr>quotaDisplayType := JStr ''TOKENS''\<rparr>\<rparr>) amount options =
   formatBillingCurrencyFromUSD fmt (sys\<lparr>currency := (currency sys)\<lparr>quotaDisplayType := JStr ''USD''\<rparr>\<rparr>) amount options"
  by (simp add: formatBillingCurrencyFromUSD_def getBillingDisplayMeta_def getDisplayMeta_def getConfig_def Let_def split: option.splits)

text \<open>An amount other than zero is never shown as less than the smallest displayable one, and keeps its sign.\<close>

lemma adjustForMinimum_bound:
  assumes "x \<noteq> 0"
  shows "\<exists>y. adjustForMinimum (Fin x) digits (Fin 0) = Fin y \<and> (y < 0 \<longleftrightarrow> x < 0) \<and>
    (fround (1 / 10 ^ digits) = Fin t \<longrightarrow> t \<le> \<bar>y\<bar>)"
proof -
  have "1 \<le> (10 :: rat) ^ digits" by simp
  then have "\<bar>1 / 10 ^ digits :: rat\<bar> \<le> 1" by (simp add: field_simps)
  also have "(1 :: rat) < 2 powi 1000" by simp
  finally obtain u where u: "fround (1 / 10 ^ digits) = Fin u" using fround_finite by blast
  have "0 \<le> u" using fround_nearest [OF u binary64_0] by (simp add: abs_if split: if_splits)
  then show ?thesis using assms u by (auto simp: adjustForMinimum_def js_eq_def Let_def abs_if)
qed

definition tokens_config :: SystemConfig where
  "tokens_config = (config initial_config_state)\<lparr>currency := DEFAULT_CURRENCY_CONFIG\<lparr>quotaDisplayType := JStr ''TOKENS''\<rparr>\<rparr>"

text \<open>Ten dollars at 500000 tokens per dollar are shown as \<open>5000k\<close>, not as \<open>5,000,000\<close>, whatever the locale.\<close>

theorem token_display_abbreviated:
  "formatCurrencyFromUSD fmt tokens_config (Some (Fin 10)) None = ''5000k''"
proof -
  have "js_mul (Fin 10) (quotaPerUnit (getConfig tokens_config)) = Fin 5000000"
    "getDisplayMeta (getConfig tokens_config) = MetaTokens (Fin 500000)"
    "formatNumberWithSuffix (Fin 5000000) 0 4 True = ''5000k''"
    by code_simp+
  then show ?thesis by (simp add: formatCurrencyFromUSD_def mergeOptions_def DEFAULT_FORMAT_OPTIONS_def del: js_mul.simps)
qed

text \<open>Rounding the seconds after the minutes are split off can show sixty of them, and rounding the thousands can
  show a thousand of them.\<close>

theorem rounded_units_overflow:
  "formatUseTime (Fin (479 / 4)) = ''1m 60s'' \<and> formatTokens (Fin 999999) = ''1000.0K''"
  by code_simp

end
