(* ===== verification/QuotaForms.thy ===== *)
theory QuotaForms
  imports CurrencyDisplay
begin

text \<open>
  The forms that edit amounts of quota: API keys (\<open>web/default/src/features/keys/lib/api-key-form.ts\<close>), redemption codes
  (\<open>features/redemption-codes/lib/redemption-form.ts\<close>), subscription plans (\<open>features/subscriptions/lib/plan-form.ts\<close>), users
  (\<open>features/users/lib/user-form.ts\<close>) and the dialog that adjusts a user's quota
  (\<open>features/users/components/user-quota-dialog.tsx\<close>).

  Each form shows a stored record in the display currency and turns the edited values back into a payload. The records hold
  the fields the functions read. A \<open>Date\<close> is its time value in milliseconds, \<open>NaN\<close> when invalid.

  The lemmas show that opening a record and saving it unedited sends what is stored, which rests on the round trip of
  amounts in \<open>CurrencyDisplay\<close> and on the exactness of dates in seconds.
\<close>

section \<open>Dates\<close>

definition new_Date :: "jsnum \<Rightarrow> jsnum" where
  "new_Date t =
     (case t of Fin x \<Rightarrow> if \<bar>x\<bar> \<le> 8640000000000000 then Fin (of_int (rat_trunc x)) else NaN | _ \<Rightarrow> NaN)"

text \<open>\<open>seconds > 0 ? new Date(seconds * 1000) : undefined\<close>.\<close>

definition expiry_date :: "jsnum \<Rightarrow> jsnum option" where
  "expiry_date seconds =
     (if js_lt (Fin 0) seconds then Some (new_Date (js_mul seconds (Fin 1000))) else None)"

text \<open>\<open>date ? Math.floor(date.getTime() / 1000) : never\<close>.\<close>

definition expiry_seconds :: "jsnum \<Rightarrow> jsnum option \<Rightarrow> jsnum" where
  "expiry_seconds never date =
     (case date of Some t \<Rightarrow> js_floor (js_div t (Fin 1000)) | None \<Rightarrow> never)"

section \<open>API keys\<close>

record ApiKey =
  ak_name :: string
  ak_remain_quota :: jsnum
  ak_unlimited_quota :: bool
  ak_expired_time :: jsnum
  ak_group :: "string option"
  ak_cross_group_retry :: bool
  ak_model_limits_enabled :: bool
  ak_model_limits :: "string option"
  ak_allow_ips :: "string option"

record ApiKeyFormValues =
  kf_name :: string
  kf_remain_quota_dollars :: "jsnum option"
  kf_expired_time :: "jsnum option"
  kf_unlimited_quota :: bool
  kf_model_limits :: "string list"
  kf_allow_ips :: "string option"
  kf_group :: "string option"
  kf_cross_group_retry :: "bool option"
  kf_tokenCount :: "jsnum option"

record ApiKeyFormData =
  kd_name :: string
  kd_remain_quota :: jsnum
  kd_expired_time :: jsnum
  kd_unlimited_quota :: bool
  kd_model_limits_enabled :: bool
  kd_model_limits :: string
  kd_allow_ips :: string
  kd_group :: string
  kd_cross_group_retry :: bool

definition key_DEFAULT_GROUP :: string where
  "key_DEFAULT_GROUP = []"

definition none_or :: "'a option \<Rightarrow> ('a \<Rightarrow> bool) \<Rightarrow> bool" where
  "none_or x P = (case x of None \<Rightarrow> True | Some v \<Rightarrow> P v)"

text \<open>A number of the schema library is finite; a date is valid.\<close>

definition apiKeyFormSchema :: "ApiKeyFormValues \<Rightarrow> bool" where
  "apiKeyFormSchema v =
     (kf_name v \<noteq> [] \<and>
      none_or (kf_remain_quota_dollars v) is_finite \<and>
      none_or (kf_expired_time v) (\<lambda>t. t \<noteq> NaN) \<and>
      none_or (kf_tokenCount v) (\<lambda>n. is_finite n \<and> js_le (Fin 1) n) \<and>
      (kf_unlimited_quota v \<or>
       (case kf_remain_quota_dollars v of None \<Rightarrow> False | Some x \<Rightarrow> \<not> js_lt x (Fin 0))))"

definition API_KEY_FORM_DEFAULT_VALUES :: ApiKeyFormValues where
  "API_KEY_FORM_DEFAULT_VALUES =
     \<lparr>kf_name = [], kf_remain_quota_dollars = Some (Fin 10), kf_expired_time = None, kf_unlimited_quota = True,
      kf_model_limits = [], kf_allow_ips = Some [], kf_group = Some key_DEFAULT_GROUP, kf_cross_group_retry = Some True,
      kf_tokenCount = Some (Fin 1)\<rparr>"

definition getApiKeyFormDefaultValues :: "bool \<Rightarrow> ApiKeyFormValues" where
  "getApiKeyFormDefaultValues defaultUseAutoGroup =
     API_KEY_FORM_DEFAULT_VALUES\<lparr>kf_group := Some (if defaultUseAutoGroup then ''auto'' else key_DEFAULT_GROUP),
       kf_cross_group_retry := Some defaultUseAutoGroup\<rparr>"

definition api_key_payload :: "SystemConfig \<Rightarrow> ApiKeyFormValues \<Rightarrow> ApiKeyFormData" where
  "api_key_payload sys data =
     \<lparr>kd_name = kf_name data,
      kd_remain_quota =
        (if kf_unlimited_quota data then Fin 0
         else parseQuotaFromDollars sys (or_zero (nullish (kf_remain_quota_dollars data) (Fin 0)))),
      kd_expired_time = expiry_seconds (Fin (- 1)) (kf_expired_time data),
      kd_unlimited_quota = kf_unlimited_quota data,
      kd_model_limits_enabled = (length (kf_model_limits data) > 0),
      kd_model_limits = join '','' (kf_model_limits data),
      kd_allow_ips = nullish (kf_allow_ips data) [],
      kd_group = nullish (kf_group data) [],
      kd_cross_group_retry =
        (if kf_group data = Some ''auto'' then nullish (kf_cross_group_retry data) False else False)\<rparr>"

definition transformApiKeyToFormDefaults :: "SystemConfig \<Rightarrow> ApiKey \<Rightarrow> ApiKeyFormValues" where
  "transformApiKeyToFormDefaults sys k =
     \<lparr>kf_name = ak_name k,
      kf_remain_quota_dollars =
        Some (if ak_unlimited_quota k then Fin 0 else quotaUnitsToDollars sys (ak_remain_quota k)),
      kf_expired_time = expiry_date (ak_expired_time k),
      kf_unlimited_quota = ak_unlimited_quota k,
      kf_model_limits =
        (let limits = nullish (ak_model_limits k) [] in
         if limits \<noteq> [] then filter_boolean (split_char CHR '','' limits) else []),
      kf_allow_ips = Some (nullish (ak_allow_ips k) []),
      kf_group = Some (str_or (nullish (ak_group k) []) key_DEFAULT_GROUP),
      kf_cross_group_retry = Some (ak_cross_group_retry k),
      kf_tokenCount = Some (Fin 1)\<rparr>"

section \<open>Redemption codes\<close>

record Redemption =
  rd_name :: string
  rd_quota :: jsnum
  rd_expired_time :: jsnum

record RedemptionFormValues =
  rf_name :: string
  rf_quota_dollars :: jsnum
  rf_expired_time :: "jsnum option"
  rf_count :: "jsnum option"

record RedemptionFormData =
  rp_name :: string
  rp_quota :: jsnum
  rp_expired_time :: jsnum
  rp_count :: jsnum

definition redemptionFormSchema :: "RedemptionFormValues \<Rightarrow> bool" where
  "redemptionFormSchema v =
     (1 \<le> length (rf_name v) \<and> length (rf_name v) \<le> 20 \<and>
      is_finite (rf_quota_dollars v) \<and> js_le (Fin 0) (rf_quota_dollars v) \<and>
      none_or (rf_expired_time v) (\<lambda>t. t \<noteq> NaN) \<and>
      none_or (rf_count v) (\<lambda>n. is_finite n \<and> js_le (Fin 1) n \<and> js_le n (Fin 100)))"

definition REDEMPTION_FORM_DEFAULT_VALUES :: RedemptionFormValues where
  "REDEMPTION_FORM_DEFAULT_VALUES =
     \<lparr>rf_name = [], rf_quota_dollars = Fin 10, rf_expired_time = None, rf_count = Some (Fin 1)\<rparr>"

definition redemption_payload :: "SystemConfig \<Rightarrow> RedemptionFormValues \<Rightarrow> RedemptionFormData" where
  "redemption_payload sys data =
     \<lparr>rp_name = rf_name data,
      rp_quota = parseQuotaFromDollars sys (rf_quota_dollars data),
      rp_expired_time = expiry_seconds (Fin 0) (rf_expired_time data),
      rp_count = (case rf_count data of Some n \<Rightarrow> if num_truthy n then n else Fin 1 | None \<Rightarrow> Fin 1)\<rparr>"

definition transformRedemptionToFormDefaults :: "SystemConfig \<Rightarrow> Redemption \<Rightarrow> RedemptionFormValues" where
  "transformRedemptionToFormDefaults sys r =
     \<lparr>rf_name = rd_name r,
      rf_quota_dollars = quotaUnitsToDollars sys (rd_quota r),
      rf_expired_time = expiry_date (rd_expired_time r),
      rf_count = Some (Fin 1)\<rparr>"

section \<open>Subscription plans\<close>

record SubscriptionPlan =
  sp_title :: string
  sp_subtitle :: "string option"
  sp_price_amount :: jsnum
  sp_duration_unit :: string
  sp_duration_value :: jsnum
  sp_custom_seconds :: "jsnum option"
  sp_quota_reset_period :: string
  sp_quota_reset_custom_seconds :: "jsnum option"
  sp_enabled :: "bool option"
  sp_sort_order :: jsnum
  sp_allow_balance_pay :: "bool option"
  sp_max_purchase_per_user :: jsnum
  sp_total_amount :: jsnum
  sp_upgrade_group :: "string option"
  sp_stripe_price_id :: "string option"
  sp_creem_product_id :: "string option"
  sp_waffo_pancake_product_id :: "string option"

record PlanFormValues =
  pf_title :: string
  pf_subtitle :: string
  pf_price_amount :: jsnum
  pf_duration_unit :: string
  pf_duration_value :: jsnum
  pf_custom_seconds :: jsnum
  pf_quota_reset_period :: string
  pf_quota_reset_custom_seconds :: jsnum
  pf_enabled :: bool
  pf_sort_order :: jsnum
  pf_allow_balance_pay :: bool
  pf_max_purchase_per_user :: jsnum
  pf_total_amount :: jsnum
  pf_upgrade_group :: string
  pf_stripe_price_id :: string
  pf_creem_product_id :: string
  pf_waffo_pancake_product_id :: string

record PlanPayload = PlanFormValues +
  pf_currency :: string

definition PLAN_FORM_DEFAULTS :: PlanFormValues where
  "PLAN_FORM_DEFAULTS =
     \<lparr>pf_title = [], pf_subtitle = [], pf_price_amount = Fin 0, pf_duration_unit = ''month'', pf_duration_value = Fin 1,
      pf_custom_seconds = Fin 0, pf_quota_reset_period = ''never'', pf_quota_reset_custom_seconds = Fin 0, pf_enabled = True,
      pf_sort_order = Fin 0, pf_allow_balance_pay = True, pf_max_purchase_per_user = Fin 0, pf_total_amount = Fin 0,
      pf_upgrade_group = [], pf_stripe_price_id = [], pf_creem_product_id = [], pf_waffo_pancake_product_id = []\<rparr>"

definition planFormSchema :: "PlanFormValues \<Rightarrow> bool" where
  "planFormSchema v =
     (let amount = (\<lambda>low x. is_finite x \<and> js_le (Fin low) x) in
      pf_title v \<noteq> [] \<and> amount 0 (pf_price_amount v) \<and>
      pf_duration_unit v \<in> {''year'', ''month'', ''day'', ''hour'', ''custom''} \<and>
      amount 1 (pf_duration_value v) \<and> amount 0 (pf_custom_seconds v) \<and>
      pf_quota_reset_period v \<in> {''never'', ''daily'', ''weekly'', ''monthly'', ''custom''} \<and>
      amount 0 (pf_quota_reset_custom_seconds v) \<and> is_finite (pf_sort_order v) \<and>
      amount 0 (pf_max_purchase_per_user v) \<and> amount 0 (pf_total_amount v))"

definition planToFormValues :: "SystemConfig \<Rightarrow> SubscriptionPlan \<Rightarrow> PlanFormValues" where
  "planToFormValues sys p =
     \<lparr>pf_title = sp_title p,
      pf_subtitle = nullish (sp_subtitle p) [],
      pf_price_amount = or_zero (sp_price_amount p),
      pf_duration_unit = str_or (sp_duration_unit p) ''month'',
      pf_duration_value = (if num_truthy (sp_duration_value p) then sp_duration_value p else Fin 1),
      pf_custom_seconds = or_zero (nullish (sp_custom_seconds p) (Fin 0)),
      pf_quota_reset_period = str_or (sp_quota_reset_period p) ''never'',
      pf_quota_reset_custom_seconds = or_zero (nullish (sp_quota_reset_custom_seconds p) (Fin 0)),
      pf_enabled = (sp_enabled p \<noteq> Some False),
      pf_sort_order = or_zero (sp_sort_order p),
      pf_allow_balance_pay = (sp_allow_balance_pay p \<noteq> Some False),
      pf_max_purchase_per_user = or_zero (sp_max_purchase_per_user p),
      pf_total_amount = quotaUnitsToDollars sys (or_zero (sp_total_amount p)),
      pf_upgrade_group = nullish (sp_upgrade_group p) [],
      pf_stripe_price_id = nullish (sp_stripe_price_id p) [],
      pf_creem_product_id = nullish (sp_creem_product_id p) [],
      pf_waffo_pancake_product_id = nullish (sp_waffo_pancake_product_id p) []\<rparr>"

definition formValuesToPlanPayload :: "SystemConfig \<Rightarrow> PlanFormValues \<Rightarrow> PlanPayload" where
  "formValuesToPlanPayload sys v =
     PlanFormValues.extend
       (v\<lparr>pf_price_amount := or_zero (pf_price_amount v),
          pf_duration_value := or_zero (pf_duration_value v),
          pf_custom_seconds := or_zero (pf_custom_seconds v),
          pf_quota_reset_period := str_or (pf_quota_reset_period v) ''never'',
          pf_quota_reset_custom_seconds :=
            (if pf_quota_reset_period v = ''custom'' then or_zero (pf_quota_reset_custom_seconds v) else Fin 0),
          pf_sort_order := or_zero (pf_sort_order v),
          pf_max_purchase_per_user := or_zero (pf_max_purchase_per_user v),
          pf_total_amount := parseQuotaFromDollars sys (or_zero (pf_total_amount v))\<rparr>)
       (PlanPayload.fields ''USD'')"

section \<open>Users\<close>

record User =
  us_username :: string
  us_display_name :: string
  us_role :: jsnum
  us_quota :: jsnum
  us_group :: "string option"
  us_remark :: "string option"

record UserFormValues =
  uf_username :: string
  uf_display_name :: "string option"
  uf_password :: "string option"
  uf_role :: "jsnum option"
  uf_quota_dollars :: "jsnum option"
  uf_group :: "string option"
  uf_remark :: "string option"

record UserFormData =
  ud_username :: string
  ud_display_name :: string
  ud_password :: "string option"
  ud_role :: "jsnum option"
  ud_group :: "string option"
  ud_remark :: "string option"
  ud_id :: "jsnum option"

definition user_DEFAULT_GROUP :: string where
  "user_DEFAULT_GROUP = ''default''"

definition userFormSchema :: "UserFormValues \<Rightarrow> bool" where
  "userFormSchema v =
     (uf_username v \<noteq> [] \<and> none_or (uf_role v) is_finite \<and>
      none_or (uf_quota_dollars v) (\<lambda>x. is_finite x \<and> js_le (Fin 0) x))"

definition USER_FORM_DEFAULT_VALUES :: UserFormValues where
  "USER_FORM_DEFAULT_VALUES =
     \<lparr>uf_username = [], uf_display_name = Some [], uf_password = Some [], uf_role = Some (Fin 1),
      uf_quota_dollars = Some (Fin 0), uf_group = Some user_DEFAULT_GROUP, uf_remark = Some []\<rparr>"

text \<open>\<open>s || undefined\<close>.\<close>

definition or_undefined :: "string option \<Rightarrow> string option" where
  "or_undefined s = (case s of Some t \<Rightarrow> if t = [] then None else Some t | None \<Rightarrow> None)"

definition user_payload :: "UserFormValues \<Rightarrow> jsnum option \<Rightarrow> UserFormData" where
  "user_payload data userId =
     (let p = \<lparr>ud_username = uf_username data,
               ud_display_name = str_or (nullish (uf_display_name data) []) (uf_username data),
               ud_password = or_undefined (uf_password data),
               ud_role = None, ud_group = None, ud_remark = None, ud_id = None\<rparr>
      in case userId of
           None \<Rightarrow> p\<lparr>ud_role := Some (let r = nullish (uf_role data) (Fin 0) in if num_truthy r then r else Fin 1)\<rparr>
         | Some i \<Rightarrow> p\<lparr>ud_group := uf_group data, ud_remark := or_undefined (uf_remark data), ud_id := Some i\<rparr>)"

definition transformUserToFormDefaults :: "SystemConfig \<Rightarrow> User \<Rightarrow> UserFormValues" where
  "transformUserToFormDefaults sys u =
     \<lparr>uf_username = us_username u, uf_display_name = Some (us_display_name u), uf_password = Some [],
      uf_role = Some (us_role u), uf_quota_dollars = Some (quotaUnitsToDollars sys (us_quota u)),
      uf_group = Some (str_or (nullish (us_group u) []) user_DEFAULT_GROUP),
      uf_remark = Some (nullish (us_remark u) [])\<rparr>"

text \<open>The submit handler of the drawer: a new user needs a password of 8 to 20 characters.\<close>

datatype user_submit = PasswordLength | SendUser UserFormData

definition user_onSubmit :: "jsnum option \<Rightarrow> UserFormValues \<Rightarrow> user_submit" where
  "user_onSubmit currentRow data =
     (let len = length (nullish (uf_password data) []) in
      if currentRow = None \<and> (len < 8 \<or> len > 20) then PasswordLength
      else SendUser (user_payload data currentRow))"

text \<open>The current quota the drawer hands to the dialog.\<close>

definition drawer_current_quota :: "SystemConfig \<Rightarrow> UserFormValues \<Rightarrow> jsnum" where
  "drawer_current_quota sys v = parseQuotaFromDollars sys (or_zero (nullish (uf_quota_dollars v) (Fin 0)))"

datatype QuotaAdjustMode = AddQuota | SubtractQuota | OverrideQuota

record QuotaDialog =
  qd_open :: bool
  qd_mode :: QuotaAdjustMode
  qd_amount :: string

definition amountValue :: "string \<Rightarrow> jsnum" where
  "amountValue amount = or_zero (parse_float amount)"

definition quotaValue :: "SystemConfig \<Rightarrow> string \<Rightarrow> jsnum" where
  "quotaValue sys amount = parseQuotaFromDollars sys (js_abs (amountValue amount))"

text \<open>The quota the preview announces.\<close>

definition preview_quota :: "SystemConfig \<Rightarrow> jsnum \<Rightarrow> QuotaDialog \<Rightarrow> jsnum" where
  "preview_quota sys current d =
     (case qd_mode d of
        AddQuota \<Rightarrow> js_add current (quotaValue sys (qd_amount d))
      | SubtractQuota \<Rightarrow> js_sub current (quotaValue sys (qd_amount d))
      | OverrideQuota \<Rightarrow> parseQuotaFromDollars sys (amountValue (qd_amount d)))"

record QuotaPayload =
  qp_id :: jsnum
  qp_mode :: QuotaAdjustMode
  qp_value :: jsnum

text \<open>\<open>handleConfirm\<close> up to the request: none when a guard returns early.\<close>

definition confirm_request :: "SystemConfig \<Rightarrow> jsnum \<Rightarrow> QuotaDialog \<Rightarrow> QuotaPayload option" where
  "confirm_request sys userId d =
     (let override = (qd_mode d = OverrideQuota); q = quotaValue sys (qd_amount d) in
      if qd_amount d = [] \<and> \<not> override then None
      else if js_le q (Fin 0) \<and> \<not> override then None
      else let v = (if override then parseQuotaFromDollars sys (amountValue (qd_amount d)) else q)
           in Some \<lparr>qp_id = userId, qp_mode = qd_mode d, qp_value = (if override then v else js_abs v)\<rparr>)"

definition confirm_success :: "QuotaDialog \<Rightarrow> QuotaDialog" where
  "confirm_success d = d\<lparr>qd_amount := [], qd_mode := AddQuota, qd_open := False\<rparr>"

definition handleCancel :: "QuotaDialog \<Rightarrow> QuotaDialog" where
  "handleCancel d = d\<lparr>qd_amount := [], qd_mode := AddQuota, qd_open := False\<rparr>"

definition select_mode :: "QuotaAdjustMode \<Rightarrow> QuotaDialog \<Rightarrow> QuotaDialog" where
  "select_mode m d = d\<lparr>qd_mode := m, qd_amount := []\<rparr>"

section \<open>Unedited saves\<close>

text \<open>The settings of a site whose amounts convert without loss.\<close>

definition moderate_rates :: "SystemConfig \<Rightarrow> bool" where
  "moderate_rates sys \<longleftrightarrow>
     moderate (quotaPerUnit (getConfig sys)) \<and> moderate (meta_rate (getDisplayMeta (getConfig sys)))"

text \<open>A stored amount: a whole number of units below \<open>2 ^ 49\<close>.\<close>

definition stored_quota :: "jsnum \<Rightarrow> bool" where
  "stored_quota x \<longleftrightarrow> (\<exists>n. x = Fin (of_int n) \<and> \<bar>n\<bar> \<le> 2 ^ 49)"

lemma stored_quota_roundtrip:
  assumes "moderate_rates sys" "stored_quota x"
  shows "parseQuotaFromDollars sys (quotaUnitsToDollars sys x) = x"
    and "parseQuotaFromDollars sys (or_zero (quotaUnitsToDollars sys x)) = x"
proof -
  obtain n where n: "x = Fin (of_int n)" "\<bar>n\<bar> \<le> 2 ^ 49" using assms(2) by (auto simp: stored_quota_def)
  show *: "parseQuotaFromDollars sys (quotaUnitsToDollars sys x) = x"
    using assms(1) n by (simp add: moderate_rates_def quota_roundtrip)
  obtain b where "quotaUnitsToDollars sys x = Fin b"
    using quota_dollars_finite [OF n(2)] assms(1) n(1) by (auto simp: moderate_rates_def)
  then have "or_zero (quotaUnitsToDollars sys x) = quotaUnitsToDollars sys x" by (simp add: or_zero_def num_truthy_def)
  then show "parseQuotaFromDollars sys (or_zero (quotaUnitsToDollars sys x)) = x" using * by simp
qed

text \<open>A date in whole seconds within the range of \<open>Date\<close>.\<close>

lemma expiry_roundtrip:
  assumes "0 < e" "e \<le> 8640000000000"
  shows "expiry_date (Fin (of_int e)) = Some (Fin (of_int (e * 1000)))"
    and "expiry_seconds never (Some (Fin (of_int (e * 1000)))) = Fin (of_int e)"
proof -
  have "fround (of_int (e * 1000)) = Fin (of_int (e * 1000))" by (rule fround_int) (use assms in simp)
  moreover have "rat_trunc (of_int (e * 1000)) = e * 1000" unfolding rat_trunc_def by (simp only: floor_of_int ceiling_of_int if_cancel)
  moreover have "\<bar>of_int (e * 1000)\<bar> \<le> (8640000000000000 :: rat)"
    using assms of_int_le_iff [of "\<bar>e * 1000\<bar>" 8640000000000000, where 'a = rat] by simp
  ultimately show "expiry_date (Fin (of_int e)) = Some (Fin (of_int (e * 1000)))"
    using assms(1) by (simp add: expiry_date_def new_Date_def)
  have "fround (of_int e) = Fin (of_int e)" by (rule fround_int) (use assms in simp)
  then show "expiry_seconds never (Some (Fin (of_int (e * 1000)))) = Fin (of_int e)"
    by (simp add: expiry_seconds_def)
qed

lemma expiry_never: "e \<le> 0 \<Longrightarrow> expiry_seconds never (expiry_date (Fin (of_int e))) = never"
  by (simp add: expiry_date_def expiry_seconds_def)

text \<open>An expiry as the server stores it: the value for never, or a whole number of seconds within the range of dates.\<close>

definition stored_expiry :: "int \<Rightarrow> jsnum \<Rightarrow> bool" where
  "stored_expiry never x \<longleftrightarrow> never \<le> 0 \<and> (\<exists>e. x = Fin (of_int e) \<and> (e = never \<or> 0 < e \<and> e \<le> 8640000000000))"

lemma stored_expiry_roundtrip: "stored_expiry never x \<Longrightarrow> expiry_seconds (Fin (of_int never)) (expiry_date x) = x"
  using expiry_roundtrip expiry_never by (auto simp: stored_expiry_def)

text \<open>A list of models as the form writes it.\<close>

definition stored_limits :: "string \<Rightarrow> bool" where
  "stored_limits s \<longleftrightarrow> s = [] \<or> (\<forall>m\<in>set (split_char CHR '','' s). m \<noteq> [])"

lemma stored_limits_roundtrip:
  assumes "stored_limits s"
  shows "join '','' (if s \<noteq> [] then filter_boolean (split_char CHR '','' s) else []) = s"
    and "(if s \<noteq> [] then filter_boolean (split_char CHR '','' s) else []) = [] \<longleftrightarrow> s = []"
  using assms by (auto simp: stored_limits_def filter_boolean_id join_split_char)

lemma fround_sign: "fround x = Fin y \<Longrightarrow> (0 \<le> x \<longrightarrow> 0 \<le> y) \<and> (x \<le> 0 \<longrightarrow> y \<le> 0)"
  using fround_nearest [of x y 0] binary64_int [of 0] by auto

text \<open>The amount shown for a stored quota is negative exactly when the quota is.\<close>

lemma dollars_sign:
  assumes "moderate_rates sys" "\<bar>n\<bar> \<le> 2 ^ 49"
  shows "\<exists>b. quotaUnitsToDollars sys (Fin (of_int n)) = Fin b \<and> (b < 0 \<longleftrightarrow> n < 0)"
proof -
  obtain q r where q: "quotaPerUnit (getConfig sys) = Fin q" "0 < q" and r: "meta_rate (getDisplayMeta (getConfig sys)) = Fin r" "0 < r"
    using assms(1) getConfig_positive [of sys] by (auto simp: moderate_rates_def dest!: moderate_Fin)
  obtain b where b: "quotaUnitsToDollars sys (Fin (of_int n)) = Fin b"
    using quota_dollars_finite [OF assms(2)] assms(1) by (auto simp: moderate_rates_def)
  have sign: "(0 \<le> n \<longrightarrow> 0 \<le> b) \<and> (n \<le> 0 \<longrightarrow> b \<le> 0)"
  proof (cases "is_tokens (getDisplayMeta (getConfig sys))")
    case True
    then show ?thesis using b by (auto simp: quotaUnitsToDollars_def)
  next
    case False
    then have m: "js_mul (fround (of_int n / q)) (Fin r) = Fin b"
      using b q r by (simp add: quotaUnitsToDollars_def Let_def)
    then obtain a where a: "fround (of_int n / q) = Fin a" using r(2) by (cases "fround (of_int n / q)") (auto simp: signed_infinity_def split: if_splits)
    then have "fround (a * r) = Fin b" using m by simp
    then show ?thesis
      using fround_sign [OF a] fround_sign [of "a * r" b] q(2) r(2)
      by (auto simp: zero_le_mult_iff mult_le_0_iff zero_le_divide_iff divide_le_0_iff)
  qed
  have "quotaUnitsToDollars sys (Fin 0) = Fin 0" using q r by (simp add: quotaUnitsToDollars_def Let_def)
  then have zero: "parseQuotaFromDollars sys (Fin 0) = Fin 0"
    using stored_quota_roundtrip(1) [OF assms(1), of "Fin 0"] by (simp add: stored_quota_def)
  have "stored_quota (Fin (of_int n))" using assms(2) by (auto simp: stored_quota_def)
  then have "n = 0" if "b = 0" using stored_quota_roundtrip(1) [OF assms(1), of "Fin (of_int n)"] b zero that by simp
  then have "b < 0 \<longleftrightarrow> n < 0" using sign by linarith
  then show ?thesis using b by blast
qed

text \<open>The models a stored list names.\<close>

definition listed_models :: "ApiKey \<Rightarrow> string list" where
  "listed_models k = filter_boolean (split_char CHR '','' (nullish (ak_model_limits k) []))"

lemma listed_models_opened: "kf_model_limits (transformApiKeyToFormDefaults sys k) = listed_models k"
  by (auto simp: transformApiKeyToFormDefaults_def listed_models_def Let_def filter_boolean_def)

text \<open>C33: What opening a stored API key and saving it unedited sends, for a quota of up to \<open>2 ^ 49\<close> units and an expiry within the range of
  dates, in whatever currency amounts are shown. The form is accepted exactly when the key has a name and, unless it is
  unlimited, no negative quota. Name, addresses and group are the stored ones, and so is the quota, except that an unlimited
  key is sent with zero. An expiry that is not positive is sent as \<open>-1\<close>, every other as stored. The models
  are those listed, without empty entries, and the limit is sent as enabled exactly when there is one, whatever flag was stored; a
  list without empty entries is sent as it is. The retry setting is sent as stored for the group \<open>auto\<close> and as off for every other.\<close>

theorem api_key_unedited_save:
  assumes "moderate_rates sys" and quota: "ak_remain_quota k = Fin (of_int n)" "\<bar>n\<bar> \<le> 2 ^ 49"
    and expiry: "ak_expired_time k = Fin (of_int e)" "e \<le> 8640000000000"
  shows "(apiKeyFormSchema (transformApiKeyToFormDefaults sys k) \<longleftrightarrow> ak_name k \<noteq> [] \<and> (ak_unlimited_quota k \<or> 0 \<le> n)) \<and>
    api_key_payload sys (transformApiKeyToFormDefaults sys k) =
    \<lparr>kd_name = ak_name k,
     kd_remain_quota = (if ak_unlimited_quota k then Fin 0 else Fin (of_int n)),
     kd_expired_time = (if 0 < e then Fin (of_int e) else Fin (- 1)),
     kd_unlimited_quota = ak_unlimited_quota k,
     kd_model_limits_enabled = (listed_models k \<noteq> []),
     kd_model_limits = join '','' (listed_models k),
     kd_allow_ips = nullish (ak_allow_ips k) [],
     kd_group = nullish (ak_group k) [],
     kd_cross_group_retry = (ak_group k = Some ''auto'' \<and> ak_cross_group_retry k)\<rparr> \<and>
    (stored_limits (nullish (ak_model_limits k) []) \<longrightarrow> join '','' (listed_models k) = nullish (ak_model_limits k) [])"
proof -
  have stored: "stored_quota (ak_remain_quota k)" using quota by (auto simp: stored_quota_def)
  obtain b where b: "quotaUnitsToDollars sys (Fin (of_int n)) = Fin b" "b < 0 \<longleftrightarrow> n < 0"
    using dollars_sign [OF assms(1) quota(2)] by blast
  have date: "none_or (expiry_date (Fin (of_int e))) (\<lambda>t. t \<noteq> NaN)"
    using expiry_roundtrip(1) [of e] expiry(2) by (cases "0 < e") (auto simp: none_or_def expiry_date_def)
  have "apiKeyFormSchema (transformApiKeyToFormDefaults sys k) \<longleftrightarrow> ak_name k \<noteq> [] \<and> (ak_unlimited_quota k \<or> 0 \<le> n)"
    using b date by (auto simp: apiKeyFormSchema_def transformApiKeyToFormDefaults_def quota(1) expiry(1) none_or_def
      js_le_def js_eq_def)
  moreover have "expiry_seconds (Fin (- 1)) (expiry_date (Fin (of_int e))) = (if 0 < e then Fin (of_int e) else Fin (- 1))"
    using expiry_roundtrip [of e] expiry(2) by (simp add: expiry_never)
  then have "api_key_payload sys (transformApiKeyToFormDefaults sys k) =
    \<lparr>kd_name = ak_name k,
     kd_remain_quota = (if ak_unlimited_quota k then Fin 0 else Fin (of_int n)),
     kd_expired_time = (if 0 < e then Fin (of_int e) else Fin (- 1)),
     kd_unlimited_quota = ak_unlimited_quota k,
     kd_model_limits_enabled = (listed_models k \<noteq> []),
     kd_model_limits = join '','' (listed_models k),
     kd_allow_ips = nullish (ak_allow_ips k) [],
     kd_group = nullish (ak_group k) [],
     kd_cross_group_retry = (ak_group k = Some ''auto'' \<and> ak_cross_group_retry k)\<rparr>"
    using stored_quota_roundtrip(2) [OF assms(1) stored]
    unfolding api_key_payload_def listed_models_opened
    by (auto simp: transformApiKeyToFormDefaults_def Let_def key_DEFAULT_GROUP_def str_or_def nullish_def quota(1) expiry(1)
        split: option.splits)
  moreover have "join '','' (listed_models k) = nullish (ak_model_limits k) []" if "stored_limits (nullish (ak_model_limits k) [])"
    using stored_limits_roundtrip(1) [OF that] by (auto simp: listed_models_def filter_boolean_def split: if_splits)
  ultimately show ?thesis by blast
qed

definition sample_key :: ApiKey where
  "sample_key =
     \<lparr>ak_name = ''ci'', ak_remain_quota = Fin (of_int 1234567), ak_unlimited_quota = False, ak_expired_time = Fin (of_int 1893456000),
      ak_group = Some ''auto'', ak_cross_group_retry = True, ak_model_limits_enabled = True,
      ak_model_limits = Some ''gpt-4o,o3'', ak_allow_ips = None\<rparr>"

lemma cny_moderate: "moderate_rates cny_config"
  by code_simp

theorem api_key_unedited_save_witness:
  "apiKeyFormSchema (transformApiKeyToFormDefaults cny_config sample_key) \<and>
   kd_remain_quota (api_key_payload cny_config (transformApiKeyToFormDefaults cny_config sample_key)) = Fin 1234567 \<and>
   kd_expired_time (api_key_payload cny_config (transformApiKeyToFormDefaults cny_config sample_key)) = Fin 1893456000 \<and>
   kd_model_limits (api_key_payload cny_config (transformApiKeyToFormDefaults cny_config sample_key)) = ''gpt-4o,o3''"
proof -
  have k: "ak_remain_quota sample_key = Fin (of_int 1234567)" "ak_expired_time sample_key = Fin (of_int 1893456000)"
    "ak_name sample_key \<noteq> []" "\<not> ak_unlimited_quota sample_key" by (simp_all add: sample_key_def)
  have b: "\<bar>1234567 :: int\<bar> \<le> 2 ^ 49" "(1893456000 :: int) \<le> 8640000000000" by simp_all
  have "stored_limits (nullish (ak_model_limits sample_key) [])" "nullish (ak_model_limits sample_key) [] = ''gpt-4o,o3''" by code_simp+
  then show ?thesis using api_key_unedited_save [OF cny_moderate k(1) b(1) k(2) b(2)] k(3,4) by simp
qed

text \<open>The same for redemption codes and plans, and the quota the dialog of a user starts from.\<close>

theorem redemption_unedited_save:
  assumes "moderate_rates sys" and "stored_quota (rd_quota r)" and "stored_expiry 0 (rd_expired_time r)"
  shows "redemption_payload sys (transformRedemptionToFormDefaults sys r) =
    \<lparr>rp_name = rd_name r, rp_quota = rd_quota r, rp_expired_time = rd_expired_time r, rp_count = Fin 1\<rparr>"
  using stored_quota_roundtrip [OF assms(1,2)] stored_expiry_roundtrip [OF assms(3)]
  by (simp add: redemption_payload_def transformRedemptionToFormDefaults_def num_truthy_def)

lemma or_zero_idem [simp]: "or_zero (or_zero x) = or_zero x"
  by (simp add: or_zero_def)

lemma or_zero_id: "num_truthy x \<Longrightarrow> or_zero x = x"
  by (simp add: or_zero_def)

theorem plan_unedited_save:
  assumes "moderate_rates sys" and "stored_quota (sp_total_amount p)"
    and "sp_quota_reset_period p = ''custom'' \<or> or_zero (nullish (sp_quota_reset_custom_seconds p) (Fin 0)) = Fin 0"
    and "sp_duration_unit p \<noteq> []" and "sp_quota_reset_period p \<noteq> []" and "num_truthy (sp_duration_value p)"
  shows "formValuesToPlanPayload sys (planToFormValues sys p) =
    PlanFormValues.extend ((planToFormValues sys p)\<lparr>pf_total_amount := sp_total_amount p\<rparr>) (PlanPayload.fields ''USD'')"
proof -
  have "or_zero (sp_total_amount p) = sp_total_amount p" using assms(2) by (auto simp: stored_quota_def or_zero_def num_truthy_def)
  then show ?thesis
    using stored_quota_roundtrip(2) [OF assms(1,2)] assms(3-6)
    by (cases "sp_quota_reset_period p = ''custom''")
       (simp_all add: formValuesToPlanPayload_def planToFormValues_def str_or_def or_zero_id)
qed

theorem user_dialog_current_quota:
  "moderate_rates sys \<Longrightarrow> stored_quota (us_quota u) \<Longrightarrow>
   drawer_current_quota sys (transformUserToFormDefaults sys u) = us_quota u"
  by (simp add: drawer_current_quota_def transformUserToFormDefaults_def nullish_def stored_quota_roundtrip)

section \<open>Adjusting a user's quota\<close>

text \<open>The request the quota dialog sends changes the quota to what the preview announced; adding and subtracting never
  send a negative amount.\<close>

theorem adjust_matches_preview:
  assumes "confirm_request sys userId d = Some p"
  shows "qp_mode p = qd_mode d \<and>
    preview_quota sys current d =
      (case qp_mode p of
         AddQuota \<Rightarrow> js_add current (qp_value p)
       | SubtractQuota \<Rightarrow> js_sub current (qp_value p)
       | OverrideQuota \<Rightarrow> qp_value p) \<and>
    (qp_mode p = OverrideQuota \<or> \<not> js_lt (qp_value p) (Fin 0))"
proof -
  have "js_abs q = q \<and> \<not> js_lt q (Fin 0)" if "\<not> js_le q (Fin 0)" for q
    using that by (cases q) (auto simp: js_le_def js_eq_def)
  then show ?thesis
    using assms by (cases "qd_mode d") (auto simp: confirm_request_def preview_quota_def Let_def split: if_splits)
qed

theorem adjust_matches_preview_witness:
  "preview_quota tokens_config (Fin 100) \<lparr>qd_open = True, qd_mode = SubtractQuota, qd_amount = ''40''\<rparr> = Fin 60"
proof -
  have "confirm_request tokens_config (Fin 1) \<lparr>qd_open = True, qd_mode = SubtractQuota, qd_amount = ''40''\<rparr> =
      Some \<lparr>qp_id = Fin 1, qp_mode = SubtractQuota, qp_value = Fin 40\<rparr>"
    "js_sub (Fin 100) (Fin 40) = Fin 60" by code_simp+
  then show ?thesis using adjust_matches_preview by fastforce
qed

text \<open>Confirming an override with an empty field sets the quota to zero.\<close>

lemma override_empty:
  assumes "moderate_rates sys"
  shows "confirm_request sys userId \<lparr>qd_open = b, qd_mode = OverrideQuota, qd_amount = []\<rparr> =
    Some \<lparr>qp_id = userId, qp_mode = OverrideQuota, qp_value = Fin 0\<rparr>"
proof -
  have "amountValue [] = Fin 0" by code_simp
  moreover obtain q r where "quotaPerUnit (getConfig sys) = Fin q" "meta_rate (getDisplayMeta (getConfig sys)) = Fin r" "0 < q"
    using assms getConfig_positive(1) [of sys] by (auto simp: moderate_rates_def dest!: moderate_Fin)
  moreover from this have "quotaUnitsToDollars sys (Fin 0) = Fin 0" by (simp add: quotaUnitsToDollars_def Let_def)
  ultimately show ?thesis
    using stored_quota_roundtrip(1) [OF assms, of "Fin 0"] by (simp add: confirm_request_def Let_def stored_quota_def)
qed

end
