(* ===== verification/PricingCatalog.thy ===== *)
theory PricingCatalog
  imports CurrencyDisplay RequestRules "HOL-Library.Multiset"
begin

text \<open>
  The public price list (\<open>web/default/src/features/pricing\<close>): the models joined with their vendors
  (\<open>hooks/use-pricing-data.ts\<close>), filters and order (\<open>lib/filters.ts\<close>, \<open>hooks/use-filters.ts\<close>), helpers
  (\<open>lib/model-helpers.ts\<close>), prices per token and per request (\<open>lib/price.ts\<close>) and prices of billing expressions
  (\<open>lib/dynamic-price.ts\<close>).

  A model is a record of the fields these functions read; a missing field is \<open>None\<close>. The sort of the language is stable, so
  for a consistent comparison its result is the one of the insertion sort used here. The order of \<open>localeCompare\<close> is an
  argument, as is \<open>Intl.NumberFormat\<close> (see \<open>CurrencyDisplay\<close>).
\<close>

section \<open>Models\<close>

record PricingVendor =
  vd_id :: jsnum
  vd_name :: string
  vd_icon :: "string option"
  vd_description :: "string option"

record PricingModel =
  model_name :: "string option"
  model_description :: "string option"
  vendor_id :: "jsnum option"
  vendor_name :: "string option"
  vendor_icon :: "string option"
  vendor_description :: "string option"
  quota_type :: jsnum
  model_ratio :: jsnum
  completion_ratio :: jsnum
  model_price :: "jsnum option"
  cache_ratio :: "jsnum option"
  create_cache_ratio :: "jsnum option"
  image_ratio :: "jsnum option"
  audio_ratio :: "jsnum option"
  audio_completion_ratio :: "jsnum option"
  enable_groups :: "string list option"
  model_tags :: "string option"
  supported_endpoint_types :: "string list option"
  group_ratio :: "(string \<times> jsnum) list option"
  billing_mode :: "string option"
  billing_expr :: "string option"

record PricingData =
  pd_data :: "PricingModel list option"
  pd_vendors :: "PricingVendor list option"
  pd_group_ratio :: "(string \<times> jsnum) list"

text \<open>\<open>Math.max(v ?? fallback, 0.001)\<close>.\<close>

definition rate_floor :: jsnum where
  "rate_floor = fround (1 / 1000)"

definition priceRate :: "jsnum option \<Rightarrow> jsnum" where
  "priceRate price = js_max (nullish price (Fin 1)) rate_floor"

definition pricing_exchange_rate :: "jsnum option \<Rightarrow> jsnum \<Rightarrow> jsnum" where
  "pricing_exchange_rate rate fallback = js_max (nullish rate fallback) rate_floor"

text \<open>A map keeps the last vendor with an id; the id zero counts as missing.\<close>

definition vendor_of :: "PricingVendor list \<Rightarrow> PricingModel \<Rightarrow> PricingVendor option" where
  "vendor_of vendors m =
     (case vendor_id m of
        Some i \<Rightarrow> if num_truthy i then map_of (rev (map (\<lambda>v. (vd_id v, v)) vendors)) i else None
      | None \<Rightarrow> None)"

definition pricing_models :: "PricingData option \<Rightarrow> PricingModel list" where
  "pricing_models data =
     (case data of
        None \<Rightarrow> []
      | Some d \<Rightarrow>
          (case (pd_data d, pd_vendors d) of
             (Some ms, Some vs) \<Rightarrow>
               map (\<lambda>m. let v = vendor_of vs m in
                      m\<lparr>vendor_name := map_option vd_name v, vendor_icon := Option.bind v vd_icon,
                        vendor_description := Option.bind v vd_description, group_ratio := Some (pd_group_ratio d)\<rparr>) ms
           | _ \<Rightarrow> []))"

section \<open>Helpers\<close>

definition FILTER_ALL :: string where
  "FILTER_ALL = ''all''"

definition EXCLUDED_GROUPS :: "string list" where
  "EXCLUDED_GROUPS = [[], ''auto'']"

definition getAvailableGroups :: "PricingModel \<Rightarrow> (string \<times> 'a) list \<Rightarrow> string list" where
  "getAvailableGroups m usableGroup =
     filter (\<lambda>g. g \<in> set (nullish (enable_groups m) []))
       (filter (\<lambda>g. g \<notin> set EXCLUDED_GROUPS) (obj_keys usableGroup))"

text \<open>For names without the \<open>$\<close> patterns of a replacement text.\<close>

definition replaceModelInPath :: "string \<Rightarrow> string \<Rightarrow> string" where
  "replaceModelInPath path modelName = rx_replace_all (lit ''{model}'') modelName [] path"

definition isTokenBasedModel :: "PricingModel \<Rightarrow> bool" where
  "isTokenBasedModel m = js_eq (quota_type m) (Fin 0)"

section \<open>Filters\<close>

definition lower_includes :: "string option \<Rightarrow> string \<Rightarrow> bool" where
  "lower_includes s query = (case s of Some t \<Rightarrow> str_includes query (to_lower t) | None \<Rightarrow> False)"

definition filterBySearch :: "PricingModel list \<Rightarrow> string \<Rightarrow> PricingModel list" where
  "filterBySearch models query =
     (if query = [] then models
      else let lowerQuery = to_lower query in
        filter (\<lambda>m. lower_includes (model_name m) lowerQuery \<or> lower_includes (model_description m) lowerQuery \<or>
                    lower_includes (model_tags m) lowerQuery \<or> lower_includes (vendor_name m) lowerQuery) models)"

definition filterByVendor :: "PricingModel list \<Rightarrow> string \<Rightarrow> PricingModel list" where
  "filterByVendor models vendor =
     (if vendor = FILTER_ALL then models else filter (\<lambda>m. vendor_name m = Some vendor) models)"

definition filterByGroup :: "PricingModel list \<Rightarrow> string \<Rightarrow> PricingModel list" where
  "filterByGroup models g =
     (if g = FILTER_ALL then models else filter (\<lambda>m. g \<in> set (nullish (enable_groups m) [])) models)"

definition filterByQuotaType :: "PricingModel list \<Rightarrow> string \<Rightarrow> PricingModel list" where
  "filterByQuotaType models quotaType =
     (if quotaType = ''all'' then models
      else let targetType = (if quotaType = ''token'' then Fin 0 else Fin 1) in
        filter (\<lambda>m. js_eq (quota_type m) targetType) models)"

definition filterByEndpointType :: "PricingModel list \<Rightarrow> string \<Rightarrow> PricingModel list" where
  "filterByEndpointType models endpointType =
     (if endpointType = ''all'' then models
      else filter (\<lambda>m. endpointType \<in> set (nullish (supported_endpoint_types m) [])) models)"

definition getModelPrice :: "PricingModel \<Rightarrow> jsnum" where
  "getModelPrice m =
     (if js_eq (quota_type m) (Fin 0) then model_ratio m else or_zero (nullish (model_price m) (Fin 0)))"

text \<open>\<open>sort(cmp)\<close>: \<open>x\<close> moves behind the elements it compares greater than.\<close>

fun insert_by :: "('a \<Rightarrow> 'a \<Rightarrow> jsnum) \<Rightarrow> 'a \<Rightarrow> 'a list \<Rightarrow> 'a list" where
  "insert_by cmp x [] = [x]"
| "insert_by cmp x (y # ys) = (if js_lt (Fin 0) (cmp x y) then y # insert_by cmp x ys else x # y # ys)"

definition sort_by :: "('a \<Rightarrow> 'a \<Rightarrow> jsnum) \<Rightarrow> 'a list \<Rightarrow> 'a list" where
  "sort_by cmp xs = foldr (insert_by cmp) xs []"

definition sortModels :: "(string \<Rightarrow> 'o::linorder) \<Rightarrow> PricingModel list \<Rightarrow> string \<Rightarrow> PricingModel list" where
  "sortModels locale_key models sortBy =
     (if sortBy = ''name'' then sort_key (\<lambda>m. locale_key (nullish (model_name m) [])) models
      else if sortBy = ''price-low'' then sort_by (\<lambda>a b. js_sub (getModelPrice a) (getModelPrice b)) models
      else if sortBy = ''price-high'' then sort_by (\<lambda>a b. js_sub (getModelPrice b) (getModelPrice a)) models
      else models)"

definition tag_separator :: "char \<Rightarrow> bool" where
  "tag_separator c = (c \<in> {CHR '','', CHR '';'', CHR ''|''} \<or> is_ws c)"

definition parseTags :: "string option \<Rightarrow> string list" where
  "parseTags tagsString =
     (let s = nullish tagsString [] in
      if s = [] then [] else filter_boolean (map trim (rx_split (Plus (Cls tag_separator)) [] s)))"

definition extractAllTags :: "(string \<Rightarrow> 'o::linorder) \<Rightarrow> PricingModel list \<Rightarrow> string list" where
  "extractAllTags locale_key models =
     sort_key locale_key (uniq (concat (map (\<lambda>m. map to_lower (parseTags (model_tags m))) models)))"

definition filterByTag :: "PricingModel list \<Rightarrow> string \<Rightarrow> PricingModel list" where
  "filterByTag models tag =
     (if tag = FILTER_ALL then models
      else filter (\<lambda>m. if nullish (model_tags m) [] = [] then False
                       else to_lower tag \<in> set (map to_lower (parseTags (model_tags m)))) models)"

record Filters =
  fl_search :: string
  fl_vendor :: string
  fl_group :: string
  fl_quotaType :: string
  fl_endpointType :: string
  fl_tag :: string
  fl_sortBy :: string

definition filterAndSortModels ::
  "(string \<Rightarrow> 'o::linorder) \<Rightarrow> PricingModel list \<Rightarrow> Filters \<Rightarrow> PricingModel list" where
  "filterAndSortModels locale_key models f =
     (let r1 = filterBySearch models (fl_search f);
          r2 = filterByVendor r1 (fl_vendor f);
          r3 = filterByGroup r2 (fl_group f);
          r4 = filterByQuotaType r3 (fl_quotaType f);
          r5 = filterByEndpointType r4 (fl_endpointType f);
          r6 = filterByTag r5 (fl_tag f)
      in sortModels locale_key r6 (fl_sortBy f))"

section \<open>The state of the filters\<close>

record FilterState =
  fs_search :: "string option"
  fs_sort :: "string option"
  fs_vendor :: "string option"
  fs_group :: "string option"
  fs_quotaType :: "string option"
  fs_endpointType :: "string option"
  fs_tag :: "string option"
  fs_tokenUnit :: "string option"
  fs_view :: "string option"
  fs_rechargePrice :: "bool option"

text \<open>\<open>v || fallback\<close>.\<close>

definition text_or :: "string option \<Rightarrow> string \<Rightarrow> string" where
  "text_or v fallback = str_or (nullish v []) fallback"

definition normalizeViewMode :: "string option \<Rightarrow> string" where
  "normalizeViewMode v = (if v = Some ''table'' then ''table'' else ''card'')"

definition searchInput :: "FilterState \<Rightarrow> string" where "searchInput s = text_or (fs_search s) []"
definition sortBy :: "FilterState \<Rightarrow> string" where "sortBy s = text_or (fs_sort s) ''name''"
definition vendorFilter :: "FilterState \<Rightarrow> string" where "vendorFilter s = text_or (fs_vendor s) FILTER_ALL"
definition groupFilter :: "FilterState \<Rightarrow> string" where "groupFilter s = text_or (fs_group s) FILTER_ALL"
definition quotaTypeFilter :: "FilterState \<Rightarrow> string" where "quotaTypeFilter s = text_or (fs_quotaType s) ''all''"
definition endpointTypeFilter :: "FilterState \<Rightarrow> string" where "endpointTypeFilter s = text_or (fs_endpointType s) ''all''"
definition tagFilter :: "FilterState \<Rightarrow> string" where "tagFilter s = text_or (fs_tag s) FILTER_ALL"
definition tokenUnit :: "FilterState \<Rightarrow> string" where "tokenUnit s = (if fs_tokenUnit s = Some ''K'' then ''K'' else ''M'')"
definition showRechargePrice :: "FilterState \<Rightarrow> bool" where "showRechargePrice s = (fs_rechargePrice s = Some True)"

text \<open>\<open>v === default ? undefined : v\<close>; an undefined value deletes the entry.\<close>

definition unless_default :: "string \<Rightarrow> string \<Rightarrow> string option" where
  "unless_default d v = (if v = d then None else Some v)"

definition setSearchInput :: "string \<Rightarrow> FilterState \<Rightarrow> FilterState" where
  "setSearchInput v s = s\<lparr>fs_search := unless_default [] v\<rparr>"
definition setSortBy :: "string \<Rightarrow> FilterState \<Rightarrow> FilterState" where
  "setSortBy v s = s\<lparr>fs_sort := unless_default ''name'' v\<rparr>"
definition setVendorFilter :: "string \<Rightarrow> FilterState \<Rightarrow> FilterState" where
  "setVendorFilter v s = s\<lparr>fs_vendor := unless_default FILTER_ALL v\<rparr>"
definition setGroupFilter :: "string \<Rightarrow> FilterState \<Rightarrow> FilterState" where
  "setGroupFilter v s = s\<lparr>fs_group := unless_default FILTER_ALL v\<rparr>"
definition setQuotaTypeFilter :: "string \<Rightarrow> FilterState \<Rightarrow> FilterState" where
  "setQuotaTypeFilter v s = s\<lparr>fs_quotaType := unless_default ''all'' v\<rparr>"
definition setEndpointTypeFilter :: "string \<Rightarrow> FilterState \<Rightarrow> FilterState" where
  "setEndpointTypeFilter v s = s\<lparr>fs_endpointType := unless_default ''all'' v\<rparr>"
definition setTagFilter :: "string \<Rightarrow> FilterState \<Rightarrow> FilterState" where
  "setTagFilter v s = s\<lparr>fs_tag := unless_default FILTER_ALL v\<rparr>"
definition setTokenUnit :: "string \<Rightarrow> FilterState \<Rightarrow> FilterState" where
  "setTokenUnit v s = s\<lparr>fs_tokenUnit := unless_default ''M'' v\<rparr>"
definition setViewMode :: "string \<Rightarrow> FilterState \<Rightarrow> FilterState" where
  "setViewMode v s = s\<lparr>fs_view := unless_default ''card'' v\<rparr>"
definition setShowRechargePrice :: "bool \<Rightarrow> FilterState \<Rightarrow> FilterState" where
  "setShowRechargePrice v s = s\<lparr>fs_rechargePrice := (if v then Some True else None)\<rparr>"

definition availableTags :: "(string \<Rightarrow> 'o::linorder) \<Rightarrow> PricingModel list \<Rightarrow> string list" where
  "availableTags locale_key models = (if models = [] then [] else extractAllTags locale_key models)"

definition active_filters :: "FilterState \<Rightarrow> Filters" where
  "active_filters s =
     \<lparr>fl_search = searchInput s, fl_vendor = vendorFilter s, fl_group = groupFilter s, fl_quotaType = quotaTypeFilter s,
      fl_endpointType = endpointTypeFilter s, fl_tag = tagFilter s, fl_sortBy = sortBy s\<rparr>"

definition filteredModels :: "(string \<Rightarrow> 'o::linorder) \<Rightarrow> PricingModel list \<Rightarrow> FilterState \<Rightarrow> PricingModel list" where
  "filteredModels locale_key models s =
     (if models = [] then [] else filterAndSortModels locale_key models (active_filters s))"

definition hasActiveFilters :: "FilterState \<Rightarrow> bool" where
  "hasActiveFilters s =
     (vendorFilter s \<noteq> FILTER_ALL \<or> groupFilter s \<noteq> FILTER_ALL \<or> quotaTypeFilter s \<noteq> ''all'' \<or>
      endpointTypeFilter s \<noteq> ''all'' \<or> tagFilter s \<noteq> FILTER_ALL)"

definition activeFilterCount :: "FilterState \<Rightarrow> nat" where
  "activeFilterCount s =
     (if vendorFilter s \<noteq> FILTER_ALL then 1 else 0) + (if groupFilter s \<noteq> FILTER_ALL then 1 else 0) +
     (if quotaTypeFilter s \<noteq> ''all'' then 1 else 0) + (if endpointTypeFilter s \<noteq> ''all'' then 1 else 0) +
     (if tagFilter s \<noteq> FILTER_ALL then 1 else 0)"

definition clearFilters :: "FilterState \<Rightarrow> FilterState" where
  "clearFilters s = s\<lparr>fs_vendor := None, fs_group := None, fs_quotaType := None, fs_endpointType := None, fs_tag := None\<rparr>"

definition clearSearch :: "FilterState \<Rightarrow> FilterState" where
  "clearSearch s = s\<lparr>fs_search := None\<rparr>"

section \<open>Prices\<close>

definition strip_rx :: rx where
  "strip_rx =
     seqs [Bol, Grp 1 (Star (Cls (\<lambda>c. \<not> is_digit c \<and> c \<noteq> CHR ''-''))),
           Grp 2 (seqs [Plus (Cls (\<lambda>c. is_digit c \<or> c = CHR ''-'' \<or> c = CHR '','')), Opt (lit ''.''), Star (Cls is_digit)]),
           Grp 3 (Opt (lit ''k'')), Eol]"

definition trailing_zeros_rx :: rx where
  "trailing_zeros_rx = seqs [Opt (lit ''.''), Plus (Cls (\<lambda>c. c = CHR ''0'')), Eol]"

definition stripTrailingZeros :: "string \<Rightarrow> string" where
  "stripTrailingZeros formatted =
     (case rx_match strip_rx formatted of
        None \<Rightarrow> formatted
      | Some c \<Rightarrow>
          (let parsed = parse_float (filter (\<lambda>x. x \<noteq> CHR '','') (cap c 2)) in
           if parsed = NaN then formatted
           else let result = js_String parsed;
                    result' = (if CHR ''e'' \<in> set result
                               then replace_first trailing_zeros_rx (\<lambda>_. []) (to_fixed 20 parsed) else result)
                in cap c 1 @ result' @ cap c 3))"

fun min_ratio_loop :: "string list \<Rightarrow> (string \<times> jsnum) list \<Rightarrow> jsnum \<Rightarrow> jsnum" where
  "min_ratio_loop [] ratios m = m"
| "min_ratio_loop (g # gs) ratios m =
     min_ratio_loop gs ratios (case map_of ratios g of Some r \<Rightarrow> if js_lt r m then r else m | None \<Rightarrow> m)"

definition getMinGroupRatio :: "string list \<Rightarrow> (string \<times> jsnum) list \<Rightarrow> jsnum" where
  "getMinGroupRatio enableGroups ratios =
     (if length enableGroups = 0 then Fin 1
      else let m = min_ratio_loop enableGroups ratios Infinity in if m = Infinity then Fin 1 else m)"

datatype PriceType = PriceInput | PriceOutput | PriceCache | PriceCreateCache | PriceImage | PriceAudioInput | PriceAudioOutput

definition hasRatio :: "jsnum option \<Rightarrow> bool" where
  "hasRatio v = (case v of Some x \<Rightarrow> is_finite x | None \<Rightarrow> False)"

definition times_ratio :: "jsnum \<Rightarrow> jsnum option \<Rightarrow> jsnum" where
  "times_ratio base v = (if hasRatio v then js_mul base (the v) else NaN)"

definition calculateTokenPrice :: "PricingModel \<Rightarrow> PriceType \<Rightarrow> jsnum \<Rightarrow> jsnum" where
  "calculateTokenPrice m ty ratio =
     (let base = js_mul (js_mul (model_ratio m) (Fin 2)) ratio in
      case ty of
        PriceInput \<Rightarrow> base
      | PriceOutput \<Rightarrow> js_mul base (completion_ratio m)
      | PriceCache \<Rightarrow> times_ratio base (cache_ratio m)
      | PriceCreateCache \<Rightarrow> times_ratio base (create_cache_ratio m)
      | PriceImage \<Rightarrow> times_ratio base (image_ratio m)
      | PriceAudioInput \<Rightarrow> times_ratio base (audio_ratio m)
      | PriceAudioOutput \<Rightarrow>
          if hasRatio (audio_ratio m) \<and> hasRatio (audio_completion_ratio m)
          then js_mul (js_mul base (the (audio_ratio m))) (the (audio_completion_ratio m)) else NaN)"

text \<open>The rates of a display: whether recharge prices are shown, the price of a dollar of credit and the exchange rate.\<close>

record Rates =
  rt_recharge :: bool
  rt_price :: jsnum
  rt_exchange :: jsnum

definition applyRechargeRate :: "jsnum \<Rightarrow> Rates \<Rightarrow> jsnum" where
  "applyRechargeRate price r =
     (if \<not> rt_recharge r then price else js_div (js_mul price (rt_price r)) (rt_exchange r))"

definition TOKEN_UNIT_DIVISORS :: "string \<Rightarrow> jsnum" where
  "TOKEN_UNIT_DIVISORS u = (if u = ''K'' then Fin 1000 else Fin 1)"

definition token_price_usd :: "PricingModel \<Rightarrow> PriceType \<Rightarrow> string \<Rightarrow> Rates \<Rightarrow> jsnum \<Rightarrow> jsnum" where
  "token_price_usd m ty u r ratio =
     js_div (applyRechargeRate (calculateTokenPrice m ty ratio) r) (TOKEN_UNIT_DIVISORS u)"

definition formatPrice :: "intl \<Rightarrow> SystemConfig \<Rightarrow> PricingModel \<Rightarrow> PriceType \<Rightarrow> string \<Rightarrow> Rates \<Rightarrow> string" where
  "formatPrice fmt sys m ty u r =
     (if js_eq (quota_type m) (Fin 1) then ''-''
      else formatCurrencyFromUSD fmt sys
        (Some (token_price_usd m ty u r
          (getMinGroupRatio (nullish (enable_groups m) []) (nullish (group_ratio m) []))))
        (digit_options 4 6 False))"

text \<open>\<open>groupRatio[group] || 1\<close>.\<close>

definition ratio_or_one :: "(string \<times> jsnum) list \<Rightarrow> string \<Rightarrow> jsnum" where
  "ratio_or_one ratios g = (case map_of ratios g of Some x \<Rightarrow> if num_truthy x then x else Fin 1 | None \<Rightarrow> Fin 1)"

definition formatGroupPrice ::
  "intl \<Rightarrow> SystemConfig \<Rightarrow> PricingModel \<Rightarrow> string \<Rightarrow> PriceType \<Rightarrow> string \<Rightarrow> Rates \<Rightarrow> (string \<times> jsnum) list \<Rightarrow> string" where
  "formatGroupPrice fmt sys m g ty u r ratios =
     (if js_eq (quota_type m) (Fin 1) then ''-''
      else formatCurrencyFromUSD fmt sys (Some (token_price_usd m ty u r (ratio_or_one ratios g))) (digit_options 4 6 False))"

definition request_price_usd :: "PricingModel \<Rightarrow> Rates \<Rightarrow> jsnum \<Rightarrow> jsnum" where
  "request_price_usd m r ratio = applyRechargeRate (js_mul (or_zero (nullish (model_price m) (Fin 0))) ratio) r"

definition formatFixedPrice ::
  "intl \<Rightarrow> SystemConfig \<Rightarrow> PricingModel \<Rightarrow> string \<Rightarrow> Rates \<Rightarrow> (string \<times> jsnum) list \<Rightarrow> string" where
  "formatFixedPrice fmt sys m g r ratios =
     (if \<not> js_eq (quota_type m) (Fin 1) then ''-''
      else formatCurrencyFromUSD fmt sys (Some (request_price_usd m r (ratio_or_one ratios g))) (digit_options 4 4 False))"

definition formatRequestPrice :: "intl \<Rightarrow> SystemConfig \<Rightarrow> PricingModel \<Rightarrow> Rates \<Rightarrow> string" where
  "formatRequestPrice fmt sys m r =
     (if \<not> js_eq (quota_type m) (Fin 1) then ''-''
      else formatCurrencyFromUSD fmt sys
        (Some (request_price_usd m r (getMinGroupRatio (nullish (enable_groups m) []) (nullish (group_ratio m) []))))
        (digit_options 4 4 False))"

section \<open>Prices of billing expressions\<close>

definition isDynamicPricingModel :: "PricingModel \<Rightarrow> bool" where
  "isDynamicPricingModel m = (billing_mode m = Some ''tiered_expr'' \<and> nullish (billing_expr m) [] \<noteq> [])"

definition getDynamicDisplayGroupRatio :: "PricingModel \<Rightarrow> jsnum" where
  "getDynamicDisplayGroupRatio m =
     (let groups = nullish (enable_groups m) []; ratios = nullish (group_ratio m) [] in
      if length groups = 0 then Fin 1
      else let mr = min_ratio_loop groups ratios Infinity in if mr = Infinity then Fin 1 else mr)"

record DynamicPriceOptions =
  do_tokenUnit :: string
  do_rates :: Rates
  do_groupRatioMultiplier :: jsnum

definition formatDynamicUnitPrice :: "intl \<Rightarrow> SystemConfig \<Rightarrow> jsnum \<Rightarrow> DynamicPriceOptions \<Rightarrow> string" where
  "formatDynamicUnitPrice fmt sys valuePerMillionTokens opts =
     formatBillingCurrencyFromUSD fmt sys
       (Some (applyRechargeRate
         (js_div (js_mul valuePerMillionTokens (do_groupRatioMultiplier opts)) (TOKEN_UNIT_DIVISORS (do_tokenUnit opts)))
         (do_rates opts)))
       (digit_options 4 6 False)"

definition getDynamicPricingTiers :: "PricingModel \<Rightarrow> parse_exn + ParsedTier list" where
  "getDynamicPricingTiers m =
     (if \<not> isDynamicPricingModel m then Inr []
      else sbind (splitBillingExprAndRequestRules (nullish (billing_expr m) [])) (\<lambda>s.
        Inr (parseTiersFromExpr (sb_billingExpr s))))"

definition hasDynamicRequestRules :: "PricingModel \<Rightarrow> parse_exn + bool" where
  "hasDynamicRequestRules m =
     (if \<not> isDynamicPricingModel m then Inr False
      else sbind (splitBillingExprAndRequestRules (nullish (billing_expr m) [])) (\<lambda>s.
        sbind (tryParseRequestRuleExpr (sb_requestRuleExpr s)) (\<lambda>rules.
          Inr (case rules of Some gs \<Rightarrow> gs \<noteq> [] | None \<Rightarrow> False))))"

record DynamicPriceEntry =
  de_key :: string
  de_field :: string
  de_label :: string
  de_shortLabel :: string
  de_value :: jsnum
  de_formatted :: string
  de_variable :: BillingVar

definition is_primary :: "DynamicPriceEntry \<Rightarrow> bool" where
  "is_primary e = (de_field e \<in> {''inputPrice'', ''outputPrice''})"

definition tier_entry :: "intl \<Rightarrow> SystemConfig \<Rightarrow> ParsedTier \<Rightarrow> DynamicPriceOptions \<Rightarrow> BillingVar \<Rightarrow> DynamicPriceEntry option" where
  "tier_entry fmt sys tier opts v =
     (case bv_field v of
        None \<Rightarrow> None
      | Some f \<Rightarrow>
          if f = [] then None
          else let x = (case map_of (pt_fields tier) f of Some n \<Rightarrow> n | None \<Rightarrow> NaN) in
            if \<not> is_finite x \<or> js_le x (Fin 0) then None
            else Some \<lparr>de_key = bv_key v, de_field = f, de_label = bv_label v, de_shortLabel = bv_shortLabel v,
                       de_value = x, de_formatted = formatDynamicUnitPrice fmt sys x opts, de_variable = v\<rparr>)"

definition primary_first :: "DynamicPriceEntry \<Rightarrow> DynamicPriceEntry \<Rightarrow> jsnum" where
  "primary_first a b =
     (if is_primary a \<noteq> is_primary b then (if is_primary a then Fin (- 1) else Fin 1) else Fin 0)"

definition getDynamicPriceEntries ::
  "intl \<Rightarrow> SystemConfig \<Rightarrow> ParsedTier option \<Rightarrow> DynamicPriceOptions \<Rightarrow> DynamicPriceEntry list" where
  "getDynamicPriceEntries fmt sys tier opts =
     (case tier of
        None \<Rightarrow> []
      | Some t \<Rightarrow> sort_by primary_first (List.map_filter (tier_entry fmt sys t opts) BILLING_PRICING_VARS))"

record DynamicPricingSummary =
  ds_tiers :: "ParsedTier list"
  ds_tier :: "ParsedTier option"
  ds_tierCount :: nat
  ds_hasRequestRules :: bool
  ds_isSpecialExpression :: bool
  ds_rawExpression :: string
  ds_entries :: "DynamicPriceEntry list"
  ds_primaryEntries :: "DynamicPriceEntry list"
  ds_secondaryEntries :: "DynamicPriceEntry list"

definition getDynamicPricingSummary ::
  "intl \<Rightarrow> SystemConfig \<Rightarrow> PricingModel \<Rightarrow> DynamicPriceOptions \<Rightarrow> parse_exn + DynamicPricingSummary option" where
  "getDynamicPricingSummary fmt sys m opts =
     (if \<not> isDynamicPricingModel m then Inr None
      else sbind (getDynamicPricingTiers m) (\<lambda>tiers.
        sbind (hasDynamicRequestRules m) (\<lambda>rules.
          let tier = (case tiers of [] \<Rightarrow> None | t # _ \<Rightarrow> Some t);
              entries = getDynamicPriceEntries fmt sys tier opts;
              raw = nullish (billing_expr m) []
          in Inr (Some
            \<lparr>ds_tiers = tiers, ds_tier = tier, ds_tierCount = length tiers, ds_hasRequestRules = rules,
             ds_isSpecialExpression = (length (trim raw) > 0 \<and> length tiers = 0), ds_rawExpression = raw,
             ds_entries = entries, ds_primaryEntries = filter is_primary entries,
             ds_secondaryEntries = filter (\<lambda>e. \<not> is_primary e) entries\<rparr>))))"

section \<open>Sorting by a comparison function\<close>

text \<open>The contract of a comparison function: on the values it is used with, it is positive exactly when its first argument
  belongs behind the second one in a total preorder.\<close>

locale comparison =
  fixes cmp :: "'a \<Rightarrow> 'a \<Rightarrow> jsnum"
    and ok :: "'a \<Rightarrow> bool"
    and le :: "'a \<Rightarrow> 'a \<Rightarrow> bool"
  assumes positive_iff: "ok x \<Longrightarrow> ok y \<Longrightarrow> js_lt (Fin 0) (cmp x y) \<longleftrightarrow> \<not> le x y"
    and total: "ok x \<Longrightarrow> ok y \<Longrightarrow> le x y \<or> le y x"
    and trans: "ok x \<Longrightarrow> ok y \<Longrightarrow> ok z \<Longrightarrow> le x y \<Longrightarrow> le y z \<Longrightarrow> le x z"
begin

lemma mset_insert_by: "mset (insert_by cmp x ys) = add_mset x (mset ys)"
  by (induction ys) auto

lemma mset_sort_by: "mset (sort_by cmp xs) = mset xs"
  by (induction xs) (simp_all add: sort_by_def mset_insert_by)

lemma set_sort_by: "set (sort_by cmp xs) = set xs"
  by (metis mset_sort_by set_mset_mset)

lemma sorted_insert_by:
  assumes "ok x" "\<forall>y\<in>set ys. ok y" "sorted_wrt le ys"
  shows "sorted_wrt le (insert_by cmp x ys)"
  using assms(2,3)
proof (induction ys)
  case (Cons y ys)
  have set_ins: "set (insert_by cmp x ys) = insert x (set ys)"
    using arg_cong [OF mset_insert_by [of x ys], of set_mset] by simp
  show ?case
  proof (cases "le x y")
    case True
    have "le x z" if "z \<in> set ys" for z
      using that Cons.prems assms(1) trans [of x y z] True by simp
    then show ?thesis using True Cons.prems assms(1) positive_iff [of x y] by simp
  next
    case False
    then have "le y x" using total [of x y] assms(1) Cons.prems by auto
    then show ?thesis using False Cons assms(1) positive_iff [of x y] set_ins by simp
  qed
qed simp

lemma sorted_sort_by: "\<forall>x\<in>set xs. ok x \<Longrightarrow> sorted_wrt le (sort_by cmp xs)"
proof (induction xs)
  case (Cons x xs)
  then show ?case using sorted_insert_by [of x "sort_by cmp xs"] set_sort_by by (simp add: sort_by_def)
qed (simp add: sort_by_def)

lemma filter_insert_by:
  assumes "ok x" "\<forall>y\<in>set ys. ok y" "\<And>y. Q x \<Longrightarrow> Q y \<Longrightarrow> le x y"
  shows "filter Q (insert_by cmp x ys) = filter Q (x # ys)"
  using assms(2) by (induction ys) (use assms(1,3) positive_iff in \<open>auto split: if_splits\<close>)

text \<open>The sort is stable: elements of equal rank keep their order.\<close>

lemma stable_sort_by:
  assumes "\<And>x y. Q x \<Longrightarrow> Q y \<Longrightarrow> le x y" "\<forall>x\<in>set xs. ok x"
  shows "filter Q (sort_by cmp xs) = filter Q xs"
  using assms(2)
proof (induction xs)
  case (Cons x xs)
  then show ?case
    using filter_insert_by [of x "sort_by cmp xs" Q] assms(1) set_sort_by by (simp add: sort_by_def)
qed (simp add: sort_by_def)

end

text \<open>Subtraction compares: the difference of two numbers is at least the least positive number, so it does not round to zero.\<close>

lemma binary64_grid: "binary64 a \<Longrightarrow> \<exists>m :: int. a = of_int m * 2 powi (- 1074)"
proof -
  assume "binary64 a"
  then obtain m k where mk: "a = of_int m * 2 powi k" "- 1074 \<le> k" by (auto simp: binary64_def)
  have "(2 :: rat) powi (k + 1074) = 2 ^ nat (k + 1074)" using mk(2) by (simp add: power_int_def)
  moreover have "(2 :: rat) powi ((k + 1074) + - 1074) = 2 powi (k + 1074) * 2 powi (- 1074)" by (rule power_int_add) simp
  ultimately have "(2 :: rat) powi k = 2 ^ nat (k + 1074) * 2 powi (- 1074)" by simp
  then show ?thesis using mk(1) by (intro exI [of _ "m * 2 ^ nat (k + 1074)"]) simp
qed

lemma fround_overflow:
  "fround x = Infinity \<Longrightarrow> 0 < x" "fround x = NegInfinity \<Longrightarrow> x < 0"
proof -
  obtain p q where pq: "quotient_of x = (p, q)" by (cases "quotient_of x")
  then have q: "q > 0" and x: "x = of_int p / of_int q"
    using quotient_of_denom_pos quotient_of_div by auto
  show "0 < x" if "fround x = Infinity"
    using that pq q by (auto simp: fround_def x split: if_splits option.splits)
  show "x < 0" if "fround x = NegInfinity"
    using that pq q by (auto simp: fround_def x divide_neg_pos split: if_splits option.splits)
qed

lemma fround_pos_iff:
  assumes "binary64 a" "binary64 b"
  shows "js_lt (Fin 0) (fround (a - b)) \<longleftrightarrow> b < a"
proof -
  let ?u = "2 powi (- 1074) :: rat"
  obtain m n where mn: "a = of_int m * ?u" "b = of_int n * ?u" using binary64_grid assms by metis
  have u: "?u > 0" by simp
  have bu: "binary64 ?u" by (rule binary64I [of _ 1 "- 1074"]) simp_all
  have "b < a" if "js_lt (Fin 0) (fround (a - b))"
  proof (rule ccontr)
    assume "\<not> b < a"
    then have le: "a - b \<le> 0" by simp
    show False
    proof (cases "fround (a - b)")
      case (Fin r)
      have "\<bar>r - (a - b)\<bar> \<le> \<bar>0 - (a - b)\<bar>" by (rule fround_nearest [OF Fin binary64_0])
      then show False using that le Fin by simp
    qed (use that le fround_overflow(1) [of "a - b"] in \<open>simp_all\<close>)
  qed
  moreover have "js_lt (Fin 0) (fround (a - b))" if "b < a"
  proof -
    have "n < m" using that u unfolding mn by simp
    then have "1 \<le> m - n" by simp
    then have "1 * ?u \<le> of_int (m - n) * ?u" using of_int_le_iff [of 1 "m - n", where 'a = rat] by (intro mult_right_mono) simp_all
    then have big: "?u \<le> a - b" by (simp add: mn left_diff_distrib)
    show ?thesis
    proof (cases "fround (a - b)")
      case (Fin r)
      have "\<bar>r - (a - b)\<bar> \<le> \<bar>?u - (a - b)\<bar>" by (rule fround_nearest [OF Fin bu])
      then have "0 < r" using big u by linarith
      then show ?thesis using Fin by simp
    qed (use that fround_overflow(2) [of "a - b"] in \<open>simp_all\<close>)
  qed
  ultimately show ?thesis by blast
qed

section \<open>The list on the page\<close>

definition priced :: "PricingModel \<Rightarrow> bool" where
  "priced m \<longleftrightarrow> (\<exists>p. getModelPrice m = Fin p \<and> binary64 p)"

definition price_value :: "PricingModel \<Rightarrow> rat" where
  "price_value m = (case getModelPrice m of Fin p \<Rightarrow> p | _ \<Rightarrow> 0)"

lemma price_difference:
  "priced a \<Longrightarrow> priced b \<Longrightarrow> js_lt (Fin 0) (js_sub (getModelPrice a) (getModelPrice b)) \<longleftrightarrow> price_value b < price_value a"
  using fround_pos_iff by (auto simp: priced_def price_value_def js_sub_def)

interpretation cheap: comparison "\<lambda>a b. js_sub (getModelPrice a) (getModelPrice b)" priced "\<lambda>a b. price_value a \<le> price_value b"
  by unfold_locales (auto simp: price_difference)

interpretation dear: comparison "\<lambda>a b. js_sub (getModelPrice b) (getModelPrice a)" priced "\<lambda>a b. price_value b \<le> price_value a"
  by unfold_locales (auto simp: price_difference)

interpretation primary: comparison primary_first "\<lambda>_. True" "\<lambda>a b. is_primary a \<or> \<not> is_primary b"
  by unfold_locales (auto simp: primary_first_def)

text \<open>What the filters of the page ask of one model.\<close>

definition matches :: "Filters \<Rightarrow> PricingModel \<Rightarrow> bool" where
  "matches f m \<longleftrightarrow>
     (fl_search f = [] \<or>
      (\<exists>s\<in>{model_name m, model_description m, model_tags m, vendor_name m}. lower_includes s (to_lower (fl_search f)))) \<and>
     (fl_vendor f = ''all'' \<or> vendor_name m = Some (fl_vendor f)) \<and>
     (fl_group f = ''all'' \<or> fl_group f \<in> set (nullish (enable_groups m) [])) \<and>
     (fl_quotaType f = ''all'' \<or> quota_type m = (if fl_quotaType f = ''token'' then Fin 0 else Fin 1)) \<and>
     (fl_endpointType f = ''all'' \<or> fl_endpointType f \<in> set (nullish (supported_endpoint_types m) [])) \<and>
     (fl_tag f = ''all'' \<or> to_lower (fl_tag f) \<in> to_lower ` set (parseTags (model_tags m)))"

lemma parseTags_empty: "nullish ts [] = [] \<Longrightarrow> parseTags ts = []"
  by (simp add: parseTags_def)

lemma filter_chain:
  "filterAndSortModels lk ms f = sortModels lk (filter (matches f) ms) (fl_sortBy f)"
proof -
  have "filterBySearch xs q = filter (\<lambda>m. q = [] \<or> (\<exists>s\<in>{model_name m, model_description m, model_tags m, vendor_name m}. lower_includes s (to_lower q))) xs"
    for xs q by (auto simp: filterBySearch_def Let_def intro!: filter_cong)
  moreover have "filterByVendor xs q = filter (\<lambda>m. q = ''all'' \<or> vendor_name m = Some q) xs" for xs q
    by (auto simp: filterByVendor_def FILTER_ALL_def)
  moreover have "filterByGroup xs q = filter (\<lambda>m. q = ''all'' \<or> q \<in> set (nullish (enable_groups m) [])) xs" for xs q
    by (auto simp: filterByGroup_def FILTER_ALL_def)
  moreover have "filterByQuotaType xs q = filter (\<lambda>m. q = ''all'' \<or> quota_type m = (if q = ''token'' then Fin 0 else Fin 1)) xs" for xs q
    by (auto simp: filterByQuotaType_def Let_def js_eq_def intro!: filter_cong)
  moreover have "filterByEndpointType xs q = filter (\<lambda>m. q = ''all'' \<or> q \<in> set (nullish (supported_endpoint_types m) [])) xs" for xs q
    by (auto simp: filterByEndpointType_def)
  moreover have "filterByTag xs q = filter (\<lambda>m. q = ''all'' \<or> to_lower q \<in> to_lower ` set (parseTags (model_tags m))) xs" for xs q
    using parseTags_empty by (auto simp: filterByTag_def FILTER_ALL_def intro!: filter_cong)
  ultimately show ?thesis
    unfolding filterAndSortModels_def Let_def 
    by (simp only: filter_filter) (rule arg_cong2 [where f = "sortModels lk", OF filter_cong refl], rule refl, unfold matches_def, blast)
qed

lemma mset_sortModels: "mset (sortModels lk ms s) = mset ms"
  by (simp add: sortModels_def cheap.mset_sort_by dear.mset_sort_by)

text \<open>C34: The page lists each model that passes every filter exactly as often as it occurs, and no other; by name the list follows
  the locale's order, by price it is monotone although prices are compared by a rounded subtraction.\<close>

theorem filtered_models_correct:
  assumes "\<forall>m\<in>set ms. priced m"
  shows "mset (filterAndSortModels lk ms f) = mset (filter (matches f) ms) \<and>
    (fl_sortBy f = ''name'' \<longrightarrow> sorted (map (\<lambda>m. lk (nullish (model_name m) [])) (filterAndSortModels lk ms f))) \<and>
    (fl_sortBy f = ''price-low'' \<longrightarrow> sorted_wrt (\<lambda>a b. price_value a \<le> price_value b) (filterAndSortModels lk ms f)) \<and>
    (fl_sortBy f = ''price-high'' \<longrightarrow> sorted_wrt (\<lambda>a b. price_value b \<le> price_value a) (filterAndSortModels lk ms f))"
  using assms cheap.sorted_sort_by [of "filter (matches f) ms"] dear.sorted_sort_by [of "filter (matches f) ms"]
  by (simp add: filter_chain mset_sortModels) (simp add: sortModels_def)

definition sample_model :: "string \<Rightarrow> rat \<Rightarrow> string \<Rightarrow> PricingModel" where
  "sample_model name ratio tags =
     \<lparr>model_name = Some name, model_description = None, vendor_id = None, vendor_name = None, vendor_icon = None,
      vendor_description = None, quota_type = Fin 0, model_ratio = Fin ratio, completion_ratio = Fin 1, model_price = None,
      cache_ratio = None, create_cache_ratio = None, image_ratio = None, audio_ratio = None, audio_completion_ratio = None,
      enable_groups = Some [''free''], model_tags = Some tags, supported_endpoint_types = None,
      group_ratio = Some [(''free'', Fin 0)], billing_mode = None, billing_expr = None\<rparr>"

definition no_filters :: Filters where
  "no_filters = \<lparr>fl_search = [], fl_vendor = ''all'', fl_group = ''all'', fl_quotaType = ''all'', fl_endpointType = ''all'',
     fl_tag = ''all'', fl_sortBy = ''price-low''\<rparr>"

lemma binary64_numeral: "binary64 (numeral w)" if "(numeral w :: int) \<le> 2 ^ 53"
  using binary64_int [of "numeral w"] that by simp

theorem filtered_models_correct_witness:
  "let ms = [sample_model ''b'' 3 ''Vision, chat'', sample_model ''a'' 2 ''chat''];
       r = filterAndSortModels (\<lambda>s. length s) ms no_filters in
   mset r = mset ms \<and> sorted_wrt (\<lambda>a b. price_value a \<le> price_value b) r"
proof -
  let ?ms = "[sample_model ''b'' 3 ''Vision, chat'', sample_model ''a'' 2 ''chat'']"
  have "\<forall>m\<in>set ?ms. priced m"
    by (simp add: priced_def getModelPrice_def sample_model_def js_eq_def binary64_numeral)
  from filtered_models_correct [OF this, of "\<lambda>s. length s" no_filters] show ?thesis
    by (simp add: no_filters_def matches_def)
qed

section \<open>The filters of the page\<close>

lemma to_lower_char_idem: "to_lower_char (to_lower_char c) = to_lower_char c"
proof -
  define n where "n = (of_char c :: nat)"
  have c: "of_char (char_of (n + 32)) = n + 32" if "n \<le> 222" using that by (simp add: mod_less)
  show ?thesis
  proof (cases "65 \<le> n \<and> n \<le> 90 \<or> 192 \<le> n \<and> n \<le> 222 \<and> n \<noteq> 215")
    case True
    then have "to_lower_char c = char_of (n + 32)" "of_char (char_of (n + 32)) = n + 32"
      using c by (auto simp: to_lower_char_def n_def Let_def)
    moreover have "\<not> (65 \<le> n + 32 \<and> n + 32 \<le> 90 \<or> 192 \<le> n + 32 \<and> n + 32 \<le> 222 \<and> n + 32 \<noteq> 215)"
      using True by auto
    ultimately show ?thesis by (simp only: to_lower_char_def Let_def if_False)
  next
    case False
    then have "to_lower_char c = c" unfolding to_lower_char_def n_def [symmetric] Let_def by (simp only: if_False)
    then show ?thesis by simp
  qed
qed

lemma to_lower_idem [simp]: "to_lower (to_lower s) = to_lower s"
  by (simp add: to_lower_def to_lower_char_idem)

lemma set_extractAllTags: "set (extractAllTags lk ms) = (\<Union>m\<in>set ms. to_lower ` set (parseTags (model_tags m)))"
  by (simp add: extractAllTags_def)

lemma parseTags_nonempty: "t \<in> set (parseTags ts) \<Longrightarrow> t \<noteq> []"
  by (auto simp: parseTags_def Let_def filter_boolean_def split: if_splits)

lemma set_filteredModels: "set (filteredModels lk ms s) = {m \<in> set ms. matches (active_filters s) m}"
proof -
  have "set (sortModels lk xs k) = set xs" for xs k by (metis mset_sortModels set_mset_mset)
  then show ?thesis by (simp add: filteredModels_def filter_chain)
qed

lemmas filter_getters =
  searchInput_def sortBy_def vendorFilter_def groupFilter_def quotaTypeFilter_def endpointTypeFilter_def tagFilter_def
  text_or_def nullish_def str_or_def FILTER_ALL_def

lemmas filter_setters =
  setSearchInput_def setSortBy_def setVendorFilter_def setGroupFilter_def setQuotaTypeFilter_def setEndpointTypeFilter_def
  setTagFilter_def setTokenUnit_def setViewMode_def setShowRechargePrice_def unless_default_def clearFilters_def clearSearch_def

text \<open>Every tag the page offers, except one called \<open>all\<close>, selects at least one model, and exactly the models that carry it
  in some spelling, once the other filters are cleared.\<close>

theorem offered_tag_selects:
  assumes "t \<in> set (availableTags lk ms)" and "t \<noteq> ''all''"
  shows "set (filteredModels lk ms (setTagFilter t (clearFilters (clearSearch s)))) =
      {m \<in> set ms. t \<in> to_lower ` set (parseTags (model_tags m))} \<and>
    filteredModels lk ms (setTagFilter t (clearFilters (clearSearch s))) \<noteq> []"
proof -
  obtain m where m: "m \<in> set ms" "t \<in> to_lower ` set (parseTags (model_tags m))"
    using assms(1) by (auto simp: availableTags_def set_extractAllTags split: if_splits)
  then have t: "t \<noteq> []" "to_lower t = t" using parseTags_nonempty by (auto simp: to_lower_def to_lower_char_idem)
  have eq: "set (filteredModels lk ms (setTagFilter t (clearFilters (clearSearch s)))) =
      {m \<in> set ms. t \<in> to_lower ` set (parseTags (model_tags m))}"
    using t assms(2) by (simp add: set_filteredModels matches_def active_filters_def filter_getters filter_setters)
  moreover have "m \<in> set (filteredModels lk ms (setTagFilter t (clearFilters (clearSearch s))))" using m unfolding eq by simp
  ultimately show ?thesis by auto
qed

theorem offered_tag_selects_witness:
  "filteredModels (\<lambda>s. length s) [sample_model ''b'' 3 ''Vision, chat'', sample_model ''a'' 2 ''chat'']
     (setTagFilter ''vision'' (clearFilters (clearSearch
       \<lparr>fs_search = None, fs_sort = None, fs_vendor = Some ''x'', fs_group = None, fs_quotaType = None, fs_endpointType = None,
        fs_tag = None, fs_tokenUnit = None, fs_view = None, fs_rechargePrice = None\<rparr>))) \<noteq> []"
proof -
  let ?ms = "[sample_model ''b'' 3 ''Vision, chat'', sample_model ''a'' 2 ''chat'']"
  have "''vision'' \<in> set (availableTags (\<lambda>s. length s) ?ms)" by code_simp
  from offered_tag_selects [OF this] show ?thesis by simp
qed

text \<open>Setting a filter shows it, counting and clearing agree, and clearing shows every model again.\<close>

lemma filter_set_get:
  assumes "v \<noteq> []"
  shows "vendorFilter (setVendorFilter v s) = v" "groupFilter (setGroupFilter v s) = v"
    "quotaTypeFilter (setQuotaTypeFilter v s) = v" "endpointTypeFilter (setEndpointTypeFilter v s) = v"
    "tagFilter (setTagFilter v s) = v" "sortBy (setSortBy v s) = v" "searchInput (setSearchInput v s) = v"
  using assms by (simp_all add: filter_getters filter_setters)

lemma activeFilterCount_bounds: "hasActiveFilters s \<longleftrightarrow> activeFilterCount s > 0" "activeFilterCount s \<le> 5"
  by (auto simp: hasActiveFilters_def activeFilterCount_def)

lemma clear_shows_all:
  "\<not> hasActiveFilters (clearFilters s)" "set (filteredModels lk ms (clearFilters (clearSearch s))) = set ms"
  by (auto simp: hasActiveFilters_def set_filteredModels matches_def active_filters_def filter_getters filter_setters)

section \<open>Group ratios\<close>

text \<open>The ratios of the enabled groups.\<close>

definition enabled_ratios :: "string list \<Rightarrow> (string \<times> jsnum) list \<Rightarrow> rat list" where
  "enabled_ratios gs ratios =
     List.map_filter (\<lambda>g. case map_of ratios g of Some (Fin r) \<Rightarrow> Some r | _ \<Rightarrow> None) gs"

lemma enabled_ratios_Cons:
  "enabled_ratios (g # gs) ratios = (case map_of ratios g of Some (Fin r) \<Rightarrow> [r] | _ \<Rightarrow> []) @ enabled_ratios gs ratios"
  by (auto simp: enabled_ratios_def List.map_filter_simps split: option.splits jsnum.splits)

definition finite_ratios :: "(string \<times> jsnum) list \<Rightarrow> bool" where
  "finite_ratios ratios \<longleftrightarrow> (\<forall>g r. map_of ratios g = Some r \<longrightarrow> is_finite r)"

lemma finite_ratios_cases:
  assumes "finite_ratios ratios"
  obtains "map_of ratios g = None" | r where "map_of ratios g = Some (Fin r)"
  using assms is_finite.elims(2) by (metis finite_ratios_def option.exhaust)

lemma min_ratio_loop_Fin:
  assumes "finite_ratios ratios"
  shows "min_ratio_loop gs ratios (Fin a) = Fin (Min (insert a (set (enabled_ratios gs ratios))))"
proof (induction gs arbitrary: a)
  case Nil
  then show ?case by (simp add: enabled_ratios_def List.map_filter_simps)
next
  case (Cons g gs)
  show ?case
  proof (cases rule: finite_ratios_cases [OF assms, of g])
    case 1
    then show ?thesis by (simp add: Cons.IH enabled_ratios_Cons)
  next
    case (2 r)
    let ?S = "set (enabled_ratios gs ratios)"
    have "Min (insert a (insert r ?S)) = Min (insert (min r a) ?S)"
    proof (cases "?S = {}")
      case False
      then show ?thesis by (simp add: min.left_commute min.assoc min.commute)
    qed (simp add: min.commute)
    then show ?thesis using 2 by (auto simp: Cons.IH enabled_ratios_Cons min_def)
  qed
qed

lemma min_ratio_loop_Infinity:
  assumes "finite_ratios ratios"
  shows "min_ratio_loop gs ratios Infinity =
    (if enabled_ratios gs ratios = [] then Infinity else Fin (Min (set (enabled_ratios gs ratios))))"
proof (induction gs)
  case Nil
  then show ?case by (simp add: enabled_ratios_def List.map_filter_simps)
next
  case (Cons g gs)
  show ?case
    by (cases rule: finite_ratios_cases [OF assms, of g]) (simp_all add: Cons.IH enabled_ratios_Cons min_ratio_loop_Fin [OF assms])
qed

text \<open>The ratio a price is shown with is the least ratio of the groups the model is enabled for, and one if none of them has a ratio;
  the price list and the prices of billing expressions agree on it.\<close>

theorem min_group_ratio:
  assumes "finite_ratios (nullish (group_ratio m) [])"
  shows "getDynamicDisplayGroupRatio m =
      getMinGroupRatio (nullish (enable_groups m) []) (nullish (group_ratio m) []) \<and>
    getMinGroupRatio (nullish (enable_groups m) []) (nullish (group_ratio m) []) =
      (let rs = enabled_ratios (nullish (enable_groups m) []) (nullish (group_ratio m) []) in
       if rs = [] then Fin 1 else Fin (Min (set rs)))"
proof -
  have "enabled_ratios [] ratios = []" for ratios by (simp add: enabled_ratios_def List.map_filter_simps)
  then show ?thesis
    by (auto simp: getDynamicDisplayGroupRatio_def getMinGroupRatio_def Let_def min_ratio_loop_Infinity [OF assms])
qed

theorem min_group_ratio_witness:
  "getDynamicDisplayGroupRatio (sample_model ''a'' 2 []) = Fin 0"
proof -
  have "finite_ratios (nullish (group_ratio (sample_model ''a'' 2 [])) [])"
    by (simp add: finite_ratios_def sample_model_def nullish_def)
  then show ?thesis
    using min_group_ratio [of "sample_model ''a'' 2 []"]
    by (simp add: sample_model_def nullish_def enabled_ratios_def List.map_filter_simps)
qed

text \<open>A group with ratio zero is shown at the full price: its row is that of a group with ratio one, while the least
  price of the model is computed with ratio zero.\<close>

theorem free_group_full_price:
  assumes "map_of ratios g = Some (Fin 0)"
  shows "formatGroupPrice fmt sys m g ty u r ratios = formatGroupPrice fmt sys m g ty u r (obj_set g (Fin 1) ratios) \<and>
    formatFixedPrice fmt sys m g r ratios = formatFixedPrice fmt sys m g r (obj_set g (Fin 1) ratios) \<and>
    getMinGroupRatio [g] ratios = Fin 0"
  using assms
  by (simp add: formatGroupPrice_def formatFixedPrice_def ratio_or_one_def map_of_obj_set num_truthy_def getMinGroupRatio_def)

theorem free_group_full_price_witness:
  "formatGroupPrice (\<lambda>_ _ _. ''?'') tokens_config (sample_model ''a'' 2 []) ''free'' PriceInput ''M''
     \<lparr>rt_recharge = False, rt_price = Fin 1, rt_exchange = Fin 1\<rparr> [(''free'', Fin 0)] = ''2000000''"
proof -
  have "formatGroupPrice (\<lambda>_ _ _. ''?'') tokens_config (sample_model ''a'' 2 []) ''free'' PriceInput ''M''
     \<lparr>rt_recharge = False, rt_price = Fin 1, rt_exchange = Fin 1\<rparr> (obj_set ''free'' (Fin 1) [(''free'', Fin 0)]) = ''2000000''"
    by code_simp
  then show ?thesis using free_group_full_price [of "[(''free'', Fin 0)]" "''free''"] by simp
qed

section \<open>Entries of a billing expression\<close>

text \<open>The entries of a tier are the input and output price and then the others, each in the order of the registry, and every
  shown value is a positive number.\<close>

theorem dynamic_entries:
  "getDynamicPriceEntries fmt sys (Some t) opts =
     (let es = List.map_filter (tier_entry fmt sys t opts) BILLING_PRICING_VARS in
      filter is_primary es @ filter (\<lambda>e. \<not> is_primary e) es) \<and>
   (\<forall>e\<in>set (getDynamicPriceEntries fmt sys (Some t) opts). \<exists>x>0. de_value e = Fin x)"
proof -
  let ?es = "List.map_filter (tier_entry fmt sys t opts) BILLING_PRICING_VARS"
  have part: "ys = filter is_primary ys @ filter (\<lambda>e. \<not> is_primary e) ys" if "sorted_wrt (\<lambda>a b. is_primary a \<or> \<not> is_primary b) ys" for ys
    using that
  proof (induction ys)
    case (Cons y ys)
    show ?case
    proof (cases "is_primary y")
      case False
      then have "filter is_primary ys = []" "filter (\<lambda>e. \<not> is_primary e) ys = ys"
        using Cons.prems by (auto simp: filter_empty_conv filter_id_conv)
      then show ?thesis using False by simp
    qed (use Cons in simp)
  qed simp
  have "sort_by primary_first ?es = filter is_primary ?es @ filter (\<lambda>e. \<not> is_primary e) ?es"
    using part [OF primary.sorted_sort_by [of ?es]] primary.stable_sort_by [of is_primary ?es]
      primary.stable_sort_by [of "\<lambda>e. \<not> is_primary e" ?es] by auto
  moreover have "\<exists>x>0. de_value e = Fin x" if e: "e \<in> set ?es" for e
  proof -
    obtain v where "tier_entry fmt sys t opts v = Some e" using e unfolding set_map_filter_iff by blast
    then have "is_finite (de_value e)" "\<not> js_le (de_value e) (Fin 0)"
      by (auto simp: tier_entry_def Let_def split: option.splits if_splits)
    then show ?thesis by (cases "de_value e") (auto simp: js_le_def js_eq_def)
  qed
  ultimately show ?thesis by (auto simp: getDynamicPriceEntries_def Let_def)
qed

end
