(* ===== verification/SettingsForm.thy ===== *)
theory SettingsForm
  imports JsFormat JsJsonPrint
begin

text \<open>
  The form behind a settings section, \<open>hooks/use-settings-form.ts\<close>: default values under dotted names
  become nested objects (\<open>expandDotPaths\<close>), the values of the form become dotted names again
  (\<open>flattenValues\<close>), and a submit sends the fields that are marked dirty and differ from the baseline.

  Which fields are dirty is decided by the form package; the marks are an argument. Objects are
  association lists, so two names never share one nested object.

  The lemmas describe an object by its leaves: a path of field names and the value at its end.
\<close>

section \<open>Dotted names and nested objects\<close>

definition isPlainObject :: "jsval \<Rightarrow> bool" where
  "isPlainObject v = (case v of JObj _ \<Rightarrow> True | _ \<Rightarrow> False)"

text \<open>\<open>parentKey ? `${parentKey}.${key}` : key\<close>.\<close>

definition nextKey :: "string option \<Rightarrow> string \<Rightarrow> string" where
  "nextKey parentKey key =
     (case parentKey of None \<Rightarrow> key | Some p \<Rightarrow> if p = [] then key else p @ ''.'' @ key)"

lemma entry_size: "e \<in> set kvs \<Longrightarrow> size (snd e) < size (JObj kvs)"
proof -
  assume "e \<in> set kvs"
  moreover obtain k v where e: "e = (k, v)" by (cases e)
  ultimately show "size (snd e) < size (JObj kvs)"
    using size_list_estimation' [of e kvs "size v" "size_prod (\<lambda>_. 0) size"] by simp
qed

function flattenValues :: "jsval \<Rightarrow> string option \<Rightarrow> (string \<times> jsval) list \<Rightarrow> (string \<times> jsval) list" where
  "flattenValues values parentKey result =
     (case values of
        JObj kvs \<Rightarrow>
          fold (\<lambda>e acc.
              if isPlainObject (snd e) then flattenValues (snd e) (Some (nextKey parentKey (fst e))) acc
              else obj_set (nextKey parentKey (fst e)) (snd e) acc)
            (obj_entries kvs) result
      | v \<Rightarrow> (case parentKey of Some p \<Rightarrow> obj_set p v result | None \<Rightarrow> result))"
  by pat_completeness auto
termination
  using entry_size by (relation "measure (\<lambda>(v, p, r). size v)") auto

declare flattenValues.simps [simp del]

text \<open>\<open>setDeepValue\<close> on the segments of the path.\<close>

fun setDeepSegments :: "string list \<Rightarrow> jsval \<Rightarrow> (string \<times> jsval) list \<Rightarrow> (string \<times> jsval) list" where
  "setDeepSegments [] value current = current"
| "setDeepSegments [seg] value current = obj_set seg value current"
| "setDeepSegments (seg # s # ss) value current =
     (case map_of current seg of
        Some (JObj nextObj) \<Rightarrow> obj_set seg (JObj (setDeepSegments (s # ss) value nextObj)) current
      | _ \<Rightarrow> obj_set seg (JObj (setDeepSegments (s # ss) value [])) current)"

definition setDeepValue :: "(string \<times> jsval) list \<Rightarrow> string \<Rightarrow> jsval \<Rightarrow> (string \<times> jsval) list" where
  "setDeepValue target path value = setDeepSegments (split_char CHR ''.'' path) value target"

function expandDotPaths :: "jsval \<Rightarrow> jsval" where
  "expandDotPaths values =
     (case values of
        JObj kvs \<Rightarrow>
          JObj (fold (\<lambda>e result.
              if CHR ''.'' \<in> set (fst e) then setDeepValue result (fst e) (snd e)
              else if isPlainObject (snd e) then obj_set (fst e) (expandDotPaths (snd e)) result
              else obj_set (fst e) (snd e) result)
            (obj_entries kvs) [])
      | v \<Rightarrow> v)"
  by pat_completeness auto
termination
  using entry_size by (relation "measure size") auto

declare expandDotPaths.simps [simp del]

section \<open>The fields that changed\<close>

text \<open>\<open>values && (isPlainObject(values) || Array.isArray(values)) ? values[key] : undefined\<close>.\<close>

definition sourceOf :: "jsval \<Rightarrow> string \<Rightarrow> jsval" where
  "sourceOf values key =
     (case values of
        JObj kvs \<Rightarrow> prop_of values key
      | JArr vs \<Rightarrow>
          if is_array_index key \<and> nat (int_of_digits key) < length vs then vs ! nat (int_of_digits key)
          else JUndefined
      | _ \<Rightarrow> JUndefined)"

text \<open>\<open>v && typeof v === 'object'\<close>.\<close>

definition isObjectValue :: "jsval \<Rightarrow> bool" where
  "isObjectValue v = (case v of JObj _ \<Rightarrow> True | JArr _ \<Rightarrow> True | _ \<Rightarrow> False)"

lemma spread_size:
  assumes "e \<in> set (spread_entries v)" "isObjectValue v"
  shows "size (snd e) < size v"
proof (cases v)
  case (JArr vs)
  then obtain i w where iw: "(i, w) \<in> set (List.enumerate 0 vs)" "snd e = w"
    using assms(1) by (auto simp: spread_entries_def)
  have "snd (i, w) \<in> snd ` set (List.enumerate 0 vs)" using iw(1) by (rule imageI)
  then have "w \<in> set vs" by (metis list.set_map map_snd_enumerate snd_conv)
  then show ?thesis using JArr iw(2) size_list_estimation' [of w vs "size w" size] by simp
next
  case (JObj kvs)
  then have "e \<in> set kvs" using assms(1) by (simp add: spread_entries_def)
  then show ?thesis using JObj entry_size by simp
qed (use assms(2) in \<open>simp_all add: isObjectValue_def\<close>)

function collectDirtyValues :: "jsval \<Rightarrow> jsval \<Rightarrow> string option \<Rightarrow> (string \<times> jsval) list \<Rightarrow> (string \<times> jsval) list" where
  "collectDirtyValues dirtyFields values parentKey result =
     (if dirtyFields = JBool True then
        (case parentKey of Some p \<Rightarrow> obj_set p values result | None \<Rightarrow> result)
      else if \<not> isObjectValue dirtyFields then result
      else
        fold (\<lambda>e acc.
            if snd e = JBool True then obj_set (nextKey parentKey (fst e)) (sourceOf values (fst e)) acc
            else if isObjectValue (snd e)
            then collectDirtyValues (snd e) (sourceOf values (fst e)) (Some (nextKey parentKey (fst e))) acc
            else acc)
          (spread_entries dirtyFields) result)"
  by pat_completeness auto
termination
  by (relation "measure (\<lambda>(d, v, p, r). size d)") (simp_all add: spread_size)

declare collectDirtyValues.simps [simp del]

text \<open>\<open>defaultCompare\<close>. Two arrays, and two objects, are compared by their JSON text, which agrees when they are one object.\<close>

definition defaultCompare :: "jsval \<Rightarrow> jsval \<Rightarrow> bool" where
  "defaultCompare a b =
     (case (a, b) of
        (JNum m, JNum n) \<Rightarrow> js_eq m n
      | (JArr _, JArr _) \<Rightarrow> json_stringify 0 a = json_stringify 0 b
      | (JArr _, JObj _) \<Rightarrow> json_stringify 0 a = json_stringify 0 b
      | (JObj _, JArr _) \<Rightarrow> json_stringify 0 a = json_stringify 0 b
      | (JObj _, JObj _) \<Rightarrow> json_stringify 0 a = json_stringify 0 b
      | _ \<Rightarrow> a = b)"

section \<open>The form\<close>

record SettingsFormState =
  sf_defaultValues :: jsval
  sf_baseline :: "(string \<times> jsval) list"
  sf_serialized :: string
  sf_values :: jsval

definition flatten :: "jsval \<Rightarrow> (string \<times> jsval) list" where
  "flatten v = flattenValues v None []"

text \<open>The first render with default values.\<close>

definition initForm :: "jsval \<Rightarrow> SettingsFormState" where
  "initForm defaultValues =
     (let expandedDefaults = expandDotPaths defaultValues; baseline = flatten expandedDefaults in
      \<lparr>sf_defaultValues = expandedDefaults, sf_baseline = baseline,
       sf_serialized = json_stringify 0 (JObj baseline), sf_values = expandedDefaults\<rparr>)"

text \<open>The effect that runs when the default values change.\<close>

definition syncDefaults :: "jsval \<Rightarrow> SettingsFormState \<Rightarrow> SettingsFormState" where
  "syncDefaults defaultValues s =
     (let expandedDefaults = expandDotPaths defaultValues;
          flattened = flatten expandedDefaults;
          serialized = json_stringify 0 (JObj flattened) in
      if serialized = sf_serialized s then s
      else s\<lparr>sf_baseline := flattened, sf_defaultValues := expandedDefaults,
             sf_serialized := serialized, sf_values := expandedDefaults\<rparr>)"

definition changedEntries :: "SettingsFormState \<Rightarrow> jsval \<Rightarrow> jsval \<Rightarrow> (string \<times> jsval) list" where
  "changedEntries s dirtyFields data =
     filter (\<lambda>e. \<not> defaultCompare (snd e) (nullish (map_of (sf_baseline s) (fst e)) JUndefined))
       (obj_entries (collectDirtyValues dirtyFields data None []))"

datatype SubmitOutcome = NoChanges | Submitted "(string \<times> jsval) list" | SubmitFailed "(string \<times> jsval) list"

text \<open>\<open>handleSubmit\<close> with the callback of the section: whether it resolves on the changed fields.\<close>

definition handleSubmit :: "((string \<times> jsval) list \<Rightarrow> bool) \<Rightarrow> jsval \<Rightarrow> jsval \<Rightarrow> SettingsFormState \<Rightarrow>
    SubmitOutcome \<times> SettingsFormState" where
  "handleSubmit onSubmitOk dirtyFields data s =
     (let entries = changedEntries s dirtyFields data in
      if entries = [] then (NoChanges, s)
      else
        let changedFields = foldl (\<lambda>acc (k, v). obj_set k v acc) [] entries in
        if \<not> onSubmitOk changedFields then (SubmitFailed changedFields, s)
        else
          let flattenedValues = flatten data in
          (Submitted changedFields,
           s\<lparr>sf_baseline := flattenedValues, sf_defaultValues := data,
             sf_serialized := json_stringify 0 (JObj flattenedValues), sf_values := data\<rparr>))"

definition handleReset :: "SettingsFormState \<Rightarrow> SettingsFormState" where
  "handleReset s = s\<lparr>sf_values := sf_defaultValues s\<rparr>"

section \<open>Objects by their leaves\<close>

fun leaf :: "string list \<Rightarrow> jsval \<Rightarrow> jsval option" where
  "leaf [] v = (if isPlainObject v then None else Some v)"
| "leaf (s # ss) (JObj kvs) = (case map_of kvs s of None \<Rightarrow> None | Some v \<Rightarrow> leaf ss v)"
| "leaf (s # ss) v = None"

definition field_name :: "string \<Rightarrow> bool" where
  "field_name k \<longleftrightarrow> k \<noteq> [] \<and> CHR ''.'' \<notin> set k"

fun field_names :: "jsval \<Rightarrow> bool" where
  "field_names (JObj kvs) = (distinct (map fst kvs) \<and> (\<forall>e\<in>set kvs. field_name (fst e) \<and> field_names (snd e)))"
| "field_names _ = True"

definition dotted :: "string list \<Rightarrow> string" where
  "dotted ss = join ''.'' ss"

definition parent_of :: "string list \<Rightarrow> string option" where
  "parent_of pre = (if pre = [] then None else Some (dotted pre))"

lemma plain_iff: "isPlainObject v \<longleftrightarrow> (\<exists>kvs. v = JObj kvs)"
  by (simp add: isPlainObject_def split: jsval.split)

lemma join_snoc: "xs \<noteq> [] \<Longrightarrow> join sep (xs @ [x]) = join sep xs @ sep @ x"
  by (induction sep xs rule: join.induct) auto

lemma join_Nil_iff: "list_all field_name xs \<Longrightarrow> join sep xs = [] \<longleftrightarrow> xs = []"
  by (cases "(sep, xs)" rule: join.cases) (auto simp: field_name_def)

lemma nextKey_parent:
  "list_all field_name pre \<Longrightarrow> nextKey (parent_of pre) k = dotted (pre @ [k])"
  by (auto simp: nextKey_def parent_of_def dotted_def join_snoc join_Nil_iff)

lemma parent_of_snoc [simp]: "parent_of (pre @ [k]) = Some (dotted (pre @ [k]))"
  by (simp add: parent_of_def)

lemma split_dotted: "ss \<noteq> [] \<Longrightarrow> list_all field_name ss \<Longrightarrow> split_char CHR ''.'' (dotted ss) = ss"
  using split_char_join [of ss "CHR ''.''"] by (simp add: dotted_def list_all_iff field_name_def)

lemma dotted_inj:
  assumes "dotted xs = dotted ys" "list_all field_name xs" "list_all field_name ys"
  shows "xs = ys"
proof (cases "xs = [] \<or> ys = []")
  case True
  then show ?thesis using assms join_Nil_iff [of xs "''.''"] join_Nil_iff [of ys "''.''"] by (auto simp: dotted_def)
next
  case False
  then show ?thesis using assms split_dotted by metis
qed

lemma leaf_value: "\<not> isPlainObject v \<Longrightarrow> leaf ss v = (if ss = [] then Some v else None)"
  by (cases "(ss, v)" rule: leaf.cases) (auto simp: plain_iff)

lemma leaf_names: "field_names v \<Longrightarrow> leaf ss v = Some w \<Longrightarrow> list_all field_name ss"
  by (induction ss v rule: leaf.induct) (auto split: option.splits dest!: map_of_SomeD)

text \<open>The assignments a walk makes, in order.\<close>

definition assign_all :: "(string \<times> jsval) list \<Rightarrow> (string \<times> jsval) list \<Rightarrow> (string \<times> jsval) list" where
  "assign_all as result = fold (\<lambda>a. obj_set (fst a) (snd a)) as result"

lemma assign_all_append: "assign_all (as @ bs) r = assign_all bs (assign_all as r)"
  by (simp add: assign_all_def)

lemma fold_assign_all:
  assumes "\<And>e acc. e \<in> set es \<Longrightarrow> f e acc = assign_all (g e) acc"
  shows "fold f es r = assign_all (concat (map g es)) r"
  using assms by (induction es arbitrary: r) (simp_all add: assign_all_append assign_all_def [of "[]"])

lemma map_of_assign_all: "map_of (assign_all as r) k = (case map_of (rev as) k of Some v \<Rightarrow> Some v | None \<Rightarrow> map_of r k)"
proof (induction as arbitrary: r)
  case (Cons a as)
  then show ?case by (cases a) (auto simp: assign_all_def map_of_obj_set map_add_def split: option.split)
qed (simp add: assign_all_def)

lemma map_of_functional:
  assumes "\<And>v v'. (k, v) \<in> set xs \<Longrightarrow> (k, v') \<in> set xs \<Longrightarrow> v = v'"
  shows "map_of xs k = Some v \<longleftrightarrow> (k, v) \<in> set xs"
  using assms by (metis map_of_SomeD weak_map_of_SomeI)

function leaves :: "string list \<Rightarrow> jsval \<Rightarrow> (string \<times> jsval) list" where
  "leaves pre v =
     (case v of
        JObj kvs \<Rightarrow> concat (map (\<lambda>e. leaves (pre @ [fst e]) (snd e)) (obj_entries kvs))
      | w \<Rightarrow> [(dotted pre, w)])"
  by pat_completeness auto
termination
  using entry_size by (relation "measure (\<lambda>(p, v). size v)") auto

declare leaves.simps [simp del]

lemma leaves_obj: "leaves pre (JObj kvs) = concat (map (\<lambda>e. leaves (pre @ [fst e]) (snd e)) (obj_entries kvs))"
  by (subst leaves.simps) simp

lemma leaves_leaf: "\<not> isPlainObject v \<Longrightarrow> leaves pre v = [(dotted pre, v)]"
  by (subst leaves.simps) (simp add: isPlainObject_def split: jsval.split_asm jsval.split)

lemma flatten_obj:
  "flattenValues (JObj kvs) p r =
     fold (\<lambda>e acc.
         if isPlainObject (snd e) then flattenValues (snd e) (Some (nextKey p (fst e))) acc
         else obj_set (nextKey p (fst e)) (snd e) acc) (obj_entries kvs) r"
  by (subst flattenValues.simps) simp

lemma flattenValues_leaves:
  "field_names v \<Longrightarrow> isPlainObject v \<Longrightarrow> list_all field_name pre \<Longrightarrow>
     flattenValues v (parent_of pre) r = assign_all (leaves pre v) r"
proof (induction "size v" arbitrary: v pre r rule: less_induct)
  case less
  then obtain kvs where v: "v = JObj kvs" by (auto simp: plain_iff)
  show ?case
    unfolding v leaves_obj flatten_obj
  proof (rule fold_assign_all)
    fix e acc assume e: "e \<in> set (obj_entries kvs)"
    then have n: "field_name (fst e)" "field_names (snd e)" using less.prems(1) v by auto
    have k: "nextKey (parent_of pre) (fst e) = dotted (pre @ [fst e])" using less.prems(3) by (rule nextKey_parent)
    have "flattenValues (snd e) (parent_of (pre @ [fst e])) acc = assign_all (leaves (pre @ [fst e]) (snd e)) acc"
      if "isPlainObject (snd e)"
      using e v that n less.prems(3) entry_size by (intro less.hyps) auto
    then show "(if isPlainObject (snd e) then flattenValues (snd e) (Some (nextKey (parent_of pre) (fst e))) acc
        else obj_set (nextKey (parent_of pre) (fst e)) (snd e) acc) = assign_all (leaves (pre @ [fst e]) (snd e)) acc"
      using k by (simp add: leaves_leaf assign_all_def)
  qed
qed

lemma leaves_iff:
  "field_names v \<Longrightarrow> (k, w) \<in> set (leaves pre v) \<longleftrightarrow> (\<exists>ss. leaf ss v = Some w \<and> k = dotted (pre @ ss))"
proof (induction "size v" arbitrary: v pre rule: less_induct)
  case less
  show ?case
  proof (cases "isPlainObject v")
    case False
    then show ?thesis by (auto simp: leaves_leaf leaf_value split: if_splits)
  next
    case True
    then obtain kvs where v: "v = JObj kvs" by (auto simp: plain_iff)
    then have d: "distinct (map fst kvs)" using less.prems by simp
    have ih: "(k, w) \<in> set (leaves (pre @ [fst e]) (snd e)) \<longleftrightarrow>
        (\<exists>ss. leaf ss (snd e) = Some w \<and> k = dotted ((pre @ [fst e]) @ ss))" if "e \<in> set kvs" for e
      using that less.prems v entry_size [OF that] by (intro less.hyps) auto
    have "(k, w) \<in> set (leaves pre v) \<longleftrightarrow>
        (\<exists>e\<in>set kvs. \<exists>ss. leaf ss (snd e) = Some w \<and> k = dotted ((pre @ [fst e]) @ ss))"
      using ih by (auto simp: v leaves_obj)
    also have "\<dots> \<longleftrightarrow> (\<exists>s ss u. map_of kvs s = Some u \<and> leaf ss u = Some w \<and> k = dotted (pre @ s # ss))"
      using map_of_eq_Some_iff [OF d] by force
    also have "\<dots> \<longleftrightarrow> (\<exists>ss. leaf ss v = Some w \<and> k = dotted (pre @ ss))"
    proof -
      have "leaf [] v = None" using True by simp
      moreover have "leaf (s # ss) v = Some w \<longleftrightarrow> (\<exists>u. map_of kvs s = Some u \<and> leaf ss u = Some w)" for s ss
        by (simp add: v split: option.split)
      ultimately show ?thesis by (metis list.exhaust option.distinct(1))
    qed
    finally show ?thesis .
  qed
qed

lemma flatten_lookup:
  assumes "field_names v" "isPlainObject v"
  shows "map_of (flatten v) k = Some w \<longleftrightarrow> (\<exists>ss. leaf ss v = Some w \<and> k = dotted ss)"
proof -
  have "flatten v = assign_all (leaves [] v) []"
    using flattenValues_leaves [OF assms, of "[]" "[]"] by (simp add: flatten_def parent_of_def)
  moreover have "(k, u) \<in> set (leaves [] v) \<Longrightarrow> (k, u') \<in> set (leaves [] v) \<Longrightarrow> u = u'" for u u'
    using leaf_names [OF assms(1)] dotted_inj by (auto simp: leaves_iff [OF assms(1)]) (metis option.inject)
  then have "map_of (rev (leaves [] v)) k = Some w \<longleftrightarrow> (k, w) \<in> set (leaves [] v)" for w
    using map_of_functional [of k "rev (leaves [] v)"] by simp
  moreover have "map_of (assign_all (leaves [] v) []) k = map_of (rev (leaves [] v)) k"
    by (simp add: map_of_assign_all split: option.split)
  ultimately show ?thesis using leaves_iff [OF assms(1), of k w "[]"] by simp
qed

section \<open>Building nested objects\<close>

definition comparable :: "string list \<Rightarrow> string list \<Rightarrow> bool" where
  "comparable xs ys \<longleftrightarrow> take (length xs) ys = xs \<or> take (length ys) xs = ys"

text \<open>After a deep assignment the path holds the value, and no leaf is left above or below it.\<close>

lemma leaf_set:
  "leaf (t # ts) (JObj (obj_set k v m)) = (if t = k then leaf ts v else leaf (t # ts) (JObj m))"
  by (simp add: map_of_obj_set)

lemma leaf_setDeepSegments:
  "ss \<noteq> [] \<Longrightarrow> \<not> isPlainObject v \<Longrightarrow>
     leaf ts (JObj (setDeepSegments ss v m)) =
       (if ts = ss then Some v else if comparable ss ts then None else leaf ts (JObj m))"
proof (induction ss arbitrary: m ts rule: induct_list012)
  case (2 seg)
  then show ?case
    by (cases ts) (auto simp: leaf_set leaf_value comparable_def isPlainObject_def map_of_obj_set neq_Nil_conv)
next
  case (3 seg s ss)
  have empty: "leaf us (JObj []) = None" for us by (cases us) (simp_all add: isPlainObject_def)
  show ?case
  proof (cases ts)
    case Nil
    then show ?thesis by (simp add: comparable_def isPlainObject_def split: option.split jsval.split)
  next
    case (Cons t us)
    define sub where "sub = (case map_of m seg of Some (JObj n) \<Rightarrow> n | _ \<Rightarrow> [])"
    have step: "setDeepSegments (seg # s # ss) v m = obj_set seg (JObj (setDeepSegments (s # ss) v sub)) m"
      by (simp add: sub_def split: option.split jsval.split)
    have ih: "leaf us (JObj (setDeepSegments (s # ss) v sub)) =
        (if us = s # ss then Some v else if comparable (s # ss) us then None else leaf us (JObj sub))"
      using 3 by blast
    have "us \<noteq> [] \<Longrightarrow> leaf us (JObj sub) = leaf (seg # us) (JObj m)"
      using empty by (cases us) (auto simp: sub_def split: option.split jsval.split)
    moreover have "comparable (s # ss) []" by (simp add: comparable_def)
    moreover have "comparable (seg # s # ss) (t # us) \<longleftrightarrow> t = seg \<and> comparable (s # ss) us"
      by (auto simp: comparable_def)
    ultimately show ?thesis
      unfolding Cons step leaf_set using ih by (cases "us = []") auto
  qed
qed simp

definition segs :: "string \<Rightarrow> string list" where
  "segs k = split_char CHR ''.'' k"

lemma segs_not_Nil [simp]: "segs k \<noteq> []"
  by (simp add: segs_def)

lemma dotted_segs [simp]: "dotted (segs k) = k"
  using join_split_char [of "CHR ''.''" k] by (simp add: segs_def dotted_def)

text \<open>Default values by dotted names: no value is an object, every part of a name is a field name, and no name is a
  prefix of another.\<close>

definition flat_settings :: "(string \<times> jsval) list \<Rightarrow> bool" where
  "flat_settings kvs \<longleftrightarrow> distinct (map fst kvs) \<and>
     list_all (\<lambda>e. \<not> isPlainObject (snd e) \<and> list_all field_name (segs (fst e)) \<and>
       list_all (\<lambda>e'. fst e = fst e' \<or> \<not> comparable (segs (fst e)) (segs (fst e'))) kvs) kvs"

lemma flat_settingsD:
  assumes "flat_settings kvs" "e \<in> set kvs"
  shows "\<not> isPlainObject (snd e)" "list_all field_name (segs (fst e))"
    "e' \<in> set kvs \<Longrightarrow> fst e \<noteq> fst e' \<Longrightarrow> \<not> comparable (segs (fst e)) (segs (fst e'))"
  using assms by (auto simp: flat_settings_def list_all_iff)

lemma field_names_obj_set:
  "field_names (JObj m) \<Longrightarrow> field_name k \<Longrightarrow> field_names v \<Longrightarrow> field_names (JObj (obj_set k v m))"
  using set_obj_set [of k v m] distinct_obj_set [of m k v] by auto

lemma field_names_entry:
  assumes "field_names (JObj m)" "map_of m k = Some v"
  shows "field_name k \<and> field_names v"
  using assms(1) map_of_SomeD [OF assms(2)] by (metis field_names.simps(1) fst_conv snd_conv)

lemma field_names_value: "\<not> isPlainObject v \<Longrightarrow> field_names v"
  by (cases v) (auto simp: plain_iff)

lemma field_names_setDeep:
  "field_names (JObj m) \<Longrightarrow> list_all field_name ss \<Longrightarrow> \<not> isPlainObject v \<Longrightarrow> field_names (JObj (setDeepSegments ss v m))"
proof (induction ss arbitrary: m rule: induct_list012)
  case (2 seg)
  then show ?case using field_names_obj_set [of m seg v] field_names_value [of v] by (simp del: field_names.simps)
next
  case (3 seg s ss)
  define sub where "sub = (case map_of m seg of Some (JObj n) \<Rightarrow> n | _ \<Rightarrow> [])"
  have "field_names (JObj n)" if "map_of m seg = Some (JObj n)" for n
    using field_names_entry [OF 3(3) that] by simp
  moreover have "field_names (JObj [])" by simp
  ultimately have "field_names (JObj sub)"
    unfolding sub_def by (simp del: field_names.simps split: option.split jsval.split)
  then have "field_names (JObj (setDeepSegments (s # ss) v sub))" using 3(2,4,5) by (simp del: field_names.simps setDeepSegments.simps)
  moreover have "setDeepSegments (seg # s # ss) v m = obj_set seg (JObj (setDeepSegments (s # ss) v sub)) m"
    by (simp add: sub_def split: option.split jsval.split)
  ultimately show ?case using 3(3,4) field_names_obj_set by (simp del: field_names.simps setDeepSegments.simps)
qed (simp del: field_names.simps)

definition deep_assign :: "string \<times> jsval \<Rightarrow> (string \<times> jsval) list \<Rightarrow> (string \<times> jsval) list" where
  "deep_assign e m = setDeepSegments (segs (fst e)) (snd e) m"

lemma deep_assign_all:
  assumes "flat_settings kvs" "set es \<subseteq> set kvs" "distinct (map fst es)"
  shows "field_names (JObj (fold deep_assign es [])) \<and>
    (leaf ts (JObj (fold deep_assign es [])) = Some w \<longleftrightarrow> (\<exists>e\<in>set es. ts = segs (fst e) \<and> w = snd e))"
  using assms(2,3)
proof (induction es arbitrary: ts w rule: rev_induct)
  case Nil
  then show ?case by (cases ts) (auto simp: isPlainObject_def)
next
  case (snoc e es)
  note D = flat_settingsD [OF assms(1)]
  have e: "e \<in> set kvs" "set es \<subseteq> set kvs" "distinct (map fst es)" using snoc.prems by auto
  have new: "fst e' \<noteq> fst e" if "e' \<in> set es" for e' using snoc.prems(2) that by (auto simp: image_iff)
  note ih = snoc.IH [OF e(2,3)]
  have names: "field_names (JObj (fold deep_assign (es @ [e]) []))"
    using field_names_setDeep [OF conjunct1 [OF ih] D(2,1) [OF e(1)]]
    by (simp add: deep_assign_def [of e] del: field_names.simps)
  have lf: "leaf ts (JObj (fold deep_assign (es @ [e]) [])) =
      (if ts = segs (fst e) then Some (snd e) else if comparable (segs (fst e)) ts then None
       else leaf ts (JObj (fold deep_assign es [])))"
    using leaf_setDeepSegments [OF segs_not_Nil D(1) [OF e(1)]] by (simp add: deep_assign_def [of e])
  have apart: "segs (fst e') \<noteq> segs (fst e) \<and> \<not> comparable (segs (fst e)) (segs (fst e'))" if "e' \<in> set es" for e'
    using new [OF that] that e D(3) [OF e(1), of e'] dotted_segs by (metis subsetD)
  show ?case
    using names lf ih [of ts w] apart by auto
qed

lemma expandDotPaths_flat:
  assumes "flat_settings kvs"
  shows "expandDotPaths (JObj kvs) = JObj (fold deep_assign (obj_entries kvs) [])"
proof -
  have "(if CHR ''.'' \<in> set (fst e) then setDeepValue r (fst e) (snd e)
       else if isPlainObject (snd e) then obj_set (fst e) (expandDotPaths (snd e)) r
       else obj_set (fst e) (snd e) r) = deep_assign e r" if "e \<in> set (obj_entries kvs)" for e r
    using flat_settingsD(1) [OF assms] that by (auto simp: deep_assign_def setDeepValue_def segs_def split_char_no_sep)
  then show ?thesis by (subst expandDotPaths.simps) (auto intro: fold_cong)
qed

text \<open>C35: The two translations of a settings form are inverse on the default values of a page: expanding dotted names
  into nested objects and flattening the result gives every name its value back, and no other name.\<close>

theorem settings_form_roundtrip:
  assumes "flat_settings kvs"
  shows "map_of (flatten (expandDotPaths (JObj kvs))) = map_of kvs"
proof
  fix k
  let ?t = "fold deep_assign (obj_entries kvs) []"
  have d: "distinct (map fst kvs)" using assms by (simp add: flat_settings_def)
  have t: "field_names (JObj ?t)"
    "leaf ts (JObj ?t) = Some w \<longleftrightarrow> (\<exists>e\<in>set kvs. ts = segs (fst e) \<and> w = snd e)" for ts w
    using deep_assign_all [OF assms, of "obj_entries kvs"] obj_entries_distinct [OF d] by auto
  have "map_of (flatten (JObj ?t)) k = Some w \<longleftrightarrow> map_of kvs k = Some w" for w
  proof -
    have "map_of (flatten (JObj ?t)) k = Some w \<longleftrightarrow> (\<exists>ss. leaf ss (JObj ?t) = Some w \<and> k = dotted ss)"
      using flatten_lookup [OF t(1)] by (simp add: isPlainObject_def)
    also have "\<dots> \<longleftrightarrow> (\<exists>e\<in>set kvs. k = fst e \<and> w = snd e)" unfolding t(2) using dotted_segs by metis
    also have "\<dots> \<longleftrightarrow> map_of kvs k = Some w" unfolding map_of_eq_Some_iff [OF d] by force
    finally show ?thesis .
  qed
  then show "map_of (flatten (expandDotPaths (JObj kvs))) k = map_of kvs k"
    unfolding expandDotPaths_flat [OF assms] by (metis option.exhaust)
qed

theorem settings_form_roundtrip_witness:
  "map_of (flatten (expandDotPaths (JObj [(''SystemName'', JStr ''console''), (''legal.user_agreement'', JStr ''text''),
      (''legal.privacy_policy'', JStr [])]))) ''legal.user_agreement'' = Some (JStr ''text'')"
proof -
  have "flat_settings [(''SystemName'', JStr ''console''), (''legal.user_agreement'', JStr ''text''),
      (''legal.privacy_policy'', JStr [])]" by code_simp
  from settings_form_roundtrip [OF this] show ?thesis by simp
qed

section \<open>What a submit sends\<close>

text \<open>The marks of the form package: nested objects of switches.\<close>

fun dirty_marks :: "jsval \<Rightarrow> bool" where
  "dirty_marks (JObj kvs) = (distinct (map fst kvs) \<and> (\<forall>e\<in>set kvs. field_name (fst e) \<and> dirty_marks (snd e)))"
| "dirty_marks (JBool b) = True"
| "dirty_marks _ = False"

fun source_at :: "string list \<Rightarrow> jsval \<Rightarrow> jsval" where
  "source_at [] v = v"
| "source_at (s # ss) v = source_at ss (sourceOf v s)"

function marked_fields :: "string list \<Rightarrow> jsval \<Rightarrow> jsval \<Rightarrow> (string \<times> jsval) list" where
  "marked_fields pre dirty vals =
     (case dirty of
        JObj kvs \<Rightarrow> concat (map (\<lambda>e. marked_fields (pre @ [fst e]) (snd e) (sourceOf vals (fst e))) (obj_entries kvs))
      | JBool b \<Rightarrow> (if b then [(dotted pre, vals)] else [])
      | _ \<Rightarrow> [])"
  by pat_completeness auto
termination
  using entry_size by (relation "measure (\<lambda>(p, d, v). size d)") auto

declare marked_fields.simps [simp del]

lemma marked_fields_obj:
  "marked_fields pre (JObj kvs) vals =
     concat (map (\<lambda>e. marked_fields (pre @ [fst e]) (snd e) (sourceOf vals (fst e))) (obj_entries kvs))"
  by (subst marked_fields.simps) simp

lemma marked_bool: "marked_fields pre (JBool b) vals = (if b then [(dotted pre, vals)] else [])"
  by (subst marked_fields.simps) simp

lemma dirty_marks_names: "dirty_marks d \<Longrightarrow> field_names d"
proof (induction "size d" arbitrary: d rule: less_induct)
  case less
  show ?case
  proof (cases d)
    case (JObj kvs)
    then have "field_names (snd e)" if "e \<in> set kvs" for e
      using that less.prems entry_size [OF that] by (intro less.hyps) auto
    then show ?thesis using JObj less.prems by auto
  qed simp_all
qed

lemma collect_obj:
  "collectDirtyValues (JObj kvs) vals p r =
     fold (\<lambda>e acc.
         if snd e = JBool True then obj_set (nextKey p (fst e)) (sourceOf vals (fst e)) acc
         else if isObjectValue (snd e)
         then collectDirtyValues (snd e) (sourceOf vals (fst e)) (Some (nextKey p (fst e))) acc
         else acc) (obj_entries kvs) r"
  by (subst collectDirtyValues.simps) (simp add: isObjectValue_def spread_entries_def)

lemma collectDirtyValues_marked:
  "dirty_marks d \<Longrightarrow> isPlainObject d \<Longrightarrow> list_all field_name pre \<Longrightarrow>
     collectDirtyValues d vals (parent_of pre) r = assign_all (marked_fields pre d vals) r"
proof (induction "size d" arbitrary: d pre vals r rule: less_induct)
  case less
  then obtain kvs where d: "d = JObj kvs" by (auto simp: plain_iff)
  show ?case
    unfolding d marked_fields_obj collect_obj
  proof (rule fold_assign_all)
    fix e acc assume e: "e \<in> set (obj_entries kvs)"
    then have n: "field_name (fst e)" "dirty_marks (snd e)" using less.prems(1) d by auto
    have k: "nextKey (parent_of pre) (fst e) = dotted (pre @ [fst e])" using less.prems(3) by (rule nextKey_parent)
    have ih: "collectDirtyValues (snd e) (sourceOf vals (fst e)) (parent_of (pre @ [fst e])) acc =
        assign_all (marked_fields (pre @ [fst e]) (snd e) (sourceOf vals (fst e))) acc" if "isPlainObject (snd e)"
      using e d that n less.prems(3) entry_size by (intro less.hyps) auto
    show "(if snd e = JBool True then obj_set (nextKey (parent_of pre) (fst e)) (sourceOf vals (fst e)) acc
        else if isObjectValue (snd e)
        then collectDirtyValues (snd e) (sourceOf vals (fst e)) (Some (nextKey (parent_of pre) (fst e))) acc
        else acc) = assign_all (marked_fields (pre @ [fst e]) (snd e) (sourceOf vals (fst e))) acc"
      using n(2) k ih by (cases "snd e") (auto simp: marked_bool assign_all_def isObjectValue_def isPlainObject_def)
  qed
qed

lemma marked_iff:
  "dirty_marks d \<Longrightarrow> (k, w) \<in> set (marked_fields pre d vals) \<longleftrightarrow>
     (\<exists>ss. leaf ss d = Some (JBool True) \<and> k = dotted (pre @ ss) \<and> w = source_at ss vals)"
proof (induction "size d" arbitrary: d pre vals rule: less_induct)
  case less
  show ?case
  proof (cases d)
    case (JBool b)
    then have "leaf ss d = (if ss = [] then Some (JBool b) else None)" for ss
      using leaf_value [of d ss] by (simp add: isPlainObject_def)
    then show ?thesis using JBool by (auto simp: marked_bool split: if_splits)
  next
    case (JObj kvs)
    then have dist: "distinct (map fst kvs)" using less.prems by simp
    have ih: "(k, w) \<in> set (marked_fields (pre @ [fst e]) (snd e) (sourceOf vals (fst e))) \<longleftrightarrow>
        (\<exists>ss. leaf ss (snd e) = Some (JBool True) \<and> k = dotted ((pre @ [fst e]) @ ss) \<and>
          w = source_at ss (sourceOf vals (fst e)))" if "e \<in> set kvs" for e
      using that less.prems JObj entry_size [OF that] by (intro less.hyps) auto
    have "(k, w) \<in> set (marked_fields pre d vals) \<longleftrightarrow>
        (\<exists>e\<in>set kvs. \<exists>ss. leaf ss (snd e) = Some (JBool True) \<and> k = dotted ((pre @ [fst e]) @ ss) \<and>
          w = source_at ss (sourceOf vals (fst e)))"
      using ih by (auto simp: JObj marked_fields_obj)
    also have "\<dots> \<longleftrightarrow> (\<exists>s ss u. map_of kvs s = Some u \<and> leaf ss u = Some (JBool True) \<and>
        k = dotted (pre @ s # ss) \<and> w = source_at (s # ss) vals)"
      using map_of_eq_Some_iff [OF dist] by force
    also have "\<dots> \<longleftrightarrow> (\<exists>ss. leaf ss d = Some (JBool True) \<and> k = dotted (pre @ ss) \<and> w = source_at ss vals)"
    proof -
      have "leaf [] d = None" using JObj by (simp add: isPlainObject_def)
      moreover have "leaf (s # ss) d = Some (JBool True) \<longleftrightarrow> (\<exists>u. map_of kvs s = Some u \<and> leaf ss u = Some (JBool True))" for s ss
        by (simp add: JObj split: option.split)
      ultimately show ?thesis by (metis list.exhaust option.distinct(1))
    qed
    finally show ?thesis .
  qed (use less.prems in simp_all)
qed

lemma collected_lookup:
  assumes "dirty_marks d" "isPlainObject d"
  shows "map_of (collectDirtyValues d vals None []) k = Some w \<longleftrightarrow>
    (\<exists>ss. leaf ss d = Some (JBool True) \<and> k = dotted ss \<and> w = source_at ss vals)"
proof -
  have "collectDirtyValues d vals None [] = assign_all (marked_fields [] d vals) []"
    using collectDirtyValues_marked [OF assms, of "[]"] by (simp add: parent_of_def)
  moreover have "(k, u) \<in> set (marked_fields [] d vals) \<Longrightarrow> (k, u') \<in> set (marked_fields [] d vals) \<Longrightarrow> u = u'" for u u'
    using leaf_names [OF dirty_marks_names [OF assms(1)]] dotted_inj by (auto simp: marked_iff [OF assms(1)]) metis
  then have "map_of (rev (marked_fields [] d vals)) k = Some w \<longleftrightarrow> (k, w) \<in> set (marked_fields [] d vals)" for w
    using map_of_functional [of k "rev (marked_fields [] d vals)"] by simp
  moreover have "map_of (assign_all (marked_fields [] d vals) []) k = map_of (rev (marked_fields [] d vals)) k"
    by (simp add: map_of_assign_all split: option.split)
  ultimately show ?thesis using marked_iff [OF assms(1), of k w "[]" vals] by simp
qed

lemma distinct_assign_all: "distinct (map fst r) \<Longrightarrow> distinct (map fst (assign_all as r))"
  by (induction as arbitrary: r) (simp_all add: assign_all_def distinct_obj_set)

lemma distinct_collected:
  assumes "dirty_marks d" "isPlainObject d"
  shows "distinct (map fst (collectDirtyValues d vals None []))"
  using collectDirtyValues_marked [OF assms, of "[]"] distinct_assign_all [of "[]"] by (simp add: parent_of_def)

lemma foldl_assign: "foldl (\<lambda>acc (k, v). obj_set k v acc) r es = assign_all es r"
  by (induction es arbitrary: r) (auto simp: assign_all_def)

definition baseline_value :: "SettingsFormState \<Rightarrow> string \<Rightarrow> jsval" where
  "baseline_value s k = nullish (map_of (sf_baseline s) k) JUndefined"

lemma changedEntries_iff:
  assumes "dirty_marks d" "isPlainObject d"
  shows "(k, v) \<in> set (changedEntries s d data) \<longleftrightarrow>
    (\<exists>ss. leaf ss d = Some (JBool True) \<and> k = dotted ss \<and> v = source_at ss data) \<and>
    \<not> defaultCompare v (baseline_value s k)"
proof -
  let ?c = "collectDirtyValues d data None []"
  have "(k, v) \<in> set (obj_entries ?c) \<longleftrightarrow> map_of ?c k = Some v"
    using distinct_collected [OF assms] by simp
  then show ?thesis
    unfolding changedEntries_def using collected_lookup [OF assms] by (simp add: baseline_value_def)
qed

lemma changedFields_lookup:
  assumes "dirty_marks d" "isPlainObject d"
  shows "map_of (foldl (\<lambda>acc (k, v). obj_set k v acc) [] (changedEntries s d data)) k = Some v \<longleftrightarrow>
    (k, v) \<in> set (changedEntries s d data)"
proof -
  let ?es = "changedEntries s d data"
  have dist: "distinct (map fst (rev ?es))"
    unfolding changedEntries_def rev_map [symmetric] distinct_rev
    by (rule distinct_map_filter) (rule obj_entries_distinct [OF distinct_collected [OF assms]])
  have "map_of (assign_all ?es []) k = map_of (rev ?es) k" by (simp add: map_of_assign_all split: option.split)
  then show ?thesis using map_of_eq_Some_iff [OF dist] by (simp add: foldl_assign)
qed

text \<open>C36: A submit sends exactly the fields that are marked dirty and whose value is not the one of the baseline, each
  under its dotted name, and the submitted values become the new baseline.\<close>

theorem settings_submit_exact:
  assumes "handleSubmit ok d data s = (Submitted sent, s')" "dirty_marks d" "isPlainObject d"
  shows "(map_of sent k = Some v \<longleftrightarrow>
      (\<exists>ss. leaf ss d = Some (JBool True) \<and> k = dotted ss \<and> v = source_at ss data) \<and>
      \<not> defaultCompare v (baseline_value s k)) \<and>
    sent \<noteq> [] \<and> ok sent \<and> sf_baseline s' = flatten data \<and> sf_defaultValues s' = data"
proof -
  let ?es = "changedEntries s d data"
  let ?f = "foldl (\<lambda>acc (k, v). obj_set k v acc) [] ?es"
  have r: "?es \<noteq> []" "sent = ?f" "ok sent" "sf_baseline s' = flatten data" "sf_defaultValues s' = data"
    using assms(1) by (auto simp: handleSubmit_def Let_def split: if_splits)
  then obtain e where "e \<in> set ?es" by (meson list.set_sel(1))
  then have "map_of sent (fst e) = Some (snd e)" unfolding r(2) changedFields_lookup [OF assms(2,3)] by simp
  then have "sent \<noteq> []" by auto
  then show ?thesis using r changedFields_lookup [OF assms(2,3)] changedEntries_iff [OF assms(2,3)] by simp
qed

theorem settings_submit_exact_witness:
  "\<exists>sent s'. handleSubmit (\<lambda>_. True) (JObj [(''legal'', JObj [(''user_agreement'', JBool True)]), (''Footer'', JBool True)])
     (JObj [(''Footer'', JStr ''same''), (''legal'', JObj [(''user_agreement'', JStr ''new'')])])
     (initForm (JObj [(''Footer'', JStr ''same''), (''legal.user_agreement'', JStr ''old'')])) = (Submitted sent, s') \<and>
     map_of sent ''Footer'' = None \<and>
     sf_defaultValues s' = JObj [(''Footer'', JStr ''same''), (''legal'', JObj [(''user_agreement'', JStr ''new'')])]"
proof -
  let ?d = "JObj [(''legal'', JObj [(''user_agreement'', JBool True)]), (''Footer'', JBool True)]"
  let ?data = "JObj [(''Footer'', JStr ''same''), (''legal'', JObj [(''user_agreement'', JStr ''new'')])]"
  let ?s = "initForm (JObj [(''Footer'', JStr ''same''), (''legal.user_agreement'', JStr ''old'')])"
  have f: "fst (handleSubmit (\<lambda>_. True) ?d ?data ?s) = Submitted [(''legal.user_agreement'', JStr ''new'')]"
    by code_simp
  obtain s' where r: "handleSubmit (\<lambda>_. True) ?d ?data ?s = (Submitted [(''legal.user_agreement'', JStr ''new'')], s')"
    using f by (cases "handleSubmit (\<lambda>_. True) ?d ?data ?s") simp
  have m: "dirty_marks ?d" "isPlainObject ?d" by (simp_all add: field_name_def isPlainObject_def)
  have "sf_defaultValues s' = ?data" using settings_submit_exact [OF r m] by blast
  then show ?thesis using r by auto
qed

section \<open>The form stays in step with what was saved\<close>

inductive form_step :: "SettingsFormState \<Rightarrow> SettingsFormState \<Rightarrow> bool" where
  edit: "form_step s (s\<lparr>sf_values := v\<rparr>)"
| sync: "form_step s (syncDefaults d s)"
| submit: "handleSubmit ok d data s = (out, s') \<Longrightarrow> form_step s s'"
| reset: "form_step s (handleReset s)"

definition form_synced :: "SettingsFormState \<Rightarrow> bool" where
  "form_synced s \<longleftrightarrow> sf_baseline s = flatten (sf_defaultValues s) \<and>
     sf_serialized s = json_stringify 0 (JObj (sf_baseline s))"

lemma form_step_synced: "form_step s s' \<Longrightarrow> form_synced s \<Longrightarrow> form_synced s'"
  by (induction rule: form_step.induct)
    (auto simp: form_synced_def syncDefaults_def handleSubmit_def handleReset_def Let_def split: if_splits)

lemma initForm_synced: "form_synced (initForm d)"
  by (simp add: form_synced_def initForm_def Let_def)

theorem settings_form_synced: "form_step\<^sup>*\<^sup>* (initForm d) s \<Longrightarrow> form_synced s"
  by (induction rule: rtranclp_induct) (auto intro: initForm_synced form_step_synced)

text \<open>The marks fit the values: a mark stands on a field that holds no object, and above it there are objects.\<close>

fun marks_fit :: "jsval \<Rightarrow> jsval \<Rightarrow> bool" where
  "marks_fit (JObj ds) v = (isPlainObject v \<and> (\<forall>e\<in>set ds. marks_fit (snd e) (prop_of v (fst e))))"
| "marks_fit (JBool b) v = (\<not> isPlainObject v)"
| "marks_fit _ v = False"

fun nan_free :: "jsval \<Rightarrow> bool" where
  "nan_free (JNum n) = (n \<noteq> NaN)"
| "nan_free (JObj kvs) = (\<forall>e\<in>set kvs. nan_free (snd e))"
| "nan_free _ = True"

lemma marked_source:
  "marks_fit d v \<Longrightarrow> leaf ss d = Some (JBool True) \<Longrightarrow> nullish (leaf ss v) JUndefined = source_at ss v"
proof (induction ss arbitrary: d v)
  case Nil
  then have "d = JBool True" by (simp split: if_splits)
  then show ?case using Nil(1) by (simp add: nullish_def)
next
  case (Cons t ts)
  then obtain ds where d: "d = JObj ds" by (cases d) auto
  then obtain kvs where v: "v = JObj kvs" using Cons.prems(1) by (auto simp: plain_iff)
  obtain m where m: "map_of ds t = Some m" "leaf ts m = Some (JBool True)"
    using Cons.prems(2) d by (auto split: option.splits)
  have fit: "marks_fit m (prop_of v t)" using Cons.prems(1) d map_of_SomeD [OF m(1)] by auto
  have undef: "leaf ts JUndefined = (if ts = [] then Some JUndefined else None)"
    using leaf_value [of JUndefined] by (simp add: isPlainObject_def)
  have "nullish (leaf (t # ts) v) JUndefined = nullish (leaf ts (prop_of v t)) JUndefined"
    using undef by (simp add: v prop_of_def nullish_def split: option.split)
  then show ?case using Cons.IH [OF fit m(2)] by (simp add: v sourceOf_def)
qed

lemma flatten_value:
  assumes "field_names v" "isPlainObject v" "list_all field_name ss"
  shows "map_of (flatten v) (dotted ss) = leaf ss v"
proof -
  have "map_of (flatten v) (dotted ss) = Some w \<longleftrightarrow> leaf ss v = Some w" for w
    using flatten_lookup [OF assms(1,2)] dotted_inj leaf_names [OF assms(1)] assms(3) by metis
  then show ?thesis by (metis option.exhaust)
qed

lemma compare_refl: "(\<And>n. v = JNum n \<Longrightarrow> n \<noteq> NaN) \<Longrightarrow> defaultCompare v v"
  by (simp add: defaultCompare_def js_eq_def split: jsval.split)

lemma nan_free_leaf: "nan_free v \<Longrightarrow> leaf ss v = Some (JNum n) \<Longrightarrow> n \<noteq> NaN"
proof (induction ss arbitrary: v)
  case (Cons t ts)
  then obtain kvs u where u: "v = JObj kvs" "map_of kvs t = Some u" "leaf ts u = Some (JNum n)"
    by (cases v) (auto split: option.splits)
  then have "nan_free u" using Cons.prems(1) map_of_SomeD [OF u(2)] by auto
  then show ?case using Cons.IH u(3) by blast
qed (auto split: if_splits)

theorem settings_resave_sends_nothing:
  assumes "handleSubmit ok d data s = (Submitted sent, s')"
    and "field_names data" "isPlainObject data" "nan_free data"
    and "dirty_marks d'" "isPlainObject d'" "marks_fit d' data"
  shows "handleSubmit ok' d' data s' = (NoChanges, s')"
proof -
  have b: "sf_baseline s' = flatten data" using assms(1) by (auto simp: handleSubmit_def Let_def split: if_splits)
  have "(k, v) \<notin> set (changedEntries s' d' data)" for k v
  proof
    assume "(k, v) \<in> set (changedEntries s' d' data)"
    then obtain ss where ss: "leaf ss d' = Some (JBool True)" "k = dotted ss" "v = source_at ss data"
      and diff: "\<not> defaultCompare v (baseline_value s' k)"
      using changedEntries_iff [OF assms(5,6)] by blast
    have n: "list_all field_name ss" using leaf_names [OF dirty_marks_names [OF assms(5)] ss(1)] .
    have "baseline_value s' k = v"
      using flatten_value [OF assms(2,3) n] marked_source [OF assms(7) ss(1)] ss b by (simp add: baseline_value_def)
    moreover have "m \<noteq> NaN" if "v = JNum m" for m
    proof -
      have "leaf ss data = Some (JNum m)"
        using marked_source [OF assms(7) ss(1)] ss(3) that by (simp add: nullish_def split: option.splits)
      then show ?thesis using nan_free_leaf [OF assms(4)] by blast
    qed
    ultimately show False using diff compare_refl by simp
  qed
  then have "changedEntries s' d' data = []" by (metis list.set_intros(1) neq_Nil_conv surj_pair)
  then show ?thesis by (simp add: handleSubmit_def)
qed

end
