(* ===== verification/SystemOptions.thy ===== *)
theory SystemOptions
  imports JsFormat JsJsonPrint
begin

text \<open>
  The settings pages of the console: how the options the server lists become the values the sections
  edit. The theory models \<open>hooks/use-system-options.ts\<close> (reading an option at the type of its
  default), \<open>components/settings-page.tsx\<close> (the settings of a page), \<open>operations/index.tsx\<close> (the
  second, loose reading that the operations page lays over the first), \<open>utils/section-registry.ts\<close>
  (sections by id and alias) and \<open>utils/numeric-field.ts\<close> (the binding of a number input).

  An object of settings is an association list. The list of options is the response of the server;
  it is \<open>None\<close> until the request has returned.

  The lemmas compute what a page reads for a key, show that the typed reading keeps the type of
  every default, and that on the operations page the loose reading replaces it.
\<close>

type_synonym settings = "(string \<times> jsval) list"

section \<open>Reading an option at the type of its default\<close>

text \<open>The errors of \<open>parseOptionValueSafe\<close>; the text that \<open>JSON.parse\<close> gives for a syntax error depends on the engine and is left out.\<close>

datatype ParseError =
    EmptyNumber
  | InvalidNumber string
  | NotAnArray
  | ElementMismatch string string
  | JsonParseFailed

datatype ParseResult = Success jsval | Failure ParseError jsval

definition js_typeof :: "jsval \<Rightarrow> string" where
  "js_typeof v =
     (case v of
        JUndefined \<Rightarrow> ''undefined''
      | JBool _ \<Rightarrow> ''boolean''
      | JNum _ \<Rightarrow> ''number''
      | JStr _ \<Rightarrow> ''string''
      | _ \<Rightarrow> ''object'')"

definition parseArrayOption :: "string \<Rightarrow> jsval list \<Rightarrow> ParseResult" where
  "parseArrayOption value defaultValue =
     (case json_parse value of
        None \<Rightarrow> Failure JsonParseFailed (JArr defaultValue)
      | Some (JArr parsed) \<Rightarrow>
          (case defaultValue of
             [] \<Rightarrow> Success (JArr parsed)
           | d # _ \<Rightarrow>
               (case find (\<lambda>el. js_typeof el \<noteq> js_typeof d) parsed of
                  None \<Rightarrow> Success (JArr parsed)
                | Some invalidElement \<Rightarrow>
                    if invalidElement \<noteq> JUndefined
                    then Failure (ElementMismatch (js_typeof d) (js_typeof invalidElement)) (JArr defaultValue)
                    else Success (JArr parsed)))
      | Some _ \<Rightarrow> Failure NotAnArray (JArr defaultValue))"

definition parseOptionValueSafe :: "string \<Rightarrow> jsval \<Rightarrow> ParseResult" where
  "parseOptionValueSafe value defaultValue =
     (case defaultValue of
        JBool _ \<Rightarrow> Success (JBool (value = ''true'' \<or> value = ''1''))
      | JNum _ \<Rightarrow>
          (let trimmed = trim value in
           if trimmed = [] then Failure EmptyNumber defaultValue
           else
             let parsed = string_to_number trimmed in
             if parsed = NaN then Failure (InvalidNumber value) defaultValue
             else Success (JNum parsed))
      | JArr ds \<Rightarrow> parseArrayOption value ds
      | _ \<Rightarrow> Success (JStr value))"

text \<open>One turn of the \<open>forEach\<close>: the settings so far and the errors so far.\<close>

definition readOption :: "settings \<Rightarrow> settings \<times> (string \<times> ParseError) list \<Rightarrow> string \<times> string \<Rightarrow>
    settings \<times> (string \<times> ParseError) list" where
  "readOption defaults acc opt =
     (case map_of defaults (fst opt) of
        None \<Rightarrow> acc
      | Some d \<Rightarrow>
          (case parseOptionValueSafe (snd opt) d of
             Success v \<Rightarrow> (obj_set (fst opt) v (fst acc), snd acc)
           | Failure e fb \<Rightarrow> (obj_set (fst opt) fb (fst acc), snd acc @ [(fst opt, e)])))"

definition readOptions :: "(string \<times> string) list \<Rightarrow> settings \<Rightarrow> settings \<times> (string \<times> ParseError) list" where
  "readOptions options defaults = foldl (readOption defaults) (defaults, []) options"

definition getOptionValue :: "(string \<times> string) list option \<Rightarrow> settings \<Rightarrow> settings" where
  "getOptionValue options defaults =
     (case options of None \<Rightarrow> defaults | Some os \<Rightarrow> fst (readOptions os defaults))"

text \<open>The settings of a page: the typed reading, then the page's own \<open>resolveSettings\<close> if it has one.\<close>

definition pageSettings :: "(settings \<Rightarrow> (string \<times> string) list option \<Rightarrow> settings) option \<Rightarrow>
    (string \<times> string) list option \<Rightarrow> settings \<Rightarrow> settings" where
  "pageSettings resolveSettings options defaultSettings =
     (let baseSettings = getOptionValue options defaultSettings in
      case resolveSettings of None \<Rightarrow> baseSettings | Some f \<Rightarrow> f baseSettings options)"

section \<open>The operations page\<close>

definition parseLooseOptionValue :: "string \<Rightarrow> jsval" where
  "parseLooseOptionValue value =
     (let trimmed = trim value in
      if trimmed = [] then JStr []
      else
        let normalized = to_lower trimmed in
        if List.member [''true'', ''1'', ''yes'', ''on''] normalized then JBool True
        else if List.member [''false'', ''0'', ''no'', ''off''] normalized then JBool False
        else JStr value)"

definition mergeOption :: "settings \<Rightarrow> string \<times> string \<Rightarrow> settings" where
  "mergeOption merged opt =
     obj_set (''__raw.'' @ fst opt) (JStr (snd opt))
       (obj_set (fst opt) (parseLooseOptionValue (snd opt)) merged)"

definition mergeOperationsSettings :: "settings \<Rightarrow> (string \<times> string) list option \<Rightarrow> settings" where
  "mergeOperationsSettings settings raw =
     (case raw of None \<Rightarrow> settings | Some os \<Rightarrow> foldl mergeOption settings os)"

definition defaultOperationsSettings :: settings where
  "defaultOperationsSettings =
    [(''RetryTimes'', JNum (Fin 0)),
     (''DefaultCollapseSidebar'', JBool False),
     (''DemoSiteEnabled'', JBool False),
     (''SelfUseModeEnabled'', JBool False),
     (''ChannelDisableThreshold'', JStr []),
     (''QuotaRemindThreshold'', JStr []),
     (''AutomaticDisableChannelEnabled'', JBool False),
     (''AutomaticEnableChannelEnabled'', JBool False),
     (''AutomaticDisableKeywords'', JStr []),
     (''AutomaticDisableStatusCodes'', JStr ''401''),
     (''AutomaticRetryStatusCodes'', JStr ''100-199,300-399,401-407,409-499,500-503,505-523,525-599''),
     (''monitor_setting.auto_test_channel_enabled'', JBool False),
     (''monitor_setting.auto_test_channel_minutes'', JNum (Fin 10)),
     (''SMTPServer'', JStr []),
     (''SMTPPort'', JStr []),
     (''SMTPAccount'', JStr []),
     (''SMTPFrom'', JStr []),
     (''SMTPToken'', JStr []),
     (''SMTPSSLEnabled'', JBool False),
     (''SMTPForceAuthLogin'', JBool False),
     (''WorkerUrl'', JStr []),
     (''WorkerValidKey'', JStr []),
     (''WorkerAllowHttpImageRequestEnabled'', JBool False),
     (''LogConsumeEnabled'', JBool False),
     (''performance_setting.disk_cache_enabled'', JBool False),
     (''performance_setting.disk_cache_threshold_mb'', JNum (Fin 10)),
     (''performance_setting.disk_cache_max_size_mb'', JNum (Fin 1024)),
     (''performance_setting.disk_cache_path'', JStr []),
     (''performance_setting.monitor_enabled'', JBool False),
     (''performance_setting.monitor_cpu_threshold'', JNum (Fin 90)),
     (''performance_setting.monitor_memory_threshold'', JNum (Fin 90)),
     (''performance_setting.monitor_disk_threshold'', JNum (Fin 95)),
     (''perf_metrics_setting.enabled'', JBool True),
     (''perf_metrics_setting.flush_interval'', JNum (Fin 5)),
     (''perf_metrics_setting.bucket_time'', JStr ''hour''),
     (''perf_metrics_setting.retention_days'', JNum (Fin 0)),
     (''membership_risk.enabled'', JBool False),
     (''membership_risk.dry_run'', JBool True),
     (''membership_risk.grace_hours'', JNum (Fin 24)),
     (''membership_risk.auto_restore_on_rejoin'', JBool True),
     (''membership_risk.paid_bypass_enabled'', JBool True),
     (''membership_risk.event_secret'', JStr []),
     (''membership_risk.freeze_community_tokens_after_grace'', JBool True),
     (''membership_risk.revoke_community_access_after_grace'', JBool True),
     (''membership_risk.block_checkin_on_left'', JBool True),
     (''membership_risk.block_game_reward_on_left'', JBool True),
     (''membership_risk.block_invite_reward_on_left'', JBool True),
     (''membership_risk.block_campaign_bonus_on_left'', JBool True),
     (''membership_risk.notify_user_on_left'', JBool True),
     (''membership_risk.notify_admin_on_bulk_left'', JBool True),
     (''membership_risk.qq_events_enabled'', JBool True),
     (''membership_risk.tg_events_enabled'', JBool True),
     (''membership_risk.scheduled_recheck_enabled'', JBool True),
     (''membership_risk.scheduled_recheck_interval_hours'', JNum (Fin 12))]"

definition operationsSettings :: "(string \<times> string) list option \<Rightarrow> settings" where
  "operationsSettings options = pageSettings (Some mergeOperationsSettings) options defaultOperationsSettings"

section \<open>The sections of a page\<close>

record SectionDefinition =
  sd_id :: string
  sd_titleKey :: string

record SectionRegistryConfig =
  rc_sections :: "SectionDefinition list"
  rc_defaultSection :: string
  rc_basePath :: string
  rc_aliases :: "(string \<times> string) list"
  rc_pathStyle :: bool

definition normalizeSectionId :: "SectionRegistryConfig \<Rightarrow> string \<Rightarrow> string" where
  "normalizeSectionId config sectionId = nullish (map_of (rc_aliases config) sectionId) sectionId"

definition sectionUrl :: "SectionRegistryConfig \<Rightarrow> SectionDefinition \<Rightarrow> string" where
  "sectionUrl config s =
     (if rc_pathStyle config then rc_basePath config @ ''/'' @ sd_id s
      else rc_basePath config @ ''?section='' @ sd_id s)"

definition getSectionNavItems :: "(string \<Rightarrow> string) \<Rightarrow> SectionRegistryConfig \<Rightarrow> (string \<times> string) list" where
  "getSectionNavItems t config = map (\<lambda>s. (t (sd_titleKey s), sectionUrl config s)) (rc_sections config)"

text \<open>\<open>sections.find(...) ?? sections[0]\<close>: \<open>None\<close> only for a registry with no section.\<close>

definition getSectionMeta :: "SectionRegistryConfig \<Rightarrow> string \<Rightarrow> SectionDefinition option" where
  "getSectionMeta config sectionId =
     (case find (\<lambda>item. sd_id item = normalizeSectionId config sectionId) (rc_sections config) of
        Some s \<Rightarrow> Some s
      | None \<Rightarrow> (case rc_sections config of [] \<Rightarrow> None | s # _ \<Rightarrow> Some s))"

definition OPERATIONS_SECTIONS :: "SectionDefinition list" where
  "OPERATIONS_SECTIONS =
     map (\<lambda>(i, t). \<lparr>sd_id = i, sd_titleKey = t\<rparr>)
      [(''behavior'', ''System Behavior''),
       (''community-ops'', ''Community Operations Manager''),
       (''risk-control'', ''Account Risk Control''),
       (''membership-risk'', ''Membership Risk''),
       (''agent-ops'', ''Agent Operations Center''),
       (''quiz-banks'', ''Quiz bank management''),
       (''monitoring'', ''Monitoring & Alerts''),
       (''email'', ''SMTP Email''),
       (''worker'', ''Worker Proxy''),
       (''logs'', ''Log Maintenance''),
       (''performance'', ''Performance''),
       (''update-checker'', ''System maintenance'')]"

definition operationsRegistry :: SectionRegistryConfig where
  "operationsRegistry =
     \<lparr>rc_sections = OPERATIONS_SECTIONS, rc_defaultSection = ''behavior'',
      rc_basePath = ''/system-settings/operations'',
      rc_aliases = [(''account-risk-control'', ''risk-control''), (''account-risk'', ''risk-control'')],
      rc_pathStyle = True\<rparr>"

section \<open>Number inputs\<close>

text \<open>What a number input shows for the value of its field, and the value after the input reports a number.\<close>

definition numberFieldValue :: "jsval \<Rightarrow> jsval" where
  "numberFieldValue raw =
     (case raw of JNum n \<Rightarrow> if is_finite n then JNum n else JStr [] | _ \<Rightarrow> JStr [])"

definition numberFieldChange :: "jsnum \<Rightarrow> jsval \<Rightarrow> jsval" where
  "numberFieldChange valueAsNumber old = (if is_finite valueAsNumber then JNum valueAsNumber else old)"

section \<open>What the typed reading returns\<close>

definition parsed_value :: "string \<Rightarrow> jsval \<Rightarrow> jsval" where
  "parsed_value s d = (case parseOptionValueSafe s d of Success v \<Rightarrow> v | Failure _ fb \<Rightarrow> fb)"

text \<open>The type of a default carries over to a value: a switch stays a switch, a number is never \<open>NaN\<close> unless the
  default is, and an array has elements of the type of the first default element.\<close>

definition fits_default :: "jsval \<Rightarrow> jsval \<Rightarrow> bool" where
  "fits_default d v =
     (v = d \<or>
      (case d of
         JBool _ \<Rightarrow> \<exists>b. v = JBool b
       | JNum _ \<Rightarrow> \<exists>n. v = JNum n \<and> n \<noteq> NaN
       | JStr _ \<Rightarrow> \<exists>s. v = JStr s
       | JArr ds \<Rightarrow> \<exists>vs. v = JArr vs \<and> (ds \<noteq> [] \<longrightarrow> (\<forall>w\<in>set vs. js_typeof w = js_typeof (hd ds)))
       | _ \<Rightarrow> False))"

definition option_default :: "jsval \<Rightarrow> bool" where
  "option_default d = (case d of JBool _ \<Rightarrow> True | JNum _ \<Rightarrow> True | JStr _ \<Rightarrow> True | JArr _ \<Rightarrow> True | _ \<Rightarrow> False)"

lemma map_of_rev_Cons:
  "map_of (rev ((k, v) # xs)) k' = (case map_of (rev xs) k' of Some w \<Rightarrow> Some w | None \<Rightarrow> if k' = k then Some v else None)"
  by (auto simp: map_add_def split: option.split)

lemma typeof_undefined [simp]: "js_typeof JUndefined = ''undefined''"
  by (simp add: js_typeof_def)

lemma find_mismatch_undefined:
  "find P xs = Some JUndefined \<Longrightarrow> JUndefined \<in> set xs"
  by (metis find_Some_iff nth_mem)

lemma parseArrayOption_cases:
  assumes "parseArrayOption s ds = Success v"
  shows "\<exists>vs. v = JArr vs \<and> json_parse s = Some (JArr vs) \<and>
    (ds \<noteq> [] \<longrightarrow> (\<forall>w\<in>set vs. js_typeof w = js_typeof (hd ds)))"
proof -
  have "JUndefined \<notin> set vs" if "json_parse s = Some (JArr vs)" for vs
    using json_parse_ok [OF that] by auto
  then show ?thesis using assms
  by (auto simp: parseArrayOption_def find_None_iff dest: find_mismatch_undefined
      split: option.splits jsval.splits list.splits if_splits)
qed

lemma parseArrayOption_fallback: "parseArrayOption s ds = Failure e fb \<Longrightarrow> fb = JArr ds"
  by (auto simp: parseArrayOption_def split: option.splits jsval.splits list.splits if_splits)

lemma parsed_value_fits:
  assumes "option_default d"
  shows "fits_default d (parsed_value s d)"
proof (cases d)
  case (JArr ds)
  then have p: "parseOptionValueSafe s d = parseArrayOption s ds" by (simp add: parseOptionValueSafe_def)
  show ?thesis
  proof (cases "parseArrayOption s ds")
    case (Success v)
    then show ?thesis using p parseArrayOption_cases [OF Success] JArr by (auto simp: parsed_value_def fits_default_def)
  next
    case (Failure e fb)
    then show ?thesis using p parseArrayOption_fallback [OF Failure] JArr by (simp add: parsed_value_def fits_default_def)
  qed
qed (use assms in \<open>auto simp: parsed_value_def fits_default_def parseOptionValueSafe_def option_default_def Let_def\<close>)

lemma fst_readOption:
  "fst (readOption defaults acc (k, s)) =
     (case map_of defaults k of None \<Rightarrow> fst acc | Some d \<Rightarrow> obj_set k (parsed_value s d) (fst acc))"
  by (simp add: readOption_def parsed_value_def split: option.split ParseResult.split)

lemma foldl_readOption:
  "map_of (fst (foldl (readOption defaults) acc os)) k =
     (case map_of defaults k of
        None \<Rightarrow> map_of (fst acc) k
      | Some d \<Rightarrow> (case map_of (rev os) k of None \<Rightarrow> map_of (fst acc) k | Some s \<Rightarrow> Some (parsed_value s d)))"
proof (induction os arbitrary: acc)
  case (Cons e os)
  obtain k' s' where e: "e = (k', s')" by fastforce
  show ?case
    by (simp only: foldl_Cons Cons e fst_readOption map_of_rev_Cons)
      (auto simp: map_of_obj_set split: option.splits)
qed (simp split: option.split)

lemma keys_readOption:
  assumes "map fst (fst acc) = map fst defaults"
  shows "map fst (fst (readOption defaults acc e)) = map fst defaults"
proof (cases "map_of defaults (fst e)")
  case None
  then show ?thesis using assms by (simp add: readOption_def)
next
  case (Some d)
  have keep: "map fst (obj_set k v m) = map fst m" if "k \<in> fst ` set m" for k :: string and v :: jsval and m
    using that by (induction m) fastforce+
  have "fst e \<in> fst ` set (fst acc)"
    using Some assms map_of_SomeD [OF Some] by (metis fst_conv image_eqI list.set_map)
  then show ?thesis using Some keep assms by (cases e) (simp add: fst_readOption)
qed

lemma keys_readOptions: "map fst (getOptionValue options defaults) = map fst defaults"
proof -
  have "map fst (fst (foldl (readOption defaults) acc os)) = map fst defaults"
    if "map fst (fst acc) = map fst defaults" for acc os
    using that by (induction os arbitrary: acc) (simp_all add: keys_readOption)
  then show ?thesis by (simp add: getOptionValue_def readOptions_def split: option.split)
qed

lemma getOptionValue_lookup:
  "map_of (getOptionValue options defaults) k =
     map_option (\<lambda>d. case map_of (rev (nullish options [])) k of None \<Rightarrow> d | Some s \<Rightarrow> parsed_value s d) (map_of defaults k)"
  by (auto simp: getOptionValue_def readOptions_def foldl_readOption nullish_def option.map_ident split: option.splits)

text \<open>C37: Reading the options of the server never changes the shape of the settings: the keys are those of the
  defaults, in their order, and every value has the type of its default, whatever text the server stored. The value
  of a key comes from the last option of that name, and from the default when there is none.\<close>

theorem options_keep_types:
  assumes "map_of defaults k = Some d" "option_default d"
  shows "map fst (getOptionValue options defaults) = map fst defaults \<and>
    (\<exists>v. map_of (getOptionValue options defaults) k = Some v \<and> fits_default d v \<and>
      v = (case map_of (rev (nullish options [])) k of None \<Rightarrow> d | Some s \<Rightarrow> parsed_value s d))"
proof -
  have "fits_default d d" by (simp add: fits_default_def)
  then show ?thesis
    using assms parsed_value_fits [OF assms(2)] keys_readOptions
    by (auto simp: getOptionValue_lookup split: option.split)
qed

theorem options_keep_types_witness:
  "fits_default (JNum (Fin 24)) (JNum (Fin 48)) \<and>
   map_of (getOptionValue (Some [(''membership_risk.grace_hours'', ''48'')]) defaultOperationsSettings) ''membership_risk.grace_hours'' = Some (JNum (Fin 48))"
proof -
  have v: "map_of (getOptionValue (Some [(''membership_risk.grace_hours'', ''48'')]) defaultOperationsSettings) ''membership_risk.grace_hours'' = Some (JNum (Fin 48))"
    by code_simp
  have "map_of defaultOperationsSettings ''membership_risk.grace_hours'' = Some (JNum (Fin 24))" by code_simp
  moreover have "option_default (JNum (Fin 24))" by (simp add: option_default_def)
  ultimately show ?thesis
    using options_keep_types [of defaultOperationsSettings "''membership_risk.grace_hours''" "JNum (Fin 24)"
      "Some [(''membership_risk.grace_hours'', ''48'')]"] v by auto
qed

section \<open>What the operations page reads\<close>

definition raw_key :: "string \<Rightarrow> bool" where
  "raw_key k = starts_with ''__raw.'' k"

lemma raw_key_append [simp]: "raw_key (''__raw.'' @ k)"
  by (simp add: raw_key_def)

lemma foldl_mergeOption:
  assumes "\<not> raw_key k"
  shows "map_of (foldl mergeOption m os) k =
    (case map_of (rev os) k of None \<Rightarrow> map_of m k | Some s \<Rightarrow> Some (parseLooseOptionValue s))"
proof (induction os arbitrary: m)
  case (Cons e os)
  obtain k' s' where e: "e = (k', s')" by fastforce
  have "k \<noteq> ''__raw.'' @ k'" using assms raw_key_append by metis
  then have "map_of (mergeOption m e) k = (if k = k' then Some (parseLooseOptionValue s') else map_of m k)"
    by (simp only: e mergeOption_def fst_conv snd_conv map_of_obj_set) simp
  then show ?case by (simp only: foldl_Cons Cons e map_of_rev_Cons) (simp split: option.split)
qed simp

lemma operations_lookup:
  assumes "\<not> raw_key k" "map_of defaultOperationsSettings k = Some d"
  shows "map_of (operationsSettings options) k =
    Some (case map_of (rev (nullish options [])) k of None \<Rightarrow> d | Some s \<Rightarrow> parseLooseOptionValue s)"
  using assms
  by (auto simp: operationsSettings_def pageSettings_def mergeOperationsSettings_def foldl_mergeOption
      getOptionValue_lookup nullish_def split: option.split)

lemma loose_not_number [simp]: "parseLooseOptionValue s \<noteq> JNum n"
  by (simp add: parseLooseOptionValue_def Let_def)

lemma number_defaults_plain: "map_of defaultOperationsSettings k = Some d \<Longrightarrow> \<not> raw_key k"
proof -
  have "list_all (\<lambda>e. \<not> raw_key (fst e)) defaultOperationsSettings" by code_simp
  then show "map_of defaultOperationsSettings k = Some d \<Longrightarrow> \<not> raw_key k"
    by (auto simp: list_all_iff dest!: map_of_SomeD)
qed

section \<open>Readings of the stored options\<close>

text \<open>What a section may rely on: the page's value of a key depends on the last option of that name only, through one
  way of reading texts, and is the default when no option has the name. Both readings of the program are such.\<close>

locale page_reading =
  fixes value_at :: "(string \<times> string) list option \<Rightarrow> string \<Rightarrow> jsval option"
    and default_at :: "string \<Rightarrow> jsval option"
    and read_as :: "string \<Rightarrow> jsval \<Rightarrow> jsval"
  assumes reads_last: "default_at k = Some d \<Longrightarrow>
    value_at q k = Some (case map_of (rev (nullish q [])) k of None \<Rightarrow> d | Some s \<Rightarrow> read_as s d)"
begin

lemma before_loading: "default_at k = Some d \<Longrightarrow> value_at None k = Some d"
  by (simp add: reads_last nullish_def)

lemma reading_is_local:
  assumes "default_at k \<noteq> None" "map_of (rev (nullish q' [])) k = map_of (rev (nullish q [])) k"
  shows "value_at q' k = value_at q k"
  using assms by (auto simp: reads_last)

lemma other_options_ignored:
  assumes "default_at k \<noteq> None" "k \<noteq> k'"
  shows "value_at (Some (os @ [(k', s)])) k = value_at (Some os) k"
  using assms by (intro reading_is_local) (simp_all add: nullish_def)

lemma later_option_wins:
  assumes "default_at k = Some d"
  shows "value_at (Some (os @ [(k, s)])) k = Some (read_as s d)"
  using assms by (simp add: reads_last nullish_def)

end

interpretation typed: page_reading "\<lambda>q. map_of (getOptionValue q defaults)" "map_of defaults" parsed_value for defaults
  by unfold_locales (simp add: getOptionValue_lookup)

interpretation loose: page_reading "\<lambda>q. map_of (operationsSettings q)" "map_of defaultOperationsSettings"
  "\<lambda>s d. parseLooseOptionValue s"
  by unfold_locales (rule operations_lookup [OF number_defaults_plain])

section \<open>Sections are found by id and alias\<close>

lemma find_unique:
  assumes "distinct (map f xs)" "x \<in> set xs"
  shows "find (\<lambda>y. f y = f x) xs = Some x"
  using assms by (induction xs) (auto simp: image_iff)

lemma section_found:
  assumes "distinct (map sd_id (rc_sections config))" "s \<in> set (rc_sections config)"
    "map_of (rc_aliases config) (sd_id s) = None"
  shows "getSectionMeta config (sd_id s) = Some s"
  using find_unique [OF assms(1,2)] assms(3) by (simp add: getSectionMeta_def normalizeSectionId_def nullish_def)

lemma section_alias:
  assumes "distinct (map sd_id (rc_sections config))" "s \<in> set (rc_sections config)"
    "map_of (rc_aliases config) a = Some (sd_id s)"
  shows "getSectionMeta config a = Some s"
  using find_unique [OF assms(1,2)] assms(3) by (simp add: getSectionMeta_def normalizeSectionId_def nullish_def)

lemma section_unknown:
  assumes "\<forall>s\<in>set (rc_sections config). sd_id s \<noteq> a" "map_of (rc_aliases config) a = None"
  shows "getSectionMeta config a = (case rc_sections config of [] \<Rightarrow> None | s # _ \<Rightarrow> Some s)"
proof -
  have "find (\<lambda>item. sd_id item = a) (rc_sections config) = None" using assms(1) by (auto simp: find_None_iff)
  then show ?thesis using assms(2) by (simp add: getSectionMeta_def normalizeSectionId_def nullish_def)
qed

theorem operations_sections:
  "map (\<lambda>i. map_option sd_titleKey (getSectionMeta operationsRegistry i))
     [''monitoring'', ''account-risk'', ''account-risk-control'', ''no-such-section''] =
   map Some [''Monitoring & Alerts'', ''Account Risk Control'', ''Account Risk Control'', ''System Behavior''] \<and>
   (\<forall>s\<in>set OPERATIONS_SECTIONS. getSectionMeta operationsRegistry (sd_id s) = Some s)"
proof -
  have "distinct (map sd_id (rc_sections operationsRegistry))"
    "list_all (\<lambda>s. map_of (rc_aliases operationsRegistry) (sd_id s) = None) (rc_sections operationsRegistry)"
    by code_simp+
  then have "\<forall>s\<in>set (rc_sections operationsRegistry). getSectionMeta operationsRegistry (sd_id s) = Some s"
    using section_found by (auto simp: list_all_iff)
  moreover have "rc_sections operationsRegistry = OPERATIONS_SECTIONS" by (simp add: operationsRegistry_def)
  ultimately show ?thesis by (simp only:) code_simp
qed

end
