(* ===== verification/OperationsForms.thy ===== *)
theory OperationsForms
  imports SystemOptions HttpStatusCodeRules JsRegex
begin

text \<open>
  The sections of the operations page that save options one by one: system behaviour
  (\<open>general/system-behavior-section.tsx\<close>), monitoring (\<open>integrations/monitoring-settings-section.tsx\<close>),
  SMTP email (\<open>integrations/email-settings-section.tsx\<close>), the worker proxy
  (\<open>integrations/worker-settings-section.tsx\<close>) and performance (\<open>maintenance/performance-section.tsx\<close>).

  A section takes its defaults from the settings of the page, whose values may have any type at run
  time, so a string method called on another value is an error of the model. Each section has its
  schema (the values it accepts, with coercions) and its \<open>onSubmit\<close> (the updates it sends, in order).

  The lemmas say when the monitoring section cannot be shown, which number inputs are blank, which fields an unedited save sends, and
  that the secrets of the email section are never overwritten by blanks.
\<close>

section \<open>Values at run time\<close>

datatype section_error = NotAFunction

text \<open>\<open>a === b\<close> on values that are not objects.\<close>

definition strict_eq :: "jsval \<Rightarrow> jsval \<Rightarrow> bool" where
  "strict_eq a b = (case (a, b) of (JNum m, JNum n) \<Rightarrow> js_eq m n | _ \<Rightarrow> a = b)"

definition setting :: "settings \<Rightarrow> string \<Rightarrow> jsval" where
  "setting s k = nullish (map_of s k) JUndefined"

text \<open>\<open>v ?? d\<close>.\<close>

definition coalesce :: "jsval \<Rightarrow> jsval \<Rightarrow> jsval" where
  "coalesce v d = (if v = JUndefined \<or> v = JNull then d else v)"

text \<open>\<open>v.trim()\<close>.\<close>

definition call_trim :: "jsval \<Rightarrow> section_error + jsval" where
  "call_trim v = (case v of JStr s \<Rightarrow> Inr (JStr (trim s)) | _ \<Rightarrow> Inl NotAFunction)"

text \<open>\<open>z.coerce.number()\<close>.\<close>

definition coerce_number :: "(jsnum \<Rightarrow> bool) \<Rightarrow> jsval \<Rightarrow> jsval option" where
  "coerce_number check v = (let n = js_Number v in if n \<noteq> NaN \<and> is_finite n \<and> check n then Some (JNum n) else None)"

definition js_between :: "rat \<Rightarrow> rat \<Rightarrow> jsnum \<Rightarrow> bool" where
  "js_between lo hi n = (js_le (Fin lo) n \<and> js_le n (Fin hi))"

definition is_safe_integer :: "jsnum \<Rightarrow> bool" where
  "is_safe_integer n =
     (case n of Fin r \<Rightarrow> r = of_int \<lfloor>r\<rfloor> \<and> \<bar>r\<bar> \<le> 9007199254740991 | _ \<Rightarrow> False)"

definition is_bool :: "jsval \<Rightarrow> bool" where
  "is_bool v = (case v of JBool _ \<Rightarrow> True | _ \<Rightarrow> False)"

definition str_check :: "(string \<Rightarrow> bool) \<Rightarrow> jsval \<Rightarrow> bool" where
  "str_check P v = (case v of JStr s \<Rightarrow> P s | _ \<Rightarrow> False)"

text \<open>The updates of a save: the new values whose value is not the old one.\<close>

definition changed_values :: "settings \<Rightarrow> settings \<Rightarrow> settings" where
  "changed_values new old = filter (\<lambda>e. \<not> strict_eq (snd e) (setting old (fst e))) new"

section \<open>System behaviour\<close>

definition behaviorDefaults :: "settings \<Rightarrow> settings" where
  "behaviorDefaults s =
     map (\<lambda>k. (k, setting s k)) [''RetryTimes'', ''DefaultCollapseSidebar'', ''DemoSiteEnabled'', ''SelfUseModeEnabled'']"

definition behaviorSchema :: "settings \<Rightarrow> settings option" where
  "behaviorSchema vals =
     (case coerce_number (js_between 0 10) (setting vals ''RetryTimes'') of
        None \<Rightarrow> None
      | Some n \<Rightarrow>
          if is_bool (setting vals ''DefaultCollapseSidebar'') \<and> is_bool (setting vals ''DemoSiteEnabled'') \<and>
             is_bool (setting vals ''SelfUseModeEnabled'')
          then Some [(''RetryTimes'', n), (''DefaultCollapseSidebar'', setting vals ''DefaultCollapseSidebar''),
            (''DemoSiteEnabled'', setting vals ''DemoSiteEnabled''),
            (''SelfUseModeEnabled'', setting vals ''SelfUseModeEnabled'')]
          else None)"

definition behavior_onSubmit :: "settings \<Rightarrow> settings \<Rightarrow> settings" where
  "behavior_onSubmit defaultValues data = changed_values data defaultValues"

section \<open>Monitoring\<close>

fun crlf_to_lf :: "string \<Rightarrow> string" where
  "crlf_to_lf (c # d # cs) =
     (if c = CHR 0x0D \<and> d = CHR 0x0A then CHR 0x0A # crlf_to_lf cs else c # crlf_to_lf (d # cs))"
| "crlf_to_lf cs = cs"

definition normalizeLineEndings :: "jsval \<Rightarrow> section_error + jsval" where
  "normalizeLineEndings v = (case v of JStr s \<Rightarrow> Inr (JStr (crlf_to_lf s)) | _ \<Rightarrow> Inl NotAFunction)"

definition numericString :: "string \<Rightarrow> bool" where
  "numericString s =
     (let trimmed = trim s in
      trimmed = [] \<or> string_to_number trimmed \<noteq> NaN \<and> js_le (Fin 0) (string_to_number trimmed))"

text \<open>\<open>parseHttpStatusCodeRules\<close> takes any value and turns it into text.\<close>

definition rules_of :: "jsval \<Rightarrow> ParsedHttpStatusCodeRules" where
  "rules_of v = parseHttpStatusCodeRules (if v = JUndefined \<or> v = JNull then None else Some (js_to_string v))"

definition monitoringFormDefaults :: "settings \<Rightarrow> section_error + settings" where
  "monitoringFormDefaults s =
     sbind (normalizeLineEndings (coalesce (setting s ''AutomaticDisableKeywords'') (JStr []))) (\<lambda>keywords.
     Inr [(''ChannelDisableThreshold'', coalesce (setting s ''ChannelDisableThreshold'') (JStr [])),
       (''QuotaRemindThreshold'', coalesce (setting s ''QuotaRemindThreshold'') (JStr [])),
       (''AutomaticDisableChannelEnabled'', setting s ''AutomaticDisableChannelEnabled''),
       (''AutomaticEnableChannelEnabled'', setting s ''AutomaticEnableChannelEnabled''),
       (''AutomaticDisableKeywords'', keywords),
       (''AutomaticDisableStatusCodes'', coalesce (setting s ''AutomaticDisableStatusCodes'') (JStr [])),
       (''AutomaticRetryStatusCodes'', coalesce (setting s ''AutomaticRetryStatusCodes'') (JStr [])),
       (''monitor_setting'', JObj
         [(''auto_test_channel_enabled'', setting s ''monitor_setting.auto_test_channel_enabled''),
          (''auto_test_channel_minutes'', setting s ''monitor_setting.auto_test_channel_minutes'')])])"

definition monitoringNormalizeDefaults :: "settings \<Rightarrow> section_error + settings" where
  "monitoringNormalizeDefaults s =
     sbind (call_trim (coalesce (setting s ''ChannelDisableThreshold'') (JStr []))) (\<lambda>disable.
     sbind (call_trim (coalesce (setting s ''QuotaRemindThreshold'') (JStr []))) (\<lambda>quota.
     sbind (normalizeLineEndings (coalesce (setting s ''AutomaticDisableKeywords'') (JStr []))) (\<lambda>keywords.
     Inr [(''ChannelDisableThreshold'', disable),
       (''QuotaRemindThreshold'', quota),
       (''AutomaticDisableChannelEnabled'', setting s ''AutomaticDisableChannelEnabled''),
       (''AutomaticEnableChannelEnabled'', setting s ''AutomaticEnableChannelEnabled''),
       (''AutomaticDisableKeywords'', keywords),
       (''AutomaticDisableStatusCodes'',
         JStr (normalized (rules_of (coalesce (setting s ''AutomaticDisableStatusCodes'') (JStr []))))),
       (''AutomaticRetryStatusCodes'',
         JStr (normalized (rules_of (coalesce (setting s ''AutomaticRetryStatusCodes'') (JStr []))))),
       (''monitor_setting.auto_test_channel_enabled'', setting s ''monitor_setting.auto_test_channel_enabled''),
       (''monitor_setting.auto_test_channel_minutes'', setting s ''monitor_setting.auto_test_channel_minutes'')])))"

definition monitoringSchema :: "settings \<Rightarrow> settings option" where
  "monitoringSchema vals =
     (let monitor = setting vals ''monitor_setting'';
          minutes = coerce_number (\<lambda>n. is_safe_integer n \<and> js_le (Fin 1) n) (prop_of monitor ''auto_test_channel_minutes'') in
      if str_check numericString (setting vals ''ChannelDisableThreshold'') \<and>
         str_check numericString (setting vals ''QuotaRemindThreshold'') \<and>
         is_bool (setting vals ''AutomaticDisableChannelEnabled'') \<and>
         is_bool (setting vals ''AutomaticEnableChannelEnabled'') \<and>
         str_check (\<lambda>_. True) (setting vals ''AutomaticDisableKeywords'') \<and>
         str_check (\<lambda>_. True) (setting vals ''AutomaticDisableStatusCodes'') \<and>
         str_check (\<lambda>_. True) (setting vals ''AutomaticRetryStatusCodes'') \<and>
         is_bool (prop_of monitor ''auto_test_channel_enabled'') \<and> minutes \<noteq> None \<and>
         ok (rules_of (setting vals ''AutomaticDisableStatusCodes'')) \<and>
         ok (rules_of (setting vals ''AutomaticRetryStatusCodes''))
      then Some (obj_set ''monitor_setting'' (JObj
        [(''auto_test_channel_enabled'', prop_of monitor ''auto_test_channel_enabled''),
         (''auto_test_channel_minutes'', the minutes)]) vals)
      else None)"

definition monitoringNormalizeFormValues :: "settings \<Rightarrow> section_error + settings" where
  "monitoringNormalizeFormValues vals =
     sbind (call_trim (setting vals ''ChannelDisableThreshold'')) (\<lambda>disable.
     sbind (call_trim (setting vals ''QuotaRemindThreshold'')) (\<lambda>quota.
     sbind (normalizeLineEndings (setting vals ''AutomaticDisableKeywords'')) (\<lambda>keywords.
     Inr [(''ChannelDisableThreshold'', disable),
       (''QuotaRemindThreshold'', quota),
       (''AutomaticDisableChannelEnabled'', setting vals ''AutomaticDisableChannelEnabled''),
       (''AutomaticEnableChannelEnabled'', setting vals ''AutomaticEnableChannelEnabled''),
       (''AutomaticDisableKeywords'', keywords),
       (''AutomaticDisableStatusCodes'', JStr (normalized (rules_of (setting vals ''AutomaticDisableStatusCodes'')))),
       (''AutomaticRetryStatusCodes'', JStr (normalized (rules_of (setting vals ''AutomaticRetryStatusCodes'')))),
       (''monitor_setting.auto_test_channel_enabled'',
         prop_of (setting vals ''monitor_setting'') ''auto_test_channel_enabled''),
       (''monitor_setting.auto_test_channel_minutes'',
         prop_of (setting vals ''monitor_setting'') ''auto_test_channel_minutes'')])))"

text \<open>The updates sent and the baseline afterwards.\<close>

definition monitoring_onSubmit :: "settings \<Rightarrow> settings \<Rightarrow> section_error + settings \<times> settings" where
  "monitoring_onSubmit baseline vals =
     sbind (monitoringNormalizeFormValues vals) (\<lambda>new.
     let updates = changed_values new baseline in
     Inr (updates, if updates = [] then baseline else new))"

section \<open>SMTP email\<close>

definition port_rx :: rx where
  "port_rx = seqs [Bol, Plus (Cls is_digit), Eol]"

definition email_rx :: rx where
  "email_rx =
     (let part = Plus (Cls (\<lambda>c. \<not> is_ws c \<and> c \<noteq> CHR ''@'')) in
      seqs [Bol, part, Cls (\<lambda>c. c = CHR ''@''), part, Cls (\<lambda>c. c = CHR ''.''), part, Eol])"

definition blank_or :: "rx \<Rightarrow> string \<Rightarrow> bool" where
  "blank_or r s = (let trimmed = trim s in trimmed = [] \<or> rx_test r trimmed)"

definition emailSchema :: "settings \<Rightarrow> bool" where
  "emailSchema vals \<longleftrightarrow>
     str_check (\<lambda>_. True) (setting vals ''SMTPServer'') \<and>
     str_check (blank_or port_rx) (setting vals ''SMTPPort'') \<and>
     str_check (\<lambda>_. True) (setting vals ''SMTPAccount'') \<and>
     str_check (blank_or email_rx) (setting vals ''SMTPFrom'') \<and>
     str_check (\<lambda>_. True) (setting vals ''SMTPToken'') \<and>
     is_bool (setting vals ''SMTPSSLEnabled'') \<and> is_bool (setting vals ''SMTPForceAuthLogin'')"

text \<open>The object of trimmed values, of the form or of the defaults.\<close>

definition emailSanitized :: "settings \<Rightarrow> section_error + settings" where
  "emailSanitized vals =
     sbind (smap (\<lambda>k. sbind (call_trim (setting vals k)) (\<lambda>v. Inr (k, v)))
       [''SMTPServer'', ''SMTPPort'', ''SMTPAccount'', ''SMTPFrom'', ''SMTPToken'']) (\<lambda>texts.
     Inr (texts @ [(''SMTPSSLEnabled'', setting vals ''SMTPSSLEnabled''),
       (''SMTPForceAuthLogin'', setting vals ''SMTPForceAuthLogin'')]))"

definition email_onSubmit :: "settings \<Rightarrow> settings \<Rightarrow> section_error + settings" where
  "email_onSubmit defaultValues vals =
     sbind (emailSanitized vals) (\<lambda>sanitized.
     sbind (emailSanitized defaultValues) (\<lambda>initial.
     Inr (filter (\<lambda>e. fst e = ''SMTPToken'' \<longrightarrow> truthy (snd e)) (changed_values sanitized initial))))"

section \<open>The worker proxy\<close>

definition removeTrailingSlash :: "string \<Rightarrow> string" where
  "removeTrailingSlash value =
     (let trimmed = trim value in
      if trimmed = [] then [] else rev (dropWhile (\<lambda>c. c = CHR ''/'') (rev trimmed)))"

definition call_removeTrailingSlash :: "jsval \<Rightarrow> section_error + jsval" where
  "call_removeTrailingSlash v = (case v of JStr s \<Rightarrow> Inr (JStr (removeTrailingSlash s)) | _ \<Rightarrow> Inl NotAFunction)"

definition workerSchema :: "settings \<Rightarrow> bool" where
  "workerSchema vals \<longleftrightarrow>
     str_check (\<lambda>s. let trimmed = trim s in
       trimmed = [] \<or> starts_with ''http://'' trimmed \<or> starts_with ''https://'' trimmed) (setting vals ''WorkerUrl'') \<and>
     str_check (\<lambda>_. True) (setting vals ''WorkerValidKey'') \<and>
     is_bool (setting vals ''WorkerAllowHttpImageRequestEnabled'')"

definition worker_onSubmit :: "settings \<Rightarrow> settings \<Rightarrow> section_error + settings" where
  "worker_onSubmit defaultValues vals =
     sbind (call_removeTrailingSlash (setting vals ''WorkerUrl'')) (\<lambda>sanitizedUrl.
     sbind (call_trim (setting vals ''WorkerValidKey'')) (\<lambda>sanitizedKey.
     sbind (call_removeTrailingSlash (setting defaultValues ''WorkerUrl'')) (\<lambda>initialUrl.
     sbind (call_trim (setting defaultValues ''WorkerValidKey'')) (\<lambda>initialKey.
     Inr ((if \<not> strict_eq sanitizedUrl initialUrl then [(''WorkerUrl'', sanitizedUrl)] else []) @
       (if \<not> strict_eq sanitizedKey initialKey \<or> sanitizedUrl = JStr [] then [(''WorkerValidKey'', sanitizedKey)] else []) @
       (if \<not> strict_eq (setting vals ''WorkerAllowHttpImageRequestEnabled'')
             (setting defaultValues ''WorkerAllowHttpImageRequestEnabled'')
        then [(''WorkerAllowHttpImageRequestEnabled'', setting vals ''WorkerAllowHttpImageRequestEnabled'')] else []))))))"

section \<open>Performance\<close>

text \<open>The defaults the registry passes to the section: each setting, or its fallback.\<close>

definition performanceFallbacks :: settings where
  "performanceFallbacks =
      [(''performance_setting.disk_cache_enabled'', JBool False),
       (''performance_setting.disk_cache_threshold_mb'', JNum (Fin 10)),
       (''performance_setting.disk_cache_max_size_mb'', JNum (Fin 1024)),
       (''performance_setting.disk_cache_path'', JStr []),
       (''performance_setting.monitor_enabled'', JBool False),
       (''performance_setting.monitor_cpu_threshold'', JNum (Fin 90)),
       (''performance_setting.monitor_memory_threshold'', JNum (Fin 90)),
       (''performance_setting.monitor_disk_threshold'', JNum (Fin 95)),
       (''perf_metrics_setting.enabled'', JBool True),
       (''perf_metrics_setting.flush_interval'', JNum (Fin 5)),
       (''perf_metrics_setting.bucket_time'', JStr ''hour''),
       (''perf_metrics_setting.retention_days'', JNum (Fin 0))]"

definition performanceDefaults :: "settings \<Rightarrow> settings" where
  "performanceDefaults s = map (\<lambda>(k, d). (k, coalesce (setting s k) d)) performanceFallbacks"

record PerfForm =
  pf_disk_cache_enabled :: jsval
  pf_disk_cache_threshold_mb :: jsval
  pf_disk_cache_max_size_mb :: jsval
  pf_disk_cache_path :: jsval
  pf_monitor_enabled :: jsval
  pf_monitor_cpu_threshold :: jsval
  pf_monitor_memory_threshold :: jsval
  pf_monitor_disk_threshold :: jsval
  pf_enabled :: jsval
  pf_flush_interval :: jsval
  pf_bucket_time :: jsval
  pf_retention_days :: jsval

definition performanceFormDefaults :: "settings \<Rightarrow> PerfForm" where
  "performanceFormDefaults s =
     \<lparr>pf_disk_cache_enabled = setting s ''performance_setting.disk_cache_enabled'',
      pf_disk_cache_threshold_mb = setting s ''performance_setting.disk_cache_threshold_mb'',
      pf_disk_cache_max_size_mb = setting s ''performance_setting.disk_cache_max_size_mb'',
      pf_disk_cache_path = coalesce (setting s ''performance_setting.disk_cache_path'') (JStr []),
      pf_monitor_enabled = setting s ''performance_setting.monitor_enabled'',
      pf_monitor_cpu_threshold = setting s ''performance_setting.monitor_cpu_threshold'',
      pf_monitor_memory_threshold = setting s ''performance_setting.monitor_memory_threshold'',
      pf_monitor_disk_threshold = setting s ''performance_setting.monitor_disk_threshold'',
      pf_enabled = setting s ''perf_metrics_setting.enabled'',
      pf_flush_interval = setting s ''perf_metrics_setting.flush_interval'',
      pf_bucket_time = setting s ''perf_metrics_setting.bucket_time'',
      pf_retention_days = setting s ''perf_metrics_setting.retention_days''\<rparr>"

text \<open>The schema: the numbers are coerced, everything else passes through.\<close>

definition perfSchema :: "PerfForm \<Rightarrow> PerfForm option" where
  "perfSchema f =
     (case (coerce_number (js_le (Fin 1)) (pf_disk_cache_threshold_mb f),
            coerce_number (js_le (Fin 100)) (pf_disk_cache_max_size_mb f),
            coerce_number (js_le (Fin 0)) (pf_monitor_cpu_threshold f),
            coerce_number (js_between 0 100) (pf_monitor_memory_threshold f),
            coerce_number (js_between 0 100) (pf_monitor_disk_threshold f),
            coerce_number (js_le (Fin 1)) (pf_flush_interval f),
            coerce_number (js_le (Fin 0)) (pf_retention_days f)) of
        (Some a, Some b, Some c, Some d, Some e, Some g, Some h) \<Rightarrow>
          if is_bool (pf_disk_cache_enabled f) \<and> str_check (\<lambda>_. True) (pf_disk_cache_path f) \<and>
             is_bool (pf_monitor_enabled f) \<and> is_bool (pf_enabled f) \<and>
             str_check (\<lambda>s. List.member [''minute'', ''5min'', ''hour''] s) (pf_bucket_time f)
          then Some (f\<lparr>pf_disk_cache_threshold_mb := a, pf_disk_cache_max_size_mb := b, pf_monitor_cpu_threshold := c,
            pf_monitor_memory_threshold := d, pf_monitor_disk_threshold := e, pf_flush_interval := g,
            pf_retention_days := h\<rparr>)
          else None
      | _ \<Rightarrow> None)"

definition performanceNormalizeFormValues :: "PerfForm \<Rightarrow> settings" where
  "performanceNormalizeFormValues f =
     [(''performance_setting.disk_cache_enabled'', pf_disk_cache_enabled f),
      (''performance_setting.disk_cache_threshold_mb'', pf_disk_cache_threshold_mb f),
      (''performance_setting.disk_cache_max_size_mb'', pf_disk_cache_max_size_mb f),
      (''performance_setting.disk_cache_path'', coalesce (pf_disk_cache_path f) (JStr [])),
      (''performance_setting.monitor_enabled'', pf_monitor_enabled f),
      (''performance_setting.monitor_cpu_threshold'', pf_monitor_cpu_threshold f),
      (''performance_setting.monitor_memory_threshold'', pf_monitor_memory_threshold f),
      (''performance_setting.monitor_disk_threshold'', pf_monitor_disk_threshold f),
      (''perf_metrics_setting.enabled'', pf_enabled f),
      (''perf_metrics_setting.flush_interval'', pf_flush_interval f),
      (''perf_metrics_setting.bucket_time'', pf_bucket_time f),
      (''perf_metrics_setting.retention_days'', pf_retention_days f)]"

text \<open>The updates of a save, the baseline afterwards and the form afterwards.\<close>

definition performance_onSubmit :: "settings \<Rightarrow> PerfForm \<Rightarrow> settings \<times> settings \<times> PerfForm" where
  "performance_onSubmit baseline vals =
     (let new = performanceNormalizeFormValues vals; updates = changed_values new baseline in
      if updates = [] then ([], baseline, vals)
      else (updates, new, performanceFormDefaults new))"

section \<open>When the monitoring section cannot be shown\<close>

text \<open>Rendering the section normalises its defaults before anything else.\<close>

definition switch_word :: "string \<Rightarrow> bool" where
  "switch_word s = List.member [''true'', ''1'', ''yes'', ''on'', ''false'', ''0'', ''no'', ''off''] (to_lower (trim s))"

definition stored :: "(string \<times> string) list option \<Rightarrow> string \<Rightarrow> string option" where
  "stored options k = map_of (rev (nullish options [])) k"

lemma loose_cases:
  "parseLooseOptionValue s = (if switch_word s then JBool (List.member [''true'', ''1'', ''yes'', ''on''] (to_lower (trim s)))
     else if trim s = [] then JStr [] else JStr s)"
proof -
  have "\<not> switch_word s" if "trim s = []" using that by (simp add: switch_word_def to_lower_def)
  then show ?thesis by (auto simp: parseLooseOptionValue_def Let_def switch_word_def)
qed

lemma operations_setting:
  assumes "map_of defaultOperationsSettings k = Some d"
  shows "setting (operationsSettings options) k = (case stored options k of None \<Rightarrow> d | Some s \<Rightarrow> parseLooseOptionValue s)"
  using operations_lookup [OF number_defaults_plain [OF assms] assms] by (simp add: setting_def stored_def nullish_def)

lemma operations_setting_local:
  assumes "map_of defaultOperationsSettings k = Some d" "stored q' k = stored q k"
  shows "setting (operationsSettings q') k = setting (operationsSettings q) k"
  using loose.reading_is_local [of k q' q] assms by (simp add: setting_def stored_def)

lemma operations_text_setting:
  assumes "map_of defaultOperationsSettings k = Some (JStr d)"
  shows "(\<exists>t. setting (operationsSettings options) k = JStr t) \<and> \<not> (\<exists>s. stored options k = Some s \<and> switch_word s) \<or>
    (\<exists>b. setting (operationsSettings options) k = JBool b) \<and> (\<exists>s. stored options k = Some s \<and> switch_word s)"
  using operations_setting [OF assms, of options] by (auto simp: loose_cases split: option.splits)

text \<open>C39: The monitoring section of the operations page cannot be rendered, because a string method is called on a
  switch, exactly when the stored disable threshold, quota threshold or keyword list reads as a switch word such as 0 or 1.\<close>

theorem monitoring_unrenderable:
  "monitoringNormalizeDefaults (operationsSettings options) = Inl NotAFunction \<longleftrightarrow>
     (\<exists>k s. k \<in> {''ChannelDisableThreshold'', ''QuotaRemindThreshold'', ''AutomaticDisableKeywords''} \<and>
       stored options k = Some s \<and> switch_word s)"
proof -
  let ?v = "setting (operationsSettings options)"
  have fails: "call_trim (coalesce (?v k) (JStr [])) = Inl NotAFunction \<longleftrightarrow> (\<exists>s. stored options k = Some s \<and> switch_word s)"
    "normalizeLineEndings (coalesce (?v k) (JStr [])) = Inl NotAFunction \<longleftrightarrow> (\<exists>s. stored options k = Some s \<and> switch_word s)"
    if "map_of defaultOperationsSettings k = Some (JStr d)" for k d
    using operations_text_setting [OF that, of options]
    by (auto simp: call_trim_def normalizeLineEndings_def coalesce_def)
  have d: "map_of defaultOperationsSettings ''ChannelDisableThreshold'' = Some (JStr [])"
    "map_of defaultOperationsSettings ''QuotaRemindThreshold'' = Some (JStr [])"
    "map_of defaultOperationsSettings ''AutomaticDisableKeywords'' = Some (JStr [])" by code_simp+
  have r: "r = Inl NotAFunction \<or> (\<exists>a. r = Inr a)" for r :: "section_error + jsval"
    by (cases r) (metis section_error.exhaust, blast)
  show ?thesis
    unfolding monitoringNormalizeDefaults_def sbind_Inl_iff fails(1) [OF d(1)] fails(1) [OF d(2)] fails(2) [OF d(3)]
    using r [of "call_trim (coalesce (?v ''ChannelDisableThreshold'') (JStr []))"]
      r [of "call_trim (coalesce (?v ''QuotaRemindThreshold'') (JStr []))"]
    unfolding fails(1) [OF d(1)] fails(1) [OF d(2)]
    by auto
qed

section \<open>What an unedited save sends\<close>

lemma strict_eq_refl: "is_bool v \<or> str_check P v \<Longrightarrow> strict_eq v v"
  by (auto simp: strict_eq_def is_bool_def str_check_def split: jsval.splits)

lemma coerced_number_changed:
  assumes "map_of defaultOperationsSettings k = Some (JNum (Fin d))"
    "coerce_number P (setting (operationsSettings options) k) = Some v"
  shows "strict_eq v (setting (operationsSettings options) k) \<longleftrightarrow> stored options k = None"
proof (cases "stored options k")
  case None
  then have sv: "setting (operationsSettings options) k = JNum (Fin d)"
    using operations_setting [OF assms(1)] by simp
  then have "v = JNum (Fin d)" using assms(2) by (simp add: coerce_number_def Let_def split: if_splits)
  then show ?thesis using sv None by (simp add: strict_eq_def js_eq_def)
next
  case (Some s)
  then have "setting (operationsSettings options) k = parseLooseOptionValue s"
    using operations_setting [OF assms(1)] by simp
  moreover obtain n where "v = JNum n" using assms(2) by (auto simp: coerce_number_def Let_def split: if_splits)
  ultimately show ?thesis using Some loose_not_number [of s] by (simp add: strict_eq_def split: jsval.split)
qed

lemma operations_not_nullish:
  assumes "map_of defaultOperationsSettings k = Some d" "d \<noteq> JUndefined" "d \<noteq> JNull"
  shows "coalesce (setting (operationsSettings options) k) d' = setting (operationsSettings options) k"
  using operations_setting [OF assms(1), of options] assms(2,3)
  by (auto simp: coalesce_def parseLooseOptionValue_def Let_def split: option.splits if_splits)

definition performance_numbers :: "(string \<times> rat) list" where
  "performance_numbers =
    [(''performance_setting.disk_cache_threshold_mb'', 10), (''performance_setting.disk_cache_max_size_mb'', 1024),
     (''performance_setting.monitor_cpu_threshold'', 90), (''performance_setting.monitor_memory_threshold'', 90),
     (''performance_setting.monitor_disk_threshold'', 95), (''perf_metrics_setting.flush_interval'', 5),
     (''perf_metrics_setting.retention_days'', 0)]"

lemma performance_defaults_numbers:
  "list_all (\<lambda>(k, d). map_of defaultOperationsSettings k = Some (JNum (Fin d))) performance_numbers"
  by code_simp

lemma map_of_map_pair: "map_of (map (\<lambda>(k, d). (k, f k d)) xs) k = map_option (f k) (map_of xs k)"
  by (induction xs) auto

lemma performance_settings:
  assumes "map_of performanceFallbacks k = Some d"
  shows "setting (performanceDefaults (operationsSettings options)) k = setting (operationsSettings options) k"
proof -
  have "list_all (\<lambda>(k, d). map_of defaultOperationsSettings k = Some d \<and> d \<noteq> JUndefined \<and> d \<noteq> JNull) performanceFallbacks"
    by code_simp
  then have "map_of defaultOperationsSettings k = Some d" "d \<noteq> JUndefined" "d \<noteq> JNull"
    using map_of_SomeD [OF assms] by (auto simp: list_all_iff)
  from operations_not_nullish [OF this] assms show ?thesis
    by (simp add: performanceDefaults_def setting_def [of "map _ _"] map_of_map_pair nullish_def)
qed

text \<open>The number inputs of the sections that bind the settings of the page directly, with what they show: one of
  system behaviour, one of monitoring, where that section can be shown, and seven of performance. The inputs of the membership risk
  section are not among them: their form converts the settings first.\<close>

definition number_inputs :: "settings \<Rightarrow> (string \<times> jsval) list" where
  "number_inputs s =
     (let perf = performanceFormDefaults (performanceDefaults s) in
      [(''RetryTimes'', numberFieldValue (setting (behaviorDefaults s) ''RetryTimes''))] @
      (case (monitoringFormDefaults s, monitoringNormalizeDefaults s) of
         (Inr form, Inr _) \<Rightarrow>
           [(''monitor_setting.auto_test_channel_minutes'',
             numberFieldValue (prop_of (setting form ''monitor_setting'') ''auto_test_channel_minutes''))]
       | _ \<Rightarrow> []) @
      [(''performance_setting.disk_cache_threshold_mb'', numberFieldValue (pf_disk_cache_threshold_mb perf)),
       (''performance_setting.disk_cache_max_size_mb'', numberFieldValue (pf_disk_cache_max_size_mb perf)),
       (''performance_setting.monitor_cpu_threshold'', numberFieldValue (pf_monitor_cpu_threshold perf)),
       (''performance_setting.monitor_memory_threshold'', numberFieldValue (pf_monitor_memory_threshold perf)),
       (''performance_setting.monitor_disk_threshold'', numberFieldValue (pf_monitor_disk_threshold perf)),
       (''perf_metrics_setting.flush_interval'', numberFieldValue (pf_flush_interval perf)),
       (''perf_metrics_setting.retention_days'', numberFieldValue (pf_retention_days perf))])"

definition number_input_shows :: "(string \<times> string) list option \<Rightarrow> string \<times> jsval \<Rightarrow> bool" where
  "number_input_shows options e \<longleftrightarrow>
     (\<exists>n. map_of defaultOperationsSettings (fst e) = Some (JNum (Fin n)) \<and>
        snd e = (if stored options (fst e) = None then JNum (Fin n) else JStr []))"

lemma number_setting_shows:
  assumes "map_of defaultOperationsSettings k = Some (JNum (Fin n))"
  shows "number_input_shows options (k, numberFieldValue (setting (operationsSettings options) k))"
  using operations_setting [OF assms, of options] assms loose_not_number
  by (auto simp: number_input_shows_def numberFieldValue_def split: option.split jsval.split)

text \<open>C38: Of the nine number inputs of the operations page that are bound to the settings of the page directly (retry times, the test interval
  and the seven numbers of performance), each shows its default as long as the server has stored no value for it, and is
  blank as soon as one is stored: the loose reading has replaced the number that the typed reading found by a text or a switch, and
  the input shows only numbers. The two inputs of the membership risk section convert the text first and are not concerned. The
  test interval counts where the monitoring section can be shown.\<close>

theorem operations_numbers_blank:
  "list_all (number_input_shows options) (number_inputs (operationsSettings options)) \<and>
   set (map fst performance_numbers) \<union> {''RetryTimes''} \<subseteq> set (map fst (number_inputs (operationsSettings options)))"
proof -
  let ?s = "operationsSettings options"
  have d: "map_of defaultOperationsSettings ''RetryTimes'' = Some (JNum (Fin 0))"
    "map_of defaultOperationsSettings ''monitor_setting.auto_test_channel_minutes'' = Some (JNum (Fin 10))" by code_simp+
  have b: "setting (behaviorDefaults ?s) ''RetryTimes'' = setting ?s ''RetryTimes''"
    by (simp add: behaviorDefaults_def setting_def nullish_def)
  have m: "prop_of (setting form ''monitor_setting'') ''auto_test_channel_minutes'' = setting ?s ''monitor_setting.auto_test_channel_minutes''"
    if "monitoringFormDefaults ?s = Inr form" for form
    using that by (auto simp: monitoringFormDefaults_def sbind_Inr_iff setting_def nullish_def prop_of_def)
  have p: "number_input_shows options (k, numberFieldValue (setting (performanceDefaults ?s) k))"
    if k: "(k, n) \<in> set performance_numbers" for k n
  proof -
    have "list_all (\<lambda>(k, d). map_of performanceFallbacks k = Some (JNum (Fin d))) performance_numbers" by code_simp
    then have "map_of performanceFallbacks k = Some (JNum (Fin n))" using k by (auto simp: list_all_iff)
    moreover have "map_of defaultOperationsSettings k = Some (JNum (Fin n))"
      using performance_defaults_numbers k by (auto simp: list_all_iff)
    ultimately show ?thesis using performance_settings number_setting_shows by simp
  qed
  have "list_all (number_input_shows options) (number_inputs ?s)"
    using number_setting_shows [OF d(1), of options] number_setting_shows [OF d(2), of options] p m
    by (auto simp: number_inputs_def Let_def b performanceFormDefaults_def performance_numbers_def split: sum.splits)
  moreover have "set (map fst performance_numbers) \<union> {''RetryTimes''} \<subseteq> set (map fst (number_inputs ?s))"
    by (simp add: number_inputs_def Let_def performance_numbers_def)
  ultimately show ?thesis by blast
qed

theorem operations_numbers_blank_witness:
  "(''RetryTimes'', JStr []) \<in> set (number_inputs (operationsSettings (Some [(''RetryTimes'', ''3'')]))) \<and>
   (''performance_setting.disk_cache_threshold_mb'', JNum (Fin 10)) \<in>
     set (number_inputs (operationsSettings (Some [(''RetryTimes'', ''3'')])))"
proof -
  let ?o = "Some [(''RetryTimes'', ''3'')]"
  have "\<exists>v. (k, v) \<in> set (number_inputs (operationsSettings ?o)) \<and> number_input_shows ?o (k, v)"
    if "k \<in> {''RetryTimes'', ''performance_setting.disk_cache_threshold_mb''}" for k
    using operations_numbers_blank [of ?o] that by (fastforce simp: list_all_iff performance_numbers_def)
  then show ?thesis
    by (fastforce simp: number_input_shows_def stored_def nullish_def defaultOperationsSettings_def)
qed

lemma changed_values_Cons:
  "map fst (changed_values ((k, v) # new) old) =
     (if strict_eq v (setting old k) then [] else [k]) @ map fst (changed_values new old)"
  "changed_values [] old = []"
  by (simp_all add: changed_values_def)

lemma filter_Cons_append: "filter P (x # xs) = (if \<not> P x then [] else [x]) @ filter P xs"
  by simp

lemma perfSchema_numbers:
  assumes "perfSchema f = Some g"
  shows "coerce_number (js_le (Fin 1)) (pf_disk_cache_threshold_mb f) = Some (pf_disk_cache_threshold_mb g)"
    "coerce_number (js_le (Fin 100)) (pf_disk_cache_max_size_mb f) = Some (pf_disk_cache_max_size_mb g)"
    "coerce_number (js_le (Fin 0)) (pf_monitor_cpu_threshold f) = Some (pf_monitor_cpu_threshold g)"
    "coerce_number (js_between 0 100) (pf_monitor_memory_threshold f) = Some (pf_monitor_memory_threshold g)"
    "coerce_number (js_between 0 100) (pf_monitor_disk_threshold f) = Some (pf_monitor_disk_threshold g)"
    "coerce_number (js_le (Fin 1)) (pf_flush_interval f) = Some (pf_flush_interval g)"
    "coerce_number (js_le (Fin 0)) (pf_retention_days f) = Some (pf_retention_days g)"
  using assms by (auto simp: perfSchema_def split: option.splits if_splits)

lemma perfSchema_others:
  assumes "perfSchema f = Some g"
  shows "pf_disk_cache_enabled g = pf_disk_cache_enabled f" "is_bool (pf_disk_cache_enabled f)"
    "pf_disk_cache_path g = pf_disk_cache_path f" "str_check (\<lambda>_. True) (pf_disk_cache_path f)"
    "pf_monitor_enabled g = pf_monitor_enabled f" "is_bool (pf_monitor_enabled f)"
    "pf_enabled g = pf_enabled f" "is_bool (pf_enabled f)"
    "pf_bucket_time g = pf_bucket_time f" "\<exists>P. str_check P (pf_bucket_time f)"
  using assms by (auto simp: perfSchema_def split: option.splits if_splits)

text \<open>C0: An unedited save of the performance section sends again every number the server has stored, and nothing
  else: the loose reading makes the baseline a text or a switch, which no coerced number equals.\<close>

theorem performance_unedited_resend:
  assumes "perfSchema (performanceFormDefaults (performanceDefaults (operationsSettings options))) = Some f"
  shows "map fst (fst (performance_onSubmit (performanceDefaults (operationsSettings options)) f)) =
    filter (\<lambda>k. stored options k \<noteq> None) (map fst performance_numbers)"
proof -
  let ?B = "performanceDefaults (operationsSettings options)"
  let ?v = "setting (operationsSettings options)"
  have B: "setting ?B k = ?v k" if "k \<in> set (map fst performanceFallbacks)" for k
    using performance_settings that by (metis list.set_map map_of_eq_None_iff option.exhaust)
  have d: "map_of defaultOperationsSettings ''performance_setting.disk_cache_threshold_mb'' = Some (JNum (Fin 10))"
    "map_of defaultOperationsSettings ''performance_setting.disk_cache_max_size_mb'' = Some (JNum (Fin 1024))"
    "map_of defaultOperationsSettings ''performance_setting.monitor_cpu_threshold'' = Some (JNum (Fin 90))"
    "map_of defaultOperationsSettings ''performance_setting.monitor_memory_threshold'' = Some (JNum (Fin 90))"
    "map_of defaultOperationsSettings ''performance_setting.monitor_disk_threshold'' = Some (JNum (Fin 95))"
    "map_of defaultOperationsSettings ''perf_metrics_setting.flush_interval'' = Some (JNum (Fin 5))"
    "map_of defaultOperationsSettings ''perf_metrics_setting.retention_days'' = Some (JNum (Fin 0))"
    using performance_defaults_numbers by (simp_all add: performance_numbers_def)
  have Bk: "setting ?B ''performance_setting.disk_cache_enabled'' = ?v ''performance_setting.disk_cache_enabled''"
    "setting ?B ''performance_setting.disk_cache_threshold_mb'' = ?v ''performance_setting.disk_cache_threshold_mb''"
    "setting ?B ''performance_setting.disk_cache_max_size_mb'' = ?v ''performance_setting.disk_cache_max_size_mb''"
    "setting ?B ''performance_setting.disk_cache_path'' = ?v ''performance_setting.disk_cache_path''"
    "setting ?B ''performance_setting.monitor_enabled'' = ?v ''performance_setting.monitor_enabled''"
    "setting ?B ''performance_setting.monitor_cpu_threshold'' = ?v ''performance_setting.monitor_cpu_threshold''"
    "setting ?B ''performance_setting.monitor_memory_threshold'' = ?v ''performance_setting.monitor_memory_threshold''"
    "setting ?B ''performance_setting.monitor_disk_threshold'' = ?v ''performance_setting.monitor_disk_threshold''"
    "setting ?B ''perf_metrics_setting.enabled'' = ?v ''perf_metrics_setting.enabled''"
    "setting ?B ''perf_metrics_setting.flush_interval'' = ?v ''perf_metrics_setting.flush_interval''"
    "setting ?B ''perf_metrics_setting.bucket_time'' = ?v ''perf_metrics_setting.bucket_time''"
    "setting ?B ''perf_metrics_setting.retention_days'' = ?v ''perf_metrics_setting.retention_days''"
    by (rule B, simp add: performanceFallbacks_def)+
  have path: "coalesce (?v ''performance_setting.disk_cache_path'') (JStr []) = ?v ''performance_setting.disk_cache_path''"
    by (rule operations_not_nullish [of _ "JStr []"]) (code_simp, simp_all)
  note num = perfSchema_numbers [OF assms, unfolded performanceFormDefaults_def PerfForm.simps Bk]
  note oth = perfSchema_others [OF assms, unfolded performanceFormDefaults_def PerfForm.simps Bk path]
  note eq = coerced_number_changed [OF d(1) num(1)] coerced_number_changed [OF d(2) num(2)]
    coerced_number_changed [OF d(3) num(3)] coerced_number_changed [OF d(4) num(4)]
    coerced_number_changed [OF d(5) num(5)] coerced_number_changed [OF d(6) num(6)]
    coerced_number_changed [OF d(7) num(7)]
  have same: "strict_eq (?v ''performance_setting.disk_cache_enabled'') (?v ''performance_setting.disk_cache_enabled'')"
    "strict_eq (?v ''performance_setting.disk_cache_path'') (?v ''performance_setting.disk_cache_path'')"
    "strict_eq (?v ''performance_setting.monitor_enabled'') (?v ''performance_setting.monitor_enabled'')"
    "strict_eq (?v ''perf_metrics_setting.enabled'') (?v ''perf_metrics_setting.enabled'')"
    "strict_eq (?v ''perf_metrics_setting.bucket_time'') (?v ''perf_metrics_setting.bucket_time'')"
    using oth strict_eq_refl by blast+
  have "map fst (changed_values (performanceNormalizeFormValues f) ?B) =
      filter (\<lambda>k. stored options k \<noteq> None) (map fst performance_numbers)"
    by (simp add: performanceNormalizeFormValues_def performance_numbers_def changed_values_Cons filter_Cons_append
        Bk oth path eq same split del: if_split del: filter.simps(2))
  moreover have "fst (performance_onSubmit ?B f) = changed_values (performanceNormalizeFormValues f) ?B"
    by (simp add: performance_onSubmit_def Let_def)
  ultimately show ?thesis by simp
qed

theorem performance_unedited_resend_witness:
  "\<exists>f. perfSchema (performanceFormDefaults (performanceDefaults (operationsSettings (Some [(''perf_metrics_setting.flush_interval'', ''5'')])))) = Some f \<and>
     map fst (fst (performance_onSubmit (performanceDefaults (operationsSettings (Some [(''perf_metrics_setting.flush_interval'', ''5'')]))) f)) =
       [''perf_metrics_setting.flush_interval'']"
proof -
  let ?o = "Some [(''perf_metrics_setting.flush_interval'', ''5'')]"
  have "perfSchema (performanceFormDefaults (performanceDefaults (operationsSettings ?o))) \<noteq> None" by code_simp
  then obtain f where f: "perfSchema (performanceFormDefaults (performanceDefaults (operationsSettings ?o))) = Some f" by blast
  have "filter (\<lambda>k. stored ?o k \<noteq> None) (map fst performance_numbers) = [''perf_metrics_setting.flush_interval'']" by code_simp
  then show ?thesis using performance_unedited_resend [OF f] f by auto
qed

theorem behavior_unedited_resend:
  assumes "behaviorSchema (behaviorDefaults (operationsSettings options)) = Some data"
  shows "map fst (behavior_onSubmit (behaviorDefaults (operationsSettings options)) data) =
    (if stored options ''RetryTimes'' = None then [] else [''RetryTimes''])"
proof -
  let ?v = "setting (operationsSettings options)"
  let ?B = "behaviorDefaults (operationsSettings options)"
  have B: "setting ?B ''RetryTimes'' = ?v ''RetryTimes''"
    "setting ?B ''DefaultCollapseSidebar'' = ?v ''DefaultCollapseSidebar''"
    "setting ?B ''DemoSiteEnabled'' = ?v ''DemoSiteEnabled''"
    "setting ?B ''SelfUseModeEnabled'' = ?v ''SelfUseModeEnabled''"
    by (simp_all add: behaviorDefaults_def setting_def [of "_ # _"] nullish_def)
  have d: "map_of defaultOperationsSettings ''RetryTimes'' = Some (JNum (Fin 0))" by code_simp
  obtain n where n: "coerce_number (js_between 0 10) (?v ''RetryTimes'') = Some n"
    and b: "is_bool (?v ''DefaultCollapseSidebar'')" "is_bool (?v ''DemoSiteEnabled'')" "is_bool (?v ''SelfUseModeEnabled'')"
    and data: "data = [(''RetryTimes'', n), (''DefaultCollapseSidebar'', ?v ''DefaultCollapseSidebar''),
      (''DemoSiteEnabled'', ?v ''DemoSiteEnabled''), (''SelfUseModeEnabled'', ?v ''SelfUseModeEnabled'')]"
    using assms by (auto simp: behaviorSchema_def B split: option.splits if_splits)
  have "strict_eq (?v k) (?v k)" if "is_bool (?v k)" for k using that strict_eq_refl by blast
  then show ?thesis
    using b by (simp add: behavior_onSubmit_def data changed_values_Cons B coerced_number_changed [OF d n])
qed

section \<open>Email and worker\<close>

lemma call_trim_str: "str_check P v \<Longrightarrow> \<exists>s. v = JStr s \<and> call_trim v = Inr (JStr (trim s))"
  by (auto simp: str_check_def call_trim_def split: jsval.splits)

lemma emailSanitized_form:
  assumes "emailSchema vals"
  shows "\<exists>r. emailSanitized vals = Inr r \<and> (\<forall>k v. (k, v) \<in> set r \<longrightarrow> setting r k = v \<and> strict_eq v v)"
proof -
  have "\<exists>s. setting vals k = JStr s" if "k \<in> {''SMTPServer'', ''SMTPPort'', ''SMTPAccount'', ''SMTPFrom'', ''SMTPToken''}" for k
  proof -
    have "str_check (\<lambda>_. True) (setting vals k)"
      using assms that by (auto simp: emailSchema_def str_check_def split: jsval.split_asm)
    then show ?thesis using call_trim_str by blast
  qed
  then obtain a b c e g where "setting vals ''SMTPServer'' = JStr a" "setting vals ''SMTPPort'' = JStr b"
    "setting vals ''SMTPAccount'' = JStr c" "setting vals ''SMTPFrom'' = JStr e" "setting vals ''SMTPToken'' = JStr g"
    by (metis insertCI)
  moreover have "strict_eq (setting vals ''SMTPSSLEnabled'') (setting vals ''SMTPSSLEnabled'')"
    "strict_eq (setting vals ''SMTPForceAuthLogin'') (setting vals ''SMTPForceAuthLogin'')"
    using assms strict_eq_refl by (auto simp: emailSchema_def)
  ultimately show ?thesis
    by (auto simp: emailSanitized_def call_trim_def setting_def [of "_ # _"] nullish_def strict_eq_def)
qed

lemma email_onSubmit_blank_token: "email_onSubmit d vals = Inr ups \<Longrightarrow> (''SMTPToken'', v) \<in> set ups \<Longrightarrow> v \<noteq> JStr []"
  by (cases "emailSanitized vals"; cases "emailSanitized d") (auto simp: email_onSubmit_def truthy_def)

theorem email_secret_kept:
  assumes "emailSchema vals"
  shows "email_onSubmit vals vals = Inr [] \<and>
    (\<forall>d ups v. email_onSubmit d vals = Inr ups \<longrightarrow> (''SMTPToken'', v) \<in> set ups \<longrightarrow> v \<noteq> JStr [])"
proof -
  obtain r where r: "emailSanitized vals = Inr r" "\<forall>k v. (k, v) \<in> set r \<longrightarrow> setting r k = v \<and> strict_eq v v"
    using emailSanitized_form [OF assms] by blast
  then have "changed_values r r = []" by (auto simp: changed_values_def filter_empty_conv)
  then have "email_onSubmit vals vals = Inr []" using r(1) by (simp add: email_onSubmit_def)
  then show ?thesis using email_onSubmit_blank_token by blast
qed

text \<open>Clearing the worker address sends the key of the form as well, so an untouched blank key clears the stored one.\<close>

lemma worker_clear_url:
  assumes "setting vals ''WorkerUrl'' = JStr u" "trim u = []" "setting vals ''WorkerValidKey'' = JStr w"
    "worker_onSubmit d vals = Inr ups"
  shows "(''WorkerValidKey'', JStr (trim w)) \<in> set ups"
  using assms(4) assms(1-3)
  by (cases "call_removeTrailingSlash (setting d ''WorkerUrl'')"; cases "call_trim (setting d ''WorkerValidKey'')")
    (auto simp: worker_onSubmit_def call_removeTrailingSlash_def [of "JStr _"] removeTrailingSlash_def call_trim_def [of "JStr _"])

end
