(* ===== verification/MembershipRisk.thy ===== *)
theory MembershipRisk
  imports OperationsForms
begin

text \<open>
  The membership risk section of the operations page: \<open>operations/membership-risk-model.ts\<close> (the
  settings, their option names, labels, tones and the matrix of benefits) and
  \<open>operations/membership-risk-section.tsx\<close> (loading the overview, saving, the actions on a member).

  The section reads its settings from the operations page, so a number arrives as a text or a
  switch. The answers of the server are arguments.

  The lemmas follow a save through the server and back onto the page, bound the hours of a temporary
  exception and say what the matrix shows.
\<close>

section \<open>The settings\<close>

record MembershipRiskValues =
  mr_enabled :: bool
  mr_dryRun :: bool
  mr_graceHours :: jsnum
  mr_autoRestoreOnRejoin :: bool
  mr_paidBypassEnabled :: bool
  mr_eventSecret :: "string option"
  mr_freezeCommunityTokensAfterGrace :: bool
  mr_revokeCommunityAccessAfterGrace :: bool
  mr_blockCheckinOnLeft :: bool
  mr_blockGameRewardOnLeft :: bool
  mr_blockInviteRewardOnLeft :: bool
  mr_blockCampaignBonusOnLeft :: bool
  mr_notifyUserOnLeft :: bool
  mr_notifyAdminOnBulkLeft :: bool
  mr_qqEventsEnabled :: bool
  mr_tgEventsEnabled :: bool
  mr_scheduledRecheckEnabled :: bool
  mr_scheduledRecheckIntervalHours :: jsnum

definition hours_ok :: "jsnum \<Rightarrow> bool" where
  "hours_ok n = (is_safe_integer n \<and> js_between 1 720 n)"

text \<open>The schema: the other fields are checked by their types.\<close>

definition membershipRiskSchema :: "MembershipRiskValues \<Rightarrow> bool" where
  "membershipRiskSchema v \<longleftrightarrow> hours_ok (mr_graceHours v) \<and> hours_ok (mr_scheduledRecheckIntervalHours v)"

definition membershipRiskOptionKeyMap :: "(string \<times> string) list" where
  "membershipRiskOptionKeyMap =
    [(''enabled'', ''membership_risk.enabled''),
     (''dryRun'', ''membership_risk.dry_run''),
     (''graceHours'', ''membership_risk.grace_hours''),
     (''autoRestoreOnRejoin'', ''membership_risk.auto_restore_on_rejoin''),
     (''paidBypassEnabled'', ''membership_risk.paid_bypass_enabled''),
     (''eventSecret'', ''membership_risk.event_secret''),
     (''freezeCommunityTokensAfterGrace'', ''membership_risk.freeze_community_tokens_after_grace''),
     (''revokeCommunityAccessAfterGrace'', ''membership_risk.revoke_community_access_after_grace''),
     (''blockCheckinOnLeft'', ''membership_risk.block_checkin_on_left''),
     (''blockGameRewardOnLeft'', ''membership_risk.block_game_reward_on_left''),
     (''blockInviteRewardOnLeft'', ''membership_risk.block_invite_reward_on_left''),
     (''blockCampaignBonusOnLeft'', ''membership_risk.block_campaign_bonus_on_left''),
     (''notifyUserOnLeft'', ''membership_risk.notify_user_on_left''),
     (''notifyAdminOnBulkLeft'', ''membership_risk.notify_admin_on_bulk_left''),
     (''qqEventsEnabled'', ''membership_risk.qq_events_enabled''),
     (''tgEventsEnabled'', ''membership_risk.tg_events_enabled''),
     (''scheduledRecheckEnabled'', ''membership_risk.scheduled_recheck_enabled''),
     (''scheduledRecheckIntervalHours'', ''membership_risk.scheduled_recheck_interval_hours'')]"

text \<open>\<open>values[key]\<close>, by the name of the field.\<close>

definition riskFields :: "MembershipRiskValues \<Rightarrow> (string \<times> jsval) list" where
  "riskFields v =
    [(''enabled'', JBool (mr_enabled v)),
     (''dryRun'', JBool (mr_dryRun v)),
     (''graceHours'', JNum (mr_graceHours v)),
     (''autoRestoreOnRejoin'', JBool (mr_autoRestoreOnRejoin v)),
     (''paidBypassEnabled'', JBool (mr_paidBypassEnabled v)),
     (''eventSecret'', (case mr_eventSecret v of None \<Rightarrow> JUndefined | Some s \<Rightarrow> JStr s)),
     (''freezeCommunityTokensAfterGrace'', JBool (mr_freezeCommunityTokensAfterGrace v)),
     (''revokeCommunityAccessAfterGrace'', JBool (mr_revokeCommunityAccessAfterGrace v)),
     (''blockCheckinOnLeft'', JBool (mr_blockCheckinOnLeft v)),
     (''blockGameRewardOnLeft'', JBool (mr_blockGameRewardOnLeft v)),
     (''blockInviteRewardOnLeft'', JBool (mr_blockInviteRewardOnLeft v)),
     (''blockCampaignBonusOnLeft'', JBool (mr_blockCampaignBonusOnLeft v)),
     (''notifyUserOnLeft'', JBool (mr_notifyUserOnLeft v)),
     (''notifyAdminOnBulkLeft'', JBool (mr_notifyAdminOnBulkLeft v)),
     (''qqEventsEnabled'', JBool (mr_qqEventsEnabled v)),
     (''tgEventsEnabled'', JBool (mr_tgEventsEnabled v)),
     (''scheduledRecheckEnabled'', JBool (mr_scheduledRecheckEnabled v)),
     (''scheduledRecheckIntervalHours'', JNum (mr_scheduledRecheckIntervalHours v))]"

definition booleanOption :: "settings \<Rightarrow> string \<Rightarrow> bool \<Rightarrow> bool" where
  "booleanOption storedValues key fallback =
     (let storedValue = setting storedValues key in
      if storedValue = JUndefined \<or> storedValue = JNull then fallback else truthy storedValue)"

definition numberOption :: "settings \<Rightarrow> string \<Rightarrow> jsnum \<Rightarrow> jsnum" where
  "numberOption storedValues key fallback =
     (let storedValue = setting storedValues key in
      if \<not> truthy storedValue then fallback else js_Number storedValue)"

definition stringOption :: "settings \<Rightarrow> string \<Rightarrow> string" where
  "stringOption storedValues key =
     (let storedValue = setting storedValues key in
      if \<not> truthy storedValue then [] else js_to_string storedValue)"

definition buildMembershipRiskDefaults :: "settings \<Rightarrow> MembershipRiskValues" where
  "buildMembershipRiskDefaults d =
     \<lparr>mr_enabled = booleanOption d ''membership_risk.enabled'' False,
      mr_dryRun = booleanOption d ''membership_risk.dry_run'' True,
      mr_graceHours = numberOption d ''membership_risk.grace_hours'' (Fin 24),
      mr_autoRestoreOnRejoin = booleanOption d ''membership_risk.auto_restore_on_rejoin'' True,
      mr_paidBypassEnabled = booleanOption d ''membership_risk.paid_bypass_enabled'' True,
      mr_eventSecret = Some (stringOption d ''membership_risk.event_secret''),
      mr_freezeCommunityTokensAfterGrace = booleanOption d ''membership_risk.freeze_community_tokens_after_grace'' True,
      mr_revokeCommunityAccessAfterGrace = booleanOption d ''membership_risk.revoke_community_access_after_grace'' True,
      mr_blockCheckinOnLeft = booleanOption d ''membership_risk.block_checkin_on_left'' True,
      mr_blockGameRewardOnLeft = booleanOption d ''membership_risk.block_game_reward_on_left'' True,
      mr_blockInviteRewardOnLeft = booleanOption d ''membership_risk.block_invite_reward_on_left'' True,
      mr_blockCampaignBonusOnLeft = booleanOption d ''membership_risk.block_campaign_bonus_on_left'' True,
      mr_notifyUserOnLeft = booleanOption d ''membership_risk.notify_user_on_left'' True,
      mr_notifyAdminOnBulkLeft = booleanOption d ''membership_risk.notify_admin_on_bulk_left'' True,
      mr_qqEventsEnabled = booleanOption d ''membership_risk.qq_events_enabled'' True,
      mr_tgEventsEnabled = booleanOption d ''membership_risk.tg_events_enabled'' True,
      mr_scheduledRecheckEnabled = booleanOption d ''membership_risk.scheduled_recheck_enabled'' True,
      mr_scheduledRecheckIntervalHours = numberOption d ''membership_risk.scheduled_recheck_interval_hours'' (Fin 12)\<rparr>"

section \<open>Saving\<close>

definition riskChanged :: "MembershipRiskValues \<Rightarrow> MembershipRiskValues \<Rightarrow> string \<Rightarrow> bool" where
  "riskChanged defaults v f = (\<not> strict_eq (setting (riskFields v) f) (setting (riskFields defaults) f))"

text \<open>The options a save sends, in order; an empty list is the message that nothing changed.\<close>

definition risk_save :: "MembershipRiskValues \<Rightarrow> MembershipRiskValues \<Rightarrow> (string \<times> string) list" where
  "risk_save defaults v =
     map (\<lambda>(f, k). (k, js_to_string (coalesce (setting (riskFields v) f) (JStr []))))
       (filter (\<lambda>(f, k). riskChanged defaults v f) membershipRiskOptionKeyMap)"

definition membershipRiskPage :: "(string \<times> string) list option \<Rightarrow> MembershipRiskValues" where
  "membershipRiskPage options = buildMembershipRiskDefaults (operationsSettings options)"

section \<open>Loading the overview\<close>

text \<open>\<open>response.data\<close> of a request: whether it reports success, and its data.\<close>

record 'a Response =
  rs_success :: bool
  rs_data :: 'a

record MembershipSource =
  src_overview :: "jsval option"
  src_unresolved :: "jsval option"
  src_dryRun :: "jsval option"
  src_states :: "jsval list"
  src_statusFilter :: string
  src_loading :: bool

text \<open>\<open>refresh\<close>: while the four requests are out the section is loading. They come back together, or one of them is
  rejected and the error goes to the caller.\<close>

definition refreshStart :: "MembershipSource \<Rightarrow> MembershipSource" where
  "refreshStart s = s\<lparr>src_loading := True\<rparr>"

definition refreshEnd :: "(jsval Response \<times> jsval Response \<times> jsval Response \<times> jsval list option Response) option \<Rightarrow>
    MembershipSource \<Rightarrow> MembershipSource" where
  "refreshEnd responses s =
     (case responses of
        None \<Rightarrow> s\<lparr>src_loading := False\<rparr>
      | Some (overviewRes, unresolvedRes, dryRunRes, statesRes) \<Rightarrow>
          s\<lparr>src_overview := (if rs_success overviewRes then Some (rs_data overviewRes) else src_overview s),
            src_unresolved := (if rs_success unresolvedRes then Some (rs_data unresolvedRes) else src_unresolved s),
            src_dryRun := (if rs_success dryRunRes then Some (rs_data dryRunRes) else src_dryRun s),
            src_states := (if rs_success statesRes then nullish (rs_data statesRes) [] else src_states s),
            src_loading := False\<rparr>)"

text \<open>The query of the request for the member states: an empty filter is left out.\<close>

definition statesQuery :: "string \<Rightarrow> string option \<times> nat" where
  "statesQuery nextStatus = (if nextStatus = [] then None else Some nextStatus, 50)"

definition totalTracked :: "(string \<times> jsval) list option \<Rightarrow> jsnum" where
  "totalTracked counts =
     foldl (\<lambda>sum v. js_add sum (js_Number (value_or v (JNum (Fin 0))))) (Fin 0) (obj_values (nullish counts []))"

section \<open>Actions on a member\<close>

datatype MembershipStateAction = Restore | Bypass | ClearBypass
datatype MembershipBatchAction = Backfill | Demote

datatype RiskEvent = StateUpdated | BatchDone string | RefreshWith string

record MembershipActions =
  act_actionLoading :: "int option"
  act_batchLoading :: "MembershipBatchAction option"
  act_reason :: string
  act_bypassHours :: jsnum

text \<open>\<open>Number(event.target.value || 72)\<close> of the input for the hours.\<close>

definition bypassHoursInput :: "string \<Rightarrow> jsnum" where
  "bypassHoursInput s = (if s = [] then Fin 72 else string_to_number s)"

definition bypassHours :: "jsnum \<Rightarrow> jsnum" where
  "bypassHours h = js_max (Fin 1) (js_min (Fin 720) (if num_truthy h then h else Fin 72))"

record ActionPayload =
  ap_reason :: string
  ap_until_hours :: "jsnum option"

definition stateActionPayload :: "MembershipActions \<Rightarrow> MembershipStateAction \<Rightarrow> ActionPayload" where
  "stateActionPayload a action =
     \<lparr>ap_reason = trim (act_reason a),
      ap_until_hours = (if action = Bypass then Some (bypassHours (act_bypassHours a)) else None)\<rparr>"

text \<open>The button is busy from the click to the end of the request; \<open>response\<close> is \<open>None\<close> when the request is rejected.\<close>

definition runStateActionStart :: "int \<Rightarrow> MembershipActions \<Rightarrow> MembershipActions" where
  "runStateActionStart stateId a = a\<lparr>act_actionLoading := Some stateId\<rparr>"

definition runStateActionEnd :: "string \<Rightarrow> unit Response option \<Rightarrow> MembershipActions \<Rightarrow> RiskEvent list \<times> MembershipActions" where
  "runStateActionEnd statusFilter response a =
     (case response of
        None \<Rightarrow> []
      | Some r \<Rightarrow> if rs_success r then [StateUpdated, RefreshWith statusFilter] else [],
      a\<lparr>act_actionLoading := None\<rparr>)"

definition runBatchActionStart :: "MembershipBatchAction \<Rightarrow> MembershipActions \<Rightarrow> MembershipActions" where
  "runBatchActionStart action a = a\<lparr>act_batchLoading := Some action\<rparr>"

definition batchCount :: "jsval \<Rightarrow> string \<Rightarrow> string" where
  "batchCount result k = js_to_string (coalesce (prop_of result k) (JNum (Fin 0)))"

text \<open>The counts of the message, without the translated text before them.\<close>

definition batchCounts :: "MembershipBatchAction \<Rightarrow> jsval \<Rightarrow> string" where
  "batchCounts action result =
     (case action of
        Backfill \<Rightarrow>
          join ''/'' (map (batchCount result) [''state_rows'', ''event_rows'', ''activated_states''])
      | Demote \<Rightarrow> batchCount result ''demoted_states'')"

definition runBatchActionEnd :: "string \<Rightarrow> MembershipBatchAction \<Rightarrow> jsval Response option \<Rightarrow> MembershipActions \<Rightarrow>
    RiskEvent list \<times> MembershipActions" where
  "runBatchActionEnd statusFilter action response a =
     (case response of
        None \<Rightarrow> []
      | Some r \<Rightarrow>
          if rs_success r
          then [BatchDone (batchCounts action (value_or (rs_data r) (JObj []))), RefreshWith statusFilter]
          else [],
      a\<lparr>act_batchLoading := None\<rparr>)"

section \<open>Labels, tones and the matrix of benefits\<close>

datatype OpsTone = ToneNeutral | ToneSuccess | ToneWarning | ToneDanger | ToneInfo

definition membershipStatusOptions :: "string list" where
  "membershipStatusOptions =
     [[], ''active'', ''unbound_observed'', ''grace'', ''left_expired'', ''restored'', ''manual_bypass'',
      ''rejoin_pending'', ''suspected_left'']"

definition translateMembershipStatus :: "(string \<Rightarrow> string) \<Rightarrow> string \<Rightarrow> string" where
  "translateMembershipStatus t status =
     t (str_or (nullish (map_of
      [(''enabled'', ''Enabled''), (''disabled'', ''Disabled''), (''dry_run'', ''Dry run''),
       (''enforced'', ''Live enforcement''), (''active'', ''Active''),
       (''unbound_observed'', ''Observed but not linked''), (''grace'', ''Grace''), (''left_expired'', ''Expired''),
       (''restored'', ''Restored''), (''manual_bypass'', ''Manual bypass''), (''rejoin_pending'', ''Pending rejoin''),
       (''suspected_left'', ''Suspected leave'')] status) []) status)"

definition translateUnresolvedAction :: "(string \<Rightarrow> string) \<Rightarrow> string \<Rightarrow> string" where
  "translateUnresolvedAction t action =
     t (str_or (str_or (nullish (map_of
      [(''rerun_binding_backfill'', ''Recheck binding backfill''), (''review_then_backfill'', ''Review and backfill''),
       (''manual_pick_user'', ''Manually pick the user''),
       (''ask_user_to_finish_binding'', ''Guide the user to finish binding''),
       (''collect_identity_evidence'', ''Collect more identity evidence'')] action) []) action) ''Unknown'')"

definition unresolvedActionTone :: "string \<Rightarrow> OpsTone" where
  "unresolvedActionTone action =
     (if action = ''review_then_backfill'' \<or> action = ''rerun_binding_backfill'' then ToneInfo
      else if action = ''manual_pick_user'' \<or> action = ''ask_user_to_finish_binding'' then ToneWarning
      else ToneDanger)"

definition membershipStatusOpsTone :: "string \<Rightarrow> OpsTone" where
  "membershipStatusOpsTone status =
     (if List.member [''active'', ''restored'', ''rejoin_pending''] status then ToneSuccess
      else if status = ''manual_bypass'' then ToneInfo
      else if status = ''unbound_observed'' then ToneWarning
      else if status = ''grace'' then ToneWarning
      else ToneDanger)"

record OpsMatrixCell =
  mc_label :: string
  mc_tone :: OpsTone

record OpsMatrixRow =
  mx_benefit :: string
  mx_active :: OpsMatrixCell
  mx_grace :: OpsMatrixCell
  mx_expired :: OpsMatrixCell
  mx_paid :: OpsMatrixCell

definition matrixCell :: "(string \<Rightarrow> string) \<Rightarrow> string \<Rightarrow> OpsTone \<Rightarrow> OpsMatrixCell" where
  "matrixCell t label tone = \<lparr>mc_label = t label, mc_tone = tone\<rparr>"

definition gateRow :: "(string \<Rightarrow> string) \<Rightarrow> MembershipRiskValues \<Rightarrow> string \<Rightarrow> bool \<Rightarrow> OpsMatrixRow" where
  "gateRow t v benefit blockFlag =
     \<lparr>mx_benefit = t benefit,
      mx_active = matrixCell t ''Allowed'' ToneSuccess,
      mx_grace = (if blockFlag then matrixCell t ''By rule'' ToneWarning else matrixCell t ''Allowed'' ToneSuccess),
      mx_expired = (if blockFlag then matrixCell t ''Blocked'' ToneDanger else matrixCell t ''Allowed'' ToneSuccess),
      mx_paid = (if mr_paidBypassEnabled v then matrixCell t ''Allowed'' ToneInfo else matrixCell t ''Blocked'' ToneDanger)\<rparr>"

definition adminRow :: "(string \<Rightarrow> string) \<Rightarrow> MembershipRiskValues \<Rightarrow> OpsMatrixRow" where
  "adminRow t v =
     (let notifyOnLeft = mr_notifyUserOnLeft v \<or> mr_notifyAdminOnBulkLeft v in
      \<lparr>mx_benefit = t ''Admin notification'',
       mx_active = matrixCell t ''Record'' ToneSuccess,
       mx_grace = (if notifyOnLeft then matrixCell t ''Remind'' ToneWarning else matrixCell t ''Record'' ToneSuccess),
       mx_expired =
         (if mr_notifyAdminOnBulkLeft v then matrixCell t ''Alert'' ToneDanger
          else if notifyOnLeft then matrixCell t ''Remind'' ToneWarning else matrixCell t ''Record'' ToneSuccess),
       mx_paid = matrixCell t ''Record'' ToneInfo\<rparr>)"

definition buildMembershipBenefitMatrix :: "(string \<Rightarrow> string) \<Rightarrow> MembershipRiskValues \<Rightarrow> OpsMatrixRow list" where
  "buildMembershipBenefitMatrix t v =
     [gateRow t v ''Community key'' (mr_freezeCommunityTokensAfterGrace v \<or> mr_revokeCommunityAccessAfterGrace v),
      gateRow t v ''Check-in reward'' (mr_blockCheckinOnLeft v),
      gateRow t v ''Game reward'' (mr_blockGameRewardOnLeft v),
      gateRow t v ''Invite reward'' (mr_blockInviteRewardOnLeft v),
      gateRow t v ''Campaign bonus'' (mr_blockCampaignBonusOnLeft v),
      adminRow t v]"

section \<open>A save comes back onto the page\<close>

lemma word_numbers:
  "string_to_number ''true'' = NaN" "string_to_number ''yes'' = NaN" "string_to_number ''on'' = NaN"
  "string_to_number ''false'' = NaN" "string_to_number ''no'' = NaN" "string_to_number ''off'' = NaN"
  "string_to_number ''1'' = Fin 1" "string_to_number ''0'' = Fin 0"
  by code_simp+

lemma lower_num_char: "is_num_char c \<Longrightarrow> to_lower_char c = c"
  by (auto simp: is_num_char_def is_digit_def to_lower_char_def Let_def)

lemma loose_number:
  assumes "binary64 r" "r \<noteq> 0"
  shows "truthy (parseLooseOptionValue (js_String (Fin r))) \<and> js_Number (parseLooseOptionValue (js_String (Fin r))) = Fin r"
proof -
  let ?s = "js_String (Fin r)"
  note chars = js_String_chars [OF assms(1)]
  have num: "string_to_number ?s = Fin r" using assms(1) by (rule string_to_number_String)
  have t: "trim ?s = ?s" using chars num_char_not_ws by (intro trim_no_ws) (auto simp: list_all_iff)
  have l: "to_lower ?s = ?s"
    unfolding to_lower_def by (rule map_idI) (use chars lower_num_char in \<open>auto simp: list_all_iff\<close>)
  show ?thesis
  proof (cases "switch_word ?s")
    case True
    then have "?s = ''1''" using word_numbers num assms(2) t l by (auto simp: switch_word_def)
    moreover have "r = 1" using calculation num word_numbers(7) by simp
    moreover have "parseLooseOptionValue ''1'' = JBool True" by code_simp
    ultimately show ?thesis by (simp add: truthy_def)
  next
    case False
    then have "parseLooseOptionValue ?s = JStr ?s" using t chars by (simp add: loose_cases)
    then show ?thesis using num chars by (simp add: truthy_def)
  qed
qed

lemma bool_field_saved:
  assumes "map_of defaultOperationsSettings k = Some (JBool d)"
    "stored q' k = (if b \<noteq> booleanOption (operationsSettings q) k fb then Some (if b then ''true'' else ''false'') else stored q k)"
  shows "booleanOption (operationsSettings q') k fb = b"
proof -
  have w: "parseLooseOptionValue ''true'' = JBool True" "parseLooseOptionValue ''false'' = JBool False" by code_simp+
  show ?thesis
  proof (cases "b = booleanOption (operationsSettings q) k fb")
    case True
    then have "stored q' k = stored q k" using assms(2) by simp
    from operations_setting_local [OF assms(1) this] True show ?thesis by (simp add: booleanOption_def)
  next
    case False
    then show ?thesis using assms(2) operations_setting [OF assms(1), of q'] w by (auto simp: booleanOption_def truthy_def)
  qed
qed

lemma hours_integer:
  assumes "hours_ok n"
  obtains r where "n = Fin r" "binary64 r" "r \<noteq> 0"
proof -
  obtain r where r: "n = Fin r" "r = of_int \<lfloor>r\<rfloor>" "\<bar>r\<bar> \<le> 9007199254740991" "1 \<le> r"
    using assms by (cases n) (auto simp: hours_ok_def is_safe_integer_def js_between_def js_le_def js_eq_def)
  define z where "z = \<lfloor>r\<rfloor>"
  have "of_int \<bar>z\<bar> \<le> (of_int 9007199254740991 :: rat)" using r(2,3) unfolding z_def [symmetric] by simp
  then have "\<bar>z\<bar> \<le> 9007199254740991" by (simp only: of_int_le_iff)
  then have "\<bar>\<lfloor>r\<rfloor>\<bar> \<le> 2 ^ 53" by (simp add: z_def)
  then have "binary64 (of_int \<lfloor>r\<rfloor>)" by (intro binary64_int) simp
  then have "binary64 r" using r(2) by simp
  then show ?thesis using that r(1,4) by force
qed

lemma number_field_saved:
  assumes "map_of defaultOperationsSettings k = Some (JNum d)" "hours_ok n"
    "stored q' k = (if \<not> js_eq n (numberOption (operationsSettings q) k fb) then Some (js_String n) else stored q k)"
  shows "numberOption (operationsSettings q') k fb = n"
proof (cases "js_eq n (numberOption (operationsSettings q) k fb)")
  case True
  then have "stored q' k = stored q k" using assms(3) by simp
  then have "setting (operationsSettings q') k = setting (operationsSettings q) k"
    by (rule operations_setting_local [OF assms(1)])
  then show ?thesis using True by (simp add: numberOption_def js_eq_def)
next
  case False
  obtain r where r: "n = Fin r" "binary64 r" "r \<noteq> 0" using hours_integer [OF assms(2)] .
  show ?thesis
    using False assms(3) operations_setting [OF assms(1), of q'] loose_number [OF r(2,3)] r(1) by (simp add: numberOption_def)
qed

lemma risk_save_lookup:
  assumes "(f, k) \<in> set membershipRiskOptionKeyMap"
  shows "map_of (risk_save defaults v) k =
    (if riskChanged defaults v f then Some (js_to_string (coalesce (setting (riskFields v) f) (JStr []))) else None)"
proof -
  have pick: "map_of (map (\<lambda>(f, k). (k, t f)) (filter (\<lambda>(f, k). P f) xs)) k = (if P f then Some (t f) else None)"
    if "distinct (map snd xs)" "(f, k) \<in> set xs" for P :: "string \<Rightarrow> bool" and t :: "string \<Rightarrow> string" and xs
    using that
  proof (induction xs)
    case (Cons x xs)
    obtain f' k' where x: "x = (f', k')" by fastforce
    show ?case
    proof (cases "k = k'")
      case True
      then have "(f, k) \<notin> set xs" "k \<notin> snd ` set xs" using Cons.prems(1) x by (auto simp: image_iff)
      moreover have "map_of (map (\<lambda>(f, k). (k, t f)) (filter (\<lambda>(f, k). P f) xs)) k = None"
        using calculation(2) by (force simp: map_of_eq_None_iff)
      ultimately show ?thesis using Cons.prems(2) x True by auto
    next
      case False
      then show ?thesis using Cons x by auto
    qed
  qed simp
  have "distinct (map snd membershipRiskOptionKeyMap)" by code_simp
  from pick [OF this assms] show ?thesis by (simp add: risk_save_def)
qed

text \<open>A field by the name of its option.\<close>

definition field_of :: "string \<Rightarrow> string" where
  "field_of k = nullish (map_of (map prod.swap membershipRiskOptionKeyMap) k) []"

definition risk_value :: "MembershipRiskValues \<Rightarrow> string \<Rightarrow> jsval" where
  "risk_value v k = setting (riskFields v) (field_of k)"

definition risk_option :: "string \<Rightarrow> bool" where
  "risk_option k \<longleftrightarrow> List.member (map snd membershipRiskOptionKeyMap) k \<and> k \<noteq> ''membership_risk.event_secret''"

definition default_typed :: "string \<Rightarrow> string \<Rightarrow> bool" where
  "default_typed k t \<longleftrightarrow> risk_option k \<and> map_option js_typeof (map_of defaultOperationsSettings k) = Some t"

text \<open>What the server lists after a save: it stores every option under its name and never lists the secret.\<close>

definition served_after :: "(string \<times> string) list option \<Rightarrow> (string \<times> string) list \<Rightarrow> (string \<times> string) list option \<Rightarrow> bool" where
  "served_after q ups q' \<longleftrightarrow>
     stored q' ''membership_risk.event_secret'' = None \<and>
     list_all (\<lambda>k. risk_option k \<longrightarrow> stored q' k = (case map_of ups k of Some s \<Rightarrow> Some s | None \<Rightarrow> stored q k))
       (map snd membershipRiskOptionKeyMap)"

lemma risk_option_served:
  assumes "risk_option k" "served_after q (risk_save d v) q'"
  shows "stored q' k = (if strict_eq (risk_value v k) (risk_value d k) then stored q k
    else Some (js_to_string (coalesce (risk_value v k) (JStr []))))"
proof -
  have "list_all (\<lambda>(f, k). field_of k = f) membershipRiskOptionKeyMap" by code_simp
  moreover obtain f where f: "(f, k) \<in> set membershipRiskOptionKeyMap" using assms(1) by (auto simp: risk_option_def)
  ultimately have "field_of k = f" by (auto simp: list_all_iff)
  moreover have "stored q' k = (case map_of (risk_save d v) k of Some s \<Rightarrow> Some s | None \<Rightarrow> stored q k)"
  proof -
    have "k \<in> set (map snd membershipRiskOptionKeyMap)" using assms(1) by (simp add: risk_option_def)
    then show ?thesis using assms unfolding served_after_def list_all_iff by blast
  qed
  ultimately show ?thesis
    using risk_save_lookup [OF f, of d v] by (simp add: riskChanged_def risk_value_def)
qed

lemma typeof_iff: "js_typeof v = ''boolean'' \<longleftrightarrow> (\<exists>b. v = JBool b)" "js_typeof v = ''number'' \<longleftrightarrow> (\<exists>n. v = JNum n)"
  by (cases v; simp add: js_typeof_def)+

lemma risk_bool_saved:
  assumes "served_after q (risk_save (membershipRiskPage q) v) q'"
    and "default_typed k ''boolean''" "risk_value v k = JBool b"
    and "risk_value (membershipRiskPage q) k = JBool (booleanOption (operationsSettings q) k fb)"
  shows "booleanOption (operationsSettings q') k fb = b"
proof -
  obtain d where d: "map_of defaultOperationsSettings k = Some (JBool d)"
    using assms(2) by (auto simp: default_typed_def typeof_iff)
  have "risk_option k" using assms(2) by (simp add: default_typed_def)
  from risk_option_served [OF this assms(1)] show ?thesis
    by (intro bool_field_saved [OF d, of q' b q fb]) (auto simp: assms(3,4) strict_eq_def coalesce_def)
qed

lemma risk_number_saved:
  assumes "served_after q (risk_save (membershipRiskPage q) v) q'"
    and "default_typed k ''number''" "hours_ok n" "risk_value v k = JNum n"
    and "risk_value (membershipRiskPage q) k = JNum (numberOption (operationsSettings q) k fb)"
  shows "numberOption (operationsSettings q') k fb = n"
proof -
  obtain d where d: "map_of defaultOperationsSettings k = Some (JNum d)"
    using assms(2) by (auto simp: default_typed_def typeof_iff)
  have "risk_option k" using assms(2) by (simp add: default_typed_def)
  from risk_option_served [OF this assms(1)] show ?thesis
    by (intro number_field_saved [OF d assms(3), of q' q fb]) (auto simp: assms(4,5) strict_eq_def coalesce_def)
qed

lemma risk_secret_hidden:
  assumes "served_after q ups q'"
  shows "stringOption (operationsSettings q') ''membership_risk.event_secret'' = []"
proof -
  have "map_of defaultOperationsSettings ''membership_risk.event_secret'' = Some (JStr [])" by code_simp
  from operations_setting [OF this, of q'] assms show ?thesis
    by (simp add: stringOption_def served_after_def truthy_def)
qed

lemmas risk_value_defs = risk_value_def field_of_def riskFields_def membershipRiskOptionKeyMap_def setting_def
  nullish_def membershipRiskPage_def buildMembershipRiskDefaults_def

lemma hours_strict_refl: "hours_ok n \<Longrightarrow> strict_eq (JNum n) (JNum n)"
  by (auto simp: hours_ok_def is_safe_integer_def strict_eq_def js_eq_def split: jsnum.splits)

lemma risk_save_same:
  assumes "membershipRiskSchema v"
  shows "risk_save v v = []"
proof -
  have n: "strict_eq (JNum (mr_graceHours v)) (JNum (mr_graceHours v))"
    "strict_eq (JNum (mr_scheduledRecheckIntervalHours v)) (JNum (mr_scheduledRecheckIntervalHours v))"
    using assms hours_strict_refl by (simp_all add: membershipRiskSchema_def)
  have o: "strict_eq (JBool b) (JBool b)" "strict_eq JUndefined JUndefined" "strict_eq (JStr s) (JStr s)" for b s
    by (simp_all add: strict_eq_def)
  have "\<forall>e\<in>set (riskFields v). strict_eq (snd e) (snd e)"
    using n o by (auto simp: riskFields_def split: option.split)
  then have e: "strict_eq (setting (riskFields v) f) (setting (riskFields v) f)" for f
    using o(2) by (auto simp: setting_def nullish_def dest!: map_of_SomeD split: option.split)
  show ?thesis by (simp add: risk_save_def riskChanged_def e)
qed

text \<open>C40: Settings that pass the schema survive a save: when the server stores what was sent and lists it again, the
  page reads back the same settings, except for the event secret, which is never listed and
  shows blank. Saving the page again then sends nothing.\<close>

theorem membership_save_roundtrip:
  assumes "membershipRiskSchema v" "served_after q (risk_save (membershipRiskPage q) v) q'"
  shows "membershipRiskPage q' = v\<lparr>mr_eventSecret := Some []\<rparr> \<and>
    risk_save (membershipRiskPage q') (membershipRiskPage q') = []"
proof -
  note saved = risk_bool_saved [OF assms(2)]
  have hours: "hours_ok (mr_graceHours v)" "hours_ok (mr_scheduledRecheckIntervalHours v)"
    using assms(1) by (simp_all add: membershipRiskSchema_def)
  have numbers: "numberOption (operationsSettings q') ''membership_risk.grace_hours'' (Fin 24) = mr_graceHours v"
    "numberOption (operationsSettings q') ''membership_risk.scheduled_recheck_interval_hours'' (Fin 12) =
       mr_scheduledRecheckIntervalHours v"
    by (rule risk_number_saved [OF assms(2)], code_simp, rule hours, simp_all add: risk_value_defs)+
  have switches:
    "booleanOption (operationsSettings q') ''membership_risk.enabled'' False = mr_enabled v"
    "booleanOption (operationsSettings q') ''membership_risk.dry_run'' True = mr_dryRun v"
    "booleanOption (operationsSettings q') ''membership_risk.auto_restore_on_rejoin'' True = mr_autoRestoreOnRejoin v"
    "booleanOption (operationsSettings q') ''membership_risk.paid_bypass_enabled'' True = mr_paidBypassEnabled v"
    "booleanOption (operationsSettings q') ''membership_risk.freeze_community_tokens_after_grace'' True = mr_freezeCommunityTokensAfterGrace v"
    "booleanOption (operationsSettings q') ''membership_risk.revoke_community_access_after_grace'' True = mr_revokeCommunityAccessAfterGrace v"
    "booleanOption (operationsSettings q') ''membership_risk.block_checkin_on_left'' True = mr_blockCheckinOnLeft v"
    "booleanOption (operationsSettings q') ''membership_risk.block_game_reward_on_left'' True = mr_blockGameRewardOnLeft v"
    "booleanOption (operationsSettings q') ''membership_risk.block_invite_reward_on_left'' True = mr_blockInviteRewardOnLeft v"
    "booleanOption (operationsSettings q') ''membership_risk.block_campaign_bonus_on_left'' True = mr_blockCampaignBonusOnLeft v"
    "booleanOption (operationsSettings q') ''membership_risk.notify_user_on_left'' True = mr_notifyUserOnLeft v"
    "booleanOption (operationsSettings q') ''membership_risk.notify_admin_on_bulk_left'' True = mr_notifyAdminOnBulkLeft v"
    "booleanOption (operationsSettings q') ''membership_risk.qq_events_enabled'' True = mr_qqEventsEnabled v"
    "booleanOption (operationsSettings q') ''membership_risk.tg_events_enabled'' True = mr_tgEventsEnabled v"
    "booleanOption (operationsSettings q') ''membership_risk.scheduled_recheck_enabled'' True = mr_scheduledRecheckEnabled v"
    by (rule saved, code_simp, simp_all add: risk_value_defs)+
  have page: "membershipRiskPage q' = v\<lparr>mr_eventSecret := Some []\<rparr>"
    using risk_secret_hidden [OF assms(2)]
    by (simp add: membershipRiskPage_def buildMembershipRiskDefaults_def numbers switches)
  have "membershipRiskSchema (v\<lparr>mr_eventSecret := Some []\<rparr>)" using assms(1) by (simp add: membershipRiskSchema_def)
  then show ?thesis using page risk_save_same by simp
qed

theorem membership_save_roundtrip_witness:
  "mr_graceHours (membershipRiskPage (Some [(''membership_risk.grace_hours'', ''1'')])) = Fin 1"
proof -
  let ?v = "(membershipRiskPage None)\<lparr>mr_graceHours := Fin 1\<rparr>"
  have s: "membershipRiskSchema ?v" by code_simp
  have "served_after None (risk_save (membershipRiskPage None) ?v) (Some [(''membership_risk.grace_hours'', ''1'')])"
    by code_simp
  from membership_save_roundtrip [OF s this] show ?thesis by simp
qed

section \<open>Temporary exceptions, the matrix and the busy marks\<close>

text \<open>C0: A temporary exception always runs for at least one hour and at most 720, whatever the input for the hours
  holds: nothing, a text that is no number, zero, a negative or an infinite number.\<close>

theorem bypass_hours_bounded:
  "\<exists>r. ap_until_hours (stateActionPayload a Bypass) = Some (Fin r) \<and> 1 \<le> r \<and> r \<le> 720 \<and>
     (\<forall>h. act_bypassHours a = Fin h \<longrightarrow> 1 \<le> h \<longrightarrow> h \<le> 720 \<longrightarrow> r = h) \<and>
     (\<forall>action. action \<noteq> Bypass \<longrightarrow> ap_until_hours (stateActionPayload a action) = None)"
proof -
  have "\<exists>r. bypassHours n = Fin r \<and> 1 \<le> r \<and> r \<le> 720 \<and> (\<forall>h. n = Fin h \<longrightarrow> 1 \<le> h \<longrightarrow> h \<le> 720 \<longrightarrow> r = h)" for n
    by (cases n) (auto simp: bypassHours_def js_max_def js_min_def num_truthy_def)
  then show ?thesis by (simp add: stateActionPayload_def)
qed

theorem benefit_matrix_gates:
  "map (\<lambda>r. mc_label (mx_expired r)) (take 5 (buildMembershipBenefitMatrix t v)) =
     map (\<lambda>b. t (if b then ''Blocked'' else ''Allowed''))
       [mr_freezeCommunityTokensAfterGrace v \<or> mr_revokeCommunityAccessAfterGrace v, mr_blockCheckinOnLeft v,
        mr_blockGameRewardOnLeft v, mr_blockInviteRewardOnLeft v, mr_blockCampaignBonusOnLeft v] \<and>
   (\<forall>r\<in>set (take 5 (buildMembershipBenefitMatrix t v)).
      mx_paid r = (if mr_paidBypassEnabled v then matrixCell t ''Allowed'' ToneInfo else matrixCell t ''Blocked'' ToneDanger))"
  by (simp add: buildMembershipBenefitMatrix_def gateRow_def matrixCell_def)

lemma action_ends_idle:
  "act_actionLoading (snd (runStateActionEnd flt response a)) = None"
  "act_batchLoading (snd (runBatchActionEnd flt action bresponse a)) = None"
  "src_loading (refreshEnd responses s) = False"
  by (simp_all add: runStateActionEnd_def runBatchActionEnd_def refreshEnd_def split: option.split)

lemma refresh_keeps_failed_parts:
  "\<not> rs_success ov \<Longrightarrow> src_overview (refreshEnd (Some (ov, un, dr, st)) s) = src_overview s"
  "\<not> rs_success st \<Longrightarrow> src_states (refreshEnd (Some (ov, un, dr, st)) s) = src_states s"
  by (simp_all add: refreshEnd_def)

end
