(* ===== verification/Spec2Isabelle.thy ===== *)
theory Spec2Isabelle
  imports HttpStatusCodeRules RequestRules BillingEval TierExpr PlaygroundStream ChannelModels ChannelRows RatioSync ChannelFormData NavModules AccessControl TableUrlState Notifications QuotaForms PricingCatalog SettingsForm MembershipRisk
begin

text \<open>
  Verification of the pricing, relay and playground logic of the administration console
  (\<open>web/default/src\<close>, TypeScript).

  \<^bold>\<open>The program.\<close> The repository is a gateway for language model providers: a server relays requests to
  upstream channels and bills them, and a console configures it. The console holds the logic that this
  development models. An administrator prices a model per token, per request or by a billing expression;
  the expression is edited as tiers and request rules, estimated in the browser and stored as text in the
  server's settings; prices can be copied from upstream channels; channels are edited and checked before they
  are sent; a playground streams answers of a model. The parts meet in texts: what one part prints (a rule
  list, an expression, a settings object, a model list) another part, or the same part in a later session,
  parses. Most properties are about that boundary.

  \<^bold>\<open>The language.\<close>
  \<^item> \<open>Prelude\<close>: strings, splitting, trimming, joining and insertion-ordered sets; a locale for operations that
    normalise a value.
  \<^item> \<open>JsNumber\<close>: binary64 numbers as exact rationals with rounding to nearest even, \<open>Number(s)\<close> and
    \<open>String(n)\<close>; \<open>JsFormat\<close>: \<open>toFixed\<close>, \<open>parseFloat\<close> and the accuracy of rounding.
  \<^item> \<open>JsRegex\<close>: regular expressions with the backtracking order of the language.
  \<^item> \<open>JsJson\<close>, \<open>JsJsonPrint\<close>: JSON values, \<open>JSON.parse\<close>, \<open>JSON.stringify\<close>, the enumeration order of
    properties, and the round trip of every value up to what printing loses.

  \<^bold>\<open>The components.\<close>
  \<^item> \<open>HttpStatusCodeRules\<close> (\<open>lib/http-status-code-rules.ts\<close>): rule lists such as \<open>401,500-503\<close>. Parsing gives the
    one list of sorted, separated ranges with the codes named; the printed form is canonical; what is rejected and what a
    segment names is specified without the parser.
  \<^item> \<open>BillingExpr\<close>, \<open>RequestRules\<close> (\<open>features/pricing/lib/billing-expr.ts\<close>): tiers and conditional multipliers of
    a billing expression. Printing and parsing, and combining and splitting, undo each other on the
    conditions the parser can read; two theorems mark what it cannot read.
  \<^item> \<open>BillingEval\<close> (\<open>features/pricing/lib/tier-expr.ts\<close>, the evaluator): validation and evaluation of a syntax
    tree. The evaluator refines a denotational meaning of the expression and never yields a number that is
    not finite. The tree is made by the package acorn, an argument of the model.
  \<^item> \<open>TierExpr\<close> (the same file, the visual editor): a tier configuration, its expression, and recognition of
    such an expression.
  \<^item> \<open>PlaygroundMessages\<close>, \<open>PlaygroundStream\<close> (\<open>features/playground\<close>): messages, the separation of reasoning,
    requests, and the handlers of a stream as a state machine with an inductive step relation.
  \<^item> \<open>ChannelModels\<close> (\<open>features/channels/lib\<close> and the submit handler of the channel drawer): model lists and
    mappings, risky status code redirects, upstream metadata, and exactly when and with what the form is sent.
  \<^item> \<open>ChannelRows\<close> (\<open>features/channels/lib/channel-utils.ts\<close>): labels and lists of a channel, and the rows that
    group channels by tag, as the comments promise them, with the accuracy of their aggregated numbers.
  \<^item> \<open>ParamOverride\<close>, \<open>ParamOverrideDialog\<close> (\<open>param-override-editor-dialog.tsx\<close>): the list of operations on a request, its
    text and its drafts, and the dialog as a state machine over its events. Saving is stable under reopening, the
    list is never empty and its identifiers stay distinct; edits of pruning rules are shown to be lost.
  \<^item> \<open>ChannelFormData\<close> (\<open>features/channels/lib/channel-form.ts\<close> and the request hook): the checks of the channel form, the
    form of a stored channel, and the payloads. The settings read back as entered, what an unedited save sends is exact, and
    a stored key is only replaced by a typed one.
  \<^item> \<open>PricingEditor\<close> (\<open>features/system-settings/models\<close>, the panel): displayed numbers, and the panel that
    keeps displayed prices and stored ratios in step.
  \<^item> \<open>PricingSettings\<close> (the same directory, the table): reading, comparing and writing the ten settings.
  \<^item> \<open>RatioSync\<close> (the same directory, upstream prices): selecting and applying upstream values.
  \<^item> \<open>NavModules\<close>, \<open>AccessControl\<close> (\<open>lib/nav-modules.ts\<close>, \<open>hooks/use-sidebar-config.ts\<close>, \<open>use-top-nav-links.ts\<close>,
    \<open>use-access-control.ts\<close>): which pages the header and the sidebar show and which a route admits. The sidebar
    shows exactly what both layers of its configuration allow; what is shown is admitted.
  \<^item> \<open>TableUrlState\<close> (\<open>hooks/use-table-url-state.ts\<close> and the columns of \<open>usage-logs-table.tsx\<close>): pages and filters of a table in
    the search parameters, under sequences of events; the filters stay those of the address and the correction of the page takes one navigation.
  \<^item> \<open>Notifications\<close> (\<open>stores/notification-store.ts\<close>, \<open>hooks/use-notifications.ts\<close>): what the user has read and seen,
    the 32-bit hash that stands for an announcement without an id, and the popover as a state machine. Read marks are
    never lost, a forced popup is recorded when it is closed, and what the hash can and cannot tell apart.
  \<^item> \<open>CurrencyDisplay\<close> (\<open>lib/currency.ts\<close>, \<open>lib/format.ts\<close>, \<open>stores/system-config-store.ts\<close>, \<open>hooks/use-system-config.ts\<close>):
    display settings and the conversion of quota units, dollars and local currency. Units survive four roundings
    on the way to the screen and back. \<open>Intl.NumberFormat\<close> is an argument.
  \<^item> \<open>QuotaForms\<close> (the forms of \<open>features/keys\<close>, \<open>redemption-codes\<close>, \<open>subscriptions\<close> and \<open>users\<close>): records shown in the
    display currency and sent back. What unedited saves send is exact; the quota dialog sends what its preview announces.
  \<^item> \<open>PricingCatalog\<close> (\<open>features/pricing/lib\<close> and \<open>hooks\<close>): the public price list. The list is exactly what the filters
    ask for, in the order asked for; offered tags select something; a free group is shown at the full price.
  \<^item> \<open>SystemOptions\<close> (\<open>features/system-settings\<close>: \<open>use-system-options.ts\<close>, \<open>settings-page.tsx\<close>, \<open>operations/index.tsx\<close>,
    \<open>section-registry.ts\<close>, \<open>numeric-field.ts\<close>): the options of the server as the settings of a page. The typed reading keeps
    the type of every default; the operations page then replaces it by a loose one.
  \<^item> \<open>SettingsForm\<close> (\<open>use-settings-form.ts\<close>): dotted names and nested objects are inverse, a submit sends exactly what
    changed, and the baseline follows the saved values.
  \<^item> \<open>OperationsForms\<close> (the behaviour, monitoring, email, worker and performance sections): schemas and saves, and what the loose
    reading does to them: when the monitoring section cannot be shown, which number inputs are blank and which fields an
    unedited save sends.
  \<^item> \<open>MembershipRisk\<close> (\<open>membership-risk-model.ts\<close>, \<open>membership-risk-section.tsx\<close>): settings, saves, actions and the matrix of
    benefits. A save comes back unchanged through the server and the page; exceptions last between 1 and 720 hours.

  \<^bold>\<open>How the model is made.\<close> A function of the source is a HOL function of the same name. State of a page is a
  record and a handler is a function on it. An exception is the left side of a sum. Answers of the user,
  generated identifiers, the clock and third-party packages are arguments. A loop over an array is a
  recursion over a list; an effect that may trigger itself is a partial function into an option. The interfaces between components are locales, interpreted where their operations
  are defined: normalisers (\<open>Prelude\<close>), splitters at top level (\<open>BillingExpr\<close>), printers with their
  parsers (\<open>RequestRules\<close>), updates of a message (\<open>PlaygroundMessages\<close>), stores of text settings
  (\<open>PricingSettings\<close>), logs of keys (\<open>Notifications\<close>), comparison functions (\<open>PricingCatalog\<close>) and readings of
  stored options (\<open>SystemOptions\<close>).

  \<^bold>\<open>Fuel.\<close> Two definitions carry fuel. \<open>json_parse\<close> uses twice the length of the text plus two, and the round
  trip lemmas show that it returns; the search for the shortest digits of a number tries enough digits
  for every binary64 value. All other recursions terminate by a measure.

  \<^bold>\<open>Limits of the model.\<close> A character is a code unit below 256, so replacements of full-width characters are the
  identity. The sign of zero is not kept. A setting whose JSON is not an object contradicts its declared type
  and is an error. Inherited properties of objects are left out. The type, priority and weight of a channel are
  integers, as the server sends them. The router is reduced to the values of the search parameters. The option
  \<open>compareValues\<close> of the settings form, which no caller passes, is left out. The order of \<open>localeCompare\<close>
  depends on the locale, so it is an argument.

  \<^bold>\<open>Not modelled.\<close> Rendering, styling, routing, charts and translations; HTTP requests and browser
  storage; the date displays, which belong to a package; the server, which is written in
  Go; the older console under \<open>web/classic\<close>; the agent, community and quiz sections of the operations page and the
  dashboards, which show the state of remote services and hold little of their own.
\<close>

section \<open>Properties across components\<close>

text \<open>C25: A parameter override that the visual editor saves is accepted by the schema of the channel form: writing it
  into a valid form leaves the form valid.\<close>

theorem saved_override_accepted:
  assumes "channelFormSchema form" "dg_editMode d = EditVisual" "handleSave d = Inr t"
  shows "channelFormSchema (form\<lparr>fv_param_override := Some t\<rparr>)"
proof -
  have "isOptionalJsonObject (Some t)" using assms(2,3) visual_override_accepted by (simp add: handleSave_def)
  moreover have "schema_issues (form\<lparr>fv_param_override := Some t\<rparr>) = schema_issues form"
    by (simp add: schema_issues_def batch_mode_def)
  ultimately show ?thesis using assms(1) by (simp add: channelFormSchema_def schema_fields_def)
qed

theorem saved_override_accepted_witness:
  "\<exists>t. handleSave (pruning_dialog\<lparr>dg_visualMode := VisualLegacy, dg_legacyValue := ''{}''\<rparr>) = Inr t \<and>
     channelFormSchema (anthropic_form\<lparr>fv_param_override := Some t\<rparr>)"
proof -
  let ?d = "pruning_dialog\<lparr>dg_visualMode := VisualLegacy, dg_legacyValue := ''{}''\<rparr>"
  have "json_parse ''{}'' = Some (JObj [])" "trim ''{}'' = ''{}''" by code_simp+
  then have s: "handleSave ?d = Inr (json_stringify 2 (JObj []))"
    by (simp add: handleSave_def buildVisualJson_def pruning_dialog_def)
  have "dg_editMode ?d = EditVisual" by (simp add: pruning_dialog_def)
  then show ?thesis using s saved_override_accepted [OF anthropic_form_valid _ s] by blast
qed

end
